(* ===== verification/Adb_Prelude.thy ===== *)
theory Adb_Prelude
  imports Main "HOL-Library.Word"
begin

text \<open>
  Shared vocabulary of the development.

  A C function that may abort, call \<open>exit\<close> or touch memory it must not touch returns a value of
  \<open>'a outcome\<close>: \<open>Inl\<close> of a \<open>fault\<close>, or \<open>Inr\<close> of the result. \<open>bindE\<close> sequences two such
  steps. Addresses are natural numbers with 0 for \<open>NULL\<close>; bytes are \<open>char\<close>s (the type has
  exactly 256 values), so that the text protocol of adb can be written with string literals.
  The theory ends with the formatting functions of the C library the sources rely on
  (\<open>%x\<close>, \<open>%04x\<close>, \<open>%d\<close>) and with the four-byte little-endian image of a 32-bit word.
\<close>

unbundle bit_operations_syntax

section \<open>Collections of rules\<close>

named_theorems outcome_simps \<open>sequencing of fallible steps\<close>
named_theorems flag_simps \<open>bit tests on event and state masks\<close>
named_theorems inv_defs \<open>definitions of component invariants\<close>

section \<open>Types of the model\<close>

type_synonym addr = nat
type_synonym byte = char
type_synonym u16 = "16 word"
type_synonym u32 = "32 word"

abbreviation (input) NULL :: addr where
  "NULL \<equiv> 0"

text \<open>
  \<open>Fatal msg\<close> stands for \<open>fatal\<close>, \<open>fatal_errno\<close>, \<open>FATAL\<close> and \<open>exit\<close>; \<open>Bad_access\<close> for an access
  that C leaves undefined (a null or freed object, an index outside an array).
\<close>

datatype fault = Fatal string | Bad_access string

type_synonym 'a outcome = "fault + 'a"

text \<open>The values of \<open>errno\<close> the sources test for; every other value is \<open>Eother\<close>.\<close>

datatype errno =
  EINTR | EAGAIN | EBADF | ENOENT | EEXIST | ECONNABORTED | ENODEV | ETIMEDOUT | Eother int

section \<open>Sequencing\<close>

definition bindE :: "'a outcome \<Rightarrow> ('a \<Rightarrow> 'b outcome) \<Rightarrow> 'b outcome" where
  "bindE m f = (case m of Inl e \<Rightarrow> Inl e | Inr x \<Rightarrow> f x)"

lemma bindE_Inl [simp, outcome_simps]: "bindE (Inl e) f = Inl e"
  by (simp add: bindE_def)

lemma bindE_Inr [simp, outcome_simps]: "bindE (Inr x) f = f x"
  by (simp add: bindE_def)

lemma bindE_eq_Inr [outcome_simps]: "bindE m f = Inr y \<longleftrightarrow> (\<exists>x. m = Inr x \<and> f x = Inr y)"
  by (cases m) auto

lemma bindE_assoc: "bindE (bindE m f) g = bindE m (\<lambda>x. bindE (f x) g)"
  by (cases m) auto

lemma bindE_InrE:
  assumes "bindE m f = Inr y"
  obtains x where "m = Inr x" and "f x = Inr y"
  using assms by (auto simp: bindE_eq_Inr)

text \<open>Dereferencing an object of a heap: a missing object is an access C leaves undefined.\<close>

definition deref :: "string \<Rightarrow> (addr \<Rightarrow> 'a option) \<Rightarrow> addr \<Rightarrow> 'a outcome" where
  "deref what h a = (case h a of None \<Rightarrow> Inl (Bad_access what) | Some x \<Rightarrow> Inr x)"

lemma deref_Some [simp, outcome_simps]: "h a = Some x \<Longrightarrow> deref what h a = Inr x"
  by (simp add: deref_def)

lemma deref_None [simp, outcome_simps]: "h a = None \<Longrightarrow> deref what h a = Inl (Bad_access what)"
  by (simp add: deref_def)

lemma deref_eq_Inr [outcome_simps]: "deref what h a = Inr x \<longleftrightarrow> h a = Some x"
  by (auto simp: deref_def split: option.splits)

section \<open>Formatting integers\<close>

definition hex_digit :: "nat \<Rightarrow> char" where
  "hex_digit d = ''0123456789abcdef'' ! d"

text \<open>\<open>%x\<close>: lower-case hexadecimal without leading zeros.\<close>

fun fmt_x :: "nat \<Rightarrow> string" where
  "fmt_x n = (if n < 16 then [hex_digit n] else fmt_x (n div 16) @ [hex_digit (n mod 16)])"

declare fmt_x.simps [simp del]

text \<open>\<open>%04x\<close>: at least four digits, padded with zeros on the left.\<close>

definition fmt_04x :: "nat \<Rightarrow> string" where
  "fmt_04x n = replicate (4 - length (fmt_x n)) CHR ''0'' @ fmt_x n"

text \<open>\<open>%d\<close> of a non-negative and of a signed integer.\<close>

fun fmt_nat :: "nat \<Rightarrow> string" where
  "fmt_nat n =
     (if n < 10 then [''0123456789'' ! n] else fmt_nat (n div 10) @ [''0123456789'' ! (n mod 10)])"

declare fmt_nat.simps [simp del]

definition fmt_d :: "int \<Rightarrow> string" where
  "fmt_d i = (if i < 0 then CHR ''-'' # fmt_nat (nat (- i)) else fmt_nat (nat i))"

lemma fmt_x_nonempty [simp]: "fmt_x n \<noteq> []"
  by (subst fmt_x.simps) simp

lemma length_fmt_x_small: "n < 16 ^ Suc k \<Longrightarrow> length (fmt_x n) \<le> Suc k"
proof (induction k arbitrary: n)
  case 0
  then show ?case by (subst fmt_x.simps) simp
next
  case (Suc k)
  show ?case
  proof (cases "n < 16")
    case True
    then show ?thesis by (subst fmt_x.simps) simp
  next
    case False
    have "n div 16 < 16 ^ Suc k" using Suc.prems by (simp add: div_less_iff_less_mult)
    then have "length (fmt_x (n div 16)) \<le> Suc k" by (rule Suc.IH)
    with False show ?thesis by (subst fmt_x.simps) simp
  qed
qed

lemma length_fmt_04x: "n < 65536 \<Longrightarrow> length (fmt_04x n) = 4"
  using length_fmt_x_small [of n 3] by (simp add: fmt_04x_def)

text \<open>For a value of 16 bits the four digits are its four nibbles.\<close>

lemma fmt_x_step: "16 \<le> n \<Longrightarrow> fmt_x n = fmt_x (n div 16) @ [hex_digit (n mod 16)]"
  by (subst fmt_x.simps) simp

lemma fmt_x_digit: "n < 16 \<Longrightarrow> fmt_x n = [hex_digit n]"
  by (subst fmt_x.simps) simp

lemma hex_digit_0: "hex_digit 0 = CHR ''0''"
  by (simp add: hex_digit_def)

lemma fmt_04x_nibbles:
  assumes "n < 65536"
  shows "fmt_04x n = [hex_digit (n div 4096), hex_digit (n div 256 mod 16),
                      hex_digit (n div 16 mod 16), hex_digit (n mod 16)]"
proof -
  have d: "n div 16 div 16 = n div 256" "n div 16 div 16 div 16 = n div 4096"
    "n div 256 div 16 = n div 4096"
    by (simp_all add: div_mult2_eq [symmetric])
  have small: "n div 4096 < 16" using assms by (simp add: div_less_iff_less_mult)
  consider "n < 16" | "16 \<le> n" "n < 256" | "256 \<le> n" "n < 4096" | "4096 \<le> n" by linarith
  then show ?thesis
  proof cases
    case 1
    then show ?thesis by (simp add: fmt_04x_def fmt_x_digit hex_digit_0 numeral_3_eq_3 numeral_2_eq_2)
  next
    case 2
    then have "n div 16 < 16" "n div 256 = 0" "n div 4096 = 0" by auto
    with 2 show ?thesis
      by (simp add: fmt_04x_def fmt_x_step fmt_x_digit hex_digit_0 numeral_3_eq_3 numeral_2_eq_2)
  next
    case 3
    then have "16 \<le> n div 16" "n div 256 < 16" "n div 4096 = 0" by auto
    with 3 d show ?thesis
      by (simp add: fmt_04x_def fmt_x_step fmt_x_digit hex_digit_0 numeral_3_eq_3 numeral_2_eq_2)
  next
    case 4
    then have "16 \<le> n div 16" "16 \<le> n div 256" by auto
    with 4 d small show ?thesis
      by (simp add: fmt_04x_def fmt_x_step fmt_x_digit)
  qed
qed

section \<open>Little-endian words\<close>

text \<open>The four bytes of an \<open>unsigned\<close> as they lie in memory on the little-endian hosts adb runs on.\<close>

definition le_bytes :: "u32 \<Rightarrow> byte list" where
  "le_bytes w = [char_of (unat w), char_of (unat w div 256), char_of (unat w div 65536),
                 char_of (unat w div 16777216)]"

definition le_word :: "byte list \<Rightarrow> u32" where
  "le_word bs = of_char (bs ! 0) + of_char (bs ! 1) * 256 + of_char (bs ! 2) * 65536
                 + of_char (bs ! 3) * 16777216"

lemma length_le_bytes [simp]: "length (le_bytes w) = 4"
  by (simp add: le_bytes_def)

lemma of_char_lt_256 [simp]: "(of_char c :: nat) < 256"
  by simp

lemma base256:
  fixes n :: nat
  assumes "n < 2 ^ 32"
  shows "n mod 256 + n div 256 mod 256 * 256 + n div 65536 mod 256 * 65536
     + n div 16777216 mod 256 * 16777216 = n"
proof -
  have d: "n div 256 div 256 = n div 65536" "n div 65536 div 256 = n div 16777216"
    by (simp_all add: div_mult2_eq [symmetric])
  have top: "n div 16777216 mod 256 = n div 16777216"
    using assms by (simp add: div_less_iff_less_mult)
  have "n = n div 256 * 256 + n mod 256"
    and "n div 256 = n div 65536 * 256 + n div 256 mod 256"
    and "n div 65536 = n div 16777216 * 256 + n div 65536 mod 256"
    using div_mod_decomp [of n 256] div_mod_decomp [of "n div 256" 256]
      div_mod_decomp [of "n div 65536" 256] d by simp_all
  with top show ?thesis by linarith
qed

lemma le_word_le_bytes [simp]: "le_word (le_bytes w) = w"
proof -
  have b: "unat w < 2 ^ 32" using unsigned_less [of w] by simp
  then have top: "unat w div 16777216 mod 256 = unat w div 16777216"
    by (simp add: div_less_iff_less_mult)
  from arg_cong [OF base256 [OF b], of "of_nat :: nat \<Rightarrow> u32"]
  have "word_of_nat (unat w mod 256) + word_of_nat (unat w div 256 mod 256) * 256
     + word_of_nat (unat w div 65536 mod 256) * 65536
     + word_of_nat (unat w div 16777216) * 16777216 = w"
    by (simp only: of_nat_add of_nat_mult of_nat_numeral of_nat_unat ucast_id top)
  moreover have "(of_char (char_of n :: char) :: u32) = word_of_nat (n mod 256)" for n
    using of_nat_of_char [of "char_of n", where 'a = u32] by (simp del: of_nat_of_char)
  ultimately show ?thesis by (simp add: le_word_def le_bytes_def top)
qed

lemma le_word_append: "length as = 4 \<Longrightarrow> le_word (as @ bs) = le_word as"
  by (simp add: le_word_def nth_append)

end
