(* ===== verification/Link_Ring.thy ===== *)
theory Link_Ring
  imports Adb_Prelude
begin

text \<open>
  Circular doubly linked lists with a sentinel, the one container adb uses everywhere: the pending
  events of \<open>fdevent.c\<close>, the socket lists of \<open>sockets.cpp\<close>, the transport and disconnect lists of
  \<open>transport.cpp\<close>, the processes of \<open>jdwp_service.c\<close>. The \<open>next\<close> and \<open>prev\<close> fields of all nodes are
  two functions on addresses (a heap split by field), and the C assignments are function updates in
  the order the source has them.

  The first part models \<open>list.cpp\<close>; \<open>ring h l xs\<close> says that the sentinel \<open>l\<close> heads a well-formed
  ring with the nodes \<open>xs\<close>. The locale \<open>ring_list\<close> is the contract of a component that keeps its
  own copy of the two link operations: what inserting and unlinking do to the represented list.
  Every component interprets it on its own definitions and gets the lemmas proved here.
\<close>

section \<open>The link fields and list.cpp\<close>

record links =
  nxt :: "addr \<Rightarrow> addr"
  prv :: "addr \<Rightarrow> addr"

definition set_nxt :: "addr \<Rightarrow> addr \<Rightarrow> links \<Rightarrow> links" where
  "set_nxt a b h = h\<lparr>nxt := (nxt h)(a := b)\<rparr>"

definition set_prv :: "addr \<Rightarrow> addr \<Rightarrow> links \<Rightarrow> links" where
  "set_prv a b h = h\<lparr>prv := (prv h)(a := b)\<rparr>"

lemma link_sel [simp]:
  "nxt (set_nxt a b h) = (nxt h)(a := b)" "prv (set_nxt a b h) = prv h"
  "nxt (set_prv a b h) = nxt h" "prv (set_prv a b h) = (prv h)(a := b)"
  by (simp_all add: set_nxt_def set_prv_def)

definition list_init :: "addr \<Rightarrow> links \<Rightarrow> links" where
  "list_init node h = set_prv node node (set_nxt node node h)"

definition list_add_tail :: "addr \<Rightarrow> addr \<Rightarrow> links \<Rightarrow> links" where
  "list_add_tail head item h =
     (let h = set_nxt item head h;
          h = set_prv item (prv h head) h;
          h = set_nxt (prv h head) item h
      in set_prv head item h)"

definition list_remove :: "addr \<Rightarrow> links \<Rightarrow> links" where
  "list_remove item h =
     (let h = set_prv (nxt h item) (prv h item) h
      in set_nxt (prv h item) (nxt h item) h)"

section \<open>The represented list\<close>

text \<open>\<open>seg f ys\<close>: following \<open>f\<close> from each element of \<open>ys\<close> leads to the next one.\<close>

fun seg :: "(addr \<Rightarrow> addr) \<Rightarrow> addr list \<Rightarrow> bool" where
  "seg f (x # y # zs) \<longleftrightarrow> f x = y \<and> seg f (y # zs)"
| "seg f _ \<longleftrightarrow> True"

definition ring :: "links \<Rightarrow> addr \<Rightarrow> addr list \<Rightarrow> bool" where
  "ring h l xs \<longleftrightarrow>
     distinct (l # xs) \<and> seg (nxt h) (l # xs @ [l]) \<and> seg (prv h) (l # rev xs @ [l])"

lemma seg_mid [simp]:
  "seg f (w # xs @ y # z # zs) \<longleftrightarrow> seg f (w # xs @ [y]) \<and> f y = z \<and> seg f (z # zs)"
  by (induction xs arbitrary: w) auto

lemma seg_upd [simp]: "a \<noteq> x \<Longrightarrow> a \<notin> set ys \<Longrightarrow> seg (f(a := b)) (x # ys @ [z]) = seg f (x # ys @ [z])"
  by (induction ys arbitrary: x) auto

lemma ring_Nil: "ring h l [] \<longleftrightarrow> nxt h l = l \<and> prv h l = l"
  by (simp add: ring_def)

lemma ring_list_init: "ring (list_init l h) l []"
  by (simp add: ring_Nil list_init_def)

lemma ring_distinct: "ring h l xs \<Longrightarrow> distinct xs" "ring h l xs \<Longrightarrow> l \<notin> set xs"
  by (simp_all add: ring_def)

lemma ring_frame:
  assumes "ring h l xs"
    and "\<And>a. a \<in> insert l (set xs) \<Longrightarrow> nxt h' a = nxt h a \<and> prv h' a = prv h a"
  shows "ring h' l xs"
proof -
  have "seg f' (x # ys @ [z])"
    if "seg f (x # ys @ [z])" "\<And>a. a \<in> insert x (set ys) \<Longrightarrow> f' a = f a" for f f' :: "addr \<Rightarrow> addr" and x ys z
    using that by (induction ys arbitrary: x) auto
  from this [of "nxt h" l xs l "nxt h'"] this [of "prv h" l "rev xs" l "prv h'"] assms
  show ?thesis by (auto simp: ring_def)
qed

lemma ring_add_tail:
  assumes "ring h l xs" and "x \<notin> set (l # xs)"
  shows "ring (list_add_tail l x h) l (xs @ [x])"
  using assms
  by (cases xs rule: rev_cases) (auto simp: ring_def list_add_tail_def)

lemma ring_remove_mid:
  assumes "ring h l (as @ x # bs)"
  shows "ring (list_remove x h) l (as @ bs)"
  using assms
  by (cases as rule: rev_cases; cases bs) (auto simp: ring_def list_remove_def)

lemma ring_remove:
  assumes "ring h l xs" and "x \<in> set xs"
  shows "ring (list_remove x h) l (remove1 x xs)"
proof -
  from assms(2) obtain as bs where xs: "xs = as @ x # bs" and "x \<notin> set as"
    by (metis split_list_first)
  then have "remove1 x xs = as @ bs" by (simp add: remove1_append)
  with assms(1) xs show ?thesis by (simp add: ring_remove_mid)
qed

text \<open>The same unlinking with the two assignments in the other order, as most components have it.\<close>

lemma ring_unlink:
  assumes "ring h l xs" and "x \<in> set xs"
  shows "ring (set_prv (nxt h x) (prv h x) (set_nxt (prv h x) (nxt h x) h)) l (remove1 x xs)"
proof -
  from assms(2) obtain as bs where xs: "xs = as @ x # bs" and "x \<notin> set as"
    by (metis split_list_first)
  then have "remove1 x xs = as @ bs" by (simp add: remove1_append)
  moreover have "ring (set_prv (nxt h x) (prv h x) (set_nxt (prv h x) (nxt h x) h)) l (as @ bs)"
    using assms(1) unfolding xs
    by (cases as rule: rev_cases; cases bs) (auto simp: ring_def)
  ultimately show ?thesis by simp
qed

text \<open>Writing the links of a node outside the ring leaves the ring alone.\<close>

lemma ring_set_other:
  "ring h l xs \<Longrightarrow> x \<notin> set (l # xs) \<Longrightarrow> ring (set_nxt x v h) l xs"
  "ring h l xs \<Longrightarrow> x \<notin> set (l # xs) \<Longrightarrow> ring (set_prv x v h) l xs"
  by (auto elim!: ring_frame)

text \<open>Neighbours of a member, for link updates that clear the removed node afterwards.\<close>

lemma ring_nxt_mem: "ring h l xs \<Longrightarrow> x \<in> set xs \<Longrightarrow> nxt h x \<in> set (l # xs) \<and> prv h x \<in> set (l # xs)"
proof -
  assume r: "ring h l xs" and "x \<in> set xs"
  then obtain as bs where "xs = as @ x # bs" by (metis split_list)
  with r show ?thesis
    by (cases as rule: rev_cases; cases bs) (auto simp: ring_def)
qed

lemma ring_nxt_neq: "ring h l xs \<Longrightarrow> x \<in> set xs \<Longrightarrow> nxt h x \<noteq> x \<and> prv h x \<noteq> x"
proof -
  assume r: "ring h l xs" and "x \<in> set xs"
  then obtain as bs where "xs = as @ x # bs" by (metis split_list)
  with r show ?thesis
    by (cases as rule: rev_cases; cases bs) (auto simp: ring_def)
qed

lemma ring_first: "ring h l (x # xs) \<Longrightarrow> nxt h l = x"
  by (simp add: ring_def)

lemma ring_empty_iff: "ring h l xs \<Longrightarrow> nxt h l = l \<longleftrightarrow> xs = []"
  by (cases xs) (auto simp: ring_def)

section \<open>Walking a ring\<close>

text \<open>
  The loop \<open>for (n = head.next; n != &head; n = n->next)\<close>: the addresses it visits, or \<open>None\<close> when
  it never comes back to the sentinel.
\<close>

partial_function (option) walk :: "links \<Rightarrow> addr \<Rightarrow> addr \<Rightarrow> addr list option" where
  "walk h l n =
     (if n = l then Some []
      else Option.bind (walk h l (nxt h n)) (\<lambda>ns. Some (n # ns)))"

definition ring_nodes :: "links \<Rightarrow> addr \<Rightarrow> addr list option" where
  "ring_nodes h l = walk h l (nxt h l)"

lemma walk_seg: "seg (nxt h) (xs @ [l]) \<Longrightarrow> l \<notin> set xs \<Longrightarrow> xs \<noteq> [] \<Longrightarrow> walk h l (hd xs) = Some xs"
proof (induction xs)
  case Nil
  then show ?case by simp
next
  case (Cons x xs)
  show ?case
  proof (cases xs)
    case Nil
    with Cons.prems show ?thesis by (simp add: walk.simps [of h l x] walk.simps [of h l l])
  next
    case (Cons y ys)
    with Cons.prems Cons.IH show ?thesis by (auto simp add: walk.simps [of h l x])
  qed
qed

lemma ring_nodes: "ring h l xs \<Longrightarrow> ring_nodes h l = Some xs"
proof (cases xs)
  case Nil
  assume "ring h l xs"
  with Nil show ?thesis by (simp add: ring_def ring_nodes_def walk.simps)
next
  case (Cons x ys)
  assume "ring h l xs"
  with Cons show ?thesis
    using walk_seg [of h xs l] by (auto simp: ring_def ring_nodes_def)
qed

lemma ring_unique: "ring h l xs \<Longrightarrow> ring h l ys \<Longrightarrow> xs = ys"
  using ring_nodes [of h l xs] ring_nodes [of h l ys] by simp

section \<open>The contract of a component's own list operations\<close>

locale ring_list =
  fixes head :: addr
    and ins :: "addr \<Rightarrow> links \<Rightarrow> links"
    and del :: "addr \<Rightarrow> links \<Rightarrow> links"
  assumes ins_ring: "ring h head xs \<Longrightarrow> x \<notin> set (head # xs) \<Longrightarrow> ring (ins x h) head (xs @ [x])"
    and del_ring: "ring h head xs \<Longrightarrow> x \<in> set xs \<Longrightarrow> ring (del x h) head (remove1 x xs)"
begin

text \<open>Inserting in turn keeps the order of insertion.\<close>

lemma ins_all_ring:
  "ring h head xs \<Longrightarrow> distinct (head # xs @ ys) \<Longrightarrow> ring (fold ins ys h) head (xs @ ys)"
proof (induction ys arbitrary: h xs)
  case Nil
  then show ?case by simp
next
  case (Cons y ys)
  then have "ring (ins y h) head (xs @ [y])" by (intro ins_ring) auto
  moreover have "distinct (head # (xs @ [y]) @ ys)" using Cons.prems(2) by auto
  ultimately show ?case using Cons.IH by fastforce
qed

text \<open>Unlinking what was just inserted restores the list.\<close>

lemma ins_del_ring:
  assumes "ring h head xs" and "x \<notin> set (head # xs)"
  shows "ring (del x (ins x h)) head xs"
proof -
  have "ring (del x (ins x h)) head (remove1 x (xs @ [x]))"
    by (rule del_ring [OF ins_ring [OF assms]]) simp
  then show ?thesis using assms(2) by (simp add: remove1_append)
qed

lemma ins_nodes:
  "ring_nodes h head = Some xs \<Longrightarrow> ring h head xs \<Longrightarrow> x \<notin> set (head # xs) \<Longrightarrow>
   ring_nodes (ins x h) head = Some (xs @ [x])"
  by (rule ring_nodes [OF ins_ring])

lemma del_nodes:
  "ring h head xs \<Longrightarrow> x \<in> set xs \<Longrightarrow> ring_nodes (del x h) head = Some (remove1 x xs)"
  by (rule ring_nodes [OF del_ring])

lemma del_notin: "ring h head xs \<Longrightarrow> x \<in> set xs \<Longrightarrow> ring (del x h) head ys \<Longrightarrow> x \<notin> set ys"
proof -
  assume r: "ring h head xs" and x: "x \<in> set xs" and "ring (del x h) head ys"
  then have "ys = remove1 x xs" using del_ring ring_unique by blast
  with ring_distinct(1) [OF r] show ?thesis by simp
qed

end

interpretation cl: ring_list head "list_add_tail head" list_remove for head
  by unfold_locales (auto intro: ring_add_tail ring_remove)

end
