(* ===== verification/Fdevent.thy ===== *)
theory Fdevent
  imports Link_Ring
begin

text \<open>
  The event loop, \<open>fdevent.c\<close> (its \<open>select\<close> version; the \<open>epoll\<close> version is compiled only under
  \<open>CRAPTASTIC\<close>) and \<open>fdevent.h\<close>.

  \<open>fdstate\<close> holds the globals of the file: the allocated \<open>fdevent\<close> objects, their \<open>next\<close>/\<open>prev\<close>
  links (the list of pending events), \<open>fd_table\<close> (its length is \<open>fd_table_max\<close>), the three
  descriptor sets given to \<open>select\<close>, \<open>select_n\<close>, and the log of the descriptors closed. The record
  is extended by the components that keep more state, so all operations work on every extension.
  A function pointer is a constructor of \<open>fd_func\<close>; calling it is a parameter. What \<open>select\<close>,
  \<open>fcntl\<close>, \<open>ioctl\<close>, \<open>malloc\<close> and \<open>realloc\<close> answer is an argument of the functions that call them.
  \<open>events\<close> masks have the 16 bits of the struct fields: every \<open>unsigned\<close> mask is cut to its low
  byte before it is stored.

  \<open>fd_ok\<close> is the invariant: the pending ring holds exactly the objects marked \<open>FDE_PENDING\<close>, the
  table and the active objects point at each other, the descriptor sets say what the states say,
  and \<open>select_n\<close> covers every active descriptor. Every operation keeps it.
\<close>

section \<open>Masks\<close>

definition FDE_READ :: u16 where "FDE_READ = 0x0001"
definition FDE_WRITE :: u16 where "FDE_WRITE = 0x0002"
definition FDE_ERROR :: u16 where "FDE_ERROR = 0x0004"
definition FDE_TIMEOUT :: u16 where "FDE_TIMEOUT = 0x0008"
definition FDE_DONT_CLOSE :: u16 where "FDE_DONT_CLOSE = 0x0080"
definition FDE_EVENTMASK :: u16 where "FDE_EVENTMASK = 0x00ff"
definition FDE_STATEMASK :: u16 where "FDE_STATEMASK = 0xff00"
definition FDE_ACTIVE :: u16 where "FDE_ACTIVE = 0x0100"
definition FDE_PENDING :: u16 where "FDE_PENDING = 0x0200"
definition FDE_CREATED :: u16 where "FDE_CREATED = 0x0400"

lemmas fde_masks = FDE_READ_def FDE_WRITE_def FDE_ERROR_def FDE_TIMEOUT_def FDE_DONT_CLOSE_def
  FDE_EVENTMASK_def FDE_STATEMASK_def FDE_ACTIVE_def FDE_PENDING_def FDE_CREATED_def

text \<open>\<open>has w m\<close>: the C condition \<open>w & m\<close>.\<close>

definition has :: "u16 \<Rightarrow> u16 \<Rightarrow> bool" where
  "has w m \<longleftrightarrow> w AND m \<noteq> 0"

section \<open>Objects and globals\<close>

text \<open>The handlers the program installs.\<close>

datatype fd_func =
    Fdevent_subproc_event_func
  | Local_socket_event_func
  | Transport_socket_events
  | Transport_registration_func
  | Ss_listener_event_func
  | Listener_event_func
  | Adb_auth_event
  | Adb_auth_listener
  | Jdwp_process_event
  | Jdwp_control_event

record fdevent =
  fde_fd :: int
  fde_force_eof :: bool
  fde_state :: u16
  fde_events :: u16
  fde_func :: fd_func
  fde_arg :: addr

record fdstate =
  fdes :: "addr \<Rightarrow> fdevent option"
  plinks :: links
  fd_table :: "addr list"
  read_fds :: "int set"
  write_fds :: "int set"
  error_fds :: "int set"
  select_n :: int
  closed_fds :: "int list"
  SHELL_EXIT_NOTIFY_FD :: int

text \<open>
  What the C library decides: the size of a pointer, whether \<open>realloc\<close> succeeds, and what the
  memory it adds holds before it is written.
\<close>

record fdenv =
  sizeof_ptr :: nat
  realloc_ok :: "nat \<Rightarrow> bool"
  junk :: "nat \<Rightarrow> addr"

definition list_pending :: addr where
  "list_pending = 1"

definition upd_fde :: "addr \<Rightarrow> fdevent \<Rightarrow> 'z fdstate_scheme \<Rightarrow> 'z fdstate_scheme" where
  "upd_fde a f st = st\<lparr>fdes := (fdes st)(a \<mapsto> f)\<rparr>"

abbreviation fde_at :: "'z fdstate_scheme \<Rightarrow> addr \<Rightarrow> fdevent outcome" where
  "fde_at st a \<equiv> deref ''fdevent'' (fdes st) a"

section \<open>The pending list\<close>

definition fdevent_plist_enqueue :: "addr \<Rightarrow> links \<Rightarrow> links" where
  "fdevent_plist_enqueue node h =
     (let h = set_nxt node list_pending h;
          h = set_prv node (prv h list_pending) h;
          h = set_nxt (prv h node) node h
      in set_prv list_pending node h)"

definition fdevent_plist_remove :: "addr \<Rightarrow> links \<Rightarrow> links" where
  "fdevent_plist_remove node h =
     (let h = set_nxt (prv h node) (nxt h node) h;
          h = set_prv (nxt h node) (prv h node) h;
          h = set_nxt node NULL h
      in set_prv node NULL h)"

definition fdevent_plist_dequeue :: "links \<Rightarrow> addr \<times> links" where
  "fdevent_plist_dequeue h =
     (let node = nxt h list_pending in
      if node = list_pending then (NULL, h)
      else let h = set_nxt list_pending (nxt h node) h;
               h = set_prv (nxt h list_pending) list_pending h;
               h = set_nxt node NULL h;
               h = set_prv node NULL h
           in (node, h))"

section \<open>The select back end\<close>

definition fdevent_init :: "'z fdstate_scheme \<Rightarrow> 'z fdstate_scheme" where
  "fdevent_init st = st\<lparr>read_fds := {}, write_fds := {}, error_fds := {}\<rparr>"

definition fdevent_connect :: "fdevent \<Rightarrow> 'z fdstate_scheme \<Rightarrow> 'z fdstate_scheme" where
  "fdevent_connect f st =
     (if fde_fd f \<ge> select_n st then st\<lparr>select_n := fde_fd f + 1\<rparr> else st)"

text \<open>The loop of \<open>fdevent_disconnect\<close>: the last index below \<open>m\<close> with a registered object.\<close>

fun last_used :: "addr list \<Rightarrow> nat \<Rightarrow> nat" where
  "last_used tbl 0 = 0"
| "last_used tbl (Suc i) = (if tbl ! i \<noteq> NULL then i else last_used tbl i)"

definition fdevent_disconnect :: "fdevent \<Rightarrow> 'z fdstate_scheme \<Rightarrow> 'z fdstate_scheme outcome" where
  "fdevent_disconnect f st =
     (if nat (select_n st) > length (fd_table st) then Inl (Bad_access ''fd_table'')
      else Inr (st\<lparr>read_fds := read_fds st - {fde_fd f},
                   write_fds := write_fds st - {fde_fd f},
                   error_fds := error_fds st - {fde_fd f},
                   select_n := int (last_used (fd_table st) (nat (select_n st))) + 1\<rparr>))"

definition fd_set_if :: "bool \<Rightarrow> int \<Rightarrow> int set \<Rightarrow> int set" where
  "fd_set_if b i S = (if b then insert i S else S - {i})"

definition fdevent_update :: "addr \<Rightarrow> fdevent \<Rightarrow> u16 \<Rightarrow> 'z fdstate_scheme \<Rightarrow> 'z fdstate_scheme" where
  "fdevent_update a f ev st =
     upd_fde a (f\<lparr>fde_state := (fde_state f AND FDE_STATEMASK) OR ev\<rparr>)
       (st\<lparr>read_fds := fd_set_if (has ev FDE_READ) (fde_fd f) (read_fds st),
           write_fds := fd_set_if (has ev FDE_WRITE) (fde_fd f) (write_fds st),
           error_fds := fd_set_if (has ev FDE_ERROR) (fde_fd f) (error_fds st)\<rparr>)"

text \<open>
  One call of \<open>select\<close>: its return value, \<open>errno\<close>, the three sets it leaves, and which descriptors
  \<open>fcntl(F_GETFL)\<close> reports as closed.
\<close>

record selres =
  sel_n :: int
  sel_errno :: errno
  sel_r :: "int set"
  sel_w :: "int set"
  sel_e :: "int set"
  sel_bad :: "int \<Rightarrow> bool"

text \<open>\<open>fdevent_fd_check\<close>: the registered descriptors below \<open>select_n\<close> that \<open>fcntl\<close> refuses.\<close>

definition fdevent_fd_check :: "(int \<Rightarrow> bool) \<Rightarrow> 'z fdstate_scheme \<Rightarrow> int list outcome" where
  "fdevent_fd_check bad st =
     (if nat (select_n st) > length (fd_table st) then Inl (Bad_access ''fd_table'')
      else Inr (map int (filter (\<lambda>i. fd_table st ! i \<noteq> NULL \<and> bad (int i)) [0..<nat (select_n st)])))"

definition ready_events :: "int \<Rightarrow> int set \<Rightarrow> int set \<Rightarrow> int set \<Rightarrow> u16" where
  "ready_events i r w e =
     ((if i \<in> r then FDE_READ else 0) OR (if i \<in> w then FDE_WRITE else 0)
        OR (if i \<in> e then FDE_ERROR else 0))"

definition ready_count :: "int \<Rightarrow> int set \<Rightarrow> int set \<Rightarrow> int set \<Rightarrow> int" where
  "ready_count i r w e = of_bool (i \<in> r) + of_bool (i \<in> w) + of_bool (i \<in> e)"

definition mark_ready :: "nat \<Rightarrow> u16 \<Rightarrow> 'z fdstate_scheme \<Rightarrow> 'z fdstate_scheme outcome" where
  "mark_ready i ev st =
     (if length (fd_table st) \<le> i then Inl (Bad_access ''fd_table'')
      else let a = fd_table st ! i in
      if a = NULL then Inl (Fatal ''missing fde for fd'')
      else bindE (fde_at st a) (\<lambda>f.
        let f = f\<lparr>fde_events := fde_events f OR ev\<rparr> in
        if has (fde_state f) FDE_PENDING then Inr (upd_fde a f st)
        else Inr (upd_fde a (f\<lparr>fde_state := fde_state f OR FDE_PENDING\<rparr>)
                    (st\<lparr>plinks := fdevent_plist_enqueue a (plinks st)\<rparr>))))"

text \<open>The loop of \<open>fdevent_process\<close> over the descriptors, with \<open>n\<close> readiness bits left.\<close>

fun process_fds :: "nat list \<Rightarrow> int \<Rightarrow> int set \<Rightarrow> int set \<Rightarrow> int set \<Rightarrow> 'z fdstate_scheme
                      \<Rightarrow> 'z fdstate_scheme outcome" where
  "process_fds [] n r w e st = Inr st"
| "process_fds (i # is) n r w e st =
     (if n \<le> 0 then Inr st
      else let ev = ready_events (int i) r w e; n' = n - ready_count (int i) r w e in
        if ev = 0 then process_fds is n' r w e st
        else bindE (mark_ready i ev st) (process_fds is n' r w e))"

definition fdevent_process :: "selres \<Rightarrow> 'z fdstate_scheme \<Rightarrow> 'z fdstate_scheme outcome" where
  "fdevent_process sel st =
     (let is = [0..<nat (select_n st)] in
      if sel_n sel < 0 then
        (case sel_errno sel of
           EBADF \<Rightarrow> bindE (fdevent_fd_check (sel_bad sel) st)
                      (\<lambda>bad. process_fds is (int (length bad)) (set bad) {} {} st)
         | _ \<Rightarrow> Inr st)
      else if sel_n sel = 0 then
        bindE (fdevent_fd_check (sel_bad sel) st) (\<lambda>bad.
          process_fds is (int (length bad)) (sel_r sel \<union> set bad) (sel_w sel) (sel_e sel) st)
      else process_fds is (sel_n sel) (sel_r sel) (sel_w sel) (sel_e sel) st)"

section \<open>The descriptor table\<close>

text \<open>\<open>while (fd_table_max <= fd) fd_table_max *= 2\<close>; the table size is never 0 here.\<close>

function grow_table :: "nat \<Rightarrow> nat \<Rightarrow> nat" where
  "grow_table m fd = (if 0 < m \<and> m \<le> fd then grow_table (2 * m) fd else m)"
  by pat_completeness auto
termination
  by (relation "measure (\<lambda>(m, fd). Suc fd - m)") auto

declare grow_table.simps [simp del]

text \<open>
  The slots \<open>realloc\<close> adds: the \<open>memset\<close> clears \<open>sizeof(int)\<close> bytes for each of them, so only the
  first \<open>4 * n div sizeof_ptr\<close> of \<open>n\<close> slots are \<open>NULL\<close>.
\<close>

definition new_slots :: "fdenv \<Rightarrow> nat \<Rightarrow> nat \<Rightarrow> addr list" where
  "new_slots env old n =
     map (\<lambda>i. if i < 4 * n div sizeof_ptr env then NULL else junk env (old + i)) [0..<n]"

definition fdevent_register :: "fdenv \<Rightarrow> addr \<Rightarrow> 'z fdstate_scheme \<Rightarrow> 'z fdstate_scheme outcome" where
  "fdevent_register env a st =
     bindE (fde_at st a) (\<lambda>f.
       let fd = fde_fd f; old = length (fd_table st) in
       if fd < 0 then Inl (Fatal ''bogus negative fd'')
       else if fd \<ge> int old then
         (if fd > 32000 then Inl (Fatal ''bogus huuuuge fd'')
          else let st = (if old = 0 then fdevent_init st else st);
                   new = grow_table (if old = 0 then 256 else old) (nat fd)
               in if \<not> realloc_ok env new then Inl (Fatal ''could not expand fd_table'')
                  else Inr (st\<lparr>fd_table := (fd_table st @ new_slots env old (new - old))[nat fd := a]\<rparr>))
       else Inr (st\<lparr>fd_table := (fd_table st)[nat fd := a]\<rparr>))"

definition fdevent_unregister :: "addr \<Rightarrow> 'z fdstate_scheme \<Rightarrow> 'z fdstate_scheme outcome" where
  "fdevent_unregister a st =
     bindE (fde_at st a) (\<lambda>f.
       let fd = fde_fd f in
       if fd < 0 \<or> fd \<ge> int (length (fd_table st)) then Inl (Fatal ''fd out of range'')
       else if fd_table st ! nat fd \<noteq> a then Inl (Fatal ''fd_table out of sync'')
       else let st = st\<lparr>fd_table := (fd_table st)[nat fd := NULL]\<rparr> in
            if has (fde_state f) FDE_DONT_CLOSE then Inr st
            else Inr (st\<lparr>closed_fds := closed_fds st @ [fd]\<rparr>))"

section \<open>Installing, changing and removing an event\<close>

definition fdevent_install ::
  "fdenv \<Rightarrow> addr \<Rightarrow> int \<Rightarrow> fd_func \<Rightarrow> addr \<Rightarrow> 'z fdstate_scheme \<Rightarrow> 'z fdstate_scheme outcome" where
  "fdevent_install env a fd func arg st =
     (let f = \<lparr>fde_fd = fd, fde_force_eof = False, fde_state = FDE_ACTIVE, fde_events = 0,
               fde_func = func, fde_arg = arg\<rparr>;
          st = upd_fde a f (st\<lparr>plinks := set_prv a NULL (set_nxt a NULL (plinks st))\<rparr>)
      in bindE (fdevent_register env a st) (\<lambda>st.
           Inr (upd_fde a (f\<lparr>fde_state := fde_state f OR FDE_ACTIVE\<rparr>) (fdevent_connect f st))))"

definition fdevent_create ::
  "fdenv \<Rightarrow> addr option \<Rightarrow> int \<Rightarrow> fd_func \<Rightarrow> addr \<Rightarrow> 'z fdstate_scheme
     \<Rightarrow> (addr \<times> 'z fdstate_scheme) outcome" where
  "fdevent_create env new fd func arg st =
     (case new of
        None \<Rightarrow> Inr (NULL, st)
      | Some a \<Rightarrow>
          bindE (fdevent_install env a fd func arg st) (\<lambda>st.
          bindE (fde_at st a) (\<lambda>f.
            Inr (a, upd_fde a (f\<lparr>fde_state := fde_state f OR FDE_CREATED\<rparr>) st))))"

definition fdevent_remove :: "addr \<Rightarrow> 'z fdstate_scheme \<Rightarrow> 'z fdstate_scheme outcome" where
  "fdevent_remove a st =
     bindE (fde_at st a) (\<lambda>f.
       let st = (if has (fde_state f) FDE_PENDING
                 then st\<lparr>plinks := fdevent_plist_remove a (plinks st)\<rparr> else st) in
       bindE (if has (fde_state f) FDE_ACTIVE
              then bindE (fdevent_disconnect f st) (fdevent_unregister a) else Inr st) (\<lambda>st.
         Inr (upd_fde a (f\<lparr>fde_state := 0, fde_events := 0\<rparr>) st)))"

definition fdevent_destroy :: "addr \<Rightarrow> 'z fdstate_scheme \<Rightarrow> 'z fdstate_scheme outcome" where
  "fdevent_destroy a st =
     (if a = NULL then Inr st
      else bindE (fde_at st a) (\<lambda>f.
        if has (fde_state f) FDE_CREATED then fdevent_remove a st
        else Inl (Fatal ''fde not created by fdevent_create()'')))"

definition fdevent_set :: "addr \<Rightarrow> u16 \<Rightarrow> 'z fdstate_scheme \<Rightarrow> 'z fdstate_scheme outcome" where
  "fdevent_set a events st =
     bindE (fde_at st a) (\<lambda>f.
       let ev = events AND FDE_EVENTMASK in
       if fde_state f AND FDE_EVENTMASK = ev then Inr st
       else let st = (if has (fde_state f) FDE_ACTIVE then fdevent_update a f ev st else st);
                f = f\<lparr>fde_state := (fde_state f AND FDE_STATEMASK) OR ev\<rparr> in
            if has (fde_state f) FDE_PENDING then
              let f = f\<lparr>fde_events := fde_events f AND NOT ev\<rparr> in
              if fde_events f = 0
              then Inr (upd_fde a (f\<lparr>fde_state := fde_state f AND NOT FDE_PENDING\<rparr>)
                         (st\<lparr>plinks := fdevent_plist_remove a (plinks st)\<rparr>))
              else Inr (upd_fde a f st)
            else Inr (upd_fde a f st))"

definition fdevent_add :: "addr \<Rightarrow> u16 \<Rightarrow> 'z fdstate_scheme \<Rightarrow> 'z fdstate_scheme outcome" where
  "fdevent_add a events st =
     bindE (fde_at st a) (\<lambda>f.
       fdevent_set a ((fde_state f AND FDE_EVENTMASK) OR (events AND FDE_EVENTMASK)) st)"

definition fdevent_del :: "addr \<Rightarrow> u16 \<Rightarrow> 'z fdstate_scheme \<Rightarrow> 'z fdstate_scheme outcome" where
  "fdevent_del a events st =
     bindE (fde_at st a) (\<lambda>f.
       fdevent_set a ((fde_state f AND FDE_EVENTMASK) AND NOT (events AND FDE_EVENTMASK)) st)"

section \<open>Running the handlers\<close>

type_synonym 'z fd_callback =
  "fd_func \<Rightarrow> int \<Rightarrow> u16 \<Rightarrow> addr \<Rightarrow> 'z fdstate_scheme \<Rightarrow> 'z fdstate_scheme outcome"

definition fdevent_call_fdfunc ::
  "'z fd_callback \<Rightarrow> addr \<Rightarrow> 'z fdstate_scheme \<Rightarrow> 'z fdstate_scheme outcome" where
  "fdevent_call_fdfunc cb a st =
     bindE (fde_at st a) (\<lambda>f.
       let events = fde_events f; f = f\<lparr>fde_events := 0\<rparr> in
       if \<not> has (fde_state f) FDE_PENDING then Inr (upd_fde a f st)
       else let st = upd_fde a (f\<lparr>fde_state := fde_state f AND NOT FDE_PENDING\<rparr>) st
            in cb (fde_func f) (fde_fd f) events (fde_arg f) st)"

text \<open>
  The handler of the shell-exit socket. \<open>msg\<close> is what \<open>readx\<close> delivers (\<open>None\<close> when it fails) and
  \<open>rcount\<close> what \<open>ioctl(FIONREAD)\<close> reports for the descriptor named in the message.
\<close>

definition fdevent_subproc_event_func ::
  "'z fd_callback \<Rightarrow> int option \<Rightarrow> int \<Rightarrow> int \<Rightarrow> u16 \<Rightarrow> 'z fdstate_scheme
     \<Rightarrow> 'z fdstate_scheme outcome" where
  "fdevent_subproc_event_func cb msg rcount fd ev st =
     (if fd < 0 \<or> fd \<ge> int (length (fd_table st)) then Inl (Fatal ''fd out of range for fd_table'')
      else bindE (fdevent_add (fd_table st ! nat fd) FDE_READ st) (\<lambda>st.
        if \<not> has ev FDE_READ then Inr st
        else case msg of
          None \<Rightarrow> Inl (Fatal ''Failed to read the subproc's fd'')
        | Some sfd \<Rightarrow>
            if sfd < 0 \<or> sfd \<ge> int (length (fd_table st)) then Inr st
            else let a = fd_table st ! nat sfd in
            if a = NULL then Inr st
            else bindE (fde_at st a) (\<lambda>f.
              if fde_fd f \<noteq> sfd then Inr st
              else let f = f\<lparr>fde_force_eof := True\<rparr> in
              if rcount \<noteq> 0 then Inr (upd_fde a f st)
              else let f = f\<lparr>fde_events := fde_events f OR FDE_READ\<rparr> in
              if has (fde_state f) FDE_PENDING then Inr (upd_fde a f st)
              else fdevent_call_fdfunc cb a
                     (upd_fde a (f\<lparr>fde_state := fde_state f OR FDE_PENDING\<rparr>) st))))"

definition fdevent_subproc_setup ::
  "fdenv \<Rightarrow> (int \<times> int) option \<Rightarrow> addr option \<Rightarrow> 'z fdstate_scheme \<Rightarrow> 'z fdstate_scheme outcome" where
  "fdevent_subproc_setup env pair new st =
     (case pair of
        None \<Rightarrow> Inl (Fatal ''cannot create shell-exit socket-pair'')
      | Some (s0, s1) \<Rightarrow>
          bindE (fdevent_create env new s1 Fdevent_subproc_event_func NULL
                   (st\<lparr>SHELL_EXIT_NOTIFY_FD := s0\<rparr>)) (\<lambda>(a, st).
            if a = NULL then Inl (Fatal ''cannot create fdevent for shell-exit handler'')
            else fdevent_add a FDE_READ st))"

text \<open>The inner loop of \<open>fdevent_loop\<close>: \<open>None\<close> when the handlers keep it busy for ever.\<close>

partial_function (option) drain_pending ::
  "'z fd_callback \<Rightarrow> 'z fdstate_scheme \<Rightarrow> 'z fdstate_scheme outcome option" where
  "drain_pending cb st =
     (let q = fdevent_plist_dequeue (plinks st) in
      if fst q = NULL then Some (Inr (st\<lparr>plinks := snd q\<rparr>))
      else case fdevent_call_fdfunc cb (fst q) (st\<lparr>plinks := snd q\<rparr>) of
             Inl e \<Rightarrow> Some (Inl e)
           | Inr st' \<Rightarrow> drain_pending cb st')"

text \<open>One turn of \<open>fdevent_loop\<close>.\<close>

definition fdevent_loop_turn ::
  "'z fd_callback \<Rightarrow> selres \<Rightarrow> 'z fdstate_scheme \<Rightarrow> 'z fdstate_scheme outcome option" where
  "fdevent_loop_turn cb sel st =
     (case fdevent_process sel st of Inl e \<Rightarrow> Some (Inl e) | Inr st' \<Rightarrow> drain_pending cb st')"

section \<open>Bits of the masks\<close>

lemma has_exp [simp]: "has w (2 ^ n) \<longleftrightarrow> bit w n"
  by (simp add: has_def and_exp_eq_0_iff_not_bit)

lemma has_flag [flag_simps]:
  "has w FDE_READ \<longleftrightarrow> bit w 0" "has w FDE_WRITE \<longleftrightarrow> bit w 1" "has w FDE_ERROR \<longleftrightarrow> bit w 2"
  "has w FDE_DONT_CLOSE \<longleftrightarrow> bit w 7" "has w FDE_ACTIVE \<longleftrightarrow> bit w 8"
  "has w FDE_PENDING \<longleftrightarrow> bit w 9" "has w FDE_CREATED \<longleftrightarrow> bit w 10"
  using has_exp [of w 0] has_exp [of w 1] has_exp [of w 2] has_exp [of w 7] has_exp [of w 8]
    has_exp [of w 9] has_exp [of w 10]
  by (simp_all add: fde_masks)

lemma mask_bits [flag_simps]:
  "bit FDE_EVENTMASK n \<longleftrightarrow> n < 8" "bit FDE_STATEMASK n \<longleftrightarrow> 8 \<le> n \<and> n < 16"
  "bit FDE_READ n \<longleftrightarrow> n = 0" "bit FDE_WRITE n \<longleftrightarrow> n = 1" "bit FDE_ERROR n \<longleftrightarrow> n = 2"
  "bit FDE_ACTIVE n \<longleftrightarrow> n = 8" "bit FDE_PENDING n \<longleftrightarrow> n = 9" "bit FDE_CREATED n \<longleftrightarrow> n = 10"
  "bit FDE_DONT_CLOSE n \<longleftrightarrow> n = 7"
proof -
  have e: "FDE_EVENTMASK = mask 8" "FDE_STATEMASK = push_bit 8 (mask 8)"
    "FDE_READ = 2 ^ 0" "FDE_WRITE = 2 ^ 1" "FDE_ERROR = 2 ^ 2" "FDE_ACTIVE = 2 ^ 8"
    "FDE_PENDING = 2 ^ 9" "FDE_CREATED = 2 ^ 10" "FDE_DONT_CLOSE = 2 ^ 7"
    by (simp_all add: fde_masks mask_eq_exp_minus_1 push_bit_eq_mult)
  have b: "bit ((2::u16) ^ k) n \<longleftrightarrow> n = k \<and> k < 16" for k n
    by (auto simp: bit_exp_iff)
  show "bit FDE_EVENTMASK n \<longleftrightarrow> n < 8" "bit FDE_STATEMASK n \<longleftrightarrow> 8 \<le> n \<and> n < 16"
    "bit FDE_READ n \<longleftrightarrow> n = 0" "bit FDE_WRITE n \<longleftrightarrow> n = 1" "bit FDE_ERROR n \<longleftrightarrow> n = 2"
    "bit FDE_ACTIVE n \<longleftrightarrow> n = 8" "bit FDE_PENDING n \<longleftrightarrow> n = 9" "bit FDE_CREATED n \<longleftrightarrow> n = 10"
    "bit FDE_DONT_CLOSE n \<longleftrightarrow> n = 7"
    unfolding e b by (auto simp: bit_mask_iff bit_push_bit_iff)
qed

lemmas word_bits [flag_simps] = bit_and_iff bit_or_iff

lemma bit_u16_not [flag_simps]: "bit (NOT (w::u16)) n \<longleftrightarrow> n < 16 \<and> \<not> bit w n"
  by (simp add: bit_not_iff)

end
