(* ===== verification/Fdevent_Inv.thy ===== *)
theory Fdevent_Inv
  imports Fdevent
begin

text \<open>
  Correctness of the event loop: the pending list refines a queue, \<open>fd_ok\<close> holds initially and is
  kept by every operation of \<open>fdevent.c\<close>, registration never loses an object, the dispatch loop
  returns and leaves nothing pending, and no operation of a well-formed state reaches one of the
  \<open>FATAL\<close> calls.
\<close>

section \<open>The pending list is a queue\<close>

lemma plist_enqueue_eq: "fdevent_plist_enqueue x h = list_add_tail list_pending x h"
  by (simp add: fdevent_plist_enqueue_def list_add_tail_def Let_def)

lemma plist_remove_ring:
  assumes "ring h list_pending xs" and "x \<in> set xs"
  shows "ring (fdevent_plist_remove x h) list_pending (remove1 x xs)"
proof -
  let ?u = "set_prv (nxt h x) (prv h x) (set_nxt (prv h x) (nxt h x) h)"
  have n: "nxt h x \<noteq> x" "prv h x \<noteq> x" using ring_nxt_neq [OF assms] by auto
  have u: "ring ?u list_pending (remove1 x xs)" by (rule ring_unlink [OF assms])
  have x: "x \<notin> set (list_pending # remove1 x xs)"
    using assms ring_distinct [OF assms(1)] by auto
  have "fdevent_plist_remove x h = set_prv x 0 (set_nxt x 0 ?u)"
    using n by (simp add: fdevent_plist_remove_def Let_def)
  then show ?thesis using ring_set_other [OF _ x] u by simp
qed

interpretation pl: ring_list list_pending fdevent_plist_enqueue fdevent_plist_remove
  by unfold_locales (auto simp: plist_enqueue_eq intro: ring_add_tail plist_remove_ring)

lemma dequeue_empty: "ring h list_pending [] \<Longrightarrow> fdevent_plist_dequeue h = (0, h)"
  by (simp add: fdevent_plist_dequeue_def ring_Nil)

lemma dequeue_Cons:
  assumes "ring h list_pending (x # xs)"
  shows "\<exists>h'. fdevent_plist_dequeue h = (x, h') \<and> ring h' list_pending xs"
proof -
  have x: "x \<noteq> list_pending" and n: "nxt h list_pending = x" "prv h x = list_pending"
    and nx: "nxt h x \<noteq> x"
    using assms ring_nxt_neq [OF assms, of x] by (cases xs rule: rev_cases; force simp: ring_def)+
  have "ring (list_remove x h) list_pending xs"
    using ring_remove [OF assms, of x] by simp
  moreover have "list_remove x h = set_nxt list_pending (nxt h x) (set_prv (nxt h x) list_pending h)"
    using n x nx by (simp add: list_remove_def Let_def)
  ultimately have r: "ring (set_prv (nxt h x) list_pending (set_nxt list_pending (nxt h x) h)) list_pending xs"
    by (auto elim!: ring_frame)
  have "x \<notin> set (list_pending # xs)" using assms by (simp add: ring_def)
  then have "ring (set_prv x 0 (set_nxt x 0
      (set_prv (nxt h x) list_pending (set_nxt list_pending (nxt h x) h)))) list_pending xs"
    using r by (blast intro: ring_set_other)
  then show ?thesis
    using n x by (auto simp: fdevent_plist_dequeue_def Let_def)
qed

section \<open>The invariant\<close>

abbreviation active :: "fdevent \<Rightarrow> bool" where
  "active f \<equiv> bit (fde_state f) 8"

abbreviation pending :: "fdevent \<Rightarrow> bool" where
  "pending f \<equiv> bit (fde_state f) 9"

type_synonym fdheap = "addr \<Rightarrow> fdevent option"

definition heap_ok :: "fdheap \<Rightarrow> bool" where
  "heap_ok h \<longleftrightarrow>
     h NULL = None \<and> h list_pending = None \<and> (\<forall>a f. h a = Some f \<and> pending f \<longrightarrow> active f)"

definition pend_ok :: "fdheap \<Rightarrow> links \<Rightarrow> addr list \<Rightarrow> bool" where
  "pend_ok h lk xs \<longleftrightarrow>
     ring lk list_pending xs \<and> (\<forall>a. a \<in> set xs \<longleftrightarrow> (\<exists>f. h a = Some f \<and> pending f))"

definition table_ok :: "fdheap \<Rightarrow> addr list \<Rightarrow> bool" where
  "table_ok h tbl \<longleftrightarrow>
     (\<forall>i < length tbl. tbl ! i \<noteq> NULL \<longrightarrow> (\<exists>f. h (tbl ! i) = Some f \<and> active f \<and> fde_fd f = int i)) \<and>
     (\<forall>a f. h a = Some f \<and> active f \<longrightarrow>
        0 \<le> fde_fd f \<and> fde_fd f < int (length tbl) \<and> tbl ! nat (fde_fd f) = a)"

text \<open>Descriptor \<open>i\<close> belongs to an active object whose state has bit \<open>k\<close>.\<close>

definition watch :: "fdheap \<Rightarrow> nat \<Rightarrow> int \<Rightarrow> bool" where
  "watch h k i \<longleftrightarrow> (\<exists>a f. h a = Some f \<and> active f \<and> fde_fd f = i \<and> bit (fde_state f) k)"

definition sets_ok :: "fdheap \<Rightarrow> int set \<Rightarrow> int set \<Rightarrow> int set \<Rightarrow> bool" where
  "sets_ok h r w e \<longleftrightarrow> r = Collect (watch h 0) \<and> w = Collect (watch h 1) \<and> e = Collect (watch h 2)"

definition select_ok :: "fdheap \<Rightarrow> addr list \<Rightarrow> int \<Rightarrow> bool" where
  "select_ok h tbl n \<longleftrightarrow>
     0 \<le> n \<and> n \<le> int (length tbl) \<and> (\<forall>a f. h a = Some f \<and> active f \<longrightarrow> fde_fd f < n)"

definition fd_inv :: "'z fdstate_scheme \<Rightarrow> addr list \<Rightarrow> bool" where
  "fd_inv st xs \<longleftrightarrow>
     heap_ok (fdes st) \<and> pend_ok (fdes st) (plinks st) xs \<and> table_ok (fdes st) (fd_table st) \<and>
     sets_ok (fdes st) (read_fds st) (write_fds st) (error_fds st) \<and>
     select_ok (fdes st) (fd_table st) (select_n st)"

definition fd_ok :: "'z fdstate_scheme \<Rightarrow> bool" where
  "fd_ok st \<longleftrightarrow> (\<exists>xs. fd_inv st xs)"

lemmas fd_parts [inv_defs] = heap_ok_def pend_ok_def table_ok_def sets_ok_def select_ok_def

lemma upd_fde_sel [simp]:
  "fdes (upd_fde a f st) = (fdes st)(a \<mapsto> f)" "plinks (upd_fde a f st) = plinks st"
  "fd_table (upd_fde a f st) = fd_table st" "read_fds (upd_fde a f st) = read_fds st"
  "write_fds (upd_fde a f st) = write_fds st" "error_fds (upd_fde a f st) = error_fds st"
  "select_n (upd_fde a f st) = select_n st" "closed_fds (upd_fde a f st) = closed_fds st"
  by (simp_all add: upd_fde_def)

section \<open>Changing one object\<close>

lemma active_unique:
  "table_ok h tbl \<Longrightarrow> h a = Some f \<Longrightarrow> active f \<Longrightarrow> h b = Some g \<Longrightarrow> active g \<Longrightarrow>
   fde_fd f = fde_fd g \<Longrightarrow> a = b"
  unfolding table_ok_def by metis

lemma heap_ok_upd:
  "heap_ok h \<Longrightarrow> h a = Some f \<Longrightarrow> (pending g \<longrightarrow> active g) \<Longrightarrow> heap_ok (h(a \<mapsto> g))"
  by (cases "a = 0") (auto simp: heap_ok_def)

lemma table_ok_upd:
  "table_ok h tbl \<Longrightarrow> h a = Some f \<Longrightarrow> fde_fd g = fde_fd f \<Longrightarrow> active g = active f \<Longrightarrow>
   table_ok (h(a \<mapsto> g)) tbl"
  unfolding table_ok_def by (auto split: if_splits)

lemma select_ok_upd:
  "select_ok h tbl n \<Longrightarrow> h a = Some f \<Longrightarrow> fde_fd g = fde_fd f \<Longrightarrow> active g = active f \<Longrightarrow>
   select_ok (h(a \<mapsto> g)) tbl n"
  unfolding select_ok_def by auto

text \<open>The descriptors watched by the objects other than \<open>a\<close>.\<close>

definition watch_but :: "addr \<Rightarrow> fdheap \<Rightarrow> nat \<Rightarrow> int \<Rightarrow> bool" where
  "watch_but a h k i \<longleftrightarrow>
     (\<exists>b f. b \<noteq> a \<and> h b = Some f \<and> active f \<and> fde_fd f = i \<and> bit (fde_state f) k)"

lemma watch_split:
  "h a = Some f \<Longrightarrow>
   watch h k i \<longleftrightarrow> active f \<and> fde_fd f = i \<and> bit (fde_state f) k \<or> watch_but a h k i"
proof -
  assume a: "h a = Some f"
  let ?P = "\<lambda>b. \<exists>g. h b = Some g \<and> active g \<and> fde_fd g = i \<and> bit (fde_state g) k"
  have w: "watch h k i = Ex ?P" and b: "watch_but a h k i = (\<exists>b. b \<noteq> a \<and> ?P b)"
    by (simp_all add: watch_def watch_but_def)
  have "Ex Q = (Q a \<or> (\<exists>b. b \<noteq> a \<and> Q b))" for Q by metis
  from this [of ?P] have "watch h k i \<longleftrightarrow> ?P a \<or> watch_but a h k i" unfolding w b .
  then show ?thesis using a by simp
qed

lemma watch_but_upd [simp]: "watch_but a (h(a := x)) = watch_but a h"
  unfolding watch_but_def by (intro ext) auto

lemma watch_upd_iff:
  "watch (h(a \<mapsto> g)) k i \<longleftrightarrow> active g \<and> fde_fd g = i \<and> bit (fde_state g) k \<or> watch_but a h k i"
  by (simp add: watch_split [of "h(a \<mapsto> g)" a g])

lemma watch_but_fd: "table_ok h tbl \<Longrightarrow> h a = Some f \<Longrightarrow> active f \<Longrightarrow> \<not> watch_but a h k (fde_fd f)"
  unfolding watch_but_def using active_unique by metis

lemma watch_upd:
  assumes "table_ok h tbl" "h a = Some f" "active f" "active g" "fde_fd g = fde_fd f"
  shows "watch (h(a \<mapsto> g)) k i \<longleftrightarrow> (if i = fde_fd f then bit (fde_state g) k else watch h k i)"
  using assms watch_but_fd [OF assms(1-3), of k]
  by (auto simp: watch_upd_iff watch_split [where h = h and a = a and f = f])

lemma watch_upd_inactive:
  "h a = Some f \<Longrightarrow> \<not> active f \<Longrightarrow> \<not> active g \<Longrightarrow> watch (h(a \<mapsto> g)) = watch h"
  by (intro ext) (simp add: watch_upd_iff watch_split)

lemma watch_upd_same:
  "h a = Some f \<Longrightarrow> active g = active f \<Longrightarrow> fde_fd g = fde_fd f \<Longrightarrow>
   (\<And>k. k \<le> 2 \<Longrightarrow> bit (fde_state g) k = bit (fde_state f) k) \<Longrightarrow> k \<le> 2 \<Longrightarrow>
   watch (h(a \<mapsto> g)) k = watch h k"
  by (intro ext) (simp add: watch_upd_iff watch_split)

lemma sets_ok_upd_same:
  "sets_ok h r w e \<Longrightarrow> h a = Some f \<Longrightarrow> active g = active f \<Longrightarrow> fde_fd g = fde_fd f \<Longrightarrow>
   (\<And>k. k \<le> 2 \<Longrightarrow> bit (fde_state g) k = bit (fde_state f) k) \<Longrightarrow> sets_ok (h(a \<mapsto> g)) r w e"
  unfolding sets_ok_def by (simp add: watch_upd_same)

lemma pend_ok_upd:
  "pend_ok h lk xs \<Longrightarrow> h a = Some f \<Longrightarrow> pending g = pending f \<Longrightarrow> pend_ok (h(a \<mapsto> g)) lk xs"
  unfolding pend_ok_def by auto

lemma pend_ok_remove:
  assumes "pend_ok h lk xs" "h a = Some f" "pending f" "\<not> pending g"
  shows "pend_ok (h(a \<mapsto> g)) (fdevent_plist_remove a lk) (remove1 a xs)"
proof -
  have a: "a \<in> set xs" and d: "distinct xs" and r: "ring lk list_pending xs"
    using assms ring_distinct by (auto simp: pend_ok_def)
  from pl.del_ring [OF r a] show ?thesis
    using assms d by (auto simp: pend_ok_def)
qed

lemma pend_ok_enqueue:
  assumes "pend_ok h lk xs" "h a = Some f" "\<not> pending f" "pending g" "heap_ok h"
  shows "pend_ok (h(a \<mapsto> g)) (fdevent_plist_enqueue a lk) (xs @ [a])"
proof -
  have "a \<notin> set (list_pending # xs)" and r: "ring lk list_pending xs"
    using assms by (auto simp: pend_ok_def heap_ok_def)
  from pl.ins_ring [OF r this(1)] show ?thesis
    using assms by (auto simp: pend_ok_def)
qed

lemma pending_active: "fd_inv st xs \<Longrightarrow> fdes st a = Some f \<Longrightarrow> pending f \<Longrightarrow> active f"
  unfolding fd_inv_def heap_ok_def by blast

lemma pending_nonnull: "fd_inv st xs \<Longrightarrow> a \<in> set xs \<Longrightarrow> a \<noteq> 0"
  unfolding fd_inv_def heap_ok_def pend_ok_def by (metis option.distinct(1))

lemma fd_inv_upd:
  assumes "fd_inv st xs" "fdes st a = Some f" "fde_fd g = fde_fd f" "active g = active f"
    "pending g = pending f" "\<And>k. k \<le> 2 \<Longrightarrow> bit (fde_state g) k = bit (fde_state f) k"
  shows "fd_inv (upd_fde a g st) xs"
  using assms pending_active [OF assms(1,2)] unfolding fd_inv_def
  by (auto intro: heap_ok_upd table_ok_upd select_ok_upd sets_ok_upd_same pend_ok_upd)

section \<open>Changing the watched events\<close>

lemma Collect_watch_upd:
  assumes "table_ok h tbl" "h a = Some f" "active f" "active g" "fde_fd g = fde_fd f"
  shows "Collect (watch (h(a \<mapsto> g)) k) = fd_set_if (bit (fde_state g) k) (fde_fd f) (Collect (watch h k))"
  by (auto simp: watch_upd [OF assms] fd_set_if_def split: if_splits)

lemma sets_ok_update:
  assumes "sets_ok h r w e" "table_ok h tbl" "h a = Some f" "active f" "active g"
    "fde_fd g = fde_fd f" "\<And>k. k \<le> 2 \<Longrightarrow> bit (fde_state g) k = bit ev k"
  shows "sets_ok (h(a \<mapsto> g)) (fd_set_if (bit ev 0) (fde_fd f) r) (fd_set_if (bit ev 1) (fde_fd f) w)
           (fd_set_if (bit ev 2) (fde_fd f) e)"
  using assms(1,7) by (simp add: sets_ok_def Collect_watch_upd [OF assms(2-6)])

lemma fde_state_bits [flag_simps]:
  "k \<le> 2 \<Longrightarrow> bit ((s AND FDE_STATEMASK) OR (ev AND FDE_EVENTMASK)) k = bit ev k"
  "bit ((s AND FDE_STATEMASK) OR (ev AND FDE_EVENTMASK)) 8 = bit s 8"
  "bit ((s AND FDE_STATEMASK) OR (ev AND FDE_EVENTMASK)) 9 = bit s 9"
  by (auto simp: flag_simps)

text \<open>\<open>fdevent_set\<close> when the watched events really change: the object it leaves.\<close>

definition set_result :: "fdevent \<Rightarrow> u16 \<Rightarrow> fdevent" where
  "set_result f ev =
     (let f = f\<lparr>fde_state := (fde_state f AND FDE_STATEMASK) OR ev\<rparr> in
      if has (fde_state f) FDE_PENDING then
        let f = f\<lparr>fde_events := fde_events f AND NOT ev\<rparr> in
        if fde_events f = 0 then f\<lparr>fde_state := fde_state f AND NOT FDE_PENDING\<rparr> else f
      else f)"

lemma set_result_props:
  "fde_fd (set_result f ev) = fde_fd f" "fde_func (set_result f ev) = fde_func f"
  "fde_arg (set_result f ev) = fde_arg f"
  "active (set_result f (ev AND FDE_EVENTMASK)) = active f"
  "k \<le> 2 \<Longrightarrow> bit (fde_state (set_result f (ev AND FDE_EVENTMASK))) k = bit ev k"
  "pending (set_result f (ev AND FDE_EVENTMASK)) \<longleftrightarrow>
     pending f \<and> fde_events f AND NOT (ev AND FDE_EVENTMASK) \<noteq> 0"
  by (auto simp: set_result_def Let_def flag_simps)

definition set_state :: "addr \<Rightarrow> fdevent \<Rightarrow> u16 \<Rightarrow> 'z fdstate_scheme \<Rightarrow> 'z fdstate_scheme" where
  "set_state a f ev st =
     (let u = (if active f then fdevent_update a f ev st else st) in
      upd_fde a (set_result f ev)
        (if pending f \<and> fde_events f AND NOT ev = 0
         then u\<lparr>plinks := fdevent_plist_remove a (plinks u)\<rparr> else u))"

lemma fdevent_set_change:
  assumes f: "fdes st a = Some f"
    and ne: "fde_state f AND FDE_EVENTMASK \<noteq> events AND FDE_EVENTMASK"
  shows "fdevent_set a events st = Inr (set_state a f (events AND FDE_EVENTMASK) st)"
proof -
  have p: "has ((fde_state f AND FDE_STATEMASK) OR (events AND FDE_EVENTMASK)) FDE_PENDING = pending f"
    by (simp add: has_flag fde_state_bits)
  have a: "has (fde_state f) FDE_ACTIVE = active f" by (simp add: has_flag)
  show ?thesis
    using ne by (simp add: fdevent_set_def set_state_def set_result_def Let_def f p a)
qed

lemma set_state_fields:
  "fdes (set_state a f ev st) = (fdes st)(a \<mapsto> set_result f ev)"
  "fd_table (set_state a f ev st) = fd_table st" "select_n (set_state a f ev st) = select_n st"
  "plinks (set_state a f ev st) =
     (if pending f \<and> fde_events f AND NOT ev = 0 then fdevent_plist_remove a (plinks st) else plinks st)"
  "read_fds (set_state a f ev st) =
     (if active f then fd_set_if (has ev FDE_READ) (fde_fd f) (read_fds st) else read_fds st)"
  "write_fds (set_state a f ev st) =
     (if active f then fd_set_if (has ev FDE_WRITE) (fde_fd f) (write_fds st) else write_fds st)"
  "error_fds (set_state a f ev st) =
     (if active f then fd_set_if (has ev FDE_ERROR) (fde_fd f) (error_fds st) else error_fds st)"
  "closed_fds (set_state a f ev st) = closed_fds st"
  by (simp_all add: set_state_def Let_def fdevent_update_def)

lemma fdevent_set_inv:
  assumes inv: "fd_inv st xs" and f: "fdes st a = Some f"
  obtains st' xs' where "fdevent_set a events st = Inr st'" "fd_inv st' xs'" "set xs' \<subseteq> set xs"
    "fdes st' = (fdes st)(a \<mapsto> (if fde_state f AND FDE_EVENTMASK = events AND FDE_EVENTMASK then f
                                  else set_result f (events AND FDE_EVENTMASK)))"
    "fd_table st' = fd_table st" "closed_fds st' = closed_fds st"
proof (cases "fde_state f AND FDE_EVENTMASK = events AND FDE_EVENTMASK")
  case True
  then have "fdevent_set a events st = Inr st"
    by (simp only: fdevent_set_def deref_Some [of "fdes st" a f, OF f] bindE_Inr Let_def simp_thms if_True)
  moreover have "fdes st = (fdes st)(a \<mapsto> (if fde_state f AND FDE_EVENTMASK = events AND FDE_EVENTMASK
      then f else set_result f (events AND FDE_EVENTMASK)))"
    unfolding if_P [OF True] by (rule fun_upd_idem [of "fdes st" a "Some f", OF f, symmetric])
  ultimately show ?thesis using that inv by blast
next
  case False
  define ev where "ev = events AND FDE_EVENTMASK"
  define g where "g = set_result f ev"
  let ?st = "set_state a f ev st"
  let ?gone = "pending f \<and> fde_events f AND NOT ev = 0"
  let ?xs = "if ?gone then remove1 a xs else xs"
  have parts: "heap_ok (fdes st)" "pend_ok (fdes st) (plinks st) xs" "table_ok (fdes st) (fd_table st)"
    "sets_ok (fdes st) (read_fds st) (write_fds st) (error_fds st)"
    "select_ok (fdes st) (fd_table st) (select_n st)"
    using inv by (auto simp: fd_inv_def)
  have low: "bit ev k = bit events k" if "k \<le> 2" for k
    using that by (simp add: ev_def bit_and_iff mask_bits)
  have g: "fde_fd g = fde_fd f" "active g = active f" "pending g = (pending f \<and> \<not> ?gone)"
    unfolding g_def ev_def by (simp_all only: set_result_props) blast
  have g4: "bit (fde_state g) k = bit ev k" if "k \<le> 2" for k
    unfolding low [OF that] unfolding g_def ev_def by (rule set_result_props(5) [OF that])
  have "sets_ok ((fdes st)(a \<mapsto> g)) (read_fds ?st) (write_fds ?st) (error_fds ?st)"
  proof (cases "active f")
    case True
    then show ?thesis
      using sets_ok_update [OF parts(4,3) f True, of g ev] g g4 by (simp add: set_state_fields has_flag)
  next
    case False
    then show ?thesis
      using parts(4) watch_upd_inactive [of "fdes st" a f g, OF f] g by (simp add: sets_ok_def set_state_fields)
  qed
  moreover have "pend_ok ((fdes st)(a \<mapsto> g)) (plinks ?st) ?xs"
  proof (cases ?gone)
    case True
    then show ?thesis using pend_ok_remove [OF parts(2) f, of g] g by (simp add: set_state_fields)
  next
    case False
    then show ?thesis using pend_ok_upd [OF parts(2) f, of g] g by (auto simp add: set_state_fields)
  qed
  moreover have "heap_ok ((fdes st)(a \<mapsto> g))" "table_ok ((fdes st)(a \<mapsto> g)) (fd_table st)"
    "select_ok ((fdes st)(a \<mapsto> g)) (fd_table st) (select_n st)"
    using parts f g pending_active [OF inv f]
    by (auto intro!: heap_ok_upd table_ok_upd select_ok_upd)
  ultimately have "fd_inv ?st ?xs" by (simp add: fd_inv_def set_state_fields g_def)
  moreover have "set ?xs \<subseteq> set xs" using set_remove1_subset [of a xs] by simp
  ultimately show ?thesis
    using that fdevent_set_change [OF f False] False unfolding ev_def by (auto simp: set_state_fields)
qed

text \<open>\<open>fdevent_add\<close> and \<open>fdevent_del\<close> are calls of \<open>fdevent_set\<close>.\<close>

lemma fdevent_add_set:
  "fdes st a = Some f \<Longrightarrow>
   fdevent_add a ev st = fdevent_set a ((fde_state f AND FDE_EVENTMASK) OR (ev AND FDE_EVENTMASK)) st"
  by (simp add: fdevent_add_def)

lemma fdevent_del_set:
  "fdes st a = Some f \<Longrightarrow>
   fdevent_del a ev st = fdevent_set a ((fde_state f AND FDE_EVENTMASK) AND NOT (ev AND FDE_EVENTMASK)) st"
  by (simp add: fdevent_del_def)

lemma set_keeps:
  assumes "fd_inv st xs" "fdes st a = Some f" "fdevent_set a ev st = Inr st'"
  shows "\<exists>xs'. fd_inv st' xs' \<and> set xs' \<subseteq> set xs"
  using fdevent_set_inv [OF assms(1,2), of ev] assms(3) by (metis Inr_inject)

section \<open>Registering an object\<close>

lemma grow_table_gt: "0 < m \<Longrightarrow> fd < grow_table m fd \<and> m \<le> grow_table m fd"
proof (induction m fd rule: grow_table.induct)
  case (1 m fd)
  show ?case
  proof (cases "m \<le> fd")
    case True
    with 1 have "fd < grow_table (2 * m) fd \<and> 2 * m \<le> grow_table (2 * m) fd" by simp
    with True 1 show ?thesis by (simp add: grow_table.simps [of m fd])
  next
    case False
    with 1 show ?thesis by (simp add: grow_table.simps [of m fd])
  qed
qed

text \<open>With four-byte pointers the \<open>memset\<close> clears every slot \<open>realloc\<close> adds.\<close>

lemma new_slots_zero: "sizeof_ptr env = 4 \<Longrightarrow> new_slots env old n = replicate n 0"
  by (rule nth_equalityI) (auto simp: new_slots_def)

lemma length_new_slots [simp]: "length (new_slots env old n) = n"
  by (simp add: new_slots_def)

text \<open>What a caller of \<open>fdevent_install\<close> provides: a fresh object and a descriptor in range that no
  active object has.\<close>

definition installable :: "addr \<Rightarrow> int \<Rightarrow> 'z fdstate_scheme \<Rightarrow> bool" where
  "installable a fd st \<longleftrightarrow>
     a \<noteq> NULL \<and> a \<noteq> list_pending \<and> 0 \<le> fd \<and> fd \<le> 32000 \<and>
     (\<forall>f. fdes st a = Some f \<longrightarrow> \<not> active f \<and> \<not> pending f) \<and>
     (\<forall>b f. fdes st b = Some f \<and> active f \<longrightarrow> fde_fd f \<noteq> fd)"

definition env_ok :: "fdenv \<Rightarrow> bool" where
  "env_ok env \<longleftrightarrow> sizeof_ptr env = 4 \<and> (\<forall>n. realloc_ok env n)"

definition fresh_fde :: "int \<Rightarrow> fd_func \<Rightarrow> addr \<Rightarrow> fdevent" where
  "fresh_fde fd func arg =
     \<lparr>fde_fd = fd, fde_force_eof = False, fde_state = FDE_ACTIVE, fde_events = 0, fde_func = func, fde_arg = arg\<rparr>"

text \<open>The table after registering \<open>a\<close> under \<open>fd\<close>.\<close>

definition table_with :: "addr list \<Rightarrow> int \<Rightarrow> addr \<Rightarrow> addr list" where
  "table_with tbl fd a =
     (let old = length tbl;
          n = (if int old \<le> fd then grow_table (if old = 0 then 256 else old) (nat fd) - old else 0)
      in (tbl @ replicate n NULL)[nat fd := a])"

lemma register_eq:
  assumes "env_ok env" "fdes st a = Some f" "0 \<le> fde_fd f" "fde_fd f \<le> 32000"
  shows "fdevent_register env a st =
    Inr ((if fd_table st = [] then fdevent_init st else st)\<lparr>fd_table := table_with (fd_table st) (fde_fd f) a\<rparr>)"
  using assms
  by (auto simp: fdevent_register_def table_with_def env_ok_def new_slots_zero Let_def fdevent_init_def)

lemma length_table_with:
  "0 \<le> fd \<Longrightarrow> length tbl \<le> length (table_with tbl fd a) \<and> nat fd < length (table_with tbl fd a)"
  using grow_table_gt [of 256 "nat fd"] grow_table_gt [of "length tbl" "nat fd"]
  by (auto simp: table_with_def Let_def)

lemma nth_table_with:
  assumes "0 \<le> fd" "i < length (table_with tbl fd a)"
  shows "table_with tbl fd a ! i = (if i = nat fd then a else if i < length tbl then tbl ! i else 0)"
  using assms by (auto simp: table_with_def Let_def nth_list_update nth_append)

lemma table_ok_install:
  assumes "table_ok h tbl" "0 \<le> fde_fd g" "active g" "a \<noteq> 0"
    and "\<forall>f. h a = Some f \<longrightarrow> \<not> active f" and "\<forall>b f. h b = Some f \<and> active f \<longrightarrow> fde_fd f \<noteq> fde_fd g"
  shows "table_ok (h(a \<mapsto> g)) (table_with tbl (fde_fd g) a)"
proof -
  let ?t = "table_with tbl (fde_fd g) a"
  have len: "length tbl \<le> length ?t" "nat (fde_fd g) < length ?t"
    using length_table_with [OF assms(2)] by auto
  have "\<exists>f. (h(a \<mapsto> g)) (?t ! i) = Some f \<and> active f \<and> fde_fd f = int i"
    if i: "i < length ?t" "?t ! i \<noteq> 0" for i
  proof (cases "i = nat (fde_fd g)")
    case True
    then show ?thesis using assms i by (simp add: nth_table_with)
  next
    case False
    then have "?t ! i = tbl ! i" "i < length tbl" using assms i by (auto simp: nth_table_with split: if_splits)
    then show ?thesis using assms(1,5) i(2) unfolding table_ok_def by fastforce
  qed
  moreover have "0 \<le> fde_fd f \<and> fde_fd f < int (length ?t) \<and> ?t ! nat (fde_fd f) = b"
    if "(h(a \<mapsto> g)) b = Some f" "active f" for b f
  proof (cases "b = a")
    case True
    then show ?thesis using that assms len by (auto simp: nth_table_with)
  next
    case False
    then have b: "h b = Some f" using that by simp
    then have "0 \<le> fde_fd f" "fde_fd f < int (length tbl)" "tbl ! nat (fde_fd f) = b" "fde_fd f \<noteq> fde_fd g"
      using assms(1,6) that(2) by (auto simp: table_ok_def)
    then show ?thesis using len assms(2) by (auto simp: nth_table_with nat_eq_iff)
  qed
  ultimately show ?thesis unfolding table_ok_def by blast
qed

lemma select_ok_install:
  assumes "select_ok h tbl n" "0 \<le> fde_fd g" "length tbl \<le> length tbl'" "nat (fde_fd g) < length tbl'"
    and "\<forall>f. h a = Some f \<longrightarrow> \<not> active f"
  shows "select_ok (h(a \<mapsto> g)) tbl' (if fde_fd g \<ge> n then fde_fd g + 1 else n)"
proof -
  let ?n = "if fde_fd g \<ge> n then fde_fd g + 1 else n"
  have n: "n \<le> ?n" "0 \<le> n" "n \<le> int (length tbl)" using assms(1) by (auto simp: select_ok_def)
  moreover have "?n \<le> int (length tbl')" using n assms(2-4) by auto
  moreover have "fde_fd f < ?n" if "(h(a \<mapsto> g)) b = Some f" "active f" for b f
  proof (cases "b = a")
    case False
    then have "fde_fd f < n" using that assms(1) unfolding select_ok_def by (metis fun_upd_other)
    with n(1) show ?thesis by linarith
  qed (use that in auto)
  ultimately show ?thesis unfolding select_ok_def by (meson order_trans)
qed

lemma watch_not_active: "\<forall>f. h a = Some f \<longrightarrow> \<not> active f \<Longrightarrow> watch h k i = watch_but a h k i"
  unfolding watch_def watch_but_def by metis

lemma sets_ok_install:
  assumes "sets_ok h r w e" "\<forall>f. h a = Some f \<longrightarrow> \<not> active f" "\<And>k. k \<le> 2 \<Longrightarrow> \<not> bit (fde_state g) k"
  shows "sets_ok (h(a \<mapsto> g)) r w e"
proof -
  have "watch (h(a \<mapsto> g)) k = watch h k" if "k \<le> 2" for k
    using assms(3) [OF that] by (intro ext) (simp add: watch_upd_iff watch_not_active [of h a, OF assms(2)])
  then show ?thesis using assms(1) by (simp add: sets_ok_def)
qed

lemma sets_ok_empty:
  assumes "sets_ok h r w e" "table_ok h []"
  shows "sets_ok h {} {} {}"
proof -
  have "\<not> watch h k i" for k i using assms(2) by (force simp: table_ok_def watch_def)
  then show ?thesis by (simp add: sets_ok_def)
qed

lemma fdevent_install_inv:
  assumes inv: "fd_inv st xs" and env: "env_ok env" and inst: "installable a fd st"
  obtains st' where "fdevent_install env a fd func arg st = Inr st'" "fd_inv st' xs"
    "fdes st' = (fdes st)(a \<mapsto> fresh_fde fd func arg)" "closed_fds st' = closed_fds st"
    "fd_table st' = table_with (fd_table st) fd a"
proof -
  define g where "g = fresh_fde fd func arg"
  have g: "active g" "\<not> pending g" "\<And>k. k \<le> 2 \<Longrightarrow> \<not> bit (fde_state g) k" "fde_fd g = fd"
    "g\<lparr>fde_state := fde_state g OR FDE_ACTIVE\<rparr> = g"
    by (auto simp: g_def fresh_fde_def mask_bits)
  have pre: "a \<noteq> 0" "a \<noteq> list_pending" "0 \<le> fd" "fd \<le> 32000" "\<forall>f. fdes st a = Some f \<longrightarrow> \<not> active f"
    "\<forall>f. fdes st a = Some f \<longrightarrow> \<not> pending f" "\<forall>b f. fdes st b = Some f \<and> active f \<longrightarrow> fde_fd f \<noteq> fd"
    using inst by (auto simp: installable_def)
  have parts: "heap_ok (fdes st)" "pend_ok (fdes st) (plinks st) xs" "table_ok (fdes st) (fd_table st)"
    "sets_ok (fdes st) (read_fds st) (write_fds st) (error_fds st)"
    "select_ok (fdes st) (fd_table st) (select_n st)"
    using inv by (auto simp: fd_inv_def)
  define st1 where "st1 = upd_fde a g (st\<lparr>plinks := set_prv a 0 (set_nxt a 0 (plinks st))\<rparr>)"
  define st2 where "st2 = (if fd_table st = [] then fdevent_init st1 else st1)\<lparr>fd_table := table_with (fd_table st) fd a\<rparr>"
  define st3 where "st3 = upd_fde a g (fdevent_connect g st2)"
  have "fdevent_register env a st1 = Inr st2"
    using register_eq [OF env, of st1 a g] pre g by (simp add: st1_def st2_def)
  then have eq: "fdevent_install env a fd func arg st = Inr st3"
    using g(5) by (simp add: fdevent_install_def Let_def st1_def st3_def g_def fresh_fde_def)
  have fields: "fdes st3 = (fdes st)(a \<mapsto> g)" "plinks st3 = set_prv a 0 (set_nxt a 0 (plinks st))"
    "fd_table st3 = table_with (fd_table st) fd a"
    "select_n st3 = (if fd \<ge> select_n st then fd + 1 else select_n st)" "closed_fds st3 = closed_fds st"
    "(read_fds st3, write_fds st3, error_fds st3) =
       (if fd_table st = [] then ({}, {}, {}) else (read_fds st, write_fds st, error_fds st))"
    using g(4) by (auto simp: st3_def st2_def st1_def fdevent_connect_def fdevent_init_def)
  have "sets_ok (fdes st) (read_fds st3) (write_fds st3) (error_fds st3)"
    using fields(6) parts(3,4) sets_ok_empty by (auto split: if_splits)
  then have "sets_ok (fdes st3) (read_fds st3) (write_fds st3) (error_fds st3)"
    unfolding fields(1) using pre g by (intro sets_ok_install) auto
  moreover have "table_ok (fdes st3) (fd_table st3)"
    unfolding fields using table_ok_install [OF parts(3), of g a] g pre by simp
  moreover have "select_ok (fdes st3) (fd_table st3) (select_n st3)"
    unfolding fields using select_ok_install [OF parts(5), of g "table_with (fd_table st) fd a" a] g pre
      length_table_with [OF pre(3), of "fd_table st" a] by (simp split: if_splits)
  moreover have "heap_ok (fdes st3)"
    unfolding fields using parts(1) pre g by (auto simp: heap_ok_def)
  moreover have "pend_ok (fdes st3) (plinks st3) xs"
  proof -
    have r: "ring (plinks st) list_pending xs" and "a \<notin> set (list_pending # xs)"
      using parts(2) pre by (auto simp: pend_ok_def)
    then have "ring (plinks st3) list_pending xs" unfolding fields by (blast intro: ring_set_other)
    then show ?thesis using parts(2) pre g unfolding fields pend_ok_def by auto
  qed
  ultimately have "fd_inv st3 xs" by (simp add: fd_inv_def)
  with eq fields show ?thesis using that by (simp add: g_def)
qed

lemma fdevent_create_inv:
  assumes inv: "fd_inv st xs" and env: "env_ok env" and inst: "installable a fd st"
  obtains st' where "fdevent_create env (Some a) fd func arg st = Inr (a, st')" "fd_inv st' xs"
    "fdes st' = (fdes st)(a \<mapsto> (fresh_fde fd func arg)\<lparr>fde_state := FDE_ACTIVE OR FDE_CREATED\<rparr>)"
    "closed_fds st' = closed_fds st"
proof -
  obtain st1 where st1: "fdevent_install env a fd func arg st = Inr st1" "fd_inv st1 xs"
    "fdes st1 = (fdes st)(a \<mapsto> fresh_fde fd func arg)" "closed_fds st1 = closed_fds st"
    by (rule fdevent_install_inv [OF assms])
  let ?g = "(fresh_fde fd func arg)\<lparr>fde_state := FDE_ACTIVE OR FDE_CREATED\<rparr>"
  have "fd_inv (upd_fde a ?g st1) xs"
    by (rule fd_inv_upd [OF st1(2), of a "fresh_fde fd func arg"])
      (auto simp: st1(3) fresh_fde_def flag_simps)
  moreover have "fdevent_create env (Some a) fd func arg st = Inr (a, upd_fde a ?g st1)"
    using st1(1,3) by (simp add: fdevent_create_def fresh_fde_def)
  ultimately show ?thesis using that st1 by simp
qed

section \<open>Removing an object\<close>

lemma last_used_ge: "i < m \<Longrightarrow> tbl ! i \<noteq> 0 \<Longrightarrow> i \<le> last_used tbl m"
  by (induction m) (auto simp: less_Suc_eq)

lemma last_used_less: "0 < m \<Longrightarrow> last_used tbl m < m"
proof (induction m)
  case (Suc m)
  then show ?case by (cases m) auto
qed simp

lemma table_ok_remove:
  assumes "table_ok h tbl" "h a = Some f" "active f" "\<not> active g"
  shows "table_ok (h(a \<mapsto> g)) (tbl[nat (fde_fd f) := 0])"
proof -
  let ?i = "nat (fde_fd f)"
  have f: "0 \<le> fde_fd f" "fde_fd f < int (length tbl)" "tbl ! ?i = a"
    using assms(1-3) by (auto simp: table_ok_def)
  have slot: "\<exists>g'. (h(a \<mapsto> g)) (tbl ! j) = Some g' \<and> active g' \<and> fde_fd g' = int j"
    if j: "j < length tbl" "j \<noteq> ?i" "tbl ! j \<noteq> 0" for j
  proof -
    obtain g' where g': "h (tbl ! j) = Some g'" "active g'" "fde_fd g' = int j"
      using assms(1) j unfolding table_ok_def by blast
    have "tbl ! j \<noteq> a"
    proof
      assume "tbl ! j = a"
      with g' assms(2) j(2) show False by simp
    qed
    with g' show ?thesis by simp
  qed
  have other: "nat (fde_fd g') \<noteq> ?i" if "(h(a \<mapsto> g)) b = Some g'" "active g'" for b g'
  proof
    assume "nat (fde_fd g') = ?i"
    have "b \<noteq> a" using that assms(4) by auto
    with that have b: "h b = Some g'" by simp
    then have "tbl ! nat (fde_fd g') = b" using assms(1) that(2) by (auto simp: table_ok_def)
    with f(3) \<open>nat (fde_fd g') = ?i\<close> \<open>b \<noteq> a\<close> show False by simp
  qed
  show ?thesis unfolding table_ok_def
  proof (intro conjI allI impI, goal_cases)
    case (1 j)
    then have "j \<noteq> ?i" by (auto simp: nth_list_update)
    with 1 slot [of j] show ?case by simp
  next
    case (2 b g')
    then have "h b = Some g'" "active g'" using assms(4) by (auto split: if_splits)
    then show ?case using assms(1) unfolding table_ok_def by blast
  next
    case (3 b g')
    then have "h b = Some g'" "active g'" using assms(4) by (auto split: if_splits)
    then show ?case using assms(1) unfolding table_ok_def by simp
  next
    case (4 b g')
    then have "h b = Some g'" "active g'" using assms(4) by (auto split: if_splits)
    then have "tbl ! nat (fde_fd g') = b" using assms(1) unfolding table_ok_def by blast
    with 4 other [of b g'] show ?case by simp
  qed
qed

lemma sets_ok_remove:
  assumes "sets_ok h r w e" "table_ok h tbl" "h a = Some f" "active f" "\<not> active g"
  shows "sets_ok (h(a \<mapsto> g)) (r - {fde_fd f}) (w - {fde_fd f}) (e - {fde_fd f})"
proof -
  have "Collect (watch (h(a \<mapsto> g)) k) = Collect (watch h k) - {fde_fd f}" for k
    using watch_but_fd [of h tbl a f k, OF assms(2-4)] assms(5)
    by (auto simp: watch_upd_iff watch_split [of h a f, OF assms(3)])
  then show ?thesis using assms(1) by (simp add: sets_ok_def)
qed

lemma select_ok_remove:
  assumes "select_ok h tbl n" "table_ok h tbl" "h a = Some f" "active f" "\<not> active g" "heap_ok h"
  shows "select_ok (h(a \<mapsto> g)) (tbl[nat (fde_fd f) := 0]) (int (last_used tbl (nat n)) + 1)"
proof -
  have n: "fde_fd f < n" "0 \<le> fde_fd f" "n \<le> int (length tbl)"
    using assms unfolding select_ok_def table_ok_def by auto
  have "fde_fd g' < int (last_used tbl (nat n)) + 1" if "(h(a \<mapsto> g)) b = Some g'" "active g'" for b g'
  proof -
    have b: "b \<noteq> a" "h b = Some g'" using that assms(5) by (auto split: if_splits)
    then have g': "fde_fd g' < n" "0 \<le> fde_fd g'" "tbl ! nat (fde_fd g') = b" "fde_fd g' < int (length tbl)"
      using assms(1,2) that(2) unfolding select_ok_def table_ok_def by auto
    have "b \<noteq> 0" using b(2) assms(6) by (cases "b = 0") (auto simp: heap_ok_def)
    then have "nat (fde_fd g') \<le> last_used tbl (nat n)"
      using g' by (intro last_used_ge) auto
    then show ?thesis using g' by linarith
  qed
  moreover have "last_used tbl (nat n) < nat n" using n by (intro last_used_less) simp
  then have "int (last_used tbl (nat n)) + 1 \<le> int (length (tbl[nat (fde_fd f) := 0]))"
    using n by simp
  ultimately show ?thesis unfolding select_ok_def by (metis of_nat_0_le_iff zero_le_one add_nonneg_nonneg)
qed

lemma fdevent_remove_inv:
  assumes inv: "fd_inv st xs" and f: "fdes st a = Some f"
  obtains st' where "fdevent_remove a st = Inr st'" "fd_inv st' (remove1 a xs)"
    "fdes st' = (fdes st)(a \<mapsto> f\<lparr>fde_state := 0, fde_events := 0\<rparr>)"
    "closed_fds st' = closed_fds st @
       (if active f \<and> \<not> has (fde_state f) FDE_DONT_CLOSE then [fde_fd f] else [])"
proof -
  define g where "g = f\<lparr>fde_state := 0, fde_events := 0\<rparr>"
  have g: "\<not> active g" "\<not> pending g" by (simp_all add: g_def)
  define st1 where "st1 = (if pending f then st\<lparr>plinks := fdevent_plist_remove a (plinks st)\<rparr> else st)"
  have parts: "heap_ok (fdes st)" "pend_ok (fdes st) (plinks st) xs" "table_ok (fdes st) (fd_table st)"
    "sets_ok (fdes st) (read_fds st) (write_fds st) (error_fds st)"
    "select_ok (fdes st) (fd_table st) (select_n st)"
    using inv by (auto simp: fd_inv_def)
  have s1: "fdes st1 = fdes st" "fd_table st1 = fd_table st" "read_fds st1 = read_fds st"
    "write_fds st1 = write_fds st" "error_fds st1 = error_fds st" "select_n st1 = select_n st"
    "closed_fds st1 = closed_fds st"
    by (simp_all add: st1_def)
  have heap: "heap_ok ((fdes st)(a \<mapsto> g))" using heap_ok_upd [OF parts(1) f, of g] g by simp
  have pend: "pend_ok ((fdes st)(a \<mapsto> g)) (plinks st1) (remove1 a xs)"
  proof (cases "pending f")
    case True
    then show ?thesis using pend_ok_remove [OF parts(2) f True g(2)] by (simp add: st1_def)
  next
    case False
    then have "a \<notin> set xs" using parts(2) f by (auto simp: pend_ok_def)
    then show ?thesis
      using pend_ok_upd [OF parts(2) f, of g] False g by (simp add: st1_def remove1_idem)
  qed
  show ?thesis
  proof (cases "active f")
    case True
    let ?log = "if has (fde_state f) FDE_DONT_CLOSE then [] else [fde_fd f]"
    let ?st = "upd_fde a g (st1\<lparr>read_fds := read_fds st - {fde_fd f}, write_fds := write_fds st - {fde_fd f},
       error_fds := error_fds st - {fde_fd f}, select_n := int (last_used (fd_table st) (nat (select_n st))) + 1,
       fd_table := (fd_table st)[nat (fde_fd f) := 0], closed_fds := closed_fds st @ ?log\<rparr>)"
    have b: "0 \<le> fde_fd f" "fde_fd f < int (length (fd_table st))" "fd_table st ! nat (fde_fd f) = a"
      "select_n st \<le> int (length (fd_table st))"
      using parts f True by (auto simp: table_ok_def select_ok_def)
    have "fdevent_remove a st = Inr ?st"
      using b f True
      by (simp add: fdevent_remove_def fdevent_disconnect_def fdevent_unregister_def Let_def has_flag
          g_def st1_def)
    moreover have "fd_inv ?st (remove1 a xs)"
      using heap pend table_ok_remove [OF parts(3) f True g(1)] sets_ok_remove [OF parts(4,3) f True g(1)]
        select_ok_remove [OF parts(5,3) f True g(1) parts(1)]
      by (simp add: fd_inv_def s1)
    ultimately show ?thesis using that [of ?st] True by (simp add: g_def s1)
  next
    case False
    have "fdevent_remove a st = Inr (upd_fde a g st1)"
      using f False by (simp add: fdevent_remove_def Let_def has_flag g_def st1_def)
    moreover have "fd_inv (upd_fde a g st1) (remove1 a xs)"
      using heap pend table_ok_upd [OF parts(3) f, of g] select_ok_upd [OF parts(5) f, of g]
        watch_upd_inactive [of "fdes st" a f g, OF f False g(1)] parts(4) False g
      by (simp add: fd_inv_def sets_ok_def s1 g_def)
    ultimately show ?thesis using that False by (simp add: g_def s1)
  qed
qed

section \<open>Collecting ready descriptors\<close>

text \<open>The contract of \<open>select\<close>: it reports only descriptors it was asked about, and counts its reports.\<close>

definition sel_sound :: "selres \<Rightarrow> 'z fdstate_scheme \<Rightarrow> bool" where
  "sel_sound sel st \<longleftrightarrow>
     sel_r sel \<subseteq> read_fds st \<and> sel_w sel \<subseteq> write_fds st \<and> sel_e sel \<subseteq> error_fds st"

lemma ready_events_bits:
  "bit (ready_events i r w e) 0 \<longleftrightarrow> i \<in> r" "bit (ready_events i r w e) 1 \<longleftrightarrow> i \<in> w"
  "bit (ready_events i r w e) 2 \<longleftrightarrow> i \<in> e"
  by (auto simp: ready_events_def bit_or_iff mask_bits)

lemma ready_events_0: "ready_events i r w e = 0 \<longleftrightarrow> i \<notin> r \<and> i \<notin> w \<and> i \<notin> e"
proof
  assume "ready_events i r w e = 0"
  then show "i \<notin> r \<and> i \<notin> w \<and> i \<notin> e"
    using ready_events_bits [of i r w e] by (metis bit_0_eq bot_apply bot_bool_def)
qed (simp add: ready_events_def)

lemma mark_ready_inv:
  assumes inv: "fd_inv st xs" and i: "i < length (fd_table st)" "fd_table st ! i \<noteq> 0"
  obtains st' xs' f where "mark_ready i ev st = Inr st'" "fd_inv st' xs'" "set xs' = insert (fd_table st ! i) (set xs)"
    "fd_table st' = fd_table st" "select_n st' = select_n st" "fdes st (fd_table st ! i) = Some f"
    "fdes st' = (fdes st)(fd_table st ! i \<mapsto>
       f\<lparr>fde_events := fde_events f OR ev, fde_state := fde_state f OR FDE_PENDING\<rparr>)"
proof -
  let ?a = "fd_table st ! i"
  obtain f where f: "fdes st ?a = Some f" "active f" "fde_fd f = int i"
    using inv i unfolding fd_inv_def table_ok_def by blast
  let ?g = "f\<lparr>fde_events := fde_events f OR ev, fde_state := fde_state f OR FDE_PENDING\<rparr>"
  have bits: "active ?g = active f" "pending ?g" "\<And>k. k \<le> 2 \<Longrightarrow> bit (fde_state ?g) k = bit (fde_state f) k"
    "fde_fd ?g = fde_fd f"
    by (auto simp: flag_simps)
  show ?thesis
  proof (cases "pending f")
    case True
    have "fde_state f OR FDE_PENDING = fde_state f"
      by (rule bit_eqI) (use True in \<open>auto simp: flag_simps\<close>)
    then have g: "?g = f\<lparr>fde_events := fde_events f OR ev\<rparr>" by simp
    have "?a \<in> set xs" using inv f True by (auto simp: fd_inv_def pend_ok_def)
    then show ?thesis
      using that [of "upd_fde ?a ?g st" xs f] fd_inv_upd [OF inv f(1), of ?g] bits True i f g
      by (simp add: mark_ready_def Let_def has_flag insert_absorb)
  next
    case False
    let ?st = "upd_fde ?a ?g (st\<lparr>plinks := fdevent_plist_enqueue ?a (plinks st)\<rparr>)"
    have parts: "heap_ok (fdes st)" "pend_ok (fdes st) (plinks st) xs" "table_ok (fdes st) (fd_table st)"
      "sets_ok (fdes st) (read_fds st) (write_fds st) (error_fds st)"
      "select_ok (fdes st) (fd_table st) (select_n st)"
      using inv by (auto simp: fd_inv_def)
    have "fd_inv ?st (xs @ [?a])"
      using heap_ok_upd [OF parts(1) f(1), of ?g] pend_ok_enqueue [OF parts(2) f(1) False bits(2) parts(1)]
        table_ok_upd [OF parts(3) f(1) bits(4,1)] sets_ok_upd_same [OF parts(4) f(1) bits(1,4,3)]
        select_ok_upd [OF parts(5) f(1) bits(4,1)] f(2) bits(1)
      by (simp add: fd_inv_def)
    then show ?thesis
      using that [of ?st "xs @ [?a]" f] False i f by (simp add: mark_ready_def Let_def has_flag)
  qed
qed

text \<open>Events are only added: nothing reported or pending is forgotten.\<close>

definition ev_le :: "fdheap \<Rightarrow> fdheap \<Rightarrow> bool" where
  "ev_le h h' \<longleftrightarrow>
     (\<forall>a f. h a = Some f \<longrightarrow>
        (\<exists>f'. h' a = Some f' \<and> (\<forall>k. bit (fde_events f) k \<longrightarrow> bit (fde_events f') k) \<and> (pending f \<longrightarrow> pending f')))"

lemma ev_le_refl [simp]: "ev_le h h"
  by (auto simp: ev_le_def)

lemma ev_le_trans: "ev_le h h' \<Longrightarrow> ev_le h' h'' \<Longrightarrow> ev_le h h''"
  unfolding ev_le_def by (metis (full_types))

lemma ev_le_mark:
  "h a = Some f \<Longrightarrow>
   ev_le h (h(a \<mapsto> f\<lparr>fde_events := fde_events f OR ev, fde_state := fde_state f OR FDE_PENDING\<rparr>))"
  by (auto simp: ev_le_def flag_simps)

text \<open>Descriptor \<open>i\<close> is pending and its object has recorded the events \<open>ev\<close>.\<close>

definition delivered :: "fdheap \<Rightarrow> addr \<Rightarrow> u16 \<Rightarrow> bool" where
  "delivered h a ev \<longleftrightarrow> (\<exists>f. h a = Some f \<and> pending f \<and> (\<forall>k. bit ev k \<longrightarrow> bit (fde_events f) k))"

lemma delivered_mono: "delivered h a ev \<Longrightarrow> ev_le h h' \<Longrightarrow> delivered h' a ev"
  unfolding delivered_def ev_le_def by metis

lemma process_fds_inv:
  assumes "fd_inv st xs" "fd_table st = tbl"
    and "\<forall>i \<in> set is. ready_events (int i) r w e \<noteq> 0 \<longrightarrow> i < length tbl \<and> tbl ! i \<noteq> 0"
  shows "\<exists>st' xs'. process_fds is n r w e st = Inr st' \<and> fd_inv st' xs' \<and> fd_table st' = tbl \<and>
     select_n st' = select_n st \<and> set xs \<subseteq> set xs' \<and> ev_le (fdes st) (fdes st') \<and>
     ((\<Sum>i \<leftarrow> is. ready_count (int i) r w e) \<le> n \<longrightarrow>
        (\<forall>i \<in> set is. ready_events (int i) r w e \<noteq> 0 \<longrightarrow> delivered (fdes st') (tbl ! i) (ready_events (int i) r w e)))"
  using assms
proof (induction "is" arbitrary: n st xs)
  case Nil
  then show ?case by auto
next
  case (Cons i "is")
  let ?ev = "ready_events (int i) r w e" and ?c = "ready_count (int i) r w e"
  have c: "0 \<le> ready_count j r w e" for j by (simp add: ready_count_def)
  show ?case
  proof (cases "n \<le> 0")
    case True
    have none: "ready_events (int j) r w e = 0"
      if "j \<in> set (i # is)" "(\<Sum>i \<leftarrow> i # is. ready_count (int i) r w e) \<le> n" for j
    proof (rule ccontr)
      assume "ready_events (int j) r w e \<noteq> 0"
      then have "0 < ready_count (int j) r w e" by (auto simp: ready_events_0 ready_count_def)
      moreover have "ready_count (int j) r w e \<le> (\<Sum>i \<leftarrow> i # is. ready_count (int i) r w e)"
        using that(1) c by (intro member_le_sum_list) auto
      ultimately show False using that(2) True by linarith
    qed
    show ?thesis
      using True Cons.prems none by (intro exI [of _ st] exI [of _ xs]) auto
  next
    case False
    show ?thesis
    proof (cases "?ev = 0")
      case True
      then have "?c = 0" by (auto simp: ready_events_0 ready_count_def)
      with Cons.IH [of st xs "n - ?c"] Cons.prems True False show ?thesis by simp
    next
      case ev: False
      with Cons.prems have i: "i < length (fd_table st)" "fd_table st ! i \<noteq> 0" by auto
      obtain st1 xs1 f where m: "mark_ready i ?ev st = Inr st1" "fd_inv st1 xs1"
        "set xs1 = insert (fd_table st ! i) (set xs)" "fd_table st1 = fd_table st" "select_n st1 = select_n st"
        "fdes st (fd_table st ! i) = Some f"
        "fdes st1 = (fdes st)(fd_table st ! i \<mapsto>
           f\<lparr>fde_events := fde_events f OR ?ev, fde_state := fde_state f OR FDE_PENDING\<rparr>)"
        using mark_ready_inv [OF Cons.prems(1) i] by metis
      have le: "ev_le (fdes st) (fdes st1)" unfolding m(7) by (rule ev_le_mark [of "fdes st" "fd_table st ! i", OF m(6)])
      have d: "delivered (fdes st1) (tbl ! i) ?ev"
        using Cons.prems(2) by (auto simp: delivered_def m(7) flag_simps)
      obtain st2 xs2 where st2: "process_fds is (n - ?c) r w e st1 = Inr st2" "fd_inv st2 xs2"
        "fd_table st2 = tbl" "select_n st2 = select_n st1" "set xs1 \<subseteq> set xs2" "ev_le (fdes st1) (fdes st2)"
        "(\<Sum>i \<leftarrow> is. ready_count (int i) r w e) \<le> n - ?c \<longrightarrow>
          (\<forall>i \<in> set is. ready_events (int i) r w e \<noteq> 0 \<longrightarrow>
             delivered (fdes st2) (tbl ! i) (ready_events (int i) r w e))"
        using Cons.IH [OF m(2), of "n - ?c"] m(4) Cons.prems by auto
      have "process_fds (i # is) n r w e st = Inr st2" using False ev m(1) st2(1) by (simp add: Let_def)
      moreover have "ev_le (fdes st) (fdes st2)" by (rule ev_le_trans [OF le st2(6)])
      moreover have "delivered (fdes st2) (tbl ! i) ?ev" by (rule delivered_mono [OF d st2(6)])
      ultimately show ?thesis
        using st2 m(3,5) by (intro exI [of _ st2] exI [of _ xs2]) auto
    qed
  qed
qed

text \<open>A watched descriptor has an object in the table.\<close>

lemma watched_slot:
  assumes "fd_inv st xs" "i \<in> read_fds st \<union> write_fds st \<union> error_fds st"
  shows "0 \<le> i \<and> nat i < length (fd_table st) \<and> fd_table st ! nat i \<noteq> 0 \<and> i < select_n st"
proof -
  obtain k where "watch (fdes st) k i" using assms by (auto simp: fd_inv_def sets_ok_def)
  then obtain a f where f: "fdes st a = Some f" "active f" "fde_fd f = i" by (auto simp: watch_def)
  have "a \<noteq> 0" using f(1) assms(1) by (cases "a = 0") (auto simp: fd_inv_def heap_ok_def)
  moreover have "0 \<le> i" "i < int (length (fd_table st))" "fd_table st ! nat i = a" "i < select_n st"
    using assms(1) f unfolding fd_inv_def table_ok_def select_ok_def by blast+
  ultimately show ?thesis by simp
qed

lemma fd_check_ok:
  "fd_inv st xs \<Longrightarrow>
   fdevent_fd_check bad st =
     Inr (map int (filter (\<lambda>i. fd_table st ! i \<noteq> 0 \<and> bad (int i)) [0..<nat (select_n st)]))"
  by (auto simp: fdevent_fd_check_def fd_inv_def select_ok_def)

lemma fdevent_process_inv:
  assumes inv: "fd_inv st xs" and sel: "sel_sound sel st"
  shows "\<exists>st' xs'. fdevent_process sel st = Inr st' \<and> fd_inv st' xs' \<and> set xs \<subseteq> set xs' \<and>
     fd_table st' = fd_table st \<and> ev_le (fdes st) (fdes st')"
proof -
  let ?is = "[0..<nat (select_n st)]"
  let ?bad = "map int (filter (\<lambda>i. fd_table st ! i \<noteq> 0 \<and> sel_bad sel (int i)) ?is)"
  have chk: "fdevent_fd_check (sel_bad sel) st = Inr ?bad" by (rule fd_check_ok [OF inv])
  have sn: "nat (select_n st) \<le> length (fd_table st)"
    using inv by (auto simp: fd_inv_def select_ok_def)
  have bad: "i < length (fd_table st) \<and> fd_table st ! i \<noteq> 0" if "int i \<in> set ?bad" for i
    using that sn by auto
  have ask: "i < length (fd_table st) \<and> fd_table st ! i \<noteq> 0"
    if "int i \<in> sel_r sel \<union> sel_w sel \<union> sel_e sel" for i
    using watched_slot [OF inv, of "int i"] that sel by (auto simp: sel_sound_def)
  have run: "\<exists>st' xs'. process_fds ?is n r w e st = Inr st' \<and> fd_inv st' xs' \<and> set xs \<subseteq> set xs' \<and>
     fd_table st' = fd_table st \<and> ev_le (fdes st) (fdes st')"
    if "r \<subseteq> sel_r sel \<union> set ?bad" "w \<subseteq> sel_w sel" "e \<subseteq> sel_e sel" for n r w e
  proof -
    have "\<forall>i \<in> set ?is. ready_events (int i) r w e \<noteq> 0 \<longrightarrow>
        i < length (fd_table st) \<and> fd_table st ! i \<noteq> 0"
      using that bad ask unfolding ready_events_0 by blast
    from process_fds_inv [OF inv refl this, of n] show ?thesis by blast
  qed
  consider "sel_n sel < 0" "sel_errno sel = EBADF" | "sel_n sel < 0" "sel_errno sel \<noteq> EBADF"
    | "sel_n sel = 0" | "0 < sel_n sel" by linarith
  then show ?thesis
  proof cases
    case 1
    then show ?thesis using run [of "set ?bad" "{}" "{}"] chk by (simp add: fdevent_process_def Let_def)
  next
    case 2
    then have "fdevent_process sel st = Inr st"
      by (auto simp: fdevent_process_def Let_def split: errno.splits)
    then show ?thesis using inv by auto
  next
    case 3
    then show ?thesis
      using run [of "sel_r sel \<union> set ?bad" "sel_w sel" "sel_e sel"] chk by (simp add: fdevent_process_def Let_def)
  next
    case 4
    then show ?thesis using run [of "sel_r sel" "sel_w sel" "sel_e sel"] by (simp add: fdevent_process_def Let_def)
  qed
qed

text \<open>When \<open>select\<close> counts its reports, every one of them is recorded.\<close>

lemma fdevent_process_delivers:
  assumes inv: "fd_inv st xs" and sel: "sel_sound sel st" and pos: "0 < sel_n sel"
    and n: "(\<Sum>i \<leftarrow> [0..<nat (select_n st)]. ready_count (int i) (sel_r sel) (sel_w sel) (sel_e sel)) = sel_n sel"
    and i: "i \<in> sel_r sel \<union> sel_w sel \<union> sel_e sel"
  shows "\<exists>st'. fdevent_process sel st = Inr st' \<and>
     delivered (fdes st') (fd_table st ! nat i) (ready_events i (sel_r sel) (sel_w sel) (sel_e sel))"
proof -
  let ?is = "[0..<nat (select_n st)]" and ?ev = "\<lambda>i. ready_events i (sel_r sel) (sel_w sel) (sel_e sel)"
  have slot: "0 \<le> j \<and> nat j < length (fd_table st) \<and> fd_table st ! nat j \<noteq> 0 \<and> j < select_n st"
    if "j \<in> sel_r sel \<union> sel_w sel \<union> sel_e sel" for j
    using watched_slot [OF inv, of j] that sel by (auto simp: sel_sound_def)
  have "\<forall>j \<in> set ?is. ?ev (int j) \<noteq> 0 \<longrightarrow> j < length (fd_table st) \<and> fd_table st ! j \<noteq> 0"
    using slot [of "int j" for j] by (auto simp: ready_events_0)
  from process_fds_inv [OF inv refl this, of "sel_n sel"] n
  obtain st' where st': "process_fds ?is (sel_n sel) (sel_r sel) (sel_w sel) (sel_e sel) st = Inr st'"
    "\<forall>j \<in> set ?is. ?ev (int j) \<noteq> 0 \<longrightarrow> delivered (fdes st') (fd_table st ! j) (?ev (int j))"
    by auto
  have "nat i \<in> set ?is" "int (nat i) = i" "?ev i \<noteq> 0"
    using slot [OF i] i by (auto simp: ready_events_0)
  then have "delivered (fdes st') (fd_table st ! nat i) (?ev i)" using st'(2) by metis
  with st'(1) pos show ?thesis by (auto simp: fdevent_process_def Let_def)
qed

section \<open>Dispatching\<close>

text \<open>
  The contract of an installed handler: called for an active object in a well-formed state, it
  returns, leaves a well-formed state, keeps its own invariant \<open>I\<close>, and makes no further object
  pending (only \<open>fdevent_process\<close> does that).
\<close>

locale fd_handler =
  fixes cb :: "'z fd_callback"
    and I :: "'z fdstate_scheme \<Rightarrow> bool"
  assumes handler:
    "fd_inv st xs \<Longrightarrow> I st \<Longrightarrow> fdes st a = Some f \<Longrightarrow> active f \<Longrightarrow> \<not> pending f \<Longrightarrow>
     \<exists>st' ys. cb (fde_func f) (fde_fd f) ev (fde_arg f) st = Inr st' \<and> fd_inv st' ys \<and>
       I st' \<and> set ys \<subseteq> set xs"
    and frame: "I st \<Longrightarrow> I (st\<lparr>fdes := h, plinks := lk\<rparr>)"
begin

lemma frame1: "I st \<Longrightarrow> I (upd_fde a f st)"
  using frame [where st = st and h = "(fdes st)(a \<mapsto> f)" and lk = "plinks st"] by (simp add: upd_fde_def)

lemma frame2: "I st \<Longrightarrow> I (st\<lparr>plinks := lk\<rparr>)"
  using frame [where st = st and h = "fdes st" and lk = lk] by simp

text \<open>Running the handler of a pending object that was just taken off the list.\<close>

lemma call_fdfunc:
  assumes r: "ring lk list_pending xs"
    and inv: "fd_inv st (a # xs)" and I: "I st"
  shows "\<exists>st' ys. fdevent_call_fdfunc cb a (st\<lparr>plinks := lk\<rparr>) = Inr st' \<and> fd_inv st' ys \<and>
    I st' \<and> set ys \<subseteq> set xs"
proof -
  obtain f where f: "fdes st a = Some f" "pending f"
    using inv by (auto simp: fd_inv_def pend_ok_def)
  let ?g = "f\<lparr>fde_events := 0, fde_state := fde_state f AND NOT FDE_PENDING\<rparr>"
  let ?st = "upd_fde a ?g (st\<lparr>plinks := lk\<rparr>)"
  have bits: "active ?g = active f" "\<not> pending ?g" "\<And>k. k \<le> 2 \<Longrightarrow> bit (fde_state ?g) k = bit (fde_state f) k"
    "fde_fd ?g = fde_fd f"
    by (auto simp: flag_simps)
  have parts: "heap_ok (fdes st)" "pend_ok (fdes st) (plinks st) (a # xs)" "table_ok (fdes st) (fd_table st)"
    "sets_ok (fdes st) (read_fds st) (write_fds st) (error_fds st)"
    "select_ok (fdes st) (fd_table st) (select_n st)"
    using inv by (auto simp: fd_inv_def)
  have act: "active f" using pending_active [OF inv f] .
  have "a \<notin> set xs" using parts(2) by (auto simp: pend_ok_def ring_def)
  then have "pend_ok (fdes ?st) lk xs"
    using parts(2) r bits(2) unfolding pend_ok_def by (auto split: if_splits)
  then have "fd_inv ?st xs"
    using heap_ok_upd [OF parts(1) f(1), of ?g] table_ok_upd [OF parts(3) f(1) bits(4,1)]
      sets_ok_upd_same [OF parts(4) f(1) bits(1,4,3)] select_ok_upd [OF parts(5) f(1) bits(4,1)] bits(2)
    by (simp add: fd_inv_def)
  moreover have "I ?st" using I by (intro frame1 frame2)
  moreover have "fdes ?st a = Some ?g" by simp
  moreover have "fdevent_call_fdfunc cb a (st\<lparr>plinks := lk\<rparr>) =
      cb (fde_func ?g) (fde_fd ?g) (fde_events f) (fde_arg ?g) ?st"
    using f by (simp add: fdevent_call_fdfunc_def Let_def has_flag upd_fde_def)
  ultimately show ?thesis
    using handler [of ?st xs a ?g "fde_events f"] act bits(1,2) by simp
qed

text \<open>The dispatch loop returns, leaves nothing pending and keeps the invariant.\<close>

lemma drain_returns:
  "fd_inv st xs \<Longrightarrow> I st \<Longrightarrow> \<exists>st'. drain_pending cb st = Some (Inr st') \<and> fd_inv st' [] \<and> I st'"
proof (induction "length xs" arbitrary: st xs rule: less_induct)
  case less
  have r: "ring (plinks st) list_pending xs" and d: "distinct xs"
    using less.prems(1) ring_distinct by (auto simp: fd_inv_def pend_ok_def)
  show ?case
  proof (cases xs)
    case Nil
    then have "fdevent_plist_dequeue (plinks st) = (0, plinks st)" using r dequeue_empty by simp
    then have "drain_pending cb st = Some (Inr st)" by (subst drain_pending.simps) simp
    then show ?thesis using less.prems Nil by simp
  next
    case (Cons a ys)
    then obtain lk where lk: "fdevent_plist_dequeue (plinks st) = (a, lk)" "ring lk list_pending ys"
      using r dequeue_Cons by blast
    obtain st' zs where st': "fdevent_call_fdfunc cb a (st\<lparr>plinks := lk\<rparr>) = Inr st'" "fd_inv st' zs" "I st'"
      "set zs \<subseteq> set ys"
      using call_fdfunc [OF lk(2), of st a] less.prems Cons by blast
    have "distinct zs" using st'(2) ring_distinct by (auto simp: fd_inv_def pend_ok_def)
    then have "length zs \<le> length ys"
      using st'(4) d Cons card_mono [of "set ys" "set zs"] by (simp add: distinct_card)
    then have "length zs < length xs" using Cons by simp
    from less.hyps [OF this st'(2,3)] obtain st'' where
      "drain_pending cb st' = Some (Inr st'')" "fd_inv st'' []" "I st''" by blast
    moreover have "a \<noteq> 0" using pending_nonnull [OF less.prems(1), of a] Cons by simp
    ultimately show ?thesis
      using lk(1) st'(1) by (subst drain_pending.simps) simp
  qed
qed

lemma loop_turn_returns:
  assumes inv: "fd_inv st xs" and I: "I st" and sel: "sel_sound sel st"
    and keep: "\<And>st'. fdevent_process sel st = Inr st' \<Longrightarrow> I st'"
  shows "\<exists>st'. fdevent_loop_turn cb sel st = Some (Inr st') \<and> fd_inv st' [] \<and> I st'"
proof -
  obtain st1 xs1 where "fdevent_process sel st = Inr st1" "fd_inv st1 xs1"
    using fdevent_process_inv [OF inv sel] by blast
  with drain_returns [of st1 xs1] keep show ?thesis by (simp add: fdevent_loop_turn_def)
qed

end

text \<open>
  The handler \<open>fdevent.c\<close> installs itself, with the handlers of the other components left out: it
  meets the contract whenever the message can be read.
\<close>

definition shell_exit_dispatch :: "int option \<Rightarrow> int \<Rightarrow> 'z fd_callback" where
  "shell_exit_dispatch msg rcount fn fd ev arg st =
     (case fn of
        Fdevent_subproc_event_func \<Rightarrow>
          fdevent_subproc_event_func (\<lambda>_ _ _ _ st. Inr st) msg rcount fd ev st
      | _ \<Rightarrow> Inr st)"

lemma call_noop_inv:
  assumes inv: "fd_inv st xs" and f: "fdes st a = Some f" and np: "\<not> pending f"
  shows "\<exists>st'. fdevent_call_fdfunc (\<lambda>_ _ _ _ st. Inr st) a
      (upd_fde a (f\<lparr>fde_force_eof := b, fde_events := e, fde_state := fde_state f OR FDE_PENDING\<rparr>) st) = Inr st' \<and>
    fd_inv st' xs"
proof -
  have s: "(fde_state f OR FDE_PENDING) AND NOT FDE_PENDING = fde_state f"
    by (rule bit_eqI) (use np in \<open>auto simp: flag_simps\<close>)
  let ?g = "f\<lparr>fde_force_eof := b, fde_events := 0\<rparr>"
  have "fd_inv (upd_fde a ?g st) xs" by (rule fd_inv_upd [OF inv f]) auto
  moreover have "fdevent_call_fdfunc (\<lambda>_ _ _ _ st. Inr st) a
      (upd_fde a (f\<lparr>fde_force_eof := b, fde_events := e, fde_state := fde_state f OR FDE_PENDING\<rparr>) st) =
      Inr (upd_fde a ?g st)"
    using s by (simp add: fdevent_call_fdfunc_def Let_def has_flag flag_simps upd_fde_def)
  ultimately show ?thesis by blast
qed

lemma subproc_event_inv:
  assumes inv: "fd_inv st xs" and f: "fdes st a = Some f" "active f"
  shows "\<exists>st' ys. fdevent_subproc_event_func (\<lambda>_ _ _ _ st. Inr st) (Some m) rcount (fde_fd f) ev st = Inr st' \<and>
    fd_inv st' ys \<and> set ys \<subseteq> set xs"
proof -
  have fd: "0 \<le> fde_fd f" "fde_fd f < int (length (fd_table st))" "fd_table st ! nat (fde_fd f) = a"
    using inv f unfolding fd_inv_def table_ok_def by blast+
  obtain st1 xs1 where st1: "fdevent_add a FDE_READ st = Inr st1" "fd_inv st1 xs1" "set xs1 \<subseteq> set xs"
    using fdevent_set_inv [OF inv f(1)] fdevent_add_set [OF f(1)] by metis
  let ?P = "\<lambda>r. \<exists>st' ys. r = Inr st' \<and> fd_inv st' ys \<and> set ys \<subseteq> set xs"
  have base: "?P (Inr st1)" using st1 by blast
  let ?a = "fd_table st1 ! nat m"
  have slot: "\<exists>g. fdes st1 ?a = Some g" if "0 \<le> m" "m < int (length (fd_table st1))" "?a \<noteq> 0"
    using st1(2) that unfolding fd_inv_def table_ok_def by (metis nat_less_iff)
  have upd: "?P (Inr (upd_fde ?a g' st1))" if "fdes st1 ?a = Some g" "fde_fd g' = fde_fd g" "fde_state g' = fde_state g" for g g'
    using fd_inv_upd [OF st1(2) that(1), of g'] that st1(3) by auto
  have call: "?P (fdevent_call_fdfunc (\<lambda>_ _ _ _ st. Inr st) ?a
      (upd_fde ?a (g\<lparr>fde_force_eof := True, fde_events := e, fde_state := fde_state g OR FDE_PENDING\<rparr>) st1))"
    if "fdes st1 ?a = Some g" "\<not> pending g" for g e
    using call_noop_inv [OF st1(2) that] st1(3) by metis
  show ?thesis
  proof (cases "has ev FDE_READ \<and> 0 \<le> m \<and> m < int (length (fd_table st1)) \<and> ?a \<noteq> 0")
    case True
    then obtain g where g: "fdes st1 ?a = Some g" using slot by blast
    show ?thesis
      using True g fd st1(1) base upd [OF g] call [OF g]
      by (simp add: fdevent_subproc_event_func_def Let_def has_flag)
  next
    case False
    then show ?thesis using fd st1(1) base by (auto simp: fdevent_subproc_event_func_def Let_def)
  qed
qed

interpretation sx: fd_handler "shell_exit_dispatch (Some m) rcount" "\<lambda>_. True" for m rcount
proof unfold_locales
  fix st :: "'z fdstate_scheme" and xs a f ev
  assume inv: "fd_inv st xs" and f: "fdes st a = Some f" "active f"
  show "\<exists>st' ys. shell_exit_dispatch (Some m) rcount (fde_func f) (fde_fd f) ev (fde_arg f) st = Inr st' \<and>
     fd_inv st' ys \<and> True \<and> set ys \<subseteq> set xs"
    using subproc_event_inv [OF inv f, of m rcount ev] inv
    by (cases "fde_func f") (auto simp: shell_exit_dispatch_def)
qed simp

section \<open>The initial state and a state with one pending event\<close>

definition fd_start :: fdstate where
  "fd_start = \<lparr>fdes = Map.empty, plinks = \<lparr>nxt = (\<lambda>_. NULL)(list_pending := list_pending),
     prv = (\<lambda>_. NULL)(list_pending := list_pending)\<rparr>, fd_table = [], read_fds = {}, write_fds = {},
     error_fds = {}, select_n = 0, closed_fds = [], SHELL_EXIT_NOTIFY_FD = - 1\<rparr>"

lemma fd_start_inv: "fd_inv fd_start []"
  by (simp add: fd_start_def fd_inv_def heap_ok_def pend_ok_def ring_def table_ok_def sets_ok_def
      watch_def select_ok_def)

text \<open>Descriptor 1 is registered at address 5, watched for reading and writing, and readable.\<close>

definition fde_sample :: fdevent where
  "fde_sample = \<lparr>fde_fd = 1, fde_force_eof = False, fde_state = 0x303, fde_events = FDE_READ,
     fde_func = Fdevent_subproc_event_func, fde_arg = NULL\<rparr>"

definition fd_sample :: fdstate where
  "fd_sample = \<lparr>fdes = [5 \<mapsto> fde_sample], plinks = fdevent_plist_enqueue 5 (plinks fd_start),
     fd_table = [NULL, 5], read_fds = {1}, write_fds = {1}, error_fds = {}, select_n = 2,
     closed_fds = [], SHELL_EXIT_NOTIFY_FD = 0\<rparr>"

lemma fde_sample_bits:
  "bit (fde_state fde_sample) 0" "bit (fde_state fde_sample) (Suc 0)" "\<not> bit (fde_state fde_sample) 2"
  "active fde_sample" "pending fde_sample" "\<not> bit (fde_state fde_sample) 7" "fde_fd fde_sample = 1"
  by (simp_all add: fde_sample_def)

lemma fd_sample_watch:
  "Collect (watch [5 \<mapsto> fde_sample] 0) = {1}" "Collect (watch [5 \<mapsto> fde_sample] (Suc 0)) = {1}"
  "Collect (watch [5 \<mapsto> fde_sample] 2) = {}"
  by (auto simp: watch_def fde_sample_bits split: if_splits)

lemma fd_sample_inv: "fd_inv fd_sample [5]"
proof -
  have "ring (plinks fd_sample) list_pending ([] @ [5])"
    unfolding fd_sample_def fdstate.simps
    by (rule pl.ins_ring) (simp_all add: fd_start_def ring_def list_pending_def)
  moreover have "fdes fd_sample = [5 \<mapsto> fde_sample]" "fd_table fd_sample = [0, 5]" "select_n fd_sample = 2"
    "read_fds fd_sample = {1}" "write_fds fd_sample = {1}" "error_fds fd_sample = {}"
    by (simp_all add: fd_sample_def)
  moreover have "table_ok [5 \<mapsto> fde_sample] [0, 5]"
    by (auto simp: table_ok_def fde_sample_bits less_Suc_eq split: if_splits)
  ultimately show ?thesis
    by (simp add: fd_inv_def heap_ok_def pend_ok_def sets_ok_def fd_sample_watch select_ok_def
        fde_sample_bits list_pending_def)
qed

lemma fd_sample_ok: "fd_ok fd_sample"
  using fd_sample_inv fd_ok_def by blast

section \<open>Properties of the event loop\<close>

lemma watch_self:
  "fd_inv st xs \<Longrightarrow> fdes st a = Some g \<Longrightarrow> active g \<Longrightarrow> watch (fdes st) k (fde_fd g) = bit (fde_state g) k"
  using watch_but_fd [of "fdes st" "fd_table st" a g k] watch_split [of "fdes st" a g k "fde_fd g"]
  by (auto simp: fd_inv_def)

text \<open>
  \<open>fdevent_set\<close> on an active event returns, keeps the invariant, and afterwards \<open>select\<close> watches the
  descriptor for exactly the events asked for.
\<close>

theorem fdevent_set_watches:
  assumes "fd_ok st" and "fdes st a = Some f" and "has (fde_state f) FDE_ACTIVE"
  shows "\<exists>st'. fdevent_set a ev st = Inr st' \<and> fd_ok st' \<and>
     (fde_fd f \<in> read_fds st' \<longleftrightarrow> has ev FDE_READ) \<and>
     (fde_fd f \<in> write_fds st' \<longleftrightarrow> has ev FDE_WRITE) \<and>
     (fde_fd f \<in> error_fds st' \<longleftrightarrow> has ev FDE_ERROR)"
proof -
  obtain xs where inv: "fd_inv st xs" using assms(1) fd_ok_def by blast
  let ?g = "if fde_state f AND FDE_EVENTMASK = ev AND FDE_EVENTMASK then f
            else set_result f (ev AND FDE_EVENTMASK)"
  obtain st' xs' where st': "fdevent_set a ev st = Inr st'" "fd_inv st' xs'" "fdes st' = (fdes st)(a \<mapsto> ?g)"
    by (rule fdevent_set_inv [OF inv assms(2), of ev])
  have act: "active f" using assms(3) by (simp add: has_flag)
  have g: "active ?g" "fde_fd ?g = fde_fd f" using act by (simp_all add: set_result_props)
  have "bit (fde_state ?g) k = bit ev k" if "k \<le> 2" for k
  proof (cases "fde_state f AND FDE_EVENTMASK = ev AND FDE_EVENTMASK")
    case True
    then have "bit (fde_state f AND FDE_EVENTMASK) k = bit (ev AND FDE_EVENTMASK) k" by (rule arg_cong)
    then have "bit (fde_state f) k = bit ev k" using that by (simp add: bit_and_iff mask_bits)
    then show ?thesis unfolding if_P [OF True] .
  next
    case False
    show ?thesis unfolding if_not_P [OF False] by (rule set_result_props(5) [OF that])
  qed
  then have "watch (fdes st') k (fde_fd f) = bit ev k" if "k \<le> 2" for k
    using watch_self [OF st'(2), of a ?g k] g that unfolding st'(3) by (simp only: fun_upd_same)
  from this [of 0] this [of 1] this [of 2] show ?thesis
    using st'(1,2) by (auto simp: fd_ok_def fd_inv_def sets_ok_def has_flag)
qed

theorem fdevent_set_watches_witness:
  "\<exists>st'. fdevent_set 5 FDE_WRITE fd_sample = Inr st' \<and> 1 \<notin> read_fds st' \<and> 1 \<in> write_fds st'"
proof -
  have f: "fdes fd_sample 5 = Some fde_sample" by (simp add: fd_sample_def)
  have a: "has (fde_state fde_sample) FDE_ACTIVE" by (simp add: has_flag fde_sample_bits)
  have "\<not> has FDE_WRITE FDE_READ" "has FDE_WRITE FDE_WRITE" by (simp_all add: fde_masks has_def)
  then show ?thesis
    using fdevent_set_watches [OF fd_sample_ok f a, of FDE_WRITE] by (auto simp: fde_sample_bits)
qed

text \<open>
  \<open>fdevent_install\<close> of a fresh object on an unused descriptor up to 32000 never aborts when \<open>realloc\<close>
  succeeds and pointers have four bytes: the invariant is kept and the table maps the descriptor to
  the object, whatever the old size of the table.
\<close>

theorem fdevent_install_registers:
  assumes "fd_ok st" and "env_ok env" and "installable a fd st"
  shows "\<exists>st'. fdevent_install env a fd func arg st = Inr st' \<and> fd_ok st' \<and>
     nat fd < length (fd_table st') \<and> fd_table st' ! nat fd = a \<and>
     fdes st' = (fdes st)(a \<mapsto> fresh_fde fd func arg)"
proof -
  obtain xs where inv: "fd_inv st xs" using assms(1) fd_ok_def by blast
  have fd: "0 \<le> fd" using assms(3) by (simp add: installable_def)
  show ?thesis
    using fdevent_install_inv [OF inv assms(2,3), of func arg] length_table_with [OF fd, of "fd_table st" a]
      nth_table_with [OF fd, of "nat fd" "fd_table st" a]
    by (metis fd_ok_def)
qed

definition env32 :: fdenv where
  "env32 = \<lparr>sizeof_ptr = 4, realloc_ok = (\<lambda>_. True), junk = (\<lambda>i. i + 1000)\<rparr>"

theorem fdevent_install_registers_witness:
  "\<exists>st'. fdevent_install env32 9 300 Transport_socket_events 7 fd_sample = Inr st' \<and> fd_ok st' \<and>
     300 < length (fd_table st') \<and> fd_table st' ! 300 = 9"
proof -
  have e: "env_ok env32" by (simp add: env_ok_def env32_def)
  have i: "installable 9 300 fd_sample"
    by (auto simp: installable_def fd_sample_def list_pending_def fde_sample_bits split: if_splits)
  show ?thesis using fdevent_install_registers [OF fd_sample_ok e i, of Transport_socket_events 7] by auto
qed

text \<open>
  \<open>fdevent_remove\<close> takes an event out of the pending list, the table and the descriptor sets, keeps the
  invariant, and closes its descriptor exactly when it was active without \<open>FDE_DONT_CLOSE\<close>.
\<close>

theorem fdevent_remove_closes:
  assumes "fd_ok st" and "fdes st a = Some f"
  shows "\<exists>st'. fdevent_remove a st = Inr st' \<and> fd_ok st' \<and>
     ring_nodes (plinks st') list_pending = map_option (remove1 a) (ring_nodes (plinks st) list_pending) \<and>
     closed_fds st' = closed_fds st @
       (if has (fde_state f) FDE_ACTIVE \<and> \<not> has (fde_state f) FDE_DONT_CLOSE then [fde_fd f] else []) \<and>
     a \<notin> set (fd_table st') \<and>
     (has (fde_state f) FDE_ACTIVE \<longrightarrow> fde_fd f \<notin> read_fds st' \<union> write_fds st' \<union> error_fds st')"
proof -
  obtain xs where inv: "fd_inv st xs" using assms(1) fd_ok_def by blast
  define g where "g = f\<lparr>fde_state := 0, fde_events := 0\<rparr>"
  obtain st' where st': "fdevent_remove a st = Inr st'" "fd_inv st' (remove1 a xs)" "fdes st' = (fdes st)(a \<mapsto> g)"
    "closed_fds st' = closed_fds st @ (if active f \<and> \<not> has (fde_state f) FDE_DONT_CLOSE then [fde_fd f] else [])"
    unfolding g_def by (rule fdevent_remove_inv [OF inv assms(2)])
  have g: "\<not> active g" by (simp add: g_def)
  have nodes: "ring_nodes (plinks st) list_pending = Some xs"
    "ring_nodes (plinks st') list_pending = Some (remove1 a xs)"
    using inv st'(2) by (auto simp: fd_inv_def pend_ok_def intro: ring_nodes)
  have tbl: "a \<notin> set (fd_table st')"
  proof
    assume "a \<in> set (fd_table st')"
    then obtain i where "i < length (fd_table st')" "fd_table st' ! i = a" by (auto simp: in_set_conv_nth)
    moreover have "a \<noteq> 0" using inv assms(2) by (cases "a = 0") (auto simp: fd_inv_def heap_ok_def)
    ultimately have "\<exists>f'. fdes st' a = Some f' \<and> active f'"
      using st'(2) unfolding fd_inv_def table_ok_def by metis
    then show False using st'(3) g by simp
  qed
  have "\<not> watch (fdes st') k (fde_fd f)" if "active f" for k
    using watch_but_fd [of "fdes st" "fd_table st" a f k] inv assms(2) that g
    by (simp add: fd_inv_def st'(3) watch_upd_iff)
  then have "active f \<Longrightarrow> fde_fd f \<notin> read_fds st' \<union> write_fds st' \<union> error_fds st'"
    using st'(2) by (simp add: fd_inv_def sets_ok_def)
  then show ?thesis using st' nodes tbl by (auto simp: fd_ok_def has_flag)
qed

theorem fdevent_remove_closes_witness:
  "\<exists>st'. fdevent_remove 5 fd_sample = Inr st' \<and> closed_fds st' = [1] \<and> 5 \<notin> set (fd_table st')"
proof -
  have f: "fdes fd_sample 5 = Some fde_sample" by (simp add: fd_sample_def)
  have c: "closed_fds fd_sample = []" by (simp add: fd_sample_def)
  show ?thesis
    using fdevent_remove_closes [OF fd_sample_ok f] by (auto simp: fde_sample_bits has_flag c)
qed

text \<open>
  C25: a turn of \<open>fdevent_process\<close> on what \<open>select\<close> may answer (only descriptors it was given) never reaches
  \<open>FATAL\<close>: whatever \<open>select\<close> returns, the result is a well-formed state, no object loses an event, and
  no pending object is dropped.
\<close>

theorem fdevent_process_safe:
  assumes "fd_ok st" and "sel_sound sel st"
  shows "\<exists>st'. fdevent_process sel st = Inr st' \<and> fd_ok st' \<and> fd_table st' = fd_table st \<and>
     (\<forall>a f. fdes st a = Some f \<longrightarrow> (\<exists>f'. fdes st' a = Some f' \<and>
        fde_events f AND fde_events f' = fde_events f \<and>
        (has (fde_state f) FDE_PENDING \<longrightarrow> has (fde_state f') FDE_PENDING)))"
proof -
  obtain xs where inv: "fd_inv st xs" using assms(1) fd_ok_def by blast
  have sub: "x AND y = x" if "\<forall>k. bit x k \<longrightarrow> bit y k" for x y :: u16
    using that by (auto intro: bit_eqI simp: bit_and_iff)
  obtain st' xs' where "fdevent_process sel st = Inr st'" "fd_inv st' xs'" "fd_table st' = fd_table st"
    "ev_le (fdes st) (fdes st')"
    using fdevent_process_inv [OF inv assms(2)] by blast
  then show ?thesis unfolding fd_ok_def ev_le_def has_flag by (metis sub)
qed

definition sel_sample :: selres where
  "sel_sample = \<lparr>sel_n = 2, sel_errno = Eother 0, sel_r = {1}, sel_w = {1}, sel_e = {}, sel_bad = (\<lambda>_. False)\<rparr>"

lemma sel_sample_sound: "sel_sound sel_sample fd_sample"
  by (simp add: sel_sound_def sel_sample_def fd_sample_def)

theorem fdevent_process_safe_witness:
  "\<exists>st'. fdevent_process sel_sample fd_sample = Inr st' \<and> fd_ok st'"
  using fdevent_process_safe [OF fd_sample_ok sel_sample_sound] by blast

text \<open>
  C26: when the return value of \<open>select\<close> counts the bits it left, every reported descriptor ends up pending
  with all the events reported for it: no readiness is lost by the early exit of the loop.
\<close>

theorem fdevent_process_complete:
  assumes "fd_ok st" and "sel_sound sel st" and "0 < sel_n sel"
    and "(\<Sum>i \<leftarrow> [0..<nat (select_n st)]. ready_count (int i) (sel_r sel) (sel_w sel) (sel_e sel)) = sel_n sel"
    and "i \<in> sel_r sel \<union> sel_w sel \<union> sel_e sel"
  shows "\<exists>st' f. fdevent_process sel st = Inr st' \<and> fdes st' (fd_table st ! nat i) = Some f \<and>
     has (fde_state f) FDE_PENDING \<and>
     (i \<in> sel_r sel \<longrightarrow> has (fde_events f) FDE_READ) \<and>
     (i \<in> sel_w sel \<longrightarrow> has (fde_events f) FDE_WRITE) \<and>
     (i \<in> sel_e sel \<longrightarrow> has (fde_events f) FDE_ERROR)"
proof -
  obtain xs where inv: "fd_inv st xs" using assms(1) fd_ok_def by blast
  show ?thesis
    using fdevent_process_delivers [OF inv assms(2-5)] ready_events_bits [of i "sel_r sel" "sel_w sel" "sel_e sel"]
    unfolding delivered_def has_flag by metis
qed

theorem fdevent_process_complete_witness:
  "\<exists>st' f. fdevent_process sel_sample fd_sample = Inr st' \<and> fdes st' 5 = Some f \<and> has (fde_events f) FDE_WRITE"
proof -
  have n: "(\<Sum>i \<leftarrow> [0..<nat (select_n fd_sample)].
      ready_count (int i) (sel_r sel_sample) (sel_w sel_sample) (sel_e sel_sample)) = sel_n sel_sample"
    by (simp add: fd_sample_def sel_sample_def ready_count_def numeral_2_eq_2)
  have "0 < sel_n sel_sample" "1 \<in> sel_r sel_sample \<union> sel_w sel_sample \<union> sel_e sel_sample"
    "1 \<in> sel_w sel_sample" "fd_table fd_sample ! nat 1 = 5"
    by (simp_all add: sel_sample_def fd_sample_def)
  then show ?thesis
    using fdevent_process_complete [OF fd_sample_ok sel_sample_sound _ n, of 1] by auto
qed

text \<open>
  one turn of \<open>fdevent_loop\<close> with the handler \<open>fdevent.c\<close> itself installs (the shell-exit socket, whose
  message can be read) returns: every pending event is dispatched, nothing is pending afterwards,
  and the invariant holds.
\<close>

theorem fdevent_loop_turn_drains:
  assumes "fd_ok st" and "sel_sound sel st"
  shows "\<exists>st'. fdevent_loop_turn (shell_exit_dispatch (Some m) rcount) sel st = Some (Inr st') \<and>
     fd_ok st' \<and> ring_nodes (plinks st') list_pending = Some []"
proof -
  obtain xs where inv: "fd_inv st xs" using assms(1) fd_ok_def by blast
  obtain st' where "fdevent_loop_turn (shell_exit_dispatch (Some m) rcount) sel st = Some (Inr st')" "fd_inv st' []"
    using sx.loop_turn_returns [OF inv TrueI assms(2), of m rcount] by blast
  then show ?thesis by (auto simp: fd_ok_def fd_inv_def pend_ok_def intro: ring_nodes)
qed

theorem fdevent_loop_turn_drains_witness:
  "\<exists>st'. fdevent_loop_turn (shell_exit_dispatch (Some 0) 0) sel_sample fd_sample = Some (Inr st') \<and>
     ring_nodes (plinks st') list_pending = Some []"
  using fdevent_loop_turn_drains [OF fd_sample_ok sel_sample_sound, of 0 0] by blast

text \<open>
  \<open>fdevent_set\<close> on a pending event clears the recorded events that are still wanted and keeps the ones
  that are not: the mask is inverted with respect to the comment ("make sure we don't signal an event
  that is no longer wanted").
\<close>

theorem fdevent_set_drops_wanted:
  assumes "fdes st a = Some f" and "has (fde_state f) FDE_PENDING"
    and "fde_state f AND FDE_EVENTMASK \<noteq> ev AND FDE_EVENTMASK"
  shows "\<exists>st' g. fdevent_set a ev st = Inr st' \<and> fdes st' a = Some g \<and>
     (\<forall>k < 8. bit (fde_events g) k \<longleftrightarrow> bit (fde_events f) k \<and> \<not> bit ev k)"
proof -
  have p: "pending f" using assms(2) by (simp add: has_flag)
  let ?ev = "ev AND FDE_EVENTMASK"
  have "fde_events (set_result f ?ev) = fde_events f AND NOT ?ev"
    using p by (auto simp: set_result_def Let_def has_flag fde_state_bits)
  then have "bit (fde_events (set_result f ?ev)) k \<longleftrightarrow> bit (fde_events f) k \<and> \<not> bit ev k" if "k < 8" for k
    using that by (auto simp: flag_simps)
  moreover have "fdes (set_state a f ?ev st) a = Some (set_result f ?ev)"
    by (simp add: set_state_fields)
  ultimately show ?thesis using fdevent_set_change [OF assms(1,3)] by blast
qed

theorem fdevent_set_drops_wanted_witness:
  "\<exists>st' g. fdevent_set 5 FDE_READ fd_sample = Inr st' \<and> fdes st' 5 = Some g \<and> \<not> has (fde_events g) FDE_READ"
proof -
  have f: "fdes fd_sample 5 = Some fde_sample" by (simp add: fd_sample_def)
  have p: "has (fde_state fde_sample) FDE_PENDING" by (simp add: has_flag fde_sample_bits)
  have n: "fde_state fde_sample AND FDE_EVENTMASK \<noteq> FDE_READ AND FDE_EVENTMASK"
    by (simp add: fde_sample_def fde_masks)
  have "bit FDE_READ 0" by (simp add: fde_masks)
  with fdevent_set_drops_wanted [OF f p n] show ?thesis by (auto simp: has_flag)
qed

text \<open>
  Where pointers have eight bytes, the \<open>memset\<close> of \<open>fdevent_register\<close> (which counts \<open>sizeof(int)\<close> per slot)
  leaves the upper half of the slots it adds uninitialised: the first registration of a descriptor
  below 128 leaves slots 128 to 255 with whatever the memory held.
\<close>

theorem fdevent_register_leaves_junk:
  assumes "fdes st a = Some f" and "0 \<le> fde_fd f" and "fde_fd f < 128" and "fd_table st = []"
    and "sizeof_ptr env = 8" and "realloc_ok env 256"
  shows "\<exists>st'. fdevent_register env a st = Inr st' \<and> length (fd_table st') = 256 \<and>
     (\<forall>i. 128 \<le> i \<and> i < 256 \<longrightarrow> fd_table st' ! i = junk env i)"
proof -
  have g: "grow_table 256 (nat (fde_fd f)) = 256"
    using assms(2,3) by (subst grow_table.simps) auto
  have "fd_table (fdevent_init st) = []" using assms(4) by (simp add: fdevent_init_def)
  then have "fdevent_register env a st =
      Inr ((fdevent_init st)\<lparr>fd_table := (new_slots env 0 256)[nat (fde_fd f) := a]\<rparr>)"
    using assms g by (simp add: fdevent_register_def Let_def)
  moreover have "(new_slots env 0 256)[nat (fde_fd f) := a] ! i = junk env i"
    if "128 \<le> i" "i < 256" for i
    using that assms(2,3,5) by (simp add: new_slots_def nat_less_iff)
  ultimately show ?thesis by simp
qed

definition env64 :: fdenv where
  "env64 = \<lparr>sizeof_ptr = 8, realloc_ok = (\<lambda>_. True), junk = (\<lambda>i. i + 1000)\<rparr>"

theorem fdevent_register_leaves_junk_witness:
  "\<exists>st'. fdevent_register env64 5 (fd_sample\<lparr>fd_table := []\<rparr>) = Inr st' \<and> fd_table st' ! 200 = 1200"
proof -
  have f: "fdes (fd_sample\<lparr>fd_table := []\<rparr>) 5 = Some fde_sample" by (simp add: fd_sample_def)
  have e: "0 \<le> fde_fd fde_sample" "fde_fd fde_sample < 128" "sizeof_ptr env64 = 8" "realloc_ok env64 256"
    "fd_table (fd_sample\<lparr>fd_table := []\<rparr>) = []" "junk env64 200 = 1200"
    by (simp_all add: fde_sample_bits env64_def)
  show ?thesis using fdevent_register_leaves_junk [OF f e(1,2,5,3,4)] e(6) by auto
qed

end
