(* ===== verification/Rwx.thy ===== *)
theory Rwx
  imports Adb_Prelude
begin

text \<open>
  Blocking reads and writes: \<open>readx\<close>, \<open>writex\<close>, \<open>read_packet\<close>, \<open>write_packet\<close>, \<open>transport_read_action\<close> and
  \<open>transport_write_action\<close> of \<open>transport.cpp\<close>.

  What the operating system does on a descriptor is a script: one entry per answer of \<open>read\<close> or
  \<open>write\<close>. A loop that waits for an answer the script does not have gets \<open>None\<close> (it blocks). The
  contract of a reader, the locale \<open>byte_source\<close>, says that reading consumes exactly the bytes
  asked for; it is interpreted on \<open>readx\<close> and on the plain byte list that the services read from.
\<close>

section \<open>Reading\<close>

text \<open>
  \<open>Seg bs\<close>: the bytes \<open>bs\<close> arrive (a \<open>read\<close> that asks for fewer leaves the rest for the next one);
  \<open>Fin\<close>: \<open>read\<close> returns 0; \<open>Fail e\<close>: it returns -1 with \<open>errno\<close> \<open>e\<close>.
\<close>

datatype rd_ev = Seg "byte list" | Fin | Fail errno

text \<open>The loop of \<open>readx\<close> with \<open>n\<close> bytes to go and \<open>acc\<close> read: \<open>None\<close> in the first component is the
  return value -1.\<close>

fun readx_loop :: "nat \<Rightarrow> rd_ev list \<Rightarrow> byte list \<Rightarrow> (byte list option \<times> rd_ev list) option" where
  "readx_loop 0 s acc = Some (Some acc, s)"
| "readx_loop (Suc n) [] acc = None"
| "readx_loop (Suc n) (Seg bs # s) acc =
     (if bs = [] then Some (None, s)
      else if length bs \<le> Suc n then readx_loop (Suc n - length bs) s (acc @ bs)
      else Some (Some (acc @ take (Suc n) bs), Seg (drop (Suc n) bs) # s))"
| "readx_loop (Suc n) (Fin # s) acc = Some (None, s)"
| "readx_loop (Suc n) (Fail e # s) acc =
     (if e = EINTR then readx_loop (Suc n) s acc else Some (None, s))"

definition readx :: "nat \<Rightarrow> rd_ev list \<Rightarrow> (byte list option \<times> rd_ev list) option" where
  "readx len s = readx_loop len s []"

text \<open>\<open>read_packet\<close> and \<open>transport_read_action\<close> are the same loop on the bytes of a pointer and of a
  \<open>tmsg\<close>.\<close>

definition read_packet :: "nat \<Rightarrow> rd_ev list \<Rightarrow> (byte list option \<times> rd_ev list) option" where
  "read_packet sizeof_packet_ptr s = readx_loop sizeof_packet_ptr s []"

definition transport_read_action :: "nat \<Rightarrow> rd_ev list \<Rightarrow> (byte list option \<times> rd_ev list) option" where
  "transport_read_action sizeof_tmsg s = readx_loop sizeof_tmsg s []"

section \<open>Writing\<close>

text \<open>
  \<open>Took k\<close>: \<open>write\<close> accepts \<open>k\<close> bytes (all of them if fewer are offered), 0 being the return value
  0; \<open>WFail e\<close>: it returns -1.
\<close>

datatype wr_ev = Took nat | WFail errno

text \<open>\<open>retry\<close> are the errors after which the loop tries again. The result: success, the bytes that
  were written, what is left of the script.\<close>

fun write_loop :: "(errno \<Rightarrow> bool) \<Rightarrow> byte list \<Rightarrow> wr_ev list \<Rightarrow> byte list
                     \<Rightarrow> (bool \<times> byte list \<times> wr_ev list) option" where
  "write_loop retry [] s done = Some (True, done, s)"
| "write_loop retry (b # bs) [] done = None"
| "write_loop retry (b # bs) (Took k # s) done =
     (if k = 0 then Some (False, done, s)
      else write_loop retry (drop k (b # bs)) s (done @ take k (b # bs)))"
| "write_loop retry (b # bs) (WFail e # s) done =
     (if retry e then write_loop retry (b # bs) s done else Some (False, done, s))"

definition writex :: "byte list \<Rightarrow> wr_ev list \<Rightarrow> (bool \<times> byte list \<times> wr_ev list) option" where
  "writex bs s = write_loop (\<lambda>e. e = EINTR \<or> e = EAGAIN) bs s []"

definition write_packet :: "byte list \<Rightarrow> wr_ev list \<Rightarrow> (bool \<times> byte list \<times> wr_ev list) option" where
  "write_packet bs s = write_loop (\<lambda>e. e = EINTR) bs s []"

definition transport_write_action :: "byte list \<Rightarrow> wr_ev list \<Rightarrow> (bool \<times> byte list \<times> wr_ev list) option" where
  "transport_write_action bs s = write_loop (\<lambda>e. e = EINTR) bs s []"

section \<open>The bytes of a script\<close>

text \<open>What a reader can get from a script before the stream ends or fails.\<close>

fun content :: "rd_ev list \<Rightarrow> byte list" where
  "content [] = []"
| "content (Seg bs # s) = (if bs = [] then [] else bs @ content s)"
| "content (Fin # s) = []"
| "content (Fail e # s) = (if e = EINTR then content s else [])"

text \<open>\<open>ends s\<close>: the script ends the stream, so that a reader never waits for ever.\<close>

fun ends :: "rd_ev list \<Rightarrow> bool" where
  "ends [] = False"
| "ends (Seg bs # s) = (bs = [] \<or> ends s)"
| "ends (Fin # s) = True"
| "ends (Fail e # s) = (e \<noteq> EINTR \<or> ends s)"

lemma readx_loop_enough:
  "n \<le> length (content s) \<Longrightarrow>
   \<exists>s'. readx_loop n s acc = Some (Some (acc @ take n (content s)), s') \<and> content s' = drop n (content s) \<and>
     (ends s \<longrightarrow> ends s')"
proof (induction n s acc rule: readx_loop.induct)
  case (3 n bs s acc)
  show ?case
  proof (cases "bs = []")
    case True
    then show ?thesis using 3 by simp
  next
    case False
    show ?thesis
    proof (cases "length bs \<le> Suc n")
      case True
      have le: "Suc n - length bs \<le> length (content s)" using 3(2) False True by simp
      from 3(1) [OF False True le] False True show ?thesis by auto
    next
      case len: False
      then show ?thesis using False 3(2) by auto
    qed
  qed
qed (auto split: if_splits)

lemma readx_loop_short:
  "length (content s) < n \<Longrightarrow> ends s \<Longrightarrow> \<exists>s'. readx_loop n s acc = Some (None, s')"
  by (induction n s acc rule: readx_loop.induct) (auto split: if_splits)

lemma readx_loop_blocks: "length (content s) < n \<Longrightarrow> \<not> ends s \<Longrightarrow> readx_loop n s acc = None"
  by (induction n s acc rule: readx_loop.induct) (auto split: if_splits)

section \<open>The contract of a reader\<close>

locale byte_source =
  fixes rd :: "nat \<Rightarrow> 's \<Rightarrow> (byte list \<times> 's) option"
    and avail :: "'s \<Rightarrow> byte list"
  assumes rd_ok: "n \<le> length (avail s) \<Longrightarrow>
      \<exists>s'. rd n s = Some (take n (avail s), s') \<and> avail s' = drop n (avail s)"
    and rd_fail: "length (avail s) < n \<Longrightarrow> rd n s = None"
begin

lemma rd_iff:
  "rd n s = Some (bs, s') \<Longrightarrow> length bs = n \<and> avail s = bs @ avail s'"
  using rd_ok [of n s] rd_fail [of s n] by (cases "n \<le> length (avail s)") auto

text \<open>Two reads in a row deliver what one read of both lengths delivers.\<close>

lemma rd_append:
  assumes "rd m s = Some (as, s1)" and "rd n s1 = Some (bs, s2)"
  shows "\<exists>s3. rd (m + n) s = Some (as @ bs, s3) \<and> avail s3 = avail s2"
proof -
  from rd_iff [OF assms(1)] rd_iff [OF assms(2)]
  have a: "avail s = as @ bs @ avail s2" "length as = m" "length bs = n" by auto
  then have "m + n \<le> length (avail s)" by simp
  from rd_ok [OF this] a show ?thesis by simp
qed

end

text \<open>\<open>readx\<close> where a failed read is \<open>None\<close>.\<close>

definition readx_ok :: "nat \<Rightarrow> rd_ev list \<Rightarrow> (byte list \<times> rd_ev list) option" where
  "readx_ok n s = (case readx n s of Some (Some bs, s') \<Rightarrow> Some (bs, s') | _ \<Rightarrow> None)"

interpretation rx: byte_source readx_ok content
proof unfold_locales
  fix n s
  assume "n \<le> length (content s)"
  from readx_loop_enough [OF this, of "[]"]
  show "\<exists>s'. readx_ok n s = Some (take n (content s), s') \<and> content s' = drop n (content s)"
    by (auto simp: readx_ok_def readx_def)
next
  fix s n
  assume "length (content s) < n"
  then show "readx_ok n s = None"
    using readx_loop_short [of s n "[]"] readx_loop_blocks [of s n "[]"]
    by (cases "ends s") (auto simp: readx_ok_def readx_def)
qed

text \<open>The reader of the services: the peer's bytes as a list.\<close>

definition take_exact :: "nat \<Rightarrow> byte list \<Rightarrow> (byte list \<times> byte list) option" where
  "take_exact n bs = (if n \<le> length bs then Some (take n bs, drop n bs) else None)"

interpretation te: byte_source take_exact "\<lambda>bs. bs"
  by unfold_locales (auto simp: take_exact_def)

section \<open>Writing everything\<close>

text \<open>A script that accepts at least one byte at each answer and never fails fatally.\<close>

fun accepts :: "(errno \<Rightarrow> bool) \<Rightarrow> nat \<Rightarrow> wr_ev list \<Rightarrow> bool" where
  "accepts retry 0 s = True"
| "accepts retry (Suc n) [] = False"
| "accepts retry (Suc n) (Took k # s) = (k \<noteq> 0 \<and> accepts retry (Suc n - k) s)"
| "accepts retry (Suc n) (WFail e # s) = (retry e \<and> accepts retry (Suc n) s)"

lemma write_loop_all:
  "accepts retry (length bs) s \<Longrightarrow> \<exists>s'. write_loop retry bs s done = Some (True, done @ bs, s')"
proof (induction retry bs s "done" rule: write_loop.induct)
  case (3 retry b bs k s "done")
  then have k: "k \<noteq> 0" "accepts retry (length (drop k (b # bs))) s" by auto
  from 3(1) [OF k] k(1) show ?case by simp
qed auto

lemma write_loop_prefix:
  "write_loop retry bs s done = Some (ok, out, s') \<Longrightarrow>
   \<exists>k. out = done @ take k bs \<and> (ok \<longleftrightarrow> take k bs = bs)"
proof (induction retry bs s "done" arbitrary: ok out s' rule: write_loop.induct)
  case (3 retry b bs k s "done")
  show ?case
  proof (cases "k = 0")
    case True
    then show ?thesis using 3(2) by (intro exI [of _ 0]) auto
  next
    case False
    with 3 obtain j where j: "out = (done @ take k (b # bs)) @ take j (drop k (b # bs))"
      "ok \<longleftrightarrow> take j (drop k (b # bs)) = drop k (b # bs)" by fastforce
    have "take (k + j) (b # bs) = take k (b # bs) @ take j (drop k (b # bs))" by (simp only: take_add)
    moreover have "take (k + j) (b # bs) = b # bs \<longleftrightarrow> take j (drop k (b # bs)) = drop k (b # bs)"
      by (metis append_take_drop_id calculation same_append_eq)
    ultimately show ?thesis using j by (intro exI [of _ "k + j"]) auto
  qed
next
  case (4 retry b bs e s "done")
  show ?case
  proof (cases "retry e")
    case True
    then show ?thesis using 4 by auto
  next
    case False
    then show ?thesis using 4(2) by (intro exI [of _ 0]) auto
  qed
qed auto

section \<open>Properties of the blocking reads and writes\<close>

text \<open>
  \<open>readx\<close> delivers exactly the first \<open>len\<close> bytes of the stream, across short reads and interrupted
  calls, when the stream has them; when it ends before, \<open>readx\<close> fails; otherwise it waits.
\<close>

theorem readx_exact:
  "(case readx len s of
      Some (Some bs, s') \<Rightarrow> len \<le> length (content s) \<and> bs = take len (content s) \<and> content s' = drop len (content s)
    | Some (None, s') \<Rightarrow> length (content s) < len \<and> ends s
    | None \<Rightarrow> length (content s) < len \<and> \<not> ends s)"
proof (cases "len \<le> length (content s)")
  case True
  from readx_loop_enough [OF this, of "[]"] True show ?thesis by (auto simp: readx_def)
next
  case False
  then show ?thesis
    using readx_loop_short [of s len "[]"] readx_loop_blocks [of s len "[]"]
    by (cases "ends s") (auto simp: readx_def)
qed

text \<open>
  \<open>writex\<close> writes all the bytes, in order, whenever each answer of \<open>write\<close> accepts something or is
  \<open>EINTR\<close> or \<open>EAGAIN\<close>; \<open>write_packet\<close> gives up at the first \<open>EAGAIN\<close>; and every outcome of either
  has put a prefix of the buffer on the descriptor, the whole buffer exactly on success.
\<close>

theorem writex_complete:
  "(accepts (\<lambda>e. e = EINTR \<or> e = EAGAIN) (length bs) s \<longrightarrow> (\<exists>s'. writex bs s = Some (True, bs, s'))) \<and>
   (bs \<noteq> [] \<longrightarrow> write_packet bs (WFail EAGAIN # s) = Some (False, [], s)) \<and>
   (\<forall>ok out s'. writex bs s = Some (ok, out, s') \<or> write_packet bs s = Some (ok, out, s') \<longrightarrow>
      (\<exists>k. out = take k bs) \<and> (ok \<longleftrightarrow> out = bs))"
proof (intro conjI impI allI)
  assume "accepts (\<lambda>e. e = EINTR \<or> e = EAGAIN) (length bs) s"
  then show "\<exists>s'. writex bs s = Some (True, bs, s')"
    using write_loop_all [of "\<lambda>e. e = EINTR \<or> e = EAGAIN" bs s "[]"] by (simp add: writex_def)
next
  assume "bs \<noteq> []"
  then show "write_packet bs (WFail EAGAIN # s) = Some (False, [], s)"
    by (cases bs) (simp_all add: write_packet_def)
next
  fix ok out s'
  assume "writex bs s = Some (ok, out, s') \<or> write_packet bs s = Some (ok, out, s')"
  then obtain k where "out = take k bs" "ok \<longleftrightarrow> take k bs = bs"
    unfolding writex_def write_packet_def using write_loop_prefix [of _ bs s "[]"] by fastforce
  then show "\<exists>k. out = take k bs" and "ok \<longleftrightarrow> out = bs" by auto
qed

theorem writex_complete_witness:
  "\<exists>s'. writex ''OKAY'' [Took 1, WFail EAGAIN, Took 2, WFail EINTR, Took 9] = Some (True, ''OKAY'', s')"
proof -
  have "accepts (\<lambda>e. e = EINTR \<or> e = EAGAIN) (length ''OKAY'') [Took 1, WFail EAGAIN, Took 2, WFail EINTR, Took 9]"
    by simp
  then show ?thesis using writex_complete [of "''OKAY''" "[Took 1, WFail EAGAIN, Took 2, WFail EINTR, Took 9]"]
    by blast
qed

end
