(* ===== verification/Packet.thy ===== *)
theory Packet
  imports Rwx
begin

text \<open>
  The packets of the adb protocol: the structures of \<open>adb.h\<close>, the packet allocator of \<open>adb.cpp\<close>, the
  checks of \<open>transport.cpp\<close> and the wire format of the two transports (\<open>transport_usb.cpp\<close> and
  \<open>transport_local.cpp\<close>, both little-endian, where \<open>fix_endians\<close> does nothing).

  \<open>pdata\<close> is the payload array of a packet; a loop that reads past it gives a fault.
\<close>

section \<open>Constants and structures of adb.h\<close>

definition MAX_PAYLOAD :: nat where "MAX_PAYLOAD = 4096"

definition A_SYNC :: u32 where "A_SYNC = 0x434e5953"
definition A_CNXN :: u32 where "A_CNXN = 0x4e584e43"
definition A_OPEN :: u32 where "A_OPEN = 0x4e45504f"
definition A_OKAY :: u32 where "A_OKAY = 0x59414b4f"
definition A_CLSE :: u32 where "A_CLSE = 0x45534c43"
definition A_WRTE :: u32 where "A_WRTE = 0x45545257"
definition A_AUTH :: u32 where "A_AUTH = 0x48545541"
definition A_VERSION :: u32 where "A_VERSION = 0x01000000"

lemmas a_commands = A_SYNC_def A_CNXN_def A_OPEN_def A_OKAY_def A_CLSE_def A_WRTE_def A_AUTH_def

record amessage =
  command :: u32
  arg0 :: u32
  arg1 :: u32
  data_length :: u32
  data_check :: u32
  magic :: u32

text \<open>\<open>pptr\<close> is the offset of \<open>ptr\<close> in the payload; packets that wait in a queue are elements of a list,
  which takes the place of \<open>next\<close>.\<close>

record apacket =
  pmsg :: amessage
  pdata :: "byte list"
  plen :: u32
  pptr :: nat

definition zero_msg :: amessage where
  "zero_msg = \<lparr>command = 0, arg0 = 0, arg1 = 0, data_length = 0, data_check = 0, magic = 0\<rparr>"

text \<open>\<open>get_apacket\<close>: the header is cleared, the payload is what \<open>malloc\<close> returns.\<close>

definition get_apacket :: "byte list \<Rightarrow> apacket" where
  "get_apacket payload = \<lparr>pmsg = zero_msg, pdata = payload, plen = 0, pptr = 0\<rparr>"

section \<open>Checksum and header checks\<close>

text \<open>The loop \<open>while (count-- > 0) sum += *x++\<close> over the payload.\<close>

definition payload_sum :: "u32 \<Rightarrow> byte list \<Rightarrow> u32 outcome" where
  "payload_sum count payload =
     (if unat count \<le> length payload then Inr (\<Sum>c \<leftarrow> take (unat count) payload. of_char c)
      else Inl (Bad_access ''payload''))"

text \<open>The first half of \<open>send_packet\<close>: magic and checksum.\<close>

definition seal_packet :: "apacket \<Rightarrow> apacket outcome" where
  "seal_packet p =
     bindE (payload_sum (data_length (pmsg p)) (pdata p)) (\<lambda>sum.
       Inr (p\<lparr>pmsg := (pmsg p)\<lparr>magic := command (pmsg p) XOR 0xffffffff, data_check := sum\<rparr>\<rparr>))"

definition check_header :: "apacket \<Rightarrow> bool" where
  "check_header p \<longleftrightarrow>
     magic (pmsg p) = command (pmsg p) XOR 0xffffffff \<and> data_length (pmsg p) \<le> word_of_nat MAX_PAYLOAD"

definition check_data :: "apacket \<Rightarrow> bool outcome" where
  "check_data p =
     bindE (payload_sum (data_length (pmsg p)) (pdata p)) (\<lambda>sum. Inr (sum = data_check (pmsg p)))"

section \<open>The wire\<close>

definition header_bytes :: "amessage \<Rightarrow> byte list" where
  "header_bytes m = le_bytes (command m) @ le_bytes (arg0 m) @ le_bytes (arg1 m) @
     le_bytes (data_length m) @ le_bytes (data_check m) @ le_bytes (magic m)"

definition header_of :: "byte list \<Rightarrow> amessage" where
  "header_of bs =
     \<lparr>command = le_word bs, arg0 = le_word (drop 4 bs), arg1 = le_word (drop 8 bs),
      data_length = le_word (drop 12 bs), data_check = le_word (drop 16 bs), magic = le_word (drop 20 bs)\<rparr>"

text \<open>
  \<open>remote_write\<close>: the bytes written for a packet. The local transport writes header and payload in
  one call, the USB transport in two, the second only for a non-empty payload.
\<close>

definition local_remote_write :: "apacket \<Rightarrow> byte list outcome" where
  "local_remote_write p =
     (if unat (data_length (pmsg p)) \<le> length (pdata p)
      then Inr (header_bytes (pmsg p) @ take (unat (data_length (pmsg p))) (pdata p))
      else Inl (Bad_access ''payload''))"

definition usb_remote_write :: "apacket \<Rightarrow> byte list list outcome" where
  "usb_remote_write p =
     (if data_length (pmsg p) = 0 then Inr [header_bytes (pmsg p)]
      else if unat (data_length (pmsg p)) \<le> length (pdata p)
      then Inr [header_bytes (pmsg p), take (unat (data_length (pmsg p))) (pdata p)]
      else Inl (Bad_access ''payload''))"

text \<open>
  \<open>remote_read\<close> into a packet: \<open>None\<close> is the return value -1. \<open>rd\<close> is the reader (\<open>readx\<close> or
  \<open>usb_read\<close>): the bytes asked for and the rest of the source.
\<close>

definition store_payload :: "byte list \<Rightarrow> apacket \<Rightarrow> apacket" where
  "store_payload bs p = p\<lparr>pdata := bs @ drop (length bs) (pdata p)\<rparr>"

definition local_remote_read ::
  "(nat \<Rightarrow> 's \<Rightarrow> (byte list \<times> 's) option) \<Rightarrow> apacket \<Rightarrow> 's \<Rightarrow> (apacket \<times> 's) option outcome" where
  "local_remote_read rd p s =
     (case rd 24 s of
        None \<Rightarrow> Inr None
      | Some (hb, s) \<Rightarrow>
          let p = p\<lparr>pmsg := header_of hb\<rparr> in
          if \<not> check_header p then Inr None
          else case rd (unat (data_length (pmsg p))) s of
            None \<Rightarrow> Inr None
          | Some (bs, s) \<Rightarrow>
              if length bs > length (pdata p) then Inl (Bad_access ''payload'')
              else let p = store_payload bs p in
                bindE (check_data p) (\<lambda>ok. Inr (if ok then Some (p, s) else None)))"

definition usb_remote_read ::
  "(nat \<Rightarrow> 's \<Rightarrow> (byte list \<times> 's) option) \<Rightarrow> apacket \<Rightarrow> 's \<Rightarrow> (apacket \<times> 's) option outcome" where
  "usb_remote_read rd p s =
     (case rd 24 s of
        None \<Rightarrow> Inr None
      | Some (hb, s) \<Rightarrow>
          let p = p\<lparr>pmsg := header_of hb\<rparr> in
          if \<not> check_header p then Inr None
          else case (if data_length (pmsg p) \<noteq> 0 then rd (unat (data_length (pmsg p))) s else Some ([], s)) of
            None \<Rightarrow> Inr None
          | Some (bs, s) \<Rightarrow>
              if length bs > length (pdata p) then Inl (Bad_access ''payload'')
              else let p = store_payload bs p in
                bindE (check_data p) (\<lambda>ok. Inr (if ok then Some (p, s) else None)))"

section \<open>Lemmas\<close>

lemma length_header_bytes [simp]: "length (header_bytes m) = 24"
  by (simp add: header_bytes_def)

lemma header_roundtrip [simp]: "header_of (header_bytes m) = m"
  by (simp add: header_of_def header_bytes_def le_word_append)

lemma max_payload_le: "n \<le> word_of_nat MAX_PAYLOAD \<longleftrightarrow> unat (n :: u32) \<le> MAX_PAYLOAD"
  by (simp add: MAX_PAYLOAD_def word_le_nat_alt)

lemma check_header_bound: "check_header p \<Longrightarrow> unat (data_length (pmsg p)) \<le> MAX_PAYLOAD"
  by (simp add: check_header_def max_payload_le)

lemma of_char_u32: "(of_char c :: u32) = of_nat (of_char c)"
  by (simp add: of_nat_of_char)

lemma sum_of_char_u32: "(\<Sum>c \<leftarrow> bs. of_char c :: u32) = of_nat (\<Sum>c \<leftarrow> bs. of_char c)"
  by (induction bs) (simp_all add: of_nat_of_char)

lemma sum_of_char_bound: "(\<Sum>c \<leftarrow> bs. of_char c :: nat) \<le> 255 * length bs"
proof (induction bs)
  case (Cons c bs)
  have "(of_char c :: nat) \<le> 255" using of_char_lt_256 [of c] by linarith
  with Cons show ?case by simp
qed simp

text \<open>For a payload that fits a packet the checksum is the plain sum: no wrap-around.\<close>

lemma payload_sum_exact:
  assumes "length bs \<le> MAX_PAYLOAD"
  shows "unat (\<Sum>c \<leftarrow> bs. of_char c :: u32) = (\<Sum>c \<leftarrow> bs. of_char c)"
proof -
  have "(\<Sum>c \<leftarrow> bs. of_char c :: nat) \<le> 255 * 4096"
    using sum_of_char_bound [of bs] assms by (simp add: MAX_PAYLOAD_def)
  then have "(\<Sum>c \<leftarrow> bs. of_char c :: nat) < 2 ^ 32" by simp
  then show ?thesis by (simp add: sum_of_char_u32 unat_of_nat take_bit_nat_eq_self)
qed

section \<open>Properties of packets\<close>

text \<open>A packet as \<open>send_packet\<close> and the transports see it: the payload array has its size.\<close>

definition packet_ok :: "apacket \<Rightarrow> bool" where
  "packet_ok p \<longleftrightarrow> length (pdata p) = MAX_PAYLOAD \<and> unat (data_length (pmsg p)) \<le> MAX_PAYLOAD"

lemma seal_packet_ok:
  "packet_ok p \<Longrightarrow> \<exists>q. seal_packet p = Inr q \<and> packet_ok q \<and> pdata q = pdata p \<and> check_header q \<and>
     data_length (pmsg q) = data_length (pmsg p) \<and> check_data q = Inr True"
  by (auto simp: packet_ok_def seal_packet_def payload_sum_def check_header_def check_data_def max_payload_le)

context byte_source
begin

lemma remote_read_write:
  assumes q: "packet_ok q" "check_header q" "check_data q = Inr True"
    and p: "length (pdata p) = MAX_PAYLOAD"
    and s: "avail s = header_bytes (pmsg q) @ take (unat (data_length (pmsg q))) (pdata q) @ rest"
  shows "\<exists>r s' s''. local_remote_read rd p s = Inr (Some (r, s')) \<and> usb_remote_read rd p s = Inr (Some (r, s'')) \<and>
     pmsg r = pmsg q \<and>
     take (unat (data_length (pmsg q))) (pdata r) = take (unat (data_length (pmsg q))) (pdata q) \<and>
     avail s' = rest \<and> avail s'' = rest"
proof -
  let ?n = "unat (data_length (pmsg q))"
  have n: "?n \<le> length (pdata q)" "?n \<le> length (pdata p)" using q(1) p by (auto simp: packet_ok_def)
  obtain s1 where s1: "rd 24 s = Some (header_bytes (pmsg q), s1)" "avail s1 = take ?n (pdata q) @ rest"
    using rd_ok [of 24 s] s by auto
  obtain s2 where s2: "rd ?n s1 = Some (take ?n (pdata q), s2)" "avail s2 = rest"
    using rd_ok [of ?n s1] s1(2) n by auto
  let ?r = "store_payload (take ?n (pdata q)) (p\<lparr>pmsg := pmsg q\<rparr>)"
  have hdr: "check_header (p\<lparr>pmsg := pmsg q\<rparr>)" using q(2) by (simp add: check_header_def)
  have r: "take ?n (pdata ?r) = take ?n (pdata q)" "pmsg ?r = pmsg q" "length (pdata ?r) = MAX_PAYLOAD"
    using n p by (auto simp: store_payload_def)
  have chk: "check_data ?r = Inr True"
    using q(3) n r p by (auto simp: check_data_def payload_sum_def)
  have loc: "local_remote_read rd p s = Inr (Some (?r, s2))"
    using s1(1) s2(1) hdr n chk by (simp add: local_remote_read_def Let_def)
  have "usb_remote_read rd p s = Inr (Some (?r, if data_length (pmsg q) = 0 then s1 else s2))"
    using s1(1) s2(1) hdr n chk
    by (cases "data_length (pmsg q) = 0") (simp_all add: usb_remote_read_def Let_def)
  with loc r s1(2) s2 show ?thesis by (intro exI [of _ ?r]) auto
qed

text \<open>Whatever the peer sends, a read stays inside the packet and accepts only checked packets.\<close>

lemma remote_read_safe:
  assumes p: "length (pdata p) = MAX_PAYLOAD"
  shows "\<exists>x. local_remote_read rd p s = Inr x \<and>
     (\<forall>q s'. x = Some (q, s') \<longrightarrow> packet_ok q \<and> check_header q \<and> check_data q = Inr True)"
proof (cases "rd 24 s")
  case None
  then show ?thesis by (simp add: local_remote_read_def)
next
  case (Some a)
  obtain hb s1 where a: "a = (hb, s1)" by (cases a)
  let ?p = "p\<lparr>pmsg := header_of hb\<rparr>"
  let ?n = "unat (data_length (header_of hb))"
  show ?thesis
  proof (cases "check_header ?p \<and> rd ?n s1 \<noteq> None")
    case False
    then have "local_remote_read rd p s = Inr None"
      using Some a by (cases "rd ?n s1") (simp_all add: local_remote_read_def Let_def)
    then show ?thesis by simp
  next
    case True
    then obtain bs s2 where bs: "rd ?n s1 = Some (bs, s2)" by auto
    have len: "length bs = ?n" using rd_iff [OF bs] by simp
    have le: "?n \<le> MAX_PAYLOAD" using True check_header_bound [of ?p] by simp
    let ?q = "store_payload bs ?p"
    have q: "packet_ok ?q" "check_header ?q"
      using True p len le by (auto simp: packet_ok_def store_payload_def check_header_def)
    then obtain ok where ok: "check_data ?q = Inr ok"
      by (auto simp: check_data_def payload_sum_def packet_ok_def)
    have "local_remote_read rd p s = Inr (if ok then Some (?q, s2) else None)"
      using Some a True bs p len le ok by (simp add: local_remote_read_def Let_def)
    with q ok show ?thesis by auto
  qed
qed

end

text \<open>
  C29: what one side sends the other receives: sealing a packet always succeeds, both transports put the same
  bytes on the wire, and reading them through \<open>readx\<close>, however the stream is cut into segments and
  interrupted, gives a packet with the same header and payload and leaves the rest of the stream.
\<close>

theorem packet_wire_roundtrip:
  assumes "packet_ok p"
  shows "\<exists>q bs. seal_packet p = Inr q \<and> local_remote_write q = Inr bs \<and>
     map_sum id concat (usb_remote_write q) = Inr bs \<and>
     (\<forall>s rest p0. content s = bs @ rest \<longrightarrow> length (pdata p0) = MAX_PAYLOAD \<longrightarrow>
        (\<exists>r s'. local_remote_read readx_ok p0 s = Inr (Some (r, s')) \<and> pmsg r = pmsg q \<and>
           take (unat (data_length (pmsg p))) (pdata r) = take (unat (data_length (pmsg p))) (pdata p) \<and>
           content s' = rest))"
proof -
  obtain q where q: "seal_packet p = Inr q" "packet_ok q" "pdata q = pdata p" "check_header q"
    "data_length (pmsg q) = data_length (pmsg p)" "check_data q = Inr True"
    using seal_packet_ok [OF assms] by blast
  let ?bs = "header_bytes (pmsg q) @ take (unat (data_length (pmsg q))) (pdata q)"
  have w: "local_remote_write q = Inr ?bs" "map_sum id concat (usb_remote_write q) = Inr ?bs"
    using q(2) by (auto simp: local_remote_write_def usb_remote_write_def packet_ok_def)
  have "\<exists>r s'. local_remote_read readx_ok p0 s = Inr (Some (r, s')) \<and> pmsg r = pmsg q \<and>
      take (unat (data_length (pmsg p))) (pdata r) = take (unat (data_length (pmsg p))) (pdata p) \<and> content s' = rest"
    if "content s = ?bs @ rest" "length (pdata p0) = MAX_PAYLOAD" for s rest p0
    using rx.remote_read_write [OF q(2,4,6) that(2), of s rest] that(1) q(3,5) by auto
  with q(1) w show ?thesis by blast
qed

definition packet_sample :: apacket where
  "packet_sample = \<lparr>pmsg = zero_msg\<lparr>command := A_WRTE, arg0 := 1, arg1 := 7, data_length := 5\<rparr>,
     pdata = ''hello'' @ replicate 4091 CHR ''x'', plen = 5, pptr = 0\<rparr>"

lemma packet_sample_ok: "packet_ok packet_sample"
  by (simp add: packet_ok_def packet_sample_def MAX_PAYLOAD_def)

theorem packet_wire_roundtrip_witness:
  "\<exists>q bs. seal_packet packet_sample = Inr q \<and> local_remote_write q = Inr bs \<and>
     (\<exists>r s'. local_remote_read readx_ok packet_sample [Fail EINTR, Seg (bs @ ''rest'')] = Inr (Some (r, s')) \<and>
        take 5 (pdata r) = ''hello'' \<and> content s' = ''rest'')"
proof -
  have l: "length (pdata packet_sample) = MAX_PAYLOAD" "unat (data_length (pmsg packet_sample)) = 5"
    "take 5 (pdata packet_sample) = ''hello''"
    by (simp_all add: packet_sample_def MAX_PAYLOAD_def)
  have c: "content [Fail EINTR, Seg (bs @ ''rest'')] = bs @ ''rest''" for bs by simp
  show ?thesis using packet_wire_roundtrip [OF packet_sample_ok] l c by metis
qed

text \<open>
  no peer can make \<open>remote_read\<close> write outside the payload array: on every input stream the read returns,
  and a packet it accepts has a length of at most \<open>MAX_PAYLOAD\<close>, a matching magic and checksum.
\<close>

theorem remote_read_no_overrun:
  assumes "length (pdata p) = MAX_PAYLOAD"
  shows "\<exists>x. local_remote_read readx_ok p s = Inr x \<and>
     (\<forall>q s'. x = Some (q, s') \<longrightarrow> packet_ok q \<and> check_header q \<and> check_data q = Inr True)"
  by (rule rx.remote_read_safe [OF assms])

theorem remote_read_no_overrun_witness:
  "\<exists>x. local_remote_read readx_ok packet_sample [Seg (replicate 40 CHR ''A''), Fin] = Inr x"
proof -
  have "length (pdata packet_sample) = MAX_PAYLOAD" by (simp add: packet_sample_def MAX_PAYLOAD_def)
  from remote_read_no_overrun [OF this] show ?thesis by blast
qed

text \<open>
  the checksum of a packet is the sum of its payload bytes without wrap-around, and a packet in which
  exactly one payload byte was changed is rejected by \<open>check_data\<close>.
\<close>

theorem check_data_detects_change:
  assumes "packet_ok q" and "check_data q = Inr True" and "i < unat (data_length (pmsg q))" and "c \<noteq> pdata q ! i"
  shows "unat (data_check (pmsg q)) = (\<Sum>b \<leftarrow> take (unat (data_length (pmsg q))) (pdata q). of_char b) \<and>
     check_data (q\<lparr>pdata := (pdata q)[i := c]\<rparr>) = Inr False"
proof -
  let ?n = "unat (data_length (pmsg q))"
  let ?S = "\<lambda>bs. \<Sum>b \<leftarrow> take ?n bs. of_char b :: nat"
  have n: "?n \<le> length (pdata q)" "length (take ?n bs) \<le> MAX_PAYLOAD" for bs :: "byte list"
    using assms(1) by (auto simp: packet_ok_def)
  have chk: "data_check (pmsg q) = (\<Sum>b \<leftarrow> take ?n (pdata q). of_char b)"
    using assms(2) n by (simp add: check_data_def payload_sum_def)
  then have d: "unat (data_check (pmsg q)) = ?S (pdata q)"
    by (simp only: payload_sum_exact [OF n(2)])
  have "take ?n ((pdata q)[i := c]) = (take ?n (pdata q))[i := c]" by (rule take_update_swap)
  moreover have "(\<Sum>b \<leftarrow> xs[i := c]. of_char b :: nat) \<noteq> (\<Sum>b \<leftarrow> xs. of_char b)"
    if "i < length xs" "c \<noteq> xs ! i" for xs :: "byte list"
  proof -
    have "xs = take i xs @ xs ! i # drop (Suc i) xs" by (rule id_take_nth_drop [OF that(1)])
    then have "(\<Sum>b \<leftarrow> xs. of_char b :: nat) =
        (\<Sum>b \<leftarrow> take i xs. of_char b) + of_char (xs ! i) + (\<Sum>b \<leftarrow> drop (Suc i) xs. of_char b)"
      by (metis (no_types, lifting) map_append sum_list_append list.simps(9) sum_list.Cons add.assoc)
    moreover have "(\<Sum>b \<leftarrow> xs[i := c]. of_char b :: nat) =
        (\<Sum>b \<leftarrow> take i xs. of_char b) + of_char c + (\<Sum>b \<leftarrow> drop (Suc i) xs. of_char b)"
      using that(1) by (simp add: upd_conv_take_nth_drop)
    ultimately show ?thesis using that(2) by simp
  qed
  ultimately have "?S ((pdata q)[i := c]) \<noteq> ?S (pdata q)" using assms(3,4) n by simp
  then have "(\<Sum>b \<leftarrow> take ?n ((pdata q)[i := c]). of_char b) \<noteq> data_check (pmsg q)"
    using d payload_sum_exact [OF n(2), of "(pdata q)[i := c]"] by metis
  with d n show ?thesis by (simp add: check_data_def payload_sum_def)
qed

theorem check_data_detects_change_witness:
  "\<exists>q. seal_packet packet_sample = Inr q \<and>
     check_data (q\<lparr>pdata := (pdata q)[1 := CHR ''a'']\<rparr>) = Inr False"
proof -
  obtain q where q: "seal_packet packet_sample = Inr q" "packet_ok q" "pdata q = pdata packet_sample"
    "data_length (pmsg q) = data_length (pmsg packet_sample)" "check_data q = Inr True"
    using seal_packet_ok [OF packet_sample_ok] by blast
  have "1 < unat (data_length (pmsg q))" "CHR ''a'' \<noteq> pdata q ! 1"
    by (simp_all add: q packet_sample_def)
  from check_data_detects_change [OF q(2,5) this] q(1) show ?thesis by blast
qed

end
