(* ===== verification/Sockets.thy ===== *)
theory Sockets
  imports Fdevent_Inv Packet
begin

text \<open>
  The sockets of \<open>sockets.cpp\<close>: local sockets (bound to a descriptor of the event loop), remote sockets
  (bound to a transport) and the entry points of smart sockets.

  The state extends the one of the event loop. A socket and its embedded \<open>fdevent\<close> have the same address
  in \<open>socks\<close> and in \<open>fdes\<close>; its list links are in \<open>slinks\<close>, the links of a remote socket's \<open>adisconnect\<close>
  in \<open>dlinks\<close>, where the head of a transport's list is the transport's address. The chain \<open>pkt_first\<close> ..
  \<open>pkt_last\<close> is the list \<open>s_pkts\<close>. The function pointers are enumerations with one value for each function
  the program stores there; the functions of the sockets of \<open>jdwp_service.c\<close>, which exist on the device only, are those of the theory
  \<open>Jdwp\<close>, and a call of one of them from here is a fault. What the operating system answers on a descriptor is a script of the theory
  \<open>Rwx\<close>; an empty script answers \<open>EAGAIN\<close>.
\<close>

section \<open>Data\<close>

datatype enqueue_fn = Local_socket_enqueue | Remote_socket_enqueue | Smart_socket_enqueue
  | Jdwp_socket_enqueue | Jdwp_tracker_enqueue
datatype ready_fn = Local_socket_ready | Local_socket_ready_notify | Remote_socket_ready | Smart_socket_ready
  | Jdwp_socket_ready | Jdwp_tracker_ready
datatype shutdown_fn = No_shutdown | Remote_socket_shutdown
datatype close_fn = Local_socket_close | Local_socket_close_notify | Remote_socket_close | Smart_socket_close
  | Jdwp_socket_close | Jdwp_tracker_close

record asocket =
  s_id :: u32
  s_closing :: bool
  s_exit_on_close :: bool
  s_peer :: addr
  s_fd :: int
  s_pkts :: "apacket list"
  s_enqueue :: enqueue_fn
  s_ready :: ready_fn
  s_shutdown :: shutdown_fn
  s_close :: close_fn
  s_transport :: addr

record sockst = fdstate +
  socks :: "addr \<Rightarrow> asocket option"
  slinks :: links
  dlinks :: links
  local_socket_next_id :: u32
  sent :: "(addr \<times> apacket) list"
  wr_script :: "int \<Rightarrow> wr_ev list"
  rd_script :: "int \<Rightarrow> rd_ev list"
  wrote :: "int \<Rightarrow> byte list"
  fresh_payload :: "byte list"

definition local_socket_list :: addr where "local_socket_list = 2"
definition local_socket_closing_list :: addr where "local_socket_closing_list = 3"

abbreviation sock_at :: "'z sockst_scheme \<Rightarrow> addr \<Rightarrow> asocket outcome" where
  "sock_at st a \<equiv> deref ''asocket'' (socks st) a"

definition set_sock :: "addr \<Rightarrow> asocket \<Rightarrow> 'z sockst_scheme \<Rightarrow> 'z sockst_scheme" where
  "set_sock a s st = st\<lparr>socks := (socks st)(a \<mapsto> s)\<rparr>"

definition upd_sock :: "addr \<Rightarrow> (asocket \<Rightarrow> asocket) \<Rightarrow> 'z sockst_scheme \<Rightarrow> 'z sockst_scheme outcome" where
  "upd_sock a f st = bindE (sock_at st a) (\<lambda>s. Inr (set_sock a (f s) st))"

text \<open>\<open>free\<close> of a socket, with the \<open>fdevent\<close> in it.\<close>

definition free_sock :: "addr \<Rightarrow> 'z sockst_scheme \<Rightarrow> 'z sockst_scheme" where
  "free_sock a st = st\<lparr>socks := (socks st)(a := None), fdes := (fdes st)(a := None)\<rparr>"

section \<open>Descriptors\<close>

text \<open>One \<open>adb_write\<close>: its return value, \<open>errno\<close>, the state.\<close>

definition adb_write :: "int \<Rightarrow> byte list \<Rightarrow> 'z sockst_scheme \<Rightarrow> int \<times> errno \<times> 'z sockst_scheme" where
  "adb_write fd bs st =
     (case wr_script st fd of
        [] \<Rightarrow> (- 1, EAGAIN, st)
      | Took k # s \<Rightarrow>
          (int (min k (length bs)), Eother 0,
           st\<lparr>wr_script := (wr_script st)(fd := s), wrote := (wrote st)(fd := wrote st fd @ take k bs)\<rparr>)
      | WFail e # s \<Rightarrow> (- 1, e, st\<lparr>wr_script := (wr_script st)(fd := s)\<rparr>))"

definition adb_read :: "int \<Rightarrow> nat \<Rightarrow> 'z sockst_scheme \<Rightarrow> int \<times> errno \<times> byte list \<times> 'z sockst_scheme" where
  "adb_read fd n st =
     (case rd_script st fd of
        [] \<Rightarrow> (- 1, EAGAIN, [], st)
      | Seg bs # s \<Rightarrow>
          (int (min n (length bs)), Eother 0, take n bs,
           st\<lparr>rd_script := (rd_script st)(fd := (if n < length bs then Seg (drop n bs) # s else s))\<rparr>)
      | Fin # s \<Rightarrow> (0, Eother 0, [], st\<lparr>rd_script := (rd_script st)(fd := s)\<rparr>)
      | Fail e # s \<Rightarrow> (- 1, e, [], st\<lparr>rd_script := (rd_script st)(fd := s)\<rparr>))"

text \<open>
  \<open>writex\<close> on a descriptor. It repeats a write that would block, so that a script that has nothing more
  to say takes the rest.
\<close>

definition sock_writex :: "int \<Rightarrow> byte list \<Rightarrow> 'z sockst_scheme \<Rightarrow> bool \<times> 'z sockst_scheme" where
  "sock_writex fd bs st =
     (case writex bs (wr_script st fd @ [Took (Suc (length bs))]) of
        Some (ok, out, s) \<Rightarrow>
          (ok, st\<lparr>wr_script := (wr_script st)(fd := (if s = [] then [] else butlast s)),
                  wrote := (wrote st)(fd := wrote st fd @ out)\<rparr>)
      | None \<Rightarrow> (False, st))"

definition sendfailmsg :: "int \<Rightarrow> string \<Rightarrow> 'z sockst_scheme \<Rightarrow> bool \<times> 'z sockst_scheme" where
  "sendfailmsg fd reason st =
     (let len = min (length reason) 0xffff;
          (ok, st) = sock_writex fd (''FAIL'' @ fmt_04x len) st in
      if ok then sock_writex fd (take len reason) st else (False, st))"

section \<open>The lists of local sockets\<close>

definition insert_local_socket :: "addr \<Rightarrow> addr \<Rightarrow> links \<Rightarrow> links" where
  "insert_local_socket lst s h =
     (let h = set_nxt s lst h;
          h = set_prv s (prv h (nxt h s)) h;
          h = set_nxt (prv h s) s h
      in set_prv (nxt h s) s h)"

definition install_local_socket :: "addr \<Rightarrow> 'z sockst_scheme \<Rightarrow> 'z sockst_scheme outcome" where
  "install_local_socket a st =
     bindE (upd_sock a (\<lambda>s. s\<lparr>s_id := local_socket_next_id st\<rparr>) st) (\<lambda>st.
       let i = local_socket_next_id st + 1
       in Inr (st\<lparr>local_socket_next_id := (if i = 0 then 1 else i),
                  slinks := insert_local_socket local_socket_list a (slinks st)\<rparr>))"

text \<open>The link part of \<open>remove_socket\<close>.\<close>

definition unlink_socket :: "addr \<Rightarrow> links \<Rightarrow> links" where
  "unlink_socket s h =
     (let h = set_nxt (prv h s) (nxt h s) h;
          h = set_prv (nxt h s) (prv h s) h;
          h = set_nxt s NULL h
      in set_prv s NULL h)"

definition remove_socket :: "addr \<Rightarrow> 'z sockst_scheme \<Rightarrow> 'z sockst_scheme outcome" where
  "remove_socket a st =
     (if prv (slinks st) a \<noteq> NULL \<and> nxt (slinks st) a \<noteq> NULL
      then upd_sock a (\<lambda>s. s\<lparr>s_id := 0\<rparr>) (st\<lparr>slinks := unlink_socket a (slinks st)\<rparr>)
      else Inr st)"

text \<open>The loop of \<open>find_local_socket\<close> over the nodes of the list; the first socket with the id decides.\<close>

fun find_in :: "(addr \<Rightarrow> asocket option) \<Rightarrow> addr list \<Rightarrow> u32 \<Rightarrow> u32 \<Rightarrow> addr outcome" where
  "find_in h [] local_id peer_id = Inr NULL"
| "find_in h (a # as) local_id peer_id =
     bindE (deref ''asocket'' h a) (\<lambda>s.
       if s_id s \<noteq> local_id then find_in h as local_id peer_id
       else if peer_id = 0 then Inr a
       else if s_peer s = NULL then Inr NULL
       else bindE (deref ''asocket'' h (s_peer s)) (\<lambda>q. Inr (if s_id q = peer_id then a else NULL)))"

text \<open>\<open>None\<close>: the list does not come back to its head.\<close>

definition find_local_socket :: "u32 \<Rightarrow> u32 \<Rightarrow> 'z sockst_scheme \<Rightarrow> addr outcome option" where
  "find_local_socket local_id peer_id st =
     (case ring_nodes (slinks st) local_socket_list of
        None \<Rightarrow> None
      | Some as \<Rightarrow> Some (find_in (socks st) as local_id peer_id))"

section \<open>Packets to a transport\<close>

definition send_packet :: "apacket \<Rightarrow> addr \<Rightarrow> 'z sockst_scheme \<Rightarrow> 'z sockst_scheme outcome" where
  "send_packet p t st =
     bindE (seal_packet p) (\<lambda>p.
       if t = NULL then Inl (Fatal ''Transport is null'') else Inr (st\<lparr>sent := sent st @ [(t, p)]\<rparr>))"

definition add_transport_disconnect :: "addr \<Rightarrow> addr \<Rightarrow> links \<Rightarrow> links" where
  "add_transport_disconnect t dis h =
     (let h = set_nxt dis t h;
          h = set_prv dis (prv h (nxt h dis)) h;
          h = set_nxt (prv h dis) dis h
      in set_prv (nxt h dis) dis h)"

definition remove_transport_disconnect :: "addr \<Rightarrow> links \<Rightarrow> links" where
  "remove_transport_disconnect dis h =
     (let h = set_nxt (prv h dis) (nxt h dis) h;
          h = set_prv (nxt h dis) (prv h dis) h;
          h = set_prv dis dis h
      in set_nxt dis dis h)"

definition remote_socket_enqueue :: "addr \<Rightarrow> apacket \<Rightarrow> 'z sockst_scheme \<Rightarrow> (int \<times> 'z sockst_scheme) outcome" where
  "remote_socket_enqueue a p st =
     bindE (sock_at st a) (\<lambda>s. bindE (sock_at st (s_peer s)) (\<lambda>q.
       bindE (send_packet (p\<lparr>pmsg := (pmsg p)\<lparr>command := A_WRTE, arg0 := s_id q, arg1 := s_id s,
                                             data_length := plen p\<rparr>\<rparr>) (s_transport s) st)
         (\<lambda>st. Inr (1, st))))"

definition remote_socket_ready :: "addr \<Rightarrow> 'z sockst_scheme \<Rightarrow> 'z sockst_scheme outcome" where
  "remote_socket_ready a st =
     bindE (sock_at st a) (\<lambda>s. bindE (sock_at st (s_peer s)) (\<lambda>q.
       let p = get_apacket (fresh_payload st) in
       send_packet (p\<lparr>pmsg := (pmsg p)\<lparr>command := A_OKAY, arg0 := s_id q, arg1 := s_id s\<rparr>\<rparr>) (s_transport s) st))"

definition remote_socket_shutdown :: "addr \<Rightarrow> 'z sockst_scheme \<Rightarrow> 'z sockst_scheme outcome" where
  "remote_socket_shutdown a st =
     bindE (sock_at st a) (\<lambda>s.
     bindE (if s_peer s = NULL then Inr 0 else bindE (sock_at st (s_peer s)) (\<lambda>q. Inr (s_id q))) (\<lambda>pid.
       let p = get_apacket (fresh_payload st) in
       send_packet (p\<lparr>pmsg := (pmsg p)\<lparr>command := A_CLSE, arg0 := pid, arg1 := s_id s\<rparr>\<rparr>) (s_transport s) st))"

section \<open>Closing\<close>

definition local_socket_destroy :: "addr \<Rightarrow> 'z sockst_scheme \<Rightarrow> 'z sockst_scheme outcome" where
  "local_socket_destroy a st =
     bindE (sock_at st a) (\<lambda>s.
     bindE (fdevent_remove a st) (\<lambda>st.
     bindE (remove_socket a st) (\<lambda>st.
       if s_exit_on_close s then Inl (Fatal ''exit'') else Inr (free_sock a st))))"

text \<open>
  The close functions; \<open>cl\<close> is the call through a \<open>close\<close> pointer.
\<close>

definition close_peer_of ::
  "(addr \<Rightarrow> 'z sockst_scheme \<Rightarrow> 'z sockst_scheme outcome) \<Rightarrow> addr \<Rightarrow> 'z sockst_scheme \<Rightarrow> 'z sockst_scheme outcome" where
  "close_peer_of cl a st =
     bindE (sock_at st a) (\<lambda>s. bindE (sock_at st (s_peer s)) (\<lambda>q.
     bindE (case s_shutdown q of No_shutdown \<Rightarrow> Inr st | Remote_socket_shutdown \<Rightarrow> remote_socket_shutdown (s_peer s) st) (\<lambda>st.
     bindE (upd_sock (s_peer s) (\<lambda>q. q\<lparr>s_peer := NULL\<rparr>) st) (\<lambda>st.
     bindE (sock_at st a) (\<lambda>s.
     bindE (cl (s_peer s) st) (\<lambda>st.
       upd_sock a (\<lambda>s. s\<lparr>s_peer := NULL\<rparr>) st))))))"

definition local_socket_close_locked ::
  "(addr \<Rightarrow> 'z sockst_scheme \<Rightarrow> 'z sockst_scheme outcome) \<Rightarrow> addr \<Rightarrow> 'z sockst_scheme \<Rightarrow> 'z sockst_scheme outcome" where
  "local_socket_close_locked cl a st =
     bindE (sock_at st a) (\<lambda>s.
     bindE (if s_peer s \<noteq> NULL then close_peer_of cl a st else Inr st) (\<lambda>st.
     bindE (sock_at st a) (\<lambda>s.
       if s_closing s \<or> s_pkts s = [] then local_socket_destroy a st
       else
         bindE (upd_sock a (\<lambda>s. s\<lparr>s_closing := True\<rparr>) st) (\<lambda>st.
         bindE (fdevent_del a FDE_READ st) (\<lambda>st.
         bindE (remove_socket a st) (\<lambda>st.
           Inr (st\<lparr>slinks := insert_local_socket local_socket_closing_list a (slinks st)\<rparr>)))))))"

definition local_socket_close_notify ::
  "(addr \<Rightarrow> 'z sockst_scheme \<Rightarrow> 'z sockst_scheme outcome) \<Rightarrow> addr \<Rightarrow> 'z sockst_scheme \<Rightarrow> 'z sockst_scheme outcome" where
  "local_socket_close_notify cl a st =
     bindE (upd_sock a (\<lambda>s. s\<lparr>s_ready := Local_socket_ready, s_shutdown := No_shutdown, s_close := Local_socket_close\<rparr>) st) (\<lambda>st.
     bindE (sock_at st a) (\<lambda>s.
       cl a (snd (sendfailmsg (s_fd s) ''closed'' st))))"

definition remote_socket_close ::
  "(addr \<Rightarrow> 'z sockst_scheme \<Rightarrow> 'z sockst_scheme outcome) \<Rightarrow> addr \<Rightarrow> 'z sockst_scheme \<Rightarrow> 'z sockst_scheme outcome" where
  "remote_socket_close cl a st =
     bindE (sock_at st a) (\<lambda>s.
     bindE (if s_peer s \<noteq> NULL then
              bindE (upd_sock (s_peer s) (\<lambda>q. q\<lparr>s_peer := NULL\<rparr>) st) (\<lambda>st.
              bindE (sock_at st a) (\<lambda>s. cl (s_peer s) st))
            else Inr st) (\<lambda>st.
     bindE (sock_at st a) (\<lambda>s.
       Inr (free_sock a (st\<lparr>dlinks := remove_transport_disconnect a (dlinks st)\<rparr>)))))"

definition smart_socket_close ::
  "(addr \<Rightarrow> 'z sockst_scheme \<Rightarrow> 'z sockst_scheme outcome) \<Rightarrow> addr \<Rightarrow> 'z sockst_scheme \<Rightarrow> 'z sockst_scheme outcome" where
  "smart_socket_close cl a st =
     bindE (sock_at st a) (\<lambda>s.
     bindE (if s_peer s \<noteq> NULL then
              bindE (upd_sock (s_peer s) (\<lambda>q. q\<lparr>s_peer := NULL\<rparr>) st) (\<lambda>st.
              bindE (sock_at st a) (\<lambda>s.
              bindE (cl (s_peer s) st) (\<lambda>st.
                upd_sock a (\<lambda>s. s\<lparr>s_peer := NULL\<rparr>) st)))
            else Inr st) (\<lambda>st.
     bindE (sock_at st a) (\<lambda>s. Inr (free_sock a st))))"

text \<open>
  The call \<open>s->close (s)\<close>, to a depth of nested calls. Every close function clears the \<open>peer\<close> of the socket
  that it closes next, so that a depth of four is never exceeded (\<open>socket_close_depth\<close>).
\<close>

definition call_close_fn ::
  "(addr \<Rightarrow> 'z sockst_scheme \<Rightarrow> 'z sockst_scheme outcome) \<Rightarrow> addr \<Rightarrow> 'z sockst_scheme \<Rightarrow> 'z sockst_scheme outcome" where
  [simp]: "call_close_fn cl a st =
     bindE (sock_at st a) (\<lambda>s.
       case s_close s of
         Local_socket_close \<Rightarrow> local_socket_close_locked cl a st
       | Local_socket_close_notify \<Rightarrow> local_socket_close_notify cl a st
       | Remote_socket_close \<Rightarrow> remote_socket_close cl a st
       | Smart_socket_close \<Rightarrow> smart_socket_close cl a st
       | _ \<Rightarrow> Inl (Bad_access ''jdwp socket''))"

primrec socket_close :: "nat \<Rightarrow> addr \<Rightarrow> 'z sockst_scheme \<Rightarrow> 'z sockst_scheme outcome" where
  "socket_close 0 a st = Inl (Bad_access ''depth'')"
| "socket_close (Suc n) a st = call_close_fn (socket_close n) a st"

abbreviation sclose :: "addr \<Rightarrow> 'z sockst_scheme \<Rightarrow> 'z sockst_scheme outcome" where
  "sclose \<equiv> socket_close 4"

definition remote_socket_disconnect :: "addr \<Rightarrow> 'z sockst_scheme \<Rightarrow> 'z sockst_scheme outcome" where
  "remote_socket_disconnect a st =
     bindE (sock_at st a) (\<lambda>s.
     bindE (if s_peer s \<noteq> NULL then
              bindE (upd_sock (s_peer s) (\<lambda>q. q\<lparr>s_peer := NULL\<rparr>) st) (\<lambda>st. sclose (s_peer s) st)
            else Inr st) (\<lambda>st.
     bindE (sock_at st a) (\<lambda>s.
       Inr (free_sock a (st\<lparr>dlinks := remove_transport_disconnect a (dlinks st)\<rparr>)))))"

section \<open>Data and readiness\<close>

definition pbytes :: "apacket \<Rightarrow> byte list" where
  "pbytes p = take (unat (plen p)) (drop (pptr p) (pdata p))"

definition advance :: "nat \<Rightarrow> apacket \<Rightarrow> apacket" where
  "advance r p = p\<lparr>plen := plen p - of_nat r, pptr := pptr p + r\<rparr>"

text \<open>The write loop of \<open>local_socket_enqueue\<close>: False when the write failed.\<close>

function enqueue_write :: "int \<Rightarrow> apacket \<Rightarrow> 'z sockst_scheme \<Rightarrow> bool \<times> apacket \<times> 'z sockst_scheme" where
  "enqueue_write fd p st =
     (if plen p = 0 then (True, p, st)
      else case adb_write fd (pbytes p) st of (r, e, st') \<Rightarrow>
        if r > 0 then enqueue_write fd (advance (nat r) p) st'
        else if r = 0 \<or> e \<noteq> EAGAIN then (False, p, st') else (True, p, st'))"
  by pat_completeness auto

lemma adb_write_script:
  "adb_write fd bs st = (r, e, st') \<Longrightarrow> e \<noteq> EAGAIN \<or> 0 < r \<Longrightarrow>
   length (wr_script st' fd) < length (wr_script st fd)"
  by (auto simp: adb_write_def split: list.splits wr_ev.splits)

termination enqueue_write
  by (relation "measure (\<lambda>(fd, p, st). length (wr_script st fd))") (auto dest: adb_write_script [OF sym])

declare enqueue_write.simps [simp del]

definition local_socket_enqueue :: "addr \<Rightarrow> apacket \<Rightarrow> 'z sockst_scheme \<Rightarrow> (int \<times> 'z sockst_scheme) outcome" where
  "local_socket_enqueue a p st =
     bindE (sock_at st a) (\<lambda>s.
       let p = p\<lparr>pptr := 0\<rparr>;
           (ok, p, st) = (if s_pkts s \<noteq> [] then (True, p, st) else enqueue_write (s_fd s) p st) in
       if \<not> ok then bindE (sclose a st) (\<lambda>st. Inr (1, st))
       else if s_pkts s = [] \<and> plen p = 0 then Inr (0, st)
       else
         bindE (upd_sock a (\<lambda>s. s\<lparr>s_pkts := s_pkts s @ [p]\<rparr>) st) (\<lambda>st.
         bindE (fdevent_add a FDE_WRITE st) (\<lambda>st. Inr (1, st))))"

definition local_socket_ready :: "addr \<Rightarrow> 'z sockst_scheme \<Rightarrow> 'z sockst_scheme outcome" where
  "local_socket_ready a st = fdevent_add a FDE_READ st"

definition local_socket_ready_notify :: "addr \<Rightarrow> 'z sockst_scheme \<Rightarrow> 'z sockst_scheme outcome" where
  "local_socket_ready_notify a st =
     bindE (upd_sock a (\<lambda>s. s\<lparr>s_ready := Local_socket_ready, s_shutdown := No_shutdown, s_close := Local_socket_close\<rparr>) st) (\<lambda>st.
     bindE (sock_at st a) (\<lambda>s.
       case adb_write (s_fd s) ''OKAY'' st of (r, e, st) \<Rightarrow> local_socket_ready a st))"

definition socket_ready :: "addr \<Rightarrow> 'z sockst_scheme \<Rightarrow> 'z sockst_scheme outcome" where
  "socket_ready a st =
     bindE (sock_at st a) (\<lambda>s.
       case s_ready s of
         Local_socket_ready \<Rightarrow> local_socket_ready a st
       | Local_socket_ready_notify \<Rightarrow> local_socket_ready_notify a st
       | Remote_socket_ready \<Rightarrow> remote_socket_ready a st
       | Smart_socket_ready \<Rightarrow> Inr st
       | _ \<Rightarrow> Inl (Bad_access ''jdwp socket''))"

text \<open>The call \<open>s->enqueue (s, p)\<close>; \<open>smart\<close> is the smart sockets' function.\<close>

definition socket_enqueue ::
  "(addr \<Rightarrow> apacket \<Rightarrow> 'z sockst_scheme \<Rightarrow> (int \<times> 'z sockst_scheme) outcome) \<Rightarrow> addr \<Rightarrow> apacket \<Rightarrow> 'z sockst_scheme
     \<Rightarrow> (int \<times> 'z sockst_scheme) outcome" where
  "socket_enqueue smart a p st =
     bindE (sock_at st a) (\<lambda>s.
       case s_enqueue s of
         Local_socket_enqueue \<Rightarrow> local_socket_enqueue a p st
       | Remote_socket_enqueue \<Rightarrow> remote_socket_enqueue a p st
       | Smart_socket_enqueue \<Rightarrow> smart a p st
       | _ \<Rightarrow> Inl (Bad_access ''jdwp socket''))"

section \<open>Events of a local socket\<close>

datatype drained = Drained | Again | Broken

text \<open>The inner loop over one packet.\<close>

function drain_packet :: "int \<Rightarrow> apacket \<Rightarrow> 'z sockst_scheme \<Rightarrow> drained \<times> apacket \<times> 'z sockst_scheme" where
  "drain_packet fd p st =
     (if plen p = 0 then (Drained, p, st)
      else case adb_write fd (pbytes p) st of (r, e, st') \<Rightarrow>
        if r > 0 then drain_packet fd (advance (nat r) p) st'
        else if r < 0 \<and> e = EAGAIN then (Again, p, st')
        else if r < 0 \<and> e = EINTR then drain_packet fd p st'
        else (Broken, p, st'))"
  by pat_completeness auto

termination drain_packet
  by (relation "measure (\<lambda>(fd, p, st). length (wr_script st fd))") (auto dest: adb_write_script [OF sym])

declare drain_packet.simps [simp del]

text \<open>The outer loop over the queue: what is left of it.\<close>

fun drain_queue :: "int \<Rightarrow> apacket list \<Rightarrow> 'z sockst_scheme \<Rightarrow> drained \<times> apacket list \<times> 'z sockst_scheme" where
  "drain_queue fd [] st = (Drained, [], st)"
| "drain_queue fd (p # ps) st =
     (case drain_packet fd p st of (res, p', st') \<Rightarrow>
        if res = Drained then drain_queue fd ps st' else (res, p' # ps, st'))"

text \<open>The read loop: the bytes, the last result of \<open>adb_read\<close>, \<open>is_eof\<close>.\<close>

function read_avail :: "int \<Rightarrow> nat \<Rightarrow> byte list \<Rightarrow> int \<Rightarrow> 'z sockst_scheme \<Rightarrow> byte list \<times> int \<times> bool \<times> 'z sockst_scheme" where
  "read_avail fd avail acc r0 st =
     (if avail = 0 then (acc, r0, False, st)
      else case adb_read fd avail st of (r, e, bs, st') \<Rightarrow>
        if r > 0 then read_avail fd (avail - nat r) (acc @ bs) r st'
        else if r < 0 \<and> e = EAGAIN then (acc, r, False, st')
        else if r < 0 \<and> e = EINTR then read_avail fd avail acc r st'
        else (acc, r, True, st'))"
  by pat_completeness auto

lemma adb_read_script:
  "adb_read fd n st = (r, e, bs, st') \<Longrightarrow> r < 0 \<Longrightarrow> e \<noteq> EAGAIN \<Longrightarrow>
   length (rd_script st' fd) < length (rd_script st fd)"
  by (auto simp: adb_read_def split: list.splits rd_ev.splits)

lemma adb_read_pos:
  "adb_read fd n st = (r, e, bs, st') \<Longrightarrow> 0 < r \<Longrightarrow> r \<le> int n"
  by (auto simp: adb_read_def split: list.splits rd_ev.splits)

lemma adb_read_shrinks:
  "adb_read fd n st = (r, e, bs, st') \<Longrightarrow> length (rd_script st' fd) \<le> length (rd_script st fd)"
  by (auto simp: adb_read_def split: list.splits rd_ev.splits if_splits)

termination read_avail
proof (relation "measure (\<lambda>(fd, avail, acc, r, st). avail + length (rd_script st fd))", goal_cases)
  case 1
  then show ?case by simp
next
  case (2 fd avail acc r0 st)
  then show ?case by (auto dest: adb_read_pos [OF sym] adb_read_shrinks [OF sym])
next
  case (3 fd avail acc r0 st)
  then show ?case by (auto dest: adb_read_script [OF sym])
qed

declare read_avail.simps [simp del]

text \<open>
  The \<open>FDE_WRITE\<close> part: \<open>None\<close> when the handler has returned.
\<close>

definition socket_writable :: "addr \<Rightarrow> int \<Rightarrow> 'z sockst_scheme \<Rightarrow> (bool \<times> 'z sockst_scheme) outcome" where
  "socket_writable a fd st =
     bindE (sock_at st a) (\<lambda>s.
       case drain_queue fd (s_pkts s) st of (res, ps, st) \<Rightarrow>
         bindE (upd_sock a (\<lambda>s. s\<lparr>s_pkts := ps\<rparr>) st) (\<lambda>st.
           case res of
             Again \<Rightarrow> Inr (True, st)
           | Broken \<Rightarrow> bindE (sclose a st) (\<lambda>st. Inr (True, st))
           | Drained \<Rightarrow>
               if s_closing s then bindE (sclose a st) (\<lambda>st. Inr (True, st))
               else bindE (fdevent_del a FDE_WRITE st) (\<lambda>st.
                    bindE (sock_at st a) (\<lambda>s.
                    bindE (socket_ready (s_peer s) st) (\<lambda>st. Inr (False, st))))))"

definition socket_readable ::
  "(addr \<Rightarrow> apacket \<Rightarrow> 'z sockst_scheme \<Rightarrow> (int \<times> 'z sockst_scheme) outcome) \<Rightarrow> addr \<Rightarrow> int \<Rightarrow> 'z sockst_scheme
     \<Rightarrow> 'z sockst_scheme outcome" where
  "socket_readable smart a fd st =
     (case read_avail fd MAX_PAYLOAD [] 0 st of (bs, r, is_eof, st) \<Rightarrow>
        bindE (sock_at st a) (\<lambda>s.
        bindE (if bs = [] \<or> s_peer s = NULL then Inr (r, False, st)
               else
                 let p = get_apacket (fresh_payload st);
                     p = p\<lparr>pdata := bs @ drop (length bs) (pdata p), plen := of_nat (length bs)\<rparr> in
                 bindE (socket_enqueue smart (s_peer s) p st) (\<lambda>(r, st).
                   if r < 0 then Inr (r, True, st)
                   else if r > 0 then bindE (fdevent_del a FDE_READ st) (\<lambda>st. Inr (r, False, st))
                   else Inr (r, False, st))) (\<lambda>(r, returned, st).
          if returned then Inr st
          else
            bindE (fde_at st a) (\<lambda>f.
              if fde_force_eof f \<and> r = 0 \<or> is_eof then sclose a st else Inr st))))"

definition local_socket_event_func ::
  "(addr \<Rightarrow> apacket \<Rightarrow> 'z sockst_scheme \<Rightarrow> (int \<times> 'z sockst_scheme) outcome) \<Rightarrow> int \<Rightarrow> u16 \<Rightarrow> addr \<Rightarrow> 'z sockst_scheme
     \<Rightarrow> 'z sockst_scheme outcome" where
  "local_socket_event_func smart fd ev a st =
     bindE (if has ev FDE_WRITE then socket_writable a fd st else Inr (False, st)) (\<lambda>(returned, st).
       if \<not> returned \<and> has ev FDE_READ then socket_readable smart a fd st else Inr st)"

section \<open>Creating sockets\<close>

definition blank_socket :: asocket where
  "blank_socket = \<lparr>s_id = 0, s_closing = False, s_exit_on_close = False, s_peer = NULL, s_fd = 0, s_pkts = [],
     s_enqueue = Local_socket_enqueue, s_ready = Local_socket_ready, s_shutdown = No_shutdown,
     s_close = Local_socket_close, s_transport = NULL\<rparr>"

text \<open>\<open>new\<close> is what \<open>calloc\<close> returns.\<close>

definition create_local_socket :: "fdenv \<Rightarrow> addr \<Rightarrow> int \<Rightarrow> 'z sockst_scheme \<Rightarrow> (addr \<times> 'z sockst_scheme) outcome" where
  "create_local_socket env new fd st =
     (if new = NULL then Inl (Fatal ''cannot allocate socket'')
      else
        let st = set_sock new (blank_socket\<lparr>s_fd := fd\<rparr>) (st\<lparr>slinks := set_nxt new NULL (set_prv new NULL (slinks st))\<rparr>) in
        bindE (install_local_socket new st) (\<lambda>st.
        bindE (fdevent_install env new fd Local_socket_event_func new st) (\<lambda>st. Inr (new, st))))"

definition create_remote_socket :: "addr \<Rightarrow> u32 \<Rightarrow> addr \<Rightarrow> 'z sockst_scheme \<Rightarrow> (addr \<times> 'z sockst_scheme) outcome" where
  "create_remote_socket new i t st =
     (if i = 0 then Inl (Fatal ''invalid remote socket id (0)'')
      else if new = NULL then Inl (Fatal ''cannot allocate socket'')
      else
        let s = blank_socket\<lparr>s_id := i, s_enqueue := Remote_socket_enqueue, s_ready := Remote_socket_ready,
              s_shutdown := Remote_socket_shutdown, s_close := Remote_socket_close, s_transport := t\<rparr> in
        Inr (new, (set_sock new s st)\<lparr>dlinks := add_transport_disconnect t new (dlinks st),
                   slinks := set_nxt new NULL (set_prv new NULL (slinks st))\<rparr>))"

definition create_smart_socket :: "addr \<Rightarrow> 'z sockst_scheme \<Rightarrow> (addr \<times> 'z sockst_scheme) outcome" where
  "create_smart_socket new st =
     (if new = NULL then Inl (Fatal ''cannot allocate socket'')
      else
        let s = blank_socket\<lparr>s_enqueue := Smart_socket_enqueue, s_ready := Smart_socket_ready,
              s_close := Smart_socket_close\<rparr> in
        Inr (new, (set_sock new s st)\<lparr>slinks := set_nxt new NULL (set_prv new NULL (slinks st))\<rparr>))"

definition connect_to_smartsocket :: "addr \<Rightarrow> addr \<Rightarrow> 'z sockst_scheme \<Rightarrow> 'z sockst_scheme outcome" where
  "connect_to_smartsocket new a st =
     bindE (create_smart_socket new st) (\<lambda>(ss, st).
     bindE (upd_sock a (\<lambda>s. s\<lparr>s_peer := ss\<rparr>) st) (\<lambda>st.
     bindE (upd_sock ss (\<lambda>s. s\<lparr>s_peer := a\<rparr>) st) (\<lambda>st.
       socket_ready a st)))"

definition connect_to_remote :: "addr \<Rightarrow> string \<Rightarrow> 'z sockst_scheme \<Rightarrow> 'z sockst_scheme outcome" where
  "connect_to_remote a destination st =
     bindE (sock_at st a) (\<lambda>s.
       let len = length destination + 1 in
       if len > MAX_PAYLOAD - 1 then Inl (Fatal ''destination oversized'')
       else
         let p = get_apacket (fresh_payload st);
             p = p\<lparr>pmsg := (pmsg p)\<lparr>command := A_OPEN, arg0 := s_id s, data_length := of_nat len\<rparr>,
                   pdata := destination @ [CHR 0x00] @ drop len (pdata p)\<rparr>
         in send_packet p (s_transport s) st)"

text \<open>
  \<open>close_all_sockets\<close>: the loop restarts from the head after every socket it closes.
  \<open>None\<close>: the list does not come back to its head, or the loop does not end.
\<close>

definition uses_transport :: "addr \<Rightarrow> 'z sockst_scheme \<Rightarrow> addr \<Rightarrow> bool outcome" where
  "uses_transport t st a =
     bindE (sock_at st a) (\<lambda>s.
       if s_transport s = t then Inr True
       else if s_peer s = NULL then Inr False
       else bindE (sock_at st (s_peer s)) (\<lambda>q. Inr (s_transport q = t)))"

fun first_using :: "addr \<Rightarrow> 'z sockst_scheme \<Rightarrow> addr list \<Rightarrow> addr outcome" where
  "first_using t st [] = Inr NULL"
| "first_using t st (a # as) = bindE (uses_transport t st a) (\<lambda>u. if u then Inr a else first_using t st as)"

partial_function (option) close_all_sockets :: "addr \<Rightarrow> 'z sockst_scheme \<Rightarrow> 'z sockst_scheme outcome option" where
  "close_all_sockets t st =
     (case ring_nodes (slinks st) local_socket_list of
        None \<Rightarrow> None
      | Some as \<Rightarrow>
          (case first_using t st as of
             Inl e \<Rightarrow> Some (Inl e)
           | Inr a \<Rightarrow>
               if a = NULL then Some (Inr st)
               else (case local_socket_close_locked (socket_close 3) a st of
                       Inl e \<Rightarrow> Some (Inl e)
                     | Inr st \<Rightarrow> close_all_sockets t st)))"

end
