(* ===== verification/Sockets_Inv.thy ===== *)
theory Sockets_Inv
  imports Sockets
begin

text \<open>
  The invariant of the sockets and what keeps it: the two lists of local sockets hold exactly the open and
  the closing ones, peers point at each other, every local socket has an active event object, every remote
  socket is registered with its transport. Closing a socket closes its peer and leaves every other socket
  alone; it is proved first for a socket without a peer.
\<close>

section \<open>The lists\<close>

lemma ring_prv_head: "ring h l xs \<Longrightarrow> prv h l \<in> set (l # xs)"
  by (cases xs rule: rev_cases) (auto simp: ring_def)

lemma insert_local_socket_eq:
  "s \<noteq> lst \<Longrightarrow> prv h lst \<noteq> s \<Longrightarrow> insert_local_socket lst s h = list_add_tail lst s h"
  by (auto simp: insert_local_socket_def list_add_tail_def Let_def)

lemma unlink_socket_ring:
  assumes "ring h l xs" and "x \<in> set xs"
  shows "ring (unlink_socket x h) l (remove1 x xs)"
proof -
  have n: "nxt h x \<noteq> x" "prv h x \<noteq> x" using ring_nxt_neq [OF assms] by auto
  have x: "x \<notin> set (l # remove1 x xs)" using assms ring_distinct by fastforce
  show ?thesis
    using ring_set_other(2) [OF ring_set_other(1) [OF ring_unlink [OF assms] x] x] n
    by (simp add: unlink_socket_def Let_def)
qed

lemma unlink_socket_other:
  assumes "ring h l xs" and "ring h l' ys" and "x \<in> set xs" and "insert l (set xs) \<inter> insert l' (set ys) = {}"
  shows "ring (unlink_socket x h) l' ys"
proof (rule ring_frame [OF assms(2)])
  fix b assume b: "b \<in> insert l' (set ys)"
  have "nxt h x \<in> set (l # xs)" "prv h x \<in> set (l # xs)" using ring_nxt_mem [OF assms(1,3)] by auto
  with b assms(3,4) have "b \<noteq> x" "b \<noteq> nxt h x" "b \<noteq> prv h x" by auto
  with ring_nxt_neq [OF assms(1,3)]
  show "nxt (unlink_socket x h) b = nxt h b \<and> prv (unlink_socket x h) b = prv h b"
    by (simp add: unlink_socket_def Let_def)
qed

lemma add_tail_other:
  assumes "ring h l xs" and "ring h l' ys" and "x \<notin> set (l # xs @ l' # ys)" and "insert l (set xs) \<inter> insert l' (set ys) = {}"
  shows "ring (list_add_tail l x h) l' ys"
proof (rule ring_frame [OF assms(2)])
  fix b assume b: "b \<in> insert l' (set ys)"
  have "prv h l \<in> set (l # xs)" by (rule ring_prv_head [OF assms(1)])
  with b assms(3,4) show "nxt (list_add_tail l x h) b = nxt h b \<and> prv (list_add_tail l x h) b = prv h b"
    by (auto simp: list_add_tail_def Let_def)
qed

interpretation ll: ring_list local_socket_list "insert_local_socket local_socket_list" unlink_socket
  by unfold_locales (metis insert_local_socket_eq list.set_intros(1) ring_add_tail ring_prv_head, rule unlink_socket_ring)

interpretation cll: ring_list local_socket_closing_list "insert_local_socket local_socket_closing_list" unlink_socket
  by unfold_locales (metis insert_local_socket_eq list.set_intros(1) ring_add_tail ring_prv_head, rule unlink_socket_ring)

lemma add_disconnect_eq: "x \<noteq> t \<Longrightarrow> prv h t \<noteq> x \<Longrightarrow> add_transport_disconnect t x h = list_add_tail t x h"
  by (auto simp: add_transport_disconnect_def list_add_tail_def Let_def)

lemma remove_disconnect_ring:
  assumes "ring h l xs" and "x \<in> set xs"
  shows "ring (remove_transport_disconnect x h) l (remove1 x xs)"
proof -
  have n: "nxt h x \<noteq> x" "prv h x \<noteq> x" using ring_nxt_neq [OF assms] by auto
  have x: "x \<notin> set (l # remove1 x xs)" using assms ring_distinct by fastforce
  show ?thesis
    using ring_set_other(1) [OF ring_set_other(2) [OF ring_unlink [OF assms] x] x] n
    by (simp add: remove_transport_disconnect_def Let_def)
qed

lemma remove_disconnect_other:
  assumes "ring h l xs" and "ring h l' ys" and "x \<in> set xs" and "insert l (set xs) \<inter> insert l' (set ys) = {}"
  shows "ring (remove_transport_disconnect x h) l' ys"
proof (rule ring_frame [OF assms(2)])
  fix b assume b: "b \<in> insert l' (set ys)"
  have "nxt h x \<in> set (l # xs)" "prv h x \<in> set (l # xs)" using ring_nxt_mem [OF assms(1,3)] by auto
  with b assms(3,4) have "b \<noteq> x" "b \<noteq> nxt h x" "b \<noteq> prv h x" by auto
  with ring_nxt_neq [OF assms(1,3)]
  show "nxt (remove_transport_disconnect x h) b = nxt h b \<and> prv (remove_transport_disconnect x h) b = prv h b"
    by (simp add: remove_transport_disconnect_def Let_def)
qed

interpretation td: ring_list t "add_transport_disconnect t" remove_transport_disconnect for t
  by unfold_locales (metis add_disconnect_eq list.set_intros(1) ring_add_tail ring_prv_head, rule remove_disconnect_ring)

section \<open>The invariant\<close>

type_synonym sockheap = "addr \<Rightarrow> asocket option"

definition is_local :: "asocket \<Rightarrow> bool" where
  "is_local s \<longleftrightarrow> s_enqueue s = Local_socket_enqueue"

definition is_remote :: "asocket \<Rightarrow> bool" where
  "is_remote s \<longleftrightarrow> s_enqueue s = Remote_socket_enqueue"

text \<open>The function pointers that go together.\<close>

definition sock_kind :: "asocket \<Rightarrow> bool" where
  "sock_kind s \<longleftrightarrow>
     (case s_enqueue s of
        Local_socket_enqueue \<Rightarrow>
          s_close s \<in> {Local_socket_close, Local_socket_close_notify} \<and> s_shutdown s = No_shutdown \<and>
          (s_closing s \<longrightarrow> s_peer s = NULL)
      | Remote_socket_enqueue \<Rightarrow>
          s_close s = Remote_socket_close \<and> s_shutdown s = Remote_socket_shutdown \<and> s_transport s \<noteq> NULL
      | Smart_socket_enqueue \<Rightarrow> s_close s = Smart_socket_close \<and> s_shutdown s = No_shutdown
      | _ \<Rightarrow> False)"

definition lists_ok :: "sockheap \<Rightarrow> links \<Rightarrow> addr list \<Rightarrow> addr list \<Rightarrow> bool" where
  "lists_ok h lk xs ys \<longleftrightarrow>
     ring lk local_socket_list xs \<and> ring lk local_socket_closing_list ys \<and>
     (\<forall>a. a \<in> set xs \<longleftrightarrow> (\<exists>s. h a = Some s \<and> is_local s \<and> \<not> s_closing s)) \<and>
     (\<forall>a. a \<in> set ys \<longleftrightarrow> (\<exists>s. h a = Some s \<and> is_local s \<and> s_closing s))"

definition heads_free :: "sockheap \<Rightarrow> bool" where
  "heads_free h \<longleftrightarrow> h NULL = None \<and> h local_socket_list = None \<and> h local_socket_closing_list = None"

definition kinds_ok :: "sockheap \<Rightarrow> fdheap \<Rightarrow> bool" where
  "kinds_ok h fh \<longleftrightarrow>
     (\<forall>a s. h a = Some s \<longrightarrow> sock_kind s \<and>
        (is_local s \<longrightarrow> (\<exists>f. fh a = Some f \<and> active f \<and> fde_fd f = s_fd s)) \<and>
        (\<not> is_local s \<longrightarrow> fh a = None))"

text \<open>Peers point at each other, apart from the sockets in \<open>X\<close>, which are being closed.\<close>

definition peers_ok :: "addr set \<Rightarrow> sockheap \<Rightarrow> bool" where
  "peers_ok X h \<longleftrightarrow>
     (\<forall>a s. h a = Some s \<and> a \<notin> X \<and> s_peer s \<noteq> NULL \<longrightarrow>
        s_peer s \<noteq> a \<and> (\<exists>q. h (s_peer s) = Some q \<and> s_peer q = a))"

text \<open>\<open>D t\<close> are the remote sockets of transport \<open>t\<close>; \<open>T\<close> are the transports.\<close>

definition discs_ok :: "addr set \<Rightarrow> sockheap \<Rightarrow> links \<Rightarrow> (addr \<Rightarrow> addr list) \<Rightarrow> bool" where
  "discs_ok T h dl D \<longleftrightarrow>
     (\<forall>t\<in>T. ring dl t (D t) \<and> h t = None \<and>
        (\<forall>a. a \<in> set (D t) \<longleftrightarrow> (\<exists>s. h a = Some s \<and> is_remote s \<and> s_transport s = t))) \<and>
     (\<forall>a s. h a = Some s \<and> is_remote s \<longrightarrow> s_transport s \<in> T)"

definition sock_inv :: "addr set \<Rightarrow> addr set \<Rightarrow> 'z sockst_scheme \<Rightarrow> bool" where
  "sock_inv T X st \<longleftrightarrow>
     (\<exists>xs ys. lists_ok (socks st) (slinks st) xs ys) \<and> heads_free (socks st) \<and>
     kinds_ok (socks st) (fdes st) \<and> peers_ok X (socks st) \<and> (\<exists>D. discs_ok T (socks st) (dlinks st) D) \<and> fd_ok st"

section \<open>Changes of one socket\<close>

lemma lists_ok_upd:
  "lists_ok h lk xs ys \<Longrightarrow> h a = Some s \<Longrightarrow> is_local s' = is_local s \<Longrightarrow> s_closing s' = s_closing s \<Longrightarrow>
   lists_ok (h(a \<mapsto> s')) lk xs ys"
  unfolding lists_ok_def by auto

lemma kinds_ok_upd:
  "kinds_ok h fh \<Longrightarrow> h a = Some s \<Longrightarrow> is_local s' = is_local s \<Longrightarrow> s_fd s' = s_fd s \<Longrightarrow> sock_kind s' \<Longrightarrow>
   kinds_ok (h(a \<mapsto> s')) fh"
  unfolding kinds_ok_def by auto

lemma discs_ok_upd:
  assumes "discs_ok T h dl D" "h a = Some s" "is_remote s' = is_remote s" "s_transport s' = s_transport s"
  shows "discs_ok T (h(a \<mapsto> s')) dl D"
  using assms unfolding discs_ok_def by auto

lemma heads_free_upd: "heads_free h \<Longrightarrow> h a = Some s \<Longrightarrow> heads_free (h(a \<mapsto> s'))"
  unfolding heads_free_def by (metis fun_upd_apply option.distinct(1))

lemma heads_free_free: "heads_free h \<Longrightarrow> heads_free (h(a := None))"
  unfolding heads_free_def by simp

lemma lists_disjoint:
  assumes "lists_ok h lk xs ys" "heads_free h"
  shows "insert local_socket_list (set xs) \<inter> insert local_socket_closing_list (set ys) = {}"
proof -
  have "set xs \<inter> set ys = {}" "local_socket_closing_list \<notin> set xs" "local_socket_list \<notin> set ys"
    using assms unfolding lists_ok_def heads_free_def by (auto dest!: equalityD1)
  then show ?thesis by (auto simp: local_socket_list_def local_socket_closing_list_def)
qed

lemma lists_ok_unlink:
  assumes l: "lists_ok h lk xs ys" and "heads_free h" and a: "h a = Some s" "is_local s"
  shows "lists_ok (h(a := None)) (unlink_socket a lk) (remove1 a xs) (remove1 a ys)"
    and "prv lk a \<noteq> NULL \<and> nxt lk a \<noteq> NULL"
proof -
  note d = lists_disjoint [OF assms(1,2)]
  have r: "ring lk local_socket_list xs" "ring lk local_socket_closing_list ys" using l by (auto simp: lists_ok_def)
  have nn: "0 \<notin> set (local_socket_list # xs)" "0 \<notin> set (local_socket_closing_list # ys)"
    using l assms(2) by (auto simp: lists_ok_def heads_free_def local_socket_list_def local_socket_closing_list_def)
  have "a \<in> set xs \<or> a \<in> set ys" using l a unfolding lists_ok_def by blast
  then have "ring (unlink_socket a lk) local_socket_list (remove1 a xs) \<and>
     ring (unlink_socket a lk) local_socket_closing_list (remove1 a ys) \<and> prv lk a \<noteq> NULL \<and> nxt lk a \<noteq> NULL"
  proof
    assume x: "a \<in> set xs"
    then have "a \<notin> set ys" using d by auto
    moreover have "prv lk a \<noteq> 0 \<and> nxt lk a \<noteq> 0" using ring_nxt_mem [OF r(1) x] nn(1) by metis
    ultimately show ?thesis using ll.del_ring [OF r(1) x] unlink_socket_other [OF r x d]
      by (simp add: remove1_idem)
  next
    assume y: "a \<in> set ys"
    then have "a \<notin> set xs" using d by auto
    moreover have "prv lk a \<noteq> 0 \<and> nxt lk a \<noteq> 0" using ring_nxt_mem [OF r(2) y] nn(2) by metis
    ultimately show ?thesis using cll.del_ring [OF r(2) y] unlink_socket_other [OF r(2,1) y] d
      by (simp add: remove1_idem Int_commute)
  qed
  moreover have "distinct xs" "distinct ys" using r ring_distinct by auto
  ultimately show "lists_ok (h(a := None)) (unlink_socket a lk) (remove1 a xs) (remove1 a ys)"
    and "prv lk a \<noteq> NULL \<and> nxt lk a \<noteq> NULL"
    using l by (auto simp: lists_ok_def)
qed

lemma lists_ok_free_other:
  "lists_ok h lk xs ys \<Longrightarrow> h a = Some s \<Longrightarrow> \<not> is_local s \<Longrightarrow> lists_ok (h(a := None)) lk xs ys"
  unfolding lists_ok_def by auto

lemma lists_ok_to_closing:
  assumes l: "lists_ok h lk xs ys" and hf: "heads_free h" and a: "h a = Some s" "is_local s" "\<not> s_closing s"
    and s': "is_local s'" "s_closing s'"
  shows "lists_ok (h(a \<mapsto> s')) (insert_local_socket local_socket_closing_list a (unlink_socket a lk)) (remove1 a xs) (ys @ [a])"
proof -
  note u = lists_ok_unlink(1) [OF l hf a(1,2)]
  have d: "insert local_socket_list (set (remove1 a xs)) \<inter> insert local_socket_closing_list (set (remove1 a ys)) = {}"
    by (rule lists_disjoint [OF u heads_free_free [OF hf]])
  have ay: "a \<notin> set ys" using l a unfolding lists_ok_def by auto
  have ne: "a \<noteq> local_socket_list" "a \<noteq> local_socket_closing_list" using hf a unfolding heads_free_def by auto
  have ax: "a \<notin> set (remove1 a xs)" using l ring_distinct(1) by (fastforce simp: lists_ok_def)
  let ?k = "unlink_socket a lk"
  have r: "ring ?k local_socket_list (remove1 a xs)" "ring ?k local_socket_closing_list ys"
    using u ay by (auto simp: lists_ok_def remove1_idem)
  have out: "a \<notin> set (local_socket_closing_list # ys)" using ay ne by simp
  have eq: "insert_local_socket local_socket_closing_list a ?k = list_add_tail local_socket_closing_list a ?k"
    using ring_prv_head [OF r(2)] out ne by (intro insert_local_socket_eq) auto
  have "ring (insert_local_socket local_socket_closing_list a ?k) local_socket_closing_list (ys @ [a])"
    by (rule cll.ins_ring [OF r(2) out])
  moreover have "ring (insert_local_socket local_socket_closing_list a ?k) local_socket_list (remove1 a xs)"
    unfolding eq using add_tail_other [OF r(2,1), of a] out ne ax d ay by (auto simp: remove1_idem)
  ultimately show ?thesis using u s' ay by (auto simp: lists_ok_def remove1_idem)
qed

lemma discs_ok_free:
  assumes "discs_ok T h dl D" and a: "h a = Some s" "is_remote s"
  shows "\<exists>D'. discs_ok T (h(a := None)) (remove_transport_disconnect a dl) D'"
proof -
  let ?t = "s_transport s"
  have t: "?t \<in> T" and m: "\<And>t b. t \<in> T \<Longrightarrow> b \<in> set (D t) \<longleftrightarrow> (\<exists>s. h b = Some s \<and> is_remote s \<and> s_transport s = t)"
    and r: "\<And>t. t \<in> T \<Longrightarrow> ring dl t (D t)" and n: "\<And>t. t \<in> T \<Longrightarrow> h t = None"
    using assms unfolding discs_ok_def by blast+
  have at: "a \<in> set (D ?t)" using m [OF t] a by blast
  have "ring (remove_transport_disconnect a dl) t ((D(?t := remove1 a (D ?t))) t)" if "t \<in> T" for t
  proof (cases "t = ?t")
    case True
    then show ?thesis using td.del_ring [OF r [OF t] at] by simp
  next
    case False
    have "insert ?t (set (D ?t)) \<inter> insert t (set (D t)) = {}"
      using False m [OF t] m [OF that] n [OF t] n [OF that] by auto
    then show ?thesis using remove_disconnect_other [OF r [OF t] r [OF that] at] False by simp
  qed
  moreover have "b \<in> set ((D(?t := remove1 a (D ?t))) t) \<longleftrightarrow>
      (\<exists>s. (h(a := None)) b = Some s \<and> is_remote s \<and> s_transport s = t)" if "t \<in> T" for t b
    using m [OF that] a ring_distinct(1) [OF r [OF t]] by auto
  ultimately have "discs_ok T (h(a := None)) (remove_transport_disconnect a dl) (D(?t := remove1 a (D ?t)))"
    using assms(1) n unfolding discs_ok_def by (auto split: if_splits)
  then show ?thesis by blast
qed

lemma discs_ok_free_other:
  "discs_ok T h dl D \<Longrightarrow> h a = Some s \<Longrightarrow> \<not> is_remote s \<Longrightarrow> discs_ok T (h(a := None)) dl D"
  unfolding discs_ok_def by auto


lemma peers_okD:
  "peers_ok X h \<Longrightarrow> h a = Some s \<Longrightarrow> a \<notin> X \<Longrightarrow> s_peer s \<noteq> NULL \<Longrightarrow>
   s_peer s \<noteq> a \<and> (\<exists>q. h (s_peer s) = Some q \<and> s_peer q = a)"
  unfolding peers_ok_def by blast

lemma peers_ok_free:
  assumes "peers_ok X h" "h a = Some s" "s_peer s = NULL" "heads_free h"
  shows "peers_ok X (h(a := None))"
  unfolding peers_ok_def
proof (intro allI impI)
  fix b t assume b: "(h(a := None)) b = Some t \<and> b \<notin> X \<and> s_peer t \<noteq> NULL"
  then have hb: "h b = Some t" "b \<noteq> a" "b \<notin> X" "s_peer t \<noteq> NULL" by (auto split: if_splits)
  from peers_okD [OF assms(1) hb(1,3,4)] obtain q where q: "s_peer t \<noteq> b" "h (s_peer t) = Some q" "s_peer q = b" by blast
  have "b \<noteq> NULL" using hb(1) assms(4) by (metis heads_free_def option.distinct(1))
  then have "s_peer t \<noteq> a" using q assms(2,3) by auto
  then show "s_peer t \<noteq> b \<and> (\<exists>q. (h(a := None)) (s_peer t) = Some q \<and> s_peer q = b)" using q by simp
qed

lemma peers_ok_upd:
  assumes "peers_ok X h" "h a = Some s" "s_peer s' = s_peer s"
  shows "peers_ok X (h(a \<mapsto> s'))"
  unfolding peers_ok_def
proof (intro allI impI)
  fix b t assume b: "(h(a \<mapsto> s')) b = Some t \<and> b \<notin> X \<and> s_peer t \<noteq> NULL"
  then obtain t' where hb: "h b = Some t'" "s_peer t' = s_peer t" "b \<notin> X" "s_peer t' \<noteq> NULL"
    using assms(2,3) by (auto split: if_splits)
  from peers_okD [OF assms(1) hb(1,3,4)] obtain q where q: "s_peer t \<noteq> b" "h (s_peer t) = Some q" "s_peer q = b"
    using hb(2) by auto
  then show "s_peer t \<noteq> b \<and> (\<exists>q. (h(a \<mapsto> s')) (s_peer t) = Some q \<and> s_peer q = b)"
    using assms(2,3) by (cases "s_peer t = a") auto
qed

lemma kinds_ok_free: "kinds_ok h fh \<Longrightarrow> kinds_ok (h(a := None)) (fh(a := v))"
  unfolding kinds_ok_def by auto

section \<open>What the event loop leaves alone\<close>

lemma fdevent_disconnect_more: "fdevent_disconnect f st = Inr st' \<Longrightarrow> fdstate.more st' = fdstate.more st"
  by (auto simp: fdevent_disconnect_def split: if_splits)

lemma fdevent_unregister_more: "fdevent_unregister a st = Inr st' \<Longrightarrow> fdstate.more st' = fdstate.more st"
  by (auto simp: fdevent_unregister_def Let_def bindE_eq_Inr deref_eq_Inr upd_fde_def split: if_splits)

lemma fdevent_more:
  "fdevent_remove a st = Inr st' \<Longrightarrow> fdstate.more st' = fdstate.more st"
  "fdevent_set a ev st = Inr st' \<Longrightarrow> fdstate.more st' = fdstate.more st"
  "fdevent_add a ev st = Inr st' \<Longrightarrow> fdstate.more st' = fdstate.more st"
  "fdevent_del a ev st = Inr st' \<Longrightarrow> fdstate.more st' = fdstate.more st"
proof -
  have s: "fdstate.more st' = fdstate.more st" if "fdevent_set a ev st = Inr st'" for ev
    using that by (auto simp: fdevent_set_def Let_def bindE_eq_Inr deref_eq_Inr fdevent_update_def upd_fde_def split: if_splits)
  then show "fdevent_set a ev st = Inr st' \<Longrightarrow> fdstate.more st' = fdstate.more st"
    "fdevent_add a ev st = Inr st' \<Longrightarrow> fdstate.more st' = fdstate.more st"
    "fdevent_del a ev st = Inr st' \<Longrightarrow> fdstate.more st' = fdstate.more st"
    by (auto simp: fdevent_add_def fdevent_del_def bindE_eq_Inr)
  assume "fdevent_remove a st = Inr st'"
  then obtain f where f: "fdes st a = Some f" by (auto simp: fdevent_remove_def bindE_eq_Inr deref_eq_Inr)
  define st1 where "st1 = (if has (fde_state f) FDE_PENDING then st\<lparr>plinks := fdevent_plist_remove a (plinks st)\<rparr> else st)"
  have m1: "fdstate.more st1 = fdstate.more st" by (simp add: st1_def)
  have rm: "bindE (if has (fde_state f) FDE_ACTIVE then bindE (fdevent_disconnect f st1) (fdevent_unregister a) else Inr st1)
      (\<lambda>st. Inr (upd_fde a (f\<lparr>fde_state := 0, fde_events := 0\<rparr>) st)) = Inr st'"
    using \<open>fdevent_remove a st = Inr st'\<close> unfolding fdevent_remove_def deref_Some [of "fdes st" a f, OF f] bindE_Inr Let_def st1_def .
  show "fdstate.more st' = fdstate.more st"
  proof (cases "has (fde_state f) FDE_ACTIVE")
    case True
    with rm obtain st2 st3 where "fdevent_disconnect f st1 = Inr st2" "fdevent_unregister a st2 = Inr st3"
      "st' = upd_fde a (f\<lparr>fde_state := 0, fde_events := 0\<rparr>) st3" by (auto simp: bindE_eq_Inr)
    with m1 show ?thesis by (simp add: upd_fde_def fdevent_disconnect_more fdevent_unregister_more)
  next
    case False
    with rm m1 show ?thesis by (auto simp: upd_fde_def)
  qed
qed

lemma fdevent_install_more: "fdevent_install env a fd f arg st = Inr st' \<Longrightarrow> fdstate.more st' = fdstate.more st"
  by (auto simp: fdevent_install_def Let_def bindE_eq_Inr fdevent_register_def fdevent_connect_def fdevent_init_def upd_fde_def deref_eq_Inr split: if_splits)

lemma more_fields:
  assumes "fdstate.more st' = fdstate.more (st :: 'z sockst_scheme)"
  shows "socks st' = socks st" "slinks st' = slinks st" "dlinks st' = dlinks st" "sent st' = sent st"
    "wr_script st' = wr_script st" "rd_script st' = rd_script st" "wrote st' = wrote st" "fresh_payload st' = fresh_payload st"
    "local_socket_next_id st' = local_socket_next_id st" "sockst.more st' = sockst.more st"
  using assms by (cases st; cases st'; simp)+


lemma fd_ok_cong:
  assumes "fdstate.truncate st' = fdstate.truncate st"
  shows "fd_ok st' = fd_ok st"
proof -
  have "fdes st' = fdes st" "plinks st' = plinks st" "fd_table st' = fd_table st" "read_fds st' = read_fds st"
    "write_fds st' = write_fds st" "error_fds st' = error_fds st" "select_n st' = select_n st"
    using assms by (simp_all add: fdstate.defs)
  then show ?thesis by (simp add: fd_ok_def fd_inv_def)
qed

text \<open>Freeing an inactive event object.\<close>

lemma fd_inv_free:
  assumes "fd_inv st xs" "fdes st a = Some f" "\<not> active f" "\<not> pending f"
  shows "fd_inv (st\<lparr>fdes := (fdes st)(a := None)\<rparr>) xs"
proof -
  have w: "watch ((fdes st)(a := None)) k i = watch (fdes st) k i" for k i
    using assms(2,3) unfolding watch_def by (metis fun_upd_apply option.distinct(1) option.inject)
  have "sets_ok ((fdes st)(a := None)) (read_fds st) (write_fds st) (error_fds st)"
    using assms(1) by (simp add: fd_inv_def sets_ok_def w [abs_def])
  moreover have "table_ok ((fdes st)(a := None)) (fd_table st)"
  proof -
    have t: "table_ok (fdes st) (fd_table st)" using assms(1) by (simp add: fd_inv_def)
    have "fd_table st ! i \<noteq> a" if "i < length (fd_table st)" "fd_table st ! i \<noteq> NULL" for i
      using t that assms(2,3) unfolding table_ok_def by fastforce
    then show ?thesis using t by (auto simp: table_ok_def split: if_splits)
  qed
  moreover have "heap_ok ((fdes st)(a := None))" "pend_ok ((fdes st)(a := None)) (plinks st) xs"
    "select_ok ((fdes st)(a := None)) (fd_table st) (select_n st)"
    using assms by (auto simp: fd_inv_def heap_ok_def pend_ok_def select_ok_def)
  ultimately show ?thesis by (simp add: fd_inv_def)
qed

section \<open>Closing a socket without a peer\<close>

text \<open>What a close changes outside the sockets \<open>B\<close>: nothing but the descriptors and the packets sent.\<close>

definition untouched :: "addr set \<Rightarrow> 'z sockst_scheme \<Rightarrow> 'z sockst_scheme \<Rightarrow> bool" where
  "untouched B st st' \<longleftrightarrow>
     (\<forall>b. b \<notin> B \<longrightarrow> socks st' b = socks st b \<and> fdes st' b = fdes st b) \<and>
     fresh_payload st' = fresh_payload st \<and> rd_script st' = rd_script st \<and>
     local_socket_next_id st' = local_socket_next_id st \<and> sockst.more st' = sockst.more st"

lemma untouched_refl [simp, intro]: "untouched B st st"
  by (simp add: untouched_def)

lemma untouched_trans: "untouched B st st' \<Longrightarrow> untouched C st' st'' \<Longrightarrow> untouched (B \<union> C) st st''"
  by (simp add: untouched_def)

lemma untouched_mono: "untouched B st st' \<Longrightarrow> B \<subseteq> C \<Longrightarrow> untouched C st st'"
  unfolding untouched_def by blast

text \<open>The socket is freed, or waits on the closing list for its packets to be written.\<close>

definition closed_sock :: "addr \<Rightarrow> asocket \<Rightarrow> 'z sockst_scheme \<Rightarrow> bool" where
  "closed_sock a s st' \<longleftrightarrow>
     (if is_local s \<and> \<not> s_closing s \<and> s_pkts s \<noteq> [] then
        (\<exists>s'. socks st' a = Some s' \<and> is_local s' \<and> s_closing s' \<and> s_peer s' = NULL \<and> s_pkts s' = s_pkts s)
      else socks st' a = None \<and> fdes st' a = None)"

lemma local_fde:
  assumes "sock_inv T X st" "socks st a = Some s" "is_local s"
  obtains f where "fdes st a = Some f" "active f" "fde_fd f = s_fd s"
  using assms unfolding sock_inv_def kinds_ok_def by blast

lemma destroy_solo:
  assumes inv: "sock_inv T X st" and a: "socks st a = Some s" "is_local s" "s_peer s = NULL" "\<not> s_exit_on_close s"
  obtains st' where "local_socket_destroy a st = Inr st'" "sock_inv T X st'" "untouched {a} st st'"
    "socks st' = (socks st)(a := None)" "fdes st' a = None" "sent st' = sent st"
proof -
  obtain f where f: "fdes st a = Some f" "active f" by (rule local_fde [OF inv a(1,2)])
  obtain ps where "fd_inv st ps" using inv by (auto simp: sock_inv_def fd_ok_def)
  then obtain st1 where st1: "fdevent_remove a st = Inr st1" "fd_inv st1 (remove1 a ps)"
    "fdes st1 = (fdes st)(a \<mapsto> f\<lparr>fde_state := 0, fde_events := 0\<rparr>)"
    by (rule fdevent_remove_inv [OF _ f(1)])
  note m = more_fields [OF fdevent_more(1) [OF st1(1)]]
  have hf: "heads_free (socks st)" using inv by (simp add: sock_inv_def)
  obtain xs ys where l: "lists_ok (socks st) (slinks st) xs ys" using inv by (auto simp: sock_inv_def)
  note u = lists_ok_unlink [OF l hf a(1,2)]
  define st2 where "st2 = st1\<lparr>slinks := unlink_socket a (slinks st), socks := (socks st)(a \<mapsto> s\<lparr>s_id := 0\<rparr>)\<rparr>"
  have r: "remove_socket a st1 = Inr st2"
    using u(2) a(1) by (simp add: remove_socket_def m upd_sock_def set_sock_def st2_def)
  define st3 where "st3 = free_sock a st2"
  have "local_socket_destroy a st = Inr st3"
    using a st1(1) r by (simp add: local_socket_destroy_def st3_def)
  moreover have eq: "socks st3 = (socks st)(a := None)" "slinks st3 = unlink_socket a (slinks st)" "dlinks st3 = dlinks st"
    "fdes st3 = (fdes st)(a := None)" "sent st3 = sent st"
    by (simp_all add: st3_def free_sock_def st2_def m st1(3))
  moreover have "fd_ok st3"
  proof -
    have "fd_inv (st1\<lparr>fdes := (fdes st1)(a := None)\<rparr>) (remove1 a ps)"
      by (rule fd_inv_free [OF st1(2), where f = "f\<lparr>fde_state := 0, fde_events := 0\<rparr>"]) (simp_all add: st1(3))
    then show ?thesis by (auto simp: fd_ok_def fd_inv_def st3_def free_sock_def st2_def)
  qed
  moreover have "\<exists>D. discs_ok T (socks st3) (dlinks st3) D"
    using inv a discs_ok_free_other unfolding eq sock_inv_def by (metis is_local_def is_remote_def enqueue_fn.distinct(1))
  ultimately have "sock_inv T X st3"
    using inv u(1) a unfolding sock_inv_def eq
    by (auto intro: heads_free_free peers_ok_free kinds_ok_free)
  moreover have "untouched {a} st st3"
    using m eq by (simp add: untouched_def) (simp add: st3_def free_sock_def st2_def m)
  moreover have "fdes st3 a = None" by (simp add: eq)
  ultimately show thesis using that \<open>local_socket_destroy a st = Inr st3\<close> eq by blast
qed

lemma active_set_result [simp]:
  "active (set_result f (ev AND FDE_EVENTMASK)) = active f" "fde_fd (set_result f ev) = fde_fd f"
  by (simp_all add: set_result_props)

text \<open>\<open>fdevent_add\<close> and \<open>fdevent_del\<close> on the event object of a socket.\<close>

lemma fd_change:
  assumes inv: "fd_ok st" and f: "fdes st a = Some f" "active f"
    and op: "op = fdevent_add \<or> op = fdevent_del"
  obtains st' f' where "op a ev st = Inr st'" "fd_ok st'" "fdes st' = (fdes st)(a \<mapsto> f')" "active f'"
    "fde_fd f' = fde_fd f" "fdstate.more st' = fdstate.more st"
proof -
  obtain ps where ps: "fd_inv st ps" using inv by (auto simp: fd_ok_def)
  obtain e where e: "op a ev st = fdevent_set a e st"
    using op by (auto simp: fdevent_add_set [of st a f, OF f(1)] fdevent_del_set [of st a f, OF f(1)])
  obtain st' qs where st': "fdevent_set a e st = Inr st'" "fd_inv st' qs"
    "fdes st' = (fdes st)(a \<mapsto> (if fde_state f AND FDE_EVENTMASK = e AND FDE_EVENTMASK then f
                                  else set_result f (e AND FDE_EVENTMASK)))"
    by (rule fdevent_set_inv [OF ps f(1)])
  show thesis
    by (rule that [of st' "if fde_state f AND FDE_EVENTMASK = e AND FDE_EVENTMASK then f
                             else set_result f (e AND FDE_EVENTMASK)"])
       (use st' e f(2) in \<open>auto simp: fd_ok_def intro: fdevent_more(2)\<close>)
qed

lemma linger_solo:
  assumes inv: "sock_inv T X st" and a: "socks st a = Some s" "is_local s" "s_peer s = NULL" "\<not> s_closing s" "s_pkts s \<noteq> []"
  obtains st' s' where "local_socket_close_locked cl a st = Inr st'" "sock_inv T X st'" "untouched {a} st st'"
    "socks st' = (socks st)(a \<mapsto> s')" "is_local s'" "s_closing s'" "s_peer s' = NULL" "s_pkts s' = s_pkts s" "sent st' = sent st"
proof -
  obtain f where f: "fdes st a = Some f" "active f" "fde_fd f = s_fd s" by (rule local_fde [OF inv a(1,2)])
  have hf: "heads_free (socks st)" and fok: "fd_ok st" using inv by (simp_all add: sock_inv_def)
  obtain xs ys where l: "lists_ok (socks st) (slinks st) xs ys" using inv by (auto simp: sock_inv_def)
  define st1 where "st1 = st\<lparr>socks := (socks st)(a \<mapsto> s\<lparr>s_closing := True\<rparr>)\<rparr>"
  have "fd_ok st1" using fok by (simp add: fd_ok_def fd_inv_def st1_def)
  then obtain st2 f' where st2: "fdevent_del a FDE_READ st1 = Inr st2" "fd_ok st2" "fdes st2 = (fdes st)(a \<mapsto> f')"
    "active f'" "fde_fd f' = s_fd s" "fdstate.more st2 = fdstate.more st1"
    by (rule fd_change [where op = fdevent_del and a = a and f = f]) (use f in \<open>auto simp: st1_def\<close>)
  note m = more_fields [OF st2(6)]
  define s' where "s' = s\<lparr>s_closing := True, s_id := 0\<rparr>"
  define st3 where "st3 = st2\<lparr>slinks := insert_local_socket local_socket_closing_list a (unlink_socket a (slinks st)),
     socks := (socks st)(a \<mapsto> s')\<rparr>"
  have "remove_socket a st2 = Inr (st2\<lparr>slinks := unlink_socket a (slinks st), socks := (socks st)(a \<mapsto> s')\<rparr>)"
    using lists_ok_unlink(2) [OF l hf a(1,2)] by (simp add: remove_socket_def m upd_sock_def set_sock_def st1_def s'_def)
  then have "local_socket_close_locked cl a st = Inr st3"
    using a st2(1) by (simp add: local_socket_close_locked_def upd_sock_def set_sock_def st1_def [symmetric] st3_def)
  moreover have eq: "socks st3 = (socks st)(a \<mapsto> s')" "dlinks st3 = dlinks st" "fdes st3 = (fdes st)(a \<mapsto> f')"
    "slinks st3 = insert_local_socket local_socket_closing_list a (unlink_socket a (slinks st))" "sent st3 = sent st"
    by (simp_all add: st3_def m st1_def st2(3))
  moreover have s': "is_local s'" "s_closing s'" "s_peer s' = NULL" "s_pkts s' = s_pkts s" "s_fd s' = s_fd s"
    "is_remote s' = is_remote s" "s_transport s' = s_transport s"
    using a by (simp_all add: s'_def is_local_def is_remote_def)
  moreover have "sock_inv T X st3"
  proof -
    have "lists_ok ((socks st)(a \<mapsto> s')) (slinks st3) (remove1 a xs) (ys @ [a])"
      using lists_ok_to_closing [OF l hf a(1,2,4) s'(1,2)] by (simp add: eq)
    moreover have "kinds_ok ((socks st)(a \<mapsto> s')) ((fdes st)(a \<mapsto> f'))"
      using inv a st2(4,5) s' unfolding sock_inv_def kinds_ok_def
      by (auto simp: sock_kind_def is_local_def s'_def split: enqueue_fn.splits)
    moreover have "\<exists>D. discs_ok T ((socks st)(a \<mapsto> s')) (dlinks st) D"
      using inv discs_ok_upd [of T "socks st" "dlinks st" _ a s, OF _ a(1) s'(6,7)] unfolding sock_inv_def by blast
    moreover have "peers_ok X ((socks st)(a \<mapsto> s'))"
      using inv peers_ok_upd [of X "socks st" a s s'] a(1,3) s'(3) by (simp add: sock_inv_def)
    moreover have "fd_ok st3" using st2(2) by (simp add: fd_ok_def fd_inv_def st3_def)
    ultimately show ?thesis using heads_free_upd [of "socks st" a s s', OF hf a(1)] unfolding sock_inv_def eq(1-3) by blast
  qed
  moreover have "untouched {a} st st3" by (simp add: untouched_def eq) (simp add: st3_def m st1_def)
  ultimately show thesis using that by blast
qed

lemma local_close_solo:
  assumes inv: "sock_inv T X st" and a: "socks st a = Some s" "is_local s" "s_peer s = NULL" "\<not> s_exit_on_close s"
  shows "\<exists>st'. local_socket_close_locked cl a st = Inr st' \<and> sock_inv T X st' \<and> untouched {a} st st' \<and>
    closed_sock a s st' \<and> sent st' = sent st"
proof (cases "s_closing s \<or> s_pkts s = []")
  case True
  then have "local_socket_close_locked cl a st = local_socket_destroy a st"
    using a by (simp add: local_socket_close_locked_def)
  moreover obtain st' where "local_socket_destroy a st = Inr st'" "sock_inv T X st'" "untouched {a} st st'"
    "socks st' = (socks st)(a := None)" "fdes st' a = None" "sent st' = sent st" by (rule destroy_solo [OF inv a])
  ultimately show ?thesis using True by (auto simp: closed_sock_def)
next
  case False
  then have "\<not> s_closing s" "s_pkts s \<noteq> []" by auto
  from linger_solo [OF inv a(1-3) this, of cl] show ?thesis using False a(2)
    by (metis (no_types, lifting) closed_sock_def fun_upd_same)
qed

lemma free_other_solo:
  assumes inv: "sock_inv T X st" and a: "socks st a = Some s" "\<not> is_local s" "s_peer s = NULL"
    and dl: "dl = (if is_remote s then remove_transport_disconnect a (dlinks st) else dlinks st)"
  defines "st' \<equiv> free_sock a (st\<lparr>dlinks := dl\<rparr>)"
  shows "sock_inv T X st' \<and> untouched {a} st st' \<and> closed_sock a s st' \<and> sent st' = sent st"
proof -
  have "fdes st a = None" using inv a unfolding sock_inv_def kinds_ok_def by blast
  then have fd: "fdes st' = fdes st" "fdes st a = None" by (auto simp: st'_def free_sock_def)
  have eq: "socks st' = (socks st)(a := None)" "slinks st' = slinks st" "dlinks st' = dl" "sent st' = sent st"
    by (simp_all add: st'_def free_sock_def)
  obtain D where D: "discs_ok T (socks st) (dlinks st) D" using inv by (auto simp: sock_inv_def)
  have "\<exists>D. discs_ok T ((socks st)(a := None)) dl D"
    using discs_ok_free [OF D a(1)] discs_ok_free_other [OF D a(1)] by (cases "is_remote s") (auto simp: dl)
  moreover have "\<exists>xs ys. lists_ok ((socks st)(a := None)) (slinks st) xs ys"
    using inv a lists_ok_free_other unfolding sock_inv_def by metis
  moreover have "fd_ok st'" using inv fd by (simp add: sock_inv_def fd_ok_def fd_inv_def) (simp add: st'_def free_sock_def)
  moreover have "kinds_ok ((socks st)(a := None)) (fdes st)"
    using inv kinds_ok_free [of "socks st" "fdes st" a "fdes st a"] by (simp add: sock_inv_def)
  moreover have "peers_ok X ((socks st)(a := None))" "heads_free ((socks st)(a := None))"
    using inv a by (auto simp: sock_inv_def intro: peers_ok_free heads_free_free)
  ultimately have "sock_inv T X st'" unfolding sock_inv_def eq fd(1) by blast
  then show ?thesis using a(2) by (auto simp: untouched_def closed_sock_def eq fd) (simp_all add: st'_def free_sock_def)
qed

lemma sock_writex_frame [simp]:
  "socks (snd (sock_writex fd bs st)) = socks st" "fdes (snd (sock_writex fd bs st)) = fdes st"
  "slinks (snd (sock_writex fd bs st)) = slinks st" "dlinks (snd (sock_writex fd bs st)) = dlinks st"
  "sent (snd (sock_writex fd bs st)) = sent st" "fd_ok (snd (sock_writex fd bs st)) = fd_ok st"
  "fresh_payload (snd (sock_writex fd bs st)) = fresh_payload st" "rd_script (snd (sock_writex fd bs st)) = rd_script st"
  "local_socket_next_id (snd (sock_writex fd bs st)) = local_socket_next_id st"
  "sockst.more (snd (sock_writex fd bs st)) = sockst.more st"
  by (simp_all add: sock_writex_def fd_ok_def fd_inv_def split: option.splits prod.splits)

lemma sock_writex_inv [simp]: "sock_inv T X (snd (sock_writex fd bs st)) = sock_inv T X st"
  by (simp add: sock_inv_def)

lemma sendfailmsg_inv:
  "sock_inv T X (snd (sendfailmsg fd m st)) = sock_inv T X st \<and> untouched {} st (snd (sendfailmsg fd m st)) \<and>
   socks (snd (sendfailmsg fd m st)) = socks st \<and> sent (snd (sendfailmsg fd m st)) = sent st"
  by (simp add: sendfailmsg_def Let_def split_beta untouched_def)

lemma sock_inv_upd:
  assumes inv: "sock_inv T X st" and a: "socks st a = Some s"
    and s': "is_local s' = is_local s" "s_closing s' = s_closing s" "s_peer s' = s_peer s" "s_fd s' = s_fd s"
      "is_remote s' = is_remote s" "s_transport s' = s_transport s" "sock_kind s'"
  shows "sock_inv T X (set_sock a s' st)"
proof -
  have "\<exists>D. discs_ok T ((socks st)(a \<mapsto> s')) (dlinks st) D"
    using inv discs_ok_upd [of T "socks st" "dlinks st" _ a s s'] a s' unfolding sock_inv_def by blast
  moreover have "\<exists>xs ys. lists_ok ((socks st)(a \<mapsto> s')) (slinks st) xs ys"
    using inv lists_ok_upd [of "socks st" "slinks st" _ _ a s s'] a s' unfolding sock_inv_def by blast
  moreover have "fd_ok (set_sock a s' st) = fd_ok st" by (simp add: set_sock_def fd_ok_def fd_inv_def)
  ultimately show ?thesis
    using inv a s' kinds_ok_upd [of "socks st" "fdes st" a s s'] peers_ok_upd [of X "socks st" a s s'] heads_free_upd [of "socks st" a s s']
    unfolding sock_inv_def by (simp add: set_sock_def)
qed

lemma kind_of: "sock_inv T X st \<Longrightarrow> socks st a = Some s \<Longrightarrow> sock_kind s"
  unfolding sock_inv_def kinds_ok_def by blast

lemma kind_close:
  "sock_inv T X st \<Longrightarrow> socks st a = Some s \<Longrightarrow> s_close s \<noteq> Jdwp_socket_close \<and> s_close s \<noteq> Jdwp_tracker_close"
  by (drule (1) kind_of) (auto simp: sock_kind_def split: enqueue_fn.splits)

lemma socket_close_solo:
  assumes inv: "sock_inv T X st" and a: "socks st a = Some s" "s_peer s = NULL" "\<not> s_exit_on_close s"
  shows "\<exists>st'. socket_close (Suc (Suc n)) a st = Inr st' \<and> sock_inv T X st' \<and> untouched {a} st st' \<and>
    closed_sock a s st' \<and> sent st' = sent st"
proof (cases "s_close s")
  case Local_socket_close
  then have "is_local s" using kind_of [OF inv a(1)] by (auto simp: sock_kind_def is_local_def split: enqueue_fn.splits)
  from local_close_solo [OF inv a(1) this a(2,3)] Local_socket_close show ?thesis by (simp add: a)
next
  case Local_socket_close_notify
  have loc: "is_local s" using kind_of [OF inv a(1)] Local_socket_close_notify
    by (auto simp: sock_kind_def is_local_def split: enqueue_fn.splits)
  define s1 where "s1 = s\<lparr>s_ready := Local_socket_ready, s_shutdown := No_shutdown, s_close := Local_socket_close\<rparr>"
  define st1 where "st1 = snd (sendfailmsg (s_fd s) ''closed'' (set_sock a s1 st))"
  have "sock_inv T X (set_sock a s1 st)"
    by (rule sock_inv_upd [OF inv a(1)]) (use loc a kind_of [OF inv a(1)] in \<open>auto simp: s1_def is_local_def is_remote_def sock_kind_def\<close>)
  with sendfailmsg_inv [where st = "set_sock a s1 st" and T = T and X = X]
  have st1: "sock_inv T X st1" "untouched {} (set_sock a s1 st) st1" "socks st1 = (socks st)(a \<mapsto> s1)" "sent st1 = sent st"
    by (simp_all add: st1_def set_sock_def)
  have s1: "is_local s1" "s_peer s1 = NULL" "\<not> s_exit_on_close s1" using loc a by (simp_all add: s1_def is_local_def)
  have "local_socket_close_notify (socket_close (Suc n)) a st = socket_close (Suc n) a st1"
  proof -
    have fd: "s_fd s1 = s_fd s" by (simp add: s1_def)
    have "upd_sock a (\<lambda>s. s\<lparr>s_ready := Local_socket_ready, s_shutdown := No_shutdown, s_close := Local_socket_close\<rparr>) st
        = Inr (set_sock a s1 st)"
      by (simp add: upd_sock_def a(1) s1_def)
    moreover have "socks (set_sock a s1 st) a = Some s1" by (simp add: set_sock_def)
    ultimately show ?thesis unfolding local_socket_close_notify_def st1_def
      by (simp only: bindE_Inr deref_Some fd)
  qed
  moreover have "s_close s1 = Local_socket_close" by (simp add: s1_def)
  ultimately have "socket_close (Suc (Suc n)) a st = local_socket_close_locked (socket_close n) a st1"
    using a(1) Local_socket_close_notify st1(3) by simp
  moreover from local_close_solo [OF st1(1) _ s1, of a "socket_close n"] st1(3) obtain st'
    where "local_socket_close_locked (socket_close n) a st1 = Inr st'" "sock_inv T X st'" "untouched {a} st1 st'"
      "closed_sock a s1 st'" "sent st' = sent st1" by auto
  moreover have "untouched {a} st st1" using st1(2) by (simp add: untouched_def set_sock_def)
  ultimately show ?thesis
    using st1(4) untouched_trans [of "{a}" st st1 "{a}" st'] loc by (auto simp: closed_sock_def s1_def is_local_def)
next
  case Remote_socket_close
  then have "\<not> is_local s" "is_remote s" using kind_of [OF inv a(1)]
    by (auto simp: sock_kind_def is_local_def is_remote_def split: enqueue_fn.splits)
  with free_other_solo [OF inv a(1) _ a(2) refl] Remote_socket_close show ?thesis
    by (simp add: a remote_socket_close_def)
next
  case Smart_socket_close
  then have "\<not> is_local s" "\<not> is_remote s" using kind_of [OF inv a(1)]
    by (auto simp: sock_kind_def is_local_def is_remote_def split: enqueue_fn.splits)
  with free_other_solo [OF inv a(1) _ a(2) refl] Smart_socket_close show ?thesis
    by (simp add: a smart_socket_close_def)
qed (use kind_close [OF inv a(1)] in auto)

section \<open>Closing a socket and its peer\<close>

lemma peers_ok_forget:
  assumes p: "peers_ok X h" and a: "h a = Some s" "a \<notin> X" "s_peer s \<noteq> NULL" and q: "h (s_peer s) = Some q"
  shows "peers_ok (insert a X) (h(s_peer s \<mapsto> q\<lparr>s_peer := NULL\<rparr>))"
  unfolding peers_ok_def
proof (intro allI impI)
  fix b t assume "(h(s_peer s \<mapsto> q\<lparr>s_peer := NULL\<rparr>)) b = Some t \<and> b \<notin> insert a X \<and> s_peer t \<noteq> NULL"
  then have b: "h b = Some t" "b \<noteq> a" "b \<notin> X" "s_peer t \<noteq> NULL" by (auto split: if_splits)
  from peers_okD [OF p b(1,3,4)] obtain r where r: "s_peer t \<noteq> b" "h (s_peer t) = Some r" "s_peer r = b" by blast
  have "s_peer q = a" using peers_okD [OF p a] q by auto
  then have "s_peer t \<noteq> s_peer s" using r q b(2) by auto
  then show "s_peer t \<noteq> b \<and> (\<exists>r. (h(s_peer s \<mapsto> q\<lparr>s_peer := NULL\<rparr>)) (s_peer t) = Some r \<and> s_peer r = b)"
    using r by simp
qed

lemma peers_ok_settle:
  assumes p: "peers_ok (insert a X) h" and a: "h a = Some s" and hf: "heads_free h"
    and gone: "h (s_peer s) = None \<or> (\<exists>q. h (s_peer s) = Some q \<and> s_peer q = NULL)"
  shows "peers_ok X (h(a \<mapsto> s\<lparr>s_peer := NULL\<rparr>))"
  unfolding peers_ok_def
proof (intro allI impI)
  fix b t assume "(h(a \<mapsto> s\<lparr>s_peer := NULL\<rparr>)) b = Some t \<and> b \<notin> X \<and> s_peer t \<noteq> NULL"
  then have b: "h b = Some t" "b \<noteq> a" "b \<notin> insert a X" "s_peer t \<noteq> NULL" by (auto split: if_splits)
  from peers_okD [OF p b(1,3,4)] obtain r where r: "s_peer t \<noteq> b" "h (s_peer t) = Some r" "s_peer r = b" by blast
  have "s_peer t \<noteq> a" using r a gone b(1,4) by auto
  then show "s_peer t \<noteq> b \<and> (\<exists>r. (h(a \<mapsto> s\<lparr>s_peer := NULL\<rparr>)) (s_peer t) = Some r \<and> s_peer r = b)" using r by simp
qed

text \<open>An update of the peer field alone.\<close>

lemma sock_inv_peer:
  assumes inv: "sock_inv T X st" and a: "socks st a = Some s" and p: "peers_ok Y ((socks st)(a \<mapsto> s\<lparr>s_peer := NULL\<rparr>))"
  shows "sock_inv T Y (set_sock a (s\<lparr>s_peer := NULL\<rparr>) st)"
proof -
  let ?s = "s\<lparr>s_peer := NULL\<rparr>"
  have k: "is_local ?s = is_local s" "is_remote ?s = is_remote s" "sock_kind ?s"
    using kind_of [OF inv a] by (auto simp: is_local_def is_remote_def sock_kind_def split: enqueue_fn.splits)
  have "\<exists>D. discs_ok T ((socks st)(a \<mapsto> ?s)) (dlinks st) D"
    using inv discs_ok_upd [of T "socks st" "dlinks st" _ a s ?s] a k unfolding sock_inv_def by auto
  moreover have "\<exists>xs ys. lists_ok ((socks st)(a \<mapsto> ?s)) (slinks st) xs ys"
    using inv lists_ok_upd [of "socks st" "slinks st" _ _ a s ?s] a k unfolding sock_inv_def by auto
  moreover have "fd_ok (set_sock a ?s st) = fd_ok st" by (simp add: set_sock_def fd_ok_def fd_inv_def)
  ultimately show ?thesis
    using inv a k p kinds_ok_upd [of "socks st" "fdes st" a s ?s] heads_free_upd [of "socks st" a s ?s]
    unfolding sock_inv_def by (simp add: set_sock_def)
qed

lemma closed_sock_cong:
  "is_local s' = is_local s \<Longrightarrow> s_closing s' = s_closing s \<Longrightarrow> s_pkts s' = s_pkts s \<Longrightarrow>
   closed_sock a s' st = closed_sock a s st"
  by (simp add: closed_sock_def)

lemma closed_sock_peerless:
  "closed_sock a s st \<Longrightarrow> socks st a = None \<or> (\<exists>q. socks st a = Some q \<and> s_peer q = NULL)"
  by (auto simp: closed_sock_def split: if_splits)

text \<open>The packet that \<open>remote_socket_shutdown\<close> sends.\<close>

definition close_packet :: "u32 \<Rightarrow> u32 \<Rightarrow> byte list \<Rightarrow> apacket" where
  "close_packet local_id remote_id payload =
     (get_apacket payload)\<lparr>pmsg := zero_msg\<lparr>command := A_CLSE, arg0 := local_id, arg1 := remote_id,
        magic := A_CLSE XOR 0xffffffff\<rparr>\<rparr>"

lemma remote_shutdown_eq:
  assumes "socks st p = Some q" "s_transport q \<noteq> NULL" "s_peer q = a" "socks st a = Some s" "a \<noteq> NULL"
  shows "remote_socket_shutdown p st =
    Inr (st\<lparr>sent := sent st @ [(s_transport q, close_packet (s_id s) (s_id q) (fresh_payload st))]\<rparr>)"
  using assms by (simp add: remote_socket_shutdown_def send_packet_def seal_packet_def payload_sum_def
      get_apacket_def zero_msg_def close_packet_def)

text \<open>
  The peer of \<open>a\<close> is cut off and closed (\<open>st0\<close> is the state before, perhaps with a packet more in \<open>sent\<close>),
  then \<open>a\<close> forgets it.
\<close>

lemma close_peer:
  assumes inv: "sock_inv T X st" and a: "socks st a = Some s" "a \<notin> X" "s_peer s \<noteq> NULL"
    and q: "socks st (s_peer s) = Some q" "\<not> s_exit_on_close q"
  defines "st1 \<equiv> set_sock (s_peer s) (q\<lparr>s_peer := NULL\<rparr>) st"
  shows "\<exists>st2. socket_close (Suc (Suc n)) (s_peer s) st1 = Inr st2 \<and> untouched {s_peer s} st st2 \<and>
    closed_sock (s_peer s) q st2 \<and> sent st2 = sent st \<and> socks st2 a = Some s \<and>
    sock_inv T X (set_sock a (s\<lparr>s_peer := NULL\<rparr>) st2)"
proof -
  have hp: "peers_ok X (socks st)" "heads_free (socks st)" using inv by (simp_all add: sock_inv_def)
  have "sock_inv T (insert a X) st1"
    unfolding st1_def by (rule sock_inv_peer [OF inv q(1)]) (rule peers_ok_forget [OF hp(1) a q(1)])
  moreover have "socks st1 (s_peer s) = Some (q\<lparr>s_peer := NULL\<rparr>)" by (simp add: st1_def set_sock_def)
  ultimately obtain st2 where st2: "socket_close (Suc (Suc n)) (s_peer s) st1 = Inr st2" "sock_inv T (insert a X) st2"
    "untouched {s_peer s} st1 st2" "closed_sock (s_peer s) (q\<lparr>s_peer := NULL\<rparr>) st2" "sent st2 = sent st1"
    using socket_close_solo [of T "insert a X" st1 "s_peer s" "q\<lparr>s_peer := NULL\<rparr>" n] q(2) by auto
  have ne: "s_peer s \<noteq> a" using peers_okD [OF hp(1) a] by blast
  have a2: "socks st2 a = Some s" using st2(3) ne a(1) by (simp add: untouched_def st1_def set_sock_def)
  have c: "closed_sock (s_peer s) q st2" using st2(4) closed_sock_cong [of "q\<lparr>s_peer := NULL\<rparr>" q "s_peer s" st2] by (simp add: is_local_def)
  have "peers_ok X ((socks st2)(a \<mapsto> s\<lparr>s_peer := NULL\<rparr>))"
    by (rule peers_ok_settle [OF _ a2 _ closed_sock_peerless [OF c]]) (use st2(2) in \<open>simp_all add: sock_inv_def\<close>)
  from sock_inv_peer [OF st2(2) a2 this] st2 a2 c show ?thesis
    by (auto simp: st1_def set_sock_def untouched_def)
qed


text \<open>What closing \<open>a\<close> sends: a \<open>CLSE\<close> to the peer of a local socket, if the peer is remote.\<close>

definition close_msgs :: "asocket \<Rightarrow> asocket \<Rightarrow> byte list \<Rightarrow> (addr \<times> apacket) list" where
  "close_msgs s q payload =
     (if is_local s \<and> is_remote q then [(s_transport q, close_packet (s_id s) (s_id q) payload)] else [])"

lemma untouched_sent [simp]: "untouched B (st\<lparr>sent := m\<rparr>) st' = untouched B st st'"
  by (simp add: untouched_def)

lemma untouched_set: "untouched B (set_sock a s st) st' \<Longrightarrow> a \<in> B \<Longrightarrow> untouched B st st'"
  by (auto simp: untouched_def set_sock_def)

lemma sock_inv_sent [simp]: "sock_inv T X (st\<lparr>sent := m\<rparr>) = sock_inv T X st"
  by (simp add: sock_inv_def fd_ok_def fd_inv_def)

lemma local_close_full:
  assumes inv: "sock_inv T X st" and a: "socks st a = Some s" "a \<notin> X" "s_peer s \<noteq> NULL" "is_local s" "\<not> s_exit_on_close s"
    and q: "socks st (s_peer s) = Some q" "\<not> s_exit_on_close q"
  shows "\<exists>st'. local_socket_close_locked (socket_close (Suc (Suc n))) a st = Inr st' \<and> sock_inv T X st' \<and>
    untouched {a, s_peer s} st st' \<and> closed_sock a s st' \<and> closed_sock (s_peer s) q st' \<and>
    sent st' = sent st @ close_msgs s q (fresh_payload st)"
proof -
  let ?p = "s_peer s"
  have pq: "s_peer q = a" "?p \<noteq> a" using inv peers_okD [of X "socks st" a s] a q(1) by (auto simp: sock_inv_def)
  have an: "a \<noteq> NULL" using inv a(1) by (cases "a = 0") (auto simp: sock_inv_def heads_free_def)
  have k: "sock_kind q" by (rule kind_of [OF inv q(1)])
  define st0 where "st0 = st\<lparr>sent := sent st @ close_msgs s q (fresh_payload st)\<rparr>"
  have sd: "(case s_shutdown q of No_shutdown \<Rightarrow> Inr st | Remote_socket_shutdown \<Rightarrow> remote_socket_shutdown ?p st) = Inr st0"
  proof (cases "is_remote q")
    case True
    then have "s_shutdown q = Remote_socket_shutdown" "s_transport q \<noteq> NULL"
      using k by (auto simp: sock_kind_def is_remote_def)
    then show ?thesis using remote_shutdown_eq [OF q(1) _ pq(1) a(1) an] True a(4)
      by (simp add: st0_def close_msgs_def)
  next
    case False
    then have "s_shutdown q = No_shutdown" using k by (auto simp: sock_kind_def is_remote_def split: enqueue_fn.splits)
    then show ?thesis using False by (simp add: st0_def close_msgs_def)
  qed
  have st0: "sock_inv T X st0" "socks st0 = socks st" using inv by (simp_all add: st0_def)
  obtain st2 where st2: "socket_close (Suc (Suc n)) ?p (set_sock ?p (q\<lparr>s_peer := NULL\<rparr>) st0) = Inr st2" "untouched {?p} st0 st2"
    "closed_sock ?p q st2" "sent st2 = sent st0" "socks st2 a = Some s" "sock_inv T X (set_sock a (s\<lparr>s_peer := NULL\<rparr>) st2)"
    using close_peer [OF st0(1), of a s q n] a q st0(2) by auto
  define st3 where "st3 = set_sock a (s\<lparr>s_peer := NULL\<rparr>) st2"
  have cp: "close_peer_of (socket_close (Suc (Suc n))) a st = Inr st3"
  proof -
    have u1: "upd_sock ?p (\<lambda>q. q\<lparr>s_peer := NULL\<rparr>) st0 = Inr (set_sock ?p (q\<lparr>s_peer := NULL\<rparr>) st0)"
      using q(1) st0(2) by (simp add: upd_sock_def)
    have u2: "upd_sock a (\<lambda>s. s\<lparr>s_peer := NULL\<rparr>) st2 = Inr st3" using st2(5) by (simp add: upd_sock_def st3_def)
    have h: "socks (set_sock ?p (q\<lparr>s_peer := NULL\<rparr>) st0) a = Some s" using a(1) pq(2) st0(2) by (simp add: set_sock_def)
    show ?thesis unfolding close_peer_of_def
      by (simp only: deref_Some [of "socks st" a s, OF a(1)] deref_Some [of "socks st" ?p q, OF q(1)] bindE_Inr sd u1
          deref_Some [of "socks (set_sock ?p (q\<lparr>s_peer := NULL\<rparr>) st0)" a s, OF h] st2(1) u2)
  qed
  define s3 where "s3 = s\<lparr>s_peer := NULL\<rparr>"
  have s3: "socks st3 a = Some s3" "is_local s3" "s_peer s3 = NULL" "\<not> s_exit_on_close s3"
    using a by (simp_all add: st3_def set_sock_def s3_def is_local_def)
  have "local_socket_close_locked (socket_close (Suc (Suc n))) a st
      = local_socket_close_locked (socket_close (Suc (Suc n))) a st3"
    using a(1,3) cp s3(1,3) by (simp add: local_socket_close_locked_def)
  moreover obtain st' where st': "local_socket_close_locked (socket_close (Suc (Suc n))) a st3 = Inr st'" "sock_inv T X st'"
    "untouched {a} st3 st'" "closed_sock a s3 st'" "sent st' = sent st3"
    using local_close_solo [OF st2(6) [folded st3_def] s3] by blast
  moreover have "untouched {a, ?p} st st'"
  proof -
    have "untouched {a} st2 st'" using untouched_set [of "{a}" a "s\<lparr>s_peer := NULL\<rparr>" st2 st'] st'(3) by (simp add: st3_def)
    from untouched_trans [OF st2(2) this] show ?thesis by (simp add: st0_def insert_commute)
  qed
  moreover have "closed_sock ?p q st'"
    using st2(3) st'(3) pq(2) by (simp add: closed_sock_def untouched_def st3_def set_sock_def)
  moreover have "closed_sock a s st'"
    using st'(4) closed_sock_cong [of s3 s a st'] by (simp add: s3_def is_local_def)
  ultimately show ?thesis using st2(4) by (auto simp: st3_def st0_def set_sock_def)
qed


lemma other_close_full:
  assumes inv: "sock_inv T X st" and a: "socks st a = Some s" "a \<notin> X" "s_peer s \<noteq> NULL" "\<not> is_local s"
    and q: "socks st (s_peer s) = Some q" "\<not> s_exit_on_close q"
  shows "\<exists>st'. (if is_remote s then remote_socket_close else smart_socket_close) (socket_close (Suc (Suc n))) a st = Inr st' \<and>
    sock_inv T X st' \<and> untouched {a, s_peer s} st st' \<and> closed_sock a s st' \<and> closed_sock (s_peer s) q st' \<and>
    sent st' = sent st @ close_msgs s q (fresh_payload st)"
proof -
  let ?p = "s_peer s"
  have pq: "?p \<noteq> a" using inv peers_okD [of X "socks st" a s] a q(1) by (auto simp: sock_inv_def)
  obtain st2 where st2: "socket_close (Suc (Suc n)) ?p (set_sock ?p (q\<lparr>s_peer := NULL\<rparr>) st) = Inr st2" "untouched {?p} st st2"
    "closed_sock ?p q st2" "sent st2 = sent st" "socks st2 a = Some s" "sock_inv T X (set_sock a (s\<lparr>s_peer := NULL\<rparr>) st2)"
    using close_peer [OF inv a(1-3) q] by blast
  define s3 where "s3 = s\<lparr>s_peer := NULL\<rparr>"
  define st3 where "st3 = set_sock a s3 st2"
  define dl where "dl = (if is_remote s3 then remove_transport_disconnect a (dlinks st3) else dlinks st3)"
  define st' where "st' = free_sock a (st3\<lparr>dlinks := dl\<rparr>)"
  have s3: "is_local s3 = is_local s" "is_remote s3 = is_remote s" by (simp_all add: s3_def is_local_def is_remote_def)
  have h: "socks (set_sock ?p (q\<lparr>s_peer := NULL\<rparr>) st) a = Some s" using a(1) pq by (simp add: set_sock_def)
  have u1: "upd_sock ?p (\<lambda>q. q\<lparr>s_peer := NULL\<rparr>) st = Inr (set_sock ?p (q\<lparr>s_peer := NULL\<rparr>) st)"
    using q(1) by (simp add: upd_sock_def)
  have u2: "upd_sock a (\<lambda>s. s\<lparr>s_peer := NULL\<rparr>) st2 = Inr st3" using st2(5) by (simp add: upd_sock_def st3_def s3_def)
  note steps = deref_Some [of "socks st" a s, OF a(1)] deref_Some [of "socks (set_sock ?p (q\<lparr>s_peer := NULL\<rparr>) st)" a s, OF h]
    deref_Some [of "socks st2" a s, OF st2(5)] u1 u2 st2(1) bindE_Inr
  have free: "free_sock a (st2\<lparr>dlinks := d\<rparr>) = free_sock a (st3\<lparr>dlinks := d\<rparr>)" for d
    by (simp add: free_sock_def st3_def set_sock_def)
  have run: "(if is_remote s then remote_socket_close else smart_socket_close) (socket_close (Suc (Suc n))) a st = Inr st'"
  proof (cases "is_remote s")
    case True
    have "remote_socket_close (socket_close (Suc (Suc n))) a st
        = Inr (free_sock a (st2\<lparr>dlinks := remove_transport_disconnect a (dlinks st2)\<rparr>))"
      using a(3) by (simp add: remote_socket_close_def steps del: socket_close.simps)
    moreover have "dl = remove_transport_disconnect a (dlinks st2)" using True by (simp add: dl_def s3 st3_def set_sock_def)
    ultimately show ?thesis using True free by (simp add: st'_def)
  next
    case False
    have "socks st3 a = Some s3" by (simp add: st3_def set_sock_def)
    with False show ?thesis using a(3)
      by (simp add: smart_socket_close_def steps st'_def dl_def s3 del: socket_close.simps)
  qed
  have c: "sock_inv T X st' \<and> untouched {a} st3 st' \<and> closed_sock a s3 st' \<and> sent st' = sent st3"
    unfolding st'_def
    by (rule free_other_solo [where s = s3]) (use st2(6) a(4) s3 in \<open>simp_all add: st3_def s3_def set_sock_def dl_def\<close>)
  have "untouched {a} st2 st'" using c untouched_set [of "{a}" a s3 st2 st'] by (simp add: st3_def)
  from untouched_trans [OF st2(2) this] have "untouched {a, ?p} st st'" by (simp add: insert_commute)
  moreover have "closed_sock ?p q st'"
    using st2(3) c pq by (simp add: closed_sock_def untouched_def st3_def set_sock_def)
  moreover have "closed_sock a s st'" using c closed_sock_cong [of s3 s a st'] by (simp add: s3_def is_local_def)
  ultimately show ?thesis using run c st2(4) a(4) by (auto simp: st3_def set_sock_def close_msgs_def)
qed

lemma socket_close_full:
  assumes inv: "sock_inv T X st" and a: "socks st a = Some s" "a \<notin> X" "s_peer s \<noteq> NULL" "\<not> s_exit_on_close s"
    and q: "socks st (s_peer s) = Some q" "\<not> s_exit_on_close q"
  shows "\<exists>st'. socket_close (Suc (Suc (Suc (Suc n)))) a st = Inr st' \<and> sock_inv T X st' \<and>
    untouched {a, s_peer s} st st' \<and> closed_sock a s st' \<and> closed_sock (s_peer s) q st' \<and>
    sent st' = sent st @ close_msgs s q (fresh_payload st)"
proof (cases "s_close s")
  case Local_socket_close
  then have "is_local s" using kind_of [OF inv a(1)] by (auto simp: sock_kind_def is_local_def split: enqueue_fn.splits)
  from local_close_full [OF inv a(1-3) this a(4) q, of "Suc n"] Local_socket_close show ?thesis by (simp add: a)
next
  case Local_socket_close_notify
  have loc: "is_local s" using kind_of [OF inv a(1)] Local_socket_close_notify
    by (auto simp: sock_kind_def is_local_def split: enqueue_fn.splits)
  have pa: "s_peer s \<noteq> a" using inv peers_okD [of X "socks st" a s] a by (auto simp: sock_inv_def)
  define s1 where "s1 = s\<lparr>s_ready := Local_socket_ready, s_shutdown := No_shutdown, s_close := Local_socket_close\<rparr>"
  define st1 where "st1 = snd (sendfailmsg (s_fd s) ''closed'' (set_sock a s1 st))"
  have "sock_inv T X (set_sock a s1 st)"
    by (rule sock_inv_upd [OF inv a(1)]) (use loc a kind_of [OF inv a(1)] in \<open>auto simp: s1_def is_local_def is_remote_def sock_kind_def\<close>)
  with sendfailmsg_inv [where st = "set_sock a s1 st" and T = T and X = X]
  have st1: "sock_inv T X st1" "untouched {} (set_sock a s1 st) st1" "socks st1 = (socks st)(a \<mapsto> s1)" "sent st1 = sent st"
    by (simp_all add: st1_def set_sock_def)
  have s1: "s_peer s1 = s_peer s" "is_local s1" "\<not> s_exit_on_close s1" "s_id s1 = s_id s" using loc a by (simp_all add: s1_def is_local_def)
  have eq: "socket_close (Suc (Suc (Suc (Suc n)))) a st = local_socket_close_locked (socket_close (Suc (Suc n))) a st1"
  proof -
    have fd: "s_fd s1 = s_fd s" "s_close s1 = Local_socket_close" by (simp_all add: s1_def)
    have "upd_sock a (\<lambda>s. s\<lparr>s_ready := Local_socket_ready, s_shutdown := No_shutdown, s_close := Local_socket_close\<rparr>) st
        = Inr (set_sock a s1 st)"
      by (simp add: upd_sock_def a(1) s1_def)
    moreover have "socks (set_sock a s1 st) a = Some s1" by (simp add: set_sock_def)
    ultimately have "local_socket_close_notify (socket_close (Suc (Suc (Suc n)))) a st = socket_close (Suc (Suc (Suc n))) a st1"
      unfolding local_socket_close_notify_def st1_def by (simp only: bindE_Inr deref_Some fd)
    with a(1) Local_socket_close_notify st1(3) fd show ?thesis by simp
  qed
  have q1: "socks st1 (s_peer s1) = Some q" using q(1) pa st1(3) s1(1) by simp
  obtain st' where st': "local_socket_close_locked (socket_close (Suc (Suc n))) a st1 = Inr st'" "sock_inv T X st'"
    "untouched {a, s_peer s} st1 st'" "closed_sock a s1 st'" "closed_sock (s_peer s) q st'"
    "sent st' = sent st1 @ close_msgs s1 q (fresh_payload st1)"
    using local_close_full [OF st1(1) _ a(2) _ s1(2,3) q1 q(2), of n] st1(3) s1(1) a(3) by auto
  have "untouched {a} st st1" using st1(2) by (simp add: untouched_def set_sock_def)
  from untouched_trans [OF this st'(3)] have "untouched {a, s_peer s} st st'" by (rule untouched_mono) simp
  moreover have "closed_sock a s st'"
    using st'(4) closed_sock_cong [of s1 s a st'] by (simp add: s1_def is_local_def)
  moreover have "sent st' = sent st @ close_msgs s q (fresh_payload st)"
    using st'(6) st1(2,4) s1(2,4) loc by (simp add: close_msgs_def untouched_def set_sock_def)
  ultimately show ?thesis using eq st'(1,2,5) by auto
next
  case Remote_socket_close
  then have "\<not> is_local s" "is_remote s" using kind_of [OF inv a(1)]
    by (auto simp: sock_kind_def is_local_def is_remote_def split: enqueue_fn.splits)
  with other_close_full [OF inv a(1-3) _ q, of "Suc n"] Remote_socket_close show ?thesis by (simp add: a)
next
  case Smart_socket_close
  then have "\<not> is_local s" "\<not> is_remote s" using kind_of [OF inv a(1)]
    by (auto simp: sock_kind_def is_local_def is_remote_def split: enqueue_fn.splits)
  with other_close_full [OF inv a(1-3) _ q, of "Suc n"] Smart_socket_close show ?thesis by (simp add: a)
qed (use kind_close [OF inv a(1)] in auto)

end
