(* ===== verification/Listeners.thy ===== *)
theory Listeners
  imports Sockets_Inv
begin

text \<open>
  The listeners of \<open>adb.cpp\<close>: sockets that wait for connections to forward (or for requests to the server itself, the listener
  of \<open>*smartsocket*\<close>). A listener, its event object and its node in the list of a transport's disconnect callbacks share
  one address. \<open>server_fd\<close> is the descriptor that \<open>local_name_to_fd\<close> gets for a name (negative when it cannot bind).
\<close>

record alistener =
  l_fd :: int
  local_name :: string
  connect_to :: string
  l_transport :: addr

record lsnst = sockst +
  listeners :: "addr \<Rightarrow> alistener option"
  llinks :: links

definition listener_list :: addr where "listener_list = 6"

abbreviation listener_at :: "'z lsnst_scheme \<Rightarrow> addr \<Rightarrow> alistener outcome" where
  "listener_at st l \<equiv> deref ''alistener'' (listeners st) l"

section \<open>Connections\<close>

text \<open>\<open>fd\<close> is what \<open>adb_socket_accept\<close> returns; \<open>new\<close> and \<open>new2\<close> are the addresses of the sockets.\<close>

definition ss_listener_event_func :: "fdenv \<Rightarrow> int \<Rightarrow> addr \<Rightarrow> addr \<Rightarrow> u16 \<Rightarrow> 'z lsnst_scheme \<Rightarrow> 'z lsnst_scheme outcome" where
  "ss_listener_event_func env fd new new2 ev st =
     (if \<not> has ev FDE_READ then Inr st
      else if fd < 0 then Inr st
      else bindE (create_local_socket env new fd st) (\<lambda>(s, st).
        if s \<noteq> NULL then connect_to_smartsocket new2 s st else Inr (st\<lparr>closed_fds := closed_fds st @ [fd]\<rparr>)))"

definition listener_event_func :: "fdenv \<Rightarrow> int \<Rightarrow> addr \<Rightarrow> addr \<Rightarrow> u16 \<Rightarrow> 'z lsnst_scheme \<Rightarrow> 'z lsnst_scheme outcome" where
  "listener_event_func env fd new l ev st =
     (if \<not> has ev FDE_READ then Inr st
      else if fd < 0 then Inr st
      else bindE (create_local_socket env new fd st) (\<lambda>(s, st).
        if s \<noteq> NULL then
          bindE (listener_at st l) (\<lambda>x.
          bindE (upd_sock s (\<lambda>q. q\<lparr>s_transport := l_transport x\<rparr>) st) (\<lambda>st.
            connect_to_remote s (connect_to x) st))
        else Inr (st\<lparr>closed_fds := closed_fds st @ [fd]\<rparr>)))"

section \<open>Removing listeners\<close>

definition unlink_listener :: "addr \<Rightarrow> links \<Rightarrow> links" where
  "unlink_listener l h =
     (let h = set_prv (nxt h l) (prv h l) h;
          h = set_nxt (prv h l) (nxt h l) h;
          h = set_prv l l h
      in set_nxt l l h)"

definition free_listener :: "addr \<Rightarrow> 'z lsnst_scheme \<Rightarrow> 'z lsnst_scheme outcome" where
  "free_listener l st =
     bindE (listener_at st l) (\<lambda>x.
     let st = (if nxt (llinks st) l \<noteq> NULL then st\<lparr>llinks := unlink_listener l (llinks st)\<rparr> else st) in
     bindE (fdevent_remove l st) (\<lambda>st.
       let st = (if l_transport x \<noteq> NULL then st\<lparr>dlinks := remove_transport_disconnect l (dlinks st)\<rparr> else st)
       in Inr (st\<lparr>listeners := (listeners st)(l := None), fdes := (fdes st)(l := None)\<rparr>)))"

definition listener_disconnect :: "addr \<Rightarrow> 'z lsnst_scheme \<Rightarrow> 'z lsnst_scheme outcome" where
  "listener_disconnect l st = free_listener l st"

fun find_name :: "string \<Rightarrow> 'z lsnst_scheme \<Rightarrow> addr list \<Rightarrow> addr outcome" where
  "find_name name st [] = Inr NULL"
| "find_name name st (l # ls) =
     bindE (listener_at st l) (\<lambda>x. if local_name x = name then Inr l else find_name name st ls)"

text \<open>\<open>remove_listener\<close>: 0 or -1. \<open>None\<close>: the list does not come back to its head.\<close>

definition remove_listener :: "string \<Rightarrow> 'z lsnst_scheme \<Rightarrow> (int \<times> 'z lsnst_scheme) outcome option" where
  "remove_listener name st =
     map_option (\<lambda>ls. bindE (find_name name st ls) (\<lambda>l.
         if l = NULL then Inr (- 1, st) else bindE (listener_disconnect l st) (\<lambda>st. Inr (0, st))))
       (ring_nodes (llinks st) listener_list)"

text \<open>The loop of \<open>remove_all_listeners\<close>: the next listener is read before the current one is freed. The first character of an empty
  name is the NUL that ends it.\<close>

definition is_special :: "alistener \<Rightarrow> bool" where
  "is_special x \<longleftrightarrow> connect_to x \<noteq> [] \<and> hd (connect_to x) = CHR ''*''"

fun remove_listeners :: "addr list \<Rightarrow> 'z lsnst_scheme \<Rightarrow> 'z lsnst_scheme outcome" where
  "remove_listeners [] st = Inr st"
| "remove_listeners (l # ls) st =
     bindE (listener_at st l) (\<lambda>x.
       if is_special x then remove_listeners ls st
       else bindE (listener_disconnect l st) (remove_listeners ls))"

definition remove_all_listeners :: "'z lsnst_scheme \<Rightarrow> 'z lsnst_scheme outcome option" where
  "remove_all_listeners st = map_option (\<lambda>ls. remove_listeners ls st) (ring_nodes (llinks st) listener_list)"

section \<open>Installing a listener\<close>

datatype install_status = INSTALL_STATUS_OK | INSTALL_STATUS_INTERNAL_ERROR | INSTALL_STATUS_CANNOT_BIND | INSTALL_STATUS_CANNOT_REBIND

definition rebind_listener :: "addr \<Rightarrow> string \<Rightarrow> addr \<Rightarrow> 'z lsnst_scheme \<Rightarrow> 'z lsnst_scheme outcome" where
  "rebind_listener l target t st =
     bindE (listener_at st l) (\<lambda>x.
       let st' = st\<lparr>listeners := (listeners st)(l \<mapsto> x\<lparr>connect_to := target, l_transport := t\<rparr>)\<rparr>
       in Inr (if l_transport x = t then st'
               else st'\<lparr>dlinks := add_transport_disconnect t l (remove_transport_disconnect l (dlinks st))\<rparr>))"

definition link_listener :: "addr \<Rightarrow> links \<Rightarrow> links" where
  "link_listener l h =
     (let h = set_nxt l listener_list h;
          h = set_prv l (prv h listener_list) h;
          h = set_prv (nxt h l) l h
      in set_nxt (prv h l) l h)"

text \<open>\<open>new\<close> is what \<open>calloc\<close> returns.\<close>

definition new_listener ::
  "fdenv \<Rightarrow> (string \<Rightarrow> int) \<Rightarrow> addr \<Rightarrow> string \<Rightarrow> string \<Rightarrow> addr \<Rightarrow> 'z lsnst_scheme \<Rightarrow> (install_status \<times> 'z lsnst_scheme) outcome" where
  "new_listener env server_fd new name target t st =
     (if new = NULL then Inl (Fatal ''cannot allocate listener'')
      else
        let fd = server_fd name in
        if fd < 0 then Inr (INSTALL_STATUS_CANNOT_BIND, st)
        else
          let st = st\<lparr>listeners := (listeners st)(new \<mapsto> \<lparr>l_fd = fd, local_name = name, connect_to = target, l_transport = t\<rparr>)\<rparr>;
              f = (if target = ''*smartsocket*'' then Ss_listener_event_func else Listener_event_func) in
          bindE (fdevent_install env new fd f new st) (\<lambda>st.
          bindE (fdevent_set new FDE_READ st) (\<lambda>st.
            let st = st\<lparr>llinks := link_listener new (llinks st)\<rparr>;
                st = (if t \<noteq> NULL then st\<lparr>dlinks := add_transport_disconnect t new (dlinks st)\<rparr> else st)
            in Inr (INSTALL_STATUS_OK, st))))"

definition install_listener ::
  "fdenv \<Rightarrow> (string \<Rightarrow> int) \<Rightarrow> addr \<Rightarrow> string \<Rightarrow> string \<Rightarrow> addr \<Rightarrow> bool \<Rightarrow> 'z lsnst_scheme
     \<Rightarrow> (install_status \<times> 'z lsnst_scheme) outcome option" where
  "install_listener env server_fd new name target t no_rebind st =
     map_option (\<lambda>ls. bindE (find_name name st ls) (\<lambda>l.
         if l = NULL then new_listener env server_fd new name target t st
         else bindE (listener_at st l) (\<lambda>x.
           if is_special x then Inr (INSTALL_STATUS_INTERNAL_ERROR, st)
           else if no_rebind then Inr (INSTALL_STATUS_CANNOT_REBIND, st)
           else bindE (rebind_listener l target t st) (\<lambda>st. Inr (INSTALL_STATUS_OK, st)))))
       (ring_nodes (llinks st) listener_list)"

end
