(* ===== verification/Auth.thy ===== *)
theory Auth
  imports Listeners
begin

text \<open>
  Authentication: \<open>adb_auth_client.c\<close> (the device's side) and the functions of \<open>adb.cpp\<close> that put a transport
  on line and off line and send the connection and authentication packets.

  The state extends the one of the sockets by the transports and by the globals of \<open>adb_auth_client.c\<close>. The
  registration of \<open>usb_disconnect\<close> in the list of a transport is the field \<open>usb_disconnect_on\<close>: its callback only
  resets globals of its own. \<open>adbenv\<close> holds what the sources do not define: the build (host or device), the
  system properties, the random token, the signing library, the key files, the base64 decoder and the RSA
  verification, and the descriptor \<open>service_to_fd\<close> returns for a service name.
\<close>

section \<open>Data\<close>

definition CS_ANY :: int where "CS_ANY = - 1"
definition CS_OFFLINE :: int where "CS_OFFLINE = 0"
definition CS_BOOTLOADER :: int where "CS_BOOTLOADER = 1"
definition CS_DEVICE :: int where "CS_DEVICE = 2"
definition CS_HOST :: int where "CS_HOST = 3"
definition CS_RECOVERY :: int where "CS_RECOVERY = 4"
definition CS_NOPERM :: int where "CS_NOPERM = 5"
definition CS_SIDELOAD :: int where "CS_SIDELOAD = 6"
definition CS_UNAUTHORIZED :: int where "CS_UNAUTHORIZED = 7"

definition ADB_AUTH_TOKEN :: u32 where "ADB_AUTH_TOKEN = 1"
definition ADB_AUTH_SIGNATURE :: u32 where "ADB_AUTH_SIGNATURE = 2"
definition ADB_AUTH_RSAPUBLICKEY :: u32 where "ADB_AUTH_RSAPUBLICKEY = 3"
definition TOKEN_SIZE :: nat where "TOKEN_SIZE = 20"

record atransport =
  connection_state :: int
  online :: bool
  t_key :: addr
  token :: "byte list"
  failed_auth_attempts :: u32
  product :: "string option"
  model :: "string option"
  device :: "string option"
  auth_fde :: addr

record adbst = lsnst +
  trans :: "addr \<Rightarrow> atransport option"
  framework_fd :: int
  usb_transport :: addr
  usb_disconnect_on :: addr
  needs_retry :: bool
  to_framework :: "string list"
  updates :: nat
  alloc :: "addr list"

record adbenv =
  HOST :: bool
  auth_enabled :: bool
  getuid :: int
  device_banner :: string
  property_get :: "string \<Rightarrow> string"
  urandom :: "byte list option"
  nextkey :: "addr \<Rightarrow> addr"
  sign :: "addr \<Rightarrow> byte list \<Rightarrow> byte list"
  userkey :: "byte list"
  key_file :: "string \<Rightarrow> string list option"
  b64_pton :: "string \<Rightarrow> byte list option"
  RSA_verify :: "byte list \<Rightarrow> byte list \<Rightarrow> byte list \<Rightarrow> bool"
  service_to_fd :: "string \<Rightarrow> int"
  cenv :: fdenv

abbreviation trans_at :: "'z adbst_scheme \<Rightarrow> addr \<Rightarrow> atransport outcome" where
  "trans_at st t \<equiv> deref ''atransport'' (trans st) t"

definition upd_trans :: "addr \<Rightarrow> (atransport \<Rightarrow> atransport) \<Rightarrow> 'z adbst_scheme \<Rightarrow> 'z adbst_scheme outcome" where
  "upd_trans t f st = bindE (trans_at st t) (\<lambda>x. Inr (st\<lparr>trans := (trans st)(t \<mapsto> f x)\<rparr>))"

section \<open>On line and off line\<close>

definition usb_disconnected :: "'z adbst_scheme \<Rightarrow> 'z adbst_scheme" where
  "usb_disconnected st = st\<lparr>usb_disconnect_on := NULL, usb_transport := NULL, needs_retry := False\<rparr>"

text \<open>
  \<open>run_transport_disconnects\<close>: the nodes are remote sockets and listeners. The next node is read before the callback
  runs; reading it from a freed one is an invalid access. \<open>None\<close>: the list does not come back to its head.
\<close>

partial_function (option) run_disconnects_from :: "addr \<Rightarrow> addr \<Rightarrow> 'z adbst_scheme \<Rightarrow> 'z adbst_scheme outcome option" where
  "run_disconnects_from t dis st =
     (if dis = t then Some (Inr st)
      else if socks st dis = None \<and> listeners st dis = None then Some (Inl (Bad_access ''adisconnect''))
      else
        let n = nxt (dlinks st) dis in
        case (if socks st dis \<noteq> None then remote_socket_disconnect dis st else listener_disconnect dis st) of
          Inl e \<Rightarrow> Some (Inl e)
        | Inr st \<Rightarrow> run_disconnects_from t n st)"

definition run_transport_disconnects :: "addr \<Rightarrow> 'z adbst_scheme \<Rightarrow> 'z adbst_scheme outcome option" where
  "run_transport_disconnects t st =
     (let st = (if usb_disconnect_on st = t then usb_disconnected st else st)
      in run_disconnects_from t (nxt (dlinks st) t) st)"

definition handle_online :: "addr \<Rightarrow> 'z adbst_scheme \<Rightarrow> 'z adbst_scheme outcome" where
  "handle_online t st = upd_trans t (\<lambda>x. x\<lparr>online := True\<rparr>) st"

definition handle_offline :: "addr \<Rightarrow> 'z adbst_scheme \<Rightarrow> 'z adbst_scheme outcome option" where
  "handle_offline t st =
     (case upd_trans t (\<lambda>x. x\<lparr>online := False\<rparr>) st of
        Inl e \<Rightarrow> Some (Inl e)
      | Inr st \<Rightarrow> run_transport_disconnects t st)"

section \<open>Packets of the connection\<close>

definition send_ready :: "u32 \<Rightarrow> u32 \<Rightarrow> addr \<Rightarrow> 'z adbst_scheme \<Rightarrow> 'z adbst_scheme outcome" where
  "send_ready lid rid t st =
     (let p = get_apacket (fresh_payload st)
      in send_packet (p\<lparr>pmsg := (pmsg p)\<lparr>command := A_OKAY, arg0 := lid, arg1 := rid\<rparr>\<rparr>) t st)"

definition send_close :: "u32 \<Rightarrow> u32 \<Rightarrow> addr \<Rightarrow> 'z adbst_scheme \<Rightarrow> 'z adbst_scheme outcome" where
  "send_close lid rid t st =
     (let p = get_apacket (fresh_payload st)
      in send_packet (p\<lparr>pmsg := (pmsg p)\<lparr>command := A_CLSE, arg0 := lid, arg1 := rid\<rparr>\<rparr>) t st)"

definition cnxn_props :: "string list" where
  "cnxn_props = [''ro.product.name'', ''ro.product.model'', ''ro.product.device'']"

text \<open>The properties are at most \<open>PROPERTY_VALUE_MAX\<close> long, so that \<open>snprintf\<close> never truncates to the 4096 bytes.\<close>

definition connect_data :: "adbenv \<Rightarrow> string" where
  "connect_data env =
     (if HOST env then ''host::''
      else device_banner env @ ''::'' @ concat (map (\<lambda>k. k @ ''='' @ property_get env k @ '';'') cnxn_props))"

text \<open>A packet with the given payload at the front of its buffer.\<close>

definition with_payload :: "byte list \<Rightarrow> apacket \<Rightarrow> apacket" where
  "with_payload bs p = p\<lparr>pdata := bs @ drop (length bs) (pdata p)\<rparr>"

definition send_connect :: "adbenv \<Rightarrow> addr \<Rightarrow> 'z adbst_scheme \<Rightarrow> 'z adbst_scheme outcome" where
  "send_connect env t st =
     (let p = with_payload (connect_data env @ [CHR 0x00]) (get_apacket (fresh_payload st))
      in send_packet (p\<lparr>pmsg := (pmsg p)\<lparr>command := A_CNXN, arg0 := A_VERSION, arg1 := of_nat MAX_PAYLOAD,
           data_length := of_nat (length (connect_data env) + 1)\<rparr>\<rparr>) t st)"

definition auth_packet :: "u32 \<Rightarrow> byte list \<Rightarrow> byte list \<Rightarrow> apacket" where
  "auth_packet kind bs payload =
     (let p = with_payload bs (get_apacket payload)
      in p\<lparr>pmsg := (pmsg p)\<lparr>command := A_AUTH, arg0 := kind, data_length := of_nat (length bs)\<rparr>\<rparr>)"

definition adb_auth_generate_token :: "adbenv \<Rightarrow> nat \<Rightarrow> byte list option" where
  "adb_auth_generate_token env token_size =
     (case urandom env of None \<Rightarrow> None | Some bs \<Rightarrow> if length bs < token_size then None else Some (take token_size bs))"

definition send_auth_request :: "adbenv \<Rightarrow> addr \<Rightarrow> 'z adbst_scheme \<Rightarrow> 'z adbst_scheme outcome" where
  "send_auth_request env t st =
     (case adb_auth_generate_token env TOKEN_SIZE of
        None \<Rightarrow> Inr st
      | Some tok \<Rightarrow>
          bindE (upd_trans t (\<lambda>x. x\<lparr>token := tok\<rparr>) st) (\<lambda>st.
            send_packet (auth_packet ADB_AUTH_TOKEN tok (fresh_payload st)) t st))"

definition send_auth_response :: "adbenv \<Rightarrow> byte list \<Rightarrow> addr \<Rightarrow> 'z adbst_scheme \<Rightarrow> 'z adbst_scheme outcome" where
  "send_auth_response env tok t st =
     bindE (trans_at st t) (\<lambda>x.
       let sig = sign env (t_key x) tok in
       if sig = [] then Inr st
       else send_packet (auth_packet ADB_AUTH_SIGNATURE sig (fresh_payload st)) t st)"

definition send_auth_publickey :: "adbenv \<Rightarrow> addr \<Rightarrow> 'z adbst_scheme \<Rightarrow> 'z adbst_scheme outcome" where
  "send_auth_publickey env t st =
     (if userkey env = [] then Inr st
      else send_packet (auth_packet ADB_AUTH_RSAPUBLICKEY (userkey env) (fresh_payload st)) t st)"

definition adb_auth_verified :: "adbenv \<Rightarrow> addr \<Rightarrow> 'z adbst_scheme \<Rightarrow> 'z adbst_scheme outcome" where
  "adb_auth_verified env t st = bindE (handle_online t st) (send_connect env t)"

section \<open>Keys\<close>

definition RSANUMWORDS :: nat where "RSANUMWORDS = 64"
definition RSANUMBYTES :: nat where "RSANUMBYTES = 256"
definition key_paths :: "string list" where "key_paths = [''/adb_keys'', ''/data/misc/adb/adb_keys'']"

text \<open>One line of a key file: the key in it, if it is one (\<open>sizeof (RSAPublicKey)\<close> is 524).\<close>

definition parse_key :: "adbenv \<Rightarrow> string \<Rightarrow> byte list option" where
  "parse_key env line =
     (case b64_pton env (takeWhile (\<lambda>c. c \<noteq> CHR '' '' \<and> c \<noteq> CHR 0x09) line) of
        None \<Rightarrow> None
      | Some key \<Rightarrow>
          if length key \<noteq> 524 \<or> unat (le_word key) \<noteq> RSANUMWORDS then None else Some key)"

definition read_keys :: "adbenv \<Rightarrow> string \<Rightarrow> byte list list" where
  "read_keys env file =
     (case key_file env file of None \<Rightarrow> [] | Some lines \<Rightarrow> List.map_filter (parse_key env) lines)"

definition load_keys :: "adbenv \<Rightarrow> byte list list" where
  "load_keys env = concat (map (read_keys env) key_paths)"

definition adb_auth_verify :: "adbenv \<Rightarrow> byte list \<Rightarrow> byte list \<Rightarrow> bool" where
  "adb_auth_verify env tok sig =
     (if length sig \<noteq> RSANUMBYTES then False else list_ex (\<lambda>key. RSA_verify env key sig tok) (load_keys env))"

section \<open>Asking the user\<close>

text \<open>The payload bytes \<open>key\<close> and their count; \<open>before\<close> is the byte in front of the payload.\<close>

definition adb_auth_confirm_key ::
  "adbenv \<Rightarrow> byte \<Rightarrow> byte list \<Rightarrow> nat \<Rightarrow> bool \<Rightarrow> addr \<Rightarrow> 'z adbst_scheme \<Rightarrow> 'z adbst_scheme outcome" where
  "adb_auth_confirm_key env before key len sent_ok t st =
     (let st = (if usb_transport st = NULL then st\<lparr>usb_transport := t, usb_disconnect_on := t\<rparr> else st) in
      if framework_fd st < 0 then Inr (st\<lparr>needs_retry := True\<rparr>)
      else if (if len = 0 then before else key ! (len - 1)) \<noteq> CHR 0x00 then Inr st
      else
        let msg = ''PK'' @ takeWhile (\<lambda>c. c \<noteq> CHR 0x00) key in
        if length msg \<ge> MAX_PAYLOAD then Inr st
        else if \<not> sent_ok then Inr st
        else
          bindE (trans_at st t) (\<lambda>x.
          bindE (fdevent_install (cenv env) (auth_fde x) (framework_fd st) Adb_auth_event t
                   (st\<lparr>to_framework := to_framework st @ [msg]\<rparr>)) (\<lambda>st.
            fdevent_add (auth_fde x) FDE_READ st)))"

text \<open>\<open>reply\<close> is what \<open>unix_read\<close> of two bytes returns (\<open>None\<close> for -1).\<close>

definition adb_auth_event :: "adbenv \<Rightarrow> byte list option \<Rightarrow> u16 \<Rightarrow> 'z adbst_scheme \<Rightarrow> 'z adbst_scheme outcome" where
  "adb_auth_event env reply events st =
     (if \<not> has events FDE_READ then Inr st
      else case reply of
        None \<Rightarrow>
          bindE (if usb_transport st \<noteq> NULL
                 then bindE (trans_at st (usb_transport st)) (\<lambda>x. fdevent_remove (auth_fde x) st) else Inr st) (\<lambda>st.
            Inr (st\<lparr>framework_fd := - 1\<rparr>))
      | Some bs \<Rightarrow>
          if bs = ''OK'' \<and> usb_transport st \<noteq> NULL then adb_auth_verified env (usb_transport st) st else Inr st)"

text \<open>\<open>s\<close> is what \<open>accept\<close> returns.\<close>

definition adb_auth_listener :: "adbenv \<Rightarrow> int \<Rightarrow> 'z adbst_scheme \<Rightarrow> 'z adbst_scheme outcome" where
  "adb_auth_listener env s st =
     (if s < 0 then Inr st
      else
        let st = st\<lparr>framework_fd := s\<rparr> in
        if needs_retry st then send_auth_request env (usb_transport st) (st\<lparr>needs_retry := False\<rparr>) else Inr st)"

definition adb_auth_init :: "adbenv \<Rightarrow> int \<Rightarrow> int \<Rightarrow> addr \<Rightarrow> 'z adbst_scheme \<Rightarrow> 'z adbst_scheme outcome" where
  "adb_auth_init env fd listen_ret listener_fde st =
     (if fd < 0 \<or> listen_ret < 0 then Inr st
      else
        bindE (fdevent_install (cenv env) listener_fde fd Adb_auth_listener NULL st) (\<lambda>st.
          fdevent_add listener_fde FDE_READ st))"

end
