(* ===== verification/Protocol.thy ===== *)
theory Protocol
  imports Auth
begin

text \<open>
  The packets of the protocol: \<open>parse_banner\<close> and \<open>handle_packet\<close> of \<open>adb.cpp\<close> and the opening of local services
  (\<open>create_local_service_socket\<close>).
\<close>

section \<open>Banners\<close>

definition qual_overwrite :: "string \<Rightarrow> string option" where
  "qual_overwrite src = (if src = [] then None else Some src)"

text \<open>\<open>strtok_r\<close>: the non-empty pieces between separators.\<close>

fun split_on :: "char \<Rightarrow> string \<Rightarrow> string list" where
  "split_on c [] = [[]]"
| "split_on c (x # xs) =
     (if x = c then [] # split_on c xs
      else case split_on c xs of [] \<Rightarrow> [[x]] | w # ws \<Rightarrow> (x # w) # ws)"

definition tokens :: "char \<Rightarrow> string \<Rightarrow> string list" where
  "tokens c s = filter (\<lambda>w. w \<noteq> []) (split_on c s)"

text \<open>\<open>strchr\<close>: the text before and after the first \<open>c\<close>.\<close>

definition cut :: "char \<Rightarrow> string \<Rightarrow> (string \<times> string) option" where
  "cut c s = (if c \<in> set s then Some (takeWhile (\<lambda>x. x \<noteq> c) s, tl (dropWhile (\<lambda>x. x \<noteq> c) s)) else None)"

definition banner_prop :: "string \<Rightarrow> atransport \<Rightarrow> atransport" where
  "banner_prop key t =
     (case cut CHR ''='' key of
        None \<Rightarrow> t
      | Some (k, v) \<Rightarrow>
          if k = ''ro.product.name'' then t\<lparr>product := qual_overwrite v\<rparr>
          else if k = ''ro.product.model'' then t\<lparr>model := qual_overwrite v\<rparr>
          else if k = ''ro.product.device'' then t\<lparr>device := qual_overwrite v\<rparr>
          else t)"

definition banner_state :: "string \<Rightarrow> int" where
  "banner_state ty =
     (if ty = ''bootloader'' then CS_BOOTLOADER
      else if ty = ''device'' then CS_DEVICE
      else if ty = ''recovery'' then CS_RECOVERY
      else if ty = ''sideload'' then CS_SIDELOAD
      else CS_HOST)"

definition banner_fields :: "string \<Rightarrow> atransport \<Rightarrow> atransport" where
  "banner_fields banner t =
     (case cut CHR '':'' banner of
        None \<Rightarrow> t\<lparr>connection_state := banner_state banner\<rparr>
      | Some (ty, rest) \<Rightarrow>
          (case cut CHR '':'' rest of None \<Rightarrow> t | Some (_, props) \<Rightarrow> fold banner_prop (tokens CHR '';'' props) t)
            \<lparr>connection_state := banner_state ty\<rparr>)"

text \<open>\<open>updates\<close> counts the calls of \<open>update_transports\<close>.\<close>

definition parse_banner :: "byte list \<Rightarrow> addr \<Rightarrow> 'z adbst_scheme \<Rightarrow> 'z adbst_scheme outcome" where
  "parse_banner data t st =
     (if CHR 0x00 \<notin> set data then Inl (Bad_access ''banner'')
      else
        bindE (upd_trans t (banner_fields (takeWhile (\<lambda>c. c \<noteq> CHR 0x00) data)) st) (\<lambda>st.
        bindE (trans_at st t) (\<lambda>x.
          Inr (if connection_state x = CS_HOST then st else st\<lparr>updates := updates st + 1\<rparr>))))"

section \<open>Services\<close>

definition next_addr :: "'z adbst_scheme \<Rightarrow> addr \<times> 'z adbst_scheme" where
  "next_addr st = (case alloc st of [] \<Rightarrow> (NULL, st) | a # as \<Rightarrow> (a, st\<lparr>alloc := as\<rparr>))"

text \<open>
  \<open>NULL\<close> when there is no such service. \<open>jdwp\<close> makes the sockets of the services \<open>jdwp\<close> (False) and
  \<open>track-jdwp\<close> (True).
\<close>

definition create_local_service_socket ::
  "adbenv \<Rightarrow> (bool \<Rightarrow> 'z adbst_scheme \<Rightarrow> (addr \<times> 'z adbst_scheme) outcome) \<Rightarrow> string \<Rightarrow> 'z adbst_scheme
     \<Rightarrow> (addr \<times> 'z adbst_scheme) outcome" where
  "create_local_service_socket env jdwp name st =
     (if \<not> HOST env \<and> name = ''jdwp'' then jdwp False st
      else if \<not> HOST env \<and> name = ''track-jdwp'' then jdwp True st
      else
        let fd = service_to_fd env name in
        if fd < 0 then Inr (NULL, st)
        else
          let (new, st) = next_addr st in
          bindE (create_local_socket (cenv env) new fd st) (\<lambda>(a, st).
            if \<not> HOST env \<and> (take 5 name = ''root:'' \<and> getuid env \<noteq> 0 \<or> take 4 name = ''usb:'' \<or> take 6 name = ''tcpip:'')
            then bindE (upd_sock a (\<lambda>s. s\<lparr>s_exit_on_close := True\<rparr>) st) (\<lambda>st. Inr (a, st))
            else Inr (a, st)))"

section \<open>Packets\<close>

text \<open>The connection of a local socket to a new remote socket, and the call of \<open>ready\<close>.\<close>

definition bind_remote :: "addr \<Rightarrow> u32 \<Rightarrow> addr \<Rightarrow> 'z adbst_scheme \<Rightarrow> (addr \<times> 'z adbst_scheme) outcome" where
  "bind_remote a rid t st =
     (let (new, st) = next_addr st in
      bindE (create_remote_socket new rid t st) (\<lambda>(r, st).
      bindE (upd_sock a (\<lambda>s. s\<lparr>s_peer := r\<rparr>) st) (\<lambda>st.
      bindE (upd_sock r (\<lambda>q. q\<lparr>s_peer := a\<rparr>) st) (\<lambda>st. Inr (r, st)))))"

definition handle_open ::
  "adbenv \<Rightarrow> (bool \<Rightarrow> 'z adbst_scheme \<Rightarrow> (addr \<times> 'z adbst_scheme) outcome) \<Rightarrow> apacket \<Rightarrow> addr \<Rightarrow> 'z adbst_scheme
     \<Rightarrow> 'z adbst_scheme outcome" where
  "handle_open env jdwp p t st =
     bindE (trans_at st t) (\<lambda>x.
       if online x \<and> arg0 (pmsg p) \<noteq> 0 \<and> arg1 (pmsg p) = 0 then
         let n = (if data_length (pmsg p) > 0 then unat (data_length (pmsg p)) - 1 else 0);
             name = takeWhile (\<lambda>c. c \<noteq> CHR 0x00) (take n (pdata p)) in
         bindE (create_local_service_socket env jdwp name st) (\<lambda>(a, st).
           if a = NULL then send_close 0 (arg0 (pmsg p)) t st
           else
             bindE (bind_remote a (arg0 (pmsg p)) t st) (\<lambda>(r, st).
             bindE (sock_at st a) (\<lambda>s. bindE (sock_at st r) (\<lambda>q.
             bindE (send_ready (s_id s) (s_id q) t st) (\<lambda>st.
               socket_ready a st)))))
       else Inr st)"

definition handle_okay :: "apacket \<Rightarrow> addr \<Rightarrow> 'z adbst_scheme \<Rightarrow> 'z adbst_scheme outcome option" where
  "handle_okay p t st =
     (case trans_at st t of
        Inl e \<Rightarrow> Some (Inl e)
      | Inr x \<Rightarrow>
          if online x \<and> arg0 (pmsg p) \<noteq> 0 \<and> arg1 (pmsg p) \<noteq> 0 then
            (case find_local_socket (arg1 (pmsg p)) 0 st of
               None \<Rightarrow> None
             | Some found \<Rightarrow> Some (bindE found (\<lambda>a.
                 if a = NULL then Inr st
                 else bindE (sock_at st a) (\<lambda>s.
                   if s_peer s = NULL then
                     bindE (bind_remote a (arg0 (pmsg p)) t st) (\<lambda>(r, st). socket_ready a st)
                   else bindE (sock_at st (s_peer s)) (\<lambda>q.
                     if s_id q = arg0 (pmsg p) then socket_ready a st else Inr st)))))
          else Some (Inr st))"

definition handle_clse :: "apacket \<Rightarrow> addr \<Rightarrow> 'z adbst_scheme \<Rightarrow> 'z adbst_scheme outcome option" where
  "handle_clse p t st =
     (case trans_at st t of
        Inl e \<Rightarrow> Some (Inl e)
      | Inr x \<Rightarrow>
          if online x \<and> arg1 (pmsg p) \<noteq> 0 then
            (case find_local_socket (arg1 (pmsg p)) (arg0 (pmsg p)) st of
               None \<Rightarrow> None
             | Some found \<Rightarrow> Some (bindE found (\<lambda>a.
                 if a = NULL then Inr st
                 else bindE (sock_at st a) (\<lambda>s.
                   if arg0 (pmsg p) = 0 \<and> s_peer s \<noteq> NULL then
                     bindE (sock_at st (s_peer s)) (\<lambda>q.
                       if s_transport q \<noteq> t then Inr st else sclose a st)
                   else sclose a st))))
          else Some (Inr st))"

definition handle_wrte ::
  "(addr \<Rightarrow> apacket \<Rightarrow> 'z adbst_scheme \<Rightarrow> (int \<times> 'z adbst_scheme) outcome) \<Rightarrow> apacket \<Rightarrow> addr \<Rightarrow> 'z adbst_scheme
     \<Rightarrow> 'z adbst_scheme outcome option" where
  "handle_wrte smart p t st =
     (case trans_at st t of
        Inl e \<Rightarrow> Some (Inl e)
      | Inr x \<Rightarrow>
          if online x \<and> arg0 (pmsg p) \<noteq> 0 \<and> arg1 (pmsg p) \<noteq> 0 then
            (case find_local_socket (arg1 (pmsg p)) (arg0 (pmsg p)) st of
               None \<Rightarrow> None
             | Some found \<Rightarrow> Some (bindE found (\<lambda>a.
                 if a = NULL then Inr st
                 else
                   bindE (socket_enqueue smart a (p\<lparr>plen := data_length (pmsg p)\<rparr>) st) (\<lambda>(r, st).
                     if r = 0 then bindE (sock_at st a) (\<lambda>s. send_ready (s_id s) (arg0 (pmsg p)) t st) else Inr st))))
          else Some (Inr st))"

definition handle_auth :: "adbenv \<Rightarrow> bool \<Rightarrow> apacket \<Rightarrow> addr \<Rightarrow> 'z adbst_scheme \<Rightarrow> 'z adbst_scheme outcome" where
  "handle_auth env sent_ok p t st =
     (let n = unat (data_length (pmsg p)) in
      if arg0 (pmsg p) = ADB_AUTH_TOKEN then
        bindE (upd_trans t (\<lambda>x. x\<lparr>connection_state := CS_UNAUTHORIZED, t_key := nextkey env (t_key x)\<rparr>) st) (\<lambda>st.
        bindE (trans_at st t) (\<lambda>x.
          if t_key x \<noteq> NULL then send_auth_response env (take n (pdata p)) t st else send_auth_publickey env t st))
      else if arg0 (pmsg p) = ADB_AUTH_SIGNATURE then
        bindE (trans_at st t) (\<lambda>x.
          if adb_auth_verify env (token x) (take n (pdata p)) then
            bindE (adb_auth_verified env t st) (upd_trans t (\<lambda>x. x\<lparr>failed_auth_attempts := 0\<rparr>))
          else
            bindE (upd_trans t (\<lambda>x. x\<lparr>failed_auth_attempts := failed_auth_attempts x + 1\<rparr>) st) (send_auth_request env t))
      else if arg0 (pmsg p) = ADB_AUTH_RSAPUBLICKEY then
        adb_auth_confirm_key env (char_of (unat (drop_bit 24 (magic (pmsg p))))) (pdata p) n sent_ok t st
      else Inr st)"

text \<open>
  \<open>handle_packet\<close>; \<open>sent_ok\<close> is whether the framework takes a key to confirm. \<open>None\<close>: a list does not
  come back to its head.
\<close>

definition handle_packet ::
  "adbenv \<Rightarrow> (bool \<Rightarrow> 'z adbst_scheme \<Rightarrow> (addr \<times> 'z adbst_scheme) outcome)
     \<Rightarrow> (addr \<Rightarrow> apacket \<Rightarrow> 'z adbst_scheme \<Rightarrow> (int \<times> 'z adbst_scheme) outcome) \<Rightarrow> bool \<Rightarrow> apacket \<Rightarrow> addr
     \<Rightarrow> 'z adbst_scheme \<Rightarrow> 'z adbst_scheme outcome option" where
  "handle_packet env jdwp smart sent_ok p t st =
     (if command (pmsg p) = A_SYNC then
        if arg0 (pmsg p) \<noteq> 0 then
          Some (bindE (send_packet p t st) (\<lambda>st. if HOST env then send_connect env t st else Inr st))
        else
          (case upd_trans t (\<lambda>x. x\<lparr>connection_state := CS_OFFLINE\<rparr>) st of
             Inl e \<Rightarrow> Some (Inl e)
           | Inr st \<Rightarrow> map_option (\<lambda>r. bindE r (send_packet p t)) (handle_offline t st))
      else if command (pmsg p) = A_CNXN then
        (case trans_at st t of
           Inl e \<Rightarrow> Some (Inl e)
         | Inr x \<Rightarrow>
             map_option (\<lambda>r. bindE r (\<lambda>st. bindE (parse_banner (pdata p) t st) (\<lambda>st.
                 if HOST env \<or> \<not> auth_enabled env then
                   bindE (handle_online t st) (\<lambda>st. if \<not> HOST env then send_connect env t st else Inr st)
                 else send_auth_request env t st)))
               (if connection_state x \<noteq> CS_OFFLINE then
                  (case upd_trans t (\<lambda>x. x\<lparr>connection_state := CS_OFFLINE\<rparr>) st of
                     Inl e \<Rightarrow> Some (Inl e) | Inr st \<Rightarrow> handle_offline t st)
                else Some (Inr st)))
      else if command (pmsg p) = A_AUTH then Some (handle_auth env sent_ok p t st)
      else if command (pmsg p) = A_OPEN then Some (handle_open env jdwp p t st)
      else if command (pmsg p) = A_OKAY then handle_okay p t st
      else if command (pmsg p) = A_CLSE then handle_clse p t st
      else if command (pmsg p) = A_WRTE then handle_wrte smart p t st
      else Some (Inr st))"

end
