(* ===== verification/Text_Buffer.thy ===== *)
theory Text_Buffer
  imports Adb_Prelude
begin

text \<open>
  Text printed into a buffer of fixed size. \<open>snprintf\<close> returns the length of the whole text, writes at most \<open>size - 1\<close> characters of it
  and a NUL; \<open>size_t\<close> has 32 bits. The listings of the devices (\<open>transport.cpp\<close>) and of the debuggable processes (\<open>jdwp_service.c\<close>) are
  the same loop, \<open>put_lines\<close>: it prints line after line and stops at the first that does not fit.
\<close>

definition write_at :: "nat \<Rightarrow> byte list \<Rightarrow> byte list \<Rightarrow> byte list outcome" where
  "write_at pos bs buf =
     (if pos + length bs \<le> length buf then Inr (take pos buf @ bs @ drop (pos + length bs) buf) else Inl (Bad_access ''buffer''))"

definition snprintf :: "nat \<Rightarrow> u32 \<Rightarrow> string \<Rightarrow> byte list \<Rightarrow> (u32 \<times> byte list) outcome" where
  "snprintf pos room s buf =
     bindE (if room = 0 then Inr buf else write_at pos (take (unat room - 1) s @ [CHR 0x00]) buf) (\<lambda>buf.
       Inr (of_nat (length s), buf))"

fun put_lines :: "string list \<Rightarrow> nat \<Rightarrow> byte list \<Rightarrow> (nat \<times> byte list) outcome" where
  "put_lines [] p buf = Inr (p, buf)"
| "put_lines (l # ls) p buf =
     bindE (snprintf p (of_nat (length buf - p)) l buf) (\<lambda>(len, buf).
       if int p + sint len \<ge> int (length buf) then Inr (p, buf)
       else put_lines ls (nat (int p + sint len)) buf)"

text \<open>The lines that fit with the terminating NUL into \<open>n\<close> bytes.\<close>

fun fitting :: "nat \<Rightarrow> string list \<Rightarrow> string list" where
  "fitting n [] = []"
| "fitting n (l # ls) = (if length l < n then l # fitting (n - length l) ls else [])"

lemma length_write_at: "write_at p bs buf = Inr buf' \<Longrightarrow> length buf' = length buf"
  by (auto simp: write_at_def split: if_splits)

lemma snprintf_fits:
  assumes "p < length buf" "unat room = length buf - p"
  shows "\<exists>buf'. snprintf p room s buf = Inr (of_nat (length s), buf') \<and> length buf' = length buf \<and>
    take p buf' = take p buf \<and> (p + length s < length buf \<longrightarrow> take (p + length s) buf' = take p buf @ s)"
proof -
  have nz: "room \<noteq> 0" using assms by auto
  let ?bs = "take (length buf - p - 1) s @ [CHR 0x00]"
  let ?buf = "take p buf @ ?bs @ drop (p + length ?bs) buf"
  have len: "p + length ?bs \<le> length buf" using assms(1) by auto
  then have "write_at p ?bs buf = Inr ?buf" by (simp only: write_at_def if_True)
  then have "snprintf p room s buf = Inr (of_nat (length s), ?buf)" using nz by (simp add: snprintf_def assms(2))
  moreover have "take (p + length s) ?buf = take p buf @ s" if "p + length s < length buf" using that assms(1) by simp
  moreover have "length ?buf = length buf" "take p ?buf = take p buf" using len assms(1) by simp_all
  ultimately show ?thesis by blast
qed

lemma fitting_prefix: "\<exists>k \<le> length ls. fitting n ls = take k ls \<and> (k < length ls \<longrightarrow> n \<le> length (concat (fitting n ls)) + length (ls ! k))"
proof (induction n ls rule: fitting.induct)
  case (2 n l ls)
  show ?case
  proof (cases "length l < n")
    case True
    with 2 obtain k where "k \<le> length ls" "fitting (n - length l) ls = take k ls"
      "k < length ls \<longrightarrow> n - length l \<le> length (concat (fitting (n - length l) ls)) + length (ls ! k)" by blast
    with True show ?thesis by (intro exI [of _ "Suc k"]) auto
  qed auto
qed simp

lemma fitting_all: "length (concat ls) < n \<Longrightarrow> fitting n ls = ls"
  by (induction n ls rule: fitting.induct) auto

lemma length_fitting: "0 < n \<Longrightarrow> length (concat (fitting n ls)) < n"
  by (induction n ls rule: fitting.induct) auto

lemma put_lines_fitting:
  assumes "p < length buf" "length buf < 2 ^ 30" "\<forall>l\<in>set ls. length l < 2 ^ 30"
  shows "\<exists>buf'. put_lines ls p buf = Inr (p + length (concat (fitting (length buf - p) ls)), buf') \<and> length buf' = length buf \<and>
    take (p + length (concat (fitting (length buf - p) ls))) buf' = take p buf @ concat (fitting (length buf - p) ls)"
  using assms
proof (induction ls arbitrary: p buf)
  case Nil
  then show ?case by simp
next
  case (Cons l ls)
  have l: "length l < 2 ^ 30" using Cons.prems(3) by simp
  have "unat (word_of_nat n :: u32) = n" if "n < 2 ^ 30" for n using that by (simp add: unsigned_of_nat take_bit_nat_eq_self)
  then have "unat (word_of_nat (length buf - p) :: u32) = length buf - p" using Cons.prems(2) less_imp_diff_less by blast
  from snprintf_fits [OF Cons.prems(1) this, of l] obtain b1 where
    b1: "snprintf p (of_nat (length buf - p)) l buf = Inr (of_nat (length l), b1)" "length b1 = length buf"
      "take p b1 = take p buf" "p + length l < length buf \<longrightarrow> take (p + length l) b1 = take p buf @ l" by blast
  have s: "sint (word_of_nat (length l) :: u32) = int (length l)"
    using l by (simp add: signed_of_nat signed_take_bit_int_eq_self_iff)
  show ?case
  proof (cases "p + length l < length buf")
    case True
    then have "\<exists>buf'. put_lines ls (p + length l) b1 = Inr (p + length l + length (concat (fitting (length b1 - (p + length l)) ls)), buf') \<and>
        length buf' = length b1 \<and> take (p + length l + length (concat (fitting (length b1 - (p + length l)) ls))) buf' =
          take (p + length l) b1 @ concat (fitting (length b1 - (p + length l)) ls)"
      by (intro Cons.IH) (use Cons.prems b1 in auto)
    then show ?thesis using True b1 s by (auto simp: nat_add_distrib nat_int_add add.assoc)
  next
    case False
    then show ?thesis using b1 s by (intro exI [of _ b1]) auto
  qed
qed

end
