(* ===== verification/Transports.thy ===== *)
theory Transports
  imports Protocol Text_Buffer
begin

text \<open>
  The registry of transports (\<open>transport.cpp\<close>): choosing a transport for a request, listing the transports,
  registering and removing them.

  The fields of \<open>struct atransport\<close> that the registry uses are the record \<open>treg\<close>, kept at the same address
  as the protocol's fields (\<open>trans\<close>). The messages to the registration handler are the queue \<open>reg_queue\<close>; the calls of
  \<open>usb_kick\<close> and \<open>usb_close\<close> and the starts of the two threads of a transport are recorded in order. A thread ends with
  \<open>thread_exit\<close>. \<open>hst\<close> is the global \<open>HOST\<close>.
\<close>

section \<open>Data\<close>

datatype transport_type = KTransportUsb | KTransportLocal | KTransportAny | KTransportHost

record treg =
  t_type :: transport_type
  serial :: "string option"
  devpath :: "string option"
  usb :: addr
  adb_port :: int
  sfd :: int
  ref_count :: int
  kicked :: bool
  t_fd :: int
  transport_socket :: int
  transport_fde :: addr

record tregst = adbst +
  regs :: "addr \<Rightarrow> treg option"
  tlinks :: links
  reg_queue :: "(addr \<times> int) list"
  local_transports :: "addr list"
  usb_kicks :: "addr list"
  usb_closes :: "addr list"
  threads :: "addr list"

definition transport_list :: addr where "transport_list = 4"
definition pending_list :: addr where "pending_list = 5"
definition ADB_LOCAL_TRANSPORT_MAX :: nat where "ADB_LOCAL_TRANSPORT_MAX = 64"

abbreviation reg_at :: "'z tregst_scheme \<Rightarrow> addr \<Rightarrow> treg outcome" where
  "reg_at st t \<equiv> deref ''atransport'' (regs st) t"

definition upd_reg :: "addr \<Rightarrow> (treg \<Rightarrow> treg) \<Rightarrow> 'z tregst_scheme \<Rightarrow> 'z tregst_scheme outcome" where
  "upd_reg t f st = bindE (reg_at st t) (\<lambda>x. Inr (st\<lparr>regs := (regs st)(t \<mapsto> f x)\<rparr>))"

section \<open>Choosing a transport\<close>

definition between :: "char \<Rightarrow> char \<Rightarrow> char \<Rightarrow> bool" where
  "between a b ch \<longleftrightarrow> (of_char a :: nat) \<le> of_char ch \<and> (of_char ch :: nat) \<le> of_char b"

definition qual_char_is_invalid :: "char \<Rightarrow> bool" where
  "qual_char_is_invalid ch =
     (if between CHR ''A'' CHR ''Z'' ch then False
      else if between CHR ''a'' CHR ''z'' ch then False
      else if between CHR ''0'' CHR ''9'' ch then False
      else True)"

definition sanitised :: "bool \<Rightarrow> char \<Rightarrow> char" where
  "sanitised sanitize ch = (if sanitize \<and> qual_char_is_invalid ch then CHR ''_'' else ch)"

text \<open>The two loops of \<open>qual_match\<close>; the end of a list is the terminating NUL.\<close>

fun match_prefix :: "string \<Rightarrow> string \<Rightarrow> string option" where
  "match_prefix [] t = Some t"
| "match_prefix (p # ps) [] = None"
| "match_prefix (p # ps) (c # t) = (if p \<noteq> c then None else match_prefix ps t)"

fun match_qual :: "bool \<Rightarrow> string \<Rightarrow> string \<Rightarrow> bool" where
  "match_qual sanitize [] t = (t = [])"
| "match_qual sanitize (q # qs) [] = False"
| "match_qual sanitize (q # qs) (c # t) = (if sanitised sanitize q \<noteq> c then False else match_qual sanitize qs t)"

definition qual_match :: "string option \<Rightarrow> string option \<Rightarrow> string option \<Rightarrow> bool \<Rightarrow> bool" where
  "qual_match to_test prefix qual sanitize_qual =
     (if to_test = None \<or> to_test = Some [] then qual = None \<or> qual = Some []
      else case qual of
        None \<Rightarrow> False
      | Some q \<Rightarrow>
          (case (case prefix of None \<Rightarrow> to_test | Some p \<Rightarrow> match_prefix p (the to_test)) of
             None \<Rightarrow> False
           | Some t \<Rightarrow> match_qual sanitize_qual q t))"

text \<open>Whether a transport is asked for, and the message for a second one.\<close>

definition candidate :: "transport_type \<Rightarrow> string option \<Rightarrow> atransport \<Rightarrow> treg \<Rightarrow> string option" where
  "candidate ttype sn x r =
     (if sn \<noteq> None then
        if serial r \<noteq> None \<and> sn = serial r \<or> devpath r \<noteq> None \<and> sn = devpath r \<or>
           qual_match sn (Some ''product:'') (product x) False \<or> qual_match sn (Some ''model:'') (model x) True \<or>
           qual_match sn (Some ''device:'') (device x) False
        then Some ''more than one device'' else None
      else if ttype = KTransportUsb \<and> t_type r = KTransportUsb then Some ''more than one device''
      else if ttype = KTransportLocal \<and> t_type r = KTransportLocal then Some ''more than one emulator''
      else if ttype = KTransportAny then Some ''more than one device and emulator''
      else None)"

text \<open>The loop over the list: \<open>result\<close>, \<open>ambiguous\<close>, \<open>*error_out\<close>.\<close>

fun acquire_loop ::
  "transport_type \<Rightarrow> string option \<Rightarrow> 'z tregst_scheme \<Rightarrow> addr list \<Rightarrow> addr \<Rightarrow> string \<Rightarrow> (addr \<times> bool \<times> string) outcome" where
  "acquire_loop ttype sn st [] result err = Inr (result, False, err)"
| "acquire_loop ttype sn st (t # ts) result err =
     bindE (trans_at st t) (\<lambda>x. bindE (reg_at st t) (\<lambda>r.
       if connection_state x = CS_NOPERM then acquire_loop ttype sn st ts result ''insufficient permissions for device''
       else case candidate ttype sn x r of
         None \<Rightarrow> acquire_loop ttype sn st ts result err
       | Some msg \<Rightarrow> if result \<noteq> NULL then Inr (NULL, True, msg) else acquire_loop ttype sn st ts t err))"

text \<open>The checks on the state of the transport found: the message when it is refused.\<close>

definition refused :: "int \<Rightarrow> atransport \<Rightarrow> string option" where
  "refused state x =
     (if connection_state x = CS_UNAUTHORIZED
      then Some ''device unauthorized. Please check the confirmation dialog on your device.''
      else if connection_state x = CS_OFFLINE then Some ''device offline''
      else if state \<noteq> CS_ANY \<and> connection_state x \<noteq> state then Some ''invalid device state''
      else None)"

text \<open>One attempt: \<open>None\<close> when the list does not come back to its head.\<close>

definition acquire_pass ::
  "int \<Rightarrow> transport_type \<Rightarrow> string option \<Rightarrow> 'z tregst_scheme \<Rightarrow> (addr \<times> bool \<times> string option) outcome option" where
  "acquire_pass state ttype sn st =
     (case ring_nodes (tlinks st) transport_list of
        None \<Rightarrow> None
      | Some ts \<Rightarrow> Some (
          bindE (acquire_loop ttype sn st ts NULL ''device not found'') (\<lambda>(result, ambiguous, err).
            if result = NULL then Inr (NULL, ambiguous, Some err)
            else bindE (trans_at st result) (\<lambda>x.
              case refused state x of
                None \<Rightarrow> Inr (result, ambiguous, None)
              | Some msg \<Rightarrow> Inr (NULL, ambiguous, Some msg)))))"

text \<open>
  \<open>acquire_one_transport\<close>: \<open>world i\<close> is the state at the \<open>i\<close>-th attempt, one second after the one before. The number of the
  attempt that returns comes with the result; \<open>None\<close>: it waits for ever.
\<close>

partial_function (option) acquire_from ::
  "int \<Rightarrow> transport_type \<Rightarrow> string option \<Rightarrow> (nat \<Rightarrow> 'z tregst_scheme) \<Rightarrow> nat \<Rightarrow> bool
     \<Rightarrow> (nat \<times> addr \<times> string option) outcome option" where
  "acquire_from state ttype sn world i ambiguous =
     (case acquire_pass state ttype sn (world i) of
        None \<Rightarrow> None
      | Some (Inl e) \<Rightarrow> Some (Inl e)
      | Some (Inr (result, amb, err)) \<Rightarrow>
          if result \<noteq> NULL then Some (Inr (i, result, None))
          else if state \<noteq> CS_ANY \<and> (sn \<noteq> None \<or> \<not> (ambiguous \<or> amb))
          then acquire_from state ttype sn world (Suc i) (ambiguous \<or> amb)
          else Some (Inr (i, NULL, err)))"

definition acquire_one_transport ::
  "int \<Rightarrow> transport_type \<Rightarrow> string option \<Rightarrow> (nat \<Rightarrow> 'z tregst_scheme) \<Rightarrow> (nat \<times> addr \<times> string option) outcome option" where
  "acquire_one_transport state ttype sn world = acquire_from state ttype sn world 0 False"

section \<open>Listing\<close>

definition statename :: "atransport \<Rightarrow> string" where
  "statename x =
     (if connection_state x = CS_OFFLINE then ''offline''
      else if connection_state x = CS_BOOTLOADER then ''bootloader''
      else if connection_state x = CS_DEVICE then ''device''
      else if connection_state x = CS_HOST then ''host''
      else if connection_state x = CS_RECOVERY then ''recovery''
      else if connection_state x = CS_SIDELOAD then ''sideload''
      else if connection_state x = CS_NOPERM then ''no permissions''
      else if connection_state x = CS_UNAUTHORIZED then ''unauthorized''
      else ''unknown'')"

text \<open>The loop that replaces invalid characters from \<open>a\<close> up to \<open>b\<close>.\<close>

definition sanitise_range :: "nat \<Rightarrow> nat \<Rightarrow> byte list \<Rightarrow> byte list outcome" where
  "sanitise_range a b buf =
     (if a < b \<and> length buf < b then Inl (Bad_access ''buffer'')
      else Inr (take a buf @ map (sanitised True) (take (b - a) (drop a buf)) @ drop b buf))"

definition add_qual :: "nat \<Rightarrow> u32 \<Rightarrow> string \<Rightarrow> string option \<Rightarrow> bool \<Rightarrow> byte list \<Rightarrow> (nat \<times> u32 \<times> byte list) outcome" where
  "add_qual pos room prefix qual sanitize_qual buf =
     (if room = 0 \<or> qual = None \<or> qual = Some [] then Inr (pos, room, buf)
      else
        bindE (snprintf pos room (prefix @ the qual) buf) (\<lambda>(len, buf).
        bindE (if sanitize_qual then sanitise_range (pos + length prefix) (pos + unat len) buf else Inr buf) (\<lambda>buf.
          Inr (pos + unat len, room - len, buf))))"

definition pad22 :: "string \<Rightarrow> string" where
  "pad22 s = s @ replicate (22 - length s) CHR '' ''"

definition serial_text :: "treg \<Rightarrow> string" where
  "serial_text r = (case serial r of None \<Rightarrow> ''????????????'' | Some s \<Rightarrow> if s = [] then ''????????????'' else s)"

definition short_line :: "atransport \<Rightarrow> treg \<Rightarrow> string" where
  "short_line x r = serial_text r @ [CHR 0x09] @ statename x @ [CHR 0x0A]"

definition format_transport ::
  "atransport \<Rightarrow> treg \<Rightarrow> nat \<Rightarrow> u32 \<Rightarrow> bool \<Rightarrow> byte list \<Rightarrow> (u32 \<times> byte list) outcome" where
  "format_transport x r pos bufsize long_listing buf =
     (if \<not> long_listing then snprintf pos bufsize (short_line x r) buf
      else
        bindE (snprintf pos bufsize (pad22 (serial_text r) @ '' '' @ statename x) buf) (\<lambda>(len, buf).
        bindE (add_qual (pos + unat len) (bufsize - len) '' '' (devpath r) False buf) (\<lambda>(p, room, buf).
        bindE (add_qual p room '' product:'' (product x) False buf) (\<lambda>(p, room, buf).
        bindE (add_qual p room '' model:'' (model x) True buf) (\<lambda>(p, room, buf).
        bindE (add_qual p room '' device:'' (device x) False buf) (\<lambda>(p, room, buf).
        bindE (snprintf p room [CHR 0x0A] buf) (\<lambda>(len, buf).
          Inr (bufsize - (room - len), buf))))))))"

fun list_loop :: "bool \<Rightarrow> 'z tregst_scheme \<Rightarrow> addr list \<Rightarrow> nat \<Rightarrow> byte list \<Rightarrow> (nat \<times> byte list) outcome" where
  "list_loop long_listing st [] p buf = Inr (p, buf)"
| "list_loop long_listing st (t # ts) p buf =
     bindE (trans_at st t) (\<lambda>x. bindE (reg_at st t) (\<lambda>r.
     bindE (format_transport x r p (of_nat (length buf - p)) long_listing buf) (\<lambda>(len, buf).
       if int p + sint len \<ge> int (length buf) then Inr (p, buf)
       else list_loop long_listing st ts (nat (int p + sint len)) buf)))"

text \<open>\<open>list_transports\<close>: the length of the text and the buffer.\<close>

definition list_transports :: "byte list \<Rightarrow> bool \<Rightarrow> 'z tregst_scheme \<Rightarrow> (nat \<times> byte list) outcome option" where
  "list_transports buf long_listing st =
     (case ring_nodes (tlinks st) transport_list of
        None \<Rightarrow> None
      | Some ts \<Rightarrow> Some (
          bindE (list_loop long_listing st ts 0 buf) (\<lambda>(p, buf).
          bindE (write_at p [CHR 0x00] buf) (\<lambda>buf. Inr (p, buf)))))"

text \<open>\<open>list_transports_msg\<close>: the text with its length in front; the terminating NUL of the header falls on the first byte of the
  text, before \<open>memcpy\<close> of four bytes.\<close>

definition list_transports_msg :: "byte list \<Rightarrow> 'z tregst_scheme \<Rightarrow> (nat \<times> byte list) outcome option" where
  "list_transports_msg buf st =
     map_option (\<lambda>r. bindE r (\<lambda>(len, rest). Inr (len + 4, take 4 (fmt_04x len) @ rest)))
       (list_transports (drop 4 buf) False st)"

section \<open>The lists of transports\<close>

text \<open>\<open>t->next->prev = t->prev; t->prev->next = t->next\<close>; the links of \<open>t\<close> stay as they are.\<close>

definition unlink_transport :: "addr \<Rightarrow> links \<Rightarrow> links" where
  "unlink_transport t h = (let h = set_prv (nxt h t) (prv h t) h in set_nxt (prv h t) (nxt h t) h)"

definition link_transport :: "addr \<Rightarrow> addr \<Rightarrow> links \<Rightarrow> links" where
  "link_transport lst t h =
     (let h = set_nxt t lst h;
          h = set_prv t (prv h lst) h;
          h = set_prv (nxt h t) t h
      in set_nxt (prv h t) t h)"

text \<open>The functions of local (TCP) transports and of USB transports behind \<open>t->kick\<close> and \<open>t->close\<close>.\<close>

fun clear_first :: "addr \<Rightarrow> addr list \<Rightarrow> addr list" where
  "clear_first t [] = []"
| "clear_first t (x # xs) = (if x = t then NULL # xs else x # clear_first t xs)"

definition local_remote_kick :: "bool \<Rightarrow> addr \<Rightarrow> 'z tregst_scheme \<Rightarrow> 'z tregst_scheme outcome" where
  "local_remote_kick hst t st =
     bindE (reg_at st t) (\<lambda>r.
     bindE (upd_reg t (\<lambda>r. r\<lparr>sfd := - 1\<rparr>) st) (\<lambda>st.
       Inr (st\<lparr>closed_fds := closed_fds st @ [sfd r],
               local_transports := (if hst then clear_first t (local_transports st) else local_transports st)\<rparr>)))"

definition usb_remote_kick :: "addr \<Rightarrow> 'z tregst_scheme \<Rightarrow> 'z tregst_scheme outcome" where
  "usb_remote_kick t st = bindE (reg_at st t) (\<lambda>r. Inr (st\<lparr>usb_kicks := usb_kicks st @ [usb r]\<rparr>))"

definition local_remote_close :: "addr \<Rightarrow> 'z tregst_scheme \<Rightarrow> 'z tregst_scheme outcome" where
  "local_remote_close t st = bindE (reg_at st t) (\<lambda>r. Inr (st\<lparr>closed_fds := closed_fds st @ [t_fd r]\<rparr>))"

definition usb_remote_close :: "addr \<Rightarrow> 'z tregst_scheme \<Rightarrow> 'z tregst_scheme outcome" where
  "usb_remote_close t st =
     bindE (reg_at st t) (\<lambda>r. upd_reg t (\<lambda>r. r\<lparr>usb := NULL\<rparr>) (st\<lparr>usb_closes := usb_closes st @ [usb r]\<rparr>))"

definition call_kick :: "bool \<Rightarrow> addr \<Rightarrow> 'z tregst_scheme \<Rightarrow> 'z tregst_scheme outcome" where
  "call_kick hst t st =
     bindE (reg_at st t) (\<lambda>r. if t_type r = KTransportUsb then usb_remote_kick t st else local_remote_kick hst t st)"

definition call_close :: "addr \<Rightarrow> 'z tregst_scheme \<Rightarrow> 'z tregst_scheme outcome" where
  "call_close t st =
     bindE (reg_at st t) (\<lambda>r. if t_type r = KTransportUsb then usb_remote_close t st else local_remote_close t st)"

definition kick_transport :: "bool \<Rightarrow> addr \<Rightarrow> 'z tregst_scheme \<Rightarrow> 'z tregst_scheme outcome" where
  "kick_transport hst t st =
     (if t = NULL then Inr st
      else bindE (reg_at st t) (\<lambda>r.
        if kicked r then Inr st
        else bindE (upd_reg t (\<lambda>r. r\<lparr>kicked := True\<rparr>) st) (call_kick hst t)))"

definition register_transport :: "addr \<Rightarrow> 'z tregst_scheme \<Rightarrow> 'z tregst_scheme" where
  "register_transport t st = st\<lparr>reg_queue := reg_queue st @ [(t, 1)]\<rparr>"

definition remove_transport :: "addr \<Rightarrow> 'z tregst_scheme \<Rightarrow> 'z tregst_scheme" where
  "remove_transport t st = st\<lparr>reg_queue := reg_queue st @ [(t, 0)]\<rparr>"

definition transport_unref_locked :: "bool \<Rightarrow> addr \<Rightarrow> 'z tregst_scheme \<Rightarrow> 'z tregst_scheme outcome" where
  "transport_unref_locked hst t st =
     bindE (upd_reg t (\<lambda>r. r\<lparr>ref_count := ref_count r - 1\<rparr>) st) (\<lambda>st.
     bindE (reg_at st t) (\<lambda>r.
       if ref_count r = 0 then
         bindE (kick_transport hst t st) (\<lambda>st. bindE (call_close t st) (\<lambda>st. Inr (remove_transport t st)))
       else Inr st))"

definition transport_unref :: "bool \<Rightarrow> addr \<Rightarrow> 'z tregst_scheme \<Rightarrow> 'z tregst_scheme outcome" where
  "transport_unref hst t st = (if t = NULL then Inr st else transport_unref_locked hst t st)"

text \<open>How the input and the output thread of a transport end.\<close>

definition thread_exit :: "bool \<Rightarrow> addr \<Rightarrow> 'z tregst_scheme \<Rightarrow> 'z tregst_scheme outcome" where
  "thread_exit hst t st = bindE (kick_transport hst t st) (transport_unref hst t)"

definition close_usb_devices :: "bool \<Rightarrow> 'z tregst_scheme \<Rightarrow> 'z tregst_scheme outcome option" where
  "close_usb_devices hst st =
     map_option (\<lambda>ts. fold (\<lambda>t r. bindE r (kick_transport hst t)) ts (Inr st)) (ring_nodes (tlinks st) transport_list)"

section \<open>Registration\<close>

text \<open>A \<open>calloc\<close>ed transport.\<close>

definition blank_transport :: atransport where
  "blank_transport = \<lparr>connection_state = CS_OFFLINE, online = False, t_key = NULL, token = replicate 20 CHR 0x00,
     failed_auth_attempts = 0, product = None, model = None, device = None, auth_fde = NULL\<rparr>"

definition new_transport :: "addr \<Rightarrow> atransport \<Rightarrow> treg \<Rightarrow> 'z tregst_scheme \<Rightarrow> 'z tregst_scheme" where
  "new_transport t x r st = st\<lparr>trans := (trans st)(t \<mapsto> x), regs := (regs st)(t \<mapsto> r)\<rparr>"

definition free_transport :: "addr \<Rightarrow> 'z tregst_scheme \<Rightarrow> 'z tregst_scheme" where
  "free_transport t st = st\<lparr>trans := (trans st)(t := None), regs := (regs st)(t := None)\<rparr>"

fun serial_taken :: "'z tregst_scheme \<Rightarrow> string \<Rightarrow> addr list \<Rightarrow> bool outcome" where
  "serial_taken st sn [] = Inr False"
| "serial_taken st sn (n # ns) =
     bindE (reg_at st n) (\<lambda>r. if serial r = Some sn then Inr True else serial_taken st sn ns)"

text \<open>The table of local transports.\<close>

fun find_emulator :: "'z tregst_scheme \<Rightarrow> int \<Rightarrow> addr list \<Rightarrow> addr outcome" where
  "find_emulator st port [] = Inr NULL"
| "find_emulator st port (t # ts) =
     (if t = NULL then find_emulator st port ts
      else bindE (reg_at st t) (\<lambda>r. if adb_port r = port then Inr t else find_emulator st port ts))"

definition find_emulator_transport_by_adb_port :: "int \<Rightarrow> 'z tregst_scheme \<Rightarrow> addr outcome" where
  "find_emulator_transport_by_adb_port port st = find_emulator st port (local_transports st)"

fun free_index :: "nat \<Rightarrow> addr list \<Rightarrow> int" where
  "free_index i [] = - 1"
| "free_index i (t # ts) = (if t = NULL then int i else free_index (Suc i) ts)"

definition get_available_local_transport_index :: "'z tregst_scheme \<Rightarrow> int" where
  "get_available_local_transport_index st = free_index 0 (local_transports st)"

definition init_socket_transport ::
  "bool \<Rightarrow> addr \<Rightarrow> int \<Rightarrow> int \<Rightarrow> bool \<Rightarrow> 'z tregst_scheme \<Rightarrow> (bool \<times> 'z tregst_scheme) outcome" where
  "init_socket_transport hst t s port lcl st =
     bindE (upd_trans t (\<lambda>x. x\<lparr>connection_state := CS_OFFLINE\<rparr>) st) (\<lambda>st.
     bindE (upd_reg t (\<lambda>r. r\<lparr>sfd := s, t_type := KTransportLocal, adb_port := 0\<rparr>) st) (\<lambda>st.
       if hst \<and> lcl then
         bindE (upd_reg t (\<lambda>r. r\<lparr>adb_port := port\<rparr>) st) (\<lambda>st.
         bindE (find_emulator_transport_by_adb_port port st) (\<lambda>existing.
           let index = get_available_local_transport_index st in
           if existing \<noteq> NULL then Inr (False, st)
           else if index < 0 then Inr (False, st)
           else Inr (True, st\<lparr>local_transports := (local_transports st)[nat index := t]\<rparr>)))
       else Inr (True, st)))"

text \<open>
  \<open>t\<close> is what \<open>calloc\<close> returned, \<open>fde\<close> the address of the event object in it, \<open>tname\<close> the name made from the address for a transport
  without a serial number. \<open>None\<close>: a list does not come back to its head.
\<close>

definition blank_treg :: "addr \<Rightarrow> treg" where
  "blank_treg fde = \<lparr>t_type = KTransportUsb, serial = None, devpath = None, usb = NULL, adb_port = 0, sfd = 0, ref_count = 0,
     kicked = False, t_fd = 0, transport_socket = 0, transport_fde = fde\<rparr>"

definition pend_transport :: "addr \<Rightarrow> 'z tregst_scheme \<Rightarrow> 'z tregst_scheme" where
  "pend_transport t st = register_transport t (st\<lparr>tlinks := link_transport pending_list t (tlinks st)\<rparr>)"

definition register_socket_transport ::
  "bool \<Rightarrow> addr \<Rightarrow> addr \<Rightarrow> int \<Rightarrow> string option \<Rightarrow> string \<Rightarrow> int \<Rightarrow> bool \<Rightarrow> 'z tregst_scheme
     \<Rightarrow> (bool \<times> 'z tregst_scheme) outcome option" where
  "register_socket_transport hst t fde s sn tname port lcl st =
     (let name = (case sn of None \<Rightarrow> tname | Some n \<Rightarrow> n) in
      case init_socket_transport hst t s port lcl (new_transport t blank_transport (blank_treg fde) st) of
        Inl e \<Rightarrow> Some (Inl e)
      | Inr (False, st) \<Rightarrow> Some (Inr (False, free_transport t st))
      | Inr (True, st) \<Rightarrow>
          (case (ring_nodes (tlinks st) pending_list, ring_nodes (tlinks st) transport_list) of
             (Some ps, Some ts) \<Rightarrow> Some (
               bindE (serial_taken st name ps) (\<lambda>b.
                 if b then Inr (False, free_transport t st)
                 else bindE (serial_taken st name ts) (\<lambda>b.
                   if b then Inr (False, free_transport t st)
                   else bindE (upd_reg t (\<lambda>r. r\<lparr>serial := Some name\<rparr>) st) (\<lambda>st. Inr (True, pend_transport t st)))))
           | _ \<Rightarrow> None))"

definition init_usb_transport :: "addr \<Rightarrow> addr \<Rightarrow> int \<Rightarrow> 'z tregst_scheme \<Rightarrow> 'z tregst_scheme outcome" where
  "init_usb_transport t h state st =
     bindE (upd_trans t (\<lambda>x. x\<lparr>connection_state := state\<rparr>) st) (upd_reg t (\<lambda>r. r\<lparr>t_type := KTransportUsb, usb := h\<rparr>))"

definition register_usb_transport ::
  "addr \<Rightarrow> addr \<Rightarrow> addr \<Rightarrow> string option \<Rightarrow> string option \<Rightarrow> bool \<Rightarrow> 'z tregst_scheme \<Rightarrow> 'z tregst_scheme outcome" where
  "register_usb_transport t fde handle sn dpath writeable st =
     bindE (init_usb_transport t handle (if writeable then CS_OFFLINE else CS_NOPERM)
              (new_transport t blank_transport (blank_treg fde) st)) (\<lambda>st.
     bindE (upd_reg t (\<lambda>r. r\<lparr>serial := sn, devpath := dpath\<rparr>) st) (\<lambda>st.
       Inr (pend_transport t st)))"

text \<open>
  The registration handler for the message at the front of the queue. \<open>pair\<close> are the two descriptors \<open>adb_socketpair\<close>
  makes. \<open>None\<close>: a list does not come back to its head.
\<close>

definition remove_action :: "addr \<Rightarrow> 'z tregst_scheme \<Rightarrow> 'z tregst_scheme outcome option" where
  "remove_action t st =
     (case bindE (reg_at st t) (\<lambda>r. fdevent_remove (transport_fde r) st) of
        Inl e \<Rightarrow> Some (Inl e)
      | Inr st \<Rightarrow>
          (case reg_at st t of
             Inl e \<Rightarrow> Some (Inl e)
           | Inr r \<Rightarrow>
               map_option (\<lambda>res. bindE res (\<lambda>st. let st = free_transport t st in Inr (st\<lparr>updates := updates st + 1\<rparr>)))
                 (run_transport_disconnects t
                    (st\<lparr>closed_fds := closed_fds st @ [t_fd r], tlinks := unlink_transport t (tlinks st)\<rparr>))))"

definition add_action :: "fdenv \<Rightarrow> int \<times> int \<Rightarrow> addr \<Rightarrow> 'z tregst_scheme \<Rightarrow> 'z tregst_scheme outcome" where
  "add_action env pair t st =
     bindE (trans_at st t) (\<lambda>x.
     bindE (if connection_state x \<noteq> CS_NOPERM then
              bindE (upd_reg t (\<lambda>r. r\<lparr>ref_count := 2, transport_socket := fst pair, t_fd := snd pair\<rparr>) st) (\<lambda>st.
              bindE (reg_at st t) (\<lambda>r.
              bindE (fdevent_install env (transport_fde r) (transport_socket r) Transport_socket_events t st) (\<lambda>st.
              bindE (fdevent_set (transport_fde r) FDE_READ st) (\<lambda>st.
                Inr (st\<lparr>threads := threads st @ [t, t]\<rparr>)))))
            else Inr st) (\<lambda>st.
       Inr (st\<lparr>tlinks := link_transport transport_list t (unlink_transport t (tlinks st)),
               dlinks := set_nxt t t (set_prv t t (dlinks st)), updates := updates st + 1\<rparr>)))"

definition transport_registration_func ::
  "fdenv \<Rightarrow> int \<times> int \<Rightarrow> u16 \<Rightarrow> 'z tregst_scheme \<Rightarrow> 'z tregst_scheme outcome option" where
  "transport_registration_func env pair ev st =
     (if \<not> has ev FDE_READ then Some (Inr st)
      else case reg_queue st of
        [] \<Rightarrow> Some (Inl (Fatal ''cannot read transport registration socket''))
      | (t, action) # q \<Rightarrow>
          let st = st\<lparr>reg_queue := q\<rparr> in
          if action = 0 then remove_action t st else Some (add_action env pair t st))"

fun find_serial :: "'z tregst_scheme \<Rightarrow> string \<Rightarrow> addr list \<Rightarrow> addr outcome" where
  "find_serial st sn [] = Inr NULL"
| "find_serial st sn (t # ts) = bindE (reg_at st t) (\<lambda>r. if serial r = Some sn then Inr t else find_serial st sn ts)"

definition find_transport :: "string \<Rightarrow> 'z tregst_scheme \<Rightarrow> addr outcome option" where
  "find_transport sn st = map_option (find_serial st sn) (ring_nodes (tlinks st) transport_list)"

definition unregister_transport :: "bool \<Rightarrow> addr \<Rightarrow> 'z tregst_scheme \<Rightarrow> 'z tregst_scheme outcome" where
  "unregister_transport hst t st =
     bindE (kick_transport hst t (st\<lparr>tlinks := unlink_transport t (tlinks st)\<rparr>)) (transport_unref hst t)"

text \<open>The loop over the transports that were in the list at the start: the next one is read before the current one is unlinked.\<close>

fun unregister_tcp :: "bool \<Rightarrow> addr list \<Rightarrow> 'z tregst_scheme \<Rightarrow> 'z tregst_scheme outcome" where
  "unregister_tcp hst [] st = Inr st"
| "unregister_tcp hst (t # ts) st =
     bindE (reg_at st t) (\<lambda>r.
       if t_type r = KTransportLocal \<and> adb_port r = 0 then
         bindE (kick_transport hst t (st\<lparr>tlinks := unlink_transport t (tlinks st)\<rparr>)) (\<lambda>st.
         bindE (transport_unref_locked hst t st) (unregister_tcp hst ts))
       else unregister_tcp hst ts st)"

definition unregister_all_tcp_transports :: "bool \<Rightarrow> 'z tregst_scheme \<Rightarrow> 'z tregst_scheme outcome option" where
  "unregister_all_tcp_transports hst st = map_option (\<lambda>ts. unregister_tcp hst ts st) (ring_nodes (tlinks st) transport_list)"

fun find_usb :: "addr \<Rightarrow> 'z tregst_scheme \<Rightarrow> addr list \<Rightarrow> addr outcome" where
  "find_usb handle st [] = Inr NULL"
| "find_usb handle st (t # ts) =
     bindE (trans_at st t) (\<lambda>x. bindE (reg_at st t) (\<lambda>r.
       if usb r = handle \<and> connection_state x = CS_NOPERM then Inr t else find_usb handle st ts))"

definition unregister_usb_transport :: "addr \<Rightarrow> 'z tregst_scheme \<Rightarrow> 'z tregst_scheme outcome option" where
  "unregister_usb_transport handle st =
     map_option (\<lambda>ts. bindE (find_usb handle st ts) (\<lambda>t.
         Inr (if t = NULL then st else st\<lparr>tlinks := unlink_transport t (tlinks st)\<rparr>)))
       (ring_nodes (tlinks st) transport_list)"

end
