(* ===== verification/Smart.thy ===== *)
theory Smart
  imports Transports
begin

text \<open>
  The smart sockets of \<open>sockets.cpp\<close>, which read the request of a client, and \<open>handle_host_request\<close> of \<open>adb.cpp\<close>, which
  answers the requests to the server itself. The NULs that the code writes into the request buffer to split a request are not kept:
  nothing reads them again.

  Environment: \<open>server_fd\<close> (\<open>local_name_to_fd\<close>), \<open>connect_fd\<close> (the connection to an emulator's port, negative when there is none)
  and \<open>host_service\<close> (\<open>create_host_service_socket\<close>: the new socket or \<open>NULL\<close>).
\<close>

record 'st hostenv =
  henv :: adbenv
  server_fd :: "string \<Rightarrow> int"
  connect_fd :: "int \<Rightarrow> int"
  host_service :: "string \<Rightarrow> string option \<Rightarrow> 'st \<Rightarrow> (addr \<times> 'st) outcome"

section \<open>Text\<close>

definition hex_value :: "char \<Rightarrow> nat option" where
  "hex_value c =
     (if between CHR ''0'' CHR ''9'' c then Some (of_char c - of_char CHR ''0'')
      else if between CHR ''a'' CHR ''f'' c then Some (of_char c - of_char CHR ''a'' + 10)
      else if between CHR ''A'' CHR ''F'' c then Some (of_char c - of_char CHR ''A'' + 10)
      else None)"

fun unhex_loop :: "byte list \<Rightarrow> u32 \<Rightarrow> u32" where
  "unhex_loop [] n = n"
| "unhex_loop (c # cs) n =
     (case hex_value c of None \<Rightarrow> 0xffffffff | Some v \<Rightarrow> unhex_loop cs ((push_bit 4 n) OR of_nat v))"

definition unhex :: "byte list \<Rightarrow> nat \<Rightarrow> u32" where
  "unhex s len = unhex_loop (take len s) 0"

definition has_prefix :: "string \<Rightarrow> string \<Rightarrow> bool" where
  "has_prefix p s \<longleftrightarrow> take (length p) s = p"

definition prefixes :: "string list" where
  "prefixes = [''usb:'', ''product:'', ''model:'', ''device:'']"

text \<open>\<open>strchr\<close> from position \<open>i\<close>.\<close>

definition strchr_from :: "nat \<Rightarrow> char \<Rightarrow> string \<Rightarrow> nat option" where
  "strchr_from i c s =
     (let n = length (takeWhile (\<lambda>x. x \<noteq> c) (drop i s)) in if i + n < length s then Some (i + n) else None)"

definition isdigit :: "char \<Rightarrow> bool" where
  "isdigit c \<longleftrightarrow> between CHR ''0'' CHR ''9'' c"

text \<open>The position of the end of the serial number; \<open>None\<close> is \<open>NULL\<close>.\<close>

definition skip_host_serial :: "string \<Rightarrow> nat option" where
  "skip_host_serial service =
     (case find (\<lambda>p. has_prefix p service) prefixes of
        Some p \<Rightarrow> strchr_from (length p) CHR '':'' service
      | None \<Rightarrow>
          (case strchr_from 0 CHR '':'' service of
             None \<Rightarrow> None
           | Some first_colon \<Rightarrow>
               let digits = takeWhile isdigit (drop (first_colon + 1) service);
                   serial_end = first_colon + 1 + length digits in
               if digits \<noteq> [] \<and> serial_end < length service \<and> service ! serial_end = CHR '':'' then Some serial_end
               else Some first_colon))"

definition is_space :: "char \<Rightarrow> bool" where
  "is_space c \<longleftrightarrow> c = CHR '' '' \<or> between CHR 0x09 CHR 0x0D c"

definition digits_value :: "string \<Rightarrow> nat" where
  "digits_value s = foldl (\<lambda>n c. n * 10 + (of_char c - of_char CHR ''0'')) 0 s"

definition atoi :: "string \<Rightarrow> int" where
  "atoi s =
     (let s = dropWhile is_space s;
          (neg, s) = (case s of c # r \<Rightarrow> if c = CHR ''-'' then (True, r) else if c = CHR ''+'' then (False, r) else (False, s) | [] \<Rightarrow> (False, s));
          v = int (digits_value (takeWhile isdigit s))
      in if neg then - v else v)"

section \<open>Replies\<close>

definition send_msg_with_okay :: "int \<Rightarrow> string \<Rightarrow> 'z sockst_scheme \<Rightarrow> 'z sockst_scheme" where
  "send_msg_with_okay fd msg st =
     (let len = min (length msg) 0xffff;
          st = snd (sock_writex fd (take 8 (''OKAY'' @ fmt_04x len)) st)
      in snd (sock_writex fd (take len msg) st))"

definition write_once :: "int \<Rightarrow> string \<Rightarrow> 'z sockst_scheme \<Rightarrow> 'z sockst_scheme" where
  "write_once fd bs st = (case adb_write fd bs st of (r, e, st) \<Rightarrow> st)"

definition connection_state_name :: "atransport option \<Rightarrow> string" where
  "connection_state_name t =
     (case t of
        None \<Rightarrow> ''unknown''
      | Some x \<Rightarrow>
          if connection_state x = CS_BOOTLOADER then ''bootloader''
          else if connection_state x = CS_DEVICE then ''device''
          else if connection_state x = CS_RECOVERY then ''recovery''
          else if connection_state x = CS_SIDELOAD then ''sideload''
          else if connection_state x = CS_OFFLINE then ''offline''
          else if connection_state x = CS_UNAUTHORIZED then ''unauthorized''
          else ''unknown'')"

section \<open>The list of forwards\<close>

text \<open>The line of a listener; a transport without a serial number makes \<open>strlen\<close> read from \<open>NULL\<close>.\<close>

definition listener_line :: "alistener \<Rightarrow> 'z tregst_scheme \<Rightarrow> string outcome" where
  "listener_line x st =
     bindE (reg_at st (l_transport x)) (\<lambda>r.
       case serial r of
         None \<Rightarrow> Inl (Bad_access ''strlen'')
       | Some s \<Rightarrow> Inr (s @ '' '' @ local_name x @ '' '' @ connect_to x @ [CHR 0x0A]))"

text \<open>\<open>buf\<close> is the buffer, the position in it and \<open>buflen\<close>; \<open>None\<close> is \<open>NULL\<close>.\<close>

definition format_listener ::
  "alistener \<Rightarrow> (byte list \<times> nat \<times> u32) option \<Rightarrow> 'z tregst_scheme \<Rightarrow> (nat \<times> byte list option) outcome" where
  "format_listener x buf st =
     bindE (listener_line x st) (\<lambda>line.
       case buf of
         None \<Rightarrow> Inr (length line, None)
       | Some (b, pos, buflen) \<Rightarrow> bindE (snprintf pos buflen line b) (\<lambda>(_, b). Inr (length line, Some b)))"

fun format_loop ::
  "addr list \<Rightarrow> (byte list \<times> nat \<times> u32) option \<Rightarrow> nat \<Rightarrow> 'z tregst_scheme \<Rightarrow> (nat \<times> byte list option) outcome" where
  "format_loop [] buf result st = Inr (result, map_option fst buf)"
| "format_loop (l # ls) buf result st =
     bindE (listener_at st l) (\<lambda>x.
       if is_special x then format_loop ls buf result st
       else bindE (format_listener x buf st) (\<lambda>(len, b').
         case (buf, b') of
           (Some (b, pos, buflen), Some b') \<Rightarrow>
             let buflen = buflen - of_nat len in
             if buflen = 0 then Inr (result + len, Some b') else format_loop ls (Some (b', pos + len, buflen)) (result + len) st
         | _ \<Rightarrow> format_loop ls None (result + len) st))"

definition format_listeners ::
  "(byte list \<times> u32) option \<Rightarrow> 'z tregst_scheme \<Rightarrow> (nat \<times> byte list option) outcome option" where
  "format_listeners buf st =
     map_option (\<lambda>ls. format_loop ls (map_option (\<lambda>(b, buflen). (b, 0, buflen)) buf) 0 st) (ring_nodes (llinks st) listener_list)"

section \<open>Requests to the server\<close>

definition bindO :: "'a outcome option \<Rightarrow> ('a \<Rightarrow> 'b outcome option) \<Rightarrow> 'b outcome option" where
  "bindO m f = (case m of None \<Rightarrow> None | Some (Inl e) \<Rightarrow> Some (Inl e) | Some (Inr x) \<Rightarrow> f x)"

definition ADB_SERVER_VERSION :: nat where "ADB_SERVER_VERSION = 31"

definition cstring :: "byte list \<Rightarrow> string" where
  "cstring bs = takeWhile (\<lambda>c. c \<noteq> CHR 0x00) bs"

definition local_connect_arbitrary_ports :: "'z tregst_scheme hostenv \<Rightarrow> int \<Rightarrow> int \<Rightarrow> 'z tregst_scheme \<Rightarrow> (int \<times> 'z tregst_scheme) outcome option" where
  "local_connect_arbitrary_ports env console_port port st =
     (let fd = connect_fd env port in
      if fd < 0 then Some (Inr (- 1, st))
      else
        let (t, st) = next_addr st; (fde, st) = next_addr st;
            name = take 63 (''emulator-'' @ fmt_d console_port) in
        bindO (register_socket_transport (HOST (henv env)) t fde fd (Some name) [] port True st) (\<lambda>(_, st). Some (Inr (0, st))))"

definition local_connect :: "'z tregst_scheme hostenv \<Rightarrow> int \<Rightarrow> 'z tregst_scheme \<Rightarrow> (int \<times> 'z tregst_scheme) outcome option" where
  "local_connect env port st = local_connect_arbitrary_ports env (port - 1) port st"

text \<open>\<open>transport\<close>...: the type and the serial number that are asked for.\<close>

definition switch_target :: "string \<Rightarrow> string option \<Rightarrow> transport_type \<times> string option" where
  "switch_target service sn =
     (if has_prefix ''transport-usb'' service then (KTransportUsb, sn)
      else if has_prefix ''transport-local'' service then (KTransportLocal, sn)
      else if has_prefix ''transport-any'' service then (KTransportAny, sn)
      else if has_prefix ''transport:'' service then (KTransportAny, Some (drop 10 service))
      else (KTransportAny, sn))"

definition request_transport ::
  "string \<Rightarrow> string option \<Rightarrow> int \<Rightarrow> addr \<Rightarrow> 'z tregst_scheme \<Rightarrow> (int \<times> 'z tregst_scheme) outcome option" where
  "request_transport service sn reply_fd s st =
     (let (type, sn) = switch_target service sn in
      bindO (acquire_one_transport CS_ANY type sn (\<lambda>_. st)) (\<lambda>(_, t, err).
        Some (if t \<noteq> NULL then
                bindE (upd_sock s (\<lambda>q. q\<lparr>s_transport := t\<rparr>) st) (\<lambda>st. Inr (1, write_once reply_fd ''OKAY'' st))
              else Inr (1, snd (sendfailmsg reply_fd (case err of None \<Rightarrow> [] | Some e \<Rightarrow> e) st)))))"

definition request_disconnect ::
  "'z tregst_scheme hostenv \<Rightarrow> string \<Rightarrow> int \<Rightarrow> 'z tregst_scheme \<Rightarrow> (int \<times> 'z tregst_scheme) outcome option" where
  "request_disconnect env sn reply_fd st =
     (let hst = HOST (henv env) in
      if sn = [] then
        bindO (unregister_all_tcp_transports hst st) (\<lambda>st. Some (Inr (0, send_msg_with_okay reply_fd [] st)))
      else
        let sn = (if CHR '':'' \<notin> set sn then take 98 (sn @ '':5555'') else sn) in
        bindO (find_transport sn st) (\<lambda>t.
          if t \<noteq> NULL then bindO (Some (unregister_transport hst t st)) (\<lambda>st. Some (Inr (0, send_msg_with_okay reply_fd [] st)))
          else Some (Inr (0, send_msg_with_okay reply_fd (take 4095 (''No such device '' @ sn)) st))))"

text \<open>\<open>get-serialno\<close> and \<open>get-devpath\<close>: \<open>field\<close> is the text the transport may have.\<close>

definition request_field ::
  "(treg \<Rightarrow> string option) \<Rightarrow> transport_type \<Rightarrow> string option \<Rightarrow> int \<Rightarrow> 'z tregst_scheme \<Rightarrow> (int \<times> 'z tregst_scheme) outcome option" where
  "request_field field ttype sn reply_fd st =
     bindO (acquire_one_transport CS_ANY ttype sn (\<lambda>_. st)) (\<lambda>(_, t, _).
       Some (bindE (if t = NULL then Inr None else bindE (reg_at st t) (\<lambda>r. Inr (field r))) (\<lambda>out.
         Inr (0, send_msg_with_okay reply_fd (case out of None \<Rightarrow> ''unknown'' | Some txt \<Rightarrow> txt) st))))"

definition request_list_forward :: "int \<Rightarrow> 'z tregst_scheme \<Rightarrow> (int \<times> 'z tregst_scheme) outcome option" where
  "request_list_forward reply_fd st =
     bindO (format_listeners None st) (\<lambda>(n, _).
     bindO (format_listeners (Some (replicate (n + 1) CHR 0x00, of_nat (n + 1))) st) (\<lambda>(_, buf).
       Some (Inr (0, send_msg_with_okay reply_fd (take n (the buf)) st))))"

text \<open>The parts of \<open>forward:\<close> and \<open>killforward:\<close> requests: the local and the remote name; \<open>None\<close> when malformed.\<close>

definition forward_spec :: "bool \<Rightarrow> string \<Rightarrow> (bool \<times> string \<times> string) option" where
  "forward_spec create service =
     (let rest = tl (dropWhile (\<lambda>c. c \<noteq> CHR '':'') service);
          no_rebind = (create \<and> has_prefix ''norebind:'' rest);
          lcl = (if no_rebind then drop 9 rest else rest) in
      if create then
        (case cut CHR '';'' lcl of
           None \<Rightarrow> None
         | Some (l, remote) \<Rightarrow> if l = [] \<or> remote = [] \<or> hd remote = CHR ''*'' then None else Some (no_rebind, l, remote))
      else if lcl = [] then None else Some (False, lcl, []))"

definition status_message :: "install_status \<Rightarrow> string" where
  "status_message r =
     (case r of
        INSTALL_STATUS_CANNOT_BIND \<Rightarrow> ''cannot bind to socket''
      | INSTALL_STATUS_CANNOT_REBIND \<Rightarrow> ''cannot rebind existing socket''
      | _ \<Rightarrow> ''internal error'')"

definition request_forward ::
  "'z tregst_scheme hostenv \<Rightarrow> string \<Rightarrow> transport_type \<Rightarrow> string option \<Rightarrow> int \<Rightarrow> 'z tregst_scheme
     \<Rightarrow> (int \<times> 'z tregst_scheme) outcome option" where
  "request_forward env service ttype sn reply_fd st =
     (let create = \<not> has_prefix ''kill'' service in
      case forward_spec create service of
        None \<Rightarrow> Some (Inr (0, snd (sendfailmsg reply_fd ''malformed forward spec'' st)))
      | Some (no_rebind, l, remote) \<Rightarrow>
          bindO (acquire_one_transport CS_ANY ttype sn (\<lambda>_. st)) (\<lambda>(_, t, err).
            if t = NULL then Some (Inr (0, snd (sendfailmsg reply_fd (case err of None \<Rightarrow> [] | Some e \<Rightarrow> e) st)))
            else if create then
              let (new, st) = next_addr st in
              bindO (install_listener (cenv (henv env)) (server_fd env) new l remote t no_rebind st) (\<lambda>(r, st).
                Some (Inr (0, if r = INSTALL_STATUS_OK then snd (sock_writex reply_fd ''OKAYOKAY'' st)
                              else snd (sendfailmsg reply_fd (status_message r) st))))
            else
              bindO (remove_listener l st) (\<lambda>(r, st).
                Some (Inr (0, if r = 0 then snd (sock_writex reply_fd ''OKAYOKAY'' st)
                              else snd (sendfailmsg reply_fd ''cannot remove listener'' st))))))"

text \<open>\<open>exit\<close> is the fault \<open>Fatal\<close>.\<close>

definition handle_host_request ::
  "'z tregst_scheme hostenv \<Rightarrow> string \<Rightarrow> transport_type \<Rightarrow> string option \<Rightarrow> int \<Rightarrow> addr \<Rightarrow> 'z tregst_scheme
     \<Rightarrow> (int \<times> 'z tregst_scheme) outcome option" where
  "handle_host_request env service ttype sn reply_fd s st =
     (if service = ''kill'' then Some (Inl (Fatal ''exit''))
      else if has_prefix ''transport'' service then request_transport service sn reply_fd s st
      else if service = ''devices-l'' \<or> service = ''devices'' then
        bindO (list_transports (replicate 4096 CHR 0x00) (service = ''devices-l'') st) (\<lambda>(_, buf).
          Some (Inr (0, send_msg_with_okay reply_fd (cstring buf) st)))
      else if has_prefix ''disconnect:'' service then request_disconnect env (drop 11 service) reply_fd st
      else if service = ''version'' then Some (Inr (0, send_msg_with_okay reply_fd (fmt_04x ADB_SERVER_VERSION) st))
      else if has_prefix ''get-serialno'' service then request_field serial ttype sn reply_fd st
      else if has_prefix ''get-devpath'' service then request_field devpath ttype sn reply_fd st
      else if has_prefix ''emulator:'' service then
        bindO (local_connect env (atoi (drop 9 service)) st) (\<lambda>(_, st). Some (Inr (0, st)))
      else if service = ''list-forward'' then request_list_forward reply_fd st
      else if service = ''killforward-all'' then
        bindO (remove_all_listeners st) (\<lambda>st. Some (Inr (0, write_once reply_fd ''OKAYOKAY'' st)))
      else if has_prefix ''forward:'' service \<or> has_prefix ''killforward:'' service then
        request_forward env service ttype sn reply_fd st
      else if has_prefix ''get-state'' service then
        bindO (acquire_one_transport CS_ANY ttype sn (\<lambda>_. st)) (\<lambda>(_, t, _).
          Some (Inr (0, send_msg_with_okay reply_fd (connection_state_name (if t = NULL then None else trans st t)) st)))
      else Some (Inr (- 1, st)))"

section \<open>The request of a client\<close>

text \<open>The prefix of a request: what is left of the service, the transport type and the serial number. \<open>None\<close>: not for the server.\<close>

definition host_prefix :: "string \<Rightarrow> (string \<times> transport_type \<times> string option) option" where
  "host_prefix service =
     (if has_prefix ''host-serial:'' service then
        let service = drop 12 service in
        (case skip_host_serial service of
           None \<Rightarrow> Some (service, KTransportAny, None)
         | Some e \<Rightarrow> Some (drop (e + 1) service, KTransportAny, Some (take e service)))
      else if has_prefix ''host-usb:'' service then Some (drop 9 service, KTransportUsb, None)
      else if has_prefix ''host-local:'' service then Some (drop 11 service, KTransportLocal, None)
      else if has_prefix ''host:'' service then Some (drop 5 service, KTransportAny, None)
      else None)"

text \<open>The packet gathered so far with the new one appended; \<open>None\<close> when it does not fit.\<close>

definition gather :: "asocket \<Rightarrow> apacket \<Rightarrow> apacket option" where
  "gather s p =
     (case s_pkts s of
        [] \<Rightarrow> Some p
      | p0 # _ \<Rightarrow>
          if plen p0 + plen p > of_nat MAX_PAYLOAD then None
          else
            let n = unat (plen p0); k = unat (plen p) in
            Some (p0\<lparr>pdata := take n (pdata p0) @ take k (pdata p) @ drop (n + k) (pdata p0), plen := plen p0 + plen p\<rparr>))"

definition fail_smart :: "addr \<Rightarrow> 'z tregst_scheme \<Rightarrow> (int \<times> 'z tregst_scheme) outcome option" where
  "fail_smart a st = bindO (Some (sclose a st)) (\<lambda>st. Some (Inr (- 1, st)))"

text \<open>The connection of the client to a service of the server itself.\<close>

definition bind_host_service :: "addr \<Rightarrow> addr \<Rightarrow> 'z tregst_scheme \<Rightarrow> 'z tregst_scheme outcome" where
  "bind_host_service a s2 st =
     bindE (sock_at st a) (\<lambda>s. bindE (sock_at st (s_peer s)) (\<lambda>q.
     let st = write_once (s_fd q) ''OKAY'' st in
     bindE (upd_sock (s_peer s) (\<lambda>q. q\<lparr>s_ready := Local_socket_ready, s_shutdown := No_shutdown, s_close := Local_socket_close, s_peer := s2\<rparr>) st) (\<lambda>st.
     bindE (upd_sock s2 (\<lambda>x. x\<lparr>s_peer := s_peer s\<rparr>) st) (\<lambda>st.
     bindE (upd_sock a (\<lambda>s. s\<lparr>s_peer := NULL\<rparr>) st) (\<lambda>st.
     bindE (sclose a st) (\<lambda>st.
       socket_ready s2 st))))))"

text \<open>The connection of the client to a service of a device.\<close>

definition bind_remote_service :: "addr \<Rightarrow> string \<Rightarrow> 'z tregst_scheme \<Rightarrow> 'z tregst_scheme outcome" where
  "bind_remote_service a name st =
     bindE (sock_at st a) (\<lambda>s.
     bindE (upd_sock (s_peer s) (\<lambda>q. q\<lparr>s_ready := Local_socket_ready_notify, s_shutdown := No_shutdown,
              s_close := Local_socket_close_notify, s_peer := NULL, s_transport := s_transport s\<rparr>) st) (\<lambda>st.
     bindE (connect_to_remote (s_peer s) name st) (\<lambda>st.
     bindE (upd_sock a (\<lambda>s. s\<lparr>s_peer := NULL\<rparr>) st) (\<lambda>st.
       sclose a st))))"

definition forward_to_device :: "addr \<Rightarrow> string \<Rightarrow> 'z tregst_scheme \<Rightarrow> (int \<times> 'z tregst_scheme) outcome option" where
  "forward_to_device a name st =
     bindO (Some (sock_at st a)) (\<lambda>s. bindO (Some (sock_at st (s_peer s))) (\<lambda>q.
     bindO (Some (if s_transport s = NULL then Inr True else bindE (trans_at st (s_transport s)) (\<lambda>x. Inr (connection_state x = CS_OFFLINE)))) (\<lambda>off.
       if off then fail_smart a (snd (sendfailmsg (s_fd q) ''device offline (x)'' st))
       else bindO (Some (bind_remote_service a name st)) (\<lambda>st. Some (Inr (1, st))))))"

text \<open>A whole request, after its length.\<close>

definition smart_request ::
  "'z tregst_scheme hostenv \<Rightarrow> addr \<Rightarrow> string \<Rightarrow> 'z tregst_scheme \<Rightarrow> (int \<times> 'z tregst_scheme) outcome option" where
  "smart_request env a req st =
     bindO (Some (sock_at st a)) (\<lambda>s. bindO (Some (sock_at st (s_peer s))) (\<lambda>q.
       if HOST (henv env) then
         (case host_prefix req of
            None \<Rightarrow> forward_to_device a req st
          | Some (service, ttype, sn) \<Rightarrow>
              bindO (handle_host_request env service ttype sn (s_fd q) a st) (\<lambda>(r, st).
                if r = 0 then fail_smart a st
                else if has_prefix ''transport'' service then
                  bindO (Some (upd_sock a (\<lambda>s. s\<lparr>s_pkts := map (\<lambda>p. p\<lparr>plen := 0\<rparr>) (s_pkts s)\<rparr>) st)) (\<lambda>st. Some (Inr (0, st)))
                else
                  bindO (Some (host_service env service sn st)) (\<lambda>(s2, st).
                    if s2 = NULL then fail_smart a (snd (sendfailmsg (s_fd q) ''unknown host service'' st))
                    else bindO (Some (bind_host_service a s2 st)) (\<lambda>st. Some (Inr (0, st))))))
       else
         bindO (if s_transport s \<noteq> NULL then Some (Inr (s_transport s, [], st))
                else bindO (acquire_one_transport CS_ANY KTransportAny None (\<lambda>_. st)) (\<lambda>(_, t, err).
                  Some (bindE (upd_sock a (\<lambda>s. s\<lparr>s_transport := t\<rparr>) st) (\<lambda>st. Inr (t, (case err of None \<Rightarrow> [] | Some e \<Rightarrow> e), st))))) (\<lambda>(t, err, st).
           if t = NULL then fail_smart a (snd (sendfailmsg (s_fd q) err st)) else forward_to_device a req st)))"

definition smart_socket_enqueue ::
  "'z tregst_scheme hostenv \<Rightarrow> addr \<Rightarrow> apacket \<Rightarrow> 'z tregst_scheme \<Rightarrow> (int \<times> 'z tregst_scheme) outcome option" where
  "smart_socket_enqueue env a p st =
     bindO (Some (sock_at st a)) (\<lambda>s.
       case gather s p of
         None \<Rightarrow> fail_smart a st
       | Some p \<Rightarrow>
           bindO (Some (upd_sock a (\<lambda>s. s\<lparr>s_pkts := [p]\<rparr>) st)) (\<lambda>st.
             if plen p < 4 then Some (Inr (0, st))
             else
               let len = unhex (pdata p) 4 in
               if len < 1 \<or> len > 1024 then fail_smart a st
               else if len + 4 > plen p then Some (Inr (0, st))
               else
                 let n = unat len in
                 if length (pdata p) \<le> n + 4 then Some (Inl (Bad_access ''payload''))
                 else
                   bindO (Some (upd_sock a (\<lambda>s. s\<lparr>s_pkts := [p\<lparr>pdata := (pdata p)[n + 4 := CHR 0x00]\<rparr>]\<rparr>) st)) (\<lambda>st.
                     smart_request env a (cstring (drop 4 ((pdata p)[n + 4 := CHR 0x00]))) st)))"

end
