(* ===== verification/Adb_Client.thy ===== *)
theory Adb_Client
  imports Smart
begin

text \<open>
  \<open>adb_client.cpp\<close>: how a client talks to the server. A request is its length in four hexadecimal digits and its text; the answer starts with \<open>OKAY\<close> or
  \<open>FAIL\<close>.

  A descriptor is the number of a connection. \<open>c_dial\<close> are the answers to the connection attempts to come: no connection, or the bytes that the server will
  send and the number of bytes it will take. \<open>launch_server\<close>, which starts a process, answers from the script \<open>c_launch\<close>. \<open>c_log\<close> records attempts, starts
  of the server and pauses. What is printed is left out.
\<close>

section \<open>State\<close>

record conn =
  c_inp :: "byte list"
  c_outp :: "byte list"
  c_room :: nat
  c_open :: bool

datatype client_ev = Dial "string option" int | Launch int | Sleep nat

record clientst =
  adb_transport :: transport_type
  adb_serial :: "string option"
  adb_server_port :: int
  adb_server_name :: "string option"
  adb_error :: string
  c_conns :: "conn list"
  c_dial :: "(byte list \<times> nat) option list"
  c_launch :: "bool list"
  c_log :: "client_ev list"

definition adb_set_transport :: "transport_type \<Rightarrow> string option \<Rightarrow> 'z clientst_scheme \<Rightarrow> 'z clientst_scheme" where
  "adb_set_transport ttype sn st = st\<lparr>adb_transport := ttype, adb_serial := sn\<rparr>"

definition adb_set_tcp_specifics :: "int \<Rightarrow> 'z clientst_scheme \<Rightarrow> 'z clientst_scheme" where
  "adb_set_tcp_specifics port st = st\<lparr>adb_server_port := port\<rparr>"

definition adb_set_tcp_name :: "string option \<Rightarrow> 'z clientst_scheme \<Rightarrow> 'z clientst_scheme" where
  "adb_set_tcp_name host st = st\<lparr>adb_server_name := host\<rparr>"

definition set_error :: "string \<Rightarrow> 'z clientst_scheme \<Rightarrow> 'z clientst_scheme" where
  "set_error msg st = st\<lparr>adb_error := msg\<rparr>"

text \<open>A connection attempt, \<open>readx\<close>, \<open>writex\<close> and \<open>adb_close\<close>. A descriptor that is not open is ignored, as by the descriptor table.\<close>

definition client_connect :: "'z clientst_scheme \<Rightarrow> int \<times> 'z clientst_scheme" where
  "client_connect st =
     (let st = st\<lparr>c_log := c_log st @ [Dial (adb_server_name st) (adb_server_port st)]\<rparr> in
      case c_dial st of
        Some (bs, n) # ds \<Rightarrow>
          (int (length (c_conns st)),
           st\<lparr>c_dial := ds, c_conns := c_conns st @ [\<lparr>c_inp = bs, c_outp = [], c_room = n, c_open = True\<rparr>]\<rparr>)
      | ds \<Rightarrow> (- 1, st\<lparr>c_dial := drop 1 ds\<rparr>))"

definition conn_ok :: "int \<Rightarrow> 'z clientst_scheme \<Rightarrow> bool" where
  "conn_ok fd st = (0 \<le> fd \<and> nat fd < length (c_conns st) \<and> c_open (c_conns st ! nat fd))"

definition upd_conn :: "int \<Rightarrow> (conn \<Rightarrow> conn) \<Rightarrow> 'z clientst_scheme \<Rightarrow> 'z clientst_scheme" where
  "upd_conn fd f st = (if conn_ok fd st then st\<lparr>c_conns := (c_conns st)[nat fd := f (c_conns st ! nat fd)]\<rparr> else st)"

definition client_readx :: "int \<Rightarrow> nat \<Rightarrow> 'z clientst_scheme \<Rightarrow> byte list option \<times> 'z clientst_scheme" where
  "client_readx fd n st =
     (if \<not> conn_ok fd st then (None, st)
      else case take_exact n (c_inp (c_conns st ! nat fd)) of
        None \<Rightarrow> (None, upd_conn fd (\<lambda>c. c\<lparr>c_inp := []\<rparr>) st)
      | Some (bs, rest) \<Rightarrow> (Some bs, upd_conn fd (\<lambda>c. c\<lparr>c_inp := rest\<rparr>) st))"

definition client_writex :: "int \<Rightarrow> byte list \<Rightarrow> 'z clientst_scheme \<Rightarrow> bool \<times> 'z clientst_scheme" where
  "client_writex fd bs st =
     (if \<not> conn_ok fd st then (False, st)
      else let n = c_room (c_conns st ! nat fd) in
        if length bs \<le> n then (True, upd_conn fd (\<lambda>c. c\<lparr>c_outp := c_outp c @ bs, c_room := n - length bs\<rparr>) st)
        else (False, upd_conn fd (\<lambda>c. c\<lparr>c_outp := c_outp c @ take n bs, c_room := 0\<rparr>) st))"

definition client_close :: "int \<Rightarrow> 'z clientst_scheme \<Rightarrow> 'z clientst_scheme" where
  "client_close fd st = upd_conn fd (\<lambda>c. c\<lparr>c_open := False\<rparr>) st"

section \<open>Numbers\<close>

definition hex_digits :: "string \<Rightarrow> nat" where
  "hex_digits s = foldl (\<lambda>n c. n * 16 + (case hex_value c of None \<Rightarrow> 0 | Some v \<Rightarrow> v)) 0 s"

definition is_hex :: "char \<Rightarrow> bool" where
  "is_hex c = (hex_value c \<noteq> None)"

text \<open>\<open>strtoul (s, 0, 16)\<close> of at most four characters (\<open>unsigned long\<close> has 32 bits): spaces, a sign, \<open>0x\<close>, digits.\<close>

definition split_sign :: "string \<Rightarrow> bool \<times> string" where
  "split_sign s = (take 1 s = ''-'', if take 1 s = ''-'' \<or> take 1 s = ''+'' then drop 1 s else s)"

definition skip_0x :: "string \<Rightarrow> string" where
  "skip_0x s = (if take 2 s = ''0x'' \<or> take 2 s = ''0X'' then drop 2 s else s)"

definition strtoul16 :: "string \<Rightarrow> u32" where
  "strtoul16 s =
     (case split_sign (dropWhile is_space s) of (neg, s) \<Rightarrow>
        let v = of_nat (hex_digits (takeWhile is_hex (skip_0x s))) in if neg then - v else v)"

text \<open>
  \<open>sscanf (s, "%04x", ...)\<close>: at most four characters after the spaces. \<open>s\<close> is the initialised part of the array; without a zero or another
  character that ends the number, the call reads on behind it.
\<close>

definition scan_04x :: "byte list \<Rightarrow> u32 option outcome" where
  "scan_04x s =
     (let r = dropWhile is_space s;
          (neg, w) = split_sign (take 4 r);
          ds = takeWhile is_hex (skip_0x w);
          v = of_nat (hex_digits ds) in
      if length r < 4 \<and> ds = skip_0x w then Inl (Bad_access ''buf'')
      else Inr (if ds = [] then None else Some (if neg then - v else v)))"

section \<open>The protocol\<close>

definition fmt_02x :: "char \<Rightarrow> string" where
  "fmt_02x c = (let n = of_char c in [hex_digit (n div 16), hex_digit (n mod 16)])"

definition adb_status :: "int \<Rightarrow> 'z clientst_scheme \<Rightarrow> int \<times> 'z clientst_scheme" where
  "adb_status fd st =
     (case client_readx fd 4 st of
        (None, st) \<Rightarrow> (- 1, set_error ''protocol fault (no status)'' st)
      | (Some buf, st) \<Rightarrow>
          if buf = ''OKAY'' then (0, st)
          else if buf \<noteq> ''FAIL'' then
            (- 1, set_error (''protocol fault (status '' @ concat (map (\<lambda>c. fmt_02x c @ '' '') (take 3 buf)) @ fmt_02x (buf ! 3) @ ''?!)'') st)
          else (case client_readx fd 4 st of
              (None, st) \<Rightarrow> (- 1, set_error ''protocol fault (status len)'' st)
            | (Some buf, st) \<Rightarrow>
                (case client_readx fd (min 255 (unat (strtoul16 (cstring buf)))) st of
                   (None, st) \<Rightarrow> (- 1, set_error ''protocol fault (status read)'' st)
                 | (Some msg, st) \<Rightarrow> (- 1, set_error (cstring msg) st))))"

text \<open>A request: the length in four digits, then the text.\<close>

definition write_request :: "int \<Rightarrow> string \<Rightarrow> 'z clientst_scheme \<Rightarrow> bool \<times> 'z clientst_scheme" where
  "write_request fd service st =
     (case client_writex fd (fmt_04x (length service)) st of
        (False, st) \<Rightarrow> (False, st)
      | (True, st) \<Rightarrow> client_writex fd service st)"

definition request_and_status :: "int \<Rightarrow> string \<Rightarrow> 'z clientst_scheme \<Rightarrow> int \<times> 'z clientst_scheme" where
  "request_and_status fd service st =
     (case write_request fd service st of
        (False, st) \<Rightarrow> (- 1, client_close fd (set_error ''write failure during connection'' st))
      | (True, st) \<Rightarrow>
          (case adb_status fd st of (r, st) \<Rightarrow> if r \<noteq> 0 then (- 1, client_close fd st) else (0, st)))"

text \<open>
  \<open>switch_socket_transport\<close>. \<open>snprintf\<close> is \<open>_snprintf\<close> on Windows, which leaves out the terminating zero when the text fills the array: \<open>strlen\<close> then
  reads behind it.
\<close>

definition transport_request :: "'z clientst_scheme \<Rightarrow> string option" where
  "transport_request st =
     (case adb_serial st of
        Some sn \<Rightarrow> Some (''host:transport:'' @ sn)
      | None \<Rightarrow>
          (case adb_transport st of
             KTransportUsb \<Rightarrow> Some ''host:transport-usb''
           | KTransportLocal \<Rightarrow> Some ''host:transport-local''
           | KTransportAny \<Rightarrow> Some ''host:transport-any''
           | KTransportHost \<Rightarrow> None))"

definition switch_socket_transport :: "int \<Rightarrow> 'z clientst_scheme \<Rightarrow> (int \<times> 'z clientst_scheme) outcome" where
  "switch_socket_transport fd st =
     (case transport_request st of
        None \<Rightarrow> Inr (0, st)
      | Some service \<Rightarrow>
          if length service \<ge> 64 then Inl (Bad_access ''service'') else Inr (request_and_status fd service st))"

definition adb_connect1 :: "string \<Rightarrow> 'z clientst_scheme \<Rightarrow> (int \<times> 'z clientst_scheme) outcome" where
  "adb_connect1 service st =
     (if length service < 1 \<or> length service > 1024 then Inr (- 1, set_error ''service name too long'' st)
      else case client_connect st of
        (fd, st) \<Rightarrow>
          if fd < 0 then Inr (- 2, set_error ''cannot connect to daemon'' st)
          else
            bindE (if take 4 service \<noteq> ''host'' then switch_socket_transport fd st else Inr (0, st)) (\<lambda>(r, st).
              if r \<noteq> 0 then Inr (- 1, st)
              else (case request_and_status fd service st of (r, st) \<Rightarrow> Inr (if r \<noteq> 0 then - 1 else fd, st))))"

definition launch_server :: "'z clientst_scheme \<Rightarrow> bool \<times> 'z clientst_scheme" where
  "launch_server st =
     (take 1 (c_launch st) = [True],
      st\<lparr>c_launch := drop 1 (c_launch st), c_log := c_log st @ [Launch (adb_server_port st)]\<rparr>)"

definition adb_sleep_ms :: "nat \<Rightarrow> 'z clientst_scheme \<Rightarrow> 'z clientst_scheme" where
  "adb_sleep_ms ms st = st\<lparr>c_log := c_log st @ [Sleep ms]\<rparr>"

text \<open>
  The version that the server reports on \<open>fd\<close>: \<open>None\<close> is \<open>goto error\<close>. The answer is read over its own length in the array \<open>buf\<close>, whose fifth byte is zero.
\<close>

definition read_version :: "int \<Rightarrow> 'z clientst_scheme \<Rightarrow> (u32 option \<times> 'z clientst_scheme) outcome" where
  "read_version fd st =
     (case client_readx fd 4 st of
        (None, st) \<Rightarrow> Inr (None, client_close fd st)
      | (Some b, st) \<Rightarrow>
          let n = unat (strtoul16 (cstring b)) in
          if n > 100 then Inr (None, client_close fd st)
          else (case client_readx fd n st of
              (None, st) \<Rightarrow> Inr (None, client_close fd st)
            | (Some bs, st) \<Rightarrow>
                bindE (scan_04x (bs @ drop n (b @ [CHR 0x00]))) (\<lambda>v. Inr (v, client_close fd st))))"

text \<open>\<open>adb_connect\<close> from \<open>start_server\<close> on: \<open>Some\<close> is a return value, \<open>None\<close> goes on to the request.\<close>

definition start_server :: "'z clientst_scheme \<Rightarrow> int option \<times> 'z clientst_scheme" where
  "start_server st =
     (case launch_server st of (ok, st) \<Rightarrow> if ok then (None, adb_sleep_ms 3000 st) else (Some (- 1), st))"

definition restart_server :: "'z clientst_scheme \<Rightarrow> (int option \<times> 'z clientst_scheme) outcome" where
  "restart_server st =
     bindE (adb_connect1 ''host:kill'' st) (\<lambda>(fd, st). Inr (start_server (adb_sleep_ms 2000 (client_close fd st))))"

text \<open>What follows from the version that was read, or not, on \<open>fd\<close>.\<close>

definition judge_version :: "int \<Rightarrow> u32 option \<times> 'z clientst_scheme \<Rightarrow> (int option \<times> 'z clientst_scheme) outcome" where
  "judge_version fd p =
     (case p of (v, st) \<Rightarrow>
        if fd < 0 \<and> adb_error st \<noteq> ''unknown host service'' then Inr (Some fd, st)
        else case v of
          None \<Rightarrow> Inr (Some (- 1), st)
        | Some version \<Rightarrow> if version \<noteq> of_nat ADB_SERVER_VERSION then restart_server st else Inr (None, st))"

definition check_server :: "'z clientst_scheme \<Rightarrow> (int option \<times> 'z clientst_scheme) outcome" where
  "check_server st =
     bindE (adb_connect1 ''host:version'' st) (\<lambda>(fd, st).
       if fd = - 2 \<and> adb_server_name st \<noteq> None then Inr (Some fd, st)
       else if fd = - 2 then Inr (start_server st)
       else bindE (if fd \<ge> 0 then read_version fd st else Inr (Some (of_nat (ADB_SERVER_VERSION - 1)), st)) (judge_version fd))"

definition adb_connect :: "string \<Rightarrow> 'z clientst_scheme \<Rightarrow> (int \<times> 'z clientst_scheme) outcome" where
  "adb_connect service st =
     bindE (check_server st) (\<lambda>(r, st).
       case r of
         Some fd \<Rightarrow> Inr (fd, st)
       | None \<Rightarrow> if service = ''host:start-server'' then Inr (0, st) else adb_connect1 service st)"

definition adb_command :: "string \<Rightarrow> 'z clientst_scheme \<Rightarrow> (int \<times> 'z clientst_scheme) outcome" where
  "adb_command service st =
     bindE (adb_connect service st) (\<lambda>(fd, st).
       if fd < 0 then Inr (- 1, st)
       else case adb_status fd st of (r, st) \<Rightarrow> Inr (if r \<noteq> 0 then (- 1, client_close fd st) else (0, st)))"

definition adb_query :: "string \<Rightarrow> 'z clientst_scheme \<Rightarrow> (byte list option \<times> 'z clientst_scheme) outcome" where
  "adb_query service st =
     bindE (adb_connect service st) (\<lambda>(fd, st).
       if fd < 0 then Inr (None, st)
       else case client_readx fd 4 st of
         (None, st) \<Rightarrow> Inr (None, client_close fd st)
       | (Some b, st) \<Rightarrow>
           let n = unat (strtoul16 (cstring b)) in
           if n \<ge> 0xffff then Inr (None, client_close fd (set_error ''reply is too long (>= 64kB)'' st))
           else (case client_readx fd n st of (r, st) \<Rightarrow> Inr (r, client_close fd st)))"

section \<open>The console of an emulator\<close>

definition LOCAL_CLIENT_PREFIX :: string where "LOCAL_CLIENT_PREFIX = ''emulator-''"

function lines_of :: "string \<Rightarrow> string list" where
  "lines_of [] = []"
| "lines_of (c # cs) = takeWhile (\<lambda>x. x \<noteq> CHR 0x0A) (c # cs) # lines_of (drop 1 (dropWhile (\<lambda>x. x \<noteq> CHR 0x0A) (c # cs)))"
  by pat_completeness auto

termination lines_of
proof (relation "measure length", goal_cases)
  case (2 c cs)
  show ?case using length_dropWhile_le [of "\<lambda>x. x \<noteq> CHR 0x0A" cs] by auto
qed simp

text \<open>
  \<open>adb_get_emulator_console_port\<close>. When the serial number is taken from the list of devices, it points into the list, which is freed before the number
  is read.
\<close>

definition adb_get_emulator_console_port :: "'z clientst_scheme \<Rightarrow> (int \<times> 'z clientst_scheme) outcome" where
  "adb_get_emulator_console_port st =
     (case adb_serial st of
        Some sn \<Rightarrow>
          Inr (if has_prefix LOCAL_CLIENT_PREFIX sn then atoi (drop (length LOCAL_CLIENT_PREFIX) sn) else - 1, st)
      | None \<Rightarrow>
          bindE (adb_query ''host:devices'' st) (\<lambda>(r, st).
            case r of
              None \<Rightarrow> Inr (- 1, st)
            | Some tmp \<Rightarrow>
                (case filter (has_prefix LOCAL_CLIENT_PREFIX) (lines_of (cstring tmp)) of
                   [] \<Rightarrow> Inr (- 1, st)
                 | [sn] \<Rightarrow> Inl (Bad_access ''tmp'')
                 | _ \<Rightarrow> Inr (- 2, st))))"

end
