(* ===== verification/Jdwp.thy ===== *)
theory Jdwp
  imports Adb_Client
begin

text \<open>
  \<open>jdwp_service.c\<close>, on the device: the processes that can be debugged announce themselves on a control socket; the services \<open>jdwp\<close> and
  \<open>track-jdwp\<close> tell a client their numbers, once or after every change; \<open>jdwp:<pid>\<close> hands one end of a socket pair over to a process.

  The processes are on the heap \<open>jprocs\<close>, linked by \<open>jlinks\<close>; the sockets of the two services are ordinary sockets (\<open>socks\<close>) followed by fields of their own:
  \<open>jpass\<close> (\<open>JdwpSocket\<close>) and \<open>need_update\<close> with the links \<open>trlinks\<close> (\<open>JdwpTracker\<close>). \<open>passed\<close> are the descriptors handed over, with the control
  connection they went through. \<open>None\<close>: a list does not come back to its head. Shutting a descriptor down and \<open>close_on_exec\<close> are left out.
\<close>

section \<open>Data\<close>

definition MAX_OUT_FDS :: nat where "MAX_OUT_FDS = 4"

record jdwp_process =
  j_pid :: int
  j_socket :: int
  j_fde :: addr
  in_buff :: "byte list"
  in_len :: nat
  out_fds :: "int list"
  out_count :: nat

record jdwpst = adbst +
  jprocs :: "addr \<Rightarrow> jdwp_process option"
  jlinks :: links
  jpass :: "addr \<Rightarrow> int option"
  need_update :: "addr \<Rightarrow> bool option"
  trlinks :: links
  listen_socket :: int
  control_fde :: addr
  passed :: "(int \<times> int) list"

definition jdwp_list :: addr where "jdwp_list = 7"
definition jdwp_trackers_list :: addr where "jdwp_trackers_list = 8"
definition jdwp_control :: addr where "jdwp_control = 9"

abbreviation proc_at :: "'z jdwpst_scheme \<Rightarrow> addr \<Rightarrow> jdwp_process outcome" where
  "proc_at st a \<equiv> deref ''JdwpProcess'' (jprocs st) a"

definition set_proc :: "addr \<Rightarrow> jdwp_process \<Rightarrow> 'z jdwpst_scheme \<Rightarrow> 'z jdwpst_scheme" where
  "set_proc a x st = st\<lparr>jprocs := (jprocs st)(a \<mapsto> x)\<rparr>"

definition close_fd :: "int \<Rightarrow> 'z jdwpst_scheme \<Rightarrow> 'z jdwpst_scheme" where
  "close_fd fd st = st\<lparr>closed_fds := closed_fds st @ [fd]\<rparr>"

section \<open>The list of processes\<close>

definition pid_line :: "int \<Rightarrow> string" where
  "pid_line pid = fmt_d pid @ [CHR 0x0A]"

fun process_loop :: "'z jdwpst_scheme \<Rightarrow> addr list \<Rightarrow> nat \<Rightarrow> byte list \<Rightarrow> (nat \<times> byte list) outcome" where
  "process_loop st [] p buf = Inr (p, buf)"
| "process_loop st (a # as) p buf =
     bindE (proc_at st a) (\<lambda>x.
       if j_pid x < 0 then process_loop st as p buf
       else
         bindE (snprintf p (of_nat (length buf - p)) (pid_line (j_pid x)) buf) (\<lambda>(len, buf).
           if int p + sint len \<ge> int (length buf) then Inr (p, buf)
           else process_loop st as (nat (int p + sint len)) buf))"

definition jdwp_process_list :: "byte list \<Rightarrow> 'z jdwpst_scheme \<Rightarrow> (nat \<times> byte list) outcome option" where
  "jdwp_process_list buf st =
     map_option (\<lambda>as. bindE (process_loop st as 0 buf) (\<lambda>(p, buf). bindE (write_at p [CHR 0x00] buf) (\<lambda>buf. Inr (p, buf))))
       (ring_nodes (jlinks st) jdwp_list)"

definition jdwp_process_list_msg :: "byte list \<Rightarrow> 'z jdwpst_scheme \<Rightarrow> (nat \<times> byte list) outcome option" where
  "jdwp_process_list_msg buf st =
     bindO (jdwp_process_list (drop 4 buf) st) (\<lambda>(len, rest). Some (Inr (len + 4, take 4 (fmt_04x len) @ rest)))"

section \<open>The sockets of the two services\<close>

text \<open>A packet that carries the first \<open>len\<close> bytes of \<open>buf\<close> in the payload \<open>data\<close>.\<close>

definition text_packet :: "nat \<Rightarrow> byte list \<Rightarrow> apacket" where
  "text_packet len data = (get_apacket data)\<lparr>plen := of_nat len\<rparr>"

definition unlink_tracker :: "addr \<Rightarrow> links \<Rightarrow> links" where
  "unlink_tracker t h = (let h = set_nxt (prv h t) (nxt h t) h in set_prv (nxt h t) (prv h t) h)"

definition link_tracker :: "addr \<Rightarrow> links \<Rightarrow> links" where
  "link_tracker t h =
     (let h = set_nxt t jdwp_trackers_list h;
          h = set_prv t (prv h (nxt h t)) h;
          h = set_prv (nxt h t) t h
      in set_nxt (prv h t) t h)"

definition jdwp_socket_close ::
  "(addr \<Rightarrow> 'z jdwpst_scheme \<Rightarrow> 'z jdwpst_scheme outcome) \<Rightarrow> addr \<Rightarrow> 'z jdwpst_scheme \<Rightarrow> 'z jdwpst_scheme outcome" where
  "jdwp_socket_close cl a st =
     bindE (sock_at st a) (\<lambda>s.
     bindE (remove_socket a st) (\<lambda>st.
     bindE (if s_peer s \<noteq> NULL then bindE (upd_sock (s_peer s) (\<lambda>q. q\<lparr>s_peer := NULL\<rparr>) st) (cl (s_peer s)) else Inr st) (\<lambda>st.
     bindE (sock_at st a) (\<lambda>_. Inr ((free_sock a st)\<lparr>jpass := (jpass st)(a := None)\<rparr>)))))"

definition jdwp_tracker_close ::
  "(addr \<Rightarrow> 'z jdwpst_scheme \<Rightarrow> 'z jdwpst_scheme outcome) \<Rightarrow> addr \<Rightarrow> 'z jdwpst_scheme \<Rightarrow> 'z jdwpst_scheme outcome" where
  "jdwp_tracker_close cl a st =
     bindE (sock_at st a) (\<lambda>s.
     bindE (if s_peer s \<noteq> NULL then bindE (upd_sock (s_peer s) (\<lambda>q. q\<lparr>s_peer := NULL\<rparr>) st) (cl (s_peer s)) else Inr st) (\<lambda>st.
     bindE (remove_socket a st) (\<lambda>st.
     bindE (sock_at st a) (\<lambda>_.
       Inr ((free_sock a st)\<lparr>trlinks := unlink_tracker a (trlinks st), need_update := (need_update st)(a := None)\<rparr>)))))"

text \<open>The call \<open>s->close (s)\<close> on the device, to a depth of nested calls.\<close>

primrec jdwp_close :: "nat \<Rightarrow> addr \<Rightarrow> 'z jdwpst_scheme \<Rightarrow> 'z jdwpst_scheme outcome" where
  "jdwp_close 0 a st = Inl (Bad_access ''depth'')"
| "jdwp_close (Suc n) a st =
     bindE (sock_at st a) (\<lambda>s.
       case s_close s of
         Jdwp_socket_close \<Rightarrow> jdwp_socket_close (jdwp_close n) a st
       | Jdwp_tracker_close \<Rightarrow> jdwp_tracker_close (jdwp_close n) a st
       | _ \<Rightarrow> call_close_fn (jdwp_close n) a st)"

text \<open>\<open>jdwp_socket_enqueue\<close> and \<open>jdwp_tracker_enqueue\<close> are the same: nothing can be written to these sockets.\<close>

definition jdwp_socket_enqueue :: "addr \<Rightarrow> apacket \<Rightarrow> 'z jdwpst_scheme \<Rightarrow> (int \<times> 'z jdwpst_scheme) outcome" where
  "jdwp_socket_enqueue a p st =
     bindE (sock_at st a) (\<lambda>s. bindE (jdwp_close 4 (s_peer s) st) (\<lambda>st. Inr (- 1, st)))"

definition jdwp_tracker_enqueue :: "addr \<Rightarrow> apacket \<Rightarrow> 'z jdwpst_scheme \<Rightarrow> (int \<times> 'z jdwpst_scheme) outcome" where
  "jdwp_tracker_enqueue a p st =
     bindE (sock_at st a) (\<lambda>s. bindE (jdwp_close 4 (s_peer s) st) (\<lambda>st. Inr (- 1, st)))"

text \<open>The call \<open>s->enqueue (s, p)\<close>; there are no smart sockets on the device.\<close>

definition jdwp_enqueue :: "addr \<Rightarrow> apacket \<Rightarrow> 'z jdwpst_scheme \<Rightarrow> (int \<times> 'z jdwpst_scheme) outcome" where
  "jdwp_enqueue a p st =
     bindE (sock_at st a) (\<lambda>s.
       case s_enqueue s of
         Jdwp_socket_enqueue \<Rightarrow> jdwp_socket_enqueue a p st
       | Jdwp_tracker_enqueue \<Rightarrow> jdwp_tracker_enqueue a p st
       | _ \<Rightarrow> socket_enqueue (\<lambda>_ _ _. Inl (Bad_access ''smart socket'')) a p st)"

definition jdwp_socket_ready :: "addr \<Rightarrow> 'z jdwpst_scheme \<Rightarrow> 'z jdwpst_scheme outcome option" where
  "jdwp_socket_ready a st =
     bindO (Some (sock_at st a)) (\<lambda>s. bindO (Some (deref ''JdwpSocket'' (jpass st) a)) (\<lambda>pass.
       if pass = 0 then
         bindO (jdwp_process_list (fresh_payload st) st) (\<lambda>(len, data).
         bindO (Some (jdwp_enqueue (s_peer s) (text_packet len data) st)) (\<lambda>(_, st).
         bindO (Some (deref ''JdwpSocket'' (jpass st) a)) (\<lambda>_.
           Some (Inr (st\<lparr>jpass := (jpass st)(a \<mapsto> 1)\<rparr>)))))
       else Some (jdwp_close 4 (s_peer s) st)))"

definition jdwp_tracker_ready :: "addr \<Rightarrow> 'z jdwpst_scheme \<Rightarrow> 'z jdwpst_scheme outcome option" where
  "jdwp_tracker_ready a st =
     bindO (Some (deref ''JdwpTracker'' (need_update st) a)) (\<lambda>need.
       if need then
         let st = st\<lparr>need_update := (need_update st)(a \<mapsto> False)\<rparr> in
         bindO (jdwp_process_list_msg (fresh_payload st) st) (\<lambda>(len, data).
         bindO (Some (sock_at st a)) (\<lambda>s.
         bindO (Some (jdwp_enqueue (s_peer s) (text_packet len data) st)) (\<lambda>(_, st). Some (Inr st))))
       else Some (Inr st))"

text \<open>
  The loop of \<open>jdwp_process_list_updated\<close> from the tracker \<open>t\<close>: \<open>t->next\<close> is read after the packet was given away.
\<close>

definition tell_tracker :: "byte list \<Rightarrow> addr \<Rightarrow> 'z jdwpst_scheme \<Rightarrow> 'z jdwpst_scheme outcome" where
  "tell_tracker msg t st =
     bindE (deref ''JdwpTracker'' (need_update st) t) (\<lambda>_.
     bindE (sock_at st t) (\<lambda>s.
     bindE (write_at 0 msg (fresh_payload st)) (\<lambda>data.
     bindE (jdwp_enqueue (s_peer s) (text_packet (length msg) data) st) (\<lambda>(_, st).
     bindE (deref ''JdwpTracker'' (need_update st) t) (\<lambda>_. Inr st)))))"

partial_function (option) tell_trackers :: "byte list \<Rightarrow> addr \<Rightarrow> 'z jdwpst_scheme \<Rightarrow> 'z jdwpst_scheme outcome option" where
  "tell_trackers msg t st =
     (if t = jdwp_trackers_list then Some (Inr st)
      else case tell_tracker msg t st of
        Inl e \<Rightarrow> Some (Inl e)
      | Inr st \<Rightarrow> tell_trackers msg (nxt (trlinks st) t) st)"

text \<open>The array \<open>buffer\<close> on the stack starts as zeros here; only the bytes written into it are read.\<close>

definition jdwp_process_list_updated :: "'z jdwpst_scheme \<Rightarrow> 'z jdwpst_scheme outcome option" where
  "jdwp_process_list_updated st =
     bindO (jdwp_process_list_msg (replicate 1024 CHR 0x00) st) (\<lambda>(len, buffer).
       tell_trackers (take len buffer) (nxt (trlinks st) jdwp_trackers_list) st)"

text \<open>A \<open>calloc\<close>ed socket: its event object is zero, too, and not installed.\<close>

definition zero_fde :: fdevent where
  "zero_fde = \<lparr>fde_fd = 0, fde_force_eof = False, fde_state = 0, fde_events = 0, fde_func = Local_socket_event_func, fde_arg = NULL\<rparr>"

definition calloc_socket :: "addr \<Rightarrow> 'z jdwpst_scheme \<Rightarrow> 'z jdwpst_scheme" where
  "calloc_socket new st =
     (set_sock new blank_socket st)\<lparr>slinks := set_nxt new NULL (set_prv new NULL (slinks st)), fdes := (fdes st)(new \<mapsto> zero_fde)\<rparr>"

definition create_jdwp_service_socket :: "addr \<Rightarrow> 'z jdwpst_scheme \<Rightarrow> (addr \<times> 'z jdwpst_scheme) outcome" where
  "create_jdwp_service_socket new st =
     (if new = NULL then Inr (NULL, st)
      else
        bindE (install_local_socket new (calloc_socket new st)) (\<lambda>st.
        bindE (upd_sock new (\<lambda>s. s\<lparr>s_ready := Jdwp_socket_ready, s_enqueue := Jdwp_socket_enqueue, s_close := Jdwp_socket_close\<rparr>) st) (\<lambda>st.
          Inr (new, st\<lparr>jpass := (jpass st)(new \<mapsto> 0)\<rparr>))))"

definition create_jdwp_tracker_service_socket :: "addr \<Rightarrow> 'z jdwpst_scheme \<Rightarrow> (addr \<times> 'z jdwpst_scheme) outcome" where
  "create_jdwp_tracker_service_socket new st =
     (if new = NULL then Inr (NULL, st)
      else
        bindE (install_local_socket new ((calloc_socket new st)\<lparr>trlinks := link_tracker new (trlinks st)\<rparr>)) (\<lambda>st.
        bindE (upd_sock new (\<lambda>s. s\<lparr>s_ready := Jdwp_tracker_ready, s_enqueue := Jdwp_tracker_enqueue, s_close := Jdwp_tracker_close\<rparr>) st) (\<lambda>st.
          Inr (new, st\<lparr>need_update := (need_update st)(new \<mapsto> True)\<rparr>))))"

text \<open>
  The answer of \<open>handle_packet\<close> to \<open>OPEN\<close> of the service \<open>track-jdwp\<close>: a tracker \<open>new\<close> is connected to a remote socket with the other side's number
  \<open>rid\<close> on the transport \<open>t\<close>, and its \<open>ready\<close> is called.
\<close>

definition open_tracker :: "addr \<Rightarrow> u32 \<Rightarrow> addr \<Rightarrow> 'z jdwpst_scheme \<Rightarrow> 'z jdwpst_scheme outcome option" where
  "open_tracker new rid t st =
     bindO (Some (create_jdwp_tracker_service_socket new st)) (\<lambda>(a, st).
       if a = NULL then Some (send_close 0 rid t st)
       else
         bindO (Some (bind_remote a rid t st)) (\<lambda>(r, st).
         bindO (Some (bindE (sock_at st a) (\<lambda>s. bindE (sock_at st r) (\<lambda>q. send_ready (s_id s) (s_id q) t st)))) (\<lambda>st.
           jdwp_tracker_ready a st)))"

section \<open>Processes\<close>

definition unlink_process :: "addr \<Rightarrow> links \<Rightarrow> links" where
  "unlink_process a h = (let h = set_nxt (prv h a) (nxt h a) h in set_prv (nxt h a) (prv h a) h)"

definition link_process :: "addr \<Rightarrow> links \<Rightarrow> links" where
  "link_process a h =
     (let h = set_nxt a jdwp_list h;
          h = set_prv a (prv h (nxt h a)) h;
          h = set_nxt (prv h a) a h
      in set_prv (nxt h a) a h)"

text \<open>All of \<open>jdwp_process_free\<close> up to \<open>free\<close>.\<close>

definition release_process :: "addr \<Rightarrow> 'z jdwpst_scheme \<Rightarrow> 'z jdwpst_scheme outcome" where
  "release_process a st =
     bindE (proc_at st a) (\<lambda>x.
       let st = st\<lparr>jlinks := unlink_process a (jlinks st)\<rparr>;
           st = (if j_socket x \<ge> 0 then close_fd (j_socket x) st else st) in
       bindE (if j_fde x \<noteq> NULL then fdevent_destroy (j_fde x) st else Inr st) (\<lambda>st.
         if out_count x \<le> length (out_fds x)
         then Inr ((fold close_fd (take (out_count x) (out_fds x)) st)\<lparr>jprocs := (jprocs st)(a := None)\<rparr>)
         else Inl (Bad_access ''out_fds'')))"

definition jdwp_process_free :: "addr \<Rightarrow> 'z jdwpst_scheme \<Rightarrow> 'z jdwpst_scheme outcome option" where
  "jdwp_process_free a st =
     (if a = NULL then Some (Inr st) else bindO (Some (release_process a st)) jdwp_process_list_updated)"

text \<open>\<open>new\<close> is what \<open>calloc\<close> returns, \<open>fde\<close> what \<open>malloc\<close> returns in \<open>fdevent_create\<close>.\<close>

definition jdwp_process_alloc ::
  "fdenv \<Rightarrow> addr \<Rightarrow> addr option \<Rightarrow> int \<Rightarrow> 'z jdwpst_scheme \<Rightarrow> (addr \<times> 'z jdwpst_scheme) outcome" where
  "jdwp_process_alloc env new fde socket st =
     (if new = NULL then Inr (NULL, st)
      else
        bindE (fdevent_create env fde socket Jdwp_process_event new st) (\<lambda>(f, st).
          if f = NULL then Inr (NULL, st)
          else
            bindE (fde_at st f) (\<lambda>e.
              let st = upd_fde f (e\<lparr>fde_state := fde_state e OR FDE_DONT_CLOSE\<rparr>) st;
                  x = \<lparr>j_pid = - 1, j_socket = socket, j_fde = f, in_buff = replicate 4 CHR 0x00, in_len = 0,
                       out_fds = replicate MAX_OUT_FDS 0, out_count = 0\<rparr>;
                  st = (set_proc new x st)\<lparr>jlinks := link_process new (jlinks st)\<rparr> in
              bindE (fdevent_add f FDE_READ st) (\<lambda>st. Inr (new, st)))))"

text \<open>The loop that reads the four characters of the process number.\<close>

datatype heard = Heard | Wait | Gone

definition store_in :: "byte list \<Rightarrow> jdwp_process \<Rightarrow> jdwp_process" where
  "store_in bs x = x\<lparr>in_buff := take (in_len x) (in_buff x) @ bs @ drop (in_len x + length bs) (in_buff x), in_len := in_len x + length bs\<rparr>"

function recv_pid :: "int \<Rightarrow> jdwp_process \<Rightarrow> 'z jdwpst_scheme \<Rightarrow> heard \<times> jdwp_process \<times> 'z jdwpst_scheme" where
  "recv_pid fd x st =
     (if in_len x \<ge> 4 then (Heard, x, st)
      else case adb_read fd (4 - in_len x) st of (len, e, bs, st') \<Rightarrow>
        if len < 0 then (if e = EINTR then recv_pid fd x st' else if e = EAGAIN then (Wait, x, st') else (Gone, x, st'))
        else if len = 0 then (Gone, x, st')
        else recv_pid fd (store_in bs x) st')"
  by pat_completeness auto

lemma adb_read_length: "adb_read fd n st = (len, e, bs, st') \<Longrightarrow> 0 \<le> len \<Longrightarrow> len = int (length bs) \<and> length bs \<le> n"
  by (auto simp: adb_read_def split: list.splits rd_ev.splits)

termination recv_pid
proof (relation "measure (\<lambda>(fd, x, st). length (rd_script st fd) + (4 - in_len x))", goal_cases)
  case (2 fd x st)
  then show ?case by (auto dest!: adb_read_script [OF sym])
next
  case (3 fd x st len y e z bs st')
  then have r: "adb_read fd (4 - in_len x) st = (len, e, bs, st')" by simp
  then have "length (rd_script st' fd) \<le> length (rd_script st fd)" "0 < length bs" "length bs \<le> 4 - in_len x"
    using 3 adb_read_length [OF r] adb_read_shrinks [OF r] by auto
  then show ?case by (simp add: store_in_def del: length_greater_0_conv)
qed simp

declare recv_pid.simps [simp del]

text \<open>The loop that throws away what a known process sends: \<open>Wait\<close> or \<open>Gone\<close>.\<close>

definition ev_size :: "rd_ev \<Rightarrow> nat" where
  "ev_size e = (case e of Seg bs \<Rightarrow> Suc (length bs) | _ \<Rightarrow> 1)"

function recv_rest :: "int \<Rightarrow> 'z jdwpst_scheme \<Rightarrow> heard \<times> 'z jdwpst_scheme" where
  "recv_rest fd st =
     (case adb_read fd 32 st of (len, e, bs, st') \<Rightarrow>
        if len \<le> 0 then
          if len < 0 \<and> e = EINTR then recv_rest fd st'
          else if len < 0 \<and> e = EAGAIN then (Wait, st')
          else (Gone, st')
        else recv_rest fd st')"
  by pat_completeness auto

lemma adb_read_size:
  "adb_read fd 32 st = (len, e, bs, st') \<Longrightarrow> 0 < len \<or> e = EINTR \<Longrightarrow>
   sum_list (map ev_size (rd_script st' fd)) < sum_list (map ev_size (rd_script st fd))"
  by (auto simp: adb_read_def ev_size_def split: list.splits rd_ev.splits if_splits)

termination recv_rest
  by (relation "measure (\<lambda>(fd, st). sum_list (map ev_size (rd_script st fd)))") (auto dest!: adb_read_size [OF sym])

declare recv_rest.simps [simp del]

text \<open>\<open>sscanf (temp, "%04x", &proc->pid)\<close> of the four characters.\<close>

definition scan_pid :: "byte list \<Rightarrow> int option" where
  "scan_pid temp =
     (let (neg, w) = split_sign (take 4 (dropWhile is_space (takeWhile (\<lambda>c. c \<noteq> CHR 0x00) temp)));
          ds = takeWhile is_hex (skip_0x w);
          v = int (hex_digits ds) in
      if ds = [] \<and> skip_0x w = w then None else Some (if neg then - v else v))"

text \<open>The part for \<open>FDE_READ\<close>: whether the handler has returned.\<close>

definition close_process :: "addr \<Rightarrow> 'z jdwpst_scheme \<Rightarrow> (bool \<times> 'z jdwpst_scheme) outcome option" where
  "close_process a st = bindO (jdwp_process_free a st) (\<lambda>st. Some (Inr (True, st)))"

definition process_readable :: "int \<Rightarrow> addr \<Rightarrow> 'z jdwpst_scheme \<Rightarrow> (bool \<times> 'z jdwpst_scheme) outcome option" where
  "process_readable socket a st =
     bindO (Some (proc_at st a)) (\<lambda>x.
       if j_pid x < 0 then
         (case recv_pid socket x st of
            (Wait, x, st) \<Rightarrow> Some (Inr (True, set_proc a x st))
          | (Gone, x, st) \<Rightarrow> close_process a (set_proc a x st)
          | (Heard, x, st) \<Rightarrow>
              (case scan_pid (in_buff x) of
                 None \<Rightarrow> close_process a (set_proc a x st)
               | Some pid \<Rightarrow>
                   bindO (jdwp_process_list_updated (set_proc a (x\<lparr>j_pid := pid\<rparr>) st)) (\<lambda>st. Some (Inr (False, st)))))
       else
         (case recv_rest socket st of
            (Wait, st) \<Rightarrow> Some (Inr (True, st))
          | (_, st) \<Rightarrow> close_process a st))"

text \<open>
  \<open>sendmsg\<close> on a connection that may block, so that an empty script accepts the message; the loop repeats an interrupted call.
\<close>

fun send_rights :: "wr_ev list \<Rightarrow> bool \<times> wr_ev list" where
  "send_rights [] = (True, [])"
| "send_rights (Took k # s) = (True, s)"
| "send_rights (WFail e # s) = (if e = EINTR then send_rights s else (False, s))"

text \<open>The results of the three calls of \<open>fcntl\<close>: the flags, or a failure.\<close>

record fcntl_res =
  get_fl :: bool
  clear_fl :: bool
  restore_fl :: bool

definition shift_fds :: "nat \<Rightarrow> int list \<Rightarrow> int list" where
  "shift_fds n fds = take (n - 1) (drop 1 fds) @ drop (n - 1) fds"

definition process_writable :: "fcntl_res \<Rightarrow> addr \<Rightarrow> 'z jdwpst_scheme \<Rightarrow> 'z jdwpst_scheme outcome option" where
  "process_writable fl a st =
     bindO (Some (proc_at st a)) (\<lambda>x.
       if out_count x = 0 then Some (Inr st)
       else if length (out_fds x) < out_count x then Some (Inl (Bad_access ''out_fds''))
       else if \<not> get_fl fl then jdwp_process_free a st
       else if \<not> clear_fl fl then jdwp_process_free a st
       else
         let fd = out_fds x ! 0;
             (ok, s) = send_rights (wr_script st (j_socket x));
             st = st\<lparr>wr_script := (wr_script st)(j_socket x := s)\<rparr> in
         if \<not> ok then jdwp_process_free a st
         else
           let st = close_fd fd (st\<lparr>passed := passed st @ [(j_socket x, fd)]\<rparr>);
               x = x\<lparr>out_fds := shift_fds (out_count x) (out_fds x)\<rparr>;
               st = set_proc a x st in
           if \<not> restore_fl fl then jdwp_process_free a st
           else
             let x = x\<lparr>out_count := out_count x - 1\<rparr>;
                 st = set_proc a x st in
             Some (if out_count x = 0 then fdevent_del (j_fde x) FDE_WRITE st else Inr st))"

definition jdwp_process_event :: "fcntl_res \<Rightarrow> int \<Rightarrow> u16 \<Rightarrow> addr \<Rightarrow> 'z jdwpst_scheme \<Rightarrow> 'z jdwpst_scheme outcome option" where
  "jdwp_process_event fl socket events a st =
     bindO (if has events FDE_READ then process_readable socket a st else Some (Inr (False, st))) (\<lambda>(returned, st).
       if \<not> returned \<and> has events FDE_WRITE then process_writable fl a st else Some (Inr st))"

text \<open>\<open>pair\<close> is what \<open>adb_socketpair\<close> makes.\<close>

fun find_process :: "'z jdwpst_scheme \<Rightarrow> addr list \<Rightarrow> int \<Rightarrow> addr outcome" where
  "find_process st [] pid = Inr NULL"
| "find_process st (a # as) pid = bindE (proc_at st a) (\<lambda>x. if j_pid x = pid then Inr a else find_process st as pid)"

definition create_jdwp_connection_fd ::
  "(int \<times> int) option \<Rightarrow> int \<Rightarrow> 'z jdwpst_scheme \<Rightarrow> (int \<times> 'z jdwpst_scheme) outcome option" where
  "create_jdwp_connection_fd pair pid st =
     map_option (\<lambda>as. bindE (find_process st as pid) (\<lambda>a.
         if a = NULL then Inr (- 1, st)
         else bindE (proc_at st a) (\<lambda>x.
           if out_count x \<ge> MAX_OUT_FDS then Inr (- 1, st)
           else case pair of
             None \<Rightarrow> Inr (- 1, st)
           | Some (fd0, fd1) \<Rightarrow>
               if length (out_fds x) \<le> out_count x then Inl (Bad_access ''out_fds'')
               else
                 let x = x\<lparr>out_fds := (out_fds x)[out_count x := fd1], out_count := out_count x + 1\<rparr>;
                     st = set_proc a x st in
                 bindE (if out_count x = 1 then fdevent_add (j_fde x) FDE_WRITE st else Inr st) (\<lambda>st. Inr (fd0, st)))))
       (ring_nodes (jlinks st) jdwp_list)"

section \<open>The control socket\<close>

text \<open>\<open>s\<close> is what \<open>socket\<close> returns; \<open>bound\<close> and \<open>listening\<close> whether \<open>bind\<close> and \<open>listen\<close> succeed. \<open>sun_path\<close> has 108 bytes.\<close>

definition JDWP_CONTROL_NAME :: string where "JDWP_CONTROL_NAME = CHR 0x00 # ''jdwp-control''"

definition jdwp_control_init ::
  "fdenv \<Rightarrow> addr option \<Rightarrow> int \<Rightarrow> bool \<Rightarrow> bool \<Rightarrow> string \<Rightarrow> 'z jdwpst_scheme \<Rightarrow> (int \<times> 'z jdwpst_scheme) outcome" where
  "jdwp_control_init env fde s bound listening sockname st =
     (if length sockname \<ge> 108 then Inr (- 1, st)
      else if s < 0 then Inr (- 1, st)
      else if \<not> bound then Inr (- 1, close_fd s st)
      else if \<not> listening then Inr (- 1, close_fd s st)
      else
        bindE (fdevent_create env fde s Jdwp_control_event jdwp_control (st\<lparr>listen_socket := s\<rparr>)) (\<lambda>(f, st).
          let st = st\<lparr>control_fde := f\<rparr> in
          if f = NULL then Inr (- 1, close_fd s st)
          else bindE (fdevent_add f FDE_READ st) (\<lambda>st. Inr (0, st))))"

text \<open>The results of \<open>adb_socket_accept\<close>: the descriptor, or \<open>errno\<close>. An interrupted call is repeated.\<close>

fun accept_loop :: "(int + errno) list \<Rightarrow> int option" where
  "accept_loop [] = None"
| "accept_loop (Inl s # rs) = (if s < 0 then None else Some s)"
| "accept_loop (Inr e # rs) = (if e = EINTR then accept_loop rs else None)"

definition jdwp_control_event ::
  "fdenv \<Rightarrow> (int + errno) list \<Rightarrow> addr \<Rightarrow> addr option \<Rightarrow> u16 \<Rightarrow> 'z jdwpst_scheme \<Rightarrow> 'z jdwpst_scheme outcome" where
  "jdwp_control_event env rs new fde events st =
     (if \<not> has events FDE_READ then Inr st
      else case accept_loop rs of
        None \<Rightarrow> Inr st
      | Some s \<Rightarrow> bindE (jdwp_process_alloc env new fde s st) (\<lambda>(_, st). Inr st))"

definition init_jdwp ::
  "fdenv \<Rightarrow> addr option \<Rightarrow> int \<Rightarrow> bool \<Rightarrow> bool \<Rightarrow> 'z jdwpst_scheme \<Rightarrow> (int \<times> 'z jdwpst_scheme) outcome" where
  "init_jdwp env fde s bound listening st =
     jdwp_control_init env fde s bound listening JDWP_CONTROL_NAME
       (st\<lparr>jlinks := set_prv jdwp_list jdwp_list (set_nxt jdwp_list jdwp_list (jlinks st)),
           trlinks := set_prv jdwp_trackers_list jdwp_trackers_list (set_nxt jdwp_trackers_list jdwp_trackers_list (trlinks st))\<rparr>)"

end
