(* ===== verification/Sockets_Props.thy ===== *)
theory Sockets_Props
  imports Sockets_Inv
begin

text \<open>
  What the sockets guarantee: closing is safe and local to a socket and its peer, the lookup by id finds open
  sockets only, the bytes given to a local socket reach its descriptor in order; and the case where the
  event handler goes on with a socket that has been freed.
\<close>

section \<open>A sample of two connected sockets\<close>

text \<open>Socket 10 on descriptor 1 and socket 11, its local peer, on descriptor 2.\<close>

definition sock_a :: asocket where
  "sock_a = blank_socket\<lparr>s_id := 1, s_peer := 11, s_fd := 1\<rparr>"

definition sock_b :: asocket where
  "sock_b = blank_socket\<lparr>s_id := 2, s_peer := 10, s_fd := 2\<rparr>"

definition fde_for :: "int \<Rightarrow> addr \<Rightarrow> fdevent" where
  "fde_for fd a = \<lparr>fde_fd = fd, fde_force_eof = False, fde_state = FDE_ACTIVE OR FDE_READ, fde_events = 0,
     fde_func = Local_socket_event_func, fde_arg = a\<rparr>"

definition pair_sample :: sockst where
  "pair_sample = \<lparr>fdes = [10 \<mapsto> fde_for 1 10, 11 \<mapsto> fde_for 2 11], plinks = list_init list_pending \<lparr>nxt = (\<lambda>_. 0), prv = (\<lambda>_. 0)\<rparr>,
     fd_table = [0, 10, 11], read_fds = {1, 2}, write_fds = {}, error_fds = {}, select_n = 3, closed_fds = [],
     SHELL_EXIT_NOTIFY_FD = - 1,
     socks = [10 \<mapsto> sock_a, 11 \<mapsto> sock_b],
     slinks = list_add_tail local_socket_list 11 (list_add_tail local_socket_list 10
       (list_init local_socket_closing_list (list_init local_socket_list \<lparr>nxt = (\<lambda>_. 0), prv = (\<lambda>_. 0)\<rparr>))),
     dlinks = \<lparr>nxt = (\<lambda>_. 0), prv = (\<lambda>_. 0)\<rparr>, local_socket_next_id = 3, sent = [],
     wr_script = (\<lambda>_. [WFail (Eother 32)]), rd_script = (\<lambda>_. [Seg ''x'']), wrote = (\<lambda>_. []), fresh_payload = []\<rparr>"

lemma fde_for_bits [simp]:
  "active (fde_for fd a)" "\<not> pending (fde_for fd a)" "fde_fd (fde_for fd a) = fd"
  "k \<le> 2 \<Longrightarrow> bit (fde_state (fde_for fd a)) k \<longleftrightarrow> k = 0"
  by (auto simp: fde_for_def bit_or_iff mask_bits)

lemma pair_fd_ok: "fd_ok pair_sample"
proof -
  let ?h = "[10 \<mapsto> fde_for 1 10, 11 \<mapsto> fde_for 2 11] :: fdheap"
  have w: "watch ?h k i \<longleftrightarrow> k = 0 \<and> (i = 1 \<or> i = 2)" if "k \<le> 2" for k i
    using that by (auto simp: watch_def) presburger
  have "sets_ok ?h {1, 2} {} {}" by (auto simp: sets_ok_def w)
  moreover have "table_ok ?h [0, 10, 11]"
    by (auto simp: table_ok_def nth_Cons' less_Suc_eq split: if_splits)
  moreover have "heap_ok ?h" by (auto simp: heap_ok_def list_pending_def)
  moreover have "pend_ok ?h (list_init list_pending \<lparr>nxt = (\<lambda>_. 0), prv = (\<lambda>_. 0)\<rparr>) []"
    by (auto simp: pend_ok_def ring_list_init)
  moreover have "select_ok ?h [0, 10, 11] 3" by (auto simp: select_ok_def split: if_splits)
  ultimately show ?thesis unfolding fd_ok_def fd_inv_def by (intro exI [of _ "[]"]) (simp add: pair_sample_def)
qed

lemma pair_inv: "sock_inv {} {} pair_sample"
proof -
  have l: "lists_ok (socks pair_sample) (slinks pair_sample) [10, 11] []"
    by (auto simp: lists_ok_def pair_sample_def ring_def list_add_tail_def list_init_def local_socket_list_def
        local_socket_closing_list_def is_local_def sock_a_def sock_b_def blank_socket_def)
  have "heads_free (socks pair_sample)"
    by (simp add: heads_free_def pair_sample_def local_socket_list_def local_socket_closing_list_def)
  moreover have "kinds_ok (socks pair_sample) (fdes pair_sample)"
    by (auto simp: kinds_ok_def pair_sample_def sock_kind_def is_local_def sock_a_def sock_b_def blank_socket_def)
  moreover have "peers_ok {} (socks pair_sample)"
    by (auto simp: peers_ok_def pair_sample_def sock_a_def sock_b_def blank_socket_def)
  moreover have "discs_ok {} (socks pair_sample) (dlinks pair_sample) D" for D
    by (auto simp: discs_ok_def pair_sample_def is_remote_def sock_a_def sock_b_def blank_socket_def split: if_splits)
  ultimately show ?thesis using l pair_fd_ok unfolding sock_inv_def by blast
qed

section \<open>Closing\<close>

text \<open>
  C3: closing a socket (through whichever function its \<open>close\<close> points at) always returns, within the four
  nested calls the code can make; it keeps the invariant, frees the socket and its peer or leaves them on the
  closing list with their unwritten packets, touches no other socket and no other event, and tells the
  other side exactly when a local socket loses a remote peer.
\<close>

theorem socket_close_safe:
  assumes "sock_inv T {} st" and "socks st a = Some s" and "\<not> s_exit_on_close s"
    and "\<And>q. socks st (s_peer s) = Some q \<Longrightarrow> \<not> s_exit_on_close q"
  shows "\<exists>st'. sclose a st = Inr st' \<and> sock_inv T {} st' \<and> closed_sock a s st' \<and>
    (\<forall>b. b \<noteq> a \<and> b \<noteq> s_peer s \<longrightarrow> socks st' b = socks st b \<and> fdes st' b = fdes st b) \<and>
    (case socks st (s_peer s) of
       None \<Rightarrow> sent st' = sent st
     | Some q \<Rightarrow> closed_sock (s_peer s) q st' \<and> sent st' = sent st @ close_msgs s q (fresh_payload st))"
proof (cases "s_peer s = NULL")
  case True
  have "socks st 0 = None" using assms(1) by (simp add: sock_inv_def heads_free_def)
  with socket_close_solo [OF assms(1,2) True assms(3), of 2] True show ?thesis
    by (auto simp: untouched_def numeral_eq_Suc)
next
  case False
  then obtain q where q: "socks st (s_peer s) = Some q"
    using assms(1,2) peers_okD [of "{}" "socks st" a s] by (auto simp: sock_inv_def)
  with socket_close_full [OF assms(1,2) _ False assms(3) q assms(4) [OF q], of 0] show ?thesis
    by (auto simp: untouched_def numeral_eq_Suc)
qed

theorem socket_close_safe_witness:
  "\<exists>st'. sclose 10 pair_sample = Inr st' \<and> sock_inv {} {} st' \<and> socks st' 10 = None \<and> socks st' 11 = None"
proof -
  have a: "socks pair_sample 10 = Some sock_a" and b: "socks pair_sample (s_peer sock_a) = Some sock_b"
    by (simp_all add: pair_sample_def sock_a_def)
  have x: "\<not> s_exit_on_close sock_a" "\<not> s_exit_on_close sock_b" by (simp_all add: sock_a_def sock_b_def blank_socket_def)
  have p: "s_pkts sock_a = []" "s_pkts sock_b = []" "s_peer sock_a = 11" by (simp_all add: sock_a_def sock_b_def blank_socket_def)
  have "\<And>q. socks pair_sample (s_peer sock_a) = Some q \<Longrightarrow> \<not> s_exit_on_close q" using b x(2) by simp
  from socket_close_safe [OF pair_inv a x(1) this] b p show ?thesis by (auto simp: closed_sock_def)
qed

section \<open>Lookup\<close>

lemma find_in_spec:
  assumes "\<forall>a\<in>set as. h a \<noteq> None" and "peers_ok {} h"
  shows "\<exists>a. find_in h as l p = Inr a \<and>
    (a \<noteq> NULL \<longrightarrow> a \<in> set as \<and> (\<exists>s. h a = Some s \<and> s_id s = l \<and>
       (p \<noteq> 0 \<longrightarrow> (\<exists>q. s_peer s \<noteq> NULL \<and> h (s_peer s) = Some q \<and> s_id q = p)))) \<and>
    (a = NULL \<and> NULL \<notin> set as \<and> p = 0 \<longrightarrow> (\<forall>b\<in>set as. \<forall>s. h b = Some s \<longrightarrow> s_id s \<noteq> l))"
  using assms(1)
proof (induction as)
  case (Cons b as)
  obtain s where s: "h b = Some s" using Cons.prems by auto
  show ?case
  proof (cases "s_id s = l")
    case False
    then show ?thesis using Cons s by auto
  next
    case True
    show ?thesis
    proof (cases "s_peer s = NULL")
      case True
      with \<open>s_id s = l\<close> s show ?thesis by auto
    next
      case False
      then obtain q where "h (s_peer s) = Some q" using peers_okD [OF assms(2), of b s] s by auto
      with \<open>s_id s = l\<close> s False show ?thesis by auto
    qed
  qed
qed simp

text \<open>
  \<open>find_local_socket\<close> ends, reads only live sockets, and returns an open local socket with the id asked
  for, connected to the peer id asked for when one is given; with no peer id it fails only when no
  open socket has the id.
\<close>

theorem find_local_socket_finds:
  assumes "sock_inv T {} st"
  shows "\<exists>a. find_local_socket l p st = Some (Inr a) \<and>
    (a \<noteq> NULL \<longrightarrow> (\<exists>s. socks st a = Some s \<and> is_local s \<and> \<not> s_closing s \<and> s_id s = l \<and>
       (p \<noteq> 0 \<longrightarrow> (\<exists>q. s_peer s \<noteq> NULL \<and> socks st (s_peer s) = Some q \<and> s_id q = p)))) \<and>
    (a = NULL \<and> p = 0 \<longrightarrow> (\<forall>b s. socks st b = Some s \<and> is_local s \<and> \<not> s_closing s \<longrightarrow> s_id s \<noteq> l))"
proof -
  obtain xs ys where l: "lists_ok (socks st) (slinks st) xs ys" using assms by (auto simp: sock_inv_def)
  have "ring_nodes (slinks st) local_socket_list = Some xs" using l by (auto simp: lists_ok_def intro: ring_nodes)
  moreover have m: "\<And>a. a \<in> set xs \<longleftrightarrow> (\<exists>s. socks st a = Some s \<and> is_local s \<and> \<not> s_closing s)"
    using l unfolding lists_ok_def by blast
  moreover have "\<forall>a\<in>set xs. socks st a \<noteq> None" using m by auto
  moreover have "NULL \<notin> set xs" using m assms by (auto simp: sock_inv_def heads_free_def)
  moreover have "peers_ok {} (socks st)" using assms by (simp add: sock_inv_def)
  ultimately show ?thesis
    using find_in_spec [of xs "socks st" l p] unfolding find_local_socket_def by fastforce
qed

theorem find_local_socket_finds_witness:
  "\<exists>a. find_local_socket 2 1 pair_sample = Some (Inr a) \<and>
    (a \<noteq> NULL \<longrightarrow> (\<exists>s. socks pair_sample a = Some s \<and> s_id s = 2 \<and>
        (\<exists>q. s_peer s \<noteq> NULL \<and> socks pair_sample (s_peer s) = Some q \<and> s_id q = 1)))"
  using find_local_socket_finds [OF pair_inv, of 2 1] by auto

section \<open>The bytes of a local socket\<close>

text \<open>Well-formed packets: the bytes still to be written are there.\<close>

definition pkt_ok :: "apacket \<Rightarrow> bool" where
  "pkt_ok p \<longleftrightarrow> pptr p + unat (plen p) \<le> length (pdata p)"

lemma length_pbytes: "pkt_ok p \<Longrightarrow> length (pbytes p) = unat (plen p)"
  by (simp add: pkt_ok_def pbytes_def)

lemma pbytes_empty: "plen p = 0 \<Longrightarrow> pbytes p = []"
  by (simp add: pbytes_def)

lemma advance_ok:
  assumes "pkt_ok p" and "r \<le> unat (plen p)"
  shows "pkt_ok (advance r p) \<and> pbytes (advance r p) = drop r (pbytes p)"
proof -
  have "r < 2 ^ 32" using assms(2) unsigned_less [where w = "plen p" and 'a = nat] by simp
  then have u: "unat (of_nat r :: u32) = r" by (simp add: unat_of_nat)
  then have "unat (plen p - of_nat r) = unat (plen p) - r"
    using assms(2) by (subst unat_sub) (simp_all add: word_le_nat_alt)
  then show ?thesis
    using assms by (simp add: advance_def pkt_ok_def pbytes_def drop_take add.commute)
qed

lemma adb_write_stream:
  assumes "adb_write fd bs st = (r, e, st')"
  shows "(0 < r \<longrightarrow> nat r \<le> length bs) \<and> wrote st' = (wrote st)(fd := wrote st fd @ take (nat r) bs) \<and>
    socks st' = socks st \<and> fdes st' = fdes st \<and> slinks st' = slinks st"
  using assms by (auto simp: adb_write_def min_def split: list.splits wr_ev.splits)

lemma drain_packet_stream:
  assumes "pkt_ok p" and "drain_packet fd p st = (res, p', st')"
  shows "pkt_ok p' \<and> (res = Drained \<longrightarrow> pbytes p' = []) \<and> socks st' = socks st \<and> fdes st' = fdes st \<and> slinks st' = slinks st \<and>
    wrote st' fd @ pbytes p' = wrote st fd @ pbytes p"
  using assms
proof (induction fd p st arbitrary: res p' st' rule: drain_packet.induct)
  case (1 fd p st)
  show ?case
  proof (cases "plen p = 0")
    case True
    then show ?thesis using 1(3,4) by (simp add: drain_packet.simps [of fd p] pbytes_empty)
  next
    case False
    obtain r e st1 where w: "adb_write fd (pbytes p) st = (r, e, st1)" by (cases "adb_write fd (pbytes p) st")
    note ws = adb_write_stream [OF w]
    show ?thesis
    proof (cases "0 < r")
      case True
      then have "nat r \<le> unat (plen p)" using ws length_pbytes [OF 1(3)] by simp
      note adv = advance_ok [OF 1(3) this]
      have "drain_packet fd (advance (nat r) p) st1 = (res, p', st')"
        using 1(4) False True w by (simp add: drain_packet.simps [of fd p])
      from 1(1) [OF False w [symmetric] refl True _ this] adv ws show ?thesis by simp
    next
      case nr: False
      show ?thesis
      proof (cases "r < 0 \<and> e = EINTR")
        case True
        then have d: "drain_packet fd p st1 = (res, p', st')"
          using 1(4) False nr w by (simp add: drain_packet.simps [of fd p])
        from 1(2) [OF False w [symmetric] refl nr _ True 1(3) d] True ws nr show ?thesis by simp
      next
        case ne: False
        then have "p' = p" "st' = st1" "res \<noteq> Drained" using 1(4) False nr w
          by (auto simp: drain_packet.simps [of fd p] split: if_splits)
        then show ?thesis using ws nr 1(3) by simp
      qed
    qed
  qed
qed

lemma drain_queue_stream:
  assumes "\<forall>p\<in>set ps. pkt_ok p" and "drain_queue fd ps st = (res, ps', st')"
  shows "(\<forall>p\<in>set ps'. pkt_ok p) \<and> (res = Drained \<longleftrightarrow> ps' = []) \<and> socks st' = socks st \<and> fdes st' = fdes st \<and> slinks st' = slinks st \<and>
    wrote st' fd @ concat (map pbytes ps') = wrote st fd @ concat (map pbytes ps)"
  using assms
proof (induction ps arbitrary: st)
  case (Cons p ps)
  obtain r p1 st1 where d: "drain_packet fd p st = (r, p1, st1)" by (cases "drain_packet fd p st")
  have "pkt_ok p" using Cons.prems(1) by simp
  note ds = drain_packet_stream [OF this d]
  show ?case
  proof (cases "r = Drained")
    case True
    then have "drain_queue fd ps st1 = (res, ps', st')" using Cons.prems(2) d by simp
    from Cons.IH [OF _ this] Cons.prems(1) ds True show ?thesis by auto
  next
    case False
    then show ?thesis using Cons.prems d ds by auto
  qed
qed auto

lemma sock_inv_script [simp]:
  "sock_inv T X (st\<lparr>wr_script := w\<rparr>) = sock_inv T X st" "sock_inv T X (st\<lparr>wrote := v\<rparr>) = sock_inv T X st"
  "sock_inv T X (st\<lparr>rd_script := r\<rparr>) = sock_inv T X st"
  by (simp_all add: sock_inv_def fd_ok_def fd_inv_def)

lemma fd_add_watches:
  assumes "fd_ok st" "fdes st a = Some f" "fdevent_add a ev st = Inr st'" "fdes st' a = Some f'" "k \<le> 2" "bit ev k"
  shows "bit (fde_state f') k"
proof -
  obtain ps where ps: "fd_inv st ps" using assms(1) by (auto simp: fd_ok_def)
  define e where "e = (fde_state f AND FDE_EVENTMASK) OR (ev AND FDE_EVENTMASK)"
  have be: "bit e k" using assms(5,6) by (simp add: e_def bit_or_iff bit_and_iff mask_bits)
  obtain st2 where "fdevent_set a e st = Inr st2"
    "fdes st2 = (fdes st)(a \<mapsto> (if fde_state f AND FDE_EVENTMASK = e AND FDE_EVENTMASK then f
                                  else set_result f (e AND FDE_EVENTMASK)))"
    by (rule fdevent_set_inv [OF ps assms(2)])
  with assms(3,4) have f': "f' = (if fde_state f AND FDE_EVENTMASK = e AND FDE_EVENTMASK then f
                                  else set_result f (e AND FDE_EVENTMASK))"
    by (simp add: fdevent_add_set [of st a f, OF assms(2)] e_def)
  show ?thesis
  proof (cases "fde_state f AND FDE_EVENTMASK = e AND FDE_EVENTMASK")
    case True
    then have "bit (fde_state f AND FDE_EVENTMASK) k = bit (e AND FDE_EVENTMASK) k" by (rule arg_cong)
    moreover have "f' = f" unfolding f' by (rule if_P [OF True])
    ultimately show ?thesis using be assms(5) by (simp add: bit_and_iff mask_bits)
  next
    case False
    then show ?thesis using f' be assms(5) by (simp add: set_result_props)
  qed
qed

lemma adb_write_frame:
  assumes "adb_write fd bs st = (r, e, st')"
  shows "sock_inv T X st' = sock_inv T X st \<and> sent st' = sent st \<and> fresh_payload st' = fresh_payload st \<and> rd_script st' = rd_script st"
  using assms by (auto simp: adb_write_def split: list.splits wr_ev.splits)

lemma enqueue_write_stream:
  assumes "pkt_ok p" and "enqueue_write fd p st = (ok, p', st')"
  shows "pkt_ok p' \<and> socks st' = socks st \<and> fdes st' = fdes st \<and> slinks st' = slinks st \<and>
    sock_inv T X st' = sock_inv T X st \<and> sent st' = sent st \<and>
    wrote st' fd @ pbytes p' = wrote st fd @ pbytes p"
  using assms
proof (induction fd p st arbitrary: ok p' st' rule: enqueue_write.induct)
  case (1 fd p st)
  show ?case
  proof (cases "plen p = 0")
    case True
    then show ?thesis using 1(2,3) by (simp add: enqueue_write.simps [of fd p])
  next
    case False
    obtain r e st1 where w: "adb_write fd (pbytes p) st = (r, e, st1)" by (cases "adb_write fd (pbytes p) st")
    note ws = adb_write_stream [OF w] adb_write_frame [OF w, of T X]
    show ?thesis
    proof (cases "0 < r")
      case True
      then have "nat r \<le> unat (plen p)" using ws length_pbytes [OF 1(2)] by simp
      note adv = advance_ok [OF 1(2) this]
      have "enqueue_write fd (advance (nat r) p) st1 = (ok, p', st')"
        using 1(3) False True w by (simp add: enqueue_write.simps [of fd p])
      from 1(1) [OF False w [symmetric] refl True _ this] adv ws show ?thesis by simp
    next
      case nr: False
      then have "p' = p" "st' = st1" using 1(3) False w by (auto simp: enqueue_write.simps [of fd p] split: if_splits)
      then show ?thesis using ws nr 1(2) by simp
    qed
  qed
qed

text \<open>The bytes a socket still has to write.\<close>

definition unsent :: "asocket \<Rightarrow> byte list" where
  "unsent s = concat (map pbytes (s_pkts s))"

text \<open>
  C34: giving a packet to a local socket whose descriptor does not fail adds the packet's bytes, and
  nothing else, behind everything given before: what has been written followed by what is queued is
  the old stream followed by the packet. The call returns 0 exactly when nothing is left to write; otherwise
  the socket waits for its descriptor to become writable.
\<close>

theorem local_socket_enqueue_stream:
  assumes inv: "sock_inv T {} st" and s: "socks st a = Some s" "is_local s"
    and p: "unat (plen p) \<le> length (pdata p)"
    and ok: "s_pkts s \<noteq> [] \<or> fst (enqueue_write (s_fd s) (p\<lparr>pptr := 0\<rparr>) st)"
  shows "\<exists>r st' s'. local_socket_enqueue a p st = Inr (r, st') \<and> sock_inv T {} st' \<and> socks st' a = Some s' \<and>
    wrote st' (s_fd s) @ unsent s' = wrote st (s_fd s) @ unsent s @ take (unat (plen p)) (pdata p) \<and>
    (r = 0 \<longleftrightarrow> s_pkts s' = []) \<and> (r = 0 \<or> r = 1) \<and>
    (r = 1 \<longrightarrow> s_fd s \<in> write_fds st')"
proof -
  define p0 where "p0 = p\<lparr>pptr := 0\<rparr>"
  have p0: "pkt_ok p0" "pbytes p0 = take (unat (plen p)) (pdata p)" using p by (simp_all add: p0_def pkt_ok_def pbytes_def)
  obtain okb p1 st1 where e: "(if s_pkts s \<noteq> [] then (True, p0, st) else enqueue_write (s_fd s) p0 st) = (okb, p1, st1)"
    by (cases "if s_pkts s \<noteq> [] then (True, p0, st) else enqueue_write (s_fd s) p0 st")
  have okb: "okb" using ok e by (auto simp: p0_def split: if_splits)
  have st1: "pkt_ok p1" "socks st1 = socks st" "fdes st1 = fdes st" "sock_inv T {} st1"
    "wrote st1 (s_fd s) @ pbytes p1 = wrote st (s_fd s) @ pbytes p0" "s_pkts s \<noteq> [] \<longrightarrow> wrote st1 = wrote st \<and> p1 = p0"
    using e p0(1) inv enqueue_write_stream [OF p0(1), of "s_fd s" st okb p1 st1 T "{}"] by (auto split: if_splits)
  show ?thesis
  proof (cases "s_pkts s = [] \<and> plen p1 = 0")
    case True
    then have "local_socket_enqueue a p st = Inr (0, st1)"
      using s e okb by (simp add: local_socket_enqueue_def Let_def p0_def [symmetric])
    then show ?thesis using True st1 s p0(2) by (auto simp: unsent_def pbytes_empty)
  next
    case False
    define s2 where "s2 = s\<lparr>s_pkts := s_pkts s @ [p1]\<rparr>"
    define st2 where "st2 = set_sock a s2 st1"
    have k: "sock_kind s2" using kind_of [OF inv s(1)] by (simp add: s2_def sock_kind_def split: enqueue_fn.splits)
    have i2: "sock_inv T {} st2"
      unfolding st2_def by (rule sock_inv_upd [OF st1(4), where s = s]) (use s st1(2) k in \<open>simp_all add: s2_def is_local_def is_remote_def\<close>)
    have s2: "socks st2 a = Some s2" "is_local s2" "s_fd s2 = s_fd s" using s by (simp_all add: st2_def set_sock_def s2_def is_local_def)
    obtain f where f: "fdes st2 a = Some f" "active f" "fde_fd f = s_fd s" using local_fde [OF i2 s2(1,2)] s2(3) by metis
    have "fd_ok st2" using i2 by (simp add: sock_inv_def)
    then obtain st3 f' where st3: "fdevent_add a FDE_WRITE st2 = Inr st3" "fd_ok st3" "fdes st3 = (fdes st2)(a \<mapsto> f')"
      "active f'" "fde_fd f' = fde_fd f" "fdstate.more st3 = fdstate.more st2"
      by (rule fd_change [where op = fdevent_add and a = a and f = f]) (use f in auto)
    note m = more_fields [OF st3(6)]
    have run: "local_socket_enqueue a p st = Inr (1, st3)"
    proof -
      have "upd_sock a (\<lambda>s. s\<lparr>s_pkts := s_pkts s @ [p1]\<rparr>) st1 = Inr st2"
        using s(1) st1(2) by (simp add: upd_sock_def st2_def s2_def)
      then show ?thesis using s(1) e okb False st3(1)
        by (auto simp: local_socket_enqueue_def Let_def p0_def [symmetric])
    qed
    have "sock_inv T {} st3"
    proof -
      have "kinds_ok (socks st2) ((fdes st2)(a \<mapsto> f'))"
        using i2 s2 st3(4,5) f(3) unfolding sock_inv_def kinds_ok_def by auto
      then show ?thesis using i2 st3(2,3) unfolding sock_inv_def by (simp add: m)
    qed
    moreover have "wrote st3 (s_fd s) @ unsent s2 = wrote st (s_fd s) @ unsent s @ take (unat (plen p)) (pdata p)"
      using st1(5,6) p0(2) m(7) by (cases "s_pkts s = []") (auto simp: st2_def set_sock_def s2_def unsent_def)
    moreover have "s_fd s \<in> write_fds st3"
    proof -
      have "bit (fde_state f') 1"
        using fd_add_watches [OF \<open>fd_ok st2\<close> f(1) st3(1), of f' 1] st3(3) by (simp add: mask_bits)
      then show ?thesis using st3(2-5) f(3) by (auto simp: fd_ok_def fd_inv_def sets_ok_def watch_def)
    qed
    ultimately show ?thesis using run s2(1) m(1) by (intro exI [of _ 1] exI [of _ st3] exI [of _ s2]) (simp add: s2_def)
  qed
qed

definition abc_packet :: apacket where
  "abc_packet = \<lparr>pmsg = zero_msg, pdata = ''abc'', plen = 3, pptr = 0\<rparr>"

theorem local_socket_enqueue_stream_witness:
  "\<exists>r st' s'. local_socket_enqueue 10 abc_packet (pair_sample\<lparr>wr_script := (\<lambda>_. [Took 1])\<rparr>) = Inr (r, st') \<and>
     socks st' 10 = Some s' \<and> wrote st' 1 @ unsent s' = ''abc'' \<and> (r = 1 \<longrightarrow> 1 \<in> write_fds st')"
proof -
  let ?st = "pair_sample\<lparr>wr_script := (\<lambda>_. [Took 1])\<rparr>"
  have i: "sock_inv {} {} ?st" using pair_inv by simp
  have s: "socks ?st 10 = Some sock_a" "is_local sock_a" "s_fd sock_a = 1" "unsent sock_a = []" "wrote ?st 1 = []"
    by (simp_all add: pair_sample_def sock_a_def blank_socket_def is_local_def unsent_def)
  have w: "fst (enqueue_write (s_fd sock_a) (abc_packet\<lparr>pptr := 0\<rparr>) ?st)"
    by (simp add: enqueue_write.simps abc_packet_def adb_write_def pbytes_def advance_def pair_sample_def s(3))
  have l: "unat (plen abc_packet) = 3" "pdata abc_packet = ''abc''" by (simp_all add: abc_packet_def)
  show ?thesis using local_socket_enqueue_stream [OF i s(1,2), of abc_packet] w l s(3-5) by fastforce
qed

lemma drain_packet_inv: "drain_packet fd p st = (r, p', st') \<Longrightarrow> sock_inv T X st' = sock_inv T X st"
proof (induction fd p st arbitrary: r p' st' rule: drain_packet.induct)
  case (1 fd p st)
  obtain r1 e st1 where w: "adb_write fd (pbytes p) st = (r1, e, st1)" by (cases "adb_write fd (pbytes p) st")
  note f = adb_write_frame [OF w, of T X]
  from 1(3) w f 1(1) [OF _ w [symmetric] refl] 1(2) [OF _ w [symmetric] refl] show ?case
    by (simp add: drain_packet.simps [of fd p] split: if_splits) (metis+)?
qed

lemma drain_queue_inv: "drain_queue fd ps st = (r, ps', st') \<Longrightarrow> sock_inv T X st' = sock_inv T X st"
proof (induction ps arbitrary: st)
  case (Cons p ps)
  then show ?case by (auto split: prod.splits if_splits dest: drain_packet_inv)
qed simp

text \<open>
  when the descriptor of a local socket becomes writable, the handler writes queued bytes in order and keeps
  the rest: written and queued bytes together stay the same. When the descriptor would block, the handler
  returns with exactly the unwritten packets queued; a closing socket is freed once its last byte has
  been written, not before.
\<close>

theorem socket_writable_drains:
  assumes inv: "sock_inv T {} st" and s: "socks st a = Some s" "is_local s" "\<forall>p\<in>set (s_pkts s). pkt_ok p"
    and d: "drain_queue (s_fd s) (s_pkts s) st = (res, ps, st1)"
  shows "wrote st1 (s_fd s) @ concat (map pbytes ps) = wrote st (s_fd s) @ unsent s \<and>
    (res = Again \<longrightarrow> (\<exists>st'. socket_writable a (s_fd s) st = Inr (True, st') \<and> sock_inv T {} st' \<and>
       socks st' = (socks st)(a \<mapsto> s\<lparr>s_pkts := ps\<rparr>) \<and> wrote st' = wrote st1 \<and> ps \<noteq> [])) \<and>
    (res = Drained \<and> s_closing s \<and> \<not> s_exit_on_close s \<longrightarrow>
       (\<exists>st'. socket_writable a (s_fd s) st = Inr (True, st') \<and> sock_inv T {} st' \<and> socks st' a = None \<and> ps = []))"
proof -
  note ds = drain_queue_stream [OF s(3) d]
  define s' where "s' = s\<lparr>s_pkts := ps\<rparr>"
  define st' where "st' = set_sock a s' st1"
  have u: "upd_sock a (\<lambda>s. s\<lparr>s_pkts := ps\<rparr>) st1 = Inr st'" using ds s(1) by (simp add: upd_sock_def st'_def s'_def)
  have fr: "sock_inv T X st1 = sock_inv T X st" for X by (rule drain_queue_inv [OF d])
  have "sock_kind s'" using kind_of [OF inv s(1)] by (simp add: s'_def sock_kind_def split: enqueue_fn.splits)
  then have i': "sock_inv T {} st'"
    unfolding st'_def
    by (intro sock_inv_upd [where s = s]) (use inv fr ds s in \<open>simp_all add: s'_def is_local_def is_remote_def\<close>)
  have "socket_writable a (s_fd s) st = Inr (True, st')" if "res = Again"
    using that s(1) d u by (simp add: socket_writable_def)
  moreover have "\<exists>st2. socket_writable a (s_fd s) st = Inr (True, st2) \<and> sock_inv T {} st2 \<and> socks st2 a = None \<and> ps = []"
    if x: "res = Drained" "s_closing s" "\<not> s_exit_on_close s"
  proof -
    have "s_peer s = NULL" using kind_of [OF inv s(1)] x(2) s(2) by (simp add: sock_kind_def is_local_def)
    then obtain st2 where "socket_close (Suc (Suc 2)) a st' = Inr st2" "sock_inv T {} st2" "closed_sock a s' st2"
      using socket_close_solo [OF i', of a s' 2] x(3) by (auto simp: st'_def set_sock_def s'_def)
    then show ?thesis using x s(1) d u ds by (auto simp: socket_writable_def closed_sock_def s'_def numeral_eq_Suc)
  qed
  ultimately show ?thesis using ds i' by (auto simp: unsent_def st'_def set_sock_def s'_def)
qed

definition linger_sample :: sockst where
  "linger_sample = pair_sample\<lparr>wr_script := (\<lambda>_. [Took 2])\<rparr>"

theorem socket_writable_drains_witness:
  "\<exists>st'. socket_writable 10 1 (set_sock 10 (sock_a\<lparr>s_pkts := [abc_packet]\<rparr>) linger_sample) = Inr (True, st') \<and>
     wrote st' 1 = ''ab''"
proof -
  let ?s = "sock_a\<lparr>s_pkts := [abc_packet]\<rparr>"
  let ?st = "set_sock 10 ?s linger_sample"
  have i: "sock_inv {} {} linger_sample" using pair_inv by (simp add: linger_sample_def)
  have a: "socks linger_sample 10 = Some sock_a" by (simp add: linger_sample_def pair_sample_def)
  have inv: "sock_inv {} {} ?st"
    by (rule sock_inv_upd [OF i a]) (simp_all add: sock_a_def blank_socket_def is_local_def is_remote_def sock_kind_def)
  have s: "socks ?st 10 = Some ?s" "is_local ?s" "\<forall>p\<in>set (s_pkts ?s). pkt_ok p" "s_fd ?s = 1"
    by (simp_all add: set_sock_def sock_a_def blank_socket_def is_local_def pkt_ok_def abc_packet_def)
  have fd: "s_fd sock_a = 1" by (simp add: sock_a_def)
  obtain res ps st1 where d: "drain_queue (s_fd ?s) (s_pkts ?s) ?st = (res, ps, st1)" "res = Again" "wrote st1 1 = ''ab''"
    by (simp add: fd drain_packet.simps [of 1] abc_packet_def adb_write_def pbytes_def advance_def linger_sample_def
        pair_sample_def set_sock_def)
  show ?thesis using socket_writable_drains [OF inv s(1-3) d(1)] d(2,3) s(4) by auto
qed

section \<open>A handler that goes on with a freed socket\<close>

lemma adb_read_frame: "adb_read fd n st = (r, e, bs, st') \<Longrightarrow> st' = st\<lparr>rd_script := rd_script st'\<rparr>"
  by (auto simp: adb_read_def split: list.splits rd_ev.splits)

lemma read_avail_frame:
  "read_avail fd n acc r st = (bs, r', eof, st') \<Longrightarrow>
   st' = st\<lparr>rd_script := rd_script st'\<rparr> \<and> (\<exists>cs. bs = acc @ cs \<and> length cs \<le> n)"
proof (induction fd n acc r st rule: read_avail.induct)
  case (1 fd avail acc r0 st)
  show ?case
  proof (cases "avail = 0")
    case True
    then show ?thesis using 1(3) by (simp add: read_avail.simps [of fd 0])
  next
    case False
    obtain r1 e bs1 st1 where w: "adb_read fd avail st = (r1, e, bs1, st1)" by (cases "adb_read fd avail st")
    note f = adb_read_frame [OF w]
    have g: "st1\<lparr>rd_script := x\<rparr> = st\<lparr>rd_script := x\<rparr>" for x by (subst f) simp
    show ?thesis
    proof (cases "0 < r1")
      case True
      then have len: "length bs1 = nat r1" "nat r1 \<le> avail"
        using w by (auto simp: adb_read_def split: list.splits rd_ev.splits)
      have "read_avail fd (avail - nat r1) (acc @ bs1) r1 st1 = (bs, r', eof, st')"
        using 1(3) False True w by (simp add: read_avail.simps [of fd avail])
      from 1(1) [OF False w [symmetric] refl refl True this] obtain cs
        where "st' = st1\<lparr>rd_script := rd_script st'\<rparr>" "bs = (acc @ bs1) @ cs" "length cs \<le> avail - nat r1" by blast
      then show ?thesis using len unfolding g by (intro conjI exI [of _ "bs1 @ cs"]) simp_all
    next
      case nr: False
      show ?thesis
      proof (cases "r1 < 0 \<and> e = EINTR")
        case True
        then have "read_avail fd avail acc r1 st1 = (bs, r', eof, st')"
          using 1(3) False nr w by (simp add: read_avail.simps [of fd avail])
        from 1(2) [OF False w [symmetric] refl refl nr _ True this] True show ?thesis unfolding g by simp
      next
        case ne: False
        then have "bs = acc" "st' = st1" using 1(3) False nr w
          by (auto simp: read_avail.simps [of fd avail] split: if_splits)
        then show ?thesis using f by simp
      qed
    qed
  qed
qed

lemma read_avail_nonempty:
  assumes "rd_script st fd = Seg bs # rest" "bs \<noteq> []" "0 < n" "read_avail fd n [] r st = (bs1, r1, eof, st1)"
  shows "bs1 \<noteq> []"
proof -
  obtain m st2 where "read_avail fd m (take n bs) (int (min n (length bs))) st2 = (bs1, r1, eof, st1)"
    using assms by (auto simp: read_avail.simps [of fd n] adb_read_def split: if_splits)
  from read_avail_frame [OF this] assms(2,3) show ?thesis by auto
qed

text \<open>
  C37: \<open>local_socket_enqueue\<close> closes the socket and its peer when a write fails, and returns 1, not the -1 by
  which the handler of the peer would know that it must stop: when data arrives on a local socket whose local
  peer can no longer be written to, the handler goes on to the event object of a socket that is
  freed.
\<close>

theorem socket_readable_after_free:
  assumes inv: "sock_inv T {} st" and s: "socks st a = Some s" "is_local s" "s_pkts s = []" "\<not> s_exit_on_close s" "s_peer s \<noteq> NULL"
    and q: "socks st (s_peer s) = Some q" "is_local q" "s_pkts q = []" "\<not> s_exit_on_close q"
    and rd: "rd_script st (s_fd s) = Seg bs # rest" "bs \<noteq> []" and wr: "wr_script st (s_fd q) = WFail e # wrest" "e \<noteq> EAGAIN"
  shows "socket_readable smart a (s_fd s) st = Inl (Bad_access ''fdevent'')"
proof -
  let ?p = "s_peer s"
  obtain bs1 r1 eof st1 where ra: "read_avail (s_fd s) MAX_PAYLOAD [] 0 st = (bs1, r1, eof, st1)"
    by (cases "read_avail (s_fd s) MAX_PAYLOAD [] 0 st")
  note f1 = read_avail_frame [OF ra]
  obtain g where g: "st1 = st\<lparr>rd_script := g\<rparr>" using f1 by blast
  have st1: "sock_inv T {} st1" "socks st1 = socks st" "wr_script st1 = wr_script st" using inv by (simp_all add: g)
  have ne: "bs1 \<noteq> []" "length bs1 \<le> MAX_PAYLOAD"
    using f1 read_avail_nonempty [OF rd _ ra] by (auto simp: MAX_PAYLOAD_def)
  define p where "p = (get_apacket (fresh_payload st1))\<lparr>pdata := bs1 @ drop (length bs1) (pdata (get_apacket (fresh_payload st1))),
     plen := of_nat (length bs1)\<rparr>"
  have pl: "plen (p\<lparr>pptr := 0\<rparr>) \<noteq> 0" using ne by (simp add: p_def word_unat_eq_iff unat_of_nat MAX_PAYLOAD_def)
  define st2 where "st2 = st1\<lparr>wr_script := (wr_script st1)(s_fd q := wrest)\<rparr>"
  have ew: "enqueue_write (s_fd q) (p\<lparr>pptr := 0\<rparr>) st1 = (False, p\<lparr>pptr := 0\<rparr>, st2)"
    using pl wr st1(3) by (simp add: enqueue_write.simps [of "s_fd q"] adb_write_def st2_def)
  have pq: "s_peer q = a" "a \<noteq> ?p" using inv peers_okD [of "{}" "socks st" a s] s q(1) by (auto simp: sock_inv_def)
  have an: "a \<noteq> NULL" using inv s(1) by (cases "a = 0") (auto simp: sock_inv_def heads_free_def)
  have i2: "sock_inv T {} st2" "socks st2 = socks st" using st1 by (simp_all add: st2_def)
  obtain st3 where st3: "sclose ?p st2 = Inr st3" "closed_sock a s st3"
    using socket_close_full [OF i2(1), of ?p q s 0] i2(2) q s pq an by (auto simp: numeral_eq_Suc)
  have "fdes st3 a = None" using st3(2) s(2,3) by (simp add: closed_sock_def)
  moreover have "socket_enqueue smart ?p p st1 = Inr (1, st3)"
    using q st1(2) ew st3(1) by (simp add: socket_enqueue_def is_local_def local_socket_enqueue_def Let_def)
  ultimately show ?thesis
    using ra s st1(2) ne(1)
    by (simp add: socket_readable_def Let_def p_def [symmetric] fdevent_del_def)
qed

theorem socket_readable_after_free_witness:
  "socket_readable (\<lambda>a p st. Inr (0, st)) 10 1 pair_sample = Inl (Bad_access ''fdevent'')"
proof -
  have "s_fd sock_a = 1" by (simp add: sock_a_def)
  moreover have "socket_readable (\<lambda>a p st. Inr (0, st)) 10 (s_fd sock_a) pair_sample = Inl (Bad_access ''fdevent'')"
    by (rule socket_readable_after_free [OF pair_inv, where q = sock_b and bs = "''x''" and rest = "[]" and e = "Eother 32" and wrest = "[]"])
       (simp_all add: pair_sample_def is_local_def, simp_all add: sock_a_def sock_b_def blank_socket_def)
  ultimately show ?thesis by simp
qed

end
