(* ===== verification/Protocol_Props.thy ===== *)
theory Protocol_Props
  imports Protocol Sockets_Props
begin

text \<open>
  What the protocol guarantees: a device that requires authentication puts a transport on line only for a
  verified signature, and a transport that is off line can do nothing; going off line closes every
  remote socket of the transport. And where the checks on the origin of a packet are incomplete.
\<close>

section \<open>Operations that leave the transports alone\<close>

definition keeps :: "'z sockst_scheme \<Rightarrow> 'z sockst_scheme outcome \<Rightarrow> bool" where
  "keeps st0 r \<longleftrightarrow> (\<forall>st. r = Inr st \<longrightarrow> sockst.more st = sockst.more st0)"

lemma keepsD: "keeps st0 r \<Longrightarrow> r = Inr st \<Longrightarrow> sockst.more st = sockst.more st0"
  by (simp add: keeps_def)

lemma keeps_rules:
  "keeps st0 (Inl e)"
  "sockst.more st = sockst.more st0 \<Longrightarrow> keeps st0 (Inr st)"
  "keeps st0 x \<Longrightarrow> keeps st0 y \<Longrightarrow> keeps st0 (if b then x else y)"
  by (simp_all add: keeps_def)

lemma keeps_bind:
  "keeps st0 r \<Longrightarrow> (\<And>st. sockst.more st = sockst.more st0 \<Longrightarrow> keeps st0 (f st)) \<Longrightarrow> keeps st0 (bindE r f)"
  unfolding keeps_def bindE_eq_Inr by blast

lemma keeps_read: "(\<And>x. keeps st0 (f x)) \<Longrightarrow> keeps st0 (bindE (r :: 'a outcome) f)"
  unfolding keeps_def bindE_eq_Inr by blast

lemma keeps_fd:
  assumes "sockst.more st = sockst.more st0"
  shows "keeps st0 (fdevent_remove a st)" "keeps st0 (fdevent_add a ev st)" "keeps st0 (fdevent_del a ev st)"
    "keeps st0 (fdevent_set a ev st)"
  by (simp_all add: keeps_def more_fields(10) [OF fdevent_more(1)] more_fields(10) [OF fdevent_more(2)]
      more_fields(10) [OF fdevent_more(3)] more_fields(10) [OF fdevent_more(4)] assms)

lemma keeps_upd_sock: "sockst.more st = sockst.more st0 \<Longrightarrow> keeps st0 (upd_sock a f st)"
  by (auto simp: keeps_def upd_sock_def bindE_eq_Inr set_sock_def)

lemma keeps_remove_socket: "sockst.more st = sockst.more st0 \<Longrightarrow> keeps st0 (remove_socket a st)"
  by (auto simp: keeps_def remove_socket_def upd_sock_def bindE_eq_Inr set_sock_def split: if_splits)

lemma keeps_send_packet: "sockst.more st = sockst.more st0 \<Longrightarrow> keeps st0 (send_packet p t st)"
  by (auto simp: keeps_def send_packet_def bindE_eq_Inr split: if_splits)

lemma keeps_destroy: "sockst.more st = sockst.more st0 \<Longrightarrow> keeps st0 (local_socket_destroy a st)"
  unfolding local_socket_destroy_def
  by (rule keeps_read, rule keeps_bind, erule keeps_fd, rule keeps_bind, erule keeps_remove_socket)
     (auto simp: free_sock_def intro!: keeps_rules)

lemma keeps_shutdown: "sockst.more st = sockst.more st0 \<Longrightarrow> keeps st0 (remote_socket_shutdown a st)"
  unfolding remote_socket_shutdown_def Let_def by (intro keeps_read keeps_send_packet)

lemma sendfailmsg_more: "sockst.more (snd (sendfailmsg fd m st)) = sockst.more st"
  by (simp add: sendfailmsg_def Let_def split_beta)

lemma keeps_socket_close: "sockst.more st = sockst.more st0 \<Longrightarrow> keeps st0 (socket_close n a st)"
proof (induction n arbitrary: a st)
  case 0
  then show ?case by (simp add: keeps_def)
next
  case (Suc n)
  note cl = Suc.IH
  have peer: "keeps st0 (close_peer_of (socket_close n) a st)" if "sockst.more st = sockst.more st0" for st
    unfolding close_peer_of_def
    by (intro keeps_read keeps_bind keeps_upd_sock cl, simp split: shutdown_fn.split)
       (use that in \<open>auto intro!: keeps_rules keeps_shutdown keeps_upd_sock cl\<close>)
  have "keeps st0 (local_socket_close_locked (socket_close n) a st)"
    unfolding local_socket_close_locked_def
    apply (rule keeps_read, rule keeps_bind, rule keeps_rules, rule peer, rule Suc.prems, rule keeps_rules, rule Suc.prems)
    apply (rule keeps_read, rule keeps_rules, erule keeps_destroy)
    apply (rule keeps_bind, erule keeps_upd_sock, rule keeps_bind, erule keeps_fd, rule keeps_bind, erule keeps_remove_socket)
    by (auto intro!: keeps_rules)
  moreover have "keeps st0 (local_socket_close_notify (socket_close n) a st)"
    unfolding local_socket_close_notify_def
    by (rule keeps_bind, rule keeps_upd_sock, rule Suc.prems, rule keeps_read, rule cl) (simp add: sendfailmsg_more)
  moreover have "keeps st0 (remote_socket_close (socket_close n) a st)"
    unfolding remote_socket_close_def
    apply (rule keeps_read, rule keeps_bind, rule keeps_rules, rule keeps_bind, rule keeps_upd_sock, rule Suc.prems)
    apply (rule keeps_read, erule cl, rule keeps_rules, rule Suc.prems, rule keeps_read)
    by (auto simp: free_sock_def intro!: keeps_rules)
  moreover have "keeps st0 (smart_socket_close (socket_close n) a st)"
    unfolding smart_socket_close_def
    apply (rule keeps_read, rule keeps_bind, rule keeps_rules, rule keeps_bind, rule keeps_upd_sock, rule Suc.prems)
    apply (rule keeps_read, rule keeps_bind, erule cl, erule keeps_upd_sock, rule keeps_rules, rule Suc.prems, rule keeps_read)
    by (auto simp: free_sock_def intro!: keeps_rules)
  moreover have "keeps st0 (Inl e)" for e :: fault by (simp add: keeps_def)
  ultimately show ?case by (auto intro!: keeps_read split: close_fn.split)
qed

definition keeps_pair :: "'z sockst_scheme \<Rightarrow> ('a \<times> 'z sockst_scheme) outcome \<Rightarrow> bool" where
  "keeps_pair st0 r \<longleftrightarrow> (\<forall>x st. r = Inr (x, st) \<longrightarrow> sockst.more st = sockst.more st0)"

lemma keeps_pair_rules:
  "keeps_pair st0 (Inl e)"
  "sockst.more st = sockst.more st0 \<Longrightarrow> keeps_pair st0 (Inr (x, st))"
  "keeps_pair st0 r \<Longrightarrow> keeps_pair st0 r' \<Longrightarrow> keeps_pair st0 (if b then r else r')"
  by (simp_all add: keeps_pair_def)

lemma keeps_to_pair:
  "keeps st0 r \<Longrightarrow> (\<And>st. sockst.more st = sockst.more st0 \<Longrightarrow> keeps_pair st0 (f st)) \<Longrightarrow> keeps_pair st0 (bindE r f)"
  unfolding keeps_def keeps_pair_def bindE_eq_Inr by blast

lemma keeps_read_pair: "(\<And>x. keeps_pair st0 (f x)) \<Longrightarrow> keeps_pair st0 (bindE (r :: 'a outcome) f)"
  unfolding keeps_pair_def bindE_eq_Inr by blast

lemma adb_write_more: "adb_write fd bs st = (r, e, st') \<Longrightarrow> sockst.more st' = sockst.more st"
  by (auto simp: adb_write_def split: list.splits wr_ev.splits)

lemma enqueue_write_more: "enqueue_write fd p st = (ok, p', st') \<Longrightarrow> sockst.more st' = sockst.more st"
proof (induction fd p st arbitrary: ok p' st' rule: enqueue_write.induct)
  case (1 fd p st)
  obtain r e st1 where w: "adb_write fd (pbytes p) st = (r, e, st1)" by (metis prod_cases3)
  show ?case
    using "1.prems" "1.IH" [OF _ w [symmetric] refl] adb_write_more [OF w]
    by (subst (asm) enqueue_write.simps) (auto simp: w split: if_splits)
qed

lemma keeps_local_enqueue:
  assumes "sockst.more st = sockst.more st0"
  shows "keeps_pair st0 (local_socket_enqueue a p st)"
proof -
  have w: "sockst.more (snd (snd (enqueue_write fd p st))) = sockst.more st0" for fd p
    by (metis assms enqueue_write_more prod.collapse)
  show ?thesis
    unfolding local_socket_enqueue_def Let_def split_beta
    by (rule keeps_read_pair, intro keeps_pair_rules keeps_to_pair keeps_socket_close keeps_upd_sock)
      (auto simp: w assms intro!: keeps_fd(2) keeps_pair_rules)
qed

lemma keeps_remote_enqueue: "sockst.more st = sockst.more st0 \<Longrightarrow> keeps_pair st0 (remote_socket_enqueue a p st)"
  unfolding remote_socket_enqueue_def
  by (intro keeps_read_pair keeps_to_pair keeps_send_packet keeps_pair_rules)

lemma keeps_ready:
  assumes "sockst.more st = sockst.more st0"
  shows "keeps st0 (socket_ready a st)"
proof -
  have "keeps st0 (local_socket_ready_notify a st)"
    unfolding local_socket_ready_notify_def
    apply (rule keeps_bind [OF keeps_upd_sock [OF assms]], rule keeps_read)
    apply (simp add: split_beta local_socket_ready_def)
    by (rule keeps_fd(2)) (metis adb_write_more prod.collapse)
  moreover have "keeps st0 (remote_socket_ready a st)"
    unfolding remote_socket_ready_def Let_def by (intro keeps_read keeps_send_packet assms)
  ultimately show ?thesis unfolding socket_ready_def
    by (auto intro!: keeps_read keeps_fd(2) keeps_rules assms simp: local_socket_ready_def split: ready_fn.split)
qed

lemma keeps_install: "sockst.more st = sockst.more st0 \<Longrightarrow> keeps st0 (fdevent_install env a fd f arg st)"
  by (simp add: keeps_def more_fields(10) [OF fdevent_install_more])

lemma keeps_create_local: "sockst.more st = sockst.more st0 \<Longrightarrow> keeps_pair st0 (create_local_socket env new fd st)"
  unfolding create_local_socket_def install_local_socket_def Let_def
  by (intro keeps_pair_rules keeps_to_pair keeps_bind keeps_rules keeps_upd_sock keeps_install) (simp_all add: set_sock_def)

lemma keeps_create_remote: "sockst.more st = sockst.more st0 \<Longrightarrow> keeps_pair st0 (create_remote_socket new i t st)"
  unfolding create_remote_socket_def Let_def by (intro keeps_pair_rules) (simp add: set_sock_def)

section \<open>No transport goes on line\<close>

definition is_online :: "'z adbst_scheme \<Rightarrow> addr \<Rightarrow> bool" where
  "is_online st u \<longleftrightarrow> (case trans st u of None \<Rightarrow> False | Some x \<Rightarrow> online x)"

definition quiet :: "'z adbst_scheme \<Rightarrow> 'z adbst_scheme outcome \<Rightarrow> bool" where
  "quiet st0 r \<longleftrightarrow> (\<forall>st. r = Inr st \<longrightarrow> (\<forall>u. is_online st u \<longrightarrow> is_online st0 u))"

definition calm :: "'z adbst_scheme \<Rightarrow> 'z adbst_scheme \<Rightarrow> bool" where
  "calm st0 st \<longleftrightarrow> (\<forall>u. is_online st u \<longrightarrow> is_online st0 u)"

lemma more_trans: "sockst.more st = sockst.more (st0 :: 'z adbst_scheme) \<Longrightarrow> trans st = trans st0"
  by (cases st; cases st0) simp

lemma calm_refl [simp]: "calm st st"
  by (simp add: calm_def)

lemma calm_fields:
  assumes "trans st = trans st1" "calm st0 st1"
  shows "calm st0 st"
  using assms by (simp add: calm_def is_online_def)

lemma quiet_rules:
  "quiet st0 (Inl e)"
  "calm st0 st \<Longrightarrow> quiet st0 (Inr st)"
  "(b \<Longrightarrow> quiet st0 r) \<Longrightarrow> (\<not> b \<Longrightarrow> quiet st0 r') \<Longrightarrow> quiet st0 (if b then r else r')"
  by (simp_all add: quiet_def calm_def)

lemma quiet_bind:
  "quiet st0 r \<Longrightarrow> (\<And>st. calm st0 st \<Longrightarrow> quiet st0 (f st)) \<Longrightarrow> quiet st0 (bindE r f)"
  unfolding quiet_def calm_def bindE_eq_Inr by blast

lemma quiet_read: "(\<And>x. r = Inr x \<Longrightarrow> quiet st0 (f x)) \<Longrightarrow> quiet st0 (bindE (r :: 'a outcome) f)"
  unfolding quiet_def bindE_eq_Inr by blast

lemma quiet_pair:
  assumes "keeps_pair st r" "calm st0 st" "\<And>x st'. calm st0 st' \<Longrightarrow> quiet st0 (f (x, st'))"
  shows "quiet st0 (bindE r f)"
  unfolding quiet_def bindE_eq_Inr
proof safe
  fix x st' st'' u
  assume r: "r = Inr (x, st')" "f (x, st') = Inr st''" "is_online st'' u"
  from r(1) assms(1) have "sockst.more st' = sockst.more st" unfolding keeps_pair_def by blast
  with assms(2) have "calm st0 st'" using calm_fields more_trans by blast
  from assms(3) [OF this] r(2,3) show "is_online st0 u" unfolding quiet_def by blast
qed

lemma quiet_keeps: "keeps st r \<Longrightarrow> calm st0 st \<Longrightarrow> quiet st0 r"
  unfolding quiet_def keeps_def by (metis calm_def calm_fields more_trans)

lemmas quiet_ops = quiet_keeps [OF keeps_send_packet [OF refl]] quiet_keeps [OF keeps_socket_close [OF refl]]
  quiet_keeps [OF keeps_ready [OF refl]] quiet_keeps [OF keeps_upd_sock [OF refl]] quiet_keeps [OF keeps_fd(1) [OF refl]]
  quiet_keeps [OF keeps_fd(2) [OF refl]] quiet_keeps [OF keeps_install [OF refl]]

lemma quiet_upd_trans:
  assumes "calm st0 st" "\<And>x. online (f x) \<Longrightarrow> online x"
  shows "quiet st0 (upd_trans t f st)"
  unfolding upd_trans_def
proof (rule quiet_read, rule quiet_rules)
  fix x assume x: "trans_at st t = Inr x"
  have "is_online st u" if "is_online (st\<lparr>trans := (trans st)(t \<mapsto> f x)\<rparr>) u" for u
    using that x assms(2) [of x] by (cases "u = t") (auto simp: is_online_def deref_eq_Inr)
  with assms(1) show "calm st0 (st\<lparr>trans := (trans st)(t \<mapsto> f x)\<rparr>)" by (simp add: calm_def)
qed

lemma calm_simps [simp]:
  "calm st0 (free_sock a st) = calm st0 st" "calm st0 (st\<lparr>dlinks := d\<rparr>) = calm st0 st"
  "calm st0 (usb_disconnected st) = calm st0 st" "calm st0 (st\<lparr>framework_fd := fd\<rparr>) = calm st0 st"
  "calm st0 (st\<lparr>needs_retry := b\<rparr>) = calm st0 st" "calm st0 (st\<lparr>updates := n\<rparr>) = calm st0 st"
  "calm st0 (st\<lparr>usb_transport := t, usb_disconnect_on := t'\<rparr>) = calm st0 st"
  "calm st0 (st\<lparr>to_framework := m\<rparr>) = calm st0 st" "calm st0 (st\<lparr>alloc := as\<rparr>) = calm st0 st"
  by (simp_all add: calm_def is_online_def free_sock_def usb_disconnected_def)

lemma quiet_auth_request: "calm st0 st \<Longrightarrow> quiet st0 (send_auth_request env t st)"
  unfolding send_auth_request_def
  by (auto split: option.split intro!: quiet_rules quiet_bind [OF quiet_upd_trans] quiet_ops)

lemma quiet_disconnect: "calm st0 st \<Longrightarrow> quiet st0 (remote_socket_disconnect a st)"
  unfolding remote_socket_disconnect_def
  by (rule quiet_read, rule quiet_bind, rule quiet_rules, rule quiet_bind)
     (auto intro!: quiet_ops quiet_read quiet_rules)

lemma quiet_listener: "calm st0 st \<Longrightarrow> quiet st0 (listener_disconnect l st)"
proof -
  assume c: "calm st0 st"
  have "quiet st0 (fdevent_remove l (if b then st\<lparr>llinks := k\<rparr> else st))" for b k
    by (rule quiet_ops(5)) (use c in \<open>simp add: calm_def is_online_def\<close>)
  then show ?thesis
    unfolding listener_disconnect_def free_listener_def Let_def
    by (intro quiet_read quiet_bind quiet_rules) (simp_all add: calm_def is_online_def)
qed

abbreviation run_callback :: "addr \<Rightarrow> 'z adbst_scheme \<Rightarrow> 'z adbst_scheme outcome" where
  "run_callback dis st \<equiv> (if socks st dis \<noteq> None then remote_socket_disconnect dis st else listener_disconnect dis st)"

lemma quiet_run_disconnects: "run_disconnects_from t dis st = Some r \<Longrightarrow> calm st0 st \<Longrightarrow> quiet st0 r"
proof (induction rule: run_disconnects_from.raw_induct [rotated, consumes 1])
  case (1 f t dis st r)
  show ?case
  proof (cases "dis = t \<or> socks st dis = None \<and> listeners st dis = None \<or> (\<exists>e. run_callback dis st = Inl e)")
    case True
    then show ?thesis using 1(2,3) by (auto simp: Let_def intro!: quiet_rules split: if_splits)
  next
    case False
    then obtain st1 where st1: "run_callback dis st = Inr st1" by (cases "run_callback dis st") auto
    have "calm st0 st1" using quiet_disconnect [OF 1(3), of dis] quiet_listener [OF 1(3), of dis] st1
      by (auto simp: quiet_def calm_def split: if_splits)
    with False st1 1(1) [of t "nxt (dlinks st) dis" st1 r] 1(2) show ?thesis by (auto simp: Let_def)
  qed
qed

lemma quiet_offline:
  assumes "handle_offline t st = Some r" "calm st0 st"
  shows "quiet st0 r"
proof (cases "upd_trans t (\<lambda>x. x\<lparr>online := False\<rparr>) st")
  case (Inl e)
  then have "r = Inl e" using assms(1) unfolding handle_offline_def by simp
  then show ?thesis by (simp add: quiet_rules)
next
  case (Inr st1)
  with quiet_upd_trans [OF assms(2), of "\<lambda>x. x\<lparr>online := False\<rparr>" t] have "calm st0 st1" by (simp add: quiet_def calm_def)
  then show ?thesis
    using assms(1) quiet_run_disconnects by (fastforce simp: handle_offline_def Inr run_transport_disconnects_def Let_def)
qed

lemma quiet_banner: "calm st0 st \<Longrightarrow> quiet st0 (parse_banner data t st)"
proof -
  have "online (fold banner_prop ks x) = online x" for ks x
    by (induction ks arbitrary: x) (simp_all add: banner_prop_def split: option.split)
  then have "online (banner_fields b x) = online x" for b x
    by (simp add: banner_fields_def split: option.split prod.split)
  then show "calm st0 st \<Longrightarrow> quiet st0 (parse_banner data t st)"
    unfolding parse_banner_def
    by (intro quiet_rules quiet_bind quiet_upd_trans quiet_read) simp_all
qed

lemma quiet_confirm: "calm st0 st \<Longrightarrow> quiet st0 (adb_auth_confirm_key env b key n ok t st)"
  unfolding adb_auth_confirm_key_def Let_def
  by (intro quiet_rules quiet_read quiet_bind [OF quiet_ops(7)] quiet_ops(6)) simp_all

lemma quiet_next_addr: "calm st0 st \<Longrightarrow> calm st0 (snd (next_addr st))"
  by (simp add: next_addr_def split: list.split)

lemma next_addr_more: "adbst.more (snd (next_addr st)) = adbst.more st" "trans (snd (next_addr st)) = trans st"
  by (simp_all add: next_addr_def split: list.split)

text \<open>The same for operations that return a socket as well.\<close>

definition quiet_pair_of :: "'z adbst_scheme \<Rightarrow> ('a \<times> 'z adbst_scheme) outcome \<Rightarrow> bool" where
  "quiet_pair_of st0 r \<longleftrightarrow> (\<forall>x st. r = Inr (x, st) \<longrightarrow> calm st0 st)"

lemma quiet_pair_rules:
  "quiet_pair_of st0 (Inl e)"
  "calm st0 st \<Longrightarrow> quiet_pair_of st0 (Inr (a, st))"
  "(b \<Longrightarrow> quiet_pair_of st0 r) \<Longrightarrow> (\<not> b \<Longrightarrow> quiet_pair_of st0 r') \<Longrightarrow> quiet_pair_of st0 (if b then r else r')"
  by (simp_all add: quiet_pair_of_def)

lemma quiet_pairD: "r = Inr (a, st) \<Longrightarrow> quiet_pair_of st0 r \<Longrightarrow> calm st0 st"
  by (simp add: quiet_pair_of_def)

lemma quiet_to_pair: "quiet st0 r \<Longrightarrow> (\<And>st. calm st0 st \<Longrightarrow> quiet_pair_of st0 (f st)) \<Longrightarrow> quiet_pair_of st0 (bindE r f)"
  unfolding quiet_def quiet_pair_of_def calm_def bindE_eq_Inr by blast

lemma quiet_pair_pair:
  "quiet_pair_of st0 r \<Longrightarrow> (\<And>x st. calm st0 st \<Longrightarrow> quiet_pair_of st0 (f (x, st))) \<Longrightarrow> quiet_pair_of st0 (bindE r f)"
  unfolding quiet_pair_of_def bindE_eq_Inr by (metis surj_pair)

lemma quiet_from_pair:
  "quiet_pair_of st0 r \<Longrightarrow> (\<And>x st. calm st0 st \<Longrightarrow> quiet st0 (f (x, st))) \<Longrightarrow> quiet st0 (bindE r f)"
  unfolding quiet_pair_of_def quiet_def bindE_eq_Inr by (metis surj_pair)

lemma quiet_read_pair: "(\<And>x. quiet_pair_of st0 (f x)) \<Longrightarrow> quiet_pair_of st0 (bindE (r :: 'a outcome) f)"
  unfolding quiet_pair_of_def bindE_eq_Inr by blast

lemma quiet_of_keeps_pair: "keeps_pair st r \<Longrightarrow> calm st0 st \<Longrightarrow> quiet_pair_of st0 r"
  unfolding quiet_pair_of_def keeps_pair_def using calm_fields more_trans by blast

lemmas quiet_pair_ops = quiet_of_keeps_pair [OF keeps_create_local [OF refl]] quiet_of_keeps_pair [OF keeps_create_remote [OF refl]]
  quiet_of_keeps_pair [OF keeps_local_enqueue [OF refl]] quiet_of_keeps_pair [OF keeps_remote_enqueue [OF refl]]

lemma quiet_service:
  "calm st0 st \<Longrightarrow> (\<And>b st. calm st0 st \<Longrightarrow> quiet_pair_of st0 (jdwp b st)) \<Longrightarrow>
   quiet_pair_of st0 (create_local_service_socket env jdwp name st)"
  unfolding create_local_service_socket_def Let_def split_beta
  by (intro quiet_pair_rules quiet_pair_pair quiet_pair_ops quiet_next_addr; (assumption)?; simp only: fst_conv snd_conv)
     (intro quiet_pair_rules quiet_to_pair quiet_ops(4); assumption)+

lemma quiet_bind_remote: "calm st0 st \<Longrightarrow> quiet_pair_of st0 (bind_remote a rid t st)"
  unfolding bind_remote_def Let_def split_beta
  by (intro quiet_pair_rules quiet_pair_pair quiet_pair_ops quiet_next_addr; (assumption)?; simp only: fst_conv snd_conv)
     (intro quiet_pair_rules quiet_to_pair quiet_ops(4); assumption)+

lemma quiet_send: "calm st0 st \<Longrightarrow> quiet st0 (send_ready l r t st)" "calm st0 st \<Longrightarrow> quiet st0 (send_close l r t st)"
  "calm st0 st \<Longrightarrow> quiet st0 (send_connect env t st)"
  by (simp_all add: send_ready_def send_close_def send_connect_def Let_def quiet_ops(1))

lemma quiet_open:
  "calm st0 st \<Longrightarrow> (\<And>b st. calm st0 st \<Longrightarrow> quiet_pair_of st0 (jdwp b st)) \<Longrightarrow> quiet st0 (handle_open env jdwp p t st)"
  unfolding handle_open_def Let_def
  apply (intro quiet_read quiet_rules quiet_from_pair quiet_service; (assumption)?; simp only: split_conv)
  by (intro quiet_rules quiet_send quiet_from_pair quiet_bind_remote; (assumption)?; simp only: split_conv)
     (intro quiet_read quiet_bind quiet_send quiet_ops(3); assumption)

lemma quiet_enqueue:
  assumes "calm st0 st" "\<And>a p st x. calm st0 st \<Longrightarrow> quiet_pair_of st0 (smart a p st)"
  shows "quiet_pair_of st0 (socket_enqueue smart a p st)"
  unfolding socket_enqueue_def by (rule quiet_read_pair) (auto split: enqueue_fn.split intro!: quiet_pair_ops quiet_pair_rules assms)

lemma quiet_okay: "handle_okay p t st = Some r \<Longrightarrow> calm st0 st \<Longrightarrow> quiet st0 r"
proof -
  assume h: "handle_okay p t st = Some r" and c: "calm st0 st"
  note b = quiet_pairD [OF _ quiet_bind_remote [OF c]]
  show ?thesis using h c
    by (auto simp: handle_okay_def intro!: quiet_rules quiet_read quiet_ops(3) intro: b split: sum.splits if_splits option.splits)
qed

lemma quiet_clse: "handle_clse p t st = Some r \<Longrightarrow> calm st0 st \<Longrightarrow> quiet st0 r"
  by (auto simp: handle_clse_def intro!: quiet_rules quiet_read quiet_ops(2) split: sum.splits if_splits option.splits)

lemma quiet_wrte:
  assumes "handle_wrte smart p t st = Some r" "calm st0 st" "\<And>a p st. calm st0 st \<Longrightarrow> quiet_pair_of st0 (smart a p st)"
  shows "quiet st0 r"
  using assms(1,2)
  by (auto simp: handle_wrte_def intro!: quiet_rules quiet_read quiet_send intro: quiet_pairD [OF _ quiet_enqueue] assms split: sum.splits if_splits option.splits)

lemma drain_packet_more: "drain_packet fd p st = (r, p', st') \<Longrightarrow> sockst.more st' = sockst.more st"
proof (induction fd p st arbitrary: r p' st' rule: drain_packet.induct)
  case (1 fd p st)
  obtain k e st1 where w: "adb_write fd (pbytes p) st = (k, e, st1)" by (metis prod_cases3)
  show ?case
    using "1.prems" "1.IH" [OF _ w [symmetric] refl] adb_write_more [OF w]
    by (subst (asm) drain_packet.simps) (auto simp: w split: if_splits)
qed

lemma drain_queue_more: "drain_queue fd ps st = (r, ps', st') \<Longrightarrow> sockst.more st' = sockst.more st"
proof (induction fd ps st arbitrary: r ps' st' rule: drain_queue.induct)
  case (2 fd p ps st)
  obtain k p1 st1 where w: "drain_packet fd p st = (k, p1, st1)" by (metis prod_cases3)
  show ?case using "2.prems" "2.IH" [OF w [symmetric] refl] drain_packet_more [OF w] by (auto simp: w split: if_splits)
qed simp

lemma read_avail_more: "sockst.more (snd (snd (snd (read_avail fd n acc r0 st)))) = sockst.more st"
proof (induction fd n acc r0 st rule: read_avail.induct)
  case (1 fd n acc r0 st)
  obtain r e bs st1 where w: "adb_read fd n st = (r, e, bs, st1)" by (metis prod_cases4)
  have m: "sockst.more st1 = sockst.more st" using w by (auto simp: adb_read_def split: list.splits rd_ev.splits)
  show ?case
    using "1.IH" [OF _ w [symmetric] refl refl] m by (subst read_avail.simps) (auto simp: w)
qed

lemma calm_more: "sockst.more st = sockst.more st1 \<Longrightarrow> calm st0 st1 \<Longrightarrow> calm st0 st"
  using calm_fields more_trans by blast

lemma quietD: "r = Inr st \<Longrightarrow> quiet st0 r \<Longrightarrow> calm st0 st"
  by (simp add: quiet_def calm_def)

lemma quiet_fd_del: "calm st0 st \<Longrightarrow> quiet st0 (fdevent_del a ev st)"
  by (rule quiet_keeps [OF keeps_fd(3) [OF refl]])

lemma quiet_writable: "calm st0 st \<Longrightarrow> quiet_pair_of st0 (socket_writable a fd st)"
  unfolding socket_writable_def
  apply (rule quiet_read_pair, simp only: split_beta, rule quiet_to_pair, rule quiet_ops(4))
   apply (metis calm_more drain_queue_more prod.collapse)
  by (auto split: drained.split simp: quiet_pair_of_def bindE_eq_Inr intro: quietD [OF _ quiet_ops(2)]
      quietD [OF _ quiet_ops(3)] quietD [OF _ quiet_fd_del])

lemma quiet_readable:
  fixes st0 :: "'z adbst_scheme"
  assumes "calm st0 st" "\<And>a p st. calm st0 st \<Longrightarrow> quiet_pair_of st0 (smart a p st)"
  shows "quiet st0 (socket_readable smart a fd st)"
proof -
  obtain bs r eof st1 where st1: "read_avail fd MAX_PAYLOAD [] 0 st = (bs, r, eof, st1)" by (metis prod_cases4)
  have c: "calm st0 st1" using calm_more [OF read_avail_more assms(1), of fd MAX_PAYLOAD "[]" 0] by (simp add: st1)
  have e: "calm st0 st2" if "socket_enqueue smart b p st1 = Inr (k, st2)" for b p k st2
    by (rule quiet_pairD [OF that quiet_enqueue [OF c]]) (rule assms(2))
  have del: "calm st0 st3" if "bindE (fdevent_del a FDE_READ st2) (\<lambda>st. Inr (k, False, st)) = Inr (k', b, st3)" "calm st0 st2"
    for k st2 k' b st3
    using that quietD [OF _ quiet_fd_del [OF that(2)]] by (auto simp: bindE_eq_Inr)
  have fin: "quiet st0 (bindE (fde_at st2 a) (\<lambda>f. if B f then sclose a st2 else Inr st2))" if "calm st0 st2" for st2 B
    using that by (intro quiet_read quiet_rules quiet_ops(2))
  have tri: "quiet st0 (bindE r f)"
    if "\<And>k b st2. r = Inr (k, b, st2) \<Longrightarrow> calm st0 st2" "\<And>k b st2. calm st0 st2 \<Longrightarrow> quiet st0 (f (k, b, st2))"
    for r and f :: "int \<times> bool \<times> 'z adbst_scheme \<Rightarrow> 'z adbst_scheme outcome"
    unfolding quiet_def bindE_eq_Inr using that by (metis quiet_def prod_cases3)
  show ?thesis
    unfolding socket_readable_def st1 split_conv Let_def
  proof (rule quiet_read, rule tri)
    fix s k b st2
    assume "(if bs = [] \<or> s_peer s = NULL then Inr (r, False, st1)
        else bindE (socket_enqueue smart (s_peer s) (get_apacket (fresh_payload st1)\<lparr>pdata := bs @ drop (length bs)
              (pdata (get_apacket (fresh_payload st1))), plen := word_of_nat (length bs)\<rparr>) st1)
          (\<lambda>(r, st). if r < 0 then Inr (r, True, st)
            else if 0 < r then bindE (fdevent_del a FDE_READ st) (\<lambda>st. Inr (r, False, st)) else Inr (r, False, st))) = Inr (k, b, st2)"
    with c show "calm st0 st2" by (auto simp: bindE_eq_Inr [where m = "socket_enqueue _ _ _ _"] dest: e del [OF _ e] split: if_splits)
  qed (simp add: fin quiet_rules)
qed

section \<open>Steps of a device\<close>

text \<open>
  What happens to a device: a packet arrives, the framework answers (or its socket breaks), the framework connects,
  a local socket has an event. \<open>smart\<close> is the function of the smart sockets.
\<close>

datatype dev_event =
    Got_packet apacket addr bool
  | Framework_reply "byte list option" u16
  | Framework_connects int
  | Socket_event int u16 addr

inductive dev_step ::
  "adbenv \<Rightarrow> (bool \<Rightarrow> 'z adbst_scheme \<Rightarrow> (addr \<times> 'z adbst_scheme) outcome)
     \<Rightarrow> (addr \<Rightarrow> apacket \<Rightarrow> 'z adbst_scheme \<Rightarrow> (int \<times> 'z adbst_scheme) outcome) \<Rightarrow> 'z adbst_scheme \<Rightarrow> dev_event
     \<Rightarrow> 'z adbst_scheme \<Rightarrow> bool" for env jdwp smart where
  packet: "handle_packet env jdwp smart sent_ok p t st = Some (Inr st') \<Longrightarrow> dev_step env jdwp smart st (Got_packet p t sent_ok) st'"
| reply: "adb_auth_event env rep ev st = Inr st' \<Longrightarrow> dev_step env jdwp smart st (Framework_reply rep ev) st'"
| connects: "adb_auth_listener env s st = Inr st' \<Longrightarrow> dev_step env jdwp smart st (Framework_connects s) st'"
| event: "local_socket_event_func smart fd ev a st = Inr st' \<Longrightarrow> dev_step env jdwp smart st (Socket_event fd ev a) st'"

text \<open>A run, with the state before each event.\<close>

inductive dev_run ::
  "adbenv \<Rightarrow> (bool \<Rightarrow> 'z adbst_scheme \<Rightarrow> (addr \<times> 'z adbst_scheme) outcome)
     \<Rightarrow> (addr \<Rightarrow> apacket \<Rightarrow> 'z adbst_scheme \<Rightarrow> (int \<times> 'z adbst_scheme) outcome) \<Rightarrow> 'z adbst_scheme
     \<Rightarrow> ('z adbst_scheme \<times> dev_event) list \<Rightarrow> 'z adbst_scheme \<Rightarrow> bool" for env jdwp smart where
  start: "dev_run env jdwp smart st [] st"
| more: "dev_run env jdwp smart st tr st' \<Longrightarrow> dev_step env jdwp smart st' ev st'' \<Longrightarrow> dev_run env jdwp smart st (tr @ [(st', ev)]) st''"

text \<open>The events that let transport \<open>u\<close> in: its signature of the token is verified, or the user's consent.\<close>

fun authorises :: "adbenv \<Rightarrow> addr \<Rightarrow> 'z adbst_scheme \<times> dev_event \<Rightarrow> bool" where
  "authorises env u (st, Got_packet p t sent_ok) \<longleftrightarrow>
     t = u \<and> command (pmsg p) = A_AUTH \<and> arg0 (pmsg p) = ADB_AUTH_SIGNATURE \<and>
     (\<exists>x. trans st u = Some x \<and>
        (let sig = take (unat (data_length (pmsg p))) (pdata p)
         in length sig = RSANUMBYTES \<and> (\<exists>key\<in>set (load_keys env). RSA_verify env key sig (token x))))"
| "authorises env u (st, Framework_reply rep ev) \<longleftrightarrow> rep = Some ''OK'' \<and> has ev FDE_READ \<and> u \<noteq> NULL \<and> usb_transport st = u"
| "authorises env u (st, _) \<longleftrightarrow> False"

lemma quiet_auth:
  assumes "calm st0 st" "\<not> (arg0 (pmsg p) = ADB_AUTH_SIGNATURE \<and>
      (\<exists>x. trans st t = Some x \<and> adb_auth_verify env (token x) (take (unat (data_length (pmsg p))) (pdata p))))"
  shows "quiet st0 (handle_auth env sent_ok p t st)"
proof -
  have r: "quiet st0 (send_auth_response env tok t st1)" "quiet st0 (send_auth_publickey env t st1)" if "calm st0 st1" for tok st1
    using that by (auto simp: send_auth_response_def send_auth_publickey_def Let_def intro!: quiet_read quiet_rules quiet_ops(1))
  show ?thesis unfolding handle_auth_def Let_def
    apply (rule quiet_rules)
     apply (rule quiet_bind [OF quiet_upd_trans [OF assms(1)]], simp, rule quiet_read, intro quiet_rules r; assumption)
    apply (rule quiet_rules, rule quiet_read)
     apply (use assms(2) in \<open>auto simp: deref_eq_Inr intro!: quiet_bind [OF quiet_upd_trans [OF assms(1)]] quiet_auth_request\<close>) []
    by (intro quiet_rules quiet_confirm assms(1))
qed

lemma adb_auth_verified_online:
  "adb_auth_verified env t st = Inr st' \<Longrightarrow> is_online st' u \<Longrightarrow> u = t \<or> is_online st u"
proof -
  assume h: "adb_auth_verified env t st = Inr st'" "is_online st' u"
  then obtain st1 where 1: "handle_online t st = Inr st1" "send_connect env t st1 = Inr st'"
    by (auto simp: adb_auth_verified_def bindE_eq_Inr)
  have "is_online st1 u" using quietD [OF 1(2) quiet_send(3) [OF calm_refl]] h(2) by (simp add: calm_def)
  then show ?thesis using 1(1) by (auto simp: handle_online_def upd_trans_def bindE_eq_Inr is_online_def split: if_splits)
qed

definition go_offline :: "addr \<Rightarrow> 'z adbst_scheme \<Rightarrow> 'z adbst_scheme outcome option" where
  "go_offline t st =
     (case upd_trans t (\<lambda>x. x\<lparr>connection_state := CS_OFFLINE\<rparr>) st of Inl e \<Rightarrow> Some (Inl e) | Inr st \<Rightarrow> handle_offline t st)"

lemma quiet_go_offline: "go_offline t st = Some r \<Longrightarrow> calm st0 st \<Longrightarrow> quiet st0 r"
proof -
  assume h: "go_offline t st = Some r" and c: "calm st0 st"
  have "quiet st0 (upd_trans t (\<lambda>x. x\<lparr>connection_state := CS_OFFLINE\<rparr>) st)" by (rule quiet_upd_trans [OF c]) simp
  with h show ?thesis
    by (auto simp: go_offline_def intro: quiet_rules quiet_offline dest: quietD [OF refl] split: sum.splits)
qed

lemma quiet_sync:
  assumes h: "handle_packet env jdwp smart sent_ok p t st = Some r" and c: "command (pmsg p) = A_SYNC"
  shows "quiet st r"
proof (cases "arg0 (pmsg p) = 0")
  case False
  with h c have "r = bindE (send_packet p t st) (\<lambda>st. if HOST env then send_connect env t st else Inr st)"
    by (simp add: handle_packet_def)
  then show ?thesis by (auto intro!: quiet_bind quiet_ops(1) quiet_rules quiet_send(3))
next
  case True
  then obtain r' where r: "go_offline t st = Some r'" "r = bindE r' (send_packet p t)"
    using h c by (cases "upd_trans t (\<lambda>x. x\<lparr>connection_state := CS_OFFLINE\<rparr>) st") (auto simp: handle_packet_def go_offline_def)
  show ?thesis unfolding r(2) by (rule quiet_bind [OF quiet_go_offline [OF r(1) calm_refl]]) (rule quiet_ops)
qed

lemma quiet_cnxn:
  assumes h: "handle_packet env jdwp smart sent_ok p t st = Some r" and c: "command (pmsg p) = A_CNXN"
    and "\<not> HOST env" "auth_enabled env"
  shows "quiet st r"
proof (cases "trans_at st t")
  case (Inl e)
  then have "r = Inl e" using h c by (simp add: handle_packet_def a_commands)
  then show ?thesis by (simp add: quiet_rules)
next
  case (Inr x)
  obtain r' where r: "quiet st r'" "r = bindE r' (\<lambda>st. bindE (parse_banner (pdata p) t st) (send_auth_request env t))"
  proof (cases "connection_state x = CS_OFFLINE")
    case True
    with h c Inr assms(3,4) have "r = bindE (Inr st) (\<lambda>st. bindE (parse_banner (pdata p) t st) (send_auth_request env t))"
      by (simp add: handle_packet_def a_commands)
    then show ?thesis using that quiet_rules(2) [OF calm_refl] by blast
  next
    case False
    with h c Inr assms(3,4) obtain r' where "go_offline t st = Some r'"
      "r = bindE r' (\<lambda>st. bindE (parse_banner (pdata p) t st) (send_auth_request env t))"
      by (auto simp: handle_packet_def a_commands go_offline_def)
    then show ?thesis using that quiet_go_offline [OF _ calm_refl] by blast
  qed
  show ?thesis unfolding r(2)
    by (rule quiet_bind [OF r(1)], rule quiet_bind, erule quiet_banner, erule quiet_auth_request)
qed

lemma packet_online:
  assumes "\<not> HOST env" "auth_enabled env" and smart: "\<forall>a p st. quiet_pair_of st (smart a p st)"
    and jdwp: "\<forall>b st. quiet_pair_of st (jdwp b st)"
    and h: "handle_packet env jdwp smart sent_ok p t st = Some (Inr st')" and on: "is_online st' u"
  shows "is_online st u \<or> authorises env u (st, Got_packet p t sent_ok)"
proof (cases "command (pmsg p) = A_AUTH")
  case True
  then have a: "handle_auth env sent_ok p t st = Inr st'" using h by (simp add: handle_packet_def a_commands)
  show ?thesis
  proof (cases "arg0 (pmsg p) = ADB_AUTH_SIGNATURE \<and>
      (\<exists>x. trans st t = Some x \<and> adb_auth_verify env (token x) (take (unat (data_length (pmsg p))) (pdata p)))")
    case False
    then show ?thesis using quietD [OF a quiet_auth [OF calm_refl]] on by (auto simp: calm_def)
  next
    case v: True
    then obtain x where x: "trans st t = Some x" "adb_auth_verify env (token x) (take (unat (data_length (pmsg p))) (pdata p))" by blast
    have "bindE (adb_auth_verified env t st) (upd_trans t (\<lambda>x. x\<lparr>failed_auth_attempts := 0\<rparr>)) = Inr st'"
      using a v x by (simp add: handle_auth_def ADB_AUTH_TOKEN_def ADB_AUTH_SIGNATURE_def)
    then obtain st1 where st1: "adb_auth_verified env t st = Inr st1"
      "upd_trans t (\<lambda>x. x\<lparr>failed_auth_attempts := 0\<rparr>) st1 = Inr st'" by (auto simp: bindE_eq_Inr)
    have "is_online st1 u"
      using quietD [OF st1(2) quiet_upd_trans [OF calm_refl]] on by (simp add: calm_def)
    moreover have "authorises env t (st, Got_packet p t sent_ok)"
      using True v x by (auto simp: adb_auth_verify_def list_ex_iff Let_def split: if_splits)
    ultimately show ?thesis using adb_auth_verified_online [OF st1(1)] by blast
  qed
next
  case False
  have s: "\<And>a p st1. calm st st1 \<Longrightarrow> quiet_pair_of st (smart a p st1)"
    using smart unfolding quiet_pair_of_def calm_def by blast
  have "quiet st (Inr st')"
  proof (cases "command (pmsg p) = A_SYNC \<or> command (pmsg p) = A_CNXN")
    case True
    then show ?thesis using quiet_sync [OF h] quiet_cnxn [OF h _ assms(1,2)] by blast
  next
    case other: False
    have j: "\<And>b st1. calm st st1 \<Longrightarrow> quiet_pair_of st (jdwp b st1)"
      using jdwp unfolding quiet_pair_of_def calm_def by blast
    have "quiet st (handle_open env jdwp p t st)" by (rule quiet_open [OF calm_refl]) (rule j)
    then have o: "handle_open env jdwp p t st = Inr st' \<Longrightarrow> quiet st (Inr st')" by simp
    show ?thesis
      using h other False by (auto simp: handle_packet_def intro: quiet_rules o
        quiet_okay [OF _ calm_refl] quiet_clse [OF _ calm_refl] quiet_wrte [OF _ calm_refl s] split: if_splits)
  qed
  then show ?thesis using on by (simp add: quiet_def)
qed

lemma step_online:
  assumes "\<not> HOST env" "auth_enabled env" and smart: "\<forall>a p st. quiet_pair_of st (smart a p st)"
    and jdwp: "\<forall>b st. quiet_pair_of st (jdwp b st)"
    and "dev_step env jdwp smart st ev st'" and on: "is_online st' u"
  shows "is_online st u \<or> authorises env u (st, ev)"
  using assms(5)
proof cases
  case (packet sent_ok p t)
  then show ?thesis using packet_online [OF assms(1,2) smart jdwp _ on] by blast
next
  case (reply rep evs)
  show ?thesis
  proof (cases "has evs FDE_READ \<and> rep = Some ''OK'' \<and> usb_transport st \<noteq> NULL")
    case True
    with reply have "adb_auth_verified env (usb_transport st) st = Inr st'" by (simp add: adb_auth_event_def)
    from adb_auth_verified_online [OF this on] True reply show ?thesis by auto
  next
    case False
    have "quiet st (adb_auth_event env rep evs st)"
      unfolding adb_auth_event_def using False
      by (auto intro!: quiet_rules quiet_bind [OF quiet_read] quiet_ops(5) split: option.split)
    from quietD [OF reply(2) this] on show ?thesis by (simp add: calm_def)
  qed
next
  case (connects s)
  have "quiet st (adb_auth_listener env s st)"
    unfolding adb_auth_listener_def Let_def by (intro quiet_rules quiet_auth_request) simp_all
  from quietD [OF connects(2) this] on show ?thesis by (simp add: calm_def)
next
  case (event fd evs a)
  have s: "\<And>a p st1. calm st st1 \<Longrightarrow> quiet_pair_of st (smart a p st1)"
    using smart unfolding quiet_pair_of_def calm_def by blast
  have "quiet st (local_socket_event_func smart fd evs a st)"
    unfolding local_socket_event_func_def
    by (rule quiet_from_pair) (auto intro!: quiet_pair_rules quiet_writable quiet_rules quiet_readable s)
  from quietD [OF event(2) this] on show ?thesis by (simp add: calm_def)
qed

text \<open>
  C1: On a device that requires authentication, however packets, answers of the framework and socket events follow one
  another: a transport that is on line was let in by an event of the run, either a signature of the token it was sent that
  one of the stored keys verifies, or the user's consent while it was the transport being asked about. (The
  functions of the smart sockets and of the JDWP services are parameters; they put no transport on line.)
\<close>

theorem online_was_authorised:
  assumes "\<not> HOST env" and "auth_enabled env"
    and "\<forall>a p st r st' u. smart a p st = Inr (r, st') \<and> is_online st' u \<longrightarrow> is_online st u"
    and "\<forall>b st a st' u. jdwp b st = Inr (a, st') \<and> is_online st' u \<longrightarrow> is_online st u"
    and "dev_run env jdwp smart st tr st'" and "\<not> is_online st u" and "is_online st' u"
  shows "\<exists>h\<in>set tr. authorises env u h"
proof -
  have smart: "\<forall>a p st. quiet_pair_of st (smart a p st)" using assms(3) unfolding quiet_pair_of_def calm_def by blast
  have jdwp: "\<forall>b st. quiet_pair_of st (jdwp b st)" using assms(4) unfolding quiet_pair_of_def calm_def by blast
  show ?thesis using assms(5-7)
  proof (induction rule: dev_run.induct)
    case (more st tr st' ev st'')
    then show ?case using step_online [OF assms(1,2) smart jdwp more(2)] by auto
  qed simp
qed

definition sample_transport :: atransport where
  "sample_transport = \<lparr>connection_state = CS_UNAUTHORIZED, online = False, t_key = 0, token = replicate 20 CHR ''t'',
     failed_auth_attempts = 0, product = None, model = None, device = None, auth_fde = 50\<rparr>"

definition device_sample :: adbst where
  "device_sample =
     lsnst.extend (sockst.extend pair_sample (lsnst.fields Map.empty (list_init listener_list \<lparr>nxt = (\<lambda>_. 0), prv = (\<lambda>_. 0)\<rparr>)))
       (adbst.fields [7 \<mapsto> sample_transport] (- 1) 0 0 False [] 0 [60, 61, 62])"

definition sample_key :: "byte list" where
  "sample_key = [CHR 0x40, CHR 0x00, CHR 0x00, CHR 0x00] @ replicate 520 CHR ''k''"

definition sample_env :: adbenv where
  "sample_env = \<lparr>HOST = False, auth_enabled = True, getuid = 0, device_banner = ''device'', property_get = (\<lambda>_. ''x''),
     urandom = Some (replicate 20 CHR ''r''), nextkey = (\<lambda>_. 0), sign = (\<lambda>_ _. []), userkey = [],
     key_file = (\<lambda>f. if f = ''/adb_keys'' then Some [''KEY user''] else None),
     b64_pton = (\<lambda>s. if s = ''KEY'' then Some sample_key else None),
     RSA_verify = (\<lambda>k sig tok. k = sample_key \<and> hd sig = CHR ''s'' \<and> hd tok = CHR ''t''),
     service_to_fd = (\<lambda>_. 9), cenv = \<lparr>sizeof_ptr = 8, realloc_ok = (\<lambda>_. True), junk = (\<lambda>_. 0)\<rparr>\<rparr>"

definition signed_packet :: apacket where
  "signed_packet = \<lparr>pmsg = \<lparr>command = A_AUTH, arg0 = ADB_AUTH_SIGNATURE, arg1 = 0, data_length = 256, data_check = 0, magic = 0\<rparr>,
     pdata = replicate 256 CHR ''s'', plen = 0, pptr = 0\<rparr>"

lemma sample_step:
  "\<exists>st'. handle_packet sample_env (\<lambda>b st. Inr (0, st)) (\<lambda>a p st. Inr (0, st)) True signed_packet 7 device_sample = Some (Inr st') \<and> is_online st' 7"
proof -
  let ?r = "handle_packet sample_env (\<lambda>b st. Inr (0, st)) (\<lambda>a p st. Inr (0, st)) True signed_packet 7 device_sample"
  have "(case ?r of Some (Inr st') \<Rightarrow> is_online st' 7 | _ \<Rightarrow> False)" by code_simp
  then show ?thesis by (auto split: option.splits sum.splits)
qed

theorem online_was_authorised_witness:
  "\<exists>tr st'. dev_run sample_env (\<lambda>b st. Inr (0, st)) (\<lambda>a p st. Inr (0, st)) device_sample tr st' \<and> is_online st' 7 \<and> (\<exists>h\<in>set tr. authorises sample_env 7 h)"
proof -
  obtain st' where h: "handle_packet sample_env (\<lambda>b st. Inr (0, st)) (\<lambda>a p st. Inr (0, st)) True signed_packet 7 device_sample = Some (Inr st')"
    "is_online st' 7" using sample_step by blast
  have run: "dev_run sample_env (\<lambda>b st. Inr (0, st)) (\<lambda>a p st. Inr (0, st)) device_sample ([] @ [(device_sample, Got_packet signed_packet 7 True)]) st'"
    by (rule dev_run.intros dev_step.intros h)+
  have "\<exists>h\<in>set ([] @ [(device_sample, Got_packet signed_packet 7 True)]). authorises sample_env 7 h"
    by (rule online_was_authorised [OF _ _ _ _ run _ h(2)])
      (simp_all add: sample_env_def is_online_def device_sample_def sockst.defs lsnst.defs adbst.defs sample_transport_def)
  with run h(2) show ?thesis by blast
qed

section \<open>Going off line\<close>

text \<open>Closing a local socket without a peer leaves the lists of the transports as they are.\<close>

definition dkeeps :: "links \<Rightarrow> 'z sockst_scheme outcome \<Rightarrow> bool" where
  "dkeeps d r \<longleftrightarrow> (\<forall>st. r = Inr st \<longrightarrow> dlinks st = d)"

lemma dkeeps_rules:
  "dlinks st = d \<Longrightarrow> dkeeps d (Inr st)" "dkeeps d (Inl e)"
  "dkeeps d x \<Longrightarrow> dkeeps d y \<Longrightarrow> dkeeps d (if b then x else y)"
  by (simp_all add: dkeeps_def)

lemma dkeeps_bind: "dkeeps d r \<Longrightarrow> (\<And>st. dlinks st = d \<Longrightarrow> dkeeps d (f st)) \<Longrightarrow> dkeeps d (bindE r f)"
  unfolding dkeeps_def bindE_eq_Inr by blast

lemma dkeeps_read: "(\<And>x. r = Inr x \<Longrightarrow> dkeeps d (f x)) \<Longrightarrow> dkeeps d (bindE (r :: 'a outcome) f)"
  unfolding dkeeps_def bindE_eq_Inr by blast

lemma dkeeps_ops:
  "dlinks st = d \<Longrightarrow> dkeeps d (fdevent_remove a st)" "dlinks st = d \<Longrightarrow> dkeeps d (fdevent_del a ev st)"
  "dlinks st = d \<Longrightarrow> dkeeps d (upd_sock a f st)" "dlinks st = d \<Longrightarrow> dkeeps d (remove_socket a st)"
  by (auto simp: dkeeps_def more_fields(3) [OF fdevent_more(1)] more_fields(3) [OF fdevent_more(4)]
      remove_socket_def upd_sock_def bindE_eq_Inr set_sock_def split: if_splits)

lemma dkeeps_destroy: "dlinks st = d \<Longrightarrow> dkeeps d (local_socket_destroy a st)"
  unfolding local_socket_destroy_def
  by (rule dkeeps_read, rule dkeeps_bind, erule dkeeps_ops, rule dkeeps_bind, erule dkeeps_ops)
     (auto simp: free_sock_def intro!: dkeeps_rules)

lemma dkeeps_local_locked:
  assumes "socks st a = Some s" "s_peer s = NULL" "dlinks st = d"
  shows "dkeeps d (local_socket_close_locked cl a st)"
  unfolding local_socket_close_locked_def using assms
  by (auto intro!: dkeeps_rules dkeeps_destroy dkeeps_bind dkeeps_ops)

lemma dkeeps_local:
  assumes "socks st a = Some s" "s_peer s = NULL" "s_close s \<in> {Local_socket_close, Local_socket_close_notify}"
  shows "dkeeps (dlinks st) (socket_close n a st)"
proof (cases n)
  case (Suc m)
  note n = this
  show ?thesis
  proof (cases "s_close s = Local_socket_close")
    case True
    then show ?thesis using n assms dkeeps_local_locked [OF assms(1,2) refl] by simp
  next
    case False
    let ?s = "s\<lparr>s_ready := Local_socket_ready, s_shutdown := No_shutdown, s_close := Local_socket_close\<rparr>"
    let ?st = "snd (sendfailmsg (s_fd s) ''closed'' (set_sock a ?s st))"
    have st: "socks ?st = (socks st)(a \<mapsto> ?s)" "dlinks ?st = dlinks st"
      by (simp_all add: sendfailmsg_def split_beta Let_def set_sock_def)
    have "dkeeps (dlinks st) (socket_close m a ?st)"
      using st dkeeps_local_locked [of ?st a ?s "dlinks st"] assms(2) by (cases m) (simp_all add: dkeeps_rules)
    with False n assms(1,3) show ?thesis
      by (simp add: local_socket_close_notify_def upd_sock_def set_sock_def del: socket_close.simps(2) add: socket_close.simps(2) [of m])
  qed
qed (simp add: dkeeps_rules)

lemma disconnect_is_close:
  assumes "peers_ok X (socks st)" "socks st a = Some s" "a \<notin> X"
  shows "remote_socket_disconnect a st = remote_socket_close sclose a st"
proof (cases "s_peer s = NULL")
  case False
  with assms obtain q where q: "s_peer s \<noteq> a" "socks st (s_peer s) = Some q" by (auto simp: peers_ok_def)
  then have "socks (set_sock (s_peer s) (q\<lparr>s_peer := NULL\<rparr>) st) a = Some s" using assms(2) by (simp add: set_sock_def)
  then show ?thesis using q assms(2) False
    by (simp add: remote_socket_disconnect_def remote_socket_close_def upd_sock_def del: socket_close.simps)
qed (use assms in \<open>simp add: remote_socket_disconnect_def remote_socket_close_def del: socket_close.simps\<close>)

definition remote_on :: "addr \<Rightarrow> 'z sockst_scheme \<Rightarrow> addr \<Rightarrow> asocket \<Rightarrow> bool" where
  "remote_on t st a s \<longleftrightarrow> socks st a = Some s \<and> is_remote s \<and> s_transport s = t"

definition plain_peers :: "addr \<Rightarrow> 'z sockst_scheme \<Rightarrow> bool" where
  "plain_peers t st \<longleftrightarrow> (\<forall>a s. remote_on t st a s \<longrightarrow>
     s_peer s = NULL \<or> (\<exists>q. socks st (s_peer s) = Some q \<and> is_local q \<and> \<not> s_exit_on_close q))"

lemma remote_close_dlinks:
  assumes "socks st a = Some s" "s_peer s = NULL \<or> (\<exists>q. socks st (s_peer s) = Some q \<and> sock_kind q \<and> is_local q \<and> s_peer s \<noteq> a)"
    "remote_socket_close (socket_close n) a st = Inr st'"
  shows "dlinks st' = remove_transport_disconnect a (dlinks st)"
proof (cases "s_peer s = NULL")
  case True
  then show ?thesis using assms(1,3) by (auto simp: remote_socket_close_def free_sock_def)
next
  case False
  then obtain q where q: "socks st (s_peer s) = Some q" "sock_kind q" "is_local q" "s_peer s \<noteq> a" using assms(2) by metis
  define st1 where "st1 = set_sock (s_peer s) (q\<lparr>s_peer := NULL\<rparr>) st"
  have "socks st1 a = Some s" "socks st1 (s_peer s) = Some (q\<lparr>s_peer := NULL\<rparr>)" "dlinks st1 = dlinks st"
    using q assms(1) by (simp_all add: st1_def set_sock_def)
  moreover have "s_close q \<in> {Local_socket_close, Local_socket_close_notify}" using q(2,3) by (simp add: sock_kind_def is_local_def)
  ultimately have "dkeeps (dlinks st) (socket_close n (s_peer s) st1)" "sock_at st1 a = Inr s"
    using dkeeps_local [of st1 "s_peer s" "q\<lparr>s_peer := NULL\<rparr>" n] by simp_all
  then show ?thesis using assms(1,3) False q(1)
    by (auto simp: remote_socket_close_def upd_sock_def bindE_eq_Inr dkeeps_def free_sock_def st1_def [symmetric])
qed

lemma disconnect_one:
  assumes inv: "sock_inv T {} st" and a: "remote_on t st a s" and pl: "plain_peers t st"
  shows "\<exists>st'. remote_socket_disconnect a st = Inr st' \<and> sock_inv T {} st' \<and> untouched {a, s_peer s} st st' \<and>
    dlinks st' = remove_transport_disconnect a (dlinks st) \<and> socks st' a = None \<and> sent st' = sent st \<and>
    (\<forall>q. socks st (s_peer s) = Some q \<longrightarrow> closed_sock (s_peer s) q st')"
proof -
  have p: "peers_ok {} (socks st)" using inv by (simp add: sock_inv_def)
  have h: "socks st a = Some s" "is_remote s" "\<not> is_local s" using a by (auto simp: remote_on_def is_remote_def is_local_def)
  have k: "sock_kind s" by (rule kind_of [OF inv h(1)])
  have null: "socks st NULL = None" using inv by (simp add: sock_inv_def heads_free_def)
  have eq: "remote_socket_disconnect a st = remote_socket_close sclose a st" using disconnect_is_close [OF p h(1)] by simp
  have d: "dlinks st' = remove_transport_disconnect a (dlinks st)" if "remote_socket_close sclose a st = Inr st'" for st'
  proof (rule remote_close_dlinks [OF h(1) _ that])
    show "s_peer s = NULL \<or> (\<exists>q. socks st (s_peer s) = Some q \<and> sock_kind q \<and> is_local q \<and> s_peer s \<noteq> a)"
      using pl a peers_okD [OF p h(1)] kind_of [OF inv] unfolding plain_peers_def by blast
  qed
  show ?thesis
  proof (cases "s_peer s = NULL")
    case True
    have run: "remote_socket_close sclose a st = Inr (free_sock a (st\<lparr>dlinks := remove_transport_disconnect a (dlinks st)\<rparr>))"
      using h(1) True by (simp add: remote_socket_close_def)
    define st' where "st' = free_sock a (st\<lparr>dlinks := remove_transport_disconnect a (dlinks st)\<rparr>)"
    have st': "sock_inv T {} st' \<and> untouched {a} st st' \<and> closed_sock a s st' \<and> sent st' = sent st"
      unfolding st'_def by (rule free_other_solo [OF inv h(1,3) True]) (simp add: h(2))
    moreover have "untouched {a, s_peer s} st st'" by (rule untouched_mono [of "{a}"]) (use st' in simp_all)
    moreover have "socks st' a = None" by (simp add: st'_def free_sock_def)
    ultimately show ?thesis using run [folded st'_def] eq d True null by (metis option.distinct(1))
  next
    case False
    then obtain q where q: "socks st (s_peer s) = Some q" "is_local q" "\<not> s_exit_on_close q" using pl a unfolding plain_peers_def by metis
    obtain st' where "remote_socket_close sclose a st = Inr st'" "sock_inv T {} st'" "untouched {a, s_peer s} st st'" "closed_sock a s st'"
      "closed_sock (s_peer s) q st'" "sent st' = sent st @ close_msgs s q (fresh_payload st)"
      using other_close_full [OF inv h(1) _ False h(3) q(1,3), of 2] h(2) by (auto simp: numeral_eq_Suc simp del: socket_close.simps)
    then show ?thesis using eq d h(3) q(1) by (auto simp: closed_sock_def close_msgs_def)
  qed
qed

lemma ring_mem_remote:
  assumes "sock_inv T X st" "t \<in> T" "ring (dlinks st) t xs"
  shows "a \<in> set xs \<longleftrightarrow> (\<exists>s. remote_on t st a s)"
proof -
  obtain D where "discs_ok T (socks st) (dlinks st) D" using assms(1) by (auto simp: sock_inv_def)
  then have "ring (dlinks st) t (D t)" "a \<in> set (D t) \<longleftrightarrow> (\<exists>s. remote_on t st a s)"
    using assms(2) by (auto simp: discs_ok_def remote_on_def)
  with ring_unique [OF assms(3)] show ?thesis by metis
qed

lemma ring_step: "ring h t (x # xs) \<Longrightarrow> nxt h x = (case xs of [] \<Rightarrow> t | y # _ \<Rightarrow> y)"
  by (cases xs) (simp_all add: ring_def)

lemma ring_start: "ring h t xs \<Longrightarrow> nxt h t = (case xs of [] \<Rightarrow> t | y # _ \<Rightarrow> y)"
  by (cases xs) (simp_all add: ring_def)

text \<open>What is left after the remote sockets of \<open>t\<close> have been closed.\<close>

definition all_closed :: "addr \<Rightarrow> 'z sockst_scheme \<Rightarrow> 'z sockst_scheme \<Rightarrow> bool" where
  "all_closed t st st' \<longleftrightarrow>
     (\<forall>a s. \<not> remote_on t st' a s) \<and> sent st' = sent st \<and> sockst.more st' = sockst.more st \<and>
     (\<forall>a s. remote_on t st a s \<longrightarrow> socks st' a = None) \<and>
     (\<forall>a s q. remote_on t st a s \<and> socks st (s_peer s) = Some q \<longrightarrow> closed_sock (s_peer s) q st') \<and>
     (\<forall>b. (\<forall>a s. remote_on t st a s \<longrightarrow> b \<noteq> a \<and> b \<noteq> s_peer s) \<longrightarrow> socks st' b = socks st b \<and> fdes st' b = fdes st b)"

lemma all_closed_step:
  assumes inv: "sock_inv T {} st" "sock_inv T {} st1" and a: "remote_on t st a s" and pl: "plain_peers t st"
    and u: "untouched {a, s_peer s} st st1" "socks st1 a = None" "sent st1 = sent st"
    and q: "\<forall>q. socks st (s_peer s) = Some q \<longrightarrow> closed_sock (s_peer s) q st1"
  shows "plain_peers t st1" and "all_closed t st1 st' \<Longrightarrow> all_closed t st st'"
proof -
  have null: "socks st NULL = None" "socks st1 NULL = None" using inv by (simp_all add: sock_inv_def heads_free_def)
  have frame: "socks st1 b = socks st b" "fdes st1 b = fdes st b" if "b \<noteq> a" "b \<noteq> s_peer s" for b
    using u(1) that by (simp_all add: untouched_def)
  have p: "peers_ok {} (socks st)" using inv by (simp add: sock_inv_def)
  have sa: "socks st a = Some s" using a by (simp add: remote_on_def)
  have loc: "socks st1 (s_peer s) = Some q' \<Longrightarrow> is_local q'" for q'
    using pl a q null(2) unfolding plain_peers_def closed_sock_def by (metis option.distinct(1) option.inject)
  have bk: "remote_on t st b s' \<and> b \<noteq> a \<and> b \<noteq> s_peer s" if "remote_on t st1 b s'" for b s'
    using that u(2) loc frame [of b] by (cases "b = s_peer s"; cases "b = a") (auto simp: remote_on_def is_remote_def is_local_def)
  have fwd: "remote_on t st1 b s'" if "remote_on t st b s'" "b \<noteq> a" for b s'
  proof -
    have "b \<noteq> s_peer s" using that(1) pl a null(1) unfolding plain_peers_def remote_on_def
      by (metis is_local_def is_remote_def enqueue_fn.distinct(1) option.distinct(1) option.inject)
    then show ?thesis using that frame [of b] by (simp add: remote_on_def)
  qed
  have apart: "s_peer s' \<noteq> a \<and> s_peer s' \<noteq> s_peer s" if r: "remote_on t st1 b s'" and n: "s_peer s' \<noteq> NULL" for b s'
  proof -
    from bk [OF r] have b: "socks st b = Some s'" "b \<noteq> a" "b \<noteq> s_peer s" by (simp_all add: remote_on_def)
    obtain q' where q': "socks st (s_peer s') = Some q'" "s_peer q' = b" using peers_okD [OF p b(1) _ n] by auto
    with sa b show ?thesis using peers_okD [OF p sa] n by (metis empty_iff option.inject)
  qed
  show "plain_peers t st1"
    using pl bk apart frame unfolding plain_peers_def by metis
  assume c: "all_closed t st1 st'"
  have keep: "socks st' (s_peer s) = socks st1 (s_peer s) \<and> fdes st' (s_peer s) = fdes st1 (s_peer s)" if "s_peer s \<noteq> NULL"
    using c bk apart that unfolding all_closed_def by metis
  have "closed_sock (s_peer s') q' st'" if r: "remote_on t st b s'" and q': "socks st (s_peer s') = Some q'" for b s' q'
  proof (cases "b = a")
    case True
    then have "s' = s" using r sa by (simp add: remote_on_def)
    then show ?thesis using keep q q' null(1) by (cases "s_peer s = NULL") (auto simp: closed_sock_def)
  next
    case False
    have "s_peer s' \<noteq> NULL" using q' null(1) by (cases "s_peer s' = NULL") auto
    with fwd [OF r False] c q' apart frame show ?thesis unfolding all_closed_def by metis
  qed
  moreover have "socks st' b = socks st b \<and> fdes st' b = fdes st b" if "\<forall>a s. remote_on t st a s \<longrightarrow> b \<noteq> a \<and> b \<noteq> s_peer s" for b
    using that a bk c frame [of b] unfolding all_closed_def by metis
  moreover have "socks st' b = None" if r: "remote_on t st b s'" for b s'
  proof (cases "b = a")
    case True
    have "a \<noteq> NULL" using sa null(1) by (cases "a = NULL") auto
    then show ?thesis using True u(2) c bk apart unfolding all_closed_def by metis
  next
    case False
    then show ?thesis using fwd [OF r] c unfolding all_closed_def by blast
  qed
  moreover have "sent st' = sent st \<and> sockst.more st' = sockst.more st \<and> (\<forall>a s. \<not> remote_on t st' a s)"
    using c u by (simp add: all_closed_def untouched_def)
  ultimately show "all_closed t st st'" unfolding all_closed_def by blast
qed

lemma run_disconnects_closes:
  assumes "sock_inv T {} st" "t \<in> T" "ring (dlinks st) t xs" "plain_peers t st"
  shows "\<exists>st'. run_disconnects_from t (nxt (dlinks st) t) st = Some (Inr st') \<and> sock_inv T {} st' \<and> all_closed t st st'"
  using assms
proof (induction xs arbitrary: st)
  case Nil
  then have "all_closed t st st" using ring_mem_remote [OF Nil(1-3)] by (auto simp: all_closed_def)
  then show ?case using Nil(1,3) by (simp add: ring_Nil run_disconnects_from.simps)
next
  case (Cons x xs)
  then obtain s where x: "remote_on t st x s" using ring_mem_remote [OF Cons.prems(1-3)] by auto
  obtain st1 where st1: "remote_socket_disconnect x st = Inr st1" "sock_inv T {} st1" "untouched {x, s_peer s} st st1"
    "dlinks st1 = remove_transport_disconnect x (dlinks st)" "socks st1 x = None" "sent st1 = sent st"
    "\<forall>q. socks st (s_peer s) = Some q \<longrightarrow> closed_sock (s_peer s) q st1"
    using disconnect_one [OF Cons.prems(1) x Cons.prems(4)] by blast
  note step = all_closed_step [OF Cons.prems(1) st1(2) x Cons.prems(4) st1(3,5,6,7)]
  have r: "ring (dlinks st1) t xs" using remove_disconnect_ring [OF Cons.prems(3), of x] by (simp add: st1(4))
  from Cons.IH [OF st1(2) Cons.prems(2) this step(1)] obtain st' where
    st': "run_disconnects_from t (nxt (dlinks st1) t) st1 = Some (Inr st')" "sock_inv T {} st'" "all_closed t st1 st'" by blast
  have "x \<noteq> t" using ring_distinct(2) [OF Cons.prems(3)] by auto
  moreover have "nxt (dlinks st) t = x" by (rule ring_first [OF Cons.prems(3)])
  moreover have "nxt (dlinks st) x = nxt (dlinks st1) t" using ring_step [OF Cons.prems(3)] ring_start [OF r] by simp
  moreover have "socks st x = Some s" using x by (simp add: remote_on_def)
  ultimately have "run_disconnects_from t (nxt (dlinks st) t) st = Some (Inr st')"
    using st1(1) st'(1) by (subst run_disconnects_from.simps) (simp add: Let_def)
  then show ?case using st'(2) step(2) [OF st'(3)] by blast
qed

lemma sock_inv_adb [simp]:
  "sock_inv T X (st\<lparr>trans := m\<rparr>) = sock_inv T X st" "sock_inv T X (usb_disconnected st) = sock_inv T X st"
  by (simp_all add: sock_inv_def fd_ok_def fd_inv_def usb_disconnected_def)

text \<open>The disconnect callbacks of the transport, run to the end.\<close>

lemma handle_offline_result:
  assumes "sock_inv T {} st" and "t \<in> T" and "trans st t = Some x" and "plain_peers t st"
  shows "\<exists>st'. handle_offline t st = Some (Inr st') \<and> sock_inv T {} st' \<and>
    trans st' = (trans st)(t \<mapsto> x\<lparr>online := False\<rparr>) \<and> sent st' = sent st \<and>
    (\<forall>a s. \<not> remote_on t st' a s) \<and> (\<forall>a s. remote_on t st a s \<longrightarrow> socks st' a = None) \<and>
    (\<forall>a s q. remote_on t st a s \<and> socks st (s_peer s) = Some q \<longrightarrow> closed_sock (s_peer s) q st') \<and>
    (\<forall>b. (\<forall>a s. remote_on t st a s \<longrightarrow> b \<noteq> a \<and> b \<noteq> s_peer s) \<longrightarrow> socks st' b = socks st b \<and> fdes st' b = fdes st b) \<and>
    sockst.more st' = sockst.more ((if usb_disconnect_on st = t then usb_disconnected st else st)\<lparr>trans := (trans st)(t \<mapsto> x\<lparr>online := False\<rparr>)\<rparr>)"
proof -
  define st1 where "st1 = st\<lparr>trans := (trans st)(t \<mapsto> x\<lparr>online := False\<rparr>)\<rparr>"
  define st2 where "st2 = (if usb_disconnect_on st1 = t then usb_disconnected st1 else st1)"
  have same: "sock_inv T {} st2" "socks st2 = socks st" "fdes st2 = fdes st" "sent st2 = sent st" "dlinks st2 = dlinks st"
    "trans st2 = (trans st)(t \<mapsto> x\<lparr>online := False\<rparr>)"
    using assms(1) by (simp_all add: st2_def st1_def) (simp_all add: usb_disconnected_def)
  have ro: "remote_on t st2 = remote_on t st" by (simp add: remote_on_def [abs_def] same)
  then have "plain_peers t st2" using assms(4) by (simp add: plain_peers_def same)
  moreover obtain xs where "ring (dlinks st2) t xs" using same(1) assms(2) by (auto simp: sock_inv_def discs_ok_def)
  ultimately obtain st' where st': "run_disconnects_from t (nxt (dlinks st2) t) st2 = Some (Inr st')" "sock_inv T {} st'"
    "all_closed t st2 st'" using run_disconnects_closes [OF same(1) assms(2)] by blast
  have "upd_trans t (\<lambda>x. x\<lparr>online := False\<rparr>) st = Inr st1" using assms(3) by (simp add: upd_trans_def st1_def)
  then have "handle_offline t st = Some (Inr st')"
    using st'(1) by (simp add: handle_offline_def run_transport_disconnects_def Let_def st2_def)
  moreover have "trans st' = trans st2" by (rule more_trans) (use st'(3) in \<open>simp add: all_closed_def\<close>)
  moreover have "sockst.more st' = sockst.more ((if usb_disconnect_on st = t then usb_disconnected st else st)\<lparr>trans := (trans st)(t \<mapsto> x\<lparr>online := False\<rparr>)\<rparr>)"
  proof -
    have "sockst.more st' = sockst.more st2" using st'(3) by (simp add: all_closed_def)
    then show ?thesis by (cases st) (simp add: st2_def st1_def usb_disconnected_def)
  qed
  ultimately show ?thesis using st'(2,3) unfolding all_closed_def ro same by blast
qed

text \<open>
  C32: Taking a transport off line ends; it closes every remote socket of the transport and the local socket connected to
  each (freed, or waiting for its queue to be written), without sending a packet, and leaves the sockets' invariant intact. Every other
  socket with its event, every other transport, every listener and what is left of the state of the authentication (but for the note which transport is being
  asked about) are as they were. This is for a transport that no forward uses, so that only its remote sockets are told, and whose
  remote sockets are connected to ordinary local sockets, not to one that ends the program when it closes.
\<close>

theorem handle_offline_closes:
  assumes "sock_inv T {} st" and "t \<in> T" and "trans st t = Some x" and "plain_peers t st"
  shows "\<exists>st'. handle_offline t st = Some (Inr st') \<and> sock_inv T {} st' \<and>
    trans st' = (trans st)(t \<mapsto> x\<lparr>online := False\<rparr>) \<and> sent st' = sent st \<and>
    (\<forall>a s. \<not> remote_on t st' a s) \<and> (\<forall>a s. remote_on t st a s \<longrightarrow> socks st' a = None) \<and>
    (\<forall>a s q. remote_on t st a s \<and> socks st (s_peer s) = Some q \<longrightarrow> closed_sock (s_peer s) q st') \<and>
    (\<forall>b. (\<forall>a s. remote_on t st a s \<longrightarrow> b \<noteq> a \<and> b \<noteq> s_peer s) \<longrightarrow> socks st' b = socks st b \<and> fdes st' b = fdes st b) \<and>
    sockst.more st' = sockst.more ((if usb_disconnect_on st = t then usb_disconnected st else st)\<lparr>trans := (trans st)(t \<mapsto> x\<lparr>online := False\<rparr>)\<rparr>)"
  by (rule handle_offline_result [OF assms])

text \<open>Socket 10 is connected to remote socket 20 of transport 7; socket 11 is alone.\<close>

definition sock_r :: asocket where
  "sock_r = blank_socket\<lparr>s_id := 5, s_peer := 10, s_enqueue := Remote_socket_enqueue, s_ready := Remote_socket_ready,
     s_shutdown := Remote_socket_shutdown, s_close := Remote_socket_close, s_transport := 7\<rparr>"

definition remote_sample :: adbst where
  "remote_sample = device_sample
     \<lparr>socks := [10 \<mapsto> sock_a\<lparr>s_peer := 20\<rparr>, 11 \<mapsto> sock_b\<lparr>s_peer := 0\<rparr>, 20 \<mapsto> sock_r],
      dlinks := list_add_tail 7 20 (list_init 7 \<lparr>nxt = (\<lambda>_. 0), prv = (\<lambda>_. 0)\<rparr>)\<rparr>"

lemma remote_fields [simp]:
  "socks remote_sample = [10 \<mapsto> sock_a\<lparr>s_peer := 20\<rparr>, 11 \<mapsto> sock_b\<lparr>s_peer := 0\<rparr>, 20 \<mapsto> sock_r]"
  "slinks remote_sample = slinks pair_sample" "fdes remote_sample = fdes pair_sample" "trans remote_sample 7 = Some sample_transport"
  "dlinks remote_sample = list_add_tail 7 20 (list_init 7 \<lparr>nxt = (\<lambda>_. 0), prv = (\<lambda>_. 0)\<rparr>)" "fd_ok remote_sample = fd_ok pair_sample"
  by (simp_all add: remote_sample_def device_sample_def sockst.defs lsnst.defs adbst.defs fd_ok_def fd_inv_def)

lemma remote_inv: "sock_inv {7} {} remote_sample"
proof -
  note fs = sock_a_def sock_b_def sock_r_def blank_socket_def is_local_def is_remote_def
  have l: "lists_ok (socks remote_sample) (slinks remote_sample) [10, 11] []"
    by (auto simp: lists_ok_def pair_sample_def ring_def list_add_tail_def list_init_def local_socket_list_def
        local_socket_closing_list_def fs)
  have "heads_free (socks remote_sample)"
    by (simp add: heads_free_def local_socket_list_def local_socket_closing_list_def)
  moreover have "kinds_ok (socks remote_sample) (fdes remote_sample)"
    by (auto simp: kinds_ok_def pair_sample_def sock_kind_def fs)
  moreover have "peers_ok {} (socks remote_sample)" by (auto simp: peers_ok_def fs)
  moreover have "discs_ok {7} (socks remote_sample) (dlinks remote_sample) (\<lambda>_. [20])"
    by (auto simp: discs_ok_def fs ring_def list_add_tail_def list_init_def split: if_splits)
  ultimately show ?thesis using l pair_fd_ok unfolding sock_inv_def remote_fields by blast
qed

lemma remote_on_sample: "remote_on 7 remote_sample a s \<longleftrightarrow> a = 20 \<and> s = sock_r"
  by (auto simp: remote_on_def sock_r_def sock_a_def sock_b_def is_remote_def blank_socket_def split: if_splits)

lemma sample_peer: "s_peer sock_r = 10" "s_pkts sock_a = []" "is_local sock_a" "\<not> s_exit_on_close sock_a"
  by (simp_all add: sock_r_def sock_a_def blank_socket_def is_local_def)

lemma remote_plain: "plain_peers 7 remote_sample"
  unfolding plain_peers_def remote_on_sample by (simp add: sample_peer is_local_def) (use sample_peer in \<open>simp add: is_local_def\<close>)

theorem handle_offline_closes_witness:
  "\<exists>st'. handle_offline 7 remote_sample = Some (Inr st') \<and> socks st' 10 = None \<and> socks st' 20 = None \<and>
     socks st' 11 = Some (sock_b\<lparr>s_peer := 0\<rparr>) \<and> sock_inv {7} {} st'"
proof -
  note r = remote_on_sample and p = sample_peer
  from handle_offline_closes [OF remote_inv _ _ remote_plain] obtain st' where
    st': "handle_offline 7 remote_sample = Some (Inr st')" "sock_inv {7} {} st'" "\<forall>a s. \<not> remote_on 7 st' a s"
    "closed_sock 10 (sock_a\<lparr>s_peer := 20\<rparr>) st'" "socks st' 11 = Some (sock_b\<lparr>s_peer := 0\<rparr>)" "socks st' 20 = None"
    unfolding r by (auto simp: p)
  then show ?thesis by (auto simp: closed_sock_def p)
qed

end
