(* ===== verification/Transports_Props.thy ===== *)
theory Transports_Props
  imports Transports Protocol_Props
begin

text \<open>
  What the registry of transports guarantees: names match as specified, a request gets the one transport it names as soon as there
  is one, the list fits its buffer, a registered transport reaches the list and leaves it when its threads end. And a
  device that is lost when another one is disconnected.
\<close>

section \<open>Names\<close>

lemma match_prefix_eq: "match_prefix p t = (if take (length p) t = p then Some (drop (length p) t) else None)"
  by (induction p t rule: match_prefix.induct) auto

lemma match_qual_eq: "match_qual b q t \<longleftrightarrow> t = map (sanitised b) q"
  by (induction b q t rule: match_qual.induct) auto

text \<open>
  \<open>qual_match\<close> decides whether the text is the prefix followed by the qualifier, every character of which that is not a letter
  or a digit counts as an underscore if it is to be sanitised; an empty text matches exactly an empty or missing
  qualifier.
\<close>

theorem qual_match_spec:
  "qual_match to_test prefix qual b \<longleftrightarrow>
     (case to_test of
        None \<Rightarrow> qual \<in> {None, Some []}
      | Some [] \<Rightarrow> qual \<in> {None, Some []}
      | Some t \<Rightarrow> \<exists>q. qual = Some q \<and>
          t = (case prefix of None \<Rightarrow> [] | Some p \<Rightarrow> p) @
              map (\<lambda>ch. if b \<and> (of_char ch :: nat) \<notin> {65..90} \<union> {97..122} \<union> {48..57} then CHR ''_'' else ch) q)"
proof -
  have s: "sanitised b = (\<lambda>ch. if b \<and> (of_char ch :: nat) \<notin> {65..90} \<union> {97..122} \<union> {48..57} then CHR ''_'' else ch)"
    by (auto simp: sanitised_def fun_eq_iff qual_char_is_invalid_def between_def)
  show ?thesis
    unfolding s [symmetric]
    by (auto simp: qual_match_def match_prefix_eq match_qual_eq append_eq_conv_conj split: option.splits list.splits)
       (metis append_take_drop_id)
qed

section \<open>Choosing a transport\<close>

text \<open>The list is a ring of allocated transports.\<close>

definition list_wf :: "'z tregst_scheme \<Rightarrow> addr list \<Rightarrow> bool" where
  "list_wf st ts \<longleftrightarrow> ring (tlinks st) transport_list ts \<and> NULL \<notin> set ts \<and> (\<forall>t\<in>set ts. trans st t \<noteq> None \<and> regs st t \<noteq> None)"

text \<open>
  What a request means, written down without the code: a name is the serial number, the path of the device, or one of its properties behind the name of the
  property, with every character of the model that is not a letter or a digit replaced by an underscore. The empty name is that of a device without the property.
  Without a name the type of the transport decides.
\<close>

definition plain_char :: "char \<Rightarrow> char" where
  "plain_char ch = (if (of_char ch :: nat) \<notin> {65..90} \<union> {97..122} \<union> {48..57} then CHR ''_'' else ch)"

definition property_name :: "string \<Rightarrow> (char \<Rightarrow> char) \<Rightarrow> string option \<Rightarrow> string \<Rightarrow> bool" where
  "property_name key f v s \<longleftrightarrow> (if s = [] then v = None \<or> v = Some [] else case v of None \<Rightarrow> False | Some v \<Rightarrow> s = key @ map f v)"

definition asked_for :: "transport_type \<Rightarrow> string option \<Rightarrow> atransport \<Rightarrow> treg \<Rightarrow> bool" where
  "asked_for ttype sn x r \<longleftrightarrow>
     (case sn of
        Some s \<Rightarrow> serial r = Some s \<or> devpath r = Some s \<or> property_name ''product:'' id (product x) s \<or>
          property_name ''model:'' plain_char (model x) s \<or> property_name ''device:'' id (device x) s
      | None \<Rightarrow> ttype = KTransportAny \<or> ttype \<in> {KTransportUsb, KTransportLocal} \<and> t_type r = ttype)"

lemma qual_match_names:
  "qual_match (Some s) (Some key) v False \<longleftrightarrow> property_name key id v s"
  "qual_match (Some s) (Some key) v True \<longleftrightarrow> property_name key plain_char v s"
  by (cases s; cases v; simp add: qual_match_spec property_name_def plain_char_def [abs_def])+

lemma candidate_iff: "candidate ttype sn x r \<noteq> None \<longleftrightarrow> asked_for ttype sn x r"
  by (cases sn) (auto simp: candidate_def asked_for_def qual_match_names)

text \<open>The transports a request means, and the one it gets.\<close>

definition meant :: "transport_type \<Rightarrow> string option \<Rightarrow> 'z tregst_scheme \<Rightarrow> addr \<Rightarrow> bool" where
  "meant ttype sn st t \<longleftrightarrow>
     (case (trans st t, regs st t) of
        (Some x, Some r) \<Rightarrow> connection_state x \<noteq> CS_NOPERM \<and> asked_for ttype sn x r
      | _ \<Rightarrow> False)"

definition usable :: "int \<Rightarrow> atransport \<Rightarrow> bool" where
  "usable state x \<longleftrightarrow> connection_state x \<notin> {CS_UNAUTHORIZED, CS_OFFLINE} \<and> (state = CS_ANY \<or> connection_state x = state)"

definition chosen :: "int \<Rightarrow> transport_type \<Rightarrow> string option \<Rightarrow> 'z tregst_scheme \<Rightarrow> addr list \<Rightarrow> addr" where
  "chosen state ttype sn st ts =
     (case filter (meant ttype sn st) ts of
        [t] \<Rightarrow> (case trans st t of None \<Rightarrow> NULL | Some x \<Rightarrow> if usable state x then t else NULL)
      | _ \<Rightarrow> NULL)"

lemma refused_iff: "refused state x = None \<longleftrightarrow> usable state x"
  by (simp add: refused_def usable_def)

lemma acquire_loop_spec:
  assumes "\<forall>t\<in>set ts. t \<noteq> NULL \<and> trans st t \<noteq> None \<and> regs st t \<noteq> None"
  shows "\<exists>err'. acquire_loop ttype sn st ts result err =
    Inr (case (if result = NULL then [] else [result]) @ filter (meant ttype sn st) ts of
           [] \<Rightarrow> (NULL, False, err') | [t] \<Rightarrow> (t, False, err') | _ \<Rightarrow> (NULL, True, err'))"
  using assms
proof (induction ts arbitrary: result err)
  case (Cons t ts)
  then obtain x r where h: "trans st t = Some x" "regs st t = Some r" "t \<noteq> NULL" by auto
  have IH: "\<exists>err'. acquire_loop ttype sn st ts result err =
      Inr (case (if result = NULL then [] else [result]) @ filter (meant ttype sn st) ts of
             [] \<Rightarrow> (NULL, False, err') | [t] \<Rightarrow> (t, False, err') | _ \<Rightarrow> (NULL, True, err'))" for result err
    by (rule Cons.IH) (use Cons.prems in simp)
  show ?case
  proof (cases "connection_state x = CS_NOPERM")
    case True
    then have "\<not> meant ttype sn st t" using h by (simp add: meant_def)
    with True show ?thesis using h IH [of result] by simp
  next
    case np: False
    show ?thesis
    proof (cases "candidate ttype sn x r")
      case None
      then have "\<not> meant ttype sn st t" using h candidate_iff [of ttype sn x r] by (simp add: meant_def)
      with None show ?thesis using np h IH [of result err] by simp
    next
      case (Some msg)
      then have m: "meant ttype sn st t" using np h candidate_iff [of ttype sn x r] by (simp add: meant_def)
      show ?thesis
      proof (cases "result = NULL")
        case True
        then show ?thesis using np h Some m IH [of t] by simp
      next
        case False
        then show ?thesis using np h Some m by simp
      qed
    qed
  qed
qed (cases "result = 0"; simp)

lemma acquire_pass_spec:
  assumes "list_wf st ts"
  shows "\<exists>err. acquire_pass state ttype sn st =
    Some (Inr (chosen state ttype sn st ts, length (filter (meant ttype sn st) ts) > 1, err))"
proof -
  have wf: "\<forall>t\<in>set ts. t \<noteq> NULL \<and> trans st t \<noteq> None \<and> regs st t \<noteq> None" "ring_nodes (tlinks st) transport_list = Some ts"
    using assms by (auto simp: list_wf_def ring_nodes intro!: gr0I)
  obtain err where l: "acquire_loop ttype sn st ts NULL ''device not found'' =
      Inr (case filter (meant ttype sn st) ts of
             [] \<Rightarrow> (NULL, False, err) | [t] \<Rightarrow> (t, False, err) | _ \<Rightarrow> (NULL, True, err))"
    using acquire_loop_spec [OF wf(1), of ttype sn NULL "''device not found''"] by auto
  show ?thesis
  proof (cases "filter (meant ttype sn st) ts" rule: remdups_adj.cases)
    case (2 t)
    then have "t \<in> set ts" by (metis filter_is_subset list.set_intros(1) subset_code(1))
    then obtain x where "trans st t = Some x" "t \<noteq> NULL" using wf(1) by auto
    then show ?thesis using l 2 by (auto simp: acquire_pass_def wf(2) chosen_def refused_iff [symmetric] split: option.splits)
  qed (use l in \<open>auto simp: acquire_pass_def wf(2) chosen_def\<close>)
qed

text \<open>
  C33: \<open>acquire_one_transport\<close> for a named device (or while no two devices are meant) waits, attempt after attempt, until there is
  exactly one transport that the request means, with permission to use it, and this transport is neither unauthorised nor off line and is in the state asked for; it
  returns this transport at the first such attempt. When any state will do it never waits. What a request means (\<open>asked_for\<close>: the serial number,
  the path, or a property of the device; else the type) and which states will do (\<open>usable\<close>) are written down independently of the code.
\<close>

theorem acquire_one_transport_waits:
  assumes "\<forall>i. list_wf (world i) (ts i)"
  shows "(state = CS_ANY \<longrightarrow>
            (\<exists>err. acquire_one_transport state ttype sn world = Some (Inr (0, chosen state ttype sn (world 0) (ts 0), err)))) \<and>
         (state \<noteq> CS_ANY \<and> (\<forall>i<k. chosen state ttype sn (world i) (ts i) = NULL) \<and> chosen state ttype sn (world k) (ts k) \<noteq> NULL \<and>
          (sn \<noteq> None \<or> (\<forall>i<k. length (filter (meant ttype sn (world i)) (ts i)) \<le> 1)) \<longrightarrow>
            acquire_one_transport state ttype sn world = Some (Inr (k, chosen state ttype sn (world k) (ts k), None)))"
proof (intro conjI impI)
  note pass = acquire_pass_spec [OF assms [rule_format], of state ttype sn]
  assume "state = CS_ANY"
  then show "\<exists>err. acquire_one_transport state ttype sn world = Some (Inr (0, chosen state ttype sn (world 0) (ts 0), err))"
    using pass [of 0] by (auto simp: acquire_one_transport_def acquire_from.simps [of _ _ _ _ 0])
next
  note pass = acquire_pass_spec [OF assms [rule_format], of state ttype sn]
  assume h: "state \<noteq> CS_ANY \<and> (\<forall>i<k. chosen state ttype sn (world i) (ts i) = NULL) \<and> chosen state ttype sn (world k) (ts k) \<noteq> NULL \<and>
    (sn \<noteq> None \<or> (\<forall>i<k. length (filter (meant ttype sn (world i)) (ts i)) \<le> 1))"
  have "acquire_from state ttype sn world (k - n) amb = Some (Inr (k, chosen state ttype sn (world k) (ts k), None))"
    if "n \<le> k" "sn \<noteq> None \<or> \<not> amb" for n amb
    using that
  proof (induction n arbitrary: amb)
    case 0
    then show ?case using h pass [of k] by (subst acquire_from.simps) auto
  next
    case (Suc n)
    define i where "i = k - Suc n"
    have i: "i < k" "Suc i = k - n" using Suc.prems(1) by (auto simp: i_def)
    obtain err where p: "acquire_pass state ttype sn (world i) =
        Some (Inr (NULL, length (filter (meant ttype sn (world i)) (ts i)) > 1, err))"
      using pass [of i] h i(1) by auto
    let ?amb = "amb \<or> length (filter (meant ttype sn (world i)) (ts i)) > 1"
    have a: "sn \<noteq> None \<or> \<not> ?amb" using h Suc.prems(2) i(1) by (metis leD)
    then have "acquire_from state ttype sn world i amb = acquire_from state ttype sn world (Suc i) ?amb"
      using h by (subst acquire_from.simps) (simp add: p)
    then show ?case using Suc.IH [of ?amb] Suc.prems(1) a i(2) by (simp add: i_def)
  qed
  from this [of k False] show "acquire_one_transport state ttype sn world = Some (Inr (k, chosen state ttype sn (world k) (ts k), None))"
    by (simp add: acquire_one_transport_def)
qed

text \<open>A registry with one local transport 30 (named \<open>emu\<close>), and an empty one.\<close>

definition empty_links :: links where
  "empty_links = list_init pending_list (list_init transport_list \<lparr>nxt = (\<lambda>_. 0), prv = (\<lambda>_. 0)\<rparr>)"

definition no_transports :: tregst where
  "no_transports = adbst.extend (device_sample\<lparr>trans := Map.empty\<rparr>) (tregst.fields Map.empty empty_links [] (replicate 64 0) [] [] [])"

definition emu_reg :: treg where
  "emu_reg = (blank_treg 70)\<lparr>t_type := KTransportLocal, serial := Some ''emu'', ref_count := 2, sfd := 8, t_fd := 9\<rparr>"

definition one_transport :: tregst where
  "one_transport = no_transports
     \<lparr>trans := [30 \<mapsto> blank_transport\<lparr>connection_state := CS_DEVICE\<rparr>], regs := [30 \<mapsto> emu_reg],
      tlinks := link_transport transport_list 30 empty_links\<rparr>"

lemma no_transports_wf: "list_wf no_transports []"
  by (simp add: list_wf_def no_transports_def adbst.defs tregst.defs empty_links_def ring_Nil list_init_def transport_list_def pending_list_def)

lemma one_transport_wf: "list_wf one_transport [30]"
  by (simp add: list_wf_def one_transport_def no_transports_def adbst.defs tregst.defs empty_links_def ring_def link_transport_def list_init_def
      transport_list_def pending_list_def Let_def)

theorem acquire_one_transport_waits_witness:
  "acquire_one_transport CS_DEVICE KTransportAny (Some ''emu'') (\<lambda>i. if i = 0 then no_transports else one_transport) = Some (Inr (1, 30, None))"
proof -
  let ?w = "\<lambda>i. if i = (0::nat) then no_transports else one_transport"
  let ?ts = "\<lambda>i. if i = (0::nat) then [] else [30]"
  have wf: "\<forall>i. list_wf (?w i) (?ts i)" using no_transports_wf one_transport_wf by simp
  have "chosen CS_DEVICE KTransportAny (Some ''emu'') no_transports [] = 0" by (simp add: chosen_def)
  moreover have "chosen CS_DEVICE KTransportAny (Some ''emu'') one_transport [30] = 30" by code_simp
  ultimately show ?thesis
    using acquire_one_transport_waits [OF wf, of CS_DEVICE KTransportAny "Some ''emu''" 1] by (simp add: CS_DEVICE_def CS_ANY_def)
qed

section \<open>Listing\<close>

lemma list_loop_short:
  assumes "\<forall>t\<in>set ts. trans st t \<noteq> None \<and> regs st t \<noteq> None"
  shows "list_loop False st ts p buf = put_lines (map (\<lambda>t. short_line (the (trans st t)) (the (regs st t))) ts) p buf"
  using assms
proof (induction ts arbitrary: p buf)
  case (Cons t ts)
  then obtain x r where "trans st t = Some x" "regs st t = Some r" by auto
  moreover have "list_loop False st ts q b = put_lines (map (\<lambda>t. short_line (the (trans st t)) (the (regs st t))) ts) q b" for q b
    using Cons by simp
  ultimately show ?case by (simp add: format_transport_def cong: if_cong)
qed simp

text \<open>
  The short listing stays inside its buffer, whatever the names of the devices: the text is the lines of the first transports of the
  list, as many whole lines as fit with the terminating NUL; a line that does not fit is dropped with all that follow it.
\<close>

theorem list_transports_bounded:
  assumes "list_wf st ts" and "0 < length buf" and "length buf < 2 ^ 30"
    and "\<forall>t\<in>set ts. length (short_line (the (trans st t)) (the (regs st t))) < 2 ^ 30"
  shows "\<exists>k p buf'. list_transports buf False st = Some (Inr (p, buf')) \<and> length buf' = length buf \<and> p < length buf \<and> buf' ! p = CHR 0x00 \<and>
    take p buf' = concat (take k (map (\<lambda>t. short_line (the (trans st t)) (the (regs st t))) ts)) \<and>
    (k < length ts \<longrightarrow> p + length (short_line (the (trans st (ts ! k))) (the (regs st (ts ! k)))) \<ge> length buf)"
proof -
  let ?ls = "map (\<lambda>t. short_line (the (trans st t)) (the (regs st t))) ts"
  have wf: "ring_nodes (tlinks st) transport_list = Some ts" "\<forall>t\<in>set ts. trans st t \<noteq> None \<and> regs st t \<noteq> None"
    using assms(1) by (auto simp: list_wf_def ring_nodes)
  obtain buf1 where l1: "list_loop False st ts 0 buf = Inr (length (concat (fitting (length buf) ?ls)), buf1)" "length buf1 = length buf"
    "take (length (concat (fitting (length buf) ?ls))) buf1 = concat (fitting (length buf) ?ls)"
    using put_lines_fitting [of 0 buf ?ls] assms(2-4) by (auto simp: list_loop_short [OF wf(2)])
  obtain k where k: "fitting (length buf) ?ls = take k ?ls"
    "k < length ts \<longrightarrow> length buf \<le> length (concat (fitting (length buf) ?ls)) + length (?ls ! k)"
    using fitting_prefix [of ?ls "length buf"] by auto
  define p where "p = length (concat (fitting (length buf) ?ls))"
  have l: "list_loop False st ts 0 buf = Inr (p, buf1)" "p < length buf" "length buf1 = length buf"
    "take p buf1 = concat (take k ?ls)" "k < length ts \<longrightarrow> p + length (?ls ! k) \<ge> length buf"
    using l1 k length_fitting [OF assms(2), of ?ls] by (simp_all add: p_def)
  define buf' where "buf' = take p buf1 @ [CHR 0x00] @ drop (p + 1) buf1"
  have "write_at p [CHR 0x00] buf1 = Inr buf'" using l(2,3) by (simp add: write_at_def buf'_def)
  then have "list_transports buf False st = Some (Inr (p, buf'))" using l(1) by (simp add: list_transports_def wf(1))
  moreover have "length buf' = length buf" "buf' ! p = CHR 0x00" "take p buf' = take p buf1"
    using l(2,3) by (simp_all add: buf'_def nth_append)
  ultimately show ?thesis using l(2,4,5) by (intro exI [of _ k] exI [of _ p] exI [of _ buf']) auto
qed

theorem list_transports_bounded_witness:
  "\<exists>p buf'. list_transports (replicate 8 CHR ''x'') False one_transport = Some (Inr (p, buf')) \<and> p = 0 \<and> length buf' = 8 \<and> buf' ! 0 = CHR 0x00"
proof -
  have e: "short_line (the (trans one_transport 30)) (the (regs one_transport 30)) = ''emu'' @ [CHR 0x09] @ ''device'' @ [CHR 0x0A]" by code_simp
  obtain k p buf' where h: "list_transports (replicate 8 CHR ''x'') False one_transport = Some (Inr (p, buf'))" "length buf' = 8" "p < 8"
    "buf' ! p = CHR 0x00" "take p buf' = concat (take k [short_line (the (trans one_transport 30)) (the (regs one_transport 30))])"
    using list_transports_bounded [OF one_transport_wf, of "replicate 8 CHR ''x''"] by (auto simp: e)
  have "p = length (concat (take k [short_line (the (trans one_transport 30)) (the (regs one_transport 30))]))"
    using h(2,3,5) by (metis length_take less_imp_le_nat min.absorb2)
  then have "p = 0" using h(3) by (cases k) (simp_all add: e)
  then show ?thesis using h by auto
qed

section \<open>The lists\<close>

lemma link_transport_eq: "t \<noteq> lst \<Longrightarrow> prv h lst \<noteq> t \<Longrightarrow> link_transport lst t h = list_add_tail lst t h"
  by (auto simp: link_transport_def list_add_tail_def Let_def set_nxt_def set_prv_def fun_upd_twist)

lemma unlink_transport_ring:
  assumes "ring h l xs" and "x \<in> set xs"
  shows "ring (unlink_transport x h) l (remove1 x xs)"
proof -
  have n: "nxt h x \<noteq> x" "prv h x \<noteq> x" using ring_nxt_neq [OF assms] by auto
  have "unlink_transport x h = set_prv (nxt h x) (prv h x) (set_nxt (prv h x) (nxt h x) h)"
    using n by (simp add: unlink_transport_def Let_def set_nxt_def set_prv_def)
  with ring_unlink [OF assms] show ?thesis by simp
qed

lemma unlink_transport_other:
  assumes "ring h l xs" and "ring h l' ys" and "x \<in> set xs" and "insert l (set xs) \<inter> insert l' (set ys) = {}"
  shows "ring (unlink_transport x h) l' ys"
proof (rule ring_frame [OF assms(2)])
  fix b assume b: "b \<in> insert l' (set ys)"
  have "nxt h x \<in> set (l # xs)" "prv h x \<in> set (l # xs)" using ring_nxt_mem [OF assms(1,3)] by auto
  with b assms(3,4) have "b \<noteq> x" "b \<noteq> nxt h x" "b \<noteq> prv h x" by auto
  with ring_nxt_neq [OF assms(1,3)]
  show "nxt (unlink_transport x h) b = nxt h b \<and> prv (unlink_transport x h) b = prv h b"
    by (simp add: unlink_transport_def Let_def)
qed

interpretation tl: ring_list lst "link_transport lst" unlink_transport for lst
  by unfold_locales (metis link_transport_eq list.set_intros(1) ring_add_tail ring_prv_head, rule unlink_transport_ring)

section \<open>The life of a transport\<close>

text \<open>
  The transports in the list \<open>ts\<close> and the pending ones \<open>ps\<close> are the allocated ones; the pending ones have their message in the queue, in this order;
  the message that removes a transport is sent once, for a transport of the list that nobody refers to any more.
\<close>

definition added :: "(addr \<times> int) list \<Rightarrow> addr list" where
  "added q = map fst (filter (\<lambda>m. snd m \<noteq> 0) q)"

definition removed :: "(addr \<times> int) list \<Rightarrow> addr list" where
  "removed q = map fst (filter (\<lambda>m. snd m = 0) q)"

lemma queue_simps [simp]:
  "added [] = []" "removed [] = []" "added (q @ q') = added q @ added q'" "removed (q @ q') = removed q @ removed q'"
  "added ((t, 0) # q) = added q" "removed ((t, 0) # q) = t # removed q"
  "k \<noteq> 0 \<Longrightarrow> added ((t, k) # q) = t # added q" "k \<noteq> 0 \<Longrightarrow> removed ((t, k) # q) = removed q"
  by (simp_all add: added_def removed_def)

definition reg_inv :: "'z tregst_scheme \<Rightarrow> addr list \<Rightarrow> addr list \<Rightarrow> bool" where
  "reg_inv st ts ps \<longleftrightarrow>
     ring (tlinks st) transport_list ts \<and> ring (tlinks st) pending_list ps \<and>
     insert transport_list (set ts) \<inter> insert pending_list (set ps) = {} \<and> NULL \<notin> set ts \<union> set ps \<and>
     dom (regs st) = set ts \<union> set ps \<and> dom (trans st) = set ts \<union> set ps \<and>
     added (reg_queue st) = ps \<and> distinct (removed (reg_queue st)) \<and>
     set (removed (reg_queue st)) \<subseteq> set ts \<and>
     (\<forall>t\<in>set (removed (reg_queue st)) \<union> set ps. \<exists>r. regs st t = Some r \<and> ref_count r \<le> 0)"

inductive reg_step :: "bool \<Rightarrow> fdenv \<Rightarrow> 'z tregst_scheme \<Rightarrow> 'z tregst_scheme \<Rightarrow> bool" for hst env where
  register_usb: "register_usb_transport t fde h sn dpath w st = Inr st' \<Longrightarrow> t \<notin> {NULL, transport_list, pending_list} \<Longrightarrow>
    regs st t = None \<Longrightarrow> trans st t = None \<Longrightarrow> reg_step hst env st st'"
| register_socket: "register_socket_transport hst t fde s sn tname port lcl st = Some (Inr (ok, st')) \<Longrightarrow>
    t \<notin> {NULL, transport_list, pending_list} \<Longrightarrow> regs st t = None \<Longrightarrow> trans st t = None \<Longrightarrow> reg_step hst env st st'"
| handler: "transport_registration_func env pair ev st = Some (Inr st') \<Longrightarrow> reg_step hst env st st'"
| thread_ends: "thread_exit hst t st = Inr st' \<Longrightarrow> t \<noteq> NULL \<Longrightarrow> reg_step hst env st st'"

text \<open>What the operations on one transport leave alone.\<close>

definition reg_only :: "addr \<Rightarrow> 'z tregst_scheme \<Rightarrow> 'z tregst_scheme \<Rightarrow> bool" where
  "reg_only t st st' \<longleftrightarrow> tlinks st' = tlinks st \<and> reg_queue st' = reg_queue st \<and> trans st' = trans st \<and>
     (\<forall>u. u \<noteq> t \<longrightarrow> regs st' u = regs st u) \<and> map_option ref_count (regs st' t) = map_option ref_count (regs st t)"

lemma reg_only_refl [simp]: "reg_only t st st"
  by (simp add: reg_only_def)

lemma reg_only_trans: "reg_only t st st1 \<Longrightarrow> reg_only t st1 st2 \<Longrightarrow> reg_only t st st2"
  by (simp add: reg_only_def)

lemma upd_reg_only: "upd_reg t f st = Inr st' \<Longrightarrow> (\<And>r. ref_count (f r) = ref_count r) \<Longrightarrow> reg_only t st st'"
  by (auto simp: upd_reg_def bindE_eq_Inr deref_eq_Inr reg_only_def)

lemma kick_reg_only: "kick_transport hst t st = Inr st' \<Longrightarrow> reg_only t st st'"
proof -
  assume h: "kick_transport hst t st = Inr st'"
  have c: "reg_only t st1 st2" if "call_kick hst t st1 = Inr st2" for st1 st2
    using that by (auto simp: call_kick_def usb_remote_kick_def local_remote_kick_def upd_reg_def bindE_eq_Inr deref_eq_Inr reg_only_def
        split: if_splits)
  from h consider "st' = st" | st1 where "upd_reg t (\<lambda>r. r\<lparr>kicked := True\<rparr>) st = Inr st1" "call_kick hst t st1 = Inr st'"
    by (auto simp: kick_transport_def bindE_eq_Inr split: if_splits)
  then show ?thesis
  proof cases
    case 2
    have "reg_only t st st1" by (rule upd_reg_only [OF 2(1)]) simp
    then show ?thesis using c [OF 2(2)] reg_only_trans by blast
  qed simp
qed

lemma close_reg_only: "call_close t st = Inr st' \<Longrightarrow> reg_only t st st'"
  by (auto simp: call_close_def usb_remote_close_def local_remote_close_def upd_reg_def bindE_eq_Inr deref_eq_Inr reg_only_def split: if_splits)

lemma reg_inv_cong:
  assumes "reg_inv st ts ps" "tlinks st' = tlinks st" "reg_queue st' = reg_queue st" "dom (trans st') = dom (trans st)"
    "dom (regs st') = dom (regs st)"
    and "\<And>u r. regs st u = Some r \<Longrightarrow> ref_count r \<le> 0 \<Longrightarrow> \<exists>r'. regs st' u = Some r' \<and> ref_count r' \<le> 0"
  shows "reg_inv st' ts ps"
  using assms unfolding reg_inv_def by metis

lemma reg_only_inv:
  assumes "reg_only t st st'" "reg_inv st ts ps"
  shows "reg_inv st' ts ps"
proof (rule reg_inv_cong [OF assms(2)])
  show "dom (regs st') = dom (regs st)"
  proof (intro set_eqI)
    fix u show "u \<in> dom (regs st') \<longleftrightarrow> u \<in> dom (regs st)"
      using assms(1) by (cases "u = t"; cases "regs st t"; cases "regs st' t") (auto simp: reg_only_def)
  qed
  show "\<exists>r'. regs st' u = Some r' \<and> ref_count r' \<le> 0" if "regs st u = Some r" "ref_count r \<le> 0" for u r
    using assms(1) that by (cases "u = t") (auto simp: reg_only_def)
qed (use assms(1) in \<open>simp_all add: reg_only_def\<close>)

lemma reg_inv_referenced:
  assumes "reg_inv st ts ps" "regs st t = Some r" "0 < ref_count r"
  shows "t \<in> set ts" "t \<notin> set (removed (reg_queue st))"
proof -
  have "\<not> (\<exists>r. regs st t = Some r \<and> ref_count r \<le> 0)" using assms(2,3) by auto
  then have "t \<notin> set (removed (reg_queue st)) \<union> set ps" using assms(1) unfolding reg_inv_def by blast
  moreover have "t \<in> set ts \<union> set ps" using assms(1,2) by (auto simp: reg_inv_def)
  ultimately show "t \<in> set ts" "t \<notin> set (removed (reg_queue st))" by auto
qed

lemma thread_exit_inv:
  assumes "thread_exit hst t st = Inr st'" "t \<noteq> NULL" "reg_inv st ts ps"
  shows "reg_inv st' ts ps"
proof -
  obtain st1 where st1: "kick_transport hst t st = Inr st1" "transport_unref hst t st1 = Inr st'"
    using assms(1) by (auto simp: thread_exit_def bindE_eq_Inr)
  have i1: "reg_inv st1 ts ps" by (rule reg_only_inv [OF kick_reg_only [OF st1(1)] assms(3)])
  obtain r where r: "regs st1 t = Some r" using st1(2) assms(2)
    by (auto simp: transport_unref_def transport_unref_locked_def upd_reg_def bindE_eq_Inr deref_eq_Inr)
  define st2 where "st2 = st1\<lparr>regs := (regs st1)(t \<mapsto> r\<lparr>ref_count := ref_count r - 1\<rparr>)\<rparr>"
  have i2: "reg_inv st2 ts ps"
    by (rule reg_inv_cong [OF i1]) (use r in \<open>auto simp: st2_def\<close>)
  show ?thesis
  proof (cases "ref_count r = 1")
    case False
    then have "st' = st2" using st1(2) assms(2) r
      by (simp add: transport_unref_def transport_unref_locked_def upd_reg_def st2_def)
    then show ?thesis using i2 by simp
  next
    case True
    have "bindE (kick_transport hst t st2) (\<lambda>st. bindE (call_close t st) (\<lambda>st. Inr (remove_transport t st))) = Inr st'"
      using st1(2) assms(2) r True by (simp add: transport_unref_def transport_unref_locked_def upd_reg_def st2_def)
    then obtain st3 st4 where st3: "kick_transport hst t st2 = Inr st3" "call_close t st3 = Inr st4" "st' = remove_transport t st4"
      by (auto simp: bindE_eq_Inr)
    have o: "reg_only t st2 st4" using reg_only_trans [OF kick_reg_only [OF st3(1)] close_reg_only [OF st3(2)]] .
    then have i4: "reg_inv st4 ts ps" by (rule reg_only_inv [OF _ i2])
    have q: "reg_queue st4 = reg_queue st1" "\<exists>r. regs st4 t = Some r \<and> ref_count r \<le> 0"
      using o True by (auto simp: reg_only_def st2_def)
    have "t \<in> set ts" "t \<notin> set (removed (reg_queue st1))" using reg_inv_referenced [OF i1 r] True by auto
    then show ?thesis using i4 q
      by (simp add: reg_inv_def st3(3) remove_transport_def)
  qed
qed

lemma pend_inv:
  assumes i: "reg_inv st ts ps" and t: "t \<notin> {NULL, transport_list, pending_list}" "t \<notin> set ts \<union> set ps"
    and st': "tlinks st' = tlinks st" "reg_queue st' = reg_queue st" "trans st' = (trans st)(t \<mapsto> x)" "regs st' = (regs st)(t \<mapsto> r)" "ref_count r \<le> 0"
  shows "reg_inv (pend_transport t st') ts (ps @ [t])"
proof -
  have r: "ring (tlinks st) transport_list ts" "ring (tlinks st) pending_list ps"
    "insert transport_list (set ts) \<inter> insert pending_list (set ps) = {}" using i by (auto simp: reg_inv_def)
  have "ring (link_transport pending_list t (tlinks st)) pending_list (ps @ [t])" by (rule tl.ins_ring [OF r(2)]) (use t in auto)
  moreover have "ring (link_transport pending_list t (tlinks st)) transport_list ts"
  proof -
    have "prv (tlinks st) pending_list \<noteq> t" using ring_prv_head [OF r(2)] t by auto
    then have "link_transport pending_list t (tlinks st) = list_add_tail pending_list t (tlinks st)" using t(1) by (intro link_transport_eq) auto
    then show ?thesis using add_tail_other [OF r(2,1), of t] t r(3) by auto
  qed
  ultimately show ?thesis
    using i t st' by (auto simp: reg_inv_def pend_transport_def register_transport_def)
qed

lemma fd_reg_fields:
  assumes "fdstate.more st' = fdstate.more (st :: 'z tregst_scheme)"
  shows "regs st' = regs st" "tlinks st' = tlinks st" "reg_queue st' = reg_queue st" "trans st' = trans st"
  using assms by (cases st; cases st'; simp)+

lemma add_action_inv:
  assumes i: "reg_inv st ts (t # ps)" and a: "add_action env pair t (st\<lparr>reg_queue := q\<rparr>) = Inr st'" and q: "reg_queue st = (t, k) # q" "k \<noteq> 0"
  shows "reg_inv st' (ts @ [t]) ps"
proof -
  let ?st = "st\<lparr>reg_queue := q\<rparr>"
  obtain x st1 where x: "trans st t = Some x" and st1: "(if connection_state x \<noteq> CS_NOPERM then
        bindE (upd_reg t (\<lambda>r. r\<lparr>ref_count := 2, transport_socket := fst pair, t_fd := snd pair\<rparr>) ?st) (\<lambda>st.
        bindE (reg_at st t) (\<lambda>r.
        bindE (fdevent_install env (transport_fde r) (transport_socket r) Transport_socket_events t st) (\<lambda>st.
        bindE (fdevent_set (transport_fde r) FDE_READ st) (\<lambda>st.
          Inr (st\<lparr>threads := threads st @ [t, t]\<rparr>)))))
      else Inr ?st) = Inr st1"
    and st': "st' = st1\<lparr>tlinks := link_transport transport_list t (unlink_transport t (tlinks st1)),
               dlinks := set_nxt t t (set_prv t t (dlinks st1)), updates := updates st1 + 1\<rparr>"
    using a by (auto simp: add_action_def bindE_eq_Inr deref_eq_Inr)
  have f: "tlinks st1 = tlinks st" "reg_queue st1 = q" "trans st1 = trans st" "dom (regs st1) = dom (regs st)"
    "\<And>u. u \<noteq> t \<Longrightarrow> regs st1 u = regs st u"
    using st1 by (auto simp: bindE_eq_Inr upd_reg_def deref_eq_Inr fd_reg_fields [OF fdevent_install_more] fd_reg_fields [OF fdevent_more(2)]
      split: if_splits)
  have r: "ring (tlinks st) transport_list ts" "ring (tlinks st) pending_list (t # ps)"
    "insert transport_list (set ts) \<inter> insert pending_list (set (t # ps)) = {}" using i by (auto simp: reg_inv_def)
  have d: "t \<notin> set ps" "pending_list \<noteq> t" using ring_distinct [OF r(2)] by auto
  define h where "h = unlink_transport t (tlinks st)"
  have h: "ring h pending_list ps" "ring h transport_list ts"
    using unlink_transport_ring [OF r(2), of t] unlink_transport_other [OF r(2,1), of t] r(3) by (auto simp: h_def)
  have t: "t \<notin> set (transport_list # ts)" using r(3) by auto
  have "ring (link_transport transport_list t h) transport_list (ts @ [t])" by (rule tl.ins_ring [OF h(2) t])
  moreover have "ring (link_transport transport_list t h) pending_list ps"
  proof -
    have "prv h transport_list \<noteq> t" using ring_prv_head [OF h(2)] t by auto
    then have "link_transport transport_list t h = list_add_tail transport_list t h" using t by (intro link_transport_eq) auto
    then show ?thesis using add_tail_other [OF h(2,1), of t] t d r(3) by auto
  qed
  moreover have "\<exists>r. regs st1 u = Some r \<and> ref_count r \<le> 0" if "u \<in> set (removed q) \<union> set ps" for u
  proof -
    have "u \<noteq> t" using that i q d(1) r(3) by (auto simp: reg_inv_def)
    then show ?thesis using that i q f(5) by (auto simp: reg_inv_def)
  qed
  ultimately show ?thesis
    using i q d f r(3) by (auto simp: reg_inv_def st' h_def)
qed

lemma more_reg_fields:
  assumes "sockst.more st' = sockst.more (st :: 'z tregst_scheme)"
  shows "regs st' = regs st" "tlinks st' = tlinks st" "reg_queue st' = reg_queue st" "trans st' = trans st"
  using assms by (cases st; cases st'; simp)+

lemma keeps_disconnect: "sockst.more st = sockst.more st0 \<Longrightarrow> keeps st0 (remote_socket_disconnect a st)"
  unfolding remote_socket_disconnect_def
  apply (rule keeps_read, rule keeps_bind, rule keeps_rules, rule keeps_bind, erule keeps_upd_sock, erule keeps_socket_close, erule keeps_rules)
  by (rule keeps_read) (auto simp: free_sock_def intro!: keeps_rules)

text \<open>The callbacks change neither the transports nor the registry.\<close>

definition same_registry :: "'z tregst_scheme \<Rightarrow> 'z tregst_scheme \<Rightarrow> bool" where
  "same_registry st st' \<longleftrightarrow> regs st' = regs st \<and> tlinks st' = tlinks st \<and> reg_queue st' = reg_queue st \<and> trans st' = trans st"

lemma callback_registry: "run_callback dis st = Inr st' \<Longrightarrow> same_registry st st'"
proof (cases "socks st dis = None")
  case True
  assume "run_callback dis st = Inr st'"
  with True show ?thesis
    by (auto simp: listener_disconnect_def free_listener_def bindE_eq_Inr same_registry_def Let_def fd_reg_fields [OF fdevent_more(1)])
next
  case False
  assume "run_callback dis st = Inr st'"
  then have "remote_socket_disconnect dis st = Inr st'" using False by simp
  from more_reg_fields [OF keepsD [OF keeps_disconnect [OF refl] this]] show ?thesis by (simp add: same_registry_def)
qed

lemma run_disconnects_registry: "run_disconnects_from t dis st = Some r \<Longrightarrow> r = Inr st' \<Longrightarrow> same_registry st st'"
proof (induction rule: run_disconnects_from.raw_induct [rotated, consumes 1])
  case (1 f t dis st r)
  show ?case
  proof (cases "dis = t \<or> socks st dis = None \<and> listeners st dis = None \<or> (\<exists>e. run_callback dis st = Inl e)")
    case True
    then show ?thesis using 1(2,3) by (auto simp: Let_def same_registry_def split: if_splits)
  next
    case False
    then obtain st1 where st1: "run_callback dis st = Inr st1" by (cases "run_callback dis st") auto
    have "same_registry st1 st'" using 1(1) [of t "nxt (dlinks st) dis" st1 r] False st1 1(2,3) by (auto simp: Let_def)
    with callback_registry [OF st1] show ?thesis by (simp add: same_registry_def)
  qed
qed

lemma run_disconnects_fields:
  assumes "run_transport_disconnects t st = Some (Inr st')"
  shows "regs st' = regs st" "tlinks st' = tlinks st" "reg_queue st' = reg_queue st" "trans st' = trans (st :: 'z tregst_scheme)"
proof -
  define st1 where "st1 = (if usb_disconnect_on st = t then usb_disconnected st else st)"
  have "run_disconnects_from t (nxt (dlinks st1) t) st1 = Some (Inr st')"
    using assms by (simp add: run_transport_disconnects_def Let_def st1_def)
  then have m: "same_registry st1 st'" by (rule run_disconnects_registry) simp
  have "regs st1 = regs st" "tlinks st1 = tlinks st" "reg_queue st1 = reg_queue st" "trans st1 = trans st"
    by (simp_all add: st1_def usb_disconnected_def)
  with m show "regs st' = regs st" "tlinks st' = tlinks st" "reg_queue st' = reg_queue st" "trans st' = trans st" by (simp_all add: same_registry_def)
qed

lemma remove_action_fields:
  assumes "remove_action t st = Some (Inr st')"
  shows "regs st' = (regs st)(t := None)" "tlinks st' = unlink_transport t (tlinks st)" "reg_queue st' = reg_queue st"
    "trans st' = (trans st)(t := None)"
proof -
  obtain r st1 where r: "regs st t = Some r" "fdevent_remove (transport_fde r) st = Inr st1"
    using assms by (auto simp: remove_action_def bindE_def deref_def split: option.splits sum.splits)
  note f = fd_reg_fields [OF fdevent_more(1) [OF r(2)]]
  obtain st2 where st2: "run_transport_disconnects t (st1\<lparr>closed_fds := closed_fds st1 @ [t_fd r], tlinks := unlink_transport t (tlinks st1)\<rparr>)
      = Some (Inr st2)" and st': "st' = (free_transport t st2)\<lparr>updates := updates (free_transport t st2) + 1\<rparr>"
    using assms r f(1) by (auto simp: remove_action_def bindE_eq_Inr Let_def)
  show "regs st' = (regs st)(t := None)" "tlinks st' = unlink_transport t (tlinks st)" "reg_queue st' = reg_queue st"
    "trans st' = (trans st)(t := None)"
    using run_disconnects_fields [OF st2] f by (simp_all add: st' free_transport_def)
qed

lemma remove_action_inv:
  assumes i: "reg_inv st ts ps" and a: "remove_action t (st\<lparr>reg_queue := q\<rparr>) = Some (Inr st')" and q: "reg_queue st = (t, 0) # q"
  shows "reg_inv st' (remove1 t ts) ps"
proof -
  note f = remove_action_fields [OF a, simplified]
  have r: "ring (tlinks st) transport_list ts" "ring (tlinks st) pending_list ps"
    "insert transport_list (set ts) \<inter> insert pending_list (set ps) = {}" "t \<in> set ts" using i q by (auto simp: reg_inv_def)
  have "ring (unlink_transport t (tlinks st)) transport_list (remove1 t ts)" "ring (unlink_transport t (tlinks st)) pending_list ps"
    using unlink_transport_ring [OF r(1,4)] unlink_transport_other [OF r(1,2,4,3)] by auto
  moreover have "set (remove1 t ts) = set ts - {t}" using ring_distinct(1) [OF r(1)] by (rule set_remove1_eq)
  ultimately show ?thesis using i q f r(3,4) by (auto simp: reg_inv_def)
qed

lemma register_usb_inv:
  assumes "register_usb_transport t fde h sn dpath w st = Inr st'" "reg_inv st ts ps" "t \<notin> {NULL, transport_list, pending_list}" "regs st t = None"
  shows "reg_inv st' ts (ps @ [t])"
proof -
  have t: "t \<notin> set ts \<union> set ps" using assms(2,4) by (auto simp: reg_inv_def)
  obtain st1 where st1: "st' = pend_transport t st1" "tlinks st1 = tlinks st" "reg_queue st1 = reg_queue st"
    "trans st1 = (trans st)(t \<mapsto> blank_transport\<lparr>connection_state := (if w then CS_OFFLINE else CS_NOPERM)\<rparr>)"
    "regs st1 = (regs st)(t \<mapsto> (blank_treg fde)\<lparr>t_type := KTransportUsb, usb := h, serial := sn, devpath := dpath\<rparr>)"
    using assms(1) by (auto simp: register_usb_transport_def init_usb_transport_def new_transport_def upd_trans_def upd_reg_def)
  show ?thesis unfolding st1(1) by (rule pend_inv [OF assms(2,3) t st1(2-5)]) (simp add: blank_treg_def)
qed

lemma init_socket_fields:
  assumes "init_socket_transport hst t s port lcl (new_transport t blank_transport (blank_treg fde) st) = Inr (ok, st1)"
  shows "tlinks st1 = tlinks st" "reg_queue st1 = reg_queue st" "\<exists>x. trans st1 = (trans st)(t \<mapsto> x)"
    "\<exists>r. regs st1 = (regs st)(t \<mapsto> r) \<and> ref_count r = 0"
proof -
  define st0 where "st0 = new_transport t (blank_transport\<lparr>connection_state := CS_OFFLINE\<rparr>)
    ((blank_treg fde)\<lparr>sfd := s, t_type := KTransportLocal, adb_port := (if hst \<and> lcl then port else 0)\<rparr>) st"
  have "st1 = st0\<lparr>local_transports := local_transports st1\<rparr>"
    using assms by (auto simp: init_socket_transport_def new_transport_def upd_trans_def upd_reg_def bindE_eq_Inr Let_def st0_def split: if_splits)
  then have "tlinks st1 = tlinks st0" "reg_queue st1 = reg_queue st0" "trans st1 = trans st0" "regs st1 = regs st0"
    by (metis tregst.select_convs(2,3) tregst.surjective tregst.update_convs(4) adbst.select_convs(1) tregst.select_convs(1))+
  then show "tlinks st1 = tlinks st" "reg_queue st1 = reg_queue st" "\<exists>x. trans st1 = (trans st)(t \<mapsto> x)"
    "\<exists>r. regs st1 = (regs st)(t \<mapsto> r) \<and> ref_count r = 0"
    by (auto simp: st0_def new_transport_def blank_treg_def)
qed

lemma register_socket_inv:
  assumes h: "register_socket_transport hst t fde s sn tname port lcl st = Some (Inr (ok, st'))" and i: "reg_inv st ts ps"
    and t: "t \<notin> {NULL, transport_list, pending_list}" "regs st t = None" "trans st t = None"
  shows "reg_inv st' ts (if ok then ps @ [t] else ps)"
proof -
  have nt: "t \<notin> set ts \<union> set ps" using i t(2) by (auto simp: reg_inv_def)
  obtain ok1 st1 where st1: "init_socket_transport hst t s port lcl (new_transport t blank_transport (blank_treg fde) st) = Inr (ok1, st1)"
    using h by (auto simp: register_socket_transport_def Let_def split: sum.splits)
  note f = init_socket_fields [OF st1]
  obtain x r where xr: "trans st1 = (trans st)(t \<mapsto> x)" "regs st1 = (regs st)(t \<mapsto> r)" "ref_count r = 0" using f(3,4) by blast
  have free: "reg_inv (free_transport t st1) ts ps"
    by (rule reg_inv_cong [OF i]) (use f(1,2) xr t in \<open>auto simp: free_transport_def fun_upd_idem\<close>)
  have pend: "reg_inv (pend_transport t (st1\<lparr>regs := (regs st1)(t \<mapsto> r\<lparr>serial := n\<rparr>)\<rparr>)) ts (ps @ [t])" for n
    by (rule pend_inv [OF i t(1) nt, where x = x and r = "r\<lparr>serial := n\<rparr>"]) (use f(1,2) xr in simp_all)
  obtain name where name: "(case sn of None \<Rightarrow> tname | Some n \<Rightarrow> n) = name" by simp
  show ?thesis
  proof (cases ok1)
    case False
    then have "st' = free_transport t st1 \<and> \<not> ok" using h st1 by (simp add: register_socket_transport_def Let_def)
    then show ?thesis using free by simp
  next
    case True
    have "ring_nodes (tlinks st1) pending_list = Some ps" "ring_nodes (tlinks st1) transport_list = Some ts"
      using i f(1) by (auto simp: reg_inv_def ring_nodes)
    then have "bindE (serial_taken st1 name ps) (\<lambda>b. if b then Inr (False, free_transport t st1)
        else bindE (serial_taken st1 name ts) (\<lambda>b. if b then Inr (False, free_transport t st1)
          else bindE (upd_reg t (\<lambda>r. r\<lparr>serial := Some name\<rparr>) st1) (\<lambda>st. Inr (True, pend_transport t st)))) = Inr (ok, st')"
      using h st1 True by (simp add: register_socket_transport_def name)
    then show ?thesis using free pend by (auto simp: bindE_eq_Inr upd_reg_def xr(2) split: if_splits)
  qed
qed

text \<open>
  C2: However registrations of USB and socket transports, the registration handler and the ends of transport threads follow one another, the
  list and the pending list stay well-formed rings of allocated transports, a pending transport is moved exactly once, and
  a transport is taken off the list and freed exactly once, after the last reference to it is gone.
\<close>

theorem registry_invariant:
  assumes "reg_inv st0 ts0 ps0" and "(reg_step hst env)\<^sup>*\<^sup>* st0 st"
  shows "\<exists>ts ps. reg_inv st ts ps"
  using assms(2)
proof (induction rule: rtranclp_induct)
  case base
  show ?case using assms(1) by blast
next
  case (step st st')
  then obtain ts ps where i: "reg_inv st ts ps" by blast
  from step(2) show ?case
  proof cases
    case (handler pair ev)
    show ?thesis
    proof (cases "has ev FDE_READ")
      case False
      then show ?thesis using handler i by (auto simp: transport_registration_func_def)
    next
      case True
      then obtain t k q where q: "reg_queue st = (t, k) # q" using handler by (cases "reg_queue st") (auto simp: transport_registration_func_def)
      show ?thesis
      proof (cases "k = 0")
        case k: True
        then have "remove_action t (st\<lparr>reg_queue := q\<rparr>) = Some (Inr st')" using handler True q by (simp add: transport_registration_func_def)
        then show ?thesis using remove_action_inv [OF i] q k by blast
      next
        case k: False
        then have a: "add_action env pair t (st\<lparr>reg_queue := q\<rparr>) = Inr st'" using handler True q by (simp add: transport_registration_func_def)
        have "ps = t # added q" using i q k by (simp add: reg_inv_def)
        then show ?thesis using add_action_inv [of st ts t "added q" env pair q st' k] i a q k by blast
      qed
    qed
  next
    case (register_usb t fde h sn dpath w)
    then show ?thesis using register_usb_inv [OF register_usb(1) i] by blast
  next
    case (register_socket t fde s sn tname port lcl ok)
    then show ?thesis using register_socket_inv [OF register_socket(1) i] by blast
  next
    case (thread_ends t)
    then show ?thesis using thread_exit_inv [OF thread_ends i] by blast
  qed
qed

lemma one_transport_inv: "reg_inv one_transport [30] []"
  using one_transport_wf
  by (auto simp: reg_inv_def list_wf_def one_transport_def no_transports_def adbst.defs tregst.defs empty_links_def ring_def link_transport_def list_init_def
      transport_list_def pending_list_def Let_def)

theorem registry_invariant_witness:
  "\<exists>st ts ps. (reg_step True (cenv sample_env))\<^sup>*\<^sup>* one_transport st \<and> reg_inv st ts ps \<and> reg_queue st = [(30, 0)]"
proof -
  define st where "st = projr (bindE (thread_exit True 30 one_transport) (thread_exit True 30))"
  have "(case bindE (thread_exit True 30 one_transport) (thread_exit True 30) of Inr st \<Rightarrow> reg_queue st = [(30, 0)] | _ \<Rightarrow> False)" by code_simp
  then obtain st1 where s: "thread_exit True 30 one_transport = Inr st1" "thread_exit True 30 st1 = Inr st" "reg_queue st = [(30, 0)]"
    by (auto simp: st_def bindE_def split: sum.splits)
  have "reg_step True (cenv sample_env) one_transport st1" "reg_step True (cenv sample_env) st1 st"
    using reg_step.thread_ends [OF s(1)] reg_step.thread_ends [OF s(2)] by simp_all
  then have run: "(reg_step True (cenv sample_env))\<^sup>*\<^sup>* one_transport st" by (rule converse_rtranclp_into_rtranclp [OF _ r_into_rtranclp])
  from registry_invariant [OF one_transport_inv run] run s(3) show ?thesis by blast
qed

section \<open>A device that is lost\<close>

lemma unref_fields:
  assumes "transport_unref hst t st = Inr st'" "t \<noteq> NULL" "regs st t = Some r"
  shows "tlinks st' = tlinks st" "\<And>u. u \<noteq> t \<Longrightarrow> regs st' u = regs st u" "\<exists>r'. regs st' t = Some r' \<and> ref_count r' = ref_count r - 1"
    "reg_queue st' = reg_queue st @ (if ref_count r = 1 then [(t, 0)] else [])"
proof -
  define st2 where "st2 = st\<lparr>regs := (regs st)(t \<mapsto> r\<lparr>ref_count := ref_count r - 1\<rparr>)\<rparr>"
  have u: "(if ref_count r - 1 = 0 then bindE (kick_transport hst t st2) (\<lambda>st. bindE (call_close t st) (\<lambda>st. Inr (remove_transport t st)))
      else Inr st2) = Inr st'"
    using assms by (auto simp: transport_unref_def transport_unref_locked_def upd_reg_def st2_def split: if_splits)
  have "\<exists>st4. reg_only t st2 st4 \<and> st' = (if ref_count r = 1 then remove_transport t st4 else st4)"
  proof (cases "ref_count r = 1")
    case True
    then obtain st3 st4 where "kick_transport hst t st2 = Inr st3" "call_close t st3 = Inr st4" "st' = remove_transport t st4"
      using u by (auto simp: bindE_eq_Inr)
    then show ?thesis using True reg_only_trans [OF kick_reg_only close_reg_only, of hst t st2 st3 st4] by auto
  qed (use u in auto)
  then obtain st4 where o: "reg_only t st2 st4" "st' = (if ref_count r = 1 then remove_transport t st4 else st4)" by blast
  then show "tlinks st' = tlinks st" "\<And>u. u \<noteq> t \<Longrightarrow> regs st' u = regs st u" "\<exists>r'. regs st' t = Some r' \<and> ref_count r' = ref_count r - 1"
    "reg_queue st' = reg_queue st @ (if ref_count r = 1 then [(t, 0)] else [])"
    by (auto simp: reg_only_def st2_def remove_transport_def)
qed

lemma kick_unref_fields:
  assumes "bindE (kick_transport hst t st) (transport_unref hst t) = Inr st'" "t \<noteq> NULL" "regs st t = Some r"
  shows "tlinks st' = tlinks st" "\<And>u. u \<noteq> t \<Longrightarrow> regs st' u = regs st u" "\<exists>r'. regs st' t = Some r' \<and> ref_count r' = ref_count r - 1"
    "reg_queue st' = reg_queue st @ (if ref_count r = 1 then [(t, 0)] else [])"
proof -
  obtain st1 where s: "kick_transport hst t st = Inr st1" "transport_unref hst t st1 = Inr st'" using assms(1) by (auto simp: bindE_eq_Inr)
  note o = kick_reg_only [OF s(1), unfolded reg_only_def]
  obtain r1 where r1: "regs st1 t = Some r1" "ref_count r1 = ref_count r" using o assms(3) by auto
  show "tlinks st' = tlinks st" "\<And>u. u \<noteq> t \<Longrightarrow> regs st' u = regs st u" "\<exists>r'. regs st' t = Some r' \<and> ref_count r' = ref_count r - 1"
    "reg_queue st' = reg_queue st @ (if ref_count r = 1 then [(t, 0)] else [])"
    using unref_fields [OF s(2) assms(2) r1(1)] o r1(2) by auto
qed

lemma add_action_fields:
  assumes "add_action env pair t st = Inr st'"
  shows "tlinks st' = link_transport transport_list t (unlink_transport t (tlinks st))" "reg_queue st' = reg_queue st"
    "dom (regs st') = dom (regs st)" "\<And>u. u \<noteq> t \<Longrightarrow> regs st' u = regs st u"
  using assms by (auto simp: add_action_def bindE_eq_Inr upd_reg_def deref_eq_Inr fd_reg_fields [OF fdevent_install_more]
      fd_reg_fields [OF fdevent_more(2)] split: if_splits)

text \<open>
  C38: \<open>unregister_transport\<close> (\<open>adb disconnect\<close>) takes the transport off the list and drops one of the references of its threads; when the first thread ends,
  the registration handler takes it off once more, with the links it had before. A device that was registered in between
  vanishes from the list, although it is connected and allocated.
\<close>

theorem unregister_loses_device:
  assumes "reg_inv st [a] [b]" and "regs st a = Some r" and "ref_count r = 2" and "reg_queue st = [(b, 1)]"
    and "unregister_transport hst a st = Inr st1" and "transport_registration_func env pair FDE_READ st1 = Some (Inr st2)"
    and "thread_exit hst a st2 = Inr st3" and "transport_registration_func env pair' FDE_READ st3 = Some (Inr st4)"
  shows "ring_nodes (tlinks st3) transport_list = Some [b] \<and> ring_nodes (tlinks st4) transport_list = Some [] \<and> regs st4 b \<noteq> None"
proof -
  have d: "a \<noteq> b" "a \<noteq> transport_list" "a \<noteq> pending_list" "b \<noteq> transport_list" "b \<noteq> pending_list" "transport_list \<noteq> pending_list"
    and an: "a \<noteq> NULL" and rs: "ring (tlinks st) transport_list [a]" "ring (tlinks st) pending_list [b]" and b: "b \<in> dom (regs st)"
    using assms(1) by (auto simp: reg_inv_def ring_def)
  define h1 where "h1 = unlink_transport a (tlinks st)"
  define h2 where "h2 = link_transport transport_list b (unlink_transport b h1)"
  note f1 = kick_unref_fields [OF assms(5) [unfolded unregister_transport_def] an, of r, simplified, OF assms(2), folded h1_def]
  have fr: "has FDE_READ FDE_READ" by (simp add: has_def FDE_READ_def)
  have add: "add_action env pair b (st1\<lparr>reg_queue := []\<rparr>) = Inr st2"
    using assms(6) f1(4) assms(3,4) fr by (simp add: transport_registration_func_def)
  note f2 = add_action_fields [OF add, simplified]
  obtain r2 where r2: "regs st2 a = Some r2" "ref_count r2 = 1" using f1(3) f2(4) [OF d(1)] assms(3) by auto
  note f3 = kick_unref_fields [OF assms(7) [unfolded thread_exit_def] an r2(1)]
  have rm: "remove_action a (st3\<lparr>reg_queue := []\<rparr>) = Some (Inr st4)"
    using assms(8) f3(4) f2(2) r2(2) fr by (simp add: transport_registration_func_def)
  note f4 = remove_action_fields [OF rm, simplified]
  have t3: "tlinks st3 = h2" using f3(1) f2(1) f1(1) by (simp add: h2_def)
  have "regs st3 b \<noteq> None" using f3(2) f2(3) f1(2) b d(1) by (auto simp: dom_def)
  have r1: "ring h1 transport_list []" "ring h1 pending_list [b]"
    using unlink_transport_ring [OF rs(1), of a] unlink_transport_other [OF rs, of a] d by (auto simp: h1_def)
  have "ring h2 transport_list [b]"
    using tl.ins_ring [of "unlink_transport b h1" transport_list "[]" b] unlink_transport_other [OF r1(2,1), of b] d by (auto simp: h2_def)
  moreover have "nxt (tlinks st) a = transport_list" "prv (tlinks st) a = transport_list" using rs(1) by (auto simp: ring_def)
  then have "nxt h2 a = transport_list" "prv h2 a = transport_list"
    using d r1 ring_prv_head [OF r1(1)] by (auto simp: h2_def h1_def link_transport_def unlink_transport_def Let_def ring_Nil ring_def)
  then have "ring (unlink_transport a h2) transport_list []"
    using d by (simp add: ring_Nil unlink_transport_def Let_def)
  ultimately show ?thesis using t3 f4 \<open>regs st3 b \<noteq> None\<close> d(1) by (simp add: ring_nodes)
qed

text \<open>Emulator 30 is in the list; device 31, without permission, is being registered while the emulator is disconnected.\<close>

definition two_transports :: tregst where
  "two_transports = no_transports
     \<lparr>trans := [30 \<mapsto> blank_transport, 31 \<mapsto> blank_transport\<lparr>connection_state := CS_NOPERM\<rparr>], regs := [30 \<mapsto> emu_reg, 31 \<mapsto> blank_treg 71],
      tlinks := link_transport pending_list 31 (link_transport transport_list 30 empty_links),
      dlinks := list_init 30 \<lparr>nxt = (\<lambda>_. 0), prv = (\<lambda>_. 0)\<rparr>, reg_queue := [(31, 1)],
      fdes := [70 \<mapsto> \<lparr>fde_fd = 5, fde_force_eof = False, fde_state = 0, fde_events = 0, fde_func = Transport_socket_events, fde_arg = 30\<rparr>]\<rparr>"

lemma two_transports_inv: "reg_inv two_transports [30] [31]"
  by (auto simp: reg_inv_def two_transports_def no_transports_def adbst.defs tregst.defs empty_links_def ring_def link_transport_def list_init_def
      transport_list_def pending_list_def Let_def blank_treg_def)

definition lost_run :: "(tregst \<times> tregst \<times> tregst \<times> tregst) option" where
  "lost_run =
     (case unregister_transport True 30 two_transports of Inl _ \<Rightarrow> None | Inr st1 \<Rightarrow>
      (case transport_registration_func (cenv sample_env) (5, 6) FDE_READ st1 of
         Some (Inr st2) \<Rightarrow>
           (case thread_exit True 30 st2 of Inl _ \<Rightarrow> None | Inr st3 \<Rightarrow>
            (case transport_registration_func (cenv sample_env) (5, 6) FDE_READ st3 of
               Some (Inr st4) \<Rightarrow> Some (st1, st2, st3, st4) | _ \<Rightarrow> None))
       | _ \<Rightarrow> None))"

declare run_disconnects_from.simps [code]

lemma lost_run_ends: "lost_run \<noteq> None"
proof -
  have "(case lost_run of None \<Rightarrow> False | Some _ \<Rightarrow> True)" by code_simp
  then show ?thesis by (auto split: option.splits)
qed

theorem unregister_loses_device_witness:
  "\<exists>st1 st2 st3 st4. lost_run = Some (st1, st2, st3, st4) \<and>
     ring_nodes (tlinks st3) transport_list = Some [31] \<and> ring_nodes (tlinks st4) transport_list = Some [] \<and> regs st4 31 \<noteq> None"
proof -
  obtain st1 st2 st3 st4 where l: "lost_run = Some (st1, st2, st3, st4)" using lost_run_ends by (metis not_Some_eq prod_cases4)
  then have s: "unregister_transport True 30 two_transports = Inr st1"
    "transport_registration_func (cenv sample_env) (5, 6) FDE_READ st1 = Some (Inr st2)" "thread_exit True 30 st2 = Inr st3"
    "transport_registration_func (cenv sample_env) (5, 6) FDE_READ st3 = Some (Inr st4)"
    by (auto simp: lost_run_def split: sum.splits option.splits)
  have r: "regs two_transports 30 = Some emu_reg" "ref_count emu_reg = 2" "reg_queue two_transports = [(31, 1)]"
    by (simp_all add: two_transports_def emu_reg_def blank_treg_def)
  from unregister_loses_device [OF two_transports_inv r s] l show ?thesis by blast
qed

end
