(* ===== verification/Listeners_Props.thy ===== *)
theory Listeners_Props
  imports Listeners Sockets_Props "HOL-Library.AList"
begin

text \<open>
  The listeners implement a table of forwards: an association list from local names to targets and devices. Installing, removing
  and clearing on the heap of linked listeners with their event objects refine the operations on that table.
\<close>

section \<open>The list of listeners\<close>

lemma link_listener_eq:
  "l \<noteq> listener_list \<Longrightarrow> prv h listener_list \<noteq> l \<Longrightarrow> link_listener l h = list_add_tail listener_list l h"
  by (auto simp: link_listener_def list_add_tail_def Let_def)

lemma unlink_listener_ring:
  assumes "ring h k xs" and "l \<in> set xs"
  shows "ring (unlink_listener l h) k (remove1 l xs)"
proof -
  have n: "nxt h l \<noteq> l" "prv h l \<noteq> l" using ring_nxt_neq [OF assms] by auto
  have x: "l \<notin> set (k # remove1 l xs)" using assms ring_distinct by fastforce
  have "ring (set_nxt (prv h l) (nxt h l) (set_prv (nxt h l) (prv h l) h)) k (remove1 l xs)"
    using ring_unlink [OF assms] by (rule ring_frame) auto
  from ring_set_other(1) [OF ring_set_other(2) [OF this x] x] n show ?thesis
    by (simp add: unlink_listener_def Let_def)
qed

interpretation lsn: ring_list listener_list link_listener unlink_listener
  by unfold_locales (metis link_listener_eq list.set_intros(1) ring_add_tail ring_prv_head, rule unlink_listener_ring)

section \<open>The invariant and the table\<close>

text \<open>Every listener of the list has an active event object for its descriptor, and no two have the same name.\<close>

definition attended :: "'z lsnst_scheme \<Rightarrow> addr \<Rightarrow> bool" where
  "attended st l \<longleftrightarrow> (\<exists>x f. listeners st l = Some x \<and> fdes st l = Some f \<and> active f \<and> fde_fd f = l_fd x)"

definition lsn_inv :: "'z lsnst_scheme \<Rightarrow> addr list \<Rightarrow> bool" where
  "lsn_inv st xs \<longleftrightarrow>
     fd_ok st \<and> ring (llinks st) listener_list xs \<and> NULL \<notin> set xs \<and>
     (\<forall>l\<in>set xs. attended st l) \<and>
     distinct (map (\<lambda>l. local_name (the (listeners st l))) xs)"

definition lsn_ok :: "'z lsnst_scheme \<Rightarrow> bool" where
  "lsn_ok st \<longleftrightarrow> (\<exists>xs. lsn_inv st xs)"

type_synonym forwards = "(string \<times> (string \<times> addr)) list"

definition entry :: "alistener \<Rightarrow> string \<times> (string \<times> addr)" where
  "entry x = (local_name x, connect_to x, l_transport x)"

definition forwards_of :: "'z lsnst_scheme \<Rightarrow> forwards" where
  "forwards_of st = map (\<lambda>l. entry (the (listeners st l))) (the (ring_nodes (llinks st) listener_list))"

text \<open>The operations of the table.\<close>

definition special :: "string \<times> addr \<Rightarrow> bool" where
  "special v \<longleftrightarrow> take 1 (fst v) = ''*''"

definition forwards_install :: "int \<Rightarrow> string \<Rightarrow> string \<Rightarrow> addr \<Rightarrow> bool \<Rightarrow> forwards \<Rightarrow> install_status \<times> forwards" where
  "forwards_install fd name target t no_rebind tab =
     (case map_of tab name of
        None \<Rightarrow> if fd < 0 then (INSTALL_STATUS_CANNOT_BIND, tab) else (INSTALL_STATUS_OK, tab @ [(name, target, t)])
      | Some v \<Rightarrow>
          if special v then (INSTALL_STATUS_INTERNAL_ERROR, tab)
          else if no_rebind then (INSTALL_STATUS_CANNOT_REBIND, tab)
          else (INSTALL_STATUS_OK, AList.update name (target, t) tab))"

definition forwards_remove :: "string \<Rightarrow> forwards \<Rightarrow> int \<times> forwards" where
  "forwards_remove name tab = (if map_of tab name = None then (- 1, tab) else (0, AList.delete name tab))"

definition forwards_clear :: "forwards \<Rightarrow> forwards" where
  "forwards_clear tab = filter (\<lambda>(n, v). special v) tab"

lemma special_entry: "special (snd (entry x)) = is_special x"
  by (cases "connect_to x") (auto simp: special_def entry_def is_special_def)

lemma lsn_nodes: "lsn_inv st xs \<Longrightarrow> ring_nodes (llinks st) listener_list = Some xs"
  unfolding lsn_inv_def by (blast intro: ring_nodes)

lemma forwards_eq: "lsn_inv st xs \<Longrightarrow> forwards_of st = map (\<lambda>l. entry (the (listeners st l))) xs"
  by (simp add: forwards_of_def lsn_nodes)

lemma lsnD: "lsn_inv st xs \<Longrightarrow> l \<in> set xs \<Longrightarrow> \<exists>x. listeners st l = Some x"
  by (auto simp: lsn_inv_def attended_def)

section \<open>Looking a name up\<close>

lemma find_name_spec:
  "\<forall>l\<in>set ls. \<exists>x. listeners st l = Some x \<Longrightarrow>
   find_name name st ls = Inr (case find (\<lambda>l. local_name (the (listeners st l)) = name) ls of None \<Rightarrow> NULL | Some l \<Rightarrow> l)"
  by (induction ls) auto

lemma lookup:
  assumes "lsn_inv st xs"
  shows "(find_name name st xs = Inr NULL \<and> map_of (forwards_of st) name = None \<and> (\<forall>l\<in>set xs. local_name (the (listeners st l)) \<noteq> name)) \<or>
    (\<exists>l x. find_name name st xs = Inr l \<and> l \<noteq> NULL \<and> l \<in> set xs \<and> listeners st l = Some x \<and> local_name x = name \<and>
       map_of (forwards_of st) name = Some (connect_to x, l_transport x))"
proof -
  let ?n = "\<lambda>l. local_name (the (listeners st l))"
  have f: "find_name name st xs = Inr (case find (\<lambda>l. ?n l = name) xs of None \<Rightarrow> NULL | Some l \<Rightarrow> l)"
    using lsnD [OF assms] by (intro find_name_spec) blast
  have d: "distinct (map fst (forwards_of st))"
    using assms unfolding forwards_eq [OF assms] by (simp add: lsn_inv_def entry_def comp_def)
  show ?thesis
  proof (cases "find (\<lambda>l. ?n l = name) xs")
    case None
    then have "\<forall>l\<in>set xs. ?n l \<noteq> name" by (auto simp: find_None_iff)
    moreover from this have "map_of (forwards_of st) name = None"
      unfolding forwards_eq [OF assms] by (auto simp: map_of_eq_None_iff entry_def)
    ultimately show ?thesis using f None by simp
  next
    case (Some l)
    then have l: "l \<in> set xs" "?n l = name" by (auto simp: find_Some_iff)
    then obtain x where x: "listeners st l = Some x" using lsnD [OF assms] by blast
    have "entry x \<in> set (forwards_of st)" unfolding forwards_eq [OF assms] using l(1) x by force
    then have "map_of (forwards_of st) name = Some (connect_to x, l_transport x)"
      using d x l(2) by (simp add: entry_def)
    moreover have "l \<noteq> NULL" using assms l(1) unfolding lsn_inv_def by metis
    ultimately show ?thesis using f Some l x by auto
  qed
qed

section \<open>Removing and installing on the heap\<close>

lemma lsn_more_fields:
  assumes "fdstate.more st' = fdstate.more (st :: 'z lsnst_scheme)"
  shows "listeners st' = listeners st" "llinks st' = llinks st"
  using assms by (cases st; cases st'; simp)+

text \<open>What an operation on the listener \<open>l\<close> may change of the others.\<close>

lemma lsn_inv_drop:
  assumes inv: "lsn_inv st xs" and l: "l \<in> set xs" and "fd_ok st'" "ring (llinks st') listener_list (remove1 l xs)"
    and same: "\<forall>b. b \<noteq> l \<longrightarrow> listeners st' b = listeners st b \<and> fdes st' b = fdes st b"
  shows "lsn_inv st' (remove1 l xs)" "forwards_of st' = AList.delete (local_name (the (listeners st l))) (forwards_of st)"
proof -
  let ?n = "\<lambda>st l. local_name (the (listeners st l))"
  have d: "distinct xs" using inv ring_distinct unfolding lsn_inv_def by blast
  have nl: "\<forall>b\<in>set (remove1 l xs). b \<in> set xs \<and> b \<noteq> l" using d by auto
  have inj: "inj_on (?n st) (set xs)" and dn: "distinct (map (?n st) xs)" using inv by (auto simp: lsn_inv_def distinct_map)
  have "map (?n st') (remove1 l xs) = map (?n st) (remove1 l xs)"
    by (rule map_cong [OF refl]) (use same nl in metis)
  moreover have "distinct (map (?n st) (remove1 l xs))" using d inj nl by (auto simp: distinct_map intro: inj_on_subset)
  ultimately have dn': "distinct (map (?n st') (remove1 l xs))" by (simp only:)
  have "attended st' b" if "b \<in> set (remove1 l xs)" for b
  proof -
    have "b \<in> set xs" "b \<noteq> l" using nl that by blast+
    then have "attended st b" "listeners st' b = listeners st b" "fdes st' b = fdes st b" using inv same unfolding lsn_inv_def by blast+
    then show ?thesis by (metis attended_def)
  qed
  moreover have "NULL \<notin> set (remove1 l xs)" using inv nl unfolding lsn_inv_def by blast
  ultimately show i: "lsn_inv st' (remove1 l xs)"
    using assms(3,4) dn' unfolding lsn_inv_def by blast
  have "forwards_of st' = map (\<lambda>b. entry (the (listeners st b))) (remove1 l xs)"
    unfolding forwards_eq [OF i] by (rule map_cong [OF refl]) (use same nl in metis)
  also have "remove1 l xs = filter (\<lambda>b. ?n st l \<noteq> ?n st b) xs"
    unfolding distinct_remove1_removeAll [OF d] removeAll_filter_not_eq using inj l by (intro filter_cong) (auto dest: inj_onD)
  finally show "forwards_of st' = AList.delete (?n st l) (forwards_of st)"
    unfolding forwards_eq [OF inv] by (simp add: AList.delete_eq filter_map comp_def entry_def split_def)
qed

lemma free_listener_ok:
  assumes inv: "lsn_inv st xs" and l: "l \<in> set xs"
  obtains st' where "free_listener l st = Inr st'" "lsn_inv st' (remove1 l xs)" "\<forall>b. b \<noteq> l \<longrightarrow> listeners st' b = listeners st b"
    "forwards_of st' = AList.delete (local_name (the (listeners st l))) (forwards_of st)"
proof -
  obtain x f where x: "listeners st l = Some x" "fdes st l = Some f" using inv l unfolding lsn_inv_def attended_def by blast
  have r: "ring (llinks st) listener_list xs" "NULL \<notin> set xs" using inv by (auto simp: lsn_inv_def)
  then have n: "nxt (llinks st) l \<noteq> NULL" using ring_nxt_mem [OF r(1) l] by (metis listener_list_def set_ConsD zero_neq_numeral)
  define st1 where "st1 = st\<lparr>llinks := unlink_listener l (llinks st)\<rparr>"
  obtain ps where "fd_inv st ps" using inv by (auto simp: lsn_inv_def fd_ok_def)
  then have "fd_inv st1 ps" by (simp add: fd_inv_def st1_def)
  moreover have "fdes st1 l = Some f" by (simp add: st1_def x)
  ultimately obtain st2 where st2: "fdevent_remove l st1 = Inr st2" "fd_inv st2 (remove1 l ps)"
    "fdes st2 = (fdes st1)(l \<mapsto> f\<lparr>fde_state := 0, fde_events := 0\<rparr>)" by (rule fdevent_remove_inv)
  note m = lsn_more_fields [OF fdevent_more(1) [OF st2(1)]]
  define st3 where "st3 = (if l_transport x \<noteq> NULL then st2\<lparr>dlinks := remove_transport_disconnect l (dlinks st2)\<rparr> else st2)
    \<lparr>listeners := (listeners st2)(l := None), fdes := (fdes st2)(l := None)\<rparr>"
  have e: "free_listener l st = Inr st3" using x n st2(1) by (simp add: free_listener_def Let_def st1_def st3_def)
  have "fd_inv (st2\<lparr>fdes := (fdes st2)(l := None)\<rparr>) (remove1 l ps)"
    by (rule fd_inv_free [OF st2(2), where f = "f\<lparr>fde_state := 0, fde_events := 0\<rparr>"]) (simp_all add: st2(3))
  then have "fd_ok st3" unfolding fd_ok_def by (auto simp: fd_inv_def st3_def)
  moreover have "ring (llinks st3) listener_list (remove1 l xs)" using lsn.del_ring [OF r(1) l] by (simp add: st3_def m st1_def)
  moreover have b: "\<forall>b. b \<noteq> l \<longrightarrow> listeners st3 b = listeners st b \<and> fdes st3 b = fdes st b" by (simp add: st3_def m st1_def st2(3))
  ultimately show thesis using that e lsn_inv_drop [OF inv l] by blast
qed

lemma rebind_listener_ok:
  assumes inv: "lsn_inv st xs" and l: "l \<in> set xs" "listeners st l = Some x"
  obtains st' where "rebind_listener l target t st = Inr st'" "lsn_inv st' xs"
    "forwards_of st' = AList.update (local_name x) (target, t) (forwards_of st)"
proof -
  define st' where "st' = (let st' = st\<lparr>listeners := (listeners st)(l \<mapsto> x\<lparr>connect_to := target, l_transport := t\<rparr>)\<rparr> in
    if l_transport x = t then st' else st'\<lparr>dlinks := add_transport_disconnect t l (remove_transport_disconnect l (dlinks st))\<rparr>)"
  have f: "listeners st' = (listeners st)(l \<mapsto> x\<lparr>connect_to := target, l_transport := t\<rparr>)" "fdes st' = fdes st" "llinks st' = llinks st"
    by (simp_all add: st'_def Let_def)
  let ?n = "\<lambda>st b. local_name (the (listeners st b))"
  have n: "?n st' = ?n st" using l(2) f(1) by auto
  have "fd_ok st' = fd_ok st" by (simp add: fd_ok_def fd_inv_def st'_def Let_def)
  moreover have "attended st' b" if "attended st b" for b
    using that f l(2) by (cases "b = l") (simp_all add: attended_def)
  ultimately have i: "lsn_inv st' xs" using inv unfolding lsn_inv_def f(3) n by blast
  have d: "distinct (map (?n st) xs)" using inv by (simp add: lsn_inv_def)
  have "map (\<lambda>b. entry (the (listeners st' b))) xs = AList.update (local_name x) (target, t) (map (\<lambda>b. entry (the (listeners st b))) xs)"
    using l(1) d
  proof (induction xs)
    case (Cons b xs)
    show ?case
    proof (cases "b = l")
      case True
      then have "l \<notin> set xs" using Cons.prems by auto
      then have "map (\<lambda>b. entry (the (listeners st' b))) xs = map (\<lambda>b. entry (the (listeners st b))) xs" by (auto simp: f)
      then show ?thesis using True l(2) by (simp add: f entry_def)
    next
      case False
      then have "l \<in> set xs" using Cons.prems by auto
      moreover from this have "?n st b \<noteq> ?n st l" using Cons.prems(2) by force
      ultimately show ?thesis using Cons False l(2) by (simp add: f entry_def)
    qed
  qed simp
  moreover have "rebind_listener l target t st = Inr st'" using l(2) by (simp add: rebind_listener_def st'_def Let_def)
  ultimately show thesis by (intro that [OF _ i]) (simp_all only: forwards_eq [OF inv] forwards_eq [OF i])
qed

text \<open>The address \<open>calloc\<close> returned is new, and so is the descriptor.\<close>

definition listenable :: "addr \<Rightarrow> int \<Rightarrow> 'z lsnst_scheme \<Rightarrow> bool" where
  "listenable new fd st \<longleftrightarrow> new \<noteq> NULL \<and> new \<noteq> listener_list \<and> listeners st new = None \<and> (0 \<le> fd \<longrightarrow> installable new fd st)"

lemma fresh_active: "active (fresh_fde fd f a)" "fde_fd (fresh_fde fd f a) = fd"
  by (simp_all add: fresh_fde_def mask_bits)

lemma installable_cong: "installable a fd st \<Longrightarrow> fdes st' = fdes st \<Longrightarrow> installable a fd st'"
  unfolding installable_def by (erule ssubst) assumption

lemma new_listener_ok:
  assumes inv: "lsn_inv st xs" and env: "env_ok env" and new: "listenable new (sfd name) st"
    and name: "\<forall>l\<in>set xs. local_name (the (listeners st l)) \<noteq> name" and fd: "0 \<le> sfd name"
  obtains st' where "new_listener env sfd new name target t st = Inr (INSTALL_STATUS_OK, st')" "lsn_ok st'"
    "forwards_of st' = forwards_of st @ [(name, target, t)]"
proof -
  let ?x = "\<lparr>l_fd = sfd name, local_name = name, connect_to = target, l_transport = t\<rparr>"
  let ?f = "if target = ''*smartsocket*'' then Ss_listener_event_func else Listener_event_func"
  define st1 where "st1 = st\<lparr>listeners := (listeners st)(new \<mapsto> ?x)\<rparr>"
  have n: "new \<noteq> NULL" "new \<noteq> listener_list" "listeners st new = None" "installable new (sfd name) st" using new fd by (auto simp: listenable_def)
  have notin: "new \<notin> set xs" using lsnD [OF inv, of new] n(3) by auto
  obtain ps where "fd_inv st ps" using inv by (auto simp: lsn_inv_def fd_ok_def)
  then have "fd_inv st1 ps" by (simp add: fd_inv_def st1_def)
  moreover have "installable new (sfd name) st1" by (rule installable_cong [OF n(4)]) (simp add: st1_def)
  ultimately obtain st2 where st2: "fdevent_install env new (sfd name) ?f new st1 = Inr st2" "fd_inv st2 ps"
    "fdes st2 = (fdes st1)(new \<mapsto> fresh_fde (sfd name) ?f new)" by (metis fdevent_install_inv [OF _ env])
  have "fdes st2 new = Some (fresh_fde (sfd name) ?f new)" by (simp add: st2(3))
  from fdevent_set_inv [OF st2(2) this, of FDE_READ] obtain st3 ps' g where st3: "fdevent_set new FDE_READ st2 = Inr st3" "fd_inv st3 ps'"
    "fdes st3 = (fdes st2)(new \<mapsto> g)" "active g" "fde_fd g = sfd name"
    by (smt (verit) fresh_active active_set_result)
  note m = lsn_more_fields [OF fdevent_install_more [OF st2(1)]] lsn_more_fields [OF fdevent_more(2) [OF st3(1)]]
  define st4 where "st4 = (let st = st3\<lparr>llinks := link_listener new (llinks st3)\<rparr> in
    if t \<noteq> NULL then st\<lparr>dlinks := add_transport_disconnect t new (dlinks st)\<rparr> else st)"
  have e: "new_listener env sfd new name target t st = Inr (INSTALL_STATUS_OK, st4)"
    using n(1) fd st2(1) st3(1) by (simp add: new_listener_def Let_def st1_def st4_def)
  have fl: "listeners st4 = (listeners st)(new \<mapsto> ?x)" "fdes st4 = (fdes st)(new \<mapsto> g)" "llinks st4 = link_listener new (llinks st)"
    by (simp_all add: st4_def Let_def m st3(3) st2(3)) (simp_all add: st1_def)
  have "fd_ok st4" using st3(2) by (auto simp: fd_ok_def fd_inv_def st4_def Let_def)
  moreover have "ring (llinks st4) listener_list (xs @ [new])"
    unfolding fl using inv n(2) notin by (intro lsn.ins_ring) (auto simp: lsn_inv_def)
  moreover have "attended st4 b" if "b \<in> set (xs @ [new])" for b
  proof (cases "b = new")
    case True
    then show ?thesis using st3(4,5) by (simp add: attended_def fl)
  next
    case False
    then have "attended st b" using that inv by (auto simp: lsn_inv_def)
    then show ?thesis using False by (simp add: attended_def fl)
  qed
  moreover have "distinct (map (\<lambda>l. local_name (the (listeners st4 l))) (xs @ [new]))"
  proof -
    have "map (\<lambda>l. local_name (the (listeners st4 l))) xs = map (\<lambda>l. local_name (the (listeners st l))) xs"
      using notin by (intro map_cong) (auto simp: fl)
    then show ?thesis using inv name unfolding map_append distinct_append lsn_inv_def by (auto simp: fl simp del: map_eq_conv)
  qed
  ultimately have i: "lsn_inv st4 (xs @ [new])" using inv n(1) unfolding lsn_inv_def by auto
  have "map (\<lambda>l. entry (the (listeners st4 l))) xs = map (\<lambda>l. entry (the (listeners st l))) xs"
    using notin by (intro map_cong) (auto simp: fl)
  then have "forwards_of st4 = forwards_of st @ [(name, target, t)]"
    unfolding forwards_eq [OF i] forwards_eq [OF inv] by (simp add: fl entry_def)
  with that e i show thesis unfolding lsn_ok_def by blast
qed

lemma remove_listeners_ok:
  assumes "lsn_inv st xs" "set ls \<subseteq> set xs" "distinct ls"
  shows "\<exists>st'. remove_listeners ls st = Inr st' \<and> lsn_inv st' (filter (\<lambda>l. l \<in> set ls \<longrightarrow> is_special (the (listeners st l))) xs) \<and>
    (\<forall>l\<in>set xs. (l \<in> set ls \<longrightarrow> is_special (the (listeners st l))) \<longrightarrow> listeners st' l = listeners st l)"
  using assms
proof (induction ls arbitrary: st xs)
  case (Cons l ls)
  obtain x where x: "listeners st l = Some x" using lsnD [OF Cons.prems(1), of l] Cons.prems(2) by auto
  have d: "distinct xs" using Cons.prems(1) ring_distinct unfolding lsn_inv_def by blast
  show ?case
  proof (cases "is_special x")
    case True
    then have "filter (\<lambda>b. b \<in> set (l # ls) \<longrightarrow> is_special (the (listeners st b))) xs = filter (\<lambda>b. b \<in> set ls \<longrightarrow> is_special (the (listeners st b))) xs"
      using x by (intro filter_cong) auto
    then show ?thesis using Cons.IH [OF Cons.prems(1)] Cons.prems True x by auto
  next
    case False
    obtain st1 where st1: "free_listener l st = Inr st1" "lsn_inv st1 (remove1 l xs)" "\<forall>b. b \<noteq> l \<longrightarrow> listeners st1 b = listeners st b"
      by (rule free_listener_ok [OF Cons.prems(1), of l]) (use Cons.prems(2) in auto)
    have sub: "set ls \<subseteq> set (remove1 l xs)" "distinct ls" "l \<notin> set ls" using Cons.prems d by auto
    have "filter (\<lambda>b. b \<in> set ls \<longrightarrow> is_special (the (listeners st1 b))) (remove1 l xs) =
        filter (\<lambda>b. b \<in> set (l # ls) \<longrightarrow> is_special (the (listeners st b))) xs"
      unfolding distinct_remove1_removeAll [OF d] removeAll_filter_not_eq filter_filter
      using st1(3) x False by (intro filter_cong) auto
    then show ?thesis
      using Cons.IH [OF st1(2) sub(1,2)] st1(1,3) x False d by (fastforce simp: listener_disconnect_def)
  qed
qed auto

section \<open>The refinement\<close>

datatype forward_op = Install addr string string addr bool | Remove string | Remove_all

datatype forward_reply = Status install_status | Code int | Nothing

fun forward_step :: "fdenv \<Rightarrow> (string \<Rightarrow> int) \<Rightarrow> forward_op \<Rightarrow> 'z lsnst_scheme \<Rightarrow> (forward_reply \<times> 'z lsnst_scheme) outcome option" where
  "forward_step env sfd (Install new name target t no_rebind) st =
     map_option (\<lambda>r. bindE r (\<lambda>(c, st). Inr (Status c, st))) (install_listener env sfd new name target t no_rebind st)"
| "forward_step env sfd (Remove name) st = map_option (\<lambda>r. bindE r (\<lambda>(c, st). Inr (Code c, st))) (remove_listener name st)"
| "forward_step env sfd Remove_all st = map_option (\<lambda>r. bindE r (\<lambda>st. Inr (Nothing, st))) (remove_all_listeners st)"

fun forward_spec_step :: "(string \<Rightarrow> int) \<Rightarrow> forward_op \<Rightarrow> forwards \<Rightarrow> forward_reply \<times> forwards" where
  "forward_spec_step sfd (Install new name target t no_rebind) tab =
     (case forwards_install (sfd name) name target t no_rebind tab of (c, tab) \<Rightarrow> (Status c, tab))"
| "forward_spec_step sfd (Remove name) tab = (case forwards_remove name tab of (c, tab) \<Rightarrow> (Code c, tab))"
| "forward_spec_step sfd Remove_all tab = (Nothing, forwards_clear tab)"

fun allocates :: "(string \<Rightarrow> int) \<Rightarrow> forward_op \<Rightarrow> 'z lsnst_scheme \<Rightarrow> bool" where
  "allocates sfd (Install new name target t no_rebind) st = listenable new (sfd name) st"
| "allocates sfd op st = True"

lemma install_refines:
  assumes inv: "lsn_inv st xs" and env: "env_ok env" and new: "listenable new (sfd name) st"
  shows "\<exists>st'. install_listener env sfd new name target t no_rebind st =
      Some (Inr (fst (forwards_install (sfd name) name target t no_rebind (forwards_of st)), st')) \<and>
    lsn_ok st' \<and> forwards_of st' = snd (forwards_install (sfd name) name target t no_rebind (forwards_of st))"
  using lookup [OF inv, of name]
proof
  assume l: "find_name name st xs = Inr NULL \<and> map_of (forwards_of st) name = None \<and> (\<forall>l\<in>set xs. local_name (the (listeners st l)) \<noteq> name)"
  show ?thesis
  proof (cases "0 \<le> sfd name")
    case True
    obtain st' where "new_listener env sfd new name target t st = Inr (INSTALL_STATUS_OK, st')" "lsn_ok st'"
      "forwards_of st' = forwards_of st @ [(name, target, t)]" using new_listener_ok [where sfd = sfd and name = name, OF inv env new _ True] l by blast
    then show ?thesis using l True lsn_nodes [OF inv] by (auto simp: install_listener_def forwards_install_def)
  next
    case False
    then show ?thesis using l inv new lsn_nodes [OF inv]
      by (auto simp: install_listener_def forwards_install_def new_listener_def listenable_def lsn_ok_def)
  qed
next
  assume "\<exists>l x. find_name name st xs = Inr l \<and> l \<noteq> NULL \<and> l \<in> set xs \<and> listeners st l = Some x \<and> local_name x = name \<and>
    map_of (forwards_of st) name = Some (connect_to x, l_transport x)"
  then obtain l x where l: "find_name name st xs = Inr l" "l \<noteq> NULL" "l \<in> set xs" "listeners st l = Some x" "local_name x = name"
    "map_of (forwards_of st) name = Some (connect_to x, l_transport x)" by blast
  have sp: "special (connect_to x, l_transport x) = is_special x" using special_entry [of x] by (simp add: entry_def)
  obtain st' where "rebind_listener l target t st = Inr st'" "lsn_inv st' xs" "forwards_of st' = AList.update (local_name x) (target, t) (forwards_of st)"
    by (rule rebind_listener_ok [OF inv l(3,4)])
  then show ?thesis using l sp inv lsn_nodes [OF inv] by (auto simp: install_listener_def forwards_install_def lsn_ok_def)
qed

lemma remove_refines:
  assumes inv: "lsn_inv st xs"
  shows "\<exists>st'. remove_listener name st = Some (Inr (fst (forwards_remove name (forwards_of st)), st')) \<and>
    lsn_ok st' \<and> forwards_of st' = snd (forwards_remove name (forwards_of st))"
  using lookup [OF inv, of name]
proof
  assume "find_name name st xs = Inr NULL \<and> map_of (forwards_of st) name = None \<and> (\<forall>l\<in>set xs. local_name (the (listeners st l)) \<noteq> name)"
  then show ?thesis using inv lsn_nodes [OF inv] by (auto simp: remove_listener_def forwards_remove_def lsn_ok_def)
next
  assume "\<exists>l x. find_name name st xs = Inr l \<and> l \<noteq> NULL \<and> l \<in> set xs \<and> listeners st l = Some x \<and> local_name x = name \<and>
    map_of (forwards_of st) name = Some (connect_to x, l_transport x)"
  then obtain l x where l: "find_name name st xs = Inr l" "l \<noteq> NULL" "l \<in> set xs" "listeners st l = Some x" "local_name x = name"
    "map_of (forwards_of st) name = Some (connect_to x, l_transport x)" by blast
  obtain st' where "free_listener l st = Inr st'" "lsn_inv st' (remove1 l xs)"
    "forwards_of st' = AList.delete (local_name (the (listeners st l))) (forwards_of st)" by (rule free_listener_ok [OF inv l(3)]) blast
  then show ?thesis using l lsn_nodes [OF inv] by (auto simp: remove_listener_def forwards_remove_def lsn_ok_def listener_disconnect_def)
qed

lemma remove_all_refines:
  assumes inv: "lsn_inv st xs"
  shows "\<exists>st'. remove_all_listeners st = Some (Inr st') \<and> lsn_ok st' \<and> forwards_of st' = forwards_clear (forwards_of st)"
proof -
  have d: "distinct xs" using inv ring_distinct unfolding lsn_inv_def by blast
  let ?P = "\<lambda>l. is_special (the (listeners st l))"
  have "filter (\<lambda>l. l \<in> set xs \<longrightarrow> ?P l) xs = filter ?P xs" by (intro filter_cong) auto
  then obtain st' where st': "remove_listeners xs st = Inr st'" "lsn_inv st' (filter ?P xs)" "\<forall>l\<in>set xs. ?P l \<longrightarrow> listeners st' l = listeners st l"
    using remove_listeners_ok [OF inv subset_refl d] by auto
  have "forwards_of st' = map (\<lambda>l. entry (the (listeners st l))) (filter ?P xs)"
    unfolding forwards_eq [OF st'(2)] using st'(3) by (intro map_cong) auto
  also have "\<dots> = forwards_clear (forwards_of st)"
    unfolding forwards_eq [OF inv] forwards_clear_def by (simp add: filter_map comp_def split_def special_entry)
  finally show ?thesis using st' lsn_nodes [OF inv] by (auto simp: remove_all_listeners_def lsn_ok_def)
qed

text \<open>
  C5: The listeners implement a table from local names to targets and devices: installing, removing and clearing, on the heap of
  linked listeners with their event objects, never fault, keep the structure and do to it exactly what the operations on the table do, with the same replies.
\<close>

theorem listeners_refine_forwards:
  assumes "lsn_ok st" and "env_ok env" and "allocates sfd op st"
  shows "\<exists>st'. forward_step env sfd op st = Some (Inr (fst (forward_spec_step sfd op (forwards_of st)), st')) \<and>
    lsn_ok st' \<and> forwards_of st' = snd (forward_spec_step sfd op (forwards_of st))"
proof -
  obtain xs where inv: "lsn_inv st xs" using assms(1) by (auto simp: lsn_ok_def)
  show ?thesis
  proof (cases op)
    case (Install new name target t no_rebind)
    then show ?thesis using install_refines [OF inv assms(2), of new sfd name target t no_rebind] assms(3) by (auto simp: split_def)
  next
    case (Remove name)
    then show ?thesis using remove_refines [OF inv, of name] by (auto simp: split_def)
  next
    case Remove_all
    then show ?thesis using remove_all_refines [OF inv] by auto
  qed
qed

definition quiet_listeners :: lsnst where
  "quiet_listeners = sockst.extend pair_sample (lsnst.fields Map.empty (list_init listener_list \<lparr>nxt = (\<lambda>_. 0), prv = (\<lambda>_. 0)\<rparr>))"

lemma quiet_listeners_ok: "lsn_inv quiet_listeners []"
proof -
  have "fd_ok quiet_listeners = fd_ok pair_sample"
    by (rule fd_ok_cong) (simp add: quiet_listeners_def sockst.defs lsnst.defs fdstate.defs)
  then show ?thesis
    using pair_fd_ok by (simp add: lsn_inv_def) (simp add: quiet_listeners_def sockst.defs lsnst.defs ring_list_init)
qed

theorem listeners_refine_forwards_witness:
  "\<exists>st'. forward_step env32 (\<lambda>_. 7) (Install 20 ''tcp:8000'' ''tcp:80'' 30 False) quiet_listeners = Some (Inr (Status INSTALL_STATUS_OK, st')) \<and>
    lsn_ok st' \<and> forwards_of st' = [(''tcp:8000'', ''tcp:80'', 30)]"
proof -
  have "lsn_ok quiet_listeners" using quiet_listeners_ok by (auto simp: lsn_ok_def)
  moreover have "env_ok env32" by (simp add: env_ok_def env32_def)
  moreover have "allocates (\<lambda>_. 7) (Install 20 ''tcp:8000'' ''tcp:80'' 30 False) quiet_listeners"
    by (auto simp: listenable_def listener_list_def list_pending_def installable_def quiet_listeners_def pair_sample_def sockst.defs lsnst.defs
        split: if_splits)
  moreover have "forwards_of quiet_listeners = []" by (simp add: forwards_eq [OF quiet_listeners_ok])
  ultimately show ?thesis
    using listeners_refine_forwards [of quiet_listeners env32 "\<lambda>_. 7" "Install 20 ''tcp:8000'' ''tcp:80'' 30 False"] by (simp add: forwards_install_def)
qed

end
