(* ===== verification/Smart_Props.thy ===== *)
theory Smart_Props
  imports Smart Transports_Props Listeners_Props
begin

text \<open>
  Requests to the server: a request is understood however its bytes arrive, and the list of forwards fits the buffer that was measured for it.
  The listeners' list and the names in it stay well-formed.
\<close>

section \<open>Hexadecimal lengths\<close>

lemma hex_value_digit: "k < 16 \<Longrightarrow> hex_value (hex_digit k) = Some k"
proof -
  have "\<forall>k\<in>set [0..<16]. hex_value (hex_digit k) = Some k" by code_simp
  then show "k < 16 \<Longrightarrow> hex_value (hex_digit k) = Some k" by simp
qed

lemma shift_or: "v < 16 \<Longrightarrow> push_bit 4 w OR word_of_nat v = (w * 16 + word_of_nat v :: u32)"
proof -
  assume v: "v < 16"
  then have "take_bit 4 (word_of_nat v) = (word_of_nat v :: u32)"
    unfolding take_bit_of_nat by (simp add: take_bit_nat_eq_self)
  moreover have "push_bit 4 w AND take_bit 4 (word_of_nat v) = (0 :: u32)"
    by (intro bit_eqI) (auto simp: bit_and_iff bit_push_bit_iff bit_take_bit_iff)
  ultimately have "push_bit 4 w AND word_of_nat v = (0 :: u32)" by simp
  then show ?thesis by (simp add: disjunctive_add_eq_or [symmetric] push_bit_eq_mult mult.commute)
qed

lemma unhex_fmt:
  assumes "n < 65536" "take 4 bs = fmt_04x n"
  shows "unhex bs 4 = word_of_nat n"
proof -
  let ?a = "n div 4096" and ?b = "n div 256 mod 16" and ?c = "n div 16 mod 16" and ?d = "n mod 16"
  have lt: "?a < 16" "?b < 16" "?c < 16" "?d < 16" using assms(1) by auto
  have e: "n div 16 div 16 = n div 256" "n div 256 div 16 = n div 4096" by (simp_all add: div_mult2_eq [symmetric])
  have "n = 16 * (n div 16) + ?d" "n div 16 = 16 * (n div 256) + ?c" "n div 256 = 16 * ?a + ?b"
    using mult_div_mod_eq [of 16 n] mult_div_mod_eq [of 16 "n div 16"] mult_div_mod_eq [of 16 "n div 256"] unfolding e by simp_all
  then have n: "n = ?a * 4096 + ?b * 256 + ?c * 16 + ?d" by linarith
  have "unhex bs 4 = unhex_loop [hex_digit ?a, hex_digit ?b, hex_digit ?c, hex_digit ?d] 0"
    by (simp only: unhex_def assms(2) fmt_04x_nibbles [OF assms(1)])
  also have "\<dots> = ((word_of_nat ?a * 16 + word_of_nat ?b) * 16 + word_of_nat ?c) * 16 + word_of_nat ?d"
    by (simp add: hex_value_digit lt shift_or)
  also have "\<dots> = word_of_nat (?a * 4096 + ?b * 256 + ?c * 16 + ?d)"
    by (simp add: algebra_simps del: mod_mult_self1 mod_mult_self2)
  finally show ?thesis using n by simp
qed

section \<open>Requests in pieces\<close>

text \<open>A packet that carries the bytes \<open>bs\<close> in its payload buffer.\<close>

definition carries :: "apacket \<Rightarrow> byte list \<Rightarrow> bool" where
  "carries p bs \<longleftrightarrow> length bs \<le> MAX_PAYLOAD \<and> plen p = of_nat (length bs) \<and> take (length bs) (pdata p) = bs \<and> length (pdata p) = MAX_PAYLOAD"

text \<open>The packets of a client given to its smart socket, one after another.\<close>

fun feed :: "'z tregst_scheme hostenv \<Rightarrow> addr \<Rightarrow> apacket list \<Rightarrow> 'z tregst_scheme \<Rightarrow> (int \<times> 'z tregst_scheme) outcome option" where
  "feed env a [] st = Some (Inr (0, st))"
| "feed env a [p] st = smart_socket_enqueue env a p st"
| "feed env a (p # q # ps) st = bindO (smart_socket_enqueue env a p st) (\<lambda>(_, st). feed env a (q # ps) st)"

lemma payload_word: "n \<le> MAX_PAYLOAD \<Longrightarrow> unat (word_of_nat n :: u32) = n"
  by (simp add: MAX_PAYLOAD_def unsigned_of_nat take_bit_nat_eq_self)

lemma gather_carries:
  assumes "s_pkts s = [] \<and> pre = [] \<or> (\<exists>p0. s_pkts s = [p0] \<and> carries p0 pre)" "carries p bs" "length (pre @ bs) \<le> MAX_PAYLOAD"
  shows "\<exists>p'. gather s p = Some p' \<and> carries p' (pre @ bs)"
proof (cases "s_pkts s")
  case Nil
  then show ?thesis using assms by (auto simp: gather_def)
next
  case (Cons p0 r)
  then have p0: "carries p0 pre" "s_pkts s = [p0]" using assms(1) by auto
  have l: "plen p0 + plen p = word_of_nat (length pre + length bs)" using p0 assms(2) by (simp add: carries_def)
  have u: "unat (word_of_nat (length pre + length bs) :: u32) = length pre + length bs" "unat (plen p0) = length pre" "unat (plen p) = length bs"
    using payload_word p0 assms(2,3) by (auto simp: carries_def simp del: of_nat_add)
  have "\<not> plen p0 + plen p > word_of_nat MAX_PAYLOAD"
    using u(1) assms(3) payload_word [of MAX_PAYLOAD] unfolding l by (simp add: word_less_nat_alt del: of_nat_add)
  then show ?thesis
    using p0 assms(2,3) u l by (simp add: gather_def carries_def Let_def)
qed

lemma enqueue_step:
  assumes s: "socks st a = Some s" "s_pkts s = [] \<and> pre = [] \<or> (\<exists>p0. s_pkts s = [p0] \<and> carries p0 pre)" and p: "carries p bs"
    and req: "1 \<le> length req" "length req \<le> 1024" "CHR 0x00 \<notin> set req" and m: "pre @ bs @ rest = fmt_04x (length req) @ req"
  shows "\<exists>p'. carries p' (pre @ bs) \<and> smart_socket_enqueue env a p st =
    (if rest = [] then smart_request env a req (set_sock a (s\<lparr>s_pkts := [p'\<lparr>pdata := (pdata p')[length req + 4 := CHR 0x00]\<rparr>]\<rparr>) st)
     else Some (Inr (0, set_sock a (s\<lparr>s_pkts := [p']\<rparr>) st)))"
proof -
  have len: "length (pre @ bs @ rest) = 4 + length req" using m req(2) by (simp add: length_fmt_04x)
  then obtain p' where p': "gather s p = Some p'" "carries p' (pre @ bs)"
    using gather_carries [OF s(2) p] req(2) by (auto simp: MAX_PAYLOAD_def)
  let ?k = "length (pre @ bs)"
  have k: "plen p' = word_of_nat ?k" "take ?k (pdata p') = pre @ bs" "length (pdata p') = MAX_PAYLOAD" "?k \<le> MAX_PAYLOAD" using p'(2) by (auto simp: carries_def)
  have pl: "plen p' < 4 \<longleftrightarrow> ?k < 4" using payload_word [OF k(4)] unfolding k(1) by (simp add: word_less_nat_alt del: of_nat_add)
  have u1: "upd_sock a (\<lambda>s. s\<lparr>s_pkts := [p']\<rparr>) st = Inr (set_sock a (s\<lparr>s_pkts := [p']\<rparr>) st)" using s(1) by (simp add: upd_sock_def)
  have start: "smart_socket_enqueue env a p st =
      (let st1 = set_sock a (s\<lparr>s_pkts := [p']\<rparr>) st; len = unhex (pdata p') 4; n = unat len in
       if ?k < 4 then Some (Inr (0, st1))
       else if len < 1 \<or> len > 1024 then fail_smart a st1
       else if len + 4 > plen p' then Some (Inr (0, st1))
       else if length (pdata p') \<le> n + 4 then Some (Inl (Bad_access ''payload''))
       else bindO (Some (upd_sock a (\<lambda>s. s\<lparr>s_pkts := [p'\<lparr>pdata := (pdata p')[n + 4 := CHR 0x00]\<rparr>]\<rparr>) st1)) (\<lambda>st.
              smart_request env a (cstring (drop 4 ((pdata p')[n + 4 := CHR 0x00]))) st))"
    using s(1) p'(1) u1 pl by (simp add: smart_socket_enqueue_def bindO_def Let_def)
  show ?thesis
  proof (cases "?k < 4")
    case True
    then have "rest \<noteq> []" using len req(1) by auto
    then show ?thesis using start True p'(2) by auto
  next
    case False
    let ?L = "length req"
    have "take 4 (pdata p') = take 4 (take ?k (pdata p'))" using False by simp
    also have "\<dots> = take 4 (pre @ bs @ rest)" unfolding k(2) using False by simp
    finally have h: "take 4 (pdata p') = fmt_04x ?L" using m req(2) by (simp add: length_fmt_04x)
    have x: "unhex (pdata p') 4 = word_of_nat ?L" by (rule unhex_fmt [OF _ h]) (use req(2) in simp)
    have ul: "unat (word_of_nat ?L :: u32) = ?L" "unat (word_of_nat (?L + 4) :: u32) = ?L + 4"
      using req(2) by (auto simp: unsigned_of_nat take_bit_nat_eq_self simp del: of_nat_add)
    have c1: "\<not> (word_of_nat ?L < (1 :: u32) \<or> word_of_nat ?L > (1024 :: u32))" using ul(1) req(1,2) by (auto simp: word_less_nat_alt)
    have "word_of_nat ?L + 4 = (word_of_nat (?L + 4) :: u32)" by simp
    then have c2: "word_of_nat ?L + 4 > plen p' \<longleftrightarrow> ?L + 4 > ?k"
      using ul(2) payload_word [OF k(4)] unfolding k(1) by (simp add: word_less_nat_alt del: of_nat_add)
    show ?thesis
    proof (cases "rest = []")
      case False
      then have "?L + 4 > ?k" using len by (cases rest) auto
      then show ?thesis using start \<open>\<not> ?k < 4\<close> c1 c2 x p'(2) False by (auto simp: Let_def)
    next
      case True
      then have kk: "?k = ?L + 4" using len by simp
      let ?d = "(pdata p')[?L + 4 := CHR 0x00]"
      have c3: "\<not> length (pdata p') \<le> ?L + 4" using k(3) req(2) by (simp add: MAX_PAYLOAD_def)
      have "drop 4 ?d = req @ CHR 0x00 # drop (?L + 5) (pdata p')"
      proof -
        have "take (?L + 4) (pdata p') = fmt_04x ?L @ req" using k(2) kk True m by simp
        then have "?d = (fmt_04x ?L @ req) @ CHR 0x00 # drop (?L + 5) (pdata p')"
          using c3 by (simp add: upd_conv_take_nth_drop add.commute)
        then show ?thesis using req(2) by (simp add: length_fmt_04x)
      qed
      then have "cstring (drop 4 ?d) = req" unfolding cstring_def by (simp only:) (subst takeWhile_append2, use req(3) in auto)
      moreover have "upd_sock a (\<lambda>s. s\<lparr>s_pkts := [p'\<lparr>pdata := ?d\<rparr>]\<rparr>) (set_sock a (s\<lparr>s_pkts := [p']\<rparr>) st) =
          Inr (set_sock a (s\<lparr>s_pkts := [p'\<lparr>pdata := ?d\<rparr>]\<rparr>) st)" by (simp add: upd_sock_def set_sock_def)
      ultimately show ?thesis
        using start \<open>\<not> ?k < 4\<close> c1 c2 c3 x p'(2) True kk ul(1) by (auto simp: Let_def bindO_def)
    qed
  qed
qed

lemma feed_request:
  assumes "socks st a = Some s" "s_pkts s = [] \<and> pre = [] \<or> (\<exists>p0. s_pkts s = [p0] \<and> carries p0 pre)" "list_all2 carries ps bss" "bss \<noteq> []"
    "last bss \<noteq> []" "1 \<le> length req" "length req \<le> 1024" "CHR 0x00 \<notin> set req" "pre @ concat bss = fmt_04x (length req) @ req"
  shows "\<exists>p. feed env a ps st = smart_request env a req (set_sock a (s\<lparr>s_pkts := [p]\<rparr>) st)"
  using assms
proof (induction ps arbitrary: bss st s pre)
  case (Cons p ps)
  then obtain bs rest where b: "bss = bs # rest" "carries p bs" "list_all2 carries ps rest" by (cases bss) auto
  obtain p' where p': "carries p' (pre @ bs)" "smart_socket_enqueue env a p st =
      (if concat rest = [] then smart_request env a req (set_sock a (s\<lparr>s_pkts := [p'\<lparr>pdata := (pdata p')[length req + 4 := CHR 0x00]\<rparr>]\<rparr>) st)
       else Some (Inr (0, set_sock a (s\<lparr>s_pkts := [p']\<rparr>) st)))"
    using enqueue_step [OF Cons.prems(1,2) b(2) Cons.prems(6-8), of "concat rest"] Cons.prems(9) b(1) by auto
  show ?case
  proof (cases ps)
    case Nil
    then show ?thesis using p' b(3) by auto
  next
    case (Cons q qs)
    then have ne: "rest \<noteq> []" "concat rest \<noteq> []" using b Cons.prems(5) by (auto split: if_splits)
    define s1 where "s1 = s\<lparr>s_pkts := [p']\<rparr>"
    have "smart_socket_enqueue env a p st = Some (Inr (0, set_sock a s1 st))" using p'(2) unfolding if_not_P [OF ne(2)] s1_def .
    then have "feed env a (p # ps) st = feed env a ps (set_sock a s1 st)" using Cons by (simp add: bindO_def)
    moreover have "\<exists>p. feed env a ps (set_sock a s1 st) = smart_request env a req (set_sock a (s1\<lparr>s_pkts := [p]\<rparr>) (set_sock a s1 st))"
      by (rule Cons.IH [of "set_sock a s1 st" s1 "pre @ bs" rest])
        (use Cons.prems b p'(1) ne in \<open>auto simp: set_sock_def s1_def\<close>)
    ultimately show ?thesis by (auto simp: set_sock_def s1_def)
  qed
qed auto

text \<open>
  C27: A client's request, its length in four hexadecimal digits and up to 1024 characters, is understood however the stream cuts it into
  packets: the smart socket waits until it is complete and then answers exactly that request, with the client's socket
  and the rest of the state as they were.
\<close>

theorem smart_socket_reassembles:
  assumes "socks st a = Some s" and "s_pkts s = []" and "1 \<le> length req" and "length req \<le> 1024" and "CHR 0x00 \<notin> set req"
    and "list_all2 carries ps bss" and "concat bss = fmt_04x (length req) @ req" and "last bss \<noteq> []"
  shows "\<exists>p. feed env a ps st = smart_request env a req (set_sock a (s\<lparr>s_pkts := [p]\<rparr>) st)"
proof -
  have "bss \<noteq> []" using assms(3,7) by auto
  then show ?thesis using feed_request [OF assms(1), of "[]" ps bss req env] assms(2-8) by simp
qed

definition smart_sample :: tregst where
  "smart_sample = set_sock 12 (blank_socket\<lparr>s_enqueue := Smart_socket_enqueue, s_close := Smart_socket_close, s_peer := 10\<rparr>) one_transport"

definition piece :: "byte list \<Rightarrow> apacket" where
  "piece bs = \<lparr>pmsg = zero_msg, pdata = bs @ replicate (MAX_PAYLOAD - length bs) CHR ''x'', plen = of_nat (length bs), pptr = 0\<rparr>"

lemma piece_carries: "length bs \<le> MAX_PAYLOAD \<Longrightarrow> carries (piece bs) bs"
  by (simp add: carries_def piece_def)

definition sample_hostenv :: "tregst hostenv" where
  "sample_hostenv = \<lparr>henv = sample_env\<lparr>HOST := True\<rparr>, server_fd = (\<lambda>_. 3), connect_fd = (\<lambda>_. - 1), host_service = (\<lambda>_ _ st. Inr (0, st))\<rparr>"

theorem smart_socket_reassembles_witness:
  "\<exists>p. feed sample_hostenv 12 [piece ''00'', piece ''0chost:'', piece ''version''] smart_sample =
     smart_request sample_hostenv 12 ''host:version''
       (set_sock 12 (blank_socket\<lparr>s_enqueue := Smart_socket_enqueue, s_close := Smart_socket_close, s_peer := 10, s_pkts := [p]\<rparr>) smart_sample)"
proof -
  let ?s = "blank_socket\<lparr>s_enqueue := Smart_socket_enqueue, s_close := Smart_socket_close, s_peer := 10\<rparr>"
  have s: "socks smart_sample 12 = Some ?s" "s_pkts ?s = []" by (simp_all add: smart_sample_def set_sock_def blank_socket_def)
  have "length ''host:version'' = 12" by simp
  then have f: "fmt_04x (length ''host:version'') = ''000c''" by (simp only:) (simp add: fmt_04x_nibbles hex_digit_def)
  have c: "list_all2 carries [piece ''00'', piece ''0chost:'', piece ''version''] [''00'', ''0chost:'', ''version'']"
    by (simp add: piece_carries MAX_PAYLOAD_def)
  have "concat [''00'', ''0chost:'', ''version''] = fmt_04x (length ''host:version'') @ ''host:version''" unfolding f by simp
  then have "\<exists>p. feed sample_hostenv 12 [piece ''00'', piece ''0chost:'', piece ''version''] smart_sample =
     smart_request sample_hostenv 12 ''host:version'' (set_sock 12 (?s\<lparr>s_pkts := [p]\<rparr>) smart_sample)"
    by (intro smart_socket_reassembles [OF s _ _ _ c]) simp_all
  then show ?thesis by (simp del: feed.simps)
qed

section \<open>The list of forwards\<close>

text \<open>Every listener that is shown belongs to a transport with a serial number.\<close>

definition listable :: "'z tregst_scheme \<Rightarrow> addr \<Rightarrow> bool" where
  "listable st l \<longleftrightarrow>
     (\<exists>x. listeners st l = Some x \<and> (is_special x \<or> (\<exists>r s. regs st (l_transport x) = Some r \<and> serial r = Some s)))"

definition forward_line :: "'z tregst_scheme \<Rightarrow> addr \<Rightarrow> string" where
  "forward_line st l =
     (let x = the (listeners st l) in
      if is_special x then []
      else the (serial (the (regs st (l_transport x)))) @ '' '' @ local_name x @ '' '' @ connect_to x @ [CHR 0x0A])"

lemma listable_line:
  assumes "listable st l" "listeners st l = Some x" "\<not> is_special x"
  shows "listener_line x st = Inr (forward_line st l)" "forward_line st l \<noteq> []"
  using assms by (auto simp: listable_def listener_line_def forward_line_def)

lemma format_loop_measure:
  "\<forall>l\<in>set ls. listable st l \<Longrightarrow> format_loop ls None n st = Inr (n + length (concat (map (forward_line st) ls)), None)"
proof (induction ls arbitrary: n)
  case (Cons l ls)
  then obtain x where x: "listeners st l = Some x" by (auto simp: listable_def)
  show ?case
  proof (cases "is_special x")
    case True
    then show ?thesis using Cons x by (simp add: forward_line_def)
  next
    case False
    then have "listener_line x st = Inr (forward_line st l)" using listable_line [of st l x] Cons.prems x by simp
    then show ?thesis using Cons x False by (simp add: format_listener_def add.assoc)
  qed
qed simp

lemma size_word: "n < 2 ^ 32 \<Longrightarrow> unat (word_of_nat n :: u32) = n"
  by (simp add: unsigned_of_nat take_bit_nat_eq_self)

lemma format_loop_writes:
  assumes "\<forall>l\<in>set ls. listable st l" "length buf < 2 ^ 32" "unat room = length buf - p" "p + length (concat (map (forward_line st) ls)) < length buf"
  shows "\<exists>buf'. format_loop ls (Some (buf, p, room)) n st = Inr (n + length (concat (map (forward_line st) ls)), Some buf') \<and> length buf' = length buf \<and>
    take (p + length (concat (map (forward_line st) ls))) buf' = take p buf @ concat (map (forward_line st) ls)"
  using assms
proof (induction ls arbitrary: n buf p room)
  case (Cons l ls)
  then obtain x where x: "listeners st l = Some x" by (auto simp: listable_def)
  show ?case
  proof (cases "is_special x")
    case True
    then have "forward_line st l = []" using x by (simp add: forward_line_def)
    then show ?thesis using Cons.IH [of buf room p n] Cons.prems True x by simp
  next
    case False
    define ln where "ln = forward_line st l"
    then have ln: "listener_line x st = Inr ln" using listable_line [of st l x] Cons.prems x False by simp
    have lt: "p + length ln + length (concat (map (forward_line st) ls)) < length buf" using Cons.prems(4) by (simp add: ln_def)
    obtain b1 where b1: "snprintf p room ln buf = Inr (of_nat (length ln), b1)" "length b1 = length buf" "take (p + length ln) b1 = take p buf @ ln"
      using snprintf_fits [of p buf room ln] Cons.prems(3) lt by auto
    have "unat (word_of_nat (length ln) :: u32) = length ln" by (rule size_word) (use lt Cons.prems(2) in linarith)
    then have room: "unat (room - of_nat (length ln)) = length b1 - (p + length ln)"
      using Cons.prems(3) lt b1(2) by (simp add: unat_sub word_le_nat_alt)
    then have nz: "room - of_nat (length ln) \<noteq> 0" using lt b1(2) by auto
    have "\<exists>buf'. format_loop ls (Some (b1, p + length ln, room - of_nat (length ln))) (n + length ln) st =
        Inr (n + length ln + length (concat (map (forward_line st) ls)), Some buf') \<and> length buf' = length b1 \<and>
        take (p + length ln + length (concat (map (forward_line st) ls))) buf' = take (p + length ln) b1 @ concat (map (forward_line st) ls)"
      by (rule Cons.IH) (use Cons.prems room lt b1(2) in simp_all)
    then show ?thesis
      using x False ln b1 nz by (auto simp: format_listener_def Let_def add.assoc simp flip: ln_def)
  qed
qed simp

text \<open>
  C36: \<open>list-forward\<close> answers with exactly the lines of the forwards, in the order of the list and without the server's own listener:
  the buffer that was measured in the first pass over the list holds what the second pass writes, which never leaves it.
\<close>

theorem list_forward_fits:
  assumes "lsn_inv st xs" and "\<forall>l\<in>set xs. listable st l" and "length (concat (map (forward_line st) xs)) + 1 < 2 ^ 32"
  shows "request_list_forward reply_fd st = Some (Inr (0, send_msg_with_okay reply_fd (concat (map (forward_line st) xs)) st))"
proof -
  let ?t = "concat (map (forward_line st) xs)"
  let ?n = "length ?t"
  note r = lsn_nodes [OF assms(1)]
  have "unat (word_of_nat (?n + 1) :: u32) = ?n + 1" by (rule size_word [OF assms(3)])
  then obtain buf where b: "format_loop xs (Some (replicate (?n + 1) CHR 0x00, 0, of_nat (?n + 1))) 0 st = Inr (?n, Some buf)" "take ?n buf = ?t"
    using format_loop_writes [OF assms(2), of "replicate (?n + 1) CHR 0x00" "of_nat (?n + 1)" 0 0] assms(3) by auto
  have "format_listeners None st = Some (Inr (?n, None))" using format_loop_measure [OF assms(2), of 0] by (simp add: format_listeners_def r)
  moreover have "format_listeners (Some (replicate (?n + 1) CHR 0x00, of_nat (?n + 1))) st = Some (Inr (?n, Some buf))"
    using b(1) by (simp add: format_listeners_def r del: replicate_Suc of_nat_Suc)
  ultimately show ?thesis using b(2) by (simp add: request_list_forward_def bindO_def del: replicate_Suc of_nat_Suc of_nat_add)
qed

definition forward_sample :: tregst where
  "forward_sample = one_transport
     \<lparr>socks := Map.empty, llinks := link_listener 11 (link_listener 10 (list_init listener_list \<lparr>nxt = (\<lambda>_. 0), prv = (\<lambda>_. 0)\<rparr>)),
      listeners := [10 \<mapsto> \<lparr>l_fd = 1, local_name = ''tcp:5037'', connect_to = ''*smartsocket*'', l_transport = 0\<rparr>,
                    11 \<mapsto> \<lparr>l_fd = 2, local_name = ''tcp:8000'', connect_to = ''tcp:80'', l_transport = 30\<rparr>]\<rparr>"

theorem list_forward_fits_witness:
  "request_list_forward 5 forward_sample = Some (Inr (0, send_msg_with_okay 5 (''emu tcp:8000 tcp:80'' @ [CHR 0x0A]) forward_sample))"
proof -
  have f: "fdstate.truncate forward_sample = fdstate.truncate pair_sample" "fdes forward_sample = [10 \<mapsto> fde_for 1 10, 11 \<mapsto> fde_for 2 11]"
    by (simp_all add: forward_sample_def one_transport_def no_transports_def device_sample_def adbst.defs tregst.defs fdstate.defs sockst.defs lsnst.defs)
      (simp add: pair_sample_def)
  have "ring (llinks forward_sample) listener_list [10, 11]"
    by (simp add: forward_sample_def ring_def link_listener_def Let_def list_init_def listener_list_def)
  then have "lsn_inv forward_sample [10, 11]"
    using pair_fd_ok fd_ok_cong [OF f(1)] by (simp add: lsn_inv_def attended_def f(2)) (simp add: forward_sample_def)
  moreover have "\<forall>l\<in>set [10, 11]. listable forward_sample l"
    by (simp add: listable_def forward_sample_def is_special_def one_transport_def emu_reg_def)
  moreover have "concat (map (forward_line forward_sample) [10, 11]) = ''emu tcp:8000 tcp:80'' @ [CHR 0x0A]"
    by (simp add: forward_line_def forward_sample_def is_special_def one_transport_def emu_reg_def)
  ultimately show ?thesis using list_forward_fits [of forward_sample "[10, 11]" 5] by simp
qed

end
