(* ===== verification/Adb_Client_Props.thy ===== *)
theory Adb_Client_Props
  imports Adb_Client Smart_Props
begin

text \<open>
  The client of the server: it reads what the server writes, request by request, and closes what it opened.
\<close>

section \<open>Numbers in four digits\<close>

text \<open>
  The contract of both sides of a connection: how they read a length back that was printed with \<open>%04x\<close>, and what follows of it for a text behind
  its length.
\<close>

definition hex_frame :: "string \<Rightarrow> byte list" where
  "hex_frame s = fmt_04x (length s) @ s"

locale hex_length =
  fixes value_of :: "byte list \<Rightarrow> nat"
  assumes value_fmt: "n < 65536 \<Longrightarrow> value_of (fmt_04x n) = n"
begin

lemma frame_length: "length s < 65536 \<Longrightarrow> value_of (take 4 (hex_frame s @ rest)) = length s"
  by (simp add: hex_frame_def length_fmt_04x value_fmt)

lemma frame_text: "length s < 65536 \<Longrightarrow> take (value_of (take 4 (hex_frame s @ rest))) (drop 4 (hex_frame s @ rest)) = s"
  by (simp add: hex_frame_def length_fmt_04x value_fmt)

end

definition client_length :: "byte list \<Rightarrow> nat" where
  "client_length b = unat (strtoul16 (cstring b))"

definition server_length :: "byte list \<Rightarrow> nat" where
  "server_length b = unat (unhex b 4)"

lemma digit_facts:
  assumes "k < 16"
  shows "hex_value (hex_digit k) = Some k" "\<not> is_space (hex_digit k)"
    "hex_digit k \<notin> {CHR ''-'', CHR ''+'', CHR ''x'', CHR ''X'', CHR 0x00}"
proof -
  have "\<forall>k\<in>set [0..<16]. hex_value (hex_digit k) = Some k \<and> \<not> is_space (hex_digit k) \<and>
      hex_digit k \<notin> {CHR ''-'', CHR ''+'', CHR ''x'', CHR ''X'', CHR 0x00}" by code_simp
  moreover have "k \<in> set [0..<16]" using assms by simp
  ultimately show "hex_value (hex_digit k) = Some k" "\<not> is_space (hex_digit k)"
    "hex_digit k \<notin> {CHR ''-'', CHR ''+'', CHR ''x'', CHR ''X'', CHR 0x00}" by blast+
qed

lemma hex4:
  assumes "n < 65536"
  obtains a b c d where "fmt_04x n = map hex_digit [a, b, c, d]" "a < 16" "b < 16" "c < 16" "d < 16" "n = ((a * 16 + b) * 16 + c) * 16 + d"
proof -
  have e: "n div 16 div 16 = n div 256" "n div 256 div 16 = n div 4096" by (simp_all add: div_mult2_eq [symmetric])
  have "n = n div 16 * 16 + n mod 16" "n div 16 = n div 256 * 16 + n div 16 mod 16" "n div 256 = n div 4096 * 16 + n div 256 mod 16"
    using div_mod_decomp [of n 16] div_mod_decomp [of "n div 16" 16] div_mod_decomp [of "n div 256" 16] by (simp_all only: e)
  then show thesis
    using that [of "n div 4096" "n div 256 mod 16" "n div 16 mod 16" "n mod 16"] fmt_04x_nibbles [OF assms] assms by simp
qed

lemma strtoul16_fmt:
  assumes "n < 65536"
  shows "strtoul16 (cstring (fmt_04x n)) = of_nat n"
proof -
  obtain a b c d where f: "fmt_04x n = map hex_digit [a, b, c, d]" and lt: "a < 16" "b < 16" "c < 16" "d < 16"
    and n: "n = ((a * 16 + b) * 16 + c) * 16 + d" by (rule hex4 [OF assms])
  note facts = lt [THEN digit_facts(1)] lt [THEN digit_facts(2)] lt [THEN digit_facts(3)]
  have "cstring (fmt_04x n) = map hex_digit [a, b, c, d]" using facts by (simp add: f cstring_def)
  moreover have "hex_digits (map hex_digit [a, b, c, d]) = n" using facts by (simp add: hex_digits_def n)
  ultimately show ?thesis using facts by (simp add: strtoul16_def split_sign_def skip_0x_def is_hex_def numeral_2_eq_2)
qed

interpretation client_side: hex_length client_length
  by unfold_locales (simp add: client_length_def strtoul16_fmt unsigned_of_nat take_bit_nat_eq_self)

interpretation server_side: hex_length server_length
proof
  fix n :: nat assume n: "n < 65536"
  then have "unhex (fmt_04x n) 4 = word_of_nat n" by (rule unhex_fmt) (simp add: length_fmt_04x n)
  then show "server_length (fmt_04x n) = n" using n by (simp add: server_length_def unsigned_of_nat take_bit_nat_eq_self)
qed

lemma scan_version: "scan_04x (fmt_04x 31 @ xs) = Inr (Some 31)"
proof -
  have "fmt_04x 31 = ''001f''" by (simp add: fmt_04x_nibbles hex_digit_def)
  then show ?thesis
    by (simp add: scan_04x_def is_space_def between_def split_sign_def skip_0x_def is_hex_def hex_value_def hex_digits_def numeral_eq_Suc)
qed

section \<open>Open connections\<close>

definition opened :: "'z clientst_scheme \<Rightarrow> int set" where
  "opened st = {fd. conn_ok fd st}"

lemma opened_simps [simp]:
  "opened (set_error msg st) = opened st" "opened (adb_sleep_ms n st) = opened st" "opened (snd (launch_server st)) = opened st"
  by (simp_all add: opened_def set_error_def adb_sleep_ms_def launch_server_def conn_ok_def)

lemma opened_upd:
  assumes "\<And>c. c_open (f c) = c_open c"
  shows "opened (upd_conn fd f st) = opened st"
  using assms by (auto simp: opened_def upd_conn_def conn_ok_def nth_list_update)

lemma opened_close [simp]: "opened (client_close fd st) = opened st - {fd}"
  by (auto simp: opened_def client_close_def upd_conn_def conn_ok_def nth_list_update nat_eq_iff split: if_splits)

lemma opened_io [simp]: "opened (snd (client_readx fd n st)) = opened st" "opened (snd (client_writex fd bs st)) = opened st"
  by (auto simp: client_readx_def client_writex_def Let_def opened_upd split: option.splits)

lemma opened_status [simp]: "opened (snd (adb_status fd st)) = opened st"
  by (simp add: adb_status_def split_beta split: option.split)

lemma opened_request [simp]:
  "opened (snd (request_and_status fd service st)) = (if fst (request_and_status fd service st) = 0 then opened st else opened st - {fd})"
  by (simp add: request_and_status_def write_request_def split_beta split: bool.split)

text \<open>\<open>leaves P r\<close>: when an operation returns, \<open>P\<close> holds of its result and the connections that are open.\<close>

definition leaves :: "('a \<Rightarrow> int set \<Rightarrow> bool) \<Rightarrow> ('a \<times> 'z clientst_scheme) outcome \<Rightarrow> bool" where
  "leaves P r = (case r of Inl f \<Rightarrow> True | Inr p \<Rightarrow> P (fst p) (opened (snd p)))"

lemma leaves_simps [simp]: "leaves P (Inl f)" "leaves P (Inr p) = P (fst p) (opened (snd p))"
  by (simp_all add: leaves_def)

lemma leaves_bind:
  "leaves P r \<Longrightarrow> (\<And>x st. P x (opened st) \<Longrightarrow> leaves Q (f (x, st))) \<Longrightarrow> leaves Q (bindE r f)"
  by (cases r) (auto simp: leaves_def)

lemma leavesD: "leaves P r \<Longrightarrow> r = Inr (x, st) \<Longrightarrow> P x (opened st)"
  by (simp add: leaves_def)

text \<open>A descriptor for a new connection, or a negative number and nothing opened.\<close>

definition new_fd :: "int set \<Rightarrow> int \<Rightarrow> int set \<Rightarrow> bool" where
  "new_fd fds fd fds' = (if fd < 0 then fds' = fds else fds' = insert fd fds \<and> fd \<notin> fds)"

lemma connect_new: "new_fd (opened st) (fst (client_connect st)) (opened (snd (client_connect st)))"
proof (cases "\<exists>bs n ds. c_dial st = Some (bs, n) # ds")
  case True
  then obtain bs n ds where d: "c_dial st = Some (bs, n) # ds" by blast
  let ?st' = "snd (client_connect st)" and ?fd = "int (length (c_conns st))"
  have c: "c_conns ?st' = c_conns st @ [\<lparr>c_inp = bs, c_outp = [], c_room = n, c_open = True\<rparr>]" and fd: "fst (client_connect st) = ?fd"
    by (simp_all add: client_connect_def Let_def d)
  have "x \<in> opened ?st' \<longleftrightarrow> x = ?fd \<or> x \<in> opened st" for x
    by (auto simp: opened_def conn_ok_def c nth_append less_Suc_eq)
  then have "opened ?st' = insert ?fd (opened st)" by blast
  moreover have "?fd \<notin> opened st" by (simp add: opened_def conn_ok_def)
  ultimately show ?thesis by (simp add: new_fd_def fd)
next
  case False
  then show ?thesis
    by (auto simp: client_connect_def Let_def opened_def conn_ok_def new_fd_def split: list.splits option.splits)
qed

lemma switch_leaves:
  "leaves (\<lambda>r fds. fds = (if r = 0 then opened st else opened st - {fd})) (switch_socket_transport fd st)"
  by (simp add: switch_socket_transport_def split: option.split)

lemma connect1_leaves: "leaves (new_fd (opened st)) (adb_connect1 service st)"
proof -
  let ?fd = "fst (client_connect st)" and ?st1 = "snd (client_connect st)"
  have neg: "new_fd F r F" if "r < 0" for F r using that by (simp add: new_fd_def)
  show ?thesis
  proof (cases "?fd < 0")
    case True
    then show ?thesis using connect_new [of st] by (simp add: adb_connect1_def split_beta new_fd_def)
  next
    case False
    then have o: "opened ?st1 = insert ?fd (opened st)" "?fd \<notin> opened st" using connect_new [of st] by (simp_all add: new_fd_def)
    then have d: "opened ?st1 - {?fd} = opened st" by simp
    have sw: "leaves (\<lambda>r fds. fds = (if r = 0 then opened ?st1 else opened st))
        (if take 4 service \<noteq> ''host'' then switch_socket_transport ?fd ?st1 else Inr (0, ?st1))"
      using switch_leaves [of ?st1 ?fd] unfolding d by simp
    have "leaves (new_fd (opened st)) (bindE (if take 4 service \<noteq> ''host'' then switch_socket_transport ?fd ?st1 else Inr (0, ?st1))
        (\<lambda>(r, st). if r \<noteq> 0 then Inr (- 1, st)
           else (case request_and_status ?fd service st of (r, st) \<Rightarrow> Inr (if r \<noteq> 0 then - 1 else ?fd, st))))"
      by (rule leaves_bind [OF sw]) (use False o d in \<open>simp add: split_beta new_fd_def\<close>)
    then show ?thesis using False by (simp add: adb_connect1_def split_beta neg)
  qed
qed

lemma version_leaves: "leaves (\<lambda>v fds. fds = opened st - {fd}) (read_version fd st)"
proof -
  have scan: "leaves Q (bindE r (\<lambda>v. Inr (v, s)))" if "\<And>v. Q v (opened s)" for Q r s using that by (cases r) simp_all
  show ?thesis by (simp add: read_version_def Let_def split_beta scan split: option.split)
qed

text \<open>A return value of \<open>adb_connect\<close> before the request: negative, and nothing opened.\<close>

definition settled :: "int set \<Rightarrow> int option \<Rightarrow> int set \<Rightarrow> bool" where
  "settled fds r fds' = (fds' = fds \<and> (\<forall>fd. r = Some fd \<longrightarrow> fd < 0))"

lemma start_settled: "settled (opened st) (fst (start_server st)) (opened (snd (start_server st)))"
  by (simp add: start_server_def split_beta settled_def)

lemma restart_settled: "leaves (settled (opened st)) (restart_server st)"
  unfolding restart_server_def
proof (rule leaves_bind [OF connect1_leaves])
  fix fd st1 assume n: "new_fd (opened st) fd (opened st1)"
  have "fd < 0 \<Longrightarrow> fd \<notin> opened st1" by (simp add: opened_def conn_ok_def)
  with n have "opened st1 - {fd} = opened st" by (auto simp: new_fd_def split: if_splits)
  then show "leaves (settled (opened st)) ((\<lambda>(fd, st). Inr (start_server (adb_sleep_ms 2000 (client_close fd st)))) (fd, st1))"
    using start_settled [of "adb_sleep_ms 2000 (client_close fd st1)"] by simp
qed

lemma judge_settled: "leaves (settled (opened st)) (judge_version fd (v, st))"
  using restart_settled [of st] by (simp add: judge_version_def settled_def split: option.split)

lemma check_settled: "leaves (settled (opened st)) (check_server st)"
  unfolding check_server_def
proof (rule leaves_bind [OF connect1_leaves])
  fix fd st1 assume n: "new_fd (opened st) fd (opened st1)"
  let ?r = "if fd \<ge> 0 then read_version fd st1 else Inr (Some (of_nat (ADB_SERVER_VERSION - 1)), st1)"
  have "leaves (\<lambda>v fds. fds = opened st) ?r"
  proof (cases "fd \<ge> 0")
    case True
    then have "opened st1 - {fd} = opened st" using n by (simp add: new_fd_def)
    with version_leaves [of st1 fd] True show ?thesis by simp
  qed (use n in \<open>simp add: new_fd_def\<close>)
  then have "leaves (settled (opened st)) (bindE ?r (judge_version fd))"
    by (rule leaves_bind) (metis judge_settled)
  then show "leaves (settled (opened st)) ((\<lambda>(fd, st).
       if fd = - 2 \<and> adb_server_name st \<noteq> None then Inr (Some fd, st)
       else if fd = - 2 then Inr (start_server st)
       else bindE (if fd \<ge> 0 then read_version fd st else Inr (Some (of_nat (ADB_SERVER_VERSION - 1)), st)) (judge_version fd)) (fd, st1))"
    using n start_settled [of st1] by (simp add: new_fd_def settled_def)
qed

lemma adb_connect_leaves:
  assumes "service \<noteq> ''host:start-server''"
  shows "leaves (new_fd (opened st)) (adb_connect service st)"
  unfolding adb_connect_def
proof (rule leaves_bind [OF check_settled])
  fix r st1 assume "settled (opened st) r (opened st1)"
  then have o: "opened st1 = opened st" "\<And>fd. r = Some fd \<Longrightarrow> fd < 0" by (simp_all add: settled_def)
  show "leaves (new_fd (opened st)) ((\<lambda>(r, st). case r of Some fd \<Rightarrow> Inr (fd, st)
      | None \<Rightarrow> if service = ''host:start-server'' then Inr (0, st) else adb_connect1 service st) (r, st1))"
    using o assms connect1_leaves [of st1 service] by (simp add: new_fd_def split: option.split)
qed

lemma query_leaves:
  assumes "service \<noteq> ''host:start-server''"
  shows "leaves (\<lambda>q fds. fds = opened st) (adb_query service st)"
  unfolding adb_query_def
  by (rule leaves_bind [OF adb_connect_leaves [OF assms]]) (auto simp: new_fd_def Let_def split_beta split: option.split)

lemma command_leaves:
  assumes "service \<noteq> ''host:start-server''"
  shows "leaves (\<lambda>r fds. if r = 0 then \<exists>fd. fd \<notin> opened st \<and> fds = insert fd (opened st) else fds = opened st) (adb_command service st)"
  unfolding adb_command_def
  by (rule leaves_bind [OF adb_connect_leaves [OF assms]]) (auto simp: new_fd_def split_beta)

text \<open>
  C22: whatever the server sends, when \<open>adb_query\<close> returns, the connections that are open are those that were open before: every attempt, with the query of the
  version, the change of the transport and the order to a server that is out of date to end, is closed on every path. \<open>adb_command\<close> closes its connections
  when it fails; when it succeeds, one stays open, whose descriptor is lost.
\<close>

theorem adb_client_closes:
  assumes "service \<noteq> ''host:start-server''" and "adb_query service st = Inr (q, st1)" and "adb_command service st = Inr (r, st2)"
  shows "opened st1 = opened st \<and>
    (if r = 0 then \<exists>fd. fd \<notin> opened st \<and> opened st2 = insert fd (opened st) else opened st2 = opened st)"
  using leavesD [OF query_leaves [OF assms(1)] assms(2)] leavesD [OF command_leaves [OF assms(1)] assms(3)] by simp

section \<open>A query\<close>

lemma length_hex_frame: "length s < 65536 \<Longrightarrow> length (hex_frame s) = 4 + length s"
  by (simp add: hex_frame_def length_fmt_04x)

text \<open>Operations on the newest connection.\<close>

lemma last_ok: "c_open c \<Longrightarrow> conn_ok (int (length cs)) (st\<lparr>c_conns := cs @ [c]\<rparr>)"
  by (simp add: conn_ok_def)

lemma upd_last: "c_open c \<Longrightarrow> upd_conn (int (length cs)) f (st\<lparr>c_conns := cs @ [c]\<rparr>) = st\<lparr>c_conns := cs @ [f c]\<rparr>"
  by (simp add: upd_conn_def last_ok)

lemma read_last:
  "c_open c \<Longrightarrow> c_inp c = as @ rest \<Longrightarrow> length as = n \<Longrightarrow>
   client_readx (int (length cs)) n (st\<lparr>c_conns := cs @ [c]\<rparr>) = (Some as, st\<lparr>c_conns := cs @ [c\<lparr>c_inp := rest\<rparr>]\<rparr>)"
  by (simp add: client_readx_def last_ok upd_last take_exact_def)

lemma write_last:
  "c_open c \<Longrightarrow> length bs \<le> c_room c \<Longrightarrow>
   client_writex (int (length cs)) bs (st\<lparr>c_conns := cs @ [c]\<rparr>) =
     (True, st\<lparr>c_conns := cs @ [c\<lparr>c_outp := c_outp c @ bs, c_room := c_room c - length bs\<rparr>]\<rparr>)"
  by (simp add: client_writex_def last_ok upd_last Let_def)

lemma close_last: "c_open c \<Longrightarrow> client_close (int (length cs)) (st\<lparr>c_conns := cs @ [c]\<rparr>) = st\<lparr>c_conns := cs @ [c\<lparr>c_open := False\<rparr>]\<rparr>"
  by (simp add: client_close_def upd_last)

text \<open>A connection on which a request was made: what is left of the answer, and of the room.\<close>

definition asked :: "string \<Rightarrow> byte list \<Rightarrow> nat \<Rightarrow> conn" where
  "asked service rest n = \<lparr>c_inp = rest, c_outp = hex_frame service, c_room = n - length (hex_frame service), c_open = True\<rparr>"

lemma request_last:
  assumes "length service < 65536" and "length (hex_frame service) \<le> n"
  shows "request_and_status (int (length cs)) service (st\<lparr>c_conns := cs @ [\<lparr>c_inp = ''OKAY'' @ rest, c_outp = [], c_room = n, c_open = True\<rparr>]\<rparr>) =
    (0, st\<lparr>c_conns := cs @ [asked service rest n]\<rparr>)"
proof -
  define c where "c = \<lparr>c_inp = ''OKAY'' @ rest, c_outp = [], c_room = n, c_open = True\<rparr>"
  define c1 where "c1 = c\<lparr>c_outp := fmt_04x (length service), c_room := n - 4\<rparr>"
  define c2 where "c2 = c\<lparr>c_outp := hex_frame service, c_room := n - length (hex_frame service)\<rparr>"
  have n: "4 \<le> n" "length service \<le> n - 4" "n - 4 - length service = n - length (hex_frame service)"
    using assms by (simp_all add: length_hex_frame)
  have w1: "client_writex (int (length cs)) (fmt_04x (length service)) (st\<lparr>c_conns := cs @ [c]\<rparr>) = (True, st\<lparr>c_conns := cs @ [c1]\<rparr>)"
    using n assms(1) by (subst write_last) (simp_all add: length_fmt_04x c_def c1_def)
  have w2: "client_writex (int (length cs)) service (st\<lparr>c_conns := cs @ [c1]\<rparr>) = (True, st\<lparr>c_conns := cs @ [c2]\<rparr>)"
    using n by (subst write_last) (simp_all add: hex_frame_def c_def c1_def c2_def)
  have r: "client_readx (int (length cs)) 4 (st\<lparr>c_conns := cs @ [c2]\<rparr>) = (Some ''OKAY'', st\<lparr>c_conns := cs @ [asked service rest n]\<rparr>)"
    by (subst read_last [of _ "''OKAY''" rest]) (simp_all add: asked_def c_def c2_def)
  show ?thesis unfolding c_def [symmetric] by (simp add: request_and_status_def write_request_def w1 w2 adb_status_def r)
qed

lemma connect1_last:
  assumes "c_dial st = Some (''OKAY'' @ rest, n) # ds" and "take 4 service = ''host''" and "length service \<le> 1024"
    and "length (hex_frame service) \<le> n"
  shows "adb_connect1 service st =
    Inr (int (length (c_conns st)),
         st\<lparr>c_log := c_log st @ [Dial (adb_server_name st) (adb_server_port st)], c_dial := ds, c_conns := c_conns st @ [asked service rest n]\<rparr>)"
proof -
  have "service \<noteq> []" using assms(2) by auto
  then show ?thesis
    using assms request_last [where cs = "c_conns st" and service = service and n = n and rest = rest
        and st = "st\<lparr>c_log := c_log st @ [Dial (adb_server_name st) (adb_server_port st)], c_dial := ds\<rparr>"]
    by (simp add: adb_connect1_def client_connect_def Let_def)
qed

text \<open>Reading a text behind its length.\<close>

lemma client_len: "n < 65536 \<Longrightarrow> unat (strtoul16 (cstring (fmt_04x n))) = n"
  using client_side.value_fmt [of n] by (simp add: client_length_def)

lemma read_frame_last:
  assumes "length msg < 65536" and "c_open c" and "c_inp c = hex_frame msg @ rest"
  shows "client_readx (int (length cs)) 4 (st\<lparr>c_conns := cs @ [c]\<rparr>) = (Some (fmt_04x (length msg)), st\<lparr>c_conns := cs @ [c\<lparr>c_inp := msg @ rest\<rparr>]\<rparr>)"
    and "client_readx (int (length cs)) (length msg) (st\<lparr>c_conns := cs @ [c\<lparr>c_inp := msg @ rest\<rparr>]\<rparr>) = (Some msg, st\<lparr>c_conns := cs @ [c\<lparr>c_inp := rest\<rparr>]\<rparr>)"
proof -
  show "client_readx (int (length cs)) 4 (st\<lparr>c_conns := cs @ [c]\<rparr>) = (Some (fmt_04x (length msg)), st\<lparr>c_conns := cs @ [c\<lparr>c_inp := msg @ rest\<rparr>]\<rparr>)"
    by (rule read_last) (use assms in \<open>simp_all add: hex_frame_def length_fmt_04x\<close>)
  show "client_readx (int (length cs)) (length msg) (st\<lparr>c_conns := cs @ [c\<lparr>c_inp := msg @ rest\<rparr>]\<rparr>) = (Some msg, st\<lparr>c_conns := cs @ [c\<lparr>c_inp := rest\<rparr>]\<rparr>)"
    by (subst read_last [of _ msg rest]) (use assms in simp_all)
qed

definition okay_message :: "string \<Rightarrow> byte list" where
  "okay_message msg = ''OKAY'' @ hex_frame msg"

definition finished :: "string \<Rightarrow> byte list \<Rightarrow> nat \<Rightarrow> conn" where
  "finished service rest n = (asked service rest n)\<lparr>c_open := False\<rparr>"

lemma close_asked:
  "client_close (int (length cs)) (st\<lparr>c_conns := cs @ [(asked service r n)\<lparr>c_inp := rest\<rparr>]\<rparr>) = st\<lparr>c_conns := cs @ [finished service rest n]\<rparr>"
  by (subst close_last) (simp_all add: finished_def asked_def)

lemma asked_open [simp]: "c_open (asked service rest n)" "c_inp (asked service rest n) = rest"
  by (simp_all add: asked_def)

lemma check_server_current:
  assumes "c_dial st = Some (okay_message (fmt_04x ADB_SERVER_VERSION) @ rest, n) # ds" and "16 \<le> n"
  shows "check_server st =
    Inr (None, st\<lparr>c_log := c_log st @ [Dial (adb_server_name st) (adb_server_port st)], c_dial := ds,
                  c_conns := c_conns st @ [finished ''host:version'' rest n]\<rparr>)"
proof -
  let ?v = "fmt_04x 31"
  let ?st = "st\<lparr>c_log := c_log st @ [Dial (adb_server_name st) (adb_server_port st)], c_dial := ds\<rparr>"
  let ?fd = "int (length (c_conns st))" and ?c = "asked ''host:version'' (hex_frame ?v @ rest) n"
  have "length (hex_frame ''host:version'') = 16" by (subst length_hex_frame) simp_all
  then have 1: "adb_connect1 ''host:version'' st = Inr (?fd, ?st\<lparr>c_conns := c_conns st @ [?c]\<rparr>)"
    using connect1_last [of st "hex_frame ?v @ rest" n ds "''host:version''"] assms by (simp add: okay_message_def ADB_SERVER_VERSION_def)
  have l: "length ?v = 4" by (simp add: length_fmt_04x)
  then have small: "length ?v < 65536" by simp
  have r1: "client_readx ?fd 4 (?st\<lparr>c_conns := c_conns st @ [?c]\<rparr>) = (Some (fmt_04x 4), ?st\<lparr>c_conns := c_conns st @ [?c\<lparr>c_inp := ?v @ rest\<rparr>]\<rparr>)"
    using read_frame_last(1) [OF small, of ?c rest] unfolding l by simp
  have r2: "client_readx ?fd 4 (?st\<lparr>c_conns := c_conns st @ [?c\<lparr>c_inp := ?v @ rest\<rparr>]\<rparr>) = (Some ?v, ?st\<lparr>c_conns := c_conns st @ [?c\<lparr>c_inp := rest\<rparr>]\<rparr>)"
    using read_frame_last(2) [OF small, of ?c rest] unfolding l by simp
  have "read_version ?fd (?st\<lparr>c_conns := c_conns st @ [?c]\<rparr>) = Inr (Some 31, ?st\<lparr>c_conns := c_conns st @ [finished ''host:version'' rest n]\<rparr>)"
    by (simp add: read_version_def r1 r2 client_len l scan_version close_asked)
  then show ?thesis by (simp add: check_server_def 1 judge_version_def ADB_SERVER_VERSION_def)
qed

lemma query_current:
  assumes "c_dial st = Some (okay_message (fmt_04x ADB_SERVER_VERSION), n1) # Some (okay_message msg, n2) # ds" and "16 \<le> n1"
    and "length (hex_frame service) \<le> n2" and "take 4 service = ''host''" and "length service \<le> 1024" and "length msg < 65535"
    and "service \<noteq> ''host:start-server''"
  shows "\<exists>st'. adb_query service st = Inr (Some msg, st') \<and>
    c_conns st' = c_conns st @ [finished ''host:version'' [] n1, finished service [] n2]"
proof -
  let ?dial = "[Dial (adb_server_name st) (adb_server_port st)]" and ?cs = "c_conns st @ [finished ''host:version'' [] n1]"
  define st1 where "st1 = st\<lparr>c_log := c_log st @ ?dial, c_dial := Some (okay_message msg, n2) # ds, c_conns := ?cs\<rparr>"
  define st2 where "st2 = st1\<lparr>c_log := c_log st1 @ ?dial, c_dial := ds\<rparr>"
  let ?fd = "int (length ?cs)" and ?c = "asked service (hex_frame msg @ []) n2"
  have 1: "check_server st = Inr (None, st1)"
    using check_server_current [of st "[]" n1] assms(1,2) by (simp add: st1_def)
  have "c_dial st1 = Some (''OKAY'' @ hex_frame msg @ [], n2) # ds" by (simp add: st1_def okay_message_def)
  from connect1_last [OF this assms(4,5,3)] have 2: "adb_connect1 service st1 = Inr (?fd, st2\<lparr>c_conns := ?cs @ [?c]\<rparr>)"
    by (simp add: st2_def) (simp add: st1_def)
  have small: "length msg < 65536" using assms(6) by simp
  have r1: "client_readx ?fd 4 (st2\<lparr>c_conns := ?cs @ [?c]\<rparr>) = (Some (fmt_04x (length msg)), st2\<lparr>c_conns := ?cs @ [?c\<lparr>c_inp := msg @ []\<rparr>]\<rparr>)"
    by (rule read_frame_last(1) [OF small]) simp_all
  have r2: "client_readx ?fd (length msg) (st2\<lparr>c_conns := ?cs @ [?c\<lparr>c_inp := msg @ []\<rparr>]\<rparr>) = (Some msg, st2\<lparr>c_conns := ?cs @ [?c\<lparr>c_inp := []\<rparr>]\<rparr>)"
    by (rule read_frame_last(2) [OF small]) simp_all
  have "adb_query service st = Inr (Some msg, st2\<lparr>c_conns := ?cs @ [finished service [] n2]\<rparr>)"
    using assms(6,7) r1 r2 close_asked [where cs = ?cs and st = st2 and service = service and r = "hex_frame msg @ []" and n = n2 and rest = "[]"]
    by (simp add: adb_query_def adb_connect_def 1 2 client_len [OF small])
  then show ?thesis by simp
qed

text \<open>A client whose server has the right version and answers the second request twice with \<open>OKAY\<close>.\<close>

definition okay_client :: clientst where
  "okay_client = \<lparr>adb_transport = KTransportAny, adb_serial = None, adb_server_port = 5037, adb_server_name = None, adb_error = [], c_conns = [],
     c_dial = [Some (okay_message (fmt_04x ADB_SERVER_VERSION), 100), Some (''OKAY'' @ ''OKAY'', 100)], c_launch = [], c_log = []\<rparr>"

theorem adb_client_closes_witness:
  "\<exists>st1 st2. adb_query ''host:devices'' okay_client = Inr (Some [], st1) \<and> adb_command ''host:devices'' okay_client = Inr (0, st2) \<and>
     opened st1 = opened okay_client \<and> (\<exists>fd. fd \<notin> opened okay_client \<and> opened st2 = insert fd (opened okay_client))"
proof -
  let ?cs = "[finished ''host:version'' [] 100]" and ?c = "asked ''host:devices'' ''OKAY'' 100"
  define st where "st = okay_client\<lparr>c_log := [Dial None 5037, Dial None 5037], c_dial := []\<rparr>"
  define st1 where "st1 = okay_client\<lparr>c_log := [Dial None 5037], c_dial := [Some (''OKAY'' @ ''OKAY'', 100)], c_conns := ?cs\<rparr>"
  have "check_server okay_client = Inr (None, st1)"
    using check_server_current [of okay_client "[]" 100] by (simp add: okay_client_def st1_def)
  moreover have "length (hex_frame ''host:devices'') \<le> 100" by (subst length_hex_frame) simp_all
  then have "adb_connect1 ''host:devices'' st1 = Inr (int (length ?cs), st\<lparr>c_conns := ?cs @ [?c]\<rparr>)"
    using connect1_last [of st1 "''OKAY''" 100 "[]" "''host:devices''"] by (simp add: st1_def st_def okay_client_def)
  ultimately have con: "adb_connect ''host:devices'' okay_client = Inr (int (length ?cs), st\<lparr>c_conns := ?cs @ [?c]\<rparr>)"
    by (simp add: adb_connect_def)
  have r: "client_readx (int (length ?cs)) 4 (st\<lparr>c_conns := ?cs @ [?c]\<rparr>) = (Some ''OKAY'', st\<lparr>c_conns := ?cs @ [?c\<lparr>c_inp := []\<rparr>]\<rparr>)"
    by (rule read_last) simp_all
  have z: "client_readx (int (length ?cs)) 0 (st\<lparr>c_conns := ?cs @ [?c\<lparr>c_inp := []\<rparr>]\<rparr>) = (Some [], st\<lparr>c_conns := ?cs @ [?c\<lparr>c_inp := [], c_inp := []\<rparr>]\<rparr>)"
    by (rule read_last) simp_all
  have "strtoul16 (cstring ''OKAY'') = 0" by code_simp
  then have 1: "\<exists>s. adb_query ''host:devices'' okay_client = Inr (Some [], s)" and 2: "\<exists>s. adb_command ''host:devices'' okay_client = Inr (0, s)"
    using r z by (simp_all add: adb_query_def adb_command_def con adb_status_def)
  then obtain s1 s2 where "adb_query ''host:devices'' okay_client = Inr (Some [], s1)" "adb_command ''host:devices'' okay_client = Inr (0, s2)" by blast
  with adb_client_closes [OF _ this] show ?thesis by simp
qed

text \<open>What the server writes.\<close>

lemma sock_writex_all:
  assumes "wr_script st fd = []"
  shows "wrote (snd (sock_writex fd bs st)) fd = wrote st fd @ bs \<and> wr_script (snd (sock_writex fd bs st)) fd = []"
proof -
  have "writex bs [Took (Suc (length bs))] = Some (True, bs, if bs = [] then [Took 1] else [])"
    by (cases bs) (simp_all add: writex_def)
  then show ?thesis using assms by (simp add: sock_writex_def)
qed

lemma send_msg_writes:
  assumes "wr_script st fd = []" and "length msg < 65536"
  shows "wrote (send_msg_with_okay fd msg st) fd = wrote st fd @ okay_message msg"
proof -
  have "min (length msg) 0xffff = length msg" using assms(2) by simp
  then show ?thesis
    using sock_writex_all [OF assms(1), of "''OKAY'' @ fmt_04x (length msg)"] assms(2)
      sock_writex_all [of "snd (sock_writex fd (''OKAY'' @ fmt_04x (length msg)) st)" fd msg]
    by (simp add: send_msg_with_okay_def okay_message_def hex_frame_def length_fmt_04x)
qed

text \<open>
  C10: a query end to end. The server answers the request for its version and a request \<open>srv\<close> to which it has the answer \<open>msg\<close>; the client, given exactly the bytes
  that the server wrote, returns \<open>msg\<close>. It has made two connections, written to each the length and the text of one request, read all of the answer,
  and closed both; the requests are the ones that the server takes for \<open>version\<close> and \<open>srv\<close>.
\<close>

theorem query_end_to_end:
  assumes "wr_script st1 fd1 = []" and "wr_script st2 fd2 = []"
    and "handle_host_request env srv KTransportAny None fd2 a st2 = Some (Inr (0, send_msg_with_okay fd2 msg st2))"
    and "length msg < 65535" and "length srv \<le> 1019" and "srv \<noteq> ''start-server''"
    and "c_dial c = Some (drop (length (wrote st1 fd1)) (wrote st1' fd1), n1) # Some (drop (length (wrote st2 fd2)) (wrote st2' fd2), n2) # ds"
    and "handle_host_request env ''version'' KTransportAny None fd1 a st1 = Some (Inr (0, st1'))"
    and "handle_host_request env srv KTransportAny None fd2 a st2 = Some (Inr (0, st2'))"
    and "16 \<le> n1" and "9 + length srv \<le> n2"
  shows "\<exists>c' v q. adb_query (''host:'' @ srv) c = Inr (Some msg, c') \<and> c_conns c' = c_conns c @ [v, q] \<and>
    c_outp v = hex_frame ''host:version'' \<and> c_outp q = hex_frame (''host:'' @ srv) \<and> c_inp v = [] \<and> c_inp q = [] \<and> \<not> c_open v \<and> \<not> c_open q \<and>
    host_prefix ''host:version'' = Some (''version'', KTransportAny, None) \<and> host_prefix (''host:'' @ srv) = Some (srv, KTransportAny, None) \<and>
    server_length (hex_frame (''host:'' @ srv)) = length (''host:'' @ srv)"
proof -
  have s1: "st1' = send_msg_with_okay fd1 (fmt_04x ADB_SERVER_VERSION) st1"
    using assms(8) by (simp add: handle_host_request_def has_prefix_def)
  have s2: "st2' = send_msg_with_okay fd2 msg st2" using assms(3,9) by simp
  have "length (fmt_04x ADB_SERVER_VERSION) < 65536" by (simp add: length_fmt_04x ADB_SERVER_VERSION_def)
  then have "c_dial c = Some (okay_message (fmt_04x ADB_SERVER_VERSION), n1) # Some (okay_message msg, n2) # ds"
    using assms(4,7) send_msg_writes [OF assms(1), of "fmt_04x ADB_SERVER_VERSION"] send_msg_writes [OF assms(2), of msg] by (simp add: s1 s2)
  moreover have "length (hex_frame (''host:'' @ srv)) \<le> n2" using assms(5,11) by (subst length_hex_frame) simp_all
  ultimately obtain c' where c': "adb_query (''host:'' @ srv) c = Inr (Some msg, c')"
    "c_conns c' = c_conns c @ [finished ''host:version'' [] n1, finished (''host:'' @ srv) [] n2]"
    using query_current [of c n1 msg n2 ds "''host:'' @ srv"] assms(4-6,10) by auto
  have "server_length (hex_frame (''host:'' @ srv)) = length (''host:'' @ srv)"
    using server_side.frame_length [of "''host:'' @ srv" "[]"] assms(5) by (simp add: server_length_def unhex_def)
  then show ?thesis
    using c' by (intro exI [of _ c'] exI [of _ "finished ''host:version'' [] n1"] exI [of _ "finished (''host:'' @ srv) [] n2"])
      (simp add: finished_def asked_def host_prefix_def has_prefix_def)
qed

theorem query_end_to_end_witness:
  "\<exists>c' v q. adb_query ''host:version'' (okay_client\<lparr>c_dial := [Some (okay_message (fmt_04x 31), 100), Some (okay_message (fmt_04x 31), 100)]\<rparr>) =
      Inr (Some (fmt_04x 31), c') \<and> c_conns c' = [v, q] \<and> \<not> c_open v \<and> \<not> c_open q"
proof -
  let ?st = "one_transport\<lparr>wr_script := (\<lambda>_. [])\<rparr>" and ?msg = "fmt_04x ADB_SERVER_VERSION"
  have w: "wr_script ?st 5 = []" by simp
  have h: "handle_host_request sample_hostenv ''version'' KTransportAny None 5 12 ?st = Some (Inr (0, send_msg_with_okay 5 ?msg ?st))"
    by (simp add: handle_host_request_def has_prefix_def)
  have l: "length ?msg = 4" by (simp add: length_fmt_04x ADB_SERVER_VERSION_def)
  have d: "drop (length (wrote ?st 5)) (wrote (send_msg_with_okay 5 ?msg ?st) 5) = okay_message ?msg"
    using send_msg_writes [OF w, of ?msg] l by simp
  let ?c = "okay_client\<lparr>c_dial := [Some (okay_message ?msg, 100), Some (okay_message ?msg, 100)]\<rparr>"
  have "\<exists>c' v q. adb_query (''host:'' @ ''version'') ?c = Inr (Some ?msg, c') \<and> c_conns c' = c_conns ?c @ [v, q] \<and>
    c_outp v = hex_frame ''host:version'' \<and> c_outp q = hex_frame (''host:'' @ ''version'') \<and> c_inp v = [] \<and> c_inp q = [] \<and> \<not> c_open v \<and> \<not> c_open q \<and>
    host_prefix ''host:version'' = Some (''version'', KTransportAny, None) \<and>
    host_prefix (''host:'' @ ''version'') = Some (''version'', KTransportAny, None) \<and>
    server_length (hex_frame (''host:'' @ ''version'')) = length (''host:'' @ ''version'')"
    by (rule query_end_to_end [OF w w h _ _ _ _ h h, where ds = "[]" and ?n1.0 = 100 and ?n2.0 = 100]) (simp_all add: d [simplified] l)
  then show ?thesis by (auto simp: ADB_SERVER_VERSION_def okay_client_def)
qed

end
