(* ===== verification/Jdwp_Inv.thy ===== *)
theory Jdwp_Inv
  imports Jdwp Sockets_Inv Adb_Client_Props
begin

text \<open>
  The invariant of the service for debuggable processes. It ties the list of processes to their event objects and the list of trackers to their
  remote peers, and it says that every tracker that was told a list was told the current one. Every operation keeps it.
\<close>

section \<open>The lists\<close>

lemma link_process_eq: "a \<noteq> jdwp_list \<Longrightarrow> prv h jdwp_list \<noteq> a \<Longrightarrow> link_process a h = list_add_tail jdwp_list a h"
  by (auto simp: link_process_def list_add_tail_def Let_def)

lemma link_tracker_ring:
  "ring h jdwp_trackers_list ts \<Longrightarrow> t \<notin> set (jdwp_trackers_list # ts) \<Longrightarrow> ring (link_tracker t h) jdwp_trackers_list (ts @ [t])"
proof -
  assume r: "ring h jdwp_trackers_list ts" and t: "t \<notin> set (jdwp_trackers_list # ts)"
  have "prv h jdwp_trackers_list \<in> set (jdwp_trackers_list # ts)" by (rule ring_prv_head [OF r])
  with t have "link_tracker t h = list_add_tail jdwp_trackers_list t h"
    by (auto simp: link_tracker_def list_add_tail_def Let_def set_nxt_def set_prv_def fun_upd_twist)
  then show ?thesis using ring_add_tail [OF r t] by simp
qed

lemma unlink_eq:
  assumes "ring h l xs" "x \<in> set xs"
  shows "unlink_process x h = set_prv (nxt h x) (prv h x) (set_nxt (prv h x) (nxt h x) h)"
    "unlink_tracker x h = set_prv (nxt h x) (prv h x) (set_nxt (prv h x) (nxt h x) h)"
  using ring_nxt_neq [OF assms] by (simp_all add: unlink_process_def unlink_tracker_def Let_def)

interpretation jp: ring_list jdwp_list link_process unlink_process
  by unfold_locales
     (metis link_process_eq list.set_intros(1) ring_add_tail ring_prv_head, simp add: unlink_eq ring_unlink)

interpretation jt: ring_list jdwp_trackers_list link_tracker unlink_tracker
  by unfold_locales (rule link_tracker_ring, assumption+, simp add: unlink_eq ring_unlink)

section \<open>The listing\<close>

definition pids :: "(addr \<Rightarrow> jdwp_process option) \<Rightarrow> addr list \<Rightarrow> int list" where
  "pids h ps = filter (\<lambda>pid. pid \<ge> 0) (map (\<lambda>a. j_pid (the (h a))) ps)"

definition pid_text :: "nat \<Rightarrow> int list \<Rightarrow> string" where
  "pid_text n qs = concat (fitting n (map pid_line qs))"

definition pid_msg :: "nat \<Rightarrow> int list \<Rightarrow> string" where
  "pid_msg n qs = fmt_04x (length (pid_text (n - 4) qs)) @ pid_text (n - 4) qs"

lemma process_loop_lines:
  "\<forall>a\<in>set ps. jprocs st a \<noteq> None \<Longrightarrow> process_loop st ps p buf = put_lines (map pid_line (pids (jprocs st) ps)) p buf"
proof (induction ps arbitrary: p buf)
  case (Cons a ps)
  then obtain x where "jprocs st a = Some x" by auto
  moreover have "process_loop st ps q b = put_lines (map pid_line (pids (jprocs st) ps)) q b" for q b using Cons by simp
  ultimately show ?case by (simp add: pids_def cong: if_cong)
qed (simp add: pids_def)

lemma length_fmt_nat: "length (fmt_nat n) \<le> Suc n"
proof (induction n rule: fmt_nat.induct)
  case (1 n)
  show ?case
  proof (cases "n < 10")
    case False
    then have "length (fmt_nat (n div 10)) \<le> Suc (n div 10)" using 1 by simp
    with False show ?thesis by (subst fmt_nat.simps) auto
  qed (subst fmt_nat.simps, simp)
qed

lemma length_pid_line: "0 \<le> pid \<Longrightarrow> pid < 65536 \<Longrightarrow> length (pid_line pid) < 2 ^ 30"
  using length_fmt_nat [of "nat pid"] by (simp add: pid_line_def fmt_d_def)

definition small_pids :: "int list \<Rightarrow> bool" where
  "small_pids qs \<longleftrightarrow> (\<forall>q\<in>set qs. 0 \<le> q \<and> q < 65536)"

lemma jdwp_process_list_text:
  assumes r: "ring (jlinks st) jdwp_list ps" and h: "\<forall>a\<in>set ps. jprocs st a \<noteq> None" "small_pids (pids (jprocs st) ps)"
    and b: "0 < length buf" "length buf < 2 ^ 30"
  shows "\<exists>buf'. jdwp_process_list buf st = Some (Inr (length (pid_text (length buf) (pids (jprocs st) ps)), buf')) \<and> length buf' = length buf \<and>
    length (pid_text (length buf) (pids (jprocs st) ps)) < length buf \<and>
    take (length (pid_text (length buf) (pids (jprocs st) ps))) buf' = pid_text (length buf) (pids (jprocs st) ps)"
proof -
  let ?ls = "map pid_line (pids (jprocs st) ps)" and ?t = "pid_text (length buf) (pids (jprocs st) ps)"
  have "length (pid_line q) < 2 ^ 30" if "q \<in> set (pids (jprocs st) ps)" for q
    using h(2) that length_pid_line unfolding small_pids_def by blast
  then have "\<forall>l\<in>set ?ls. length l < 2 ^ 30" by auto
  from put_lines_fitting [OF b this] obtain b1 where
    b1: "put_lines ?ls 0 buf = Inr (length ?t, b1)" "length b1 = length buf" "take (length ?t) b1 = ?t" by (auto simp: pid_text_def)
  have lt: "length ?t < length buf" unfolding pid_text_def by (rule length_fitting [OF b(1)])
  define b2 where "b2 = take (length ?t) b1 @ [CHR 0x00] @ drop (length ?t + 1) b1"
  have "write_at (length ?t) [CHR 0x00] b1 = Inr b2" using lt b1(2) by (simp add: write_at_def b2_def)
  then have "jdwp_process_list buf st = Some (Inr (length ?t, b2))"
    by (simp add: jdwp_process_list_def ring_nodes [OF r] process_loop_lines [OF h(1)] b1(1))
  moreover have "length b2 = length buf" "take (length ?t) b2 = ?t" using lt b1(2,3) by (simp_all add: b2_def)
  ultimately show ?thesis using lt by blast
qed

lemma jdwp_process_list_msg_text:
  assumes r: "ring (jlinks st) jdwp_list ps" and h: "\<forall>a\<in>set ps. jprocs st a \<noteq> None" "small_pids (pids (jprocs st) ps)"
    and b: "4 < length buf" "length buf < 65536"
  defines "m \<equiv> pid_msg (length buf) (pids (jprocs st) ps)"
  shows "\<exists>buf'. jdwp_process_list_msg buf st = Some (Inr (length m, buf')) \<and> length buf' = length buf \<and> length m < length buf \<and> take (length m) buf' = m"
proof -
  let ?t = "pid_text (length buf - 4) (pids (jprocs st) ps)"
  have "0 < length (drop 4 buf)" "length (drop 4 buf) < 2 ^ 30" using b by auto
  from jdwp_process_list_text [OF r h this] obtain b1 where
    b1: "jdwp_process_list (drop 4 buf) st = Some (Inr (length ?t, b1))" "length b1 = length buf - 4" "length ?t < length buf - 4"
      "take (length ?t) b1 = ?t" by auto
  have l4: "length (fmt_04x (length ?t)) = 4" by (rule length_fmt_04x) (use b1(3) b(2) in linarith)
  then have "jdwp_process_list_msg buf st = Some (Inr (length m, fmt_04x (length ?t) @ b1))" "length m = 4 + length ?t"
    by (simp_all add: jdwp_process_list_msg_def b1(1) bindO_def m_def pid_msg_def)
  moreover have "take (length m) (fmt_04x (length ?t) @ b1) = m" using l4 b1(4) by (simp add: m_def pid_msg_def)
  ultimately show ?thesis using b1(2,3) b(1) l4 by auto
qed

text \<open>When the whole text fits, it is all the numbers.\<close>

lemma pid_text_all: "length (concat (map pid_line qs)) < n \<Longrightarrow> pid_text n qs = concat (map pid_line qs)"
  by (simp add: pid_text_def fitting_all)

section \<open>The invariant\<close>

definition proc_ok :: "fdheap \<Rightarrow> addr \<Rightarrow> jdwp_process \<Rightarrow> bool" where
  "proc_ok fh a x \<longleftrightarrow>
     j_pid x < 65536 \<and> 0 \<le> j_socket x \<and> j_fde x \<noteq> NULL \<and> length (in_buff x) = 4 \<and> in_len x \<le> 4 \<and>
     length (out_fds x) = MAX_OUT_FDS \<and> out_count x \<le> MAX_OUT_FDS \<and>
     (\<exists>f. fh (j_fde x) = Some f \<and> active f \<and> fde_fd f = j_socket x \<and> fde_arg f = a \<and> bit (fde_state f) 10 \<and> bit (fde_state f) 7 \<and>
        bit (fde_state f) 0 \<and> bit (fde_state f) 1 = (0 < out_count x))"

definition procs_ok :: "(addr \<Rightarrow> jdwp_process option) \<Rightarrow> fdheap \<Rightarrow> links \<Rightarrow> addr list \<Rightarrow> bool" where
  "procs_ok h fh lk ps \<longleftrightarrow>
     ring lk jdwp_list ps \<and> (\<forall>a. a \<in> set ps \<longleftrightarrow> h a \<noteq> None) \<and> h NULL = None \<and> (\<forall>a x. h a = Some x \<longrightarrow> proc_ok fh a x)"

text \<open>A tracker and its peer, the remote socket of the stream; neither has an event object in use.\<close>

definition idle_fde :: "fdheap \<Rightarrow> addr \<Rightarrow> bool" where
  "idle_fde fh a \<longleftrightarrow> (\<forall>f. fh a = Some f \<longrightarrow> \<not> active f \<and> \<not> pending f)"

definition tracker_ok :: "sockheap \<Rightarrow> fdheap \<Rightarrow> addr \<Rightarrow> bool" where
  "tracker_ok sh fh t \<longleftrightarrow>
     (\<exists>s q. sh t = Some s \<and> s_close s = Jdwp_tracker_close \<and> s_peer s \<noteq> NULL \<and> s_peer s \<noteq> t \<and> sh (s_peer s) = Some q \<and>
        s_enqueue q = Remote_socket_enqueue \<and> s_close q = Remote_socket_close \<and> s_peer q = t \<and> s_transport q \<noteq> NULL \<and>
        idle_fde fh t \<and> idle_fde fh (s_peer s))"

definition trackers_ok :: "sockheap \<Rightarrow> fdheap \<Rightarrow> (addr \<Rightarrow> bool option) \<Rightarrow> links \<Rightarrow> addr list \<Rightarrow> bool" where
  "trackers_ok sh fh nu lk ts \<longleftrightarrow>
     ring lk jdwp_trackers_list ts \<and> (\<forall>t. t \<in> set ts \<longleftrightarrow> nu t \<noteq> None) \<and> NULL \<notin> set ts \<and> (\<forall>t\<in>set ts. tracker_ok sh fh t)"

definition jdwp_inv :: "'z jdwpst_scheme \<Rightarrow> addr list \<Rightarrow> addr list \<Rightarrow> bool" where
  "jdwp_inv st ps ts \<longleftrightarrow>
     procs_ok (jprocs st) (fdes st) (jlinks st) ps \<and> trackers_ok (socks st) (fdes st) (need_update st) (trlinks st) ts \<and>
     fd_ok st \<and> length (fresh_payload st) = MAX_PAYLOAD"

lemma small_pidsI: "procs_ok h fh lk ps \<Longrightarrow> small_pids (pids h ps)"
  by (auto simp: small_pids_def pids_def procs_ok_def proc_ok_def)

section \<open>Telling the trackers\<close>

definition wrte_packet :: "u32 \<Rightarrow> u32 \<Rightarrow> nat \<Rightarrow> byte list \<Rightarrow> apacket" where
  "wrte_packet lid rid n data =
     (text_packet n data)\<lparr>pmsg := \<lparr>command = A_WRTE, arg0 = lid, arg1 = rid, data_length = of_nat n,
        data_check = (\<Sum>c \<leftarrow> take n data. of_char c), magic = A_WRTE XOR 0xffffffff\<rparr>\<rparr>"

definition payload_of :: "apacket \<Rightarrow> byte list" where
  "payload_of p = take (unat (data_length (pmsg p))) (pdata p)"

definition told :: "sockheap \<Rightarrow> nat \<Rightarrow> byte list \<Rightarrow> addr \<Rightarrow> addr \<times> apacket" where
  "told sh n data t = (let s = the (sh t); q = the (sh (s_peer s)) in (s_transport q, wrte_packet (s_id s) (s_id q) n data))"

lemma payload_wrte: "n < 2 ^ 32 \<Longrightarrow> payload_of (wrte_packet l r n data) = take n data"
  by (simp add: payload_of_def wrte_packet_def text_packet_def get_apacket_def unsigned_of_nat take_bit_nat_eq_self)

lemma enqueue_told:
  assumes t: "tracker_ok (socks st) (fdes st) t" and s: "socks st t = Some s" and n: "n \<le> length data" "n < 2 ^ 32"
  shows "jdwp_enqueue (s_peer s) (text_packet n data) st = Inr (1, st\<lparr>sent := sent st @ [told (socks st) n data t]\<rparr>)"
proof -
  obtain q where q: "socks st (s_peer s) = Some q" "s_enqueue q = Remote_socket_enqueue" "s_peer q = t" "s_transport q \<noteq> NULL"
    using t s by (auto simp: tracker_ok_def)
  have u: "unat (word_of_nat n :: u32) = n" using n(2) by (simp add: unsigned_of_nat take_bit_nat_eq_self)
  show ?thesis
    using q s n(1) u by (simp add: jdwp_enqueue_def socket_enqueue_def remote_socket_enqueue_def send_packet_def seal_packet_def payload_sum_def
        text_packet_def get_apacket_def zero_msg_def told_def wrte_packet_def Let_def)
qed

lemma tell_tracker_told:
  assumes t: "tracker_ok (socks st) (fdes st) t" "need_update st t \<noteq> None" and m: "length msg \<le> length (fresh_payload st)" "length msg < 2 ^ 32"
  shows "tell_tracker msg t st =
    Inr (st\<lparr>sent := sent st @ [told (socks st) (length msg) (msg @ drop (length msg) (fresh_payload st)) t]\<rparr>)"
proof -
  obtain s where s: "socks st t = Some s" using t by (auto simp: tracker_ok_def)
  obtain b where b: "need_update st t = Some b" using t by auto
  show ?thesis
    using enqueue_told [OF t(1) s, of "length msg" "msg @ drop (length msg) (fresh_payload st)"] m
    by (simp add: tell_tracker_def s b write_at_def)
qed

lemma tell_trackers_told:
  assumes "\<forall>t\<in>set ts. tracker_ok (socks st) (fdes st) t \<and> need_update st t \<noteq> None" "seg (nxt (trlinks st)) (ts @ [jdwp_trackers_list])"
    "jdwp_trackers_list \<notin> set ts" and m: "length msg \<le> length (fresh_payload st)" "length msg < 2 ^ 32"
  shows "tell_trackers msg (hd (ts @ [jdwp_trackers_list])) st =
    Some (Inr (st\<lparr>sent := sent st @ map (told (socks st) (length msg) (msg @ drop (length msg) (fresh_payload st))) ts\<rparr>))"
  using assms
proof (induction ts arbitrary: st)
  case Nil
  then show ?case by (simp add: tell_trackers.simps)
next
  case (Cons t ts)
  let ?k = "told (socks st) (length msg) (msg @ drop (length msg) (fresh_payload st))"
  let ?st = "st\<lparr>sent := sent st @ [?k t]\<rparr>"
  have "tell_tracker msg t st = Inr ?st" using Cons.prems by (intro tell_tracker_told) auto
  moreover have "nxt (trlinks st) t = hd (ts @ [jdwp_trackers_list])" using Cons.prems(2) by (cases ts) auto
  moreover have "seg (nxt (trlinks st)) (ts @ [jdwp_trackers_list])" using Cons.prems(2) by (cases ts) auto
  then have "tell_trackers msg (hd (ts @ [jdwp_trackers_list])) ?st = Some (Inr (?st\<lparr>sent := sent ?st @ map ?k ts\<rparr>))"
    using Cons.IH [of ?st] Cons.prems by simp
  ultimately show ?case using Cons.prems(3) by (subst tell_trackers.simps) simp
qed

definition broadcast :: "int list \<Rightarrow> addr list \<Rightarrow> 'z jdwpst_scheme \<Rightarrow> 'z jdwpst_scheme" where
  "broadcast qs ts st =
     (let msg = pid_msg 1024 qs in
      st\<lparr>sent := sent st @ map (told (socks st) (length msg) (msg @ drop (length msg) (fresh_payload st))) ts\<rparr>)"

lemma list_updated_broadcast:
  assumes inv: "jdwp_inv st ps ts"
  shows "jdwp_process_list_updated st = Some (Inr (broadcast (pids (jprocs st) ps) ts st))"
proof -
  let ?m = "pid_msg 1024 (pids (jprocs st) ps)"
  have p: "ring (jlinks st) jdwp_list ps" "\<forall>a\<in>set ps. jprocs st a \<noteq> None" "small_pids (pids (jprocs st) ps)"
    and t: "ring (trlinks st) jdwp_trackers_list ts" "\<forall>t\<in>set ts. tracker_ok (socks st) (fdes st) t \<and> need_update st t \<noteq> None"
    using inv small_pidsI by (auto simp: jdwp_inv_def procs_ok_def trackers_ok_def)
  obtain b where b: "jdwp_process_list_msg (replicate 1024 CHR 0x00) st = Some (Inr (length ?m, b))" "length ?m < 1024" "take (length ?m) b = ?m"
    using jdwp_process_list_msg_text [OF p, of "replicate 1024 CHR 0x00"] by auto
  have seg: "seg (nxt (trlinks st)) (ts @ [jdwp_trackers_list])" "jdwp_trackers_list \<notin> set ts" "nxt (trlinks st) jdwp_trackers_list = hd (ts @ [jdwp_trackers_list])"
    using t(1) by (cases ts; auto simp: ring_def)+
  have "length ?m \<le> length (fresh_payload st)" using b(2) inv by (simp add: jdwp_inv_def MAX_PAYLOAD_def)
  then show ?thesis
    using tell_trackers_told [OF t(2) seg(1,2), of ?m] b seg(3)
    by (simp add: jdwp_process_list_updated_def bindO_def broadcast_def Let_def)
qed

lemma broadcast_fields [simp]:
  "jprocs (broadcast qs ts st) = jprocs st" "jlinks (broadcast qs ts st) = jlinks st" "fdes (broadcast qs ts st) = fdes st"
  "socks (broadcast qs ts st) = socks st" "need_update (broadcast qs ts st) = need_update st" "trlinks (broadcast qs ts st) = trlinks st"
  "fresh_payload (broadcast qs ts st) = fresh_payload st" "fd_ok (broadcast qs ts st) = fd_ok st"
  "closed_fds (broadcast qs ts st) = closed_fds st" "passed (broadcast qs ts st) = passed st"
  by (simp_all add: broadcast_def Let_def fd_ok_def fd_inv_def)

lemma broadcast_inv [simp]: "jdwp_inv (broadcast qs ts st) ps us = jdwp_inv st ps us"
  by (simp add: jdwp_inv_def)

section \<open>What the trackers heard\<close>

definition stream_msgs :: "(addr \<times> apacket) list \<Rightarrow> addr \<Rightarrow> u32 \<Rightarrow> u32 \<Rightarrow> byte list list" where
  "stream_msgs ms tr l r =
     map (\<lambda>(t, p). payload_of p) (filter (\<lambda>(t, p). t = tr \<and> command (pmsg p) = A_WRTE \<and> arg0 (pmsg p) = l \<and> arg1 (pmsg p) = r) ms)"

definition heard_by :: "sockheap \<Rightarrow> (addr \<times> apacket) list \<Rightarrow> addr \<Rightarrow> byte list list" where
  "heard_by sh ms t = (let s = the (sh t); q = the (sh (s_peer s)) in stream_msgs ms (s_transport q) (s_id s) (s_id q))"

text \<open>The last message on the stream of every tracker that was told a list is the current list, as far as it fits.\<close>

definition last_is :: "byte list set \<Rightarrow> byte list list \<Rightarrow> bool" where
  "last_is M ms \<longleftrightarrow> ms \<noteq> [] \<and> last ms \<in> M"

definition lists_of :: "int list \<Rightarrow> byte list set" where
  "lists_of qs = {pid_msg 1024 qs, pid_msg MAX_PAYLOAD qs}"

definition current :: "'z jdwpst_scheme \<Rightarrow> addr list \<Rightarrow> addr list \<Rightarrow> bool" where
  "current st ps ts \<longleftrightarrow>
     (\<forall>t\<in>set ts. need_update st t = Some False \<longrightarrow> last_is (lists_of (pids (jprocs st) ps)) (heard_by (socks st) (sent st) t))"

lemma last_is_append: "last_is M xs \<Longrightarrow> set ys \<subseteq> M \<Longrightarrow> last_is M (xs @ ys)"
  by (cases ys rule: rev_cases) (auto simp: last_is_def)

lemma last_is_new: "ys \<noteq> [] \<Longrightarrow> set ys \<subseteq> M \<Longrightarrow> last_is M (xs @ ys)"
  by (cases ys rule: rev_cases) (auto simp: last_is_def)

lemma stream_msgs_append [simp]: "stream_msgs (xs @ ys) tr l r = stream_msgs xs tr l r @ stream_msgs ys tr l r"
  by (simp add: stream_msgs_def)

lemma heard_append [simp]: "heard_by sh (xs @ ys) t = heard_by sh xs t @ heard_by sh ys t"
  by (simp add: heard_by_def Let_def)

lemma heard_told:
  assumes "n < 2 ^ 32"
  shows "set (heard_by sh (map (told sh n data) ts) t) \<subseteq> {take n data}"
    and "t \<in> set ts \<Longrightarrow> heard_by sh (map (told sh n data) ts) t \<noteq> []"
proof -
  have c: "snd (told sh n data u) = wrte_packet (s_id (the (sh u))) (s_id (the (sh (s_peer (the (sh u)))))) n data" for u
    by (simp add: told_def Let_def)
  show "set (heard_by sh (map (told sh n data) ts) t) \<subseteq> {take n data}"
    by (auto simp: heard_by_def stream_msgs_def Let_def told_def payload_wrte [OF assms])
  show "t \<in> set ts \<Longrightarrow> heard_by sh (map (told sh n data) ts) t \<noteq> []"
    by (auto simp: heard_by_def stream_msgs_def Let_def told_def wrte_packet_def filter_empty_conv)
qed

lemma length_pid_msg: "4 < n \<Longrightarrow> n < 65536 \<Longrightarrow> length (pid_msg n qs) < n"
proof -
  assume n: "4 < n" "n < 65536"
  have l: "length (pid_text (n - 4) qs) < n - 4" unfolding pid_text_def by (rule length_fitting) (use n in simp)
  then have "length (fmt_04x (length (pid_text (n - 4) qs))) = 4" by (intro length_fmt_04x) (use n in linarith)
  then show "length (pid_msg n qs) < n" using l by (simp add: pid_msg_def)
qed

lemma broadcast_current: "current (broadcast (pids (jprocs st) ps) ts st) ps ts"
proof -
  let ?m = "pid_msg 1024 (pids (jprocs st) ps)"
  let ?data = "?m @ drop (length ?m) (fresh_payload st)"
  have "length ?m < 2 ^ 32" using length_pid_msg [of 1024] by (rule less_trans) simp_all
  from heard_told [OF this, where sh = "socks st" and data = ?data and ts = ts] show ?thesis
    by (auto simp: current_def broadcast_def Let_def lists_of_def intro!: last_is_new)
qed

definition jdwp_good :: "'z jdwpst_scheme \<Rightarrow> addr list \<Rightarrow> addr list \<Rightarrow> bool" where
  "jdwp_good st ps ts \<longleftrightarrow> jdwp_inv st ps ts \<and> current st ps ts"

lemma updated_good:
  "jdwp_inv st ps ts \<Longrightarrow> \<exists>st'. jdwp_process_list_updated st = Some (Inr st') \<and> jdwp_good st' ps ts \<and> jprocs st' = jprocs st"
  by (simp add: list_updated_broadcast jdwp_good_def broadcast_current)

section \<open>Event objects of processes\<close>

lemma set_result_bits:
  "k < 8 \<Longrightarrow> bit (fde_state (set_result f (ev AND FDE_EVENTMASK))) k = bit ev k"
  "bit (fde_state (set_result f (ev AND FDE_EVENTMASK))) 10 = bit (fde_state f) 10"
  by (auto simp: set_result_def Let_def flag_simps)

lemma jdwp_more:
  assumes "fdstate.more st' = fdstate.more (st :: 'z jdwpst_scheme)"
  shows "jprocs st' = jprocs st" "jlinks st' = jlinks st" "need_update st' = need_update st" "trlinks st' = trlinks st"
    "socks st' = socks st" "sent st' = sent st" "fresh_payload st' = fresh_payload st" "alloc st' = alloc st"
  using assms by (cases st; cases st'; simp)+

lemma fd_flag:
  assumes inv: "fd_ok st" and f: "fdes st a = Some f" "active f" and ev: "ev = FDE_READ \<or> ev = FDE_WRITE"
  obtains st' f' where "(if b then fdevent_add else fdevent_del) a ev st = Inr st'" "fd_ok st'" "fdes st' = (fdes st)(a \<mapsto> f')" "active f'"
    "fde_fd f' = fde_fd f" "fde_arg f' = fde_arg f" "bit (fde_state f') 10 = bit (fde_state f) 10"
    "\<And>k. k \<in> {0, 1, 7} \<Longrightarrow> bit (fde_state f') k = (if bit ev k then b else bit (fde_state f) k)"
    "fdstate.more st' = fdstate.more st"
proof -
  obtain ps where ps: "fd_inv st ps" using inv by (auto simp: fd_ok_def)
  define e where "e = (if b then (fde_state f AND FDE_EVENTMASK) OR (ev AND FDE_EVENTMASK) else (fde_state f AND FDE_EVENTMASK) AND NOT (ev AND FDE_EVENTMASK))"
  have eq: "(if b then fdevent_add else fdevent_del) a ev st = fdevent_set a e st"
    by (simp add: e_def fdevent_add_set [of st a f, OF f(1)] fdevent_del_set [of st a f, OF f(1)])
  let ?f = "if fde_state f AND FDE_EVENTMASK = e AND FDE_EVENTMASK then f else set_result f (e AND FDE_EVENTMASK)"
  obtain st' qs where st': "fdevent_set a e st = Inr st'" "fd_inv st' qs" "fdes st' = (fdes st)(a \<mapsto> ?f)"
    by (rule fdevent_set_inv [OF ps f(1)])
  have be: "bit e k = (if bit ev k then b else bit (fde_state f) k)" if "k \<in> {0, 1, 7}" for k
    using that ev by (auto simp: e_def flag_simps)
  have "bit (fde_state ?f) k = bit e k" if "k \<in> {0, 1, 7}" for k
  proof (cases "fde_state f AND FDE_EVENTMASK = e AND FDE_EVENTMASK")
    case True
    then have "bit (fde_state f AND FDE_EVENTMASK) k = bit (e AND FDE_EVENTMASK) k" by (rule arg_cong)
    then have "bit (fde_state f) k = bit e k" using that by (auto simp: bit_and_iff mask_bits)
    then show ?thesis unfolding if_P [OF True] .
  next
    case False
    have "k < 8" using that by auto
    then show ?thesis unfolding if_not_P [OF False] by (rule set_result_bits(1))
  qed
  then have bits: "\<And>k. k \<in> {0, 1, 7} \<Longrightarrow> bit (fde_state ?f) k = (if bit ev k then b else bit (fde_state f) k)" using be by blast
  show thesis
    by (rule that [of st' ?f, OF _ _ st'(3) _ _ _ _ bits])
       (use st' eq f(2) in \<open>auto simp: fd_ok_def set_result_props set_result_bits intro: fdevent_more(2)\<close>)
qed

text \<open>A change of one process and of its event object.\<close>

lemma procs_ok_upd:
  assumes "procs_ok h fh lk ps" "h a = Some x" "proc_ok (fh(j_fde x \<mapsto> f')) a x'"
  shows "procs_ok (h(a \<mapsto> x')) (fh(j_fde x \<mapsto> f')) lk ps"
proof -
  have "proc_ok (fh(j_fde x \<mapsto> f')) b y" if "b \<noteq> a" "h b = Some y" for b y
  proof -
    have "proc_ok fh a x" "proc_ok fh b y" using assms(1,2) that by (auto simp: procs_ok_def)
    then have "j_fde y \<noteq> j_fde x" using that(1) by (auto simp: proc_ok_def)
    then show ?thesis using \<open>proc_ok fh b y\<close> by (simp add: proc_ok_def)
  qed
  moreover have "a \<noteq> NULL" using assms(1,2) unfolding procs_ok_def by (metis option.distinct(1))
  ultimately show ?thesis using assms by (auto simp: procs_ok_def split: if_splits)
qed

lemma trackers_ok_fde:
  assumes "trackers_ok sh fh nu lk ts" "fh a = Some f" "active f"
  shows "trackers_ok sh (fh(a := v)) nu lk ts"
proof -
  have "tracker_ok sh (fh(a := v)) t" if "tracker_ok sh fh t" for t
  proof -
    have i: "idle_fde (fh(a := v)) b" if "idle_fde fh b" for b using that assms(2,3) by (auto simp: idle_fde_def)
    show ?thesis using that i unfolding tracker_ok_def by blast
  qed
  then show ?thesis using assms(1) by (auto simp: trackers_ok_def)
qed

lemma procs_ok_same_fde: "procs_ok h fh lk ps \<Longrightarrow> h a = Some x \<Longrightarrow> proc_ok fh a x' \<Longrightarrow> j_fde x' = j_fde x \<Longrightarrow> procs_ok (h(a \<mapsto> x')) fh lk ps"
  unfolding procs_ok_def by (auto, metis bot_nat_0.not_eq_extremum option.distinct(1))

lemma pids_upd: "h a = Some x \<Longrightarrow> j_pid x' = j_pid x \<Longrightarrow> pids (h(a \<mapsto> x')) ps = pids h ps"
  unfolding pids_def by (rule arg_cong [of _ _ "filter _"]) auto

lemma pids_new: "a \<notin> set ps \<Longrightarrow> j_pid x < 0 \<Longrightarrow> pids (h(a \<mapsto> x)) (ps @ [a]) = pids h ps"
proof -
  assume a: "a \<notin> set ps" "j_pid x < 0"
  then have "map (\<lambda>b. j_pid (the ((h(a \<mapsto> x)) b))) ps = map (\<lambda>b. j_pid (the (h b))) ps" by (intro map_cong) auto
  with a(2) show ?thesis by (simp only: pids_def map_append filter_append) simp
qed

lemma current_upd: "current st ps ts \<Longrightarrow> jprocs st a = Some x \<Longrightarrow> j_pid x' = j_pid x \<Longrightarrow> current (set_proc a x' st) ps ts"
  by (auto simp: current_def set_proc_def pids_upd)

section \<open>Processes\<close>

lemma fold_close_fd: "fold close_fd fds st = st\<lparr>closed_fds := closed_fds st @ fds\<rparr>"
  by (induction fds arbitrary: st) (simp_all add: close_fd_def)

lemma procs_ok_remove:
  assumes p: "procs_ok h fh lk ps" and a: "h a = Some x"
  shows "procs_ok (h(a := None)) (fh(j_fde x := v)) (unlink_process a lk) (remove1 a ps)"
proof -
  have r: "ring lk jdwp_list ps" "a \<in> set ps" using p a by (auto simp: procs_ok_def)
  have "proc_ok (fh(j_fde x := v)) b y" if "b \<noteq> a" "h b = Some y" for b y
  proof -
    have ok: "proc_ok fh a x" "proc_ok fh b y" using p a that by (auto simp: procs_ok_def)
    then have "j_fde y \<noteq> j_fde x" using that(1) by (auto simp: proc_ok_def)
    then show ?thesis using ok(2) by (simp add: proc_ok_def)
  qed
  then show ?thesis
    using p a jp.del_ring [OF r] ring_distinct(1) [OF r(1)] unfolding procs_ok_def by (auto split: if_splits)
qed

lemma release_process_inv:
  assumes inv: "jdwp_inv st ps ts" and a: "jprocs st a = Some x"
  shows "\<exists>st'. release_process a st = Inr st' \<and> jdwp_inv st' (remove1 a ps) ts \<and> socks st' = socks st \<and>
    closed_fds st' = closed_fds st @ j_socket x # take (out_count x) (out_fds x)"
proof -
  have px: "proc_ok (fdes st) a x" and p: "procs_ok (jprocs st) (fdes st) (jlinks st) ps"
    and t: "trackers_ok (socks st) (fdes st) (need_update st) (trlinks st) ts"
    using inv a by (auto simp: jdwp_inv_def procs_ok_def)
  then obtain f where f: "fdes st (j_fde x) = Some f" "active f" "bit (fde_state f) 10" "bit (fde_state f) 7" by (auto simp: proc_ok_def)
  define st1 where "st1 = close_fd (j_socket x) (st\<lparr>jlinks := unlink_process a (jlinks st)\<rparr>)"
  have s1: "fdes st1 = fdes st" "jprocs st1 = jprocs st" "jlinks st1 = unlink_process a (jlinks st)" "need_update st1 = need_update st"
    "trlinks st1 = trlinks st" "socks st1 = socks st" "fresh_payload st1 = fresh_payload st" "closed_fds st1 = closed_fds st @ [j_socket x]"
    by (simp_all add: st1_def close_fd_def)
  obtain xs where "fd_inv st1 xs" using inv by (auto simp: jdwp_inv_def fd_ok_def fd_inv_def st1_def close_fd_def)
  then obtain st2 where st2: "fdevent_remove (j_fde x) st1 = Inr st2" "fd_inv st2 (remove1 (j_fde x) xs)"
    "fdes st2 = (fdes st1)(j_fde x \<mapsto> f\<lparr>fde_state := 0, fde_events := 0\<rparr>)" "closed_fds st2 = closed_fds st1"
    by (rule fdevent_remove_inv [where f = f and a = "j_fde x"]) (use f s1 in \<open>auto simp: has_flag\<close>)
  note m = jdwp_more [OF fdevent_more(1) [OF st2(1)]]
  define st3 where "st3 = (fold close_fd (take (out_count x) (out_fds x)) st2)\<lparr>jprocs := (jprocs st2)(a := None)\<rparr>"
  have d: "fdevent_destroy (j_fde x) st1 = Inr st2" using st2(1) f s1 px by (simp add: fdevent_destroy_def has_flag proc_ok_def)
  have "release_process a st = Inr st3"
    unfolding release_process_def deref_Some [of "jprocs st" a x, OF a] bindE_Inr Let_def
    using px d by (simp add: st1_def [symmetric] st3_def proc_ok_def)
  moreover have "fd_ok st3" using st2(2) by (auto simp: st3_def fold_close_fd fd_ok_def fd_inv_def)
  moreover have "procs_ok (jprocs st3) (fdes st3) (jlinks st3) (remove1 a ps)"
    using procs_ok_remove [OF p a] by (simp add: st3_def fold_close_fd m s1 st2(3))
  moreover have "trackers_ok (socks st3) (fdes st3) (need_update st3) (trlinks st3) ts"
    using trackers_ok_fde [OF t f(1,2)] by (simp add: st3_def fold_close_fd m s1 st2(3))
  ultimately show ?thesis using inv st2(4)
    by (intro exI [of _ st3]) (auto simp: jdwp_inv_def st3_def fold_close_fd m s1)
qed

lemma free_good:
  assumes "jdwp_inv st ps ts" "jprocs st a = Some x"
  shows "\<exists>st'. jdwp_process_free a st = Some (Inr st') \<and> jdwp_good st' (remove1 a ps) ts"
proof -
  obtain st1 where st1: "release_process a st = Inr st1" "jdwp_inv st1 (remove1 a ps) ts" using release_process_inv [OF assms] by blast
  have "a \<noteq> NULL" using assms unfolding jdwp_inv_def procs_ok_def by (metis option.distinct(1))
  then have "jdwp_process_free a st = jdwp_process_list_updated st1" using st1(1) by (simp add: jdwp_process_free_def bindO_def)
  then show ?thesis using updated_good [OF st1(2)] by auto
qed

lemma close_good:
  assumes "jdwp_inv st ps ts" "jprocs st a = Some x"
  shows "\<exists>st'. close_process a st = Some (Inr (True, st')) \<and> jdwp_good st' (remove1 a ps) ts"
  using free_good [OF assms] by (auto simp: close_process_def bindO_def)

lemma good_rd [simp]: "jdwp_good (st\<lparr>rd_script := rs\<rparr>) ps ts = jdwp_good st ps ts"
  by (simp add: jdwp_good_def jdwp_inv_def current_def fd_ok_def fd_inv_def)

lemma good_upd:
  assumes "jdwp_good st ps ts" "jprocs st a = Some x" "j_pid x' = j_pid x" "j_fde x' = j_fde x" "proc_ok (fdes st) a x'"
  shows "jdwp_good (set_proc a x' st) ps ts"
  using assms current_upd [of st ps ts a x x'] procs_ok_same_fde [of "jprocs st" "fdes st" "jlinks st" ps a x x']
  by (auto simp: jdwp_good_def jdwp_inv_def set_proc_def fd_ok_def fd_inv_def)

lemma adb_read_keeps: "adb_read fd n st = (len, e, bs, st') \<Longrightarrow> \<exists>rs. st' = st\<lparr>rd_script := rs\<rparr>"
  by (auto simp: adb_read_def split: list.splits rd_ev.splits intro: exI [of _ "rd_script st"])

lemma recv_pid_frame:
  assumes "proc_ok fh a x" "recv_pid fd x st = (h, x', st')"
  shows "\<exists>rs. st' = st\<lparr>rd_script := rs\<rparr> \<and> proc_ok fh a x' \<and> j_pid x' = j_pid x \<and> j_fde x' = j_fde x \<and> out_count x' = out_count x"
  using assms
proof (induction fd x st arbitrary: h x' st' rule: recv_pid.induct)
  case (1 fd x st)
  obtain len e bs st1 where r: "adb_read fd (4 - in_len x) st = (len, e, bs, st1)" by (cases "adb_read fd (4 - in_len x) st") auto
  obtain rs where rs: "st1 = st\<lparr>rd_script := rs\<rparr>" using adb_read_keeps [OF r] by blast
  show ?case
  proof (cases "4 \<le> in_len x")
    case True
    then have "x' = x" "st' = st" using 1(4) by (simp_all add: recv_pid.simps [of fd x st])
    then show ?thesis using 1(3) by (intro exI [of _ "rd_script st"]) simp
  next
    case False
    consider (again) "len < 0" "e = EINTR" | (stop) "len < 0" "e \<noteq> EINTR" | (eof) "len = 0" | (data) "0 < len" by linarith
    then show ?thesis
    proof cases
      case again
      then have "recv_pid fd x st1 = (h, x', st')" using 1(4) False r by (simp add: recv_pid.simps [of fd x st])
      then show ?thesis using 1(1) [OF False r [symmetric] refl refl again] 1(3) rs by fastforce
    next
      case data
      then have "recv_pid fd (store_in bs x) st1 = (h, x', st')" using 1(4) False r by (simp add: recv_pid.simps [of fd x st])
      moreover have "proc_ok fh a (store_in bs x)"
        using 1(3) False data adb_read_length [OF r] by (auto simp: proc_ok_def store_in_def)
      ultimately show ?thesis using 1(2) [OF False r [symmetric] refl refl] data rs by (fastforce simp: store_in_def)
    qed (use 1(3,4) False r rs in \<open>auto simp: recv_pid.simps [of fd x st] split: if_splits\<close>)
  qed
qed

lemma recv_rest_frame: "\<exists>h rs. recv_rest fd st = (h, st\<lparr>rd_script := rs\<rparr>)"
proof (induction fd st rule: recv_rest.induct)
  case (1 fd st)
  obtain len e bs st1 where r: "adb_read fd 32 st = (len, e, bs, st1)" by (cases "adb_read fd 32 st") auto
  obtain rs where rs: "st1 = st\<lparr>rd_script := rs\<rparr>" using adb_read_keeps [OF r] by blast
  note step = recv_rest.simps [of fd st, unfolded r prod.case]
  show ?case
  proof (cases "0 < len \<or> len < 0 \<and> e = EINTR")
    case True
    then have "recv_rest fd st = recv_rest fd st1" by (auto simp: step)
    moreover have "\<exists>h rs. recv_rest fd st1 = (h, st1\<lparr>rd_script := rs\<rparr>)"
      using True 1 [OF r [symmetric] refl refl] by (cases "0 < len") auto
    ultimately show ?thesis by (auto simp: rs)
  next
    case False
    then show ?thesis by (auto simp: step rs)
  qed
qed

lemma hex_value_bound: "hex_value c = Some v \<Longrightarrow> v < 16"
  by (auto simp: hex_value_def between_def split: if_splits)

lemma hex_digits_bound: "\<forall>c\<in>set s. is_hex c \<Longrightarrow> hex_digits s < 16 ^ length s"
proof (induction s rule: rev_induct)
  case (snoc c s)
  then obtain v where v: "hex_value c = Some v" "v < 16" using hex_value_bound by (auto simp: is_hex_def)
  have "hex_digits s < 16 ^ length s" using snoc by simp
  moreover have "hex_digits (s @ [c]) = hex_digits s * 16 + v" by (simp add: hex_digits_def v(1))
  ultimately show ?case using v(2) by simp
qed (simp add: hex_digits_def)

lemma scan_pid_bound: "scan_pid buf = Some pid \<Longrightarrow> pid < 65536"
proof -
  assume p: "scan_pid buf = Some pid"
  obtain neg w where w: "split_sign (take 4 (dropWhile is_space (takeWhile (\<lambda>c. c \<noteq> CHR 0x00) buf))) = (neg, w)" by fastforce
  let ?ds = "takeWhile is_hex (skip_0x w)"
  have "length w \<le> 4" using w by (auto simp: split_sign_def split: if_splits)
  then have "length ?ds \<le> 4" using length_takeWhile_le [of is_hex "skip_0x w"] by (auto simp: skip_0x_def split: if_splits)
  moreover have "hex_digits ?ds < 16 ^ length ?ds" by (rule hex_digits_bound) (auto dest: set_takeWhileD)
  moreover have "(16::nat) ^ length ?ds \<le> 16 ^ 4" using calculation(1) by (intro power_increasing) auto
  ultimately have "hex_digits ?ds < 65536" by simp
  then show ?thesis using p by (auto simp: scan_pid_def w Let_def split: if_splits)
qed

lemma inv_upd:
  assumes "jdwp_inv st ps ts" "jprocs st a = Some x" "j_fde x' = j_fde x" "proc_ok (fdes st) a x'"
  shows "jdwp_inv (set_proc a x' st) ps ts"
  using assms procs_ok_same_fde [of "jprocs st" "fdes st" "jlinks st" ps a x x']
  by (auto simp: jdwp_inv_def set_proc_def fd_ok_def fd_inv_def)

lemma set_proc_sel [simp]: "jprocs (set_proc a x st) = (jprocs st)(a \<mapsto> x)" "fdes (set_proc a x st) = fdes st"
  by (simp_all add: set_proc_def)

lemma good_proc: "jdwp_good st ps ts \<Longrightarrow> jprocs st a = Some x \<Longrightarrow> proc_ok (fdes st) a x"
  by (simp add: jdwp_good_def jdwp_inv_def procs_ok_def)

lemma readable_good:
  assumes good: "jdwp_good st ps ts" and a: "jprocs st a = Some x"
  shows "\<exists>r st' ps'. process_readable socket a st = Some (Inr (r, st')) \<and> jdwp_good st' ps' ts \<and> (\<not> r \<longrightarrow> jprocs st' a \<noteq> None)"
proof (cases "j_pid x < 0")
  case True
  obtain h x1 st0 where e: "recv_pid socket x st = (h, x1, st0)" by (cases "recv_pid socket x st") auto
  obtain rs where st0: "st0 = st\<lparr>rd_script := rs\<rparr>" and x1: "proc_ok (fdes st) a x1" "j_pid x1 = j_pid x" "j_fde x1 = j_fde x"
    using recv_pid_frame [OF good_proc [OF good a] e] by blast
  have g0: "jdwp_good st0 ps ts" "jprocs st0 a = Some x" "fdes st0 = fdes st" using good a by (simp_all add: st0)
  define st1 where "st1 = set_proc a x1 st0"
  have g1: "jdwp_good st1 ps ts" "jprocs st1 a = Some x1"
    unfolding st1_def using good_upd [OF g0(1,2) x1(2,3)] x1(1) g0(3) by simp_all
  then obtain st2 where close: "close_process a st1 = Some (Inr (True, st2))" "jdwp_good st2 (remove1 a ps) ts"
    using close_good [of st1 ps ts a x1] by (auto simp: jdwp_good_def)
  have eq: "process_readable socket a st = (case h of Wait \<Rightarrow> Some (Inr (True, st1)) | Gone \<Rightarrow> close_process a st1
      | Heard \<Rightarrow> (case scan_pid (in_buff x1) of None \<Rightarrow> close_process a st1
         | Some pid \<Rightarrow> bindO (jdwp_process_list_updated (set_proc a (x1\<lparr>j_pid := pid\<rparr>) st0)) (\<lambda>st. Some (Inr (False, st)))))"
    using True a e by (simp add: process_readable_def bindO_def st1_def split: heard.splits option.splits)
  show ?thesis
  proof (cases "h = Heard \<and> scan_pid (in_buff x1) \<noteq> None")
    case True
    then obtain pid where pid: "scan_pid (in_buff x1) = Some pid" by auto
    let ?x = "x1\<lparr>j_pid := pid\<rparr>" and ?st = "set_proc a (x1\<lparr>j_pid := pid\<rparr>) st0"
    have "jdwp_inv ?st ps ts"
      by (rule inv_upd [OF _ g0(2)]) (use g0 x1 scan_pid_bound [OF pid] in \<open>auto simp: jdwp_good_def proc_ok_def\<close>)
    from updated_good [OF this] obtain st2 where "jdwp_process_list_updated ?st = Some (Inr st2)" "jdwp_good st2 ps ts" "jprocs st2 = jprocs ?st"
      by blast
    then show ?thesis using True pid eq by (auto simp: bindO_def)
  next
    case False
    then show ?thesis using eq g1(1) close by (cases h) auto
  qed
next
  case False
  obtain h rs where e: "recv_rest socket st = (h, st\<lparr>rd_script := rs\<rparr>)" using recv_rest_frame by blast
  obtain st2 where "close_process a (st\<lparr>rd_script := rs\<rparr>) = Some (Inr (True, st2))" "jdwp_good st2 (remove1 a ps) ts"
    using close_good [of "st\<lparr>rd_script := rs\<rparr>" ps ts a x] good a good_rd [where st = st and rs = rs and ps = ps and ts = ts] unfolding jdwp_good_def by auto
  then show ?thesis using False a e good by (cases h) (auto simp: process_readable_def bindO_def)
qed

text \<open>Records that the invariant does not look at.\<close>

lemma good_wr [simp]:
  "jdwp_good (st\<lparr>wr_script := ws\<rparr>) ps ts = jdwp_good st ps ts" "jdwp_good (st\<lparr>passed := ds\<rparr>) ps ts = jdwp_good st ps ts"
  "jdwp_good (close_fd fd st) ps ts = jdwp_good st ps ts" "jprocs (close_fd fd st) = jprocs st" "fdes (close_fd fd st) = fdes st"
  by (simp_all add: jdwp_good_def jdwp_inv_def current_def fd_ok_def fd_inv_def close_fd_def)

text \<open>A change of the number of descriptors that wait, with the matching change of the events watched.\<close>

lemma flag_good:
  assumes good: "jdwp_good st ps ts" and a: "jprocs st a = Some x" and x': "proc_ok (fdes st) a x" "j_pid x' = j_pid x" "j_fde x' = j_fde x"
      "j_socket x' = j_socket x" "in_buff x' = in_buff x" "in_len x' = in_len x" "length (out_fds x') = MAX_OUT_FDS" "out_count x' \<le> MAX_OUT_FDS"
      "b = (0 < out_count x')"
  shows "\<exists>st'. (if b then fdevent_add else fdevent_del) (j_fde x') FDE_WRITE (set_proc a x' st) = Inr st' \<and> jdwp_good st' ps ts"
proof -
  obtain f where f: "fdes st (j_fde x) = Some f" "active f" "fde_fd f = j_socket x" "fde_arg f = a" "bit (fde_state f) 10"
    "bit (fde_state f) 7" "bit (fde_state f) 0" using x'(1) by (auto simp: proc_ok_def)
  have inv: "jdwp_inv st ps ts" using good by (simp add: jdwp_good_def)
  then have "fd_ok (set_proc a x' st)" by (simp add: jdwp_inv_def set_proc_def fd_ok_def fd_inv_def)
  then obtain st' f' where st': "(if b then fdevent_add else fdevent_del) (j_fde x) FDE_WRITE (set_proc a x' st) = Inr st'" "fd_ok st'"
    "fdes st' = (fdes (set_proc a x' st))(j_fde x \<mapsto> f')" "active f'" "fde_fd f' = fde_fd f" "fde_arg f' = fde_arg f"
    "bit (fde_state f') 10 = bit (fde_state f) 10"
    "\<And>k. k \<in> {0, 1, 7} \<Longrightarrow> bit (fde_state f') k = (if bit FDE_WRITE k then b else bit (fde_state f) k)"
    "fdstate.more st' = fdstate.more (set_proc a x' st)"
    by (rule fd_flag [where b = b and ev = FDE_WRITE]) (use f in auto)
  note m = jdwp_more [OF st'(9)]
  have bits: "bit (fde_state f') 0" "bit (fde_state f') 7" "bit (fde_state f') 1 = b"
    using st'(8) [of 0] st'(8) [of 7] st'(8) [of 1] f by (simp_all add: mask_bits)
  have ok: "proc_ok ((fdes st)(j_fde x \<mapsto> f')) a x'"
    using x' st'(4-7) f bits by (auto simp: proc_ok_def)
  have "jdwp_inv st' ps ts"
    using inv procs_ok_upd [of "jprocs st" "fdes st" "jlinks st" ps a x f' x'] a ok
      trackers_ok_fde [of "socks st" "fdes st" "need_update st" "trlinks st" ts "j_fde x" f "Some f'"] f(1,2) st'(2,3) m
    by (simp add: jdwp_inv_def set_proc_def)
  moreover have "current st' ps ts"
    using good m pids_upd [of "jprocs st" a x x', OF a x'(2)] by (simp add: jdwp_good_def current_def set_proc_def)
  ultimately show ?thesis using st'(1) x'(3) by (auto simp: jdwp_good_def)
qed

lemma shift_fds_length: "0 < n \<Longrightarrow> n \<le> length fds \<Longrightarrow> length (shift_fds n fds) = length fds"
  by (simp add: shift_fds_def)

lemma writable_good:
  assumes good: "jdwp_good st ps ts" and a: "jprocs st a = Some x"
  shows "\<exists>st' ps'. process_writable fl a st = Some (Inr st') \<and> jdwp_good st' ps' ts"
proof -
  note px = good_proc [OF good a]
  have free: "\<exists>st' ps'. jdwp_process_free a st1 = Some (Inr st') \<and> jdwp_good st' ps' ts"
    if "jdwp_good st1 ps ts" "jprocs st1 a = Some y" for st1 y using free_good [of st1 ps ts a y] that by (auto simp: jdwp_good_def)
  obtain ok s where s: "send_rights (wr_script st (j_socket x)) = (ok, s)" by fastforce
  define st1 where "st1 = st\<lparr>wr_script := (wr_script st)(j_socket x := s)\<rparr>"
  have g1: "jdwp_good st1 ps ts" "jprocs st1 a = Some x" "fdes st1 = fdes st" using good a by (simp_all add: st1_def)
  define st2 where "st2 = close_fd (out_fds x ! 0) (st1\<lparr>passed := passed st1 @ [(j_socket x, out_fds x ! 0)]\<rparr>)"
  have g2: "jdwp_good st2 ps ts" "jprocs st2 a = Some x" "fdes st2 = fdes st" using g1 by (simp_all add: st2_def)
  define x1 where "x1 = x\<lparr>out_fds := shift_fds (out_count x) (out_fds x)\<rparr>"
  have x1: "proc_ok (fdes st) a x1" "j_pid x1 = j_pid x" "j_fde x1 = j_fde x" "out_count x1 = out_count x" "j_socket x1 = j_socket x"
    if "0 < out_count x" using px that by (auto simp: x1_def proc_ok_def shift_fds_length)
  define st3 where "st3 = set_proc a x1 st2"
  have g3: "jdwp_good st3 ps ts" "jprocs st3 a = Some x1" "fdes st3 = fdes st" if "0 < out_count x"
    using good_upd [OF g2(1,2), of x1] x1 g2(3) that by (simp_all add: st3_def)
  define x2 where "x2 = x1\<lparr>out_count := out_count x1 - 1\<rparr>"
  have last: "\<exists>st'. (if out_count x2 = 0 then fdevent_del (j_fde x2) FDE_WRITE (set_proc a x2 st3) else Inr (set_proc a x2 st3)) = Inr st' \<and>
      jdwp_good st' ps ts" if c: "0 < out_count x"
  proof (cases "out_count x2 = 0")
    case True
    have "\<exists>st'. (if False then fdevent_add else fdevent_del) (j_fde x2) FDE_WRITE (set_proc a x2 st3) = Inr st' \<and> jdwp_good st' ps ts"
      by (rule flag_good [OF g3(1,2) [OF c]]) (use x1 [OF c] g3 [OF c] True in \<open>auto simp: x2_def proc_ok_def\<close>)
    then show ?thesis using True by simp
  next
    case False
    have "proc_ok (fdes st3) a x2" using x1 [OF c] g3 [OF c] False by (auto simp: x2_def proc_ok_def)
    then show ?thesis using False good_upd [OF g3(1,2) [OF c], of x2] by (auto simp: x2_def)
  qed
  show ?thesis
  proof (cases "0 < out_count x")
    case True
    have le: "out_count x \<le> length (out_fds x)" using px by (simp add: proc_ok_def)
    have "process_writable fl a st =
        (if \<not> get_fl fl \<or> \<not> clear_fl fl then jdwp_process_free a st else if \<not> ok then jdwp_process_free a st1
         else if \<not> restore_fl fl then jdwp_process_free a st3
         else Some (if out_count x2 = 0 then fdevent_del (j_fde x2) FDE_WRITE (set_proc a x2 st3) else Inr (set_proc a x2 st3)))"
      using True le a s by (simp add: process_writable_def bindO_def Let_def st1_def st2_def x1_def st3_def x2_def)
    then show ?thesis using free [OF good a] free [OF g1(1,2)] free [OF g3(1,2) [OF True]] last [OF True] by auto
  next
    case False
    then show ?thesis using good a by (auto simp: process_writable_def bindO_def)
  qed
qed

lemma event_good:
  assumes "jdwp_good st ps ts" "jprocs st a = Some x"
  shows "\<exists>st' ps'. jdwp_process_event fl socket ev a st = Some (Inr st') \<and> jdwp_good st' ps' ts"
proof -
  obtain r st1 ps1 where r: "(if has ev FDE_READ then process_readable socket a st else Some (Inr (False, st))) = Some (Inr (r, st1))"
    "jdwp_good st1 ps1 ts" "\<not> r \<longrightarrow> jprocs st1 a \<noteq> None"
    using readable_good [OF assms, of socket] assms by (cases "has ev FDE_READ") auto
  then show ?thesis using writable_good [of st1 ps1 ts a _ fl]
    by (cases "\<not> r \<and> has ev FDE_WRITE") (auto simp: jdwp_process_event_def bindO_def)
qed

lemma find_process_ok:
  "\<forall>a\<in>set as. jprocs st a \<noteq> None \<Longrightarrow> \<exists>a. find_process st as pid = Inr a \<and> (a = NULL \<or> (\<exists>x. jprocs st a = Some x \<and> j_pid x = pid))"
proof (induction as)
  case (Cons a as)
  then obtain x where "jprocs st a = Some x" by auto
  then show ?case using Cons by (cases "j_pid x = pid") auto
qed simp

lemma connection_good:
  assumes good: "jdwp_good st ps ts"
  shows "\<exists>fd st'. create_jdwp_connection_fd pair pid st = Some (Inr (fd, st')) \<and> jdwp_good st' ps ts"
proof -
  have r: "ring (jlinks st) jdwp_list ps" "\<forall>a\<in>set ps. jprocs st a \<noteq> None" using good by (auto simp: jdwp_good_def jdwp_inv_def procs_ok_def)
  obtain a where a: "find_process st ps pid = Inr a" "a = NULL \<or> (\<exists>x. jprocs st a = Some x)" using find_process_ok [OF r(2)] by blast
  show ?thesis
  proof (cases "a = NULL")
    case True
    then show ?thesis using a good by (simp add: create_jdwp_connection_fd_def ring_nodes [OF r(1)])
  next
    case False
    then obtain x where x: "jprocs st a = Some x" using a by auto
    note px = good_proc [OF good x]
    note eq = create_jdwp_connection_fd_def [of pair pid st, unfolded ring_nodes [OF r(1)] option.map a(1) bindE_Inr]
    show ?thesis
    proof (cases "out_count x \<ge> MAX_OUT_FDS \<or> pair = None")
      case True
      then show ?thesis using False x good by (auto simp: eq split: option.splits)
    next
      case F: False
      then obtain fd0 fd1 where p: "pair = Some (fd0, fd1)" by auto
      define x' where "x' = x\<lparr>out_fds := (out_fds x)[out_count x := fd1], out_count := out_count x + 1\<rparr>"
      have c: "create_jdwp_connection_fd pair pid st =
          Some (bindE (if out_count x' = 1 then fdevent_add (j_fde x') FDE_WRITE (set_proc a x' st) else Inr (set_proc a x' st)) (\<lambda>st. Inr (fd0, st)))"
        unfolding eq using False F p x px by (simp add: x'_def Let_def proc_ok_def)
      show ?thesis
      proof (cases "out_count x' = 1")
        case True
        have "\<exists>st'. (if True then fdevent_add else fdevent_del) (j_fde x') FDE_WRITE (set_proc a x' st) = Inr st' \<and> jdwp_good st' ps ts"
          by (rule flag_good [OF good x px]) (use px F in \<open>auto simp: x'_def proc_ok_def\<close>)
        then show ?thesis using c True by auto
      next
        case False
        have "jdwp_good (set_proc a x' st) ps ts"
          by (rule good_upd [OF good x]) (use px F False in \<open>auto simp: x'_def proc_ok_def\<close>)
        then show ?thesis using c False by auto
      qed
    qed
  qed
qed

section \<open>New processes\<close>

lemma fdevent_create_more: "fdevent_create env new fd func arg st = Inr (a, st') \<Longrightarrow> fdstate.more st' = fdstate.more st"
  by (auto simp: fdevent_create_def bindE_eq_Inr upd_fde_def dest: fdevent_install_more split: option.splits)

lemma trackers_ok_new:
  assumes "trackers_ok sh fh nu lk ts" "sh a = None"
  shows "trackers_ok sh (fh(a := v)) nu lk ts"
proof -
  have "tracker_ok sh (fh(a := v)) t" if t: "tracker_ok sh fh t" for t
  proof -
    obtain s q where s: "sh t = Some s" "sh (s_peer s) = Some q" using t by (auto simp: tracker_ok_def)
    then have "t \<noteq> a" "s_peer s \<noteq> a" using assms(2) by auto
    then show ?thesis using t s by (auto simp: tracker_ok_def idle_fde_def)
  qed
  then show ?thesis using assms(1) by (auto simp: trackers_ok_def)
qed

text \<open>What \<open>calloc\<close>, \<open>malloc\<close> and \<open>accept\<close> provide.\<close>

definition fresh_process :: "fdenv \<Rightarrow> addr \<Rightarrow> addr \<Rightarrow> int \<Rightarrow> 'z jdwpst_scheme \<Rightarrow> bool" where
  "fresh_process env new fde s st \<longleftrightarrow>
     env_ok env \<and> new \<noteq> jdwp_list \<and> jprocs st new = None \<and> fdes st fde = None \<and> socks st fde = None \<and> installable fde s st"

lemma alloc_good:
  assumes good: "jdwp_good st ps ts" and fr: "fresh_process env new fde s st" and new: "new \<noteq> NULL"
  shows "\<exists>st'. jdwp_process_alloc env new (Some fde) s st = Inr (new, st') \<and> jdwp_good st' (ps @ [new]) ts"
proof -
  have inv: "jdwp_inv st ps ts" using good by (simp add: jdwp_good_def)
  obtain xs where xs: "fd_inv st xs" using inv by (auto simp: jdwp_inv_def fd_ok_def)
  define g where "g = (fresh_fde s Jdwp_process_event new)\<lparr>fde_state := FDE_ACTIVE OR FDE_CREATED\<rparr>"
  obtain st1 where st1: "fdevent_create env (Some fde) s Jdwp_process_event new st = Inr (fde, st1)" "fd_inv st1 xs" "fdes st1 = (fdes st)(fde \<mapsto> g)"
    unfolding g_def by (rule fdevent_create_inv [OF xs, of env fde s]) (use fr in \<open>auto simp: fresh_process_def\<close>)
  note m1 = jdwp_more [OF fdevent_create_more [OF st1(1)]]
  define g2 where "g2 = g\<lparr>fde_state := fde_state g OR FDE_DONT_CLOSE\<rparr>"
  define st2 where "st2 = upd_fde fde g2 st1"
  have "fd_inv st2 xs" unfolding st2_def
    by (rule fd_inv_upd [OF st1(2), of fde g]) (auto simp: st1(3) g2_def g_def fresh_fde_def flag_simps)
  define x where "x = \<lparr>j_pid = - 1, j_socket = s, j_fde = fde, in_buff = replicate 4 CHR 0x00, in_len = 0,
     out_fds = replicate MAX_OUT_FDS 0, out_count = 0\<rparr>"
  define st3 where "st3 = (set_proc new x st2)\<lparr>jlinks := link_process new (jlinks st2)\<rparr>"
  have "fd_ok st3" using \<open>fd_inv st2 xs\<close> by (auto simp: st3_def set_proc_def fd_ok_def fd_inv_def)
  have f3: "fdes st3 = (fdes st)(fde \<mapsto> g2)" by (simp add: st3_def st2_def upd_fde_def st1(3))
  have g2: "active g2" "bit (fde_state g2) 10" "bit (fde_state g2) 7" "\<not> bit (fde_state g2) 1" "fde_fd g2 = s" "fde_arg g2 = new"
    by (auto simp: g2_def g_def fresh_fde_def flag_simps)
  obtain st4 g3 where st4: "(if True then fdevent_add else fdevent_del) fde FDE_READ st3 = Inr st4" "fd_ok st4" "fdes st4 = (fdes st3)(fde \<mapsto> g3)" "active g3"
    "fde_fd g3 = fde_fd g2" "fde_arg g3 = fde_arg g2" "bit (fde_state g3) 10 = bit (fde_state g2) 10"
    "\<And>k. k \<in> {0, 1, 7} \<Longrightarrow> bit (fde_state g3) k = (if bit FDE_READ k then True else bit (fde_state g2) k)"
    "fdstate.more st4 = fdstate.more st3"
    by (rule fd_flag [OF \<open>fd_ok st3\<close>, where b = True and ev = FDE_READ]) (use f3 g2 in auto)
  note m4 = jdwp_more [OF st4(9)]
  have run: "jdwp_process_alloc env new (Some fde) s st = Inr (new, st4)"
    using new st1(1,3) st4(1) fr
    by (simp add: jdwp_process_alloc_def Let_def fresh_process_def installable_def st3_def st2_def g2_def x_def)
  have bits: "bit (fde_state g3) 0" "bit (fde_state g3) 7" "\<not> bit (fde_state g3) 1"
    using st4(8) [of 0] st4(8) [of 7] st4(8) [of 1] g2 by (simp_all add: mask_bits)
  have fs: "fdes st4 = (fdes st)(fde \<mapsto> g3)" "jprocs st4 = (jprocs st)(new \<mapsto> x)" "jlinks st4 = link_process new (jlinks st)"
    "need_update st4 = need_update st" "trlinks st4 = trlinks st" "socks st4 = socks st" "sent st4 = sent st" "fresh_payload st4 = fresh_payload st"
    using st4(3) m4 m1 st1(3) by (simp_all add: st3_def set_proc_def st2_def upd_fde_def)
  have p: "procs_ok (jprocs st) (fdes st) (jlinks st) ps" and t: "trackers_ok (socks st) (fdes st) (need_update st) (trlinks st) ts"
    using inv by (auto simp: jdwp_inv_def)
  have out: "new \<notin> set (jdwp_list # ps)" using p fr by (auto simp: procs_ok_def fresh_process_def)
  have px: "proc_ok ((fdes st)(fde \<mapsto> g3)) new x"
    using fr bits st4(4-7) g2 by (auto simp: proc_ok_def x_def fresh_process_def installable_def MAX_OUT_FDS_def)
  have "proc_ok ((fdes st)(fde \<mapsto> g3)) b y" if "jprocs st b = Some y" for b y
  proof -
    have "proc_ok (fdes st) b y" using p that by (auto simp: procs_ok_def)
    moreover from this have "j_fde y \<noteq> fde" using fr by (auto simp: proc_ok_def fresh_process_def)
    ultimately show ?thesis by (simp add: proc_ok_def)
  qed
  then have "procs_ok (jprocs st4) (fdes st4) (jlinks st4) (ps @ [new])"
    using p px jp.ins_ring [OF _ out, of "jlinks st"] new unfolding procs_ok_def fs by (auto split: if_splits)
  moreover have "trackers_ok (socks st4) (fdes st4) (need_update st4) (trlinks st4) ts"
    using trackers_ok_new [OF t] fr by (simp add: fs fresh_process_def)
  ultimately have "jdwp_inv st4 (ps @ [new]) ts" using st4(2) inv by (simp add: jdwp_inv_def fs)
  moreover have "pids (jprocs st4) (ps @ [new]) = pids (jprocs st) ps" unfolding fs by (rule pids_new) (use out in \<open>auto simp: x_def\<close>)
  then have "current st4 (ps @ [new]) ts" using good by (simp add: jdwp_good_def current_def fs)
  ultimately show ?thesis using run by (auto simp: jdwp_good_def)
qed

lemma control_good:
  assumes good: "jdwp_good st ps ts" and fr: "\<And>s. accept_loop rs = Some s \<Longrightarrow> fresh_process env new fde s st"
  shows "\<exists>st' ps'. jdwp_control_event env rs new (Some fde) ev st = Inr st' \<and> jdwp_good st' ps' ts"
proof (cases "accept_loop rs")
  case None
  then show ?thesis using good by (auto simp: jdwp_control_event_def)
next
  case (Some s)
  have "\<exists>a st' ps'. jdwp_process_alloc env new (Some fde) s st = Inr (a, st') \<and> jdwp_good st' ps' ts"
    using alloc_good [OF good fr [OF Some]] good by (cases "new = NULL") (auto simp: jdwp_process_alloc_def)
  then show ?thesis using good Some by (auto simp: jdwp_control_event_def)
qed

section \<open>Trackers\<close>

lemma ready_good:
  assumes good: "jdwp_good st ps ts" and t: "t \<in> set ts"
  shows "\<exists>st'. jdwp_tracker_ready t st = Some (Inr st') \<and> jdwp_good st' ps ts \<and> need_update st' t = Some False"
proof -
  have inv: "jdwp_inv st ps ts" using good by (simp add: jdwp_good_def)
  then have tok: "tracker_ok (socks st) (fdes st) t" and pl: "length (fresh_payload st) = 4096" and nu: "need_update st t \<noteq> None"
    using t by (auto simp: jdwp_inv_def trackers_ok_def MAX_PAYLOAD_def)
  then obtain s where s: "socks st t = Some s" by (auto simp: tracker_ok_def)
  show ?thesis
  proof (cases "need_update st t = Some True")
    case True
    define st1 where "st1 = st\<lparr>need_update := (need_update st)(t \<mapsto> False)\<rparr>"
    let ?m = "pid_msg 4096 (pids (jprocs st) ps)"
    have "small_pids (pids (jprocs st) ps)" using inv small_pidsI by (auto simp: jdwp_inv_def)
    then have "\<exists>buf'. jdwp_process_list_msg (fresh_payload st1) st1 = Some (Inr (length (pid_msg (length (fresh_payload st1)) (pids (jprocs st1) ps)), buf')) \<and>
        length buf' = length (fresh_payload st1) \<and> length (pid_msg (length (fresh_payload st1)) (pids (jprocs st1) ps)) < length (fresh_payload st1) \<and>
        take (length (pid_msg (length (fresh_payload st1)) (pids (jprocs st1) ps))) buf' = pid_msg (length (fresh_payload st1)) (pids (jprocs st1) ps)"
      by (intro jdwp_process_list_msg_text) (use inv in \<open>auto simp: st1_def jdwp_inv_def procs_ok_def pl\<close>)
    then obtain b where b: "jdwp_process_list_msg (fresh_payload st1) st1 = Some (Inr (length ?m, b))" "length b = 4096" "length ?m < 4096" "take (length ?m) b = ?m"
      by (auto simp: st1_def pl)
    define st2 where "st2 = st1\<lparr>sent := sent st @ [told (socks st) (length ?m) b t]\<rparr>"
    have e: "jdwp_enqueue (s_peer s) (text_packet (length ?m) b) st1 = Inr (1, st2)"
      using enqueue_told [of st1 t s "length ?m" b] tok s b(2,3) by (simp add: st1_def st2_def)
    have run: "jdwp_tracker_ready t st = Some (Inr st2)"
      using b(1) s e by (simp add: jdwp_tracker_ready_def bindO_def Let_def st1_def deref_Some [of "need_update st" t True, OF True])
    have "jdwp_inv st2 ps ts" using inv nu by (auto simp: jdwp_inv_def trackers_ok_def st2_def st1_def fd_ok_def fd_inv_def)
    moreover have "current st2 ps ts"
    proof -
      have h: "set (heard_by (socks st) [told (socks st) (length ?m) b t] u) \<subseteq> {?m}" "u = t \<Longrightarrow> heard_by (socks st) [told (socks st) (length ?m) b t] u \<noteq> []" for u
        using heard_told [of "length ?m", where sh = "socks st" and data = b and ts = "[t]"] b(3,4) by auto
      have M: "?m \<in> lists_of (pids (jprocs st) ps)" by (simp add: lists_of_def MAX_PAYLOAD_def)
      have "last_is (lists_of (pids (jprocs st) ps)) (heard_by (socks st) (sent st2) u)"
        if u: "u \<in> set ts" "need_update st2 u = Some False" for u
      proof (cases "u = t")
        case True
        then show ?thesis using h [of u] M by (auto simp: st2_def intro!: last_is_new)
      next
        case False
        then have "last_is (lists_of (pids (jprocs st) ps)) (heard_by (socks st) (sent st) u)"
          using good u by (auto simp: jdwp_good_def current_def st2_def st1_def)
        then show ?thesis using h(1) [of u] M by (auto simp: st2_def intro!: last_is_append)
      qed
      then show ?thesis by (simp add: current_def) (simp add: st2_def st1_def)
    qed
    moreover have "need_update st2 t = Some False" by (simp add: st2_def st1_def)
    ultimately show ?thesis using run by (auto simp: jdwp_good_def)
  next
    case False
    then have "need_update st t = Some False" using nu by auto
    then show ?thesis using good by (simp add: jdwp_tracker_ready_def bindO_def deref_Some [of "need_update st" t False])
  qed
qed

text \<open>The end of a stream.\<close>

lemma fd_ok_free: "fd_ok st \<Longrightarrow> idle_fde (fdes st) a \<Longrightarrow> fd_ok (st\<lparr>fdes := (fdes st)(a := None)\<rparr>)"
proof (cases "fdes st a")
  case None
  assume "fd_ok st"
  moreover have "(fdes st)(a := None) = fdes st" using None by auto
  ultimately show ?thesis by (simp add: fd_ok_def fd_inv_def)
next
  case (Some f)
  assume "fd_ok st" "idle_fde (fdes st) a"
  then show ?thesis using Some fd_inv_free [of st _ a f] by (auto simp: fd_ok_def idle_fde_def)
qed

lemma procs_ok_idle: "procs_ok h fh lk ps \<Longrightarrow> idle_fde fh a \<Longrightarrow> procs_ok h (fh(a := v)) lk ps"
proof -
  assume p: "procs_ok h fh lk ps" and i: "idle_fde fh a"
  have "proc_ok (fh(a := v)) b x" if "proc_ok fh b x" for b x
  proof -
    have "j_fde x \<noteq> a" using that i by (auto simp: proc_ok_def idle_fde_def)
    then show ?thesis using that by (simp add: proc_ok_def)
  qed
  then show ?thesis using p by (auto simp: procs_ok_def)
qed

lemma remove_socket_frame: "socks st a = Some s \<Longrightarrow> \<exists>L s'. remove_socket a st = Inr (st\<lparr>slinks := L, socks := (socks st)(a \<mapsto> s')\<rparr>)"
proof (cases "prv (slinks st) a \<noteq> NULL \<and> nxt (slinks st) a \<noteq> NULL")
  case True
  assume "socks st a = Some s"
  then show ?thesis using True by (auto simp: remove_socket_def upd_sock_def set_sock_def)
next
  case False
  assume s: "socks st a = Some s"
  then have "(socks st)(a \<mapsto> s) = socks st" by auto
  then have "remove_socket a st = Inr (st\<lparr>slinks := slinks st, socks := (socks st)(a \<mapsto> s)\<rparr>)" using False by (auto simp: remove_socket_def)
  then show ?thesis by blast
qed

lemma close_tracker_state:
  assumes tok: "tracker_ok (socks st) (fdes st) t" and s: "socks st t = Some s"
  shows "\<exists>L. jdwp_close 4 t st = Inr (st\<lparr>slinks := L, dlinks := remove_transport_disconnect (s_peer s) (dlinks st),
     socks := (socks st)(s_peer s := None, t := None), fdes := (fdes st)(s_peer s := None, t := None),
     trlinks := unlink_tracker t (trlinks st), need_update := (need_update st)(t := None)\<rparr>)"
proof -
  obtain q where q: "s_close s = Jdwp_tracker_close" "s_peer s \<noteq> NULL" "s_peer s \<noteq> t" "socks st (s_peer s) = Some q" "s_close q = Remote_socket_close"
    using tok s by (auto simp: tracker_ok_def)
  let ?p = "s_peer s"
  define st1 where "st1 = set_sock ?p (q\<lparr>s_peer := NULL\<rparr>) st"
  define st2 where "st2 = free_sock ?p (st1\<lparr>dlinks := remove_transport_disconnect ?p (dlinks st)\<rparr>)"
  have u: "upd_sock ?p (\<lambda>q. q\<lparr>s_peer := NULL\<rparr>) st = Inr st1" using q by (simp add: upd_sock_def st1_def)
  have "jdwp_close 3 ?p st1 = Inr st2" using q(5) by (simp add: numeral_3_eq_3 st1_def set_sock_def remote_socket_close_def st2_def)
  moreover have "socks st2 t = Some s" using s q(3) by (simp add: st2_def st1_def free_sock_def set_sock_def)
  moreover then obtain L s' where r: "remove_socket t st2 = Inr (st2\<lparr>slinks := L, socks := (socks st2)(t \<mapsto> s')\<rparr>)" using remove_socket_frame by blast
  moreover have "jdwp_close 4 t st = jdwp_tracker_close (jdwp_close 3) t st" using s q(1) by (simp add: numeral_eq_Suc)
  ultimately have "jdwp_close 4 t st =
      Inr ((free_sock t (st2\<lparr>slinks := L, socks := (socks st2)(t \<mapsto> s')\<rparr>))\<lparr>trlinks := unlink_tracker t (trlinks st2), need_update := (need_update st2)(t := None)\<rparr>)"
    using s q(2) u by (simp add: jdwp_tracker_close_def)
  then show ?thesis by (auto simp: free_sock_def st2_def st1_def set_sock_def fun_upd_twist intro!: exI [of _ L])
qed

lemma trackers_ok_remove:
  assumes t: "trackers_ok sh fh nu lk ts" and m: "t \<in> set ts" and s: "sh t = Some s"
  shows "trackers_ok (sh(s_peer s := None, t := None)) (fh(s_peer s := None, t := None)) (nu(t := None)) (unlink_tracker t lk) (remove1 t ts)"
proof -
  have r: "ring lk jdwp_trackers_list ts" and tok: "\<And>u. u \<in> set ts \<Longrightarrow> tracker_ok sh fh u" using t by (auto simp: trackers_ok_def)
  obtain q where q: "sh (s_peer s) = Some q" "s_close q = Remote_socket_close" "s_peer q = t" "s_close s = Jdwp_tracker_close"
    using tok [OF m] s by (auto simp: tracker_ok_def)
  have "tracker_ok (sh(s_peer s := None, t := None)) (fh(s_peer s := None, t := None)) u" if u: "u \<in> set ts" "u \<noteq> t" for u
  proof -
    obtain s' q' where s': "sh u = Some s'" "s_close s' = Jdwp_tracker_close" "sh (s_peer s') = Some q'" "s_close q' = Remote_socket_close" "s_peer q' = u"
      using tok [OF u(1)] by (auto simp: tracker_ok_def)
    have "u \<noteq> s_peer s" "s_peer s' \<noteq> s_peer s" "s_peer s' \<noteq> t" using s' q s u(2) by auto
    then show ?thesis using tok [OF u(1)] s'(1) u(2) by (auto simp: tracker_ok_def idle_fde_def)
  qed
  then show ?thesis using t jt.del_ring [OF r m] ring_distinct(1) [OF r] by (auto simp: trackers_ok_def)
qed

lemma close_good_tracker:
  assumes good: "jdwp_good st ps ts" and t: "t \<in> set ts"
  shows "\<exists>st'. jdwp_close 4 t st = Inr st' \<and> jdwp_good st' ps (remove1 t ts) \<and> socks st' t = None \<and> need_update st' t = None"
proof -
  have inv: "jdwp_inv st ps ts" using good by (simp add: jdwp_good_def)
  have tok: "tracker_ok (socks st) (fdes st) t" using inv t by (auto simp: jdwp_inv_def trackers_ok_def)
  then obtain s q where s: "socks st t = Some s" "socks st (s_peer s) = Some q" "s_close q = Remote_socket_close" "s_peer q = t" "s_close s = Jdwp_tracker_close"
    and idle: "idle_fde (fdes st) t" "idle_fde (fdes st) (s_peer s)"
    by (auto simp: tracker_ok_def)
  obtain L where c: "jdwp_close 4 t st = Inr (st\<lparr>slinks := L, dlinks := remove_transport_disconnect (s_peer s) (dlinks st),
     socks := (socks st)(s_peer s := None, t := None), fdes := (fdes st)(s_peer s := None, t := None),
     trlinks := unlink_tracker t (trlinks st), need_update := (need_update st)(t := None)\<rparr>)" (is "_ = Inr ?st'")
    using close_tracker_state [OF tok s(1)] by blast
  have i2: "idle_fde ((fdes st)(s_peer s := None)) t" using idle by (auto simp: idle_fde_def)
  have "procs_ok (jprocs st) ((fdes st)(s_peer s := None, t := None)) (jlinks st) ps"
    using procs_ok_idle [OF procs_ok_idle [OF _ idle(2)] i2] inv by (simp add: jdwp_inv_def)
  moreover have "trackers_ok ((socks st)(s_peer s := None, t := None)) ((fdes st)(s_peer s := None, t := None)) ((need_update st)(t := None))
      (unlink_tracker t (trlinks st)) (remove1 t ts)"
    using inv t s(1) by (intro trackers_ok_remove) (simp_all add: jdwp_inv_def)
  moreover have "fd_ok ?st'"
  proof -
    have "fd_ok (st\<lparr>fdes := (fdes st)(s_peer s := None)\<rparr>)" by (rule fd_ok_free [OF _ idle(2)]) (use inv in \<open>simp add: jdwp_inv_def\<close>)
    from fd_ok_free [OF this, of t] i2 show ?thesis by (simp add: fd_ok_def fd_inv_def)
  qed
  ultimately have "jdwp_inv ?st' ps (remove1 t ts)" using inv by (simp add: jdwp_inv_def)
  moreover have "current ?st' ps (remove1 t ts)"
  proof -
    have same: "heard_by ((socks st)(s_peer s := None, t := None)) (sent st) u = heard_by (socks st) (sent st) u" if u: "u \<in> set (remove1 t ts)" for u
    proof -
      have un: "u \<in> set ts" "u \<noteq> t" using u inv ring_distinct(1) [of "trlinks st"] by (auto simp: jdwp_inv_def trackers_ok_def)
      then have "tracker_ok (socks st) (fdes st) u" using inv by (auto simp: jdwp_inv_def trackers_ok_def)
      then obtain s' q' where s': "socks st u = Some s'" "s_close s' = Jdwp_tracker_close" "socks st (s_peer s') = Some q'" "s_close q' = Remote_socket_close"
        "s_peer q' = u" by (auto simp: tracker_ok_def)
      then have "u \<noteq> s_peer s" "s_peer s' \<noteq> s_peer s" "s_peer s' \<noteq> t" using s un(2) by auto
      then show ?thesis using s' un(2) by (simp add: heard_by_def)
    qed
    show ?thesis unfolding current_def
    proof (intro ballI impI)
      fix u assume u: "u \<in> set (remove1 t ts)" "need_update ?st' u = Some False"
      then have "u \<in> set ts" "need_update st u = Some False" by (auto dest: notin_set_remove1 split: if_splits)
      then have "last_is (lists_of (pids (jprocs st) ps)) (heard_by (socks st) (sent st) u)" using good by (simp add: jdwp_good_def current_def)
      with same [OF u(1)] show "last_is (lists_of (pids (jprocs ?st') ps)) (heard_by (socks ?st') (sent ?st') u)" by simp
    qed
  qed
  ultimately show ?thesis using c by (auto simp: jdwp_good_def)
qed

end
