(* ===== verification/Jdwp_Props.thy ===== *)
theory Jdwp_Props
  imports Jdwp_Inv
begin

text \<open>
  Properties of the service for debuggable processes, over every sequence of its operations, and its faults: a tracker whose transport goes away, a
  process that announces a negative number, a descriptor that is closed twice.
\<close>

section \<open>Opening a stream\<close>

definition fresh_socket :: "addr \<Rightarrow> 'z jdwpst_scheme \<Rightarrow> bool" where
  "fresh_socket a st \<longleftrightarrow> a \<noteq> NULL \<and> a \<noteq> list_pending \<and> a \<noteq> jdwp_trackers_list \<and> socks st a = None \<and> fdes st a = None"

lemma fd_ok_zero: "fd_ok st \<Longrightarrow> fdes st a = None \<Longrightarrow> a \<noteq> NULL \<Longrightarrow> a \<noteq> list_pending \<Longrightarrow> fd_ok (st\<lparr>fdes := (fdes st)(a \<mapsto> zero_fde)\<rparr>)"
proof -
  assume "fd_ok st" and a: "fdes st a = None" "a \<noteq> NULL" "a \<noteq> list_pending"
  then obtain xs where inv: "fd_inv st xs" by (auto simp: fd_ok_def)
  have z: "\<not> active zero_fde" "\<not> pending zero_fde" by (simp_all add: zero_fde_def)
  let ?h = "(fdes st)(a \<mapsto> zero_fde)"
  have w: "watch ?h k i = watch (fdes st) k i" for k i 
    using a(1) z unfolding watch_def by (metis fun_upd_apply option.distinct(1) option.inject)
  have "a \<notin> set xs" using inv a(1) by (auto simp: fd_inv_def pend_ok_def)
  have "heap_ok ?h" "pend_ok ?h (plinks st) xs" "sets_ok ?h (read_fds st) (write_fds st) (error_fds st)" "select_ok ?h (fd_table st) (select_n st)"
    using inv a z \<open>a \<notin> set xs\<close> by (auto simp: fd_inv_def heap_ok_def pend_ok_def sets_ok_def select_ok_def w [abs_def])
  moreover have "table_ok ?h (fd_table st)"
  proof -
    have t: "table_ok (fdes st) (fd_table st)" using inv by (simp add: fd_inv_def)
    have "fd_table st ! i \<noteq> a" if "i < length (fd_table st)" "fd_table st ! i \<noteq> NULL" for i
      using t that a(1) unfolding table_ok_def by fastforce
    then show ?thesis using t z by (auto simp: table_ok_def split: if_splits)
  qed
  ultimately show ?thesis by (auto simp: fd_ok_def fd_inv_def)
qed

definition tracker_socket :: "u32 \<Rightarrow> addr \<Rightarrow> asocket" where
  "tracker_socket i p = blank_socket\<lparr>s_id := i, s_ready := Jdwp_tracker_ready, s_enqueue := Jdwp_tracker_enqueue, s_close := Jdwp_tracker_close, s_peer := p\<rparr>"

definition remote_socket :: "u32 \<Rightarrow> addr \<Rightarrow> addr \<Rightarrow> asocket" where
  "remote_socket i t p = blank_socket\<lparr>s_id := i, s_enqueue := Remote_socket_enqueue, s_ready := Remote_socket_ready,
     s_shutdown := Remote_socket_shutdown, s_close := Remote_socket_close, s_transport := t, s_peer := p\<rparr>"

lemma open_state:
  assumes new: "fresh_socket new st" and r: "alloc st = r # rs" "fresh_socket r st" "r \<noteq> new" and rid: "rid \<noteq> 0" and t: "t \<noteq> NULL"
  shows "\<exists>st1 p. open_tracker new rid t st = jdwp_tracker_ready new st1 \<and> command (pmsg p) \<noteq> A_WRTE \<and> sent st1 = sent st @ [(t, p)] \<and>
    socks st1 = (socks st)(new \<mapsto> tracker_socket (local_socket_next_id st) r, r \<mapsto> remote_socket rid t new) \<and>
    fdes st1 = (fdes st)(new \<mapsto> zero_fde) \<and> need_update st1 = (need_update st)(new \<mapsto> True) \<and> trlinks st1 = link_tracker new (trlinks st) \<and>
    jprocs st1 = jprocs st \<and> jlinks st1 = jlinks st \<and> fresh_payload st1 = fresh_payload st \<and>
    (fd_ok (st\<lparr>fdes := (fdes st)(new \<mapsto> zero_fde)\<rparr>) \<longrightarrow> fd_ok st1)"
proof -
  have nz: "new \<noteq> NULL" "r \<noteq> NULL" using new r by (simp_all add: fresh_socket_def)
  define st0 where "st0 = snd (projr (create_jdwp_tracker_service_socket new st))"
  have c: "create_jdwp_tracker_service_socket new st = Inr (new, st0)"
    using nz by (simp add: st0_def create_jdwp_tracker_service_socket_def install_local_socket_def upd_sock_def calloc_socket_def set_sock_def Let_def)
  have f0: "socks st0 = (socks st)(new \<mapsto> tracker_socket (local_socket_next_id st) NULL)" "fdes st0 = (fdes st)(new \<mapsto> zero_fde)"
    "need_update st0 = (need_update st)(new \<mapsto> True)" "trlinks st0 = link_tracker new (trlinks st)" "jprocs st0 = jprocs st" "jlinks st0 = jlinks st"
    "fresh_payload st0 = fresh_payload st" "sent st0 = sent st" "alloc st0 = alloc st" "fd_ok (st\<lparr>fdes := (fdes st)(new \<mapsto> zero_fde)\<rparr>) \<longrightarrow> fd_ok st0"
    using nz by (simp_all add: st0_def create_jdwp_tracker_service_socket_def install_local_socket_def upd_sock_def calloc_socket_def set_sock_def Let_def
        tracker_socket_def blank_socket_def fd_ok_def fd_inv_def)
  define st1 where "st1 = snd (projr (bind_remote new rid t st0))"
  have b: "bind_remote new rid t st0 = Inr (r, st1)"
    using nz r rid f0 by (simp add: st1_def bind_remote_def next_addr_def create_remote_socket_def upd_sock_def set_sock_def Let_def)
  have f1: "socks st1 = (socks st)(new \<mapsto> tracker_socket (local_socket_next_id st) r, r \<mapsto> remote_socket rid t new)" "fdes st1 = fdes st0"
    "need_update st1 = need_update st0" "trlinks st1 = trlinks st0" "jprocs st1 = jprocs st0" "jlinks st1 = jlinks st0"
    "fresh_payload st1 = fresh_payload st0" "sent st1 = sent st0" "fd_ok st0 \<longrightarrow> fd_ok st1"
    using nz r rid f0 by (simp_all add: st1_def bind_remote_def next_addr_def create_remote_socket_def upd_sock_def set_sock_def Let_def
        tracker_socket_def remote_socket_def blank_socket_def fd_ok_def fd_inv_def fun_upd_twist)
  obtain p where p: "send_ready (local_socket_next_id st) rid t st1 = Inr (st1\<lparr>sent := sent st1 @ [(t, p)]\<rparr>)" "command (pmsg p) \<noteq> A_WRTE"
    using t by (auto simp: send_ready_def send_packet_def seal_packet_def payload_sum_def get_apacket_def zero_msg_def a_commands)
  have "open_tracker new rid t st = jdwp_tracker_ready new (st1\<lparr>sent := sent st1 @ [(t, p)]\<rparr>)"
    using c b nz p(1) r(3) f1(1) by (simp add: open_tracker_def bindO_def tracker_socket_def remote_socket_def)
  then show ?thesis using p(2) f0 f1 by (intro exI [of _ "st1\<lparr>sent := sent st1 @ [(t, p)]\<rparr>"] exI [of _ p]) (auto simp: fd_ok_def fd_inv_def)
qed

lemma open_good:
  assumes good: "jdwp_good st ps ts" and new: "fresh_socket new st" and r: "alloc st = r # rs" "fresh_socket r st" "r \<noteq> new"
    and rid: "rid \<noteq> 0" and t: "t \<noteq> NULL"
  shows "\<exists>st'. open_tracker new rid t st = Some (Inr st') \<and> jdwp_good st' ps (ts @ [new]) \<and> need_update st' new = Some False"
proof -
  have inv: "jdwp_inv st ps ts" using good by (simp add: jdwp_good_def)
  obtain st1 p where st1: "open_tracker new rid t st = jdwp_tracker_ready new st1" "command (pmsg p) \<noteq> A_WRTE" "sent st1 = sent st @ [(t, p)]"
    "socks st1 = (socks st)(new \<mapsto> tracker_socket (local_socket_next_id st) r, r \<mapsto> remote_socket rid t new)"
    "fdes st1 = (fdes st)(new \<mapsto> zero_fde)" "need_update st1 = (need_update st)(new \<mapsto> True)" "trlinks st1 = link_tracker new (trlinks st)"
    "jprocs st1 = jprocs st" "jlinks st1 = jlinks st" "fresh_payload st1 = fresh_payload st"
    "fd_ok (st\<lparr>fdes := (fdes st)(new \<mapsto> zero_fde)\<rparr>) \<longrightarrow> fd_ok st1"
    using open_state [OF new r rid t] by blast
  have tr: "trackers_ok (socks st) (fdes st) (need_update st) (trlinks st) ts" and pr: "procs_ok (jprocs st) (fdes st) (jlinks st) ps"
    using inv by (auto simp: jdwp_inv_def)
  have n: "socks st new = None" "fdes st new = None" "new \<noteq> NULL" "socks st r = None" "fdes st r = None" "r \<noteq> NULL" "new \<noteq> jdwp_trackers_list"
    using new r by (auto simp: fresh_socket_def)
  have "new \<notin> set ts" using tr n(1) unfolding trackers_ok_def tracker_ok_def by (metis option.distinct(1))
  then have out: "new \<notin> set (jdwp_trackers_list # ts)" using n by simp
  have old: "socks st1 u = socks st u" "socks st1 (s_peer (the (socks st u))) = socks st (s_peer (the (socks st u)))" "tracker_ok (socks st1) (fdes st1) u"
    if u: "u \<in> set ts" for u
  proof -
    have tok: "tracker_ok (socks st) (fdes st) u" using tr u by (auto simp: trackers_ok_def)
    then obtain s q where s: "socks st u = Some s" "socks st (s_peer s) = Some q" by (auto simp: tracker_ok_def)
    have ne: "u \<noteq> new" "u \<noteq> r" "s_peer s \<noteq> new" "s_peer s \<noteq> r" using s n by auto
    then show "socks st1 u = socks st u" "socks st1 (s_peer (the (socks st u))) = socks st (s_peer (the (socks st u)))" using s by (simp_all add: st1)
    show "tracker_ok (socks st1) (fdes st1) u" using tok s ne by (auto simp: tracker_ok_def idle_fde_def st1)
  qed
  have "tracker_ok (socks st1) (fdes st1) new"
    using n r(3) t by (auto simp: tracker_ok_def idle_fde_def st1 tracker_socket_def remote_socket_def zero_fde_def)
  then have "trackers_ok (socks st1) (fdes st1) (need_update st1) (trlinks st1) (ts @ [new])"
    using tr old(3) jt.ins_ring [OF _ out, of "trlinks st"] n by (auto simp: trackers_ok_def st1(6,7))
  moreover have "procs_ok (jprocs st1) (fdes st1) (jlinks st1) ps"
    using procs_ok_idle [OF pr, of new "Some zero_fde"] n by (simp add: st1 idle_fde_def)
  moreover have "fd_ok st1" using st1(11) fd_ok_zero [of st new] inv new by (auto simp: jdwp_inv_def fresh_socket_def)
  ultimately have "jdwp_inv st1 ps (ts @ [new])" using inv by (simp add: jdwp_inv_def st1)
  moreover have "current st1 ps (ts @ [new])"
    unfolding current_def
  proof (intro ballI impI)
    fix u assume u: "u \<in> set (ts @ [new])" "need_update st1 u = Some False"
    then have ut: "u \<in> set ts" "need_update st u = Some False" by (auto simp: st1 split: if_splits)
    then have "last_is (lists_of (pids (jprocs st) ps)) (heard_by (socks st) (sent st) u)" using good by (simp add: jdwp_good_def current_def)
    moreover have "heard_by (socks st1) (sent st1) u = heard_by (socks st) (sent st) u"
      using old(1,2) [OF ut(1)] st1(2) by (simp add: heard_by_def st1(3) Let_def) (simp add: stream_msgs_def)
    ultimately show "last_is (lists_of (pids (jprocs st1) ps)) (heard_by (socks st1) (sent st1) u)" by (simp add: st1(8))
  qed
  ultimately have "jdwp_good st1 ps (ts @ [new])" by (simp add: jdwp_good_def)
  then show ?thesis using ready_good [of st1 ps "ts @ [new]" new] st1(1) by auto
qed

section \<open>Sequences of operations\<close>

datatype jdwp_op =
    Accept "(int + errno) list" addr addr
  | Event fcntl_res u16 addr
  | Connect "(int \<times> int) option" int
  | Track addr u32 addr
  | Ready addr
  | Close addr
  | Arrive "int \<Rightarrow> rd_ev list" "int \<Rightarrow> wr_ev list"

definition jdwp_exec :: "fdenv \<Rightarrow> jdwp_op \<Rightarrow> 'z jdwpst_scheme \<Rightarrow> 'z jdwpst_scheme outcome option" where
  "jdwp_exec env op st =
     (case op of
        Accept rs new fde \<Rightarrow> Some (jdwp_control_event env rs new (Some fde) FDE_READ st)
      | Event fl ev a \<Rightarrow> bindO (Some (proc_at st a)) (\<lambda>x. jdwp_process_event fl (j_socket x) ev a st)
      | Connect pair pid \<Rightarrow> bindO (create_jdwp_connection_fd pair pid st) (\<lambda>(_, st). Some (Inr st))
      | Track new rid t \<Rightarrow> open_tracker new rid t st
      | Ready t \<Rightarrow> jdwp_tracker_ready t st
      | Close t \<Rightarrow> Some (jdwp_close 4 t st)
      | Arrive rd wr \<Rightarrow> Some (Inr (st\<lparr>rd_script := rd, wr_script := wr\<rparr>)))"

text \<open>What the allocator, the kernel and the other side have to provide for an operation.\<close>

definition op_ok :: "fdenv \<Rightarrow> jdwp_op \<Rightarrow> 'z jdwpst_scheme \<Rightarrow> bool" where
  "op_ok env op st =
     (case op of
        Accept rs new fde \<Rightarrow> (case accept_loop rs of None \<Rightarrow> True | Some s \<Rightarrow> fresh_process env new fde s st)
      | Event fl ev a \<Rightarrow> jprocs st a \<noteq> None
      | Track new rid t \<Rightarrow>
          fresh_socket new st \<and> rid \<noteq> 0 \<and> t \<noteq> NULL \<and> (case alloc st of [] \<Rightarrow> False | r # rs \<Rightarrow> fresh_socket r st \<and> r \<noteq> new)
      | Ready t \<Rightarrow> need_update st t \<noteq> None
      | Close t \<Rightarrow> need_update st t \<noteq> None
      | _ \<Rightarrow> True)"

fun jdwp_run :: "fdenv \<Rightarrow> jdwp_op list \<Rightarrow> 'z jdwpst_scheme \<Rightarrow> 'z jdwpst_scheme outcome option" where
  "jdwp_run env [] st = Some (Inr st)"
| "jdwp_run env (op # ops) st = bindO (jdwp_exec env op st) (jdwp_run env ops)"

fun ops_ok :: "fdenv \<Rightarrow> jdwp_op list \<Rightarrow> 'z jdwpst_scheme \<Rightarrow> bool" where
  "ops_ok env [] st = True"
| "ops_ok env (op # ops) st =
     (op_ok env op st \<and> (case jdwp_exec env op st of Some (Inr st') \<Rightarrow> ops_ok env ops st' | _ \<Rightarrow> True))"

lemma good_members: "jdwp_good st ps ts \<Longrightarrow> need_update st t \<noteq> None \<Longrightarrow> t \<in> set ts"
  by (auto simp: jdwp_good_def jdwp_inv_def trackers_ok_def)

lemma exec_good:
  assumes good: "jdwp_good st ps ts" and ok: "op_ok env op st"
  shows "\<exists>st' ps' ts'. jdwp_exec env op st = Some (Inr st') \<and> jdwp_good st' ps' ts'"
proof (cases op)
  case (Accept rs new fde)
  then have "fresh_process env new fde s st" if "accept_loop rs = Some s" for s using that ok by (simp add: op_ok_def)
  then show ?thesis using control_good [OF good, of rs env new fde FDE_READ] Accept by (auto simp: jdwp_exec_def)
next
  case (Event fl ev a)
  then obtain x where "jprocs st a = Some x" using ok by (auto simp: op_ok_def)
  with Event event_good [OF good this, of fl "j_socket x" ev] show ?thesis by (fastforce simp: jdwp_exec_def bindO_def)
next
  case (Connect pair pid)
  then show ?thesis using connection_good [OF good, of pair pid] by (fastforce simp: jdwp_exec_def bindO_def)
next
  case (Track new rid t)
  then obtain r rs where "alloc st = r # rs" using ok by (auto simp: op_ok_def split: list.splits)
  with Track ok show ?thesis using open_good [OF good, of new r rs rid t] by (auto simp: jdwp_exec_def op_ok_def)
next
  case (Ready t)
  then have "t \<in> set ts" using ok good_members [OF good] by (simp add: op_ok_def)
  from ready_good [OF good this] Ready show ?thesis by (fastforce simp: jdwp_exec_def)
next
  case (Close t)
  then have "t \<in> set ts" using ok good_members [OF good] by (simp add: op_ok_def)
  from close_good_tracker [OF good this] Close show ?thesis by (fastforce simp: jdwp_exec_def)
next
  case (Arrive rd wr)
  then show ?thesis using good by (auto simp: jdwp_exec_def jdwp_good_def jdwp_inv_def current_def fd_ok_def fd_inv_def)
qed

lemma run_good:
  "jdwp_good st ps ts \<Longrightarrow> ops_ok env ops st \<Longrightarrow> \<exists>st' ps' ts'. jdwp_run env ops st = Some (Inr st') \<and> jdwp_good st' ps' ts'"
proof (induction ops arbitrary: st ps ts)
  case (Cons op ops)
  obtain st1 ps1 ts1 where "jdwp_exec env op st = Some (Inr st1)" "jdwp_good st1 ps1 ts1"
    using exec_good [OF Cons.prems(1), of env op] Cons.prems(2) by auto
  with Cons show ?case by (simp add: bindO_def)
qed auto

lemma ring_self: "ring (set_prv l l (set_nxt l l h)) l []"
  by (simp add: ring_def)

text \<open>The program before \<open>init_jdwp\<close>.\<close>

definition before_jdwp :: "'z jdwpst_scheme \<Rightarrow> bool" where
  "before_jdwp st \<longleftrightarrow> fd_ok st \<and> length (fresh_payload st) = MAX_PAYLOAD \<and> jprocs st = Map.empty \<and> need_update st = Map.empty"

lemma init_good:
  assumes st: "before_jdwp st" and env: "env_ok env" and inst: "installable fde s st"
  shows "\<exists>r st0. init_jdwp env (Some fde) s bound listening st = Inr (r, st0) \<and> jdwp_good st0 [] [] \<and>
    socks st0 = socks st \<and> alloc st0 = alloc st \<and> (\<forall>b. b \<noteq> fde \<longrightarrow> fdes st0 b = fdes st b)"
proof -
  define st1 where "st1 = st\<lparr>jlinks := set_prv jdwp_list jdwp_list (set_nxt jdwp_list jdwp_list (jlinks st)),
     trlinks := set_prv jdwp_trackers_list jdwp_trackers_list (set_nxt jdwp_trackers_list jdwp_trackers_list (trlinks st))\<rparr>"
  have g1: "jdwp_good st1 [] []"
    using st by (auto simp: before_jdwp_def st1_def jdwp_good_def jdwp_inv_def procs_ok_def trackers_ok_def current_def ring_self fd_ok_def fd_inv_def)
  have keep: "jdwp_good st' [] []" if "fdstate.more st' = fdstate.more st2" "fd_ok st'" "jdwp_good st2 [] []" for st' st2 :: "'a jdwpst_scheme"
    using that(2,3) jdwp_more [OF that(1)] by (auto simp: jdwp_good_def jdwp_inv_def procs_ok_def trackers_ok_def current_def)
  have gc: "jdwp_good (st'\<lparr>control_fde := f\<rparr>) [] [] = jdwp_good st' [] []" "jdwp_good (st'\<lparr>listen_socket := i\<rparr>) [] [] = jdwp_good st' [] []"
    for st' :: "'a jdwpst_scheme" and f i by (auto simp: jdwp_good_def jdwp_inv_def procs_ok_def trackers_ok_def current_def fd_ok_def fd_inv_def)
  have len: "\<not> 108 \<le> length JDWP_CONTROL_NAME" by (simp add: JDWP_CONTROL_NAME_def)
  show ?thesis
  proof (cases "s < 0 \<or> \<not> bound \<or> \<not> listening")
    case True
    then show ?thesis using g1 len by (auto simp: init_jdwp_def st1_def [symmetric] jdwp_control_init_def) (auto simp: st1_def close_fd_def)
  next
    case False
    define st2 where "st2 = st1\<lparr>listen_socket := s\<rparr>"
    obtain xs where xs: "fd_inv st2 xs" "installable fde s st2"
      using st inst by (auto simp: before_jdwp_def fd_ok_def fd_inv_def st2_def st1_def installable_def)
    obtain st3 where st3: "fdevent_create env (Some fde) s Jdwp_control_event jdwp_control st2 = Inr (fde, st3)" "fd_inv st3 xs"
      "fdes st3 = (fdes st2)(fde \<mapsto> (fresh_fde s Jdwp_control_event jdwp_control)\<lparr>fde_state := FDE_ACTIVE OR FDE_CREATED\<rparr>)"
      by (rule fdevent_create_inv [OF xs(1) env xs(2)])
    have g3: "jdwp_good (st3\<lparr>control_fde := fde\<rparr>) [] []"
      unfolding gc by (rule keep [OF fdevent_create_more [OF st3(1)]]) (use st3(2) g1 in \<open>auto simp: fd_ok_def st2_def gc\<close>)
    then have "fd_ok (st3\<lparr>control_fde := fde\<rparr>)" by (simp add: jdwp_good_def jdwp_inv_def)
    then obtain st4 where st4: "(if True then fdevent_add else fdevent_del) fde FDE_READ (st3\<lparr>control_fde := fde\<rparr>) = Inr st4" "fd_ok st4"
      "fdstate.more st4 = fdstate.more (st3\<lparr>control_fde := fde\<rparr>)" "\<exists>f. fdes st4 = (fdes (st3\<lparr>control_fde := fde\<rparr>))(fde \<mapsto> f)"
      by (rule fd_flag [where b = True and ev = FDE_READ and a = fde]) (use st3(3) in \<open>auto simp: fresh_fde_def flag_simps\<close>)
    moreover have "socks st4 = socks st" "alloc st4 = alloc st"
      using jdwp_more [OF st4(3)] jdwp_more [OF fdevent_create_more [OF st3(1)]] by (simp_all add: st2_def st1_def)
    moreover have "fdes st4 b = fdes st b" if "b \<noteq> fde" for b using that st4(4) st3(3) by (auto simp: st2_def st1_def)
    moreover have "init_jdwp env (Some fde) s bound listening st = Inr (0, st4)"
      using False len st3(1) st4(1) inst by (simp add: init_jdwp_def st1_def [symmetric] jdwp_control_init_def st2_def [symmetric] Let_def installable_def)
    ultimately show ?thesis using keep [OF st4(3,2) g3] by blast
  qed
qed

text \<open>
  C9: The trackers are always up to date. After \<open>init_jdwp\<close>, whatever happens in whatever order (processes connect, announce themselves, send more, go away;
  debuggers ask for connections; trackers are opened, made ready and closed; calls are interrupted or fail), no operation faults, the list of processes holds
  exactly the processes that are connected, none has more descriptors waiting than fit, and the last message on the stream of every tracker that was
  ready once is the list of the process numbers at this moment, as long as it has less than 1020 characters.
\<close>

theorem jdwp_trackers_current:
  assumes "before_jdwp st" and "env_ok env" and "installable fde s st"
    and "init_jdwp env (Some fde) s bound listening st = Inr (r, st0)" and "ops_ok env ops st0"
  shows "\<exists>st' ps. jdwp_run env ops st0 = Some (Inr st') \<and> ring (jlinks st') jdwp_list ps \<and>
    (\<forall>a. a \<in> set ps \<longleftrightarrow> jprocs st' a \<noteq> None) \<and> (\<forall>a x. jprocs st' a = Some x \<longrightarrow> out_count x \<le> MAX_OUT_FDS) \<and>
    (\<forall>t. need_update st' t = Some False \<longrightarrow> length (concat (map pid_line (pids (jprocs st') ps))) < 1020 \<longrightarrow>
       (let ls = concat (map pid_line (pids (jprocs st') ps)) in
        heard_by (socks st') (sent st') t \<noteq> [] \<and> last (heard_by (socks st') (sent st') t) = fmt_04x (length ls) @ ls))"
proof -
  obtain r' st1 where i: "init_jdwp env (Some fde) s bound listening st = Inr (r', st1)" "jdwp_good st1 [] []"
    using init_good [OF assms(1-3), of bound listening] by auto
  then have "st1 = st0" using assms(4) by simp
  then obtain st' ps ts where run: "jdwp_run env ops st0 = Some (Inr st')" "jdwp_good st' ps ts"
    using run_good [of st0 "[]" "[]" env ops] i(2) assms(5) by auto
  have "last_is {fmt_04x (length ls) @ ls} (heard_by (socks st') (sent st') t)"
    if t: "need_update st' t = Some False" and l: "length ls < 1020" and e: "ls = concat (map pid_line (pids (jprocs st') ps))" for t ls
  proof -
    have "t \<in> set ts" using good_members [OF run(2), of t] t by simp
    moreover have "pid_msg n (pids (jprocs st') ps) = fmt_04x (length ls) @ ls" if "1024 \<le> n" for n
      using pid_text_all [of "pids (jprocs st') ps" "n - 4"] that l by (simp add: pid_msg_def e)
    then have "lists_of (pids (jprocs st') ps) = {fmt_04x (length ls) @ ls}" by (simp add: lists_of_def MAX_PAYLOAD_def)
    ultimately show ?thesis using run(2) t by (auto simp: jdwp_good_def current_def)
  qed
  then show ?thesis using run
    by (intro exI [of _ st'] exI [of _ ps]) (auto simp: jdwp_good_def jdwp_inv_def procs_ok_def proc_ok_def last_is_def Let_def)
qed

definition no_links :: links where "no_links = \<lparr>nxt = (\<lambda>_. NULL), prv = (\<lambda>_. NULL)\<rparr>"

definition jdwp_start :: jdwpst where
  "jdwp_start =
     adbst.extend
       (lsnst.extend
         (sockst.extend
           (fdstate.extend fd_start
             (sockst.fields Map.empty (list_init local_socket_list no_links) (list_init 30 no_links) 1 [] (\<lambda>_. []) (\<lambda>_. []) (\<lambda>_. [])
               (replicate MAX_PAYLOAD CHR 0x00)))
           (lsnst.fields Map.empty no_links))
         (adbst.fields Map.empty (- 1) 0 0 False [] 0 [21]))
       (jdwpst.fields Map.empty no_links Map.empty Map.empty no_links (- 1) 0 [])"

lemmas jdwp_start_defs = jdwp_start_def fdstate.defs sockst.defs lsnst.defs adbst.defs jdwpst.defs

definition jdwp_started :: "int \<times> jdwpst" where
  "jdwp_started = projr (init_jdwp env32 (Some 10) 3 True True jdwp_start)"

lemma jdwp_start_before: "before_jdwp jdwp_start" "installable 10 3 jdwp_start"
  using fd_start_inv
  by (auto simp: before_jdwp_def jdwp_start_defs fd_ok_def fd_inv_def installable_def list_pending_def) (auto simp: fd_start_def)

lemma jdwp_started_init: "init_jdwp env32 (Some 10) 3 True True jdwp_start = Inr jdwp_started" "jdwp_good (snd jdwp_started) [] []"
  "socks (snd jdwp_started) = Map.empty" "alloc (snd jdwp_started) = [21]" "b \<noteq> 10 \<Longrightarrow> fdes (snd jdwp_started) b = None"
proof -
  have "env_ok env32" by (simp add: env_ok_def env32_def)
  then obtain r st0 where st0: "init_jdwp env32 (Some 10) 3 True True jdwp_start = Inr (r, st0)" "jdwp_good st0 [] []"
    "socks st0 = socks jdwp_start" "alloc st0 = alloc jdwp_start" "\<forall>b. b \<noteq> 10 \<longrightarrow> fdes st0 b = fdes jdwp_start b"
    using init_good [OF jdwp_start_before(1) _ jdwp_start_before(2), of env32 True True] by blast
  have js: "jdwp_started = (r, st0)" by (simp add: jdwp_started_def st0(1))
  have "socks jdwp_start = Map.empty" "alloc jdwp_start = [21]" "fdes jdwp_start = Map.empty" by (simp_all add: jdwp_start_defs fd_start_def)
  with st0 show "init_jdwp env32 (Some 10) 3 True True jdwp_start = Inr jdwp_started" "jdwp_good (snd jdwp_started) [] []"
    "socks (snd jdwp_started) = Map.empty" "alloc (snd jdwp_started) = [21]" "b \<noteq> 10 \<Longrightarrow> fdes (snd jdwp_started) b = None" by (simp_all add: js)
qed

definition sample_ops :: "jdwp_op list" where
  "sample_ops = [Track 20 5 30]"

theorem jdwp_trackers_current_witness:
  "\<exists>st'. jdwp_run env32 sample_ops (snd jdwp_started) = Some (Inr st') \<and> last (heard_by (socks st') (sent st') 20) = ''0000''"
proof -
  obtain r st0 where st0: "jdwp_started = (r, st0)" by fastforce
  have e: "env_ok env32" by (simp add: env_ok_def env32_def)
  have i: "init_jdwp env32 (Some 10) 3 True True jdwp_start = Inr (r, st0)" using jdwp_started_init(1) st0 by simp
  have f: "fdes (snd jdwp_started) 20 = None \<and> fdes (snd jdwp_started) 21 = None \<and> socks (snd jdwp_started) 20 = None \<and> socks (snd jdwp_started) 21 = None \<and>
    alloc (snd jdwp_started) = [21]" using jdwp_started_init(3-5) by simp
  then have ok: "ops_ok env32 sample_ops st0"
    by (simp add: sample_ops_def st0 op_ok_def fresh_socket_def list_pending_def jdwp_trackers_list_def split: option.split sum.split)
  have "\<exists>st'. open_tracker 20 5 30 st0 = Some (Inr st') \<and> jdwp_good st' [] ([] @ [20]) \<and> need_update st' 20 = Some False"
    by (rule open_good) (use jdwp_started_init(2) f in \<open>auto simp: st0 fresh_socket_def list_pending_def jdwp_trackers_list_def\<close>)
  then obtain st1 where op: "open_tracker 20 5 30 st0 = Some (Inr st1)" "jdwp_good st1 [] [20]" "need_update st1 20 = Some False" by auto
  then have st1: "jdwp_run env32 sample_ops st0 = Some (Inr st1)" "ring (jlinks st1) jdwp_list []" "need_update st1 20 = Some False"
    by (simp_all add: sample_ops_def jdwp_exec_def bindO_def jdwp_good_def jdwp_inv_def procs_ok_def)
  from jdwp_trackers_current [OF jdwp_start_before(1) e jdwp_start_before(2) i ok] obtain st' ps where
    run: "jdwp_run env32 sample_ops st0 = Some (Inr st')" and r: "ring (jlinks st') jdwp_list ps"
    and h: "\<forall>t. need_update st' t = Some False \<longrightarrow> length (concat (map pid_line (pids (jprocs st') ps))) < 1020 \<longrightarrow>
       (let ls = concat (map pid_line (pids (jprocs st') ps)) in
        heard_by (socks st') (sent st') t \<noteq> [] \<and> last (heard_by (socks st') (sent st') t) = fmt_04x (length ls) @ ls)" by blast
  have "st' = st1" using run st1(1) by simp
  then have "ps = []" "need_update st' 20 = Some False" using st1(2,3) ring_unique [OF r] by simp_all
  with h have "last (heard_by (socks st') (sent st') 20) = fmt_04x 0" by (simp add: pids_def Let_def)
  moreover have "fmt_04x 0 = ''0000''" by code_simp
  ultimately show ?thesis using run by (simp add: st0)
qed

section \<open>Faults\<close>

lemma close_all_tracker:
  assumes inv: "jdwp_inv st ps [t]" and l: "ring (slinks st) local_socket_list [t]"
    and s: "socks st t = Some s" "s_pkts s = []" "\<not> s_exit_on_close s" and q: "socks st (s_peer s) = Some q" "s_shutdown q = Remote_socket_shutdown"
    and f: "fdes st t = Some f" and nn: "socks st NULL = None"
  shows "\<exists>st'. close_all_sockets (s_transport q) st = Some (Inr st') \<and> socks st' t = None \<and> need_update st' = need_update st \<and> trlinks st' = trlinks st \<and>
    jprocs st' = jprocs st \<and> jlinks st' = jlinks st"
proof -
  have tok: "tracker_ok (socks st) (fdes st) t" using inv by (simp add: jdwp_inv_def trackers_ok_def)
  then have q': "s_close q = Remote_socket_close" "s_peer q = t" "s_transport q \<noteq> NULL" "s_peer s \<noteq> t" "s_peer s \<noteq> NULL" "\<not> active f" "\<not> pending f"
    using s q f by (auto simp: tracker_ok_def idle_fde_def)
  have tn: "t \<noteq> NULL" using s(1) nn by (metis option.distinct(1))
  let ?p = "s_peer s"
  define st0 where "st0 = st\<lparr>sent := sent st @ [(s_transport q, close_packet (s_id s) (s_id q) (fresh_payload st))]\<rparr>"
  have sd: "remote_socket_shutdown ?p st = Inr st0" unfolding st0_def by (rule remote_shutdown_eq [OF q(1) q'(3,2) s(1) tn])
  define st1 where "st1 = set_sock ?p (q\<lparr>s_peer := NULL\<rparr>) st0"
  have u1: "upd_sock ?p (\<lambda>q. q\<lparr>s_peer := NULL\<rparr>) st0 = Inr st1" using q by (simp add: upd_sock_def st1_def st0_def)
  define st2 where "st2 = free_sock ?p (st1\<lparr>dlinks := remove_transport_disconnect ?p (dlinks st)\<rparr>)"
  have c: "socket_close 3 ?p st1 = Inr st2"
    using q'(1) by (simp add: numeral_3_eq_3 st1_def st0_def set_sock_def remote_socket_close_def st2_def)
  define st3 where "st3 = set_sock t (s\<lparr>s_peer := NULL\<rparr>) st2"
  have s1: "socks st1 t = Some s" "socks st2 t = Some s" using s(1) q'(4) by (simp_all add: st2_def st1_def st0_def free_sock_def set_sock_def)
  have u2: "upd_sock t (\<lambda>s. s\<lparr>s_peer := NULL\<rparr>) st2 = Inr st3" using s1 by (simp add: upd_sock_def st3_def)
  have cp: "close_peer_of (socket_close 3) t st = Inr st3"
    unfolding close_peer_of_def
    by (simp only: deref_Some [of "socks st" t s, OF s(1)] deref_Some [of "socks st" ?p q, OF q(1)] bindE_Inr q(2) shutdown_fn.case sd u1
        deref_Some [of "socks st1" t s, OF s1(1)] c u2)
  have f3: "fdes st3 t = Some f" "slinks st3 = slinks st" "socks st3 t = Some (s\<lparr>s_peer := NULL\<rparr>)"
    using f q'(4) by (simp_all add: st3_def st2_def st1_def st0_def free_sock_def set_sock_def)
  define st4 where "st4 = upd_fde t (f\<lparr>fde_state := 0, fde_events := 0\<rparr>) st3"
  have r: "fdevent_remove t st3 = Inr st4" using f3(1) q'(6,7) by (simp add: fdevent_remove_def has_flag st4_def)
  have lk: "nxt (slinks st) t = local_socket_list" "prv (slinks st) t = local_socket_list" using l by (simp_all add: ring_def)
  define st5 where "st5 = free_sock t (set_sock t (s\<lparr>s_peer := NULL, s_id := 0\<rparr>) (st4\<lparr>slinks := unlink_socket t (slinks st)\<rparr>))"
  have d: "local_socket_destroy t st3 = Inr st5"
    using f3 s(3) r lk by (simp add: local_socket_destroy_def remove_socket_def upd_sock_def st4_def upd_fde_def local_socket_list_def st5_def)
  have close: "local_socket_close_locked (socket_close 3) t st = Inr st5"
    using s cp f3(3) d q'(5) by (simp add: local_socket_close_locked_def)
  have first: "first_using (s_transport q) st [t] = Inr t" using s(1) q(1) q'(5) by (simp add: uses_transport_def)
  have "ring (slinks st5) local_socket_list []"
    using ll.del_ring [OF l, of t] by (simp add: st5_def free_sock_def set_sock_def st4_def upd_fde_def)
  then have "close_all_sockets (s_transport q) st5 = Some (Inr st5)" by (subst close_all_sockets.simps) (simp add: ring_nodes)
  then have "close_all_sockets (s_transport q) st = Some (Inr st5)"
    by (subst close_all_sockets.simps) (simp add: ring_nodes [OF l] first tn close del: first_using.simps)
  then show ?thesis
    by (auto simp: st5_def free_sock_def set_sock_def st4_def upd_fde_def st3_def st2_def st1_def st0_def)
qed

text \<open>
  A tracker survives its transport as a dangling pointer. \<open>close_all_sockets\<close>, which runs when the connection of a transport ends, closes every socket of the
  list of local sockets as if it were bound to a descriptor, trackers too: the tracker is freed but stays in the list of trackers, and the next
  change of the list of processes accesses it.
\<close>

theorem jdwp_tracker_after_free:
  assumes "jdwp_inv st ps [t]" and "ring (slinks st) local_socket_list [t]"
    and "socks st t = Some s" and "s_pkts s = []" and "\<not> s_exit_on_close s"
    and "socks st (s_peer s) = Some q" and "s_shutdown q = Remote_socket_shutdown"
    and "fdes st t \<noteq> None" and "socks st NULL = None"
  shows "\<exists>st'. close_all_sockets (s_transport q) st = Some (Inr st') \<and> socks st' t = None \<and> ring (trlinks st') jdwp_trackers_list [t] \<and>
    jdwp_process_list_updated st' = Some (Inl (Bad_access ''asocket''))"
proof -
  obtain f where f: "fdes st t = Some f" using assms(8) by auto
  obtain st' where st': "close_all_sockets (s_transport q) st = Some (Inr st')" "socks st' t = None" "need_update st' = need_update st"
    "trlinks st' = trlinks st" "jprocs st' = jprocs st" "jlinks st' = jlinks st"
    using close_all_tracker [OF assms(1-7) f assms(9)] by blast
  have p: "ring (jlinks st') jdwp_list ps" "\<forall>a\<in>set ps. jprocs st' a \<noteq> None" "small_pids (pids (jprocs st') ps)"
    and r: "ring (trlinks st') jdwp_trackers_list [t]" and n: "need_update st' t \<noteq> None"
    using assms(1) small_pidsI [of "jprocs st" "fdes st" "jlinks st" ps] by (auto simp: jdwp_inv_def procs_ok_def trackers_ok_def st')
  obtain m b where "jdwp_process_list_msg (replicate 1024 CHR 0x00) st' = Some (Inr (m, b))"
    using jdwp_process_list_msg_text [OF p, of "replicate 1024 CHR 0x00"] by auto
  moreover obtain v where "need_update st' t = Some v" using n by auto
  then have "tell_tracker msg t st' = Inl (Bad_access ''asocket'')" for msg
    using st'(2) deref_Some [of "need_update st'" t v] by (simp add: tell_tracker_def)
  moreover have "nxt (trlinks st') jdwp_trackers_list = t" "t \<noteq> jdwp_trackers_list" using r by (auto simp: ring_def)
  ultimately have "jdwp_process_list_updated st' = Some (Inl (Bad_access ''asocket''))"
    by (simp add: jdwp_process_list_updated_def bindO_def tell_trackers.simps)
  then show ?thesis using st'(1,2) r by blast
qed

definition tracker_sample :: jdwpst where
  "tracker_sample = jdwp_start\<lparr>socks := [20 \<mapsto> tracker_socket 1 21, 21 \<mapsto> remote_socket 5 30 20], fdes := (fdes jdwp_start)(20 \<mapsto> zero_fde),
     slinks := list_add_tail local_socket_list 20 (list_init local_socket_list no_links),
     jlinks := list_init jdwp_list no_links, trlinks := list_add_tail jdwp_trackers_list 20 (list_init jdwp_trackers_list no_links),
     need_update := [20 \<mapsto> False]\<rparr>"

lemma ring_init: "ring (list_init l h) l []"
  by (simp add: ring_def list_init_def)

lemma tracker_sample_inv: "jdwp_inv tracker_sample [] [20]"
proof -
  have "fd_ok (jdwp_start\<lparr>fdes := (fdes jdwp_start)(20 \<mapsto> zero_fde)\<rparr>)"
    by (rule fd_ok_zero) (use jdwp_start_before(1) in \<open>auto simp: before_jdwp_def jdwp_start_defs fd_start_def list_pending_def\<close>)
  then have fd: "fd_ok tracker_sample" by (simp add: tracker_sample_def fd_ok_def fd_inv_def)
  have r: "ring (trlinks tracker_sample) jdwp_trackers_list ([] @ [20])"
    unfolding tracker_sample_def by (simp add: jdwp_trackers_list_def ring_add_tail [OF ring_init, simplified])
  have f: "fdes jdwp_start = Map.empty" "jprocs jdwp_start = Map.empty" "length (fresh_payload jdwp_start) = MAX_PAYLOAD"
    by (simp_all add: jdwp_start_defs fd_start_def)
  have "tracker_ok (socks tracker_sample) (fdes tracker_sample) 20"
    by (simp add: tracker_ok_def idle_fde_def tracker_sample_def f tracker_socket_def remote_socket_def zero_fde_def)
  then show ?thesis using fd r f
    by (auto simp: jdwp_inv_def procs_ok_def trackers_ok_def) (auto simp: tracker_sample_def ring_init f split: if_splits)
qed

theorem jdwp_tracker_after_free_witness:
  "\<exists>st'. close_all_sockets 30 tracker_sample = Some (Inr st') \<and> socks st' 20 = None \<and>
     jdwp_process_list_updated st' = Some (Inl (Bad_access ''asocket''))"
proof -
  have "ring (slinks tracker_sample) local_socket_list ([] @ [20])"
    unfolding tracker_sample_def by (simp add: local_socket_list_def ring_add_tail [OF ring_init, simplified])
  then have l: "ring (slinks tracker_sample) local_socket_list [20]" by simp
  have s: "socks tracker_sample 20 = Some (tracker_socket 1 21)" "socks tracker_sample (s_peer (tracker_socket 1 21)) = Some (remote_socket 5 30 20)"
    "s_transport (remote_socket 5 30 20) = 30" "fdes tracker_sample 20 \<noteq> None" "socks tracker_sample NULL = None"
    by (simp_all add: tracker_sample_def tracker_socket_def remote_socket_def)
  from jdwp_tracker_after_free [OF tracker_sample_inv l s(1) _ _ s(2) _ s(4,5)] show ?thesis
    by (auto simp: s(3)) (auto simp: tracker_socket_def remote_socket_def blank_socket_def)
qed

text \<open>
  A descriptor is closed twice. When the blocking mode of a control connection cannot be restored after a descriptor was handed over, the entry of
  the queue was shifted but not yet counted out: the last descriptor of the queue (with one waiting, the one just handed over and closed) is closed a second time.
\<close>

theorem jdwp_closes_twice:
  assumes "jdwp_inv st ps ts" and "jprocs st a = Some x" and "out_count x = Suc n"
    and "\<not> has ev FDE_READ" and "has ev FDE_WRITE" and "get_fl fl" and "clear_fl fl" and "\<not> restore_fl fl"
    and "fst (send_rights (wr_script st (j_socket x)))"
  shows "\<exists>st'. jdwp_process_event fl (j_socket x) ev a st = Some (Inr st') \<and> jprocs st' a = None \<and>
    closed_fds st' = closed_fds st @ [out_fds x ! 0, j_socket x] @ take n (drop 1 (out_fds x)) @ [out_fds x ! n]"
proof -
  have inv: "jdwp_inv st ps ts" by (rule assms(1))
  have px: "proc_ok (fdes st) a x" using inv assms(2) by (simp add: jdwp_inv_def procs_ok_def)
  have n: "n < length (out_fds x)" "length (out_fds x) = MAX_OUT_FDS" using px assms(3) by (simp_all add: proc_ok_def)
  obtain s where s: "send_rights (wr_script st (j_socket x)) = (True, s)" using assms(9) by (metis prod.collapse)
  define x1 where "x1 = x\<lparr>out_fds := shift_fds (Suc n) (out_fds x)\<rparr>"
  define st1 where "st1 = set_proc a x1 (close_fd (out_fds x ! 0) (st\<lparr>wr_script := (wr_script st)(j_socket x := s),
    passed := passed st @ [(j_socket x, out_fds x ! 0)]\<rparr>))"
  have eq: "process_writable fl a st = jdwp_process_free a st1"
    using assms n s by (simp add: process_writable_def bindO_def Let_def st1_def x1_def)
  have "proc_ok (fdes st) a x1" using px n assms(3) by (auto simp: x1_def proc_ok_def shift_fds_length)
  then have i1: "jdwp_inv st1 ps ts" unfolding st1_def
    by (intro inv_upd [where x = x]) (use inv assms(2) in \<open>auto simp: x1_def jdwp_inv_def fd_ok_def fd_inv_def close_fd_def\<close>)
  have a1: "jprocs st1 a = Some x1" "a \<noteq> NULL"
    using inv assms(2) unfolding st1_def jdwp_inv_def procs_ok_def by (simp, metis option.distinct(1))
  obtain st2 where st2: "release_process a st1 = Inr st2" "jdwp_inv st2 (remove1 a ps) ts"
    "closed_fds st2 = closed_fds st1 @ j_socket x1 # take (out_count x1) (out_fds x1)"
    using release_process_inv [OF i1 a1(1)] by blast
  have "a \<notin> set (remove1 a ps)" using inv ring_distinct(1) by (auto simp: jdwp_inv_def procs_ok_def)
  then have gone: "jprocs st2 a = None" using st2(2) by (auto simp: jdwp_inv_def procs_ok_def)
  have "take (Suc n) (shift_fds (Suc n) (out_fds x)) = take n (drop 1 (out_fds x)) @ [out_fds x ! n]"
    using n(1) by (simp add: shift_fds_def take_Suc_conv_app_nth Cons_nth_drop_Suc [symmetric])
  then have c: "closed_fds st2 = closed_fds st @ [out_fds x ! 0, j_socket x] @ take n (drop 1 (out_fds x)) @ [out_fds x ! n]"
    using st2(3) assms(3) by (simp add: x1_def st1_def close_fd_def set_proc_def)
  have "jdwp_process_event fl (j_socket x) ev a st = jdwp_process_list_updated st2"
    using assms(4,5) eq a1(2) st2(1) by (simp add: jdwp_process_event_def bindO_def jdwp_process_free_def)
  then show ?thesis using list_updated_broadcast [OF st2(2)] gone c by simp
qed

text \<open>A process with one descriptor waiting.\<close>

definition waiting_process :: jdwp_process where
  "waiting_process = \<lparr>j_pid = 65, j_socket = 7, j_fde = 41, in_buff = ''0041'', in_len = 4, out_fds = [8, 0, 0, 0], out_count = 1\<rparr>"

definition process_fde :: "u16 \<Rightarrow> fdevent" where
  "process_fde state = \<lparr>fde_fd = 7, fde_force_eof = False, fde_state = state, fde_events = 0, fde_func = Jdwp_process_event, fde_arg = 40\<rparr>"

definition process_sample :: "jdwp_process \<Rightarrow> u16 \<Rightarrow> int set \<Rightarrow> jdwpst" where
  "process_sample x state wr = jdwp_start\<lparr>fdes := [41 \<mapsto> process_fde state], fd_table := replicate 7 0 @ [41], read_fds := {7}, write_fds := wr, select_n := 8,
     jprocs := [40 \<mapsto> x], jlinks := list_add_tail jdwp_list 40 (list_init jdwp_list no_links), trlinks := list_init jdwp_trackers_list no_links\<rparr>"

lemma process_sample_inv:
  assumes s: "bit state 0" "bit state 7" "bit state 8" "\<not> bit state 9" "bit state 10" "\<not> bit state 2" "bit state 1 = (0 < out_count x)"
    and w: "wr = (if bit state 1 then {7} else {})"
    and x: "j_pid x < 65536" "j_socket x = 7" "j_fde x = 41" "length (in_buff x) = 4" "in_len x \<le> 4" "length (out_fds x) = MAX_OUT_FDS" "out_count x \<le> MAX_OUT_FDS"
  shows "jdwp_inv (process_sample x state wr) [40] []"
proof -
  let ?st = "process_sample x state wr" and ?h = "[41 \<mapsto> process_fde state] :: fdheap"
  have watch: "watch ?h k i \<longleftrightarrow> i = 7 \<and> bit state k" for k i using s by (auto simp: watch_def process_fde_def)
  have "plinks ?st = plinks fd_start" by (simp add: process_sample_def jdwp_start_defs)
  then have "pend_ok ?h (plinks ?st) []" using fd_start_inv s by (auto simp: fd_inv_def pend_ok_def process_fde_def fd_start_def)
  moreover have "sets_ok ?h {7} wr {}" using s w by (auto simp: sets_ok_def watch)
  moreover have "table_ok ?h (replicate 7 0 @ [41])" using s by (auto simp: table_ok_def process_fde_def nth_append less_Suc_eq numeral_eq_Suc)
  moreover have "heap_ok ?h" using s by (auto simp: heap_ok_def process_fde_def list_pending_def split: if_splits)
  moreover have "select_ok ?h (replicate 7 0 @ [41]) 8" by (auto simp: select_ok_def process_fde_def split: if_splits)
  moreover have "fdes ?st = ?h" "fd_table ?st = replicate 7 0 @ [41]" "read_fds ?st = {7}" "write_fds ?st = wr" "error_fds ?st = {}" "select_n ?st = 8"
    by (simp_all add: process_sample_def jdwp_start_defs fd_start_def)
  ultimately have "fd_inv ?st []" by (simp add: fd_inv_def)
  moreover have "ring (jlinks ?st) jdwp_list ([] @ [40])"
    unfolding process_sample_def by (simp add: jdwp_list_def ring_add_tail [OF ring_init, simplified])
  moreover have "proc_ok ?h 40 x" using s x by (simp add: proc_ok_def process_fde_def)
  ultimately show ?thesis
    by (auto simp: jdwp_inv_def procs_ok_def trackers_ok_def fd_ok_def) (auto simp: process_sample_def jdwp_start_defs ring_init split: if_splits)
qed
lemma flag_facts: "\<not> has FDE_WRITE FDE_READ" "has FDE_WRITE FDE_WRITE" "has FDE_READ FDE_READ" "\<not> has FDE_READ FDE_WRITE"
  by code_simp+

lemma waiting_inv: "jdwp_inv (process_sample waiting_process 0x583 {7}) [40] []"
  by (rule process_sample_inv) (simp_all add: waiting_process_def MAX_OUT_FDS_def bit_simps)

lemma process_sample_fields [simp]:
  "jprocs (process_sample x state wr) = [40 \<mapsto> x]" "wr_script (process_sample x state wr) i = []" "closed_fds (process_sample x state wr) = []"
  "rd_script (process_sample x state wr) = rd_script jdwp_start"
  by (simp_all add: process_sample_def jdwp_start_defs fd_start_def)

theorem jdwp_closes_twice_witness:
  "\<exists>st'. jdwp_process_event \<lparr>get_fl = True, clear_fl = True, restore_fl = False\<rparr> 7 FDE_WRITE 40 (process_sample waiting_process 0x583 {7}) = Some (Inr st') \<and>
     closed_fds st' = [8, 7, 8]"
proof -
  have j: "jprocs (process_sample waiting_process 0x583 {7}) 40 = Some waiting_process" "out_count waiting_process = Suc 0"
    by (simp_all add: waiting_process_def)
  from jdwp_closes_twice [OF waiting_inv j flag_facts(1,2), of "\<lparr>get_fl = True, clear_fl = True, restore_fl = False\<rparr>"] show ?thesis
    by (auto simp: waiting_process_def)
qed

text \<open>\<open>n\<close> times the event of a readable connection.\<close>

fun readable_again :: "nat \<Rightarrow> fcntl_res \<Rightarrow> int \<Rightarrow> addr \<Rightarrow> 'z jdwpst_scheme \<Rightarrow> 'z jdwpst_scheme outcome option" where
  "readable_again 0 fl fd a st = Some (Inr st)"
| "readable_again (Suc n) fl fd a st = bindO (jdwp_process_event fl fd FDE_READ a st) (readable_again n fl fd a)"

definition stuck_process :: "jdwp_process \<Rightarrow> bool" where
  "stuck_process x \<longleftrightarrow> j_pid x < 0 \<and> in_len x = 4 \<and> (\<exists>pid < 0. scan_pid (in_buff x) = Some pid)"

lemma stuck_step:
  assumes inv: "jdwp_inv st ps ts" and x: "jprocs st a = Some x" "stuck_process x"
  shows "\<exists>st' x'. jdwp_process_event fl (j_socket x) FDE_READ a st = Some (Inr st') \<and> jdwp_inv st' ps ts \<and> jprocs st' a = Some x' \<and> stuck_process x' \<and>
    j_socket x' = j_socket x \<and> j_fde x' = j_fde x \<and> rd_script st' = rd_script st \<and> fdes st' = fdes st \<and> length (sent st') = length (sent st) + length ts"
proof -
  obtain pid where pid: "pid < 0" "scan_pid (in_buff x) = Some pid" and l: "in_len x = 4" "j_pid x < 0" using x(2) by (auto simp: stuck_process_def)
  define x' where "x' = x\<lparr>j_pid := pid\<rparr>"
  define st1 where "st1 = set_proc a x' (set_proc a x st)"
  have px: "proc_ok (fdes st) a x" using inv x(1) by (simp add: jdwp_inv_def procs_ok_def)
  then have "proc_ok (fdes st) a x'" using pid by (auto simp: x'_def proc_ok_def)
  then have "jdwp_inv (set_proc a x' st) ps ts" by (intro inv_upd [OF inv x(1)]) (simp_all add: x'_def)
  then have i1: "jdwp_inv st1 ps ts" by (simp add: st1_def set_proc_def)
  have a: "a \<noteq> NULL" using inv x(1) by (metis jdwp_inv_def procs_ok_def option.distinct(1))
  have r: "recv_pid (j_socket x) x st = (Heard, x, st)" using l by (subst recv_pid.simps) simp
  define st2 where "st2 = broadcast (pids (jprocs st1) ps) ts st1"
  have "jdwp_process_list_updated st1 = Some (Inr st2)" unfolding st2_def by (rule list_updated_broadcast [OF i1])
  then have "process_readable (j_socket x) a st = Some (Inr (False, st2))"
    using a x(1) l r pid by (simp add: process_readable_def bindO_def st1_def x'_def set_proc_def)
  then have "jdwp_process_event fl (j_socket x) FDE_READ a st = Some (Inr st2)"
    by (simp add: jdwp_process_event_def bindO_def flag_facts)
  moreover have "stuck_process x'" using pid l by (simp add: stuck_process_def x'_def)
  ultimately show ?thesis using i1
    by (intro exI [of _ st2] exI [of _ x']) (auto simp: st2_def st1_def set_proc_def x'_def, auto simp: broadcast_def Let_def)
qed

text \<open>
  A process with a negative number never leaves. When the four characters a process announces itself with read as a negative number, its number stays
  unknown for the service: each event of its connection announces the list to all trackers again and reads nothing from the connection, although the
  event object keeps watching it, so not even the end of the connection is noticed.
\<close>

theorem jdwp_negative_pid:
  assumes "jdwp_inv st ps ts" and "jprocs st a = Some x" and "j_pid x < 0" and "in_len x = 4" and "scan_pid (in_buff x) = Some pid" and "pid < 0"
  shows "\<exists>st'. readable_again n fl (j_socket x) a st = Some (Inr st') \<and> jprocs st' a \<noteq> None \<and> rd_script st' = rd_script st \<and>
    (\<exists>f. fdes st' (j_fde x) = Some f \<and> bit (fde_state f) 0) \<and> length (sent st') = length (sent st) + n * length ts"
proof -
  have "stuck_process x" using assms(3-6) by (auto simp: stuck_process_def)
  moreover have "proc_ok (fdes st) a x" using assms(1,2) by (simp add: jdwp_inv_def procs_ok_def)
  then have "\<exists>f. fdes st (j_fde x) = Some f \<and> bit (fde_state f) 0" by (auto simp: proc_ok_def)
  ultimately show ?thesis using assms(1,2)
  proof (induction n arbitrary: st x)
    case 0
    then show ?case by simp
  next
    case (Suc n)
    obtain st1 x1 where s: "jdwp_process_event fl (j_socket x) FDE_READ a st = Some (Inr st1)" "jdwp_inv st1 ps ts" "jprocs st1 a = Some x1" "stuck_process x1"
      "j_socket x1 = j_socket x" "j_fde x1 = j_fde x" "rd_script st1 = rd_script st" "fdes st1 = fdes st" "length (sent st1) = length (sent st) + length ts"
      using stuck_step [OF Suc.prems(3,4,1)] by metis
    then obtain st' where "readable_again n fl (j_socket x) a st1 = Some (Inr st')" "jprocs st' a \<noteq> None" "rd_script st' = rd_script st"
      "\<exists>f. fdes st' (j_fde x) = Some f \<and> bit (fde_state f) 0" "length (sent st') = length (sent st) + Suc n * length ts"
      using Suc.IH [OF s(4) _ s(2,3)] Suc.prems(2) by auto
    with s(1) show ?case by (simp add: bindO_def)
  qed
qed

definition negative_process :: jdwp_process where
  "negative_process = \<lparr>j_pid = - 1, j_socket = 7, j_fde = 41, in_buff = ''-001'', in_len = 4, out_fds = [0, 0, 0, 0], out_count = 0\<rparr>"

theorem jdwp_negative_pid_witness:
  "\<exists>st'. readable_again 1000 \<lparr>get_fl = True, clear_fl = True, restore_fl = True\<rparr> 7 40 (process_sample negative_process 0x581 {}) = Some (Inr st') \<and> jprocs st' 40 \<noteq> None"
proof -
  have i: "jdwp_inv (process_sample negative_process 0x581 {}) [40] []"
    by (rule process_sample_inv) (simp_all add: negative_process_def MAX_OUT_FDS_def bit_simps)
  have x: "jprocs (process_sample negative_process 0x581 {}) 40 = Some negative_process" "j_pid negative_process < 0" "in_len negative_process = 4"
    by (simp_all add: negative_process_def)
  have "scan_pid (in_buff negative_process) = Some (- 1)" by code_simp
  from jdwp_negative_pid [OF i x this, of 1000 "\<lparr>get_fl = True, clear_fl = True, restore_fl = True\<rparr>"] show ?thesis by (auto simp: negative_process_def)
qed

end
