(* ===== verification/File_Sync.thy ===== *)
theory File_Sync
  imports Rwx "HOL-Library.Sublist"
begin

text \<open>
  The device side of \<open>adb push\<close>, \<open>pull\<close>, \<open>sync\<close> and \<open>ls\<close>: \<open>file_sync_service.c\<close> and the message formats of
  \<open>file_sync_service.h\<close>.

  \<open>syncst\<close> is the state of one service: the bytes the peer sends before it hangs up (\<open>inp\<close>), the
  the 64 KB \<open>buffer\<close> that the operations share, the bytes it accepted (\<open>outp\<close>) and the number of bytes it will still take (\<open>room\<close>: a \<open>writex\<close> that needs
  more fails), \<open>errno\<close>, and the log of the system calls made. The kernel is the first argument of every
  operation: the answer to a call, given the calls made before it. \<open>fs_config\<close> and \<open>strerror\<close>, which are
  not part of the sources, are fields of the same record.
\<close>

section \<open>Messages\<close>

definition MKID :: "char \<Rightarrow> char \<Rightarrow> char \<Rightarrow> char \<Rightarrow> u32" where
  "MKID a b c d = of_char a OR push_bit 8 (of_char b) OR push_bit 16 (of_char c) OR push_bit 24 (of_char d)"

definition ID_STAT :: u32 where "ID_STAT = MKID CHR ''S'' CHR ''T'' CHR ''A'' CHR ''T''"
definition ID_LIST :: u32 where "ID_LIST = MKID CHR ''L'' CHR ''I'' CHR ''S'' CHR ''T''"
definition ID_SEND :: u32 where "ID_SEND = MKID CHR ''S'' CHR ''E'' CHR ''N'' CHR ''D''"
definition ID_RECV :: u32 where "ID_RECV = MKID CHR ''R'' CHR ''E'' CHR ''C'' CHR ''V''"
definition ID_DENT :: u32 where "ID_DENT = MKID CHR ''D'' CHR ''E'' CHR ''N'' CHR ''T''"
definition ID_DONE :: u32 where "ID_DONE = MKID CHR ''D'' CHR ''O'' CHR ''N'' CHR ''E''"
definition ID_DATA :: u32 where "ID_DATA = MKID CHR ''D'' CHR ''A'' CHR ''T'' CHR ''A''"
definition ID_OKAY :: u32 where "ID_OKAY = MKID CHR ''O'' CHR ''K'' CHR ''A'' CHR ''Y''"
definition ID_FAIL :: u32 where "ID_FAIL = MKID CHR ''F'' CHR ''A'' CHR ''I'' CHR ''L''"
definition ID_QUIT :: u32 where "ID_QUIT = MKID CHR ''Q'' CHR ''U'' CHR ''I'' CHR ''T''"

lemmas sync_ids = ID_STAT_def ID_LIST_def ID_SEND_def ID_RECV_def ID_DENT_def ID_DONE_def ID_DATA_def
  ID_OKAY_def ID_FAIL_def ID_QUIT_def

definition SYNC_DATA_MAX :: nat where "SYNC_DATA_MAX = 64 * 1024"

text \<open>A message of the union \<open>syncmsg\<close> as it is written: its words, little-endian.\<close>

definition syncmsg :: "u32 list \<Rightarrow> byte list" where
  "syncmsg ws = concat (map le_bytes ws)"

section \<open>The kernel and the state\<close>

record fstat =
  st_mode :: u32
  st_size :: "64 word"
  st_mtime :: u32

datatype fscall =
    Lstat string
  | Mkdir string u32
  | Chown string u32 u32
  | Restorecon string
  | OpenExcl string u32
  | OpenWrite string u32
  | OpenRead string
  | Fchown u32 u32
  | Fchmod u32
  | WriteFile "byte list"
  | CloseFile
  | Unlink string
  | Utime string u32
  | Symlink string string
  | Readdir string
  | FileSize
  | CloseSocket

datatype sysres =
    Done
  | Err errno
  | Stat fstat
  | Names "string list"
  | Reads "rd_ev list"

record kernel =
  answer :: "fscall list \<Rightarrow> fscall \<Rightarrow> sysres"
  fs_config :: "string \<Rightarrow> bool \<Rightarrow> u32 \<times> u32 \<times> u32"
  strerror :: "errno \<Rightarrow> string"
  ulong_max :: nat

record syncst =
  inp :: "byte list"
  buffer :: "byte list"
  outp :: "byte list"
  room :: nat
  errno :: errno
  calls :: "fscall list"

text \<open>One system call: its answer, the log extended, \<open>errno\<close> set when it fails.\<close>

definition syscall :: "kernel \<Rightarrow> fscall \<Rightarrow> syncst \<Rightarrow> sysres \<times> syncst" where
  "syscall k c st =
     (let r = answer k (calls st) c;
          st = st\<lparr>calls := calls st @ [c]\<rparr>
      in (r, case r of Err e \<Rightarrow> st\<lparr>errno := e\<rparr> | _ \<Rightarrow> st))"

definition failed :: "sysres \<Rightarrow> bool" where
  "failed r = (case r of Err e \<Rightarrow> True | _ \<Rightarrow> False)"

text \<open>\<open>readx\<close> and \<open>writex\<close> on the service socket (the contract of \<open>Rwx\<close>).\<close>

definition sync_readx :: "nat \<Rightarrow> syncst \<Rightarrow> byte list option \<times> syncst" where
  "sync_readx n st =
     (case take_exact n (inp st) of
        None \<Rightarrow> (None, st\<lparr>inp := []\<rparr>)
      | Some (bs, rest) \<Rightarrow> (Some bs, st\<lparr>inp := rest\<rparr>))"

text \<open>\<open>readx\<close> into \<open>buffer\<close>: what lies behind the bytes read stays.\<close>

definition sync_readbuf :: "nat \<Rightarrow> syncst \<Rightarrow> byte list option \<times> syncst" where
  "sync_readbuf n st =
     (case sync_readx n st of
        (None, st) \<Rightarrow> (None, st)
      | (Some bs, st) \<Rightarrow> (Some bs, st\<lparr>buffer := bs @ drop n (buffer st)\<rparr>))"

definition sync_writex :: "byte list \<Rightarrow> syncst \<Rightarrow> bool \<times> syncst" where
  "sync_writex bs st =
     (if length bs \<le> room st then (True, st\<lparr>outp := outp st @ bs, room := room st - length bs\<rparr>)
      else (False, st\<lparr>outp := outp st @ take (room st) bs, room := 0\<rparr>))"

section \<open>Directories and replies\<close>

definition is_on_system :: "string \<Rightarrow> bool" where
  "is_on_system name = (take 8 name = ''/system/'')"

text \<open>The prefixes of \<open>name\<close> that the loop of \<open>mkdirs\<close> cuts off: one for each \<open>/\<close> after the first character.\<close>

definition dir_prefixes :: "string \<Rightarrow> string list" where
  "dir_prefixes name = map (\<lambda>i. take i name) (filter (\<lambda>i. name ! i = CHR ''/'') [1..<length name])"

text \<open>The loop of \<open>mkdirs\<close>: the current \<open>uid\<close>, \<open>gid\<close> and \<open>mode\<close> carry over from one directory to the next.
  True is the return value 0.\<close>

fun mkdirs_loop :: "kernel \<Rightarrow> string list \<Rightarrow> u32 \<times> u32 \<times> u32 \<Rightarrow> syncst \<Rightarrow> bool \<times> syncst" where
  "mkdirs_loop k [] own st = (True, st)"
| "mkdirs_loop k (name # names) own st =
     (let own = (if is_on_system name then fs_config k name True else own);
          (r, st) = syscall k (Mkdir name (snd (snd own))) st in
      case r of
        Err e \<Rightarrow> if e \<noteq> EEXIST then (False, st) else mkdirs_loop k names own st
      | _ \<Rightarrow>
          let (r, st) = syscall k (Chown name (fst own) (fst (snd own))) st in
          if failed r then (False, st)
          else let (r, st) = syscall k (Restorecon name) st
               in mkdirs_loop k names own st)"

definition mkdirs :: "kernel \<Rightarrow> string \<Rightarrow> syncst \<Rightarrow> bool \<times> syncst" where
  "mkdirs k name st =
     (if take 1 name \<noteq> ''/'' then (False, st)
      else mkdirs_loop k (dir_prefixes name) (- 1, - 1, 0x1fd) st)"

definition do_stat :: "kernel \<Rightarrow> string \<Rightarrow> syncst \<Rightarrow> bool \<times> syncst" where
  "do_stat k path st =
     (let (r, st) = syscall k (Lstat path) st in
      case r of
        Stat s \<Rightarrow> sync_writex (syncmsg [ID_STAT, st_mode s, ucast (st_size s), st_mtime s]) st
      | _ \<Rightarrow> sync_writex (syncmsg [ID_STAT, 0, 0, 0]) st)"

text \<open>
  The loop of \<open>do_list\<close>. \<open>tmp\<close> has \<open>1024 + 256 + 1\<close> bytes and receives the path, a slash, the name and
  its terminating zero.
\<close>

fun do_list_loop :: "kernel \<Rightarrow> string \<Rightarrow> string list \<Rightarrow> syncst \<Rightarrow> (bool \<times> syncst) outcome" where
  "do_list_loop k path [] st = Inr (True, st)"
| "do_list_loop k path (name # names) st =
     (if length name > 256 then do_list_loop k path names st
      else if length path + 1 + length name + 1 > 1024 + 256 + 1 then Inl (Bad_access ''tmp'')
      else let (r, st) = syscall k (Lstat (path @ ''/'' @ name)) st in
        case r of
          Stat s \<Rightarrow>
            let (ok, st) = sync_writex (syncmsg [ID_DENT, st_mode s, ucast (st_size s), st_mtime s,
                                                 of_nat (length name)]) st in
            if \<not> ok then Inr (False, st)
            else let (ok, st) = sync_writex name st in
                 if \<not> ok then Inr (False, st) else do_list_loop k path names st
        | _ \<Rightarrow> do_list_loop k path names st)"

definition do_list :: "kernel \<Rightarrow> string \<Rightarrow> syncst \<Rightarrow> (bool \<times> syncst) outcome" where
  "do_list k path st =
     (let (r, st) = syscall k (Readdir path) st in
      bindE (case r of Names names \<Rightarrow> do_list_loop k path names st | _ \<Rightarrow> Inr (True, st)) (\<lambda>(ok, st).
        if ok then Inr (sync_writex (syncmsg [ID_DONE, 0, 0, 0, 0]) st) else Inr (False, st)))"

definition fail_message :: "string \<Rightarrow> syncst \<Rightarrow> bool \<times> syncst" where
  "fail_message reason st =
     (let (ok, st) = sync_writex (syncmsg [ID_FAIL, of_nat (length reason)]) st in
      if ok then sync_writex reason st else (False, st))"

definition fail_errno :: "kernel \<Rightarrow> syncst \<Rightarrow> bool \<times> syncst" where
  "fail_errno k st = fail_message (strerror k (errno st)) st"

section \<open>Receiving a file\<close>

text \<open>\<open>goto fail\<close> of \<open>handle_send_file\<close>.\<close>

definition send_file_fail :: "kernel \<Rightarrow> bool \<Rightarrow> string \<Rightarrow> bool \<Rightarrow> syncst \<Rightarrow> bool \<times> syncst" where
  "send_file_fail k fd path do_unlink st =
     (let st = (if fd then snd (syscall k CloseFile st) else st);
          st = (if do_unlink then snd (syscall k (Unlink path) st) else st)
      in (False, st))"

lemma length_sync_readx:
  "Some bs = fst (sync_readx n st) \<Longrightarrow> length (inp st) = n + length (inp (snd (sync_readx n st)))"
  by (auto simp: sync_readx_def take_exact_def split: if_splits)

lemma length_sync_readbuf:
  "Some bs = fst (sync_readbuf n st) \<Longrightarrow> length (inp st) = n + length (inp (snd (sync_readbuf n st)))"
  by (auto simp: sync_readbuf_def sync_readx_def take_exact_def split: if_splits)

text \<open>
  The loop of \<open>handle_send_file\<close>; \<open>fd\<close> says whether the file is open. The result: \<open>Inl\<close> for a \<open>return\<close> inside
  the loop, \<open>Inr\<close> of the state of \<open>fd\<close> and the timestamp when the loop ends at \<open>ID_DONE\<close>.
\<close>

function send_file_loop ::
  "kernel \<Rightarrow> string \<Rightarrow> bool \<Rightarrow> bool \<Rightarrow> syncst \<Rightarrow> (bool + bool \<times> u32) \<times> syncst" where
  "send_file_loop k path do_unlink fd st =
     (case sync_readx 8 st of
        (None, st') \<Rightarrow> (let (r, st') = send_file_fail k fd path do_unlink st' in (Inl r, st'))
      | (Some msg, st') \<Rightarrow>
          let ident = le_word msg; size = le_word (drop 4 msg) in
          if ident \<noteq> ID_DATA then
            if ident = ID_DONE then (Inr (fd, size), st')
            else (let (r, st') = send_file_fail k fd path do_unlink (snd (fail_message ''invalid data message'' st'))
                  in (Inl r, st'))
          else if unat size > SYNC_DATA_MAX then
            (let (r, st') = send_file_fail k fd path do_unlink (snd (fail_message ''oversize data message'' st'))
             in (Inl r, st'))
          else (case sync_readbuf (unat size) st' of
              (None, st'') \<Rightarrow> (let (r, st'') = send_file_fail k fd path do_unlink st'' in (Inl r, st''))
            | (Some bs, st'') \<Rightarrow>
                if \<not> fd then send_file_loop k path do_unlink False st''
                else let (r, st3) = syscall k (WriteFile bs) st'' in
                  if \<not> failed r then send_file_loop k path do_unlink True st3
                  else let saved = errno st3;
                           st4 = snd (syscall k CloseFile st3);
                           st4 = (if do_unlink then snd (syscall k (Unlink path) st4) else st4);
                           (ok, st5) = fail_errno k (st4\<lparr>errno := saved\<rparr>) in
                       if ok then send_file_loop k path do_unlink False st5 else (Inl False, st5)))"
  by pat_completeness auto

lemma inp_syscall [simp]: "inp (snd (syscall k c st)) = inp st"
  by (auto simp: syscall_def Let_def split: sysres.splits)

lemma inp_writex [simp]: "inp (snd (sync_writex bs st)) = inp st"
  by (simp add: sync_writex_def)

lemma inp_fail_message [simp]: "inp (snd (fail_message m st)) = inp st"
  by (auto simp: fail_message_def sync_writex_def)

lemma inp_fail_errno [simp]: "inp (snd (fail_errno k st)) = inp st"
  by (simp add: fail_errno_def)

lemmas inp_simps = inp_syscall inp_writex inp_fail_message inp_fail_errno

lemma inp_syscall_pair: "syscall k c st = (r, st') \<Longrightarrow> inp st' = inp st"
  by (metis inp_syscall snd_conv)

lemma inp_fail_errno_pair: "fail_errno k st = (r, st') \<Longrightarrow> inp st' = inp st"
  by (metis inp_fail_errno snd_conv)

termination send_file_loop
proof (relation "measure (\<lambda>(k, path, u, fd, st). length (inp st))", goal_cases)
  case 1
  then show ?case by simp
qed (auto dest!: length_sync_readx length_sync_readbuf inp_syscall_pair inp_fail_errno_pair
      simp: prod_eq_iff split: if_splits)

declare send_file_loop.simps [simp del]


text \<open>
  \<open>handle_send_file\<close> in three parts. The file is created, with its directories when they are missing; an
  existing file is opened, an unopened one reported, the owner and mode of an open one set; then the data
  arrive. The first component of the first two says that the function has returned -1, the second
  whether the file is open.
\<close>

definition send_file_create :: "kernel \<Rightarrow> string \<Rightarrow> u32 \<Rightarrow> syncst \<Rightarrow> bool \<times> bool \<times> syncst" where
  "send_file_create k path mode st =
     (let (r, st) = syscall k (OpenExcl path mode) st in
      if failed r \<and> errno st = ENOENT then
        let (ok, st) = mkdirs k path st in
        if \<not> ok then (let (sent, st) = fail_errno k st in (\<not> sent, False, st))
        else (let (r, st) = syscall k (OpenExcl path mode) st in (False, \<not> failed r, st))
      else (False, \<not> failed r, st))"

definition send_file_open :: "kernel \<Rightarrow> string \<Rightarrow> u32 \<Rightarrow> u32 \<Rightarrow> u32 \<Rightarrow> bool \<Rightarrow> syncst \<Rightarrow> bool \<times> bool \<times> syncst" where
  "send_file_open k path uid gid mode fd st =
     (let (fd, st) =
        (if \<not> fd \<and> errno st = EEXIST then
           let (r, st) = syscall k (OpenWrite path mode) st in (\<not> failed r, st)
         else (fd, st)) in
      if \<not> fd then (let (sent, st) = fail_errno k st in (\<not> sent, False, st))
      else
        let (r, st) = syscall k (Fchown uid gid) st;
            st = (if failed r then (snd (fail_errno k st))\<lparr>errno := Eother 0\<rparr> else st)
        in (False, True, snd (syscall k (Fchmod mode) st)))"

definition handle_send_file ::
  "kernel \<Rightarrow> string \<Rightarrow> u32 \<Rightarrow> u32 \<Rightarrow> u32 \<Rightarrow> bool \<Rightarrow> syncst \<Rightarrow> bool \<times> syncst" where
  "handle_send_file k path uid gid mode do_unlink st =
     (let (gone, fd, st) = send_file_create k path mode st in
      if gone then (False, st)
      else
        let (gone, fd, st) = send_file_open k path uid gid mode fd st in
        if gone then (False, st)
        else
          let (r, st) = send_file_loop k path do_unlink fd st in
          case r of
            Inl ok \<Rightarrow> (ok, st)
          | Inr (fd, timestamp) \<Rightarrow>
              if fd then
                let st = snd (syscall k CloseFile st);
                    st = snd (syscall k (Restorecon path) st);
                    st = snd (syscall k (Utime path timestamp) st)
                in sync_writex (syncmsg [ID_OKAY, 0]) st
              else (True, st))"

text \<open>A C string in a buffer; reading past the end of the buffer is an invalid access.\<close>

definition c_string :: "byte list \<Rightarrow> string" where
  "c_string bs = takeWhile (\<lambda>c. c \<noteq> CHR 0x00) bs"

definition handle_send_link :: "kernel \<Rightarrow> string \<Rightarrow> syncst \<Rightarrow> (bool \<times> syncst) outcome" where
  "handle_send_link k path st =
     (case sync_readx 8 st of
        (None, st) \<Rightarrow> Inr (False, st)
      | (Some msg, st) \<Rightarrow>
          if le_word msg \<noteq> ID_DATA then
            Inr (False, snd (fail_message ''invalid data message: expected ID_DATA'' st))
          else if unat (le_word (drop 4 msg)) > SYNC_DATA_MAX then
            Inr (False, snd (fail_message ''oversize data message'' st))
          else (case sync_readbuf (unat (le_word (drop 4 msg))) st of
              (None, st) \<Rightarrow> Inr (False, st)
            | (Some bs, st) \<Rightarrow>
                if CHR 0x00 \<notin> set (buffer st) then Inl (Bad_access ''buffer'')
                else
                  let link = Symlink (c_string (buffer st)) path;
                      (r, st) = syscall k link st;
                      (gone, r, st) =
                        (if failed r \<and> errno st = ENOENT then
                           let (ok, st) = mkdirs k path st in
                           if \<not> ok then (True, r, snd (fail_errno k st))
                           else (let (r, st) = syscall k link st in (False, r, st))
                         else (False, r, st)) in
                  Inr (if gone then (False, st)
                    else if failed r then (False, snd (fail_errno k st))
                    else (case sync_readx 8 st of
                        (None, st) \<Rightarrow> (False, st)
                      | (Some msg, st) \<Rightarrow>
                          if le_word msg = ID_DONE then sync_writex (syncmsg [ID_OKAY, 0]) st
                          else (False, snd (fail_message ''invalid data message: expected ID_DONE'' st))))))"

text \<open>\<open>strtoul (s, NULL, 0)\<close>: the value and whether \<open>errno\<close> was set (\<open>ERANGE\<close>).\<close>

definition digit_val :: "char \<Rightarrow> nat" where
  "digit_val c =
     (let n = of_char c :: nat in
      if 48 \<le> n \<and> n \<le> 57 then n - 48
      else if 97 \<le> n \<and> n \<le> 122 then n - 87
      else if 65 \<le> n \<and> n \<le> 90 then n - 55 else 99)"

definition digits_value :: "nat \<Rightarrow> string \<Rightarrow> nat" where
  "digits_value base cs = foldl (\<lambda>v c. v * base + digit_val c) 0 (takeWhile (\<lambda>c. digit_val c < base) cs)"

definition strtoul :: "nat \<Rightarrow> string \<Rightarrow> nat \<times> bool" where
  "strtoul umax cs =
     (let cs = dropWhile (\<lambda>c. c = CHR '' '' \<or> (9 \<le> (of_char c :: nat) \<and> (of_char c :: nat) \<le> 13)) cs;
          neg = (take 1 cs = ''-'');
          cs = (if neg \<or> take 1 cs = ''+'' then drop 1 cs else cs);
          v = (if take 2 cs = ''0x'' \<or> take 2 cs = ''0X'' then digits_value 16 (drop 2 cs)
               else if take 1 cs = ''0'' then digits_value 8 cs
               else digits_value 10 cs)
      in if v > umax then (umax, True)
         else if neg \<and> v \<noteq> 0 then (umax + 1 - v, False) else (v, False))"

text \<open>\<open>strrchr\<close>: the text before and after the last comma.\<close>

definition split_last_comma :: "string \<Rightarrow> (string \<times> string) option" where
  "split_last_comma path =
     (case dropWhile (\<lambda>c. c \<noteq> CHR '','') (rev path) of
        [] \<Rightarrow> None
      | _ # r \<Rightarrow> Some (rev r, rev (takeWhile (\<lambda>c. c \<noteq> CHR '','') (rev path))))"

definition S_IFMT :: u32 where "S_IFMT = 0xf000"
definition S_ISLNK :: "u32 \<Rightarrow> bool" where "S_ISLNK mode = (mode AND S_IFMT = 0xa000)"
definition S_ISREG :: "u32 \<Rightarrow> bool" where "S_ISREG mode = (mode AND S_IFMT = 0x8000)"

text \<open>The mode bits of the user copied to group and other.\<close>

definition spread_mode :: "u32 \<Rightarrow> u32" where
  "spread_mode mode =
     (let mode = mode OR (drop_bit 3 mode AND 0x38) in mode OR (drop_bit 3 mode AND 0x7))"

definition do_send :: "kernel \<Rightarrow> string \<Rightarrow> syncst \<Rightarrow> (bool \<times> syncst) outcome" where
  "do_send k path st =
     (let (path, mode, is_link, do_unlink, st) =
        (case split_last_comma path of
           None \<Rightarrow> (path, 0x1a4, False, True, st)
         | Some (path, num) \<Rightarrow>
             let st = st\<lparr>errno := Eother 0\<rparr>;
                 (v, erange) = strtoul (ulong_max k) num;
                 mode = of_nat v :: u32 in
             if erange then (path, 0x1a4, False, True, st\<lparr>errno := Eother 34\<rparr>)
             else
               let (r, st) = syscall k (Lstat path) st;
                   do_unlink = (case r of Stat s \<Rightarrow> S_ISREG (st_mode s) \<or> S_ISLNK (st_mode s) | _ \<Rightarrow> True);
                   st = (if do_unlink then snd (syscall k (Unlink path) st) else st)
               in (path, mode AND 0x1ff, S_ISLNK mode, do_unlink, st)) in
      if is_link then handle_send_link k path st
      else
        let mode = spread_mode mode;
            tmp = (if take 1 path = ''/'' then drop 1 path else path);
            (uid, gid, mode) = (if is_on_system path then fs_config k tmp False else (- 1, - 1, mode))
        in Inr (handle_send_file k path uid gid mode do_unlink st))"

section \<open>Sending a file\<close>

text \<open>
  The loop of \<open>do_recv\<close> on what \<open>read\<close> answers for the open file; the end of the script is the end of the
  file. \<open>Some ok\<close> is a \<open>return\<close> inside the loop.
\<close>

function do_recv_loop :: "kernel \<Rightarrow> rd_ev list \<Rightarrow> syncst \<Rightarrow> bool option \<times> syncst" where
  "do_recv_loop k [] st = (None, st)"
| "do_recv_loop k (Fin # s) st = (None, st)"
| "do_recv_loop k (Fail e # s) st =
     (if e = EINTR then do_recv_loop k s (st\<lparr>errno := e\<rparr>)
      else (let (ok, st) = fail_errno k (st\<lparr>errno := e\<rparr>) in (Some ok, snd (syscall k CloseFile st))))"
| "do_recv_loop k (Seg bs # s) st =
     (if bs = [] then (None, st)
      else
        let chunk = take SYNC_DATA_MAX bs;
            st = st\<lparr>buffer := chunk @ drop (length chunk) (buffer st)\<rparr>;
            (ok, st) = sync_writex (syncmsg [ID_DATA, of_nat (length chunk)]) st;
            (ok, st) = (if ok then sync_writex chunk st else (ok, st)) in
        if ok then do_recv_loop k (if length bs > SYNC_DATA_MAX then Seg (drop SYNC_DATA_MAX bs) # s else s) st
        else (Some False, snd (syscall k CloseFile st)))"
  by pat_completeness auto

fun ev_size :: "rd_ev \<Rightarrow> nat" where
  "ev_size (Seg bs) = Suc (length bs)"
| "ev_size Fin = 1"
| "ev_size (Fail e) = 1"

termination do_recv_loop
  by (relation "measure (\<lambda>(k, s, st). sum_list (map ev_size s))") (auto simp: SYNC_DATA_MAX_def)

declare do_recv_loop.simps(4) [simp del]

definition do_recv :: "kernel \<Rightarrow> string \<Rightarrow> syncst \<Rightarrow> bool \<times> syncst" where
  "do_recv k path st =
     (let (r, st) = syscall k (OpenRead path) st in
      case r of
        Reads s \<Rightarrow>
          (let (ret, st) = do_recv_loop k s st in
           case ret of
             Some ok \<Rightarrow> (ok, st)
           | None \<Rightarrow> sync_writex (syncmsg [ID_DONE, 0]) (snd (syscall k CloseFile st)))
      | _ \<Rightarrow> (let (sent, st) = fail_errno k st in (sent, st)))"


section \<open>What every operation keeps\<close>

text \<open>
  \<open>later st st'\<close>: from \<open>st\<close> the service can come to \<open>st'\<close>: input is consumed from the front, replies and
  system calls are only added, and nothing is written past the end of \<open>buffer\<close>.
\<close>

definition later :: "syncst \<Rightarrow> syncst \<Rightarrow> bool" where
  "later st st' =
     (suffix (inp st') (inp st) \<and> prefix (outp st) (outp st') \<and> prefix (calls st) (calls st') \<and>
      (length (buffer st) = SYNC_DATA_MAX \<longrightarrow> length (buffer st') = SYNC_DATA_MAX))"

lemma later_refl [simp, intro]: "later st st"
  by (simp add: later_def)

lemma later_trans [trans]: "later st st' \<Longrightarrow> later st' st'' \<Longrightarrow> later st st''"
  unfolding later_def by (auto intro: suffix_order.trans prefix_order.trans)

lemma later_inp: "later st st' \<Longrightarrow> length (inp st') \<le> length (inp st)"
  by (simp add: later_def suffix_length_le)

lemma later_fields [simp]:
  "later st (st'\<lparr>errno := e\<rparr>) = later st st'" "later (st\<lparr>errno := e\<rparr>) st' = later st st'"
  by (simp_all add: later_def)

lemma later_buffer [intro]:
  "later st0 st \<Longrightarrow> n \<le> SYNC_DATA_MAX \<Longrightarrow> later st0 (st\<lparr>buffer := take n bs @ drop (length (take n bs)) (buffer st)\<rparr>)"
  by (auto simp: later_def)

lemma later_step:
  "later st (snd (syscall k c st))" "later st (snd (sync_writex bs st))" "later st (snd (sync_readx n st))"
  "\<not> SYNC_DATA_MAX < n \<Longrightarrow> later st (snd (sync_readbuf n st))" "later st (snd (fail_message m st))" "later st (snd (fail_errno k st))"
  by (auto simp: later_def syscall_def sync_writex_def sync_readx_def sync_readbuf_def take_exact_def
      fail_message_def fail_errno_def Let_def suffix_drop split: sysres.splits prod.splits if_splits)

lemma later_eq:
  "syscall k c st = (r, st') \<Longrightarrow> later st st'" "sync_writex bs st = (ok, st') \<Longrightarrow> later st st'"
  "sync_readx n st = (x, st') \<Longrightarrow> later st st'"
  "fail_message m st = (ok, st') \<Longrightarrow> later st st'" "fail_errno k st = (ok, st') \<Longrightarrow> later st st'"
  by (metis later_step snd_conv)+

lemma later_step_trans:
  "later st0 st \<Longrightarrow> later st0 (snd (syscall k c st))" "later st0 st \<Longrightarrow> later st0 (snd (sync_writex bs st))"
  "later st0 st \<Longrightarrow> later st0 (snd (fail_message m st))" "later st0 st \<Longrightarrow> later st0 (snd (fail_errno k st))"
  by (meson later_step later_trans)+


text \<open>Rules that follow the structure of an operation: \<open>st0\<close> is the state it started in.\<close>

lemma later_bind:
  "later st0 (snd p) \<Longrightarrow> (\<And>a st. later st0 st \<Longrightarrow> later st0 (snd (f a st))) \<Longrightarrow>
   later st0 (snd (case p of (a, st) \<Rightarrow> f a st))"
  by (cases p) simp

lemma later_bind3:
  "later st0 (snd (snd p)) \<Longrightarrow> (\<And>a b st. later st0 st \<Longrightarrow> later st0 (snd (f a b st))) \<Longrightarrow>
   later st0 (snd (case p of (a, b, st) \<Rightarrow> f a b st))"
  by (cases p) simp

lemma later_bind_in3:
  "later st0 (snd p) \<Longrightarrow> (\<And>a st. later st0 st \<Longrightarrow> later st0 (snd (snd (f a st)))) \<Longrightarrow>
   later st0 (snd (snd (case p of (a, st) \<Rightarrow> f a st)))"
  by (cases p) simp

lemma later_if:
  "(b \<Longrightarrow> later st0 p) \<Longrightarrow> (\<not> b \<Longrightarrow> later st0 q) \<Longrightarrow> later st0 (if b then p else q)"
  "(b \<Longrightarrow> later st0 (snd p2)) \<Longrightarrow> (\<not> b \<Longrightarrow> later st0 (snd q2)) \<Longrightarrow> later st0 (snd (if b then p2 else q2))"
  "(b \<Longrightarrow> later st0 (snd (snd p3))) \<Longrightarrow> (\<not> b \<Longrightarrow> later st0 (snd (snd q3))) \<Longrightarrow>
   later st0 (snd (snd (if b then p3 else q3)))"
  by simp_all

lemmas later_rules = later_bind later_bind3 later_bind_in3 later_if later_step_trans later_refl

lemma later_mkdirs_loop: "later st (snd (mkdirs_loop k names own st))"
proof (induction names arbitrary: own st)
  case (Cons name names)
  show ?case
    unfolding mkdirs_loop.simps Let_def
    by (rule later_rules | assumption | (rule later_trans, assumption, rule Cons)
        | simp only: sysres.case snd_conv split: sysres.split | intro conjI allI impI)+
qed simp

lemma later_mkdirs: "later st (snd (mkdirs k name st))"
  by (simp add: mkdirs_def later_mkdirs_loop)


lemma later_send_file_fail: "later st0 st \<Longrightarrow> later st0 (snd (send_file_fail k fd path u st))"
  by (simp add: send_file_fail_def later_step_trans)

lemma later_strict:
  "sync_readx n st = (Some bs, st') \<Longrightarrow> later st st' \<and> length (inp st) = n + length (inp st')"
  using length_sync_readx [of bs n st] later_step(3) [of st n] by simp

lemma later_send_file_loop: "later st (snd (send_file_loop k path u fd st))"
proof (induction "length (inp st)" arbitrary: fd st rule: less_induct)
  case less
  show ?case
  proof (cases "sync_readx 8 st")
    case (Pair x st1)
    show ?thesis
    proof (cases x)
      case None
      then show ?thesis using Pair later_send_file_fail [OF later_eq(3) [OF Pair], of k fd path u]
        by (simp add: send_file_loop.simps [of k path u fd st] split_beta)
    next
      case (Some msg)
      from later_strict [OF Pair [unfolded Some]]
      have st1: "later st st1" "length (inp st1) < length (inp st)" by simp_all
      have again: "later st1 (snd (send_file_loop k path u fd' st'))" if "later st1 st'" for fd' st'
        using less [of st' fd'] st1(2) later_inp [OF that] later_trans [OF that] by simp
      have "later st1 (snd (send_file_loop k path u fd st))"
        unfolding send_file_loop.simps [of k path u fd st] Pair Some prod.case option.case Let_def
        by (rule later_rules later_step later_send_file_fail again | assumption
        | simp only: option.case snd_conv later_fields split: option.split | intro conjI allI impI)+
      with st1(1) show ?thesis by (rule later_trans)
    qed
  qed
qed

lemma later_mkdirs_trans: "later st0 st \<Longrightarrow> later st0 (snd (mkdirs k name st))"
  using later_mkdirs later_trans by blast

lemma later_send_file_loop_trans: "later st0 st \<Longrightarrow> later st0 (snd (send_file_loop k path u fd st))"
  using later_send_file_loop later_trans by blast

lemma later_handle_send_file: "later st (snd (handle_send_file k path uid gid mode u st))"
  unfolding handle_send_file_def send_file_create_def send_file_open_def Let_def
  by (rule later_rules later_step later_mkdirs_trans later_send_file_loop_trans | assumption
      | simp only: prod.case snd_conv later_fields split: sum.split prod.split | intro conjI allI impI)+

text \<open>The same for operations that may fault.\<close>

definition later_out :: "syncst \<Rightarrow> (bool \<times> syncst) outcome \<Rightarrow> bool" where
  "later_out st0 r = (case r of Inl f \<Rightarrow> True | Inr p \<Rightarrow> later st0 (snd p))"

lemma later_outD: "later_out st0 r \<Longrightarrow> r = Inr (ok, st') \<Longrightarrow> later st0 st'"
  by (simp add: later_out_def)

lemma later_out_rules:
  "later_out st0 (Inl f)"
  "later st0 (snd p) \<Longrightarrow> later_out st0 (Inr p)"
  "(b \<Longrightarrow> later_out st0 x) \<Longrightarrow> (\<not> b \<Longrightarrow> later_out st0 y) \<Longrightarrow> later_out st0 (if b then x else y)"
  by (simp_all add: later_out_def)

lemma later_out_trans: "later st0 st \<Longrightarrow> later_out st r \<Longrightarrow> later_out st0 r"
  by (auto simp: later_out_def intro: later_trans split: sum.splits)

lemma later_out_bindE:
  "later_out st0 r \<Longrightarrow> (\<And>a st. later st0 st \<Longrightarrow> later_out st0 (f (a, st))) \<Longrightarrow> later_out st0 (bindE r f)"
  by (cases r) (auto simp: later_out_def)

lemma later_out_bind:
  "later st0 (snd q) \<Longrightarrow> (\<And>a st. later st0 st \<Longrightarrow> later_out st0 (g a st)) \<Longrightarrow>
   later_out st0 (case q of (a, st) \<Rightarrow> g a st)"
  by (cases q) simp

lemma later_out_bind3:
  "later st0 (snd (snd q)) \<Longrightarrow> (\<And>a b st. later st0 st \<Longrightarrow> later_out st0 (g a b st)) \<Longrightarrow>
   later_out st0 (case q of (a, b, st) \<Rightarrow> g a b st)"
  by (cases q) simp

lemma later_read_trans:
  "later st0 st \<Longrightarrow> later st0 (snd (sync_readx n st))"
  "\<not> SYNC_DATA_MAX < n \<Longrightarrow> later st0 st \<Longrightarrow> later st0 (snd (sync_readbuf n st))"
  by (meson later_step later_trans)+

lemma later_handle_send_link: "later_out st (handle_send_link k path st)"
  unfolding handle_send_link_def Let_def
  by (rule later_out_rules later_out_bind later_out_bind3 later_rules later_step later_read_trans later_mkdirs_trans | assumption
      | simp only: snd_conv split: option.split | intro conjI allI impI)+

lemma later_do_send: "later_out st (do_send k path st)"
proof -
  have plain: "later_out st (Inr (handle_send_file k path uid gid mode u st'))" if "later st st'"
    for path uid gid mode u st'
    using later_trans [OF that later_handle_send_file] by (rule later_out_rules)
  have link: "later_out st (handle_send_link k path st')" if "later st st'" for path st'
    using that later_handle_send_link by (rule later_out_trans)
  show ?thesis
    unfolding do_send_def
    by (auto simp: Let_def split: option.split prod.split intro!: plain link later_if later_step_trans
       dest!: later_eq)
qed

lemma later_do_list_loop: "later_out st (do_list_loop k path names st)"
proof (induction names arbitrary: st)
  case (Cons name names)
  have again: "later_out st (do_list_loop k path names st')" if "later st st'" for st'
    using that Cons by (rule later_out_trans)
  show ?case
    unfolding do_list_loop.simps Let_def
    by (rule later_out_rules later_out_bind later_rules again | assumption
        | simp only: snd_conv split: sysres.split | intro conjI allI impI)+
qed (simp add: later_out_def)

lemma later_do_list: "later_out st (do_list k path st)"
proof -
  have loop: "later_out st (do_list_loop k path names st')" if "later st st'" for names st'
    using that later_do_list_loop by (rule later_out_trans)
  show ?thesis
    unfolding do_list_def Let_def
    by (rule later_out_rules later_out_bindE later_out_bind later_rules loop | assumption
        | simp only: snd_conv prod.case split: sysres.split | intro conjI allI impI)+
qed

lemma later_do_recv_loop: "later st (snd (do_recv_loop k s st))"
proof (induction "sum_list (map ev_size s)" arbitrary: s st rule: less_induct)
  case less
  have again: "later st (snd (do_recv_loop k s' st'))"
    if "later st st'" "sum_list (map ev_size s') < sum_list (map ev_size s)" for s' st'
    using that(1) less [OF that(2)] by (rule later_trans)
  show ?case
  proof (cases s)
    case Nil
    then show ?thesis by simp
  next
    case (Cons ev s')
    show ?thesis
    proof (cases ev)
      case (Seg bs)
      have shrink: "sum_list (map ev_size (if length bs > SYNC_DATA_MAX then Seg (drop SYNC_DATA_MAX bs) # s' else s'))
          < sum_list (map ev_size s)"
        using Cons Seg by (simp add: SYNC_DATA_MAX_def) linarith
      show ?thesis
        unfolding Cons Seg do_recv_loop.simps(4) Let_def
        by (rule later_rules again shrink later_buffer order_refl | assumption | simp only: snd_conv)+
    next
      case Fin
      then show ?thesis using Cons by simp
    next
      case (Fail e)
      have "later st (snd (do_recv_loop k s' (st\<lparr>errno := e\<rparr>)))" if "e = EINTR"
        by (rule again) (simp_all add: Cons Fail)
      then show ?thesis using Cons Fail by (auto split: prod.split dest!: later_eq intro: later_step_trans)
    qed
  qed
qed

lemma later_do_recv: "later st (snd (do_recv k path st))"
proof -
  have loop: "later st (snd (do_recv_loop k s st'))" if "later st st'" for s st'
    using that later_do_recv_loop by (rule later_trans)
  show ?thesis
    unfolding do_recv_def Let_def
    by (rule later_rules later_step loop | assumption
        | simp only: snd_conv split: sysres.split option.split | intro conjI allI impI)+
qed

section \<open>The service\<close>

text \<open>One command of the service loop; True means that the loop goes on.\<close>

definition sync_command :: "kernel \<Rightarrow> u32 \<Rightarrow> string \<Rightarrow> syncst \<Rightarrow> (bool \<times> syncst) outcome" where
  "sync_command k ident name st =
     (if ident = ID_STAT then Inr (do_stat k name st)
      else if ident = ID_LIST then do_list k name st
      else if ident = ID_SEND then do_send k name st
      else if ident = ID_RECV then Inr (do_recv k name st)
      else if ident = ID_QUIT then Inr (False, st)
      else Inr (False, snd (fail_message ''unknown command'' st)))"

lemma later_do_stat: "later st (snd (do_stat k path st))"
  unfolding do_stat_def Let_def
  by (rule later_rules later_step | assumption | simp only: snd_conv split: sysres.split | intro conjI allI impI)+

lemma later_sync_command: "later_out st (sync_command k ident name st)"
  unfolding sync_command_def
  by (intro later_out_rules later_do_stat later_do_list later_do_send later_do_recv) (simp_all add: later_step)

function sync_loop :: "kernel \<Rightarrow> syncst \<Rightarrow> syncst outcome" where
  "sync_loop k st =
     (case sync_readx 8 st of
        (None, st1) \<Rightarrow> Inr (snd (fail_message ''command read failure'' st1))
      | (Some msg, st1) \<Rightarrow>
          let namelen = unat (le_word (drop 4 msg)) in
          if namelen > 1024 then Inr (snd (fail_message ''invalid namelen'' st1))
          else (case sync_readx namelen st1 of
              (None, st2) \<Rightarrow> Inr (snd (fail_message ''filename read failure'' st2))
            | (Some name, st2) \<Rightarrow>
                (case sync_command k (le_word msg) (c_string name) st2 of
                   Inl f \<Rightarrow> Inl f
                 | Inr (go, st3) \<Rightarrow> if go then sync_loop k st3 else Inr st3)))"
  by pat_completeness auto

lemma sync_command_shrinks:
  "sync_command k ident name st = Inr (go, st') \<Longrightarrow> length (inp st') \<le> length (inp st)"
  by (metis later_inp later_outD later_sync_command)

termination sync_loop
proof (relation "measure (\<lambda>(k, st). length (inp st))", goal_cases)
  case 1
  then show ?case by simp
qed (auto dest!: length_sync_readx sync_command_shrinks simp: prod_eq_iff)

declare sync_loop.simps [simp del]

text \<open>\<open>mem\<close> is what \<open>malloc\<close> returns: no memory, or 64 KB with unknown bytes.\<close>

definition file_sync_service :: "kernel \<Rightarrow> byte list option \<Rightarrow> syncst \<Rightarrow> syncst outcome" where
  "file_sync_service k mem st =
     bindE (case mem of None \<Rightarrow> Inr st | Some b \<Rightarrow> sync_loop k (st\<lparr>buffer := b\<rparr>))
       (\<lambda>st. Inr (snd (syscall k CloseSocket st)))"

end
