(* ===== verification/Zipfile.thy ===== *)
theory Zipfile
  imports Adb_Prelude "HOL-Library.Sublist"
begin

text \<open>
  The reader of zip archives with which \<open>adb install\<close> checks a package before it is sent: \<open>centraldir.cpp\<close>, \<open>zipfile.cpp\<close> and \<open>private.h\<close>.

  The archive is a buffer in memory. A pointer into it is its offset, a 32-bit word: the program is built for 32 bits, so that a pointer past the end of
  the address space wraps around. Reading outside the buffer is the fault \<open>Bad_access ''file_buffer''\<close>. The list of entries is linked at the front, as in
  the code. Memory for entries is always there (the code does not check for it), and zlib is an argument.
\<close>

section \<open>Reading the buffer\<close>

definition peek :: "byte list \<Rightarrow> u32 \<Rightarrow> nat \<Rightarrow> byte list outcome" where
  "peek b p n = (if unat p + n \<le> length b then Inr (take n (drop (unat p) b)) else Inl (Bad_access ''file_buffer''))"

definition le_short :: "byte list \<Rightarrow> u32" where
  "le_short bs = of_char (bs ! 0) + of_char (bs ! 1) * 256"

definition read_le_int :: "byte list \<Rightarrow> u32 \<Rightarrow> u32 outcome" where
  "read_le_int b p = bindE (peek b p 4) (\<lambda>bs. Inr (le_word bs))"

definition read_le_short :: "byte list \<Rightarrow> u32 \<Rightarrow> u32 outcome" where
  "read_le_short b p = bindE (peek b p 2) (\<lambda>bs. Inr (le_short bs))"

definition CD_SIGNATURE :: u32 where "CD_SIGNATURE = 0x06054b50"
definition EOCD_LEN :: nat where "EOCD_LEN = 22"
definition MAX_COMMENT_LEN :: nat where "MAX_COMMENT_LEN = 65535"
definition MAX_EOCD_SEARCH :: nat where "MAX_EOCD_SEARCH = MAX_COMMENT_LEN + EOCD_LEN"
definition ENTRY_SIGNATURE :: u32 where "ENTRY_SIGNATURE = 0x02014b50"
definition ENTRY_LEN :: nat where "ENTRY_LEN = 46"
definition LFH_SIZE :: nat where "LFH_SIZE = 30"

lemmas zip_consts = CD_SIGNATURE_def EOCD_LEN_def MAX_COMMENT_LEN_def MAX_EOCD_SEARCH_def ENTRY_SIGNATURE_def ENTRY_LEN_def LFH_SIZE_def

text \<open>The pointers \<open>fileName\<close> and \<open>comment\<close> may be \<open>NULL\<close>.\<close>

record Zipentry =
  fileNameLength :: u32
  fileName :: "u32 option"
  compressionMethod :: u32
  uncompressedSize :: u32
  compressedSize :: u32
  data :: u32

record Zipfile =
  buf :: "byte list"
  disknum :: u32
  diskWithCentralDir :: u32
  entryCount :: u32
  totalEntryCount :: u32
  centralDirSize :: u32
  centralDirOffest :: u32
  commentLen :: u32
  comment :: "u32 option"
  entries :: "Zipentry list"

section \<open>The central directory\<close>

text \<open>\<open>read_central_dir_values\<close>; \<open>None\<close> is the return value -1, after which the file is discarded.\<close>

definition read_central_dir_values :: "Zipfile \<Rightarrow> u32 \<Rightarrow> int \<Rightarrow> Zipfile option outcome" where
  "read_central_dir_values zf p len =
     (if len < int EOCD_LEN then Inr None
      else
        bindE (read_le_short (buf zf) (p + 0x04)) (\<lambda>dn.
        bindE (read_le_short (buf zf) (p + 0x06)) (\<lambda>dcd.
        bindE (read_le_short (buf zf) (p + 0x08)) (\<lambda>ec.
        bindE (read_le_short (buf zf) (p + 0x0a)) (\<lambda>tec.
        bindE (read_le_int (buf zf) (p + 0x0c)) (\<lambda>cds.
        bindE (read_le_int (buf zf) (p + 0x10)) (\<lambda>cdo.
        bindE (read_le_short (buf zf) (p + 0x14)) (\<lambda>cl.
          let zf = zf\<lparr>disknum := dn, diskWithCentralDir := dcd, entryCount := ec, totalEntryCount := tec, centralDirSize := cds,
                      centralDirOffest := cdo, commentLen := cl\<rparr> in
          if cl > 0 then
            if int EOCD_LEN + uint cl > len then Inr None
            else Inr (Some (zf\<lparr>comment := Some (p + of_nat EOCD_LEN)\<rparr>))
          else Inr (Some zf)))))))))"

text \<open>
  \<open>read_central_directory_entry\<close>: the entry and the pointer behind it. The values that are read and not used (versions, flags, times, checksum,
  attributes) lie in the 46 bytes of the entry like the others; they are left out. The pointer \<open>len\<close> is never written through.
\<close>

definition read_central_directory_entry :: "Zipfile \<Rightarrow> u32 \<Rightarrow> int \<Rightarrow> (Zipentry \<times> u32) option outcome" where
  "read_central_directory_entry zf p len =
     (if len < int ENTRY_LEN then Inr None
      else
        bindE (read_le_int (buf zf) p) (\<lambda>sig.
          if sig \<noteq> ENTRY_SIGNATURE then Inr None
          else
            bindE (read_le_short (buf zf) (p + 0x0a)) (\<lambda>method.
            bindE (read_le_int (buf zf) (p + 0x14)) (\<lambda>csize.
            bindE (read_le_int (buf zf) (p + 0x18)) (\<lambda>usize.
            bindE (read_le_short (buf zf) (p + 0x1c)) (\<lambda>nlen.
            bindE (read_le_short (buf zf) (p + 0x1e)) (\<lambda>xlen.
            bindE (read_le_short (buf zf) (p + 0x20)) (\<lambda>clen.
            bindE (read_le_int (buf zf) (p + 0x2a)) (\<lambda>lho.
            bindE (read_le_short (buf zf) (lho + 0x1c)) (\<lambda>lxlen.
              let name = p + of_nat ENTRY_LEN in
              Inr (Some (\<lparr>fileNameLength = nlen, fileName = (if nlen \<noteq> 0 then Some name else None), compressionMethod = method,
                          uncompressedSize = usize, compressedSize = csize,
                          data = lho + of_nat LFH_SIZE + nlen + lxlen\<rparr>,
                         name + nlen + xlen + clen))))))))))))"

text \<open>The search for the end of the central directory, from offset \<open>i\<close> down to \<open>start\<close>.\<close>

definition eocd_at :: "byte list \<Rightarrow> u32 \<Rightarrow> bool outcome" where
  "eocd_at b p =
     bindE (peek b p 1) (\<lambda>c. if c = [CHR 0x50] then bindE (read_le_int b p) (\<lambda>w. Inr (w = CD_SIGNATURE)) else Inr False)"

fun find_eocd :: "byte list \<Rightarrow> nat \<Rightarrow> nat \<Rightarrow> nat option outcome" where
  "find_eocd b start 0 =
     (if 0 < start then Inr None else bindE (eocd_at b 0) (\<lambda>hit. Inr (if hit then Some 0 else None)))"
| "find_eocd b start (Suc i) =
     (if Suc i < start then Inr None
      else case eocd_at b (of_nat (Suc i)) of
        Inl f \<Rightarrow> Inl f
      | Inr hit \<Rightarrow> if hit then Inr (Some (Suc i)) else find_eocd b start i)"

text \<open>The loop over the entries: \<open>n\<close> are still to be read; \<open>len\<close> stays as it is.\<close>

fun read_entries :: "Zipfile \<Rightarrow> nat \<Rightarrow> u32 \<Rightarrow> int \<Rightarrow> Zipfile option outcome" where
  "read_entries zf 0 p len = Inr (Some zf)"
| "read_entries zf (Suc n) p len =
     (case read_central_directory_entry zf p len of
        Inl f \<Rightarrow> Inl f
      | Inr None \<Rightarrow> Inr None
      | Inr (Some (e, p')) \<Rightarrow> read_entries (zf\<lparr>entries := e # entries zf\<rparr>) n p' len)"

definition read_central_dir :: "Zipfile \<Rightarrow> Zipfile option outcome" where
  "read_central_dir zf =
     (let bufsize = length (buf zf) in
      if bufsize < EOCD_LEN then Inr None
      else
        let start = (if bufsize > MAX_EOCD_SEARCH then bufsize - MAX_EOCD_SEARCH else 0) in
        bindE (find_eocd (buf zf) start (bufsize - 4)) (\<lambda>found.
          case found of
            None \<Rightarrow> Inr None
          | Some eocd \<Rightarrow>
              bindE (read_central_dir_values zf (of_nat eocd) (int bufsize - int eocd)) (\<lambda>r.
                case r of
                  None \<Rightarrow> Inr None
                | Some zf \<Rightarrow>
                    if disknum zf \<noteq> 0 \<or> diskWithCentralDir zf \<noteq> 0 \<or> entryCount zf \<noteq> totalEntryCount zf then Inr None
                    else
                      let p = centralDirOffest zf in
                      read_entries zf (unat (totalEntryCount zf)) p (sint (of_nat bufsize - p)))))"

section \<open>Archives\<close>

definition init_zipfile :: "byte list \<Rightarrow> Zipfile option outcome" where
  "init_zipfile bytes =
     read_central_dir \<lparr>buf = bytes, disknum = 0, diskWithCentralDir = 0, entryCount = 0, totalEntryCount = 0, centralDirSize = 0,
       centralDirOffest = 0, commentLen = 0, comment = None, entries = []\<rparr>"

text \<open>\<open>memcmp\<close> of \<open>n\<close> bytes of \<open>s\<close> (a C string with its zero) and of the buffer at \<open>p\<close>: it goes on up to the first difference.\<close>

fun mem_equal :: "byte list \<Rightarrow> byte list \<Rightarrow> u32 \<Rightarrow> nat \<Rightarrow> bool outcome" where
  "mem_equal s b p 0 = Inr True"
| "mem_equal [] b p (Suc n) = Inl (Bad_access ''entryName'')"
| "mem_equal (c # s) b p (Suc n) =
     (case peek b p 1 of
        Inl f \<Rightarrow> Inl f
      | Inr x \<Rightarrow> if x = [c] then mem_equal s b (p + 1) n else Inr False)"

text \<open>An entry without a name has the pointer \<open>NULL\<close> and the length 0, of which \<open>memcmp\<close> compares nothing.\<close>

fun lookup_entries :: "byte list \<Rightarrow> string \<Rightarrow> Zipentry list \<Rightarrow> Zipentry option outcome" where
  "lookup_entries b entryName [] = Inr None"
| "lookup_entries b entryName (e # es) =
     (case (case fileName e of
              None \<Rightarrow> Inr True
            | Some p \<Rightarrow> mem_equal (entryName @ [CHR 0x00]) b p (unat (fileNameLength e))) of
        Inl f \<Rightarrow> Inl f
      | Inr same \<Rightarrow> if same then Inr (Some e) else lookup_entries b entryName es)"

definition lookup_zipentry :: "Zipfile \<Rightarrow> string \<Rightarrow> Zipentry option outcome" where
  "lookup_zipentry zf entryName = lookup_entries (buf zf) entryName (entries zf)"

definition get_zipentry_size :: "Zipentry \<Rightarrow> u32" where
  "get_zipentry_size e = uncompressedSize e"

definition get_zipentry_name :: "Zipfile \<Rightarrow> Zipentry \<Rightarrow> string outcome" where
  "get_zipentry_name zf e =
     (case fileName e of None \<Rightarrow> Inr '''' | Some p \<Rightarrow> peek (buf zf) p (unat (fileNameLength e)))"

text \<open>
  What zlib answers: the result of \<open>inflateInit2\<close>, and for the room in the output and the compressed bytes the result of \<open>inflate\<close> and what it wrote.
\<close>

record zlib =
  inflate_init :: int
  inflate :: "nat \<Rightarrow> byte list \<Rightarrow> int \<times> byte list"

definition Z_OK :: int where "Z_OK = 0"
definition Z_STREAM_END :: int where "Z_STREAM_END = 1"

definition uninflate :: "zlib \<Rightarrow> nat \<Rightarrow> byte list \<Rightarrow> int \<times> byte list" where
  "uninflate z unlen bs =
     (if inflate_init z \<noteq> Z_OK then (- 1, [])
      else (case inflate z unlen bs of (zerr, out) \<Rightarrow> (if zerr \<noteq> Z_STREAM_END then - 1 else 0, out)))"

text \<open>
  \<open>decompress_zipentry\<close> into a buffer of \<open>bufsize\<close> bytes: the result and what is written there. A stored entry is copied without a look at \<open>bufsize\<close>.
\<close>

definition decompress_zipentry :: "zlib \<Rightarrow> Zipfile \<Rightarrow> Zipentry \<Rightarrow> nat \<Rightarrow> (int \<times> byte list) outcome" where
  "decompress_zipentry z zf e bufsize =
     (if compressionMethod e = 0 then
        bindE (peek (buf zf) (data e) (unat (uncompressedSize e))) (\<lambda>bs.
          if length bs > bufsize then Inl (Bad_access ''buf'') else Inr (0, bs))
      else if compressionMethod e = 8 then
        bindE (peek (buf zf) (data e) (unat (compressedSize e))) (\<lambda>bs. Inr (uninflate z bufsize bs))
      else Inr (- 1, []))"

text \<open>\<open>dump_zipfile\<close>: what is printed. The loop follows the list for \<open>entryCount\<close> entries.\<close>

fun dump_entries :: "Zipfile \<Rightarrow> nat \<Rightarrow> Zipentry list \<Rightarrow> string outcome" where
  "dump_entries zf 0 es = Inr ''''"
| "dump_entries zf (Suc n) [] = Inl (Bad_access ''entry'')"
| "dump_entries zf (Suc n) (e # es) =
     bindE (get_zipentry_name zf e) (\<lambda>name.
     bindE (dump_entries zf n es) (\<lambda>more. Inr (''  file '' @ [CHR 0x22] @ name @ [CHR 0x22, CHR 0x0A] @ more)))"

definition dump_zipfile :: "Zipfile \<Rightarrow> string outcome" where
  "dump_zipfile zf =
     bindE (dump_entries zf (unat (entryCount zf)) (entries zf)) (\<lambda>s.
       Inr (''entryCount='' @ fmt_d (uint (entryCount zf)) @ [CHR 0x0A] @ s))"

text \<open>\<open>iterate_zipfile\<close>: the cookie, a pointer into the list of entries, is the rest of the list from there; the empty list is \<open>NULL\<close>.\<close>

definition iterate_zipfile :: "Zipfile \<Rightarrow> Zipentry list \<Rightarrow> Zipentry list" where
  "iterate_zipfile zf cookie = (case cookie of [] \<Rightarrow> entries zf | e # es \<Rightarrow> es)"

end
