(* ===== verification/Sync_Client.thy ===== *)
theory Sync_Client
  imports File_Sync Zipfile
begin

text \<open>
  The client side of the file transfers, \<open>file_sync_client.cpp\<close>. It talks to the service of the theory \<open>File_Sync\<close>; its state is of the same type: \<open>inp\<close> are
  the bytes the service sends, \<open>outp\<close> the bytes sent to it, \<open>calls\<close> the calls on local files. \<open>adb_open\<close> is \<open>OpenRead\<close>, \<open>adb_creat\<close> is \<open>OpenWrite\<close>, \<open>stat\<close>,
  \<open>lstat\<close> (a macro for \<open>stat\<close> on Windows) and \<open>_access\<close> are \<open>Lstat\<close>, the two calls of \<open>adb_lseek\<close> that determine the size of a file are \<open>FileSize\<close>, \<open>_chdir\<close>
  followed by \<open>_findfirst\<close> and \<open>_findnext\<close> to the end is \<open>Readdir\<close>, \<open>adb_close\<close> of a file is \<open>CloseFile\<close> and of the connection \<open>CloseSocket\<close>.

  The program is built for Windows, where \<open>S_ISLNK\<close> and \<open>S_ISBLK\<close> are the constant 0 and links are not compiled. \<open>adb_connect\<close> is the argument \<open>connected\<close>:
  whether it succeeds. The transfer statistics and all that is printed are left out.
\<close>

text \<open>
  What the client uses of its surroundings: \<open>UTF8_to_GBK\<close>, whether \<open>malloc\<close> has so many bytes (for the copy of a package; elsewhere there is memory), and
  what an uninitialised \<open>struct stat\<close> holds.
\<close>

record client_env =
  to_gbk :: "string \<Rightarrow> string"
  malloc_ok :: "nat \<Rightarrow> bool"
  junk_stat :: fstat

section \<open>Requests\<close>

definition sync_request :: "u32 \<Rightarrow> string \<Rightarrow> syncst \<Rightarrow> bool \<times> syncst" where
  "sync_request ident path st =
     (let (ok, st) = sync_writex (syncmsg [ident, of_nat (length path)]) st in
      if ok then sync_writex path st else (False, st))"

definition sync_quit :: "syncst \<Rightarrow> syncst" where
  "sync_quit st = snd (sync_writex (syncmsg [ID_QUIT, 0]) st)"

text \<open>
  \<open>readx\<close> of a signed length into an array of \<open>cap\<close> bytes. The guards of the client are upper bounds on the signed value: a negative length passes them and
  becomes the size of a read that the array does not have.
\<close>

definition read_into :: "nat \<Rightarrow> int \<Rightarrow> syncst \<Rightarrow> (byte list option \<times> syncst) outcome" where
  "read_into cap len st =
     (if len < 0 \<or> nat len > cap then Inl (Bad_access ''buffer'') else Inr (sync_readx (nat len) st))"

definition close_fail :: "kernel \<Rightarrow> syncst \<Rightarrow> int \<times> syncst" where
  "close_fail k st = (- 1, snd (syscall k CloseSocket st))"

section \<open>Listing\<close>

record dent =
  d_mode :: u32
  d_size :: u32
  d_time :: u32
  d_name :: string

lemma read_into_shrinks: "read_into cap len st = Inr (x, st') \<Longrightarrow> length (inp st') \<le> length (inp st)"
  by (auto simp: read_into_def sync_readx_def take_exact_def split: if_splits)

text \<open>The loop of \<open>sync_ls\<close>: the entries for which the callback is called, in order.\<close>

function ls_loop :: "kernel \<Rightarrow> syncst \<Rightarrow> dent list \<Rightarrow> (int \<times> dent list \<times> syncst) outcome" where
  "ls_loop k st acc =
     (let bad = (\<lambda>st. case close_fail k st of (r, st) \<Rightarrow> Inr (r, acc, st)) in
      case sync_readx 20 st of
        (None, st1) \<Rightarrow> bad st1
      | (Some msg, st1) \<Rightarrow>
          if le_word msg = ID_DONE then Inr (0, acc, st1)
          else if le_word msg \<noteq> ID_DENT then bad st1
          else
            let len = sint (le_word (drop 16 msg)) in
            if len > 256 then bad st1
            else (case read_into 257 len st1 of
                Inl e \<Rightarrow> Inl e
              | Inr (None, st2) \<Rightarrow> bad st2
              | Inr (Some name, st2) \<Rightarrow>
                  ls_loop k st2 (acc @ [\<lparr>d_mode = le_word (drop 4 msg), d_size = le_word (drop 8 msg), d_time = le_word (drop 12 msg),
                                         d_name = c_string name\<rparr>])))"
  by pat_completeness auto

termination ls_loop
proof (relation "measure (\<lambda>(k, st, acc). length (inp st))", goal_cases)
  case 1
  then show ?case by simp
qed (auto dest!: length_sync_readx read_into_shrinks simp: prod_eq_iff)

declare ls_loop.simps [simp del]

definition sync_ls :: "kernel \<Rightarrow> string \<Rightarrow> syncst \<Rightarrow> (int \<times> dent list \<times> syncst) outcome" where
  "sync_ls k path st =
     (let bad = (\<lambda>st. case close_fail k st of (r, st) \<Rightarrow> Inr (r, [], st)) in
      if length path > 1024 then bad st
      else case sync_request ID_LIST path st of
        (False, st) \<Rightarrow> bad st
      | (True, st) \<Rightarrow> ls_loop k st [])"

section \<open>Times and modes\<close>

text \<open>The answer to \<open>STAT\<close>: mode, size and time.\<close>

definition read_stat :: "syncst \<Rightarrow> (u32 \<times> u32 \<times> u32) option \<times> syncst" where
  "read_stat st =
     (case sync_readx 16 st of
        (None, st) \<Rightarrow> (None, st)
      | (Some msg, st) \<Rightarrow>
          if le_word msg \<noteq> ID_STAT then (None, st)
          else (Some (le_word (drop 4 msg), le_word (drop 8 msg), le_word (drop 12 msg)), st))"

definition sync_start_readtime :: "string \<Rightarrow> syncst \<Rightarrow> int \<times> syncst" where
  "sync_start_readtime path st = (case sync_request ID_STAT path st of (ok, st) \<Rightarrow> (if ok then 0 else - 1, st))"

definition sync_finish_readtime :: "syncst \<Rightarrow> (u32 \<times> u32 \<times> u32) option \<times> syncst" where
  "sync_finish_readtime st = read_stat st"

definition sync_stat :: "string \<Rightarrow> syncst \<Rightarrow> (u32 \<times> u32 \<times> u32) option \<times> syncst" where
  "sync_stat path st = (case sync_request ID_STAT path st of (False, st) \<Rightarrow> (None, st) | (True, st) \<Rightarrow> read_stat st)"

definition sync_readtime :: "string \<Rightarrow> syncst \<Rightarrow> u32 option \<times> syncst" where
  "sync_readtime path st = (case sync_stat path st of (r, st) \<Rightarrow> (map_option (\<lambda>(m, s, t). t) r, st))"

definition sync_readmode :: "string \<Rightarrow> syncst \<Rightarrow> u32 option \<times> syncst" where
  "sync_readmode path st = (case sync_stat path st of (r, st) \<Rightarrow> (map_option (\<lambda>(m, s, t). m) r, st))"

section \<open>Sending\<close>

text \<open>The loop of \<open>write_data_file\<close> on what \<open>adb_read\<close> answers; the end of the script is the end of the file.\<close>

function data_file_loop :: "rd_ev list \<Rightarrow> syncst \<Rightarrow> int \<times> syncst" where
  "data_file_loop [] st = (0, st)"
| "data_file_loop (Fin # s) st = (0, st)"
| "data_file_loop (Fail e # s) st = (if e = EINTR then data_file_loop s (st\<lparr>errno := e\<rparr>) else (0, st\<lparr>errno := e\<rparr>))"
| "data_file_loop (Seg bs # s) st =
     (if bs = [] then (0, st)
      else
        let chunk = take SYNC_DATA_MAX bs;
            (ok, st) = sync_writex (syncmsg [ID_DATA, of_nat (length chunk)] @ chunk) st in
        if ok then data_file_loop (if length bs > SYNC_DATA_MAX then Seg (drop SYNC_DATA_MAX bs) # s else s) st
        else (- 1, st))"
  by pat_completeness auto

termination data_file_loop
  by (relation "measure (\<lambda>(s, st). sum_list (map ev_size s))") (auto simp: SYNC_DATA_MAX_def)

declare data_file_loop.simps(4) [simp del]

definition write_data_file :: "kernel \<Rightarrow> string \<Rightarrow> bool \<Rightarrow> syncst \<Rightarrow> int \<times> syncst" where
  "write_data_file k path show_progress st =
     (case syscall k (OpenRead path) st of
        (Reads s, st) \<Rightarrow>
          let (r, st) = (if show_progress then syscall k (Lstat path) st else (Done, st)) in
          if failed r then (- 1, st)
          else (case data_file_loop s st of (err, st) \<Rightarrow> (err, snd (syscall k CloseFile st)))
      | (_, st) \<Rightarrow> (- 1, st))"

function write_data_buffer :: "byte list \<Rightarrow> syncst \<Rightarrow> int \<times> syncst" where
  "write_data_buffer file_buffer st =
     (if file_buffer = [] then (0, st)
      else
        let chunk = take SYNC_DATA_MAX file_buffer;
            (ok, st) = sync_writex (syncmsg [ID_DATA, of_nat (length chunk)] @ chunk) st in
        if ok then write_data_buffer (drop SYNC_DATA_MAX file_buffer) st else (- 1, st))"
  by pat_completeness auto

termination write_data_buffer
  by (relation "measure (\<lambda>(b, st). length b)") (auto simp: SYNC_DATA_MAX_def)

declare write_data_buffer.simps [simp del]

text \<open>The status that ends a transfer.\<close>

definition read_status :: "syncst \<Rightarrow> (int \<times> syncst) outcome" where
  "read_status st =
     (case sync_readx 8 st of
        (None, st) \<Rightarrow> Inr (- 1, st)
      | (Some msg, st) \<Rightarrow>
          if le_word msg = ID_OKAY then Inr (0, st)
          else if le_word msg = ID_FAIL then
            bindE (read_into SYNC_DATA_MAX (min 256 (sint (le_word (drop 4 msg)))) st) (\<lambda>(_, st). Inr (- 1, st))
          else Inr (- 1, st))"

text \<open>
  The check of a package: one \<open>adb_read\<close> of the whole file, which must be an archive with a manifest. \<open>Inl\<close> is a return value of \<open>sync_send\<close>, \<open>Inr\<close> the
  contents.
\<close>

fun read_once :: "nat \<Rightarrow> rd_ev list \<Rightarrow> byte list option" where
  "read_once n (Seg bs # s) = Some (take n bs)"
| "read_once n (Fail e # s) = None"
| "read_once n s = Some []"

definition load_apk :: "kernel \<Rightarrow> client_env \<Rightarrow> string \<Rightarrow> syncst \<Rightarrow> ((int + byte list) \<times> syncst) outcome" where
  "load_apk k env lpath st =
     (case syscall k (OpenRead lpath) st of
        (Reads s, st) \<Rightarrow>
          let (r, st) = syscall k FileSize st;
              st' = snd (syscall k CloseFile st) in
          (case r of
             Stat fs \<Rightarrow>
               let n = unat (ucast (st_size fs) :: u32) in
               if \<not> malloc_ok env n \<or> n = 2 ^ 32 - 1 then Inr (Inl 1, st')
               else (case read_once n s of
                   None \<Rightarrow> Inr (Inl 1, st')
                 | Some bs \<Rightarrow>
                     if length bs \<noteq> n then Inr (Inl 1, st')
                     else
                       bindE (init_zipfile bs) (\<lambda>zip.
                         case zip of
                           None \<Rightarrow> Inr (Inl 1, st')
                         | Some zf \<Rightarrow>
                             bindE (lookup_zipentry zf ''AndroidManifest.xml'') (\<lambda>e.
                               Inr (if e = None then Inl 1 else Inr bs, st'))))
           | _ \<Rightarrow> Inr (Inl 1, st'))
      | (_, st) \<Rightarrow> Inr (Inl (- 1), st))"

text \<open>The rest of \<open>sync_send\<close>, from the request on. The results of \<open>write_data_buffer\<close> and \<open>write_data_file\<close> are not looked at.\<close>

definition send_request :: "string \<Rightarrow> u32 \<Rightarrow> syncst \<Rightarrow> bool \<times> syncst" where
  "send_request rpath mode st =
     (let tmp = '','' @ fmt_d (sint mode);
          (ok, st) = sync_writex (syncmsg [ID_SEND, of_nat (length rpath + length tmp)]) st;
          (ok, st) = (if ok then sync_writex rpath st else (False, st)) in
      if ok then sync_writex tmp st else (False, st))"

definition send_body ::
  "kernel \<Rightarrow> string \<Rightarrow> u32 \<Rightarrow> u32 \<Rightarrow> byte list option \<Rightarrow> bool \<Rightarrow> syncst \<Rightarrow> (int \<times> syncst) outcome" where
  "send_body k lpath mtime mode apk show_progress st =
     (let (known, st) =
        (case apk of
           Some b \<Rightarrow> (True, snd (write_data_buffer b st))
         | None \<Rightarrow> if S_ISREG mode then (True, snd (write_data_file k lpath show_progress st)) else (False, st)) in
      if \<not> known then Inr (close_fail k st)
      else
        let (ok, st) = sync_writex (syncmsg [ID_DONE, mtime]) st in
        if \<not> ok then Inr (close_fail k st) else read_status st)"

definition sync_send ::
  "kernel \<Rightarrow> client_env \<Rightarrow> string \<Rightarrow> string \<Rightarrow> u32 \<Rightarrow> u32 \<Rightarrow> bool \<Rightarrow> bool \<Rightarrow> syncst \<Rightarrow> (int \<times> syncst) outcome" where
  "sync_send k env lpath rpath mtime mode verifyApk show_progress st =
     (if length rpath > 1024 then Inr (close_fail k st)
      else
        bindE (if verifyApk then bindE (load_apk k env lpath st) (\<lambda>(r, st). Inr (map_sum id Some r, st)) else Inr (Inr None, st)) (\<lambda>(r, st).
          case r of
            Inl code \<Rightarrow> Inr (code, st)
          | Inr apk \<Rightarrow>
              (case send_request rpath mode st of
                 (False, st) \<Rightarrow> Inr (close_fail k st)
               | (True, st) \<Rightarrow> send_body k lpath mtime mode apk show_progress st)))"

section \<open>Receiving\<close>

text \<open>\<open>mkdirs\<close>: the name is copied to an array of 260 bytes; every prefix that does not exist is created, until one cannot be.\<close>

fun client_mkdirs_loop :: "kernel \<Rightarrow> string list \<Rightarrow> syncst \<Rightarrow> syncst" where
  "client_mkdirs_loop k [] st = st"
| "client_mkdirs_loop k (s # ss) st =
     (case syscall k (Lstat s) st of
        (r, st) \<Rightarrow>
          if failed r then
            (case syscall k (Mkdir s 0) st of (r, st) \<Rightarrow> if failed r then st else client_mkdirs_loop k ss st)
          else client_mkdirs_loop k ss st)"

definition client_mkdirs :: "kernel \<Rightarrow> string \<Rightarrow> syncst \<Rightarrow> syncst outcome" where
  "client_mkdirs k name st =
     (if length name \<ge> 260 then Inl (Bad_access ''strFilePath'')
      else Inr (client_mkdirs_loop k (map (\<lambda>i. take i name) (filter (\<lambda>i. name ! i = CHR ''/'') [0..<length name]) @ [name]) st))"

text \<open>\<open>str.replace(2, 1, "/")\<close> and the part before the last slash.\<close>

definition local_dir :: "string \<Rightarrow> string outcome" where
  "local_dir str =
     (if length str < 2 then Inl (Fatal ''std::out_of_range'')
      else let s = take 2 str @ ''/'' @ drop 3 str in Inr (rev (drop 1 (dropWhile (\<lambda>c. c \<noteq> CHR ''/'') (rev s)))))"

text \<open>\<open>remote_error\<close>; \<open>lfd\<close> says whether the local file is open. The return value of a remote failure is 0.\<close>

definition remote_error :: "kernel \<Rightarrow> string \<Rightarrow> bool \<Rightarrow> byte list \<Rightarrow> syncst \<Rightarrow> (int \<times> syncst) outcome" where
  "remote_error k lpath lfd msg st =
     (let st = (if lfd then snd (syscall k CloseFile st) else st);
          st = snd (syscall k (Unlink lpath) st) in
      if le_word msg = ID_FAIL then
        bindE (read_into SYNC_DATA_MAX (min 256 (sint (le_word (drop 4 msg)))) st) (\<lambda>(r, st).
          case r of None \<Rightarrow> Inr (- 1, st) | Some _ \<Rightarrow> Inr (0, st))
      else Inr (0, st))"

text \<open>The loop of \<open>sync_recv\<close> from \<open>handle_data\<close> on, with the message just read.\<close>

function recv_loop :: "kernel \<Rightarrow> string \<Rightarrow> byte list \<Rightarrow> syncst \<Rightarrow> (int \<times> syncst) outcome" where
  "recv_loop k lpath msg st =
     (let len = sint (le_word (drop 4 msg)) in
      if le_word msg = ID_DONE then Inr (0, snd (syscall k CloseFile st))
      else if le_word msg \<noteq> ID_DATA then remote_error k lpath True msg st
      else if len > int SYNC_DATA_MAX then Inr (- 1, snd (syscall k CloseFile st))
      else (case read_into SYNC_DATA_MAX len st of
          Inl e \<Rightarrow> Inl e
        | Inr (None, st1) \<Rightarrow> Inr (- 1, snd (syscall k CloseFile st1))
        | Inr (Some bs, st1) \<Rightarrow>
            (case syscall k (WriteFile bs) st1 of
               (r, st2) \<Rightarrow>
                 if failed r then Inr (- 1, snd (syscall k CloseFile st2))
                 else (case sync_readx 8 st2 of
                     (None, st3) \<Rightarrow> Inr (- 1, st3)
                   | (Some msg', st3) \<Rightarrow> recv_loop k lpath msg' st3))))"
  by pat_completeness auto

termination recv_loop
proof (relation "measure (\<lambda>(k, lpath, msg, st). length (inp st))", goal_cases)
  case 1
  then show ?case by simp
qed (auto dest!: length_sync_readx read_into_shrinks inp_syscall_pair simp: prod_eq_iff)

declare recv_loop.simps [simp del]

definition sync_recv :: "kernel \<Rightarrow> client_env \<Rightarrow> string \<Rightarrow> string \<Rightarrow> bool \<Rightarrow> syncst \<Rightarrow> (int \<times> syncst) outcome" where
  "sync_recv k env rpath lpath show_progress st =
     (if length rpath > 1024 then Inr (- 1, st)
      else
        let (ok, st) = (if show_progress then (case sync_stat rpath st of (r, st) \<Rightarrow> (r \<noteq> None, st)) else (True, st)) in
        if \<not> ok then Inr (- 1, st)
        else (case sync_request ID_RECV rpath st of
            (False, st) \<Rightarrow> Inr (- 1, st)
          | (True, st) \<Rightarrow>
              (case sync_readx 8 st of
                 (None, st) \<Rightarrow> Inr (- 1, st)
               | (Some msg, st) \<Rightarrow>
                   if le_word msg = ID_DATA \<or> le_word msg = ID_DONE then
                     bindE (local_dir (to_gbk env lpath)) (\<lambda>dir.
                     bindE (client_mkdirs k dir (snd (syscall k (Unlink lpath) st))) (\<lambda>st.
                       case syscall k (OpenWrite lpath 0x1a4) st of
                         (r, st) \<Rightarrow> if failed r then Inr (- 1, st) else recv_loop k lpath msg st))
                   else remote_error k lpath False msg st)))"

section \<open>Lists of files\<close>

record copyinfo =
  ci_src :: string
  ci_dst :: string
  ci_time :: u32
  ci_mode :: u32
  ci_size :: u32
  ci_flag :: bool

definition mkcopyinfo :: "string \<Rightarrow> string \<Rightarrow> string \<Rightarrow> bool \<Rightarrow> copyinfo" where
  "mkcopyinfo spath dpath name isdir =
     (let tail = name @ (if isdir then ''/'' else []) in
      \<lparr>ci_src = spath @ tail, ci_dst = dpath @ tail, ci_time = 0, ci_mode = 0, ci_size = 0, ci_flag = False\<rparr>)"

definition S_ISDIR :: "u32 \<Rightarrow> bool" where "S_ISDIR mode = (mode AND S_IFMT = 0x4000)"
definition S_ISCHR :: "u32 \<Rightarrow> bool" where "S_ISCHR mode = (mode AND S_IFMT = 0x2000)"

definition dot_name :: "string \<Rightarrow> bool" where
  "dot_name name = (name = ''.'' \<or> name = ''..'')"

text \<open>
  The loop of \<open>local_build_list\<close> over the names that \<open>_findfirst\<close> and \<open>_findnext\<close> yield; \<open>fs\<close> is the variable \<open>st\<close>, which keeps its old value when \<open>stat\<close>
  fails. When a name does not fit \<open>MAX_PATH\<close>, the loop calls \<open>_findnext\<close> once more and so passes over the name behind it too. The result: whether the loop
  came to its end, the directories and the files found.
\<close>

definition MAX_PATH :: nat where "MAX_PATH = 260"

function local_scan ::
  "kernel \<Rightarrow> string \<Rightarrow> string \<Rightarrow> string list \<Rightarrow> fstat \<Rightarrow> copyinfo list \<Rightarrow> copyinfo list \<Rightarrow> syncst \<Rightarrow>
   bool \<times> copyinfo list \<times> copyinfo list \<times> syncst" where
  "local_scan k lpath rpath [] fs dirlist filelist st = (True, dirlist, filelist, st)"
| "local_scan k lpath rpath (name # names) fs dirlist filelist st =
     (if dot_name name then local_scan k lpath rpath names fs dirlist filelist st
      else if length lpath + length name + 1 > MAX_PATH then local_scan k lpath rpath (drop 1 names) fs dirlist filelist st
      else
        let (r, st) = syscall k (Lstat (lpath @ name)) st;
            fs = (case r of Stat s \<Rightarrow> s | _ \<Rightarrow> fs) in
        if st_mode fs AND 0x4000 \<noteq> 0 then
          local_scan k lpath rpath names fs (mkcopyinfo lpath rpath name True # dirlist) filelist st
        else
          let ci = mkcopyinfo lpath rpath name False;
              (r, st) = syscall k (Lstat (ci_src ci)) st in
          case r of
            Stat fs \<Rightarrow>
              if S_ISREG (st_mode fs) then
                local_scan k lpath rpath names fs dirlist
                  (ci\<lparr>ci_time := st_mtime fs, ci_mode := st_mode fs, ci_size := ucast (st_size fs)\<rparr> # filelist) st
              else local_scan k lpath rpath names fs dirlist filelist st
          | _ \<Rightarrow> (False, dirlist, filelist, st))"
  by pat_completeness auto

termination local_scan
  by (relation "measure (\<lambda>(k, lpath, rpath, names, rest). length names)") auto

declare local_scan.simps(2) [simp del]

text \<open>Every directory found has a longer path than the one it was found in, and one that fits \<open>MAX_PATH\<close>.\<close>

lemma local_scan_dirs:
  "ci \<in> set (fst (snd (local_scan k lpath rpath names fs dirlist filelist st))) \<Longrightarrow>
   ci \<in> set dirlist \<or> length lpath < length (ci_src ci) \<and> length (ci_src ci) \<le> MAX_PATH"
proof (induction "length names" arbitrary: names fs dirlist filelist st rule: less_induct)
  case less
  show ?case
  proof (cases names)
    case Nil
    then show ?thesis using less.prems by simp
  next
    case (Cons name rest)
    note IH = less.hyps [of rest] less.hyps [of "drop (Suc 0) rest"]
    show ?thesis
      using less.prems
      by (auto simp: Cons local_scan.simps(2) Let_def split_beta mkcopyinfo_def split: if_splits sysres.splits dest!: IH [rotated])
  qed
qed

text \<open>
  \<open>local_build_list\<close> and its loop over the directories found, in which the result of the recursive call is not looked at. A directory in which
  \<open>_findfirst\<close> finds nothing leaves \<open>c_file\<close> uninitialised; the code reads it all the same.
\<close>

definition depth_left :: "string \<Rightarrow> nat" where
  "depth_left path = Suc (Suc MAX_PATH - length path)"

definition deepest :: "copyinfo list \<Rightarrow> nat" where
  "deepest cis = foldr (\<lambda>ci n. max (depth_left (ci_src ci)) n) cis 0"

lemma deepest_simps [simp]: "deepest [] = 0" "deepest (ci # cis) = max (depth_left (ci_src ci)) (deepest cis)"
  by (simp_all add: deepest_def)

lemma deepest_less: "\<forall>ci\<in>set cis. depth_left (ci_src ci) < n \<Longrightarrow> 0 < n \<Longrightarrow> deepest cis < n"
  by (induction cis) simp_all

lemma local_scan_deeper:
  assumes "local_scan k lpath rpath names fs [] filelist st = (ok, dirs, rest)"
  shows "deepest dirs < depth_left lpath"
proof (rule deepest_less)
  have "length lpath < length (ci_src ci) \<and> length (ci_src ci) \<le> MAX_PATH" if "ci \<in> set dirs" for ci
    using local_scan_dirs [of ci k lpath rpath names fs "[]" filelist st] assms that by simp
  then show "\<forall>ci\<in>set dirs. depth_left (ci_src ci) < depth_left lpath"
    unfolding depth_left_def by (meson Suc_less_eq diff_less_mono2 le_imp_less_Suc less_trans)
qed (simp add: depth_left_def)

function local_build_list ::
    "kernel \<Rightarrow> client_env \<Rightarrow> string \<Rightarrow> string \<Rightarrow> copyinfo list \<Rightarrow> syncst \<Rightarrow> (int \<times> copyinfo list \<times> syncst) outcome"
  and local_build_dirs ::
    "kernel \<Rightarrow> client_env \<Rightarrow> copyinfo list \<Rightarrow> copyinfo list \<Rightarrow> syncst \<Rightarrow> (copyinfo list \<times> syncst) outcome" where
  "local_build_list k env lpath rpath filelist st =
     (case syscall k (Readdir lpath) st of
        (Names names, st) \<Rightarrow>
          if names = [] then Inl (Bad_access ''c_file'')
          else (case local_scan k lpath rpath names (junk_stat env) [] filelist st of
              (ok, dirs, filelist, st) \<Rightarrow>
                if \<not> ok then Inr (- 1, filelist, st)
                else (case local_build_dirs k env dirs filelist st of
                    Inl f \<Rightarrow> Inl f
                  | Inr (filelist, st) \<Rightarrow> Inr (0, filelist, st)))
      | (_, st) \<Rightarrow> Inr (- 1, filelist, st))"
| "local_build_dirs k env [] filelist st = Inr (filelist, st)"
| "local_build_dirs k env (ci # cis) filelist st =
     (case local_build_list k env (ci_src ci) (ci_dst ci) filelist st of
        Inl f \<Rightarrow> Inl f
      | Inr (r, filelist, st) \<Rightarrow> local_build_dirs k env cis filelist st)"
  by pat_completeness auto

termination local_build_list
proof (relation "inv_image (less_than <*lex*> less_than)
    (\<lambda>x. case x of Inl (k, env, lpath, rpath, fl, st) \<Rightarrow> (depth_left lpath, 0)
                 | Inr (k, env, cis, fl, st) \<Rightarrow> (deepest cis, Suc (length cis)))", goal_cases)
  case 1
  then show ?case by blast
qed (auto dest!: local_scan_deeper [OF sym] simp: less_max_iff_disj le_less[symmetric])

declare local_build_list.simps [simp del]

section \<open>Copying a directory to the device\<close>

definition with_slash :: "string \<Rightarrow> string" where
  "with_slash path = (if last path \<noteq> CHR ''/'' then path @ ''/'' else path)"

fun start_times :: "copyinfo list \<Rightarrow> syncst \<Rightarrow> bool \<times> syncst" where
  "start_times [] st = (True, st)"
| "start_times (ci # cis) st =
     (case sync_start_readtime (ci_dst ci) st of (r, st) \<Rightarrow> if r \<noteq> 0 then (False, st) else start_times cis st)"

text \<open>The answers mark the files that are already there; for a link the second alternative of the condition is the constant 0.\<close>

fun finish_times :: "copyinfo list \<Rightarrow> syncst \<Rightarrow> copyinfo list option \<times> syncst" where
  "finish_times [] st = (Some [], st)"
| "finish_times (ci # cis) st =
     (case sync_finish_readtime st of
        (None, st) \<Rightarrow> (None, st)
      | (Some (mode, sz, time), st) \<Rightarrow>
          let ci = (if sz = ci_size ci \<and> S_ISREG (ci_mode ci AND mode) \<and> time = ci_time ci then ci\<lparr>ci_flag := True\<rparr> else ci) in
          (case finish_times cis st of (r, st) \<Rightarrow> (map_option ((#) ci) r, st)))"

fun push_files :: "kernel \<Rightarrow> client_env \<Rightarrow> bool \<Rightarrow> copyinfo list \<Rightarrow> syncst \<Rightarrow> (int \<times> syncst) outcome" where
  "push_files k env listonly [] st = Inr (0, st)"
| "push_files k env listonly (ci # cis) st =
     (if \<not> ci_flag ci \<and> \<not> listonly then
        (case sync_send k env (ci_src ci) (ci_dst ci) (ci_time ci) (ci_mode ci) False False st of
           Inl f \<Rightarrow> Inl f
         | Inr (r, st) \<Rightarrow> if r \<noteq> 0 then Inr (1, st) else push_files k env listonly cis st)
      else push_files k env listonly cis st)"

definition copy_local_dir_remote ::
  "kernel \<Rightarrow> client_env \<Rightarrow> string \<Rightarrow> string \<Rightarrow> bool \<Rightarrow> bool \<Rightarrow> syncst \<Rightarrow> (int \<times> syncst) outcome" where
  "copy_local_dir_remote k env lpath rpath checktimestamps listonly st =
     (if lpath = [] \<or> rpath = [] then Inr (- 1, st)
      else
        bindE (local_build_list k env (with_slash lpath) (with_slash rpath) [] st) (\<lambda>(r, filelist, st).
          if r \<noteq> 0 then Inr (- 1, st)
          else
            let (marked, st) =
              (if checktimestamps then
                 (case start_times filelist st of
                    (False, st) \<Rightarrow> (None, st)
                  | (True, st) \<Rightarrow> finish_times filelist st)
               else (Some filelist, st)) in
            case marked of
              None \<Rightarrow> Inr (1, st)
            | Some filelist \<Rightarrow> push_files k env listonly filelist st))"

section \<open>Copying a directory from the device\<close>

text \<open>\<open>sync_ls_build_list_cb\<close> on the directories and the files found so far.\<close>

definition sync_ls_build_list_cb :: "string \<Rightarrow> string \<Rightarrow> dent \<Rightarrow> copyinfo list \<times> copyinfo list \<Rightarrow> copyinfo list \<times> copyinfo list" where
  "sync_ls_build_list_cb rpath lpath d acc =
     (case acc of (dirlist, filelist) \<Rightarrow>
        if S_ISDIR (d_mode d) then
          if dot_name (d_name d) then acc else (mkcopyinfo rpath lpath (d_name d) True # dirlist, filelist)
        else if S_ISREG (d_mode d) then
          (dirlist, (mkcopyinfo rpath lpath (d_name d) False)\<lparr>ci_time := d_time d, ci_mode := d_mode d, ci_size := d_size d\<rparr> # filelist)
        else acc)"

lemma ls_loop_shrinks:
  "ls_loop k st acc = Inr (r, ds, st') \<Longrightarrow> length (inp st') \<le> length (inp st) \<and> (r = 0 \<longrightarrow> length (inp st') < length (inp st))"
proof (induction "length (inp st)" arbitrary: st acc rule: less_induct)
  case less
  obtain x st1 where r: "sync_readx 20 st = (x, st1)" by (cases "sync_readx 20 st")
  show ?case
  proof (cases x)
    case None
    then show ?thesis using r less.prems
      by (auto simp: ls_loop.simps [of k st] close_fail_def sync_readx_def split: option.splits prod.splits)
  next
    case (Some msg)
    have l1: "length (inp st1) < length (inp st)" using length_sync_readx [of msg 20 st] r Some by simp
    have IH: "length (inp st') < length (inp st)" if "ls_loop k st2 acc' = Inr (r, ds, st')" "length (inp st2) \<le> length (inp st1)" for st2 acc'
      using less.hyps [of st2 acc'] that l1 by linarith
    show ?thesis using less.prems r Some l1
      by (auto simp: ls_loop.simps [of k st] close_fail_def Let_def dest!: read_into_shrinks IH split: if_splits sum.splits prod.splits option.splits)
  qed
qed

lemma sync_ls_shrinks:
  assumes "sync_ls k path st = Inr (0, ds, st')"
  shows "length (inp st') < length (inp st)"
proof -
  have w: "inp (snd (sync_request i p s)) = inp s" for i p s by (simp add: sync_request_def split_beta)
  show ?thesis
    using assms ls_loop_shrinks [of k "snd (sync_request ID_LIST path st)" "[]" 0 ds st'] w [of ID_LIST path st]
    by (auto simp: sync_ls_def close_fail_def Let_def split: if_splits prod.splits bool.splits)
qed

text \<open>
  \<open>remote_build_list\<close> with the directories still to be visited: a directory is listed, then the directories found in it are visited, the one found last
  first, then the others. Any failure ends the whole. Every listing that succeeds consumes an answer, so that the recursion ends with the input.
\<close>

function remote_build_list :: "kernel \<Rightarrow> copyinfo list \<Rightarrow> copyinfo list \<Rightarrow> syncst \<Rightarrow> (int \<times> copyinfo list \<times> syncst) outcome" where
  "remote_build_list k [] filelist st = Inr (0, filelist, st)"
| "remote_build_list k (d # ds) filelist st =
     (case sync_ls k (ci_src d) st of
        Inl f \<Rightarrow> Inl f
      | Inr (r, dents, st') \<Rightarrow>
          if r \<noteq> 0 then Inr (1, filelist, st')
          else (case fold (sync_ls_build_list_cb (ci_src d) (ci_dst d)) dents ([], filelist) of
              (dirlist, filelist) \<Rightarrow> remote_build_list k (dirlist @ ds) filelist st'))"
  by pat_completeness auto

termination remote_build_list
  by (relation "measure (\<lambda>(k, ds, fl, st). length (inp st))") (auto dest: sync_ls_shrinks)

fun pull_files :: "kernel \<Rightarrow> client_env \<Rightarrow> copyinfo list \<Rightarrow> syncst \<Rightarrow> (int \<times> syncst) outcome" where
  "pull_files k env [] st = Inr (0, st)"
| "pull_files k env (ci # cis) st =
     (if ci_flag ci then pull_files k env cis st
      else (case sync_recv k env (ci_src ci) (ci_dst ci) False st of
          Inl f \<Rightarrow> Inl f
        | Inr (r, st) \<Rightarrow> if r \<noteq> 0 then Inr (1, st) else pull_files k env cis st))"

definition copy_remote_dir_local :: "kernel \<Rightarrow> client_env \<Rightarrow> string \<Rightarrow> string \<Rightarrow> syncst \<Rightarrow> (int \<times> syncst) outcome" where
  "copy_remote_dir_local k env rpath lpath st =
     (if rpath = [] \<or> lpath = [] then Inr (- 1, st)
      else
        bindE (remote_build_list k [mkcopyinfo (with_slash rpath) (with_slash lpath) [] False] [] st) (\<lambda>(r, filelist, st).
          if r \<noteq> 0 then Inr (- 1, st) else pull_files k env filelist st))"

section \<open>The commands\<close>

text \<open>\<open>adb_dirstop\<close> on Windows: the last slash or backslash.\<close>

definition adb_dirstop :: "string \<Rightarrow> nat option" where
  "adb_dirstop path = find (\<lambda>i. path ! i = CHR ''/'' \<or> path ! i = CHR 0x5C) (rev [0..<length path])"

definition base_name :: "string \<Rightarrow> string" where
  "base_name path = (case adb_dirstop path of None \<Rightarrow> path | Some i \<Rightarrow> drop (Suc i) path)"

definition quit_ok :: "syncst \<Rightarrow> int \<times> syncst" where
  "quit_ok st = (0, sync_quit st)"

definition do_sync_ls :: "kernel \<Rightarrow> bool \<Rightarrow> string \<Rightarrow> syncst \<Rightarrow> (int \<times> dent list \<times> syncst) outcome" where
  "do_sync_ls k connected path st =
     (if \<not> connected then Inr (1, [], st)
      else bindE (sync_ls k path st) (\<lambda>(r, ds, st). Inr (if r \<noteq> 0 then (1, ds, st) else (0, ds, sync_quit st))))"

definition finish_sync :: "(int \<times> syncst) outcome \<Rightarrow> (int \<times> syncst) outcome" where
  "finish_sync res = bindE res (\<lambda>(r, st). Inr (if r \<noteq> 0 then (1, st) else quit_ok st))"

definition do_sync_push ::
  "kernel \<Rightarrow> client_env \<Rightarrow> bool \<Rightarrow> string \<Rightarrow> string \<Rightarrow> bool \<Rightarrow> bool \<Rightarrow> syncst \<Rightarrow> (int \<times> syncst) outcome" where
  "do_sync_push k env connected lpath rpath verifyApk show_progress st =
     (if \<not> connected then Inr (1, st)
      else case syscall k (Lstat (to_gbk env lpath)) st of
        (Stat fs, st) \<Rightarrow>
          if S_ISDIR (st_mode fs) then finish_sync (copy_local_dir_remote k env lpath rpath False False st)
          else (case sync_readmode rpath st of
              (None, st) \<Rightarrow> Inr (1, st)
            | (Some mode, st) \<Rightarrow>
                let rpath = (if mode \<noteq> 0 \<and> S_ISDIR mode then rpath @ ''/'' @ base_name lpath else rpath) in
                finish_sync (sync_send k env lpath rpath (st_mtime fs) (st_mode fs) verifyApk show_progress st))
      | (_, st) \<Rightarrow> Inr (1, sync_quit st))"

definition do_sync_pull ::
  "kernel \<Rightarrow> client_env \<Rightarrow> bool \<Rightarrow> string \<Rightarrow> string \<Rightarrow> bool \<Rightarrow> syncst \<Rightarrow> (int \<times> syncst) outcome" where
  "do_sync_pull k env connected rpath lpath show_progress st =
     (if \<not> connected then Inr (1, st)
      else case sync_readmode rpath st of
        (None, st) \<Rightarrow> Inr (1, st)
      | (Some mode, st) \<Rightarrow>
          if mode = 0 then Inr (1, st)
          else if S_ISREG mode \<or> S_ISCHR mode then
            let (r, st) = syscall k (Lstat lpath) st;
                lpath = (case r of Stat fs \<Rightarrow> if S_ISDIR (st_mode fs) then lpath @ ''/'' @ base_name rpath else lpath | _ \<Rightarrow> lpath) in
            finish_sync (sync_recv k env rpath lpath show_progress st)
          else if S_ISDIR mode then finish_sync (copy_remote_dir_local k env rpath lpath st)
          else Inr (1, st))"

definition do_sync_sync :: "kernel \<Rightarrow> client_env \<Rightarrow> bool \<Rightarrow> string \<Rightarrow> string \<Rightarrow> bool \<Rightarrow> syncst \<Rightarrow> (int \<times> syncst) outcome" where
  "do_sync_sync k env connected lpath rpath listonly st =
     (if \<not> connected then Inr (1, st)
      else finish_sync (copy_local_dir_remote k env lpath rpath True listonly st))"

end
