(* ===== verification/Command_Line.thy ===== *)
theory Command_Line
  imports Adb_Client Sync_Client
begin

text \<open>
  \<open>commandline.cpp\<close> and \<open>console.cpp\<close>, built for Windows: the commands of the client, from their arguments to the requests that are sent to the server and
  the output that is printed.

  The state extends the client's: \<open>c_reads\<close> says how the bytes of a connection arrive (a call of \<open>adb_read\<close> returns at most so many, or fails; all that there is
  when nothing is said), \<open>c_sync\<close> is the state of the file transfers and of the calls on local files, \<open>c_out\<close> is the standard output, \<open>product_out\<close> and \<open>listen_all\<close>
  are \<open>gProductOutPath\<close> and \<open>gListenAll\<close>. The error output, the progress of a transfer and colours are left out. \<open>None\<close>: a loop runs for ever.

  On Windows, \<open>snprintf\<close> is \<open>_snprintf\<close>, which leaves out the terminating zero when the text fills the array: the call that reads the text next reads behind it.
\<close>

section \<open>State\<close>

record cmdst = clientst +
  c_reads :: "(nat + errno) list"
  c_sync :: syncst
  c_out :: "byte list"
  product_out :: "string option"
  listen_all :: bool

text \<open>
  Environment variables, \<open>access\<close>, \<open>getcwd\<close>, the directory of the program, the conversions of \<open>stringcov.cpp\<close>, the kernel, the exit status of a server that
  runs in this process, and the descriptors \<open>socket_loopback_client\<close> returns are parameters.
\<close>

record cmdenv =
  getenv :: "string \<Rightarrow> string option"
  access_ok :: "string \<Rightarrow> bool"
  getcwd :: "string option"
  get_my_path :: string
  cl_env :: client_env
  to_utf8 :: "string \<Rightarrow> string"
  kern :: kernel
  adb_main :: "bool \<Rightarrow> int \<Rightarrow> int"

type_synonym 'a cmd = "('a \<times> cmdst) outcome option"

definition print :: "string \<Rightarrow> cmdst \<Rightarrow> cmdst" where
  "print s st = st\<lparr>c_out := c_out st @ s\<rparr>"

definition ret :: "int \<Rightarrow> cmdst \<Rightarrow> int cmd" where
  "ret r st = Some (Inr (r, st))"

text \<open>\<open>usage\<close> prints the help text, on the error output.\<close>

definition usage :: "cmdst \<Rightarrow> int cmd" where
  "usage st = ret 1 st"

text \<open>Texts in arrays: \<open>snprintf\<close>, \<open>strcat\<close>, \<open>strncat\<close> with the bounds the code passes.\<close>

definition sntext :: "nat \<Rightarrow> string \<Rightarrow> string outcome" where
  "sntext n s = (if length s < n then Inr s else Inl (Bad_access ''buf''))"

definition strcat :: "nat \<Rightarrow> string \<Rightarrow> string \<Rightarrow> string outcome" where
  "strcat n s b = (if length b + length s < n then Inr (b @ s) else Inl (Bad_access ''buf''))"

definition strncat :: "nat \<Rightarrow> string \<Rightarrow> nat \<Rightarrow> string \<Rightarrow> string outcome" where
  "strncat n s k b = strcat n (take k s) b"

section \<open>Numbers and paths\<close>

text \<open>\<open>strtol (s, NULL, 0)\<close>; \<open>long\<close> has 32 bits.\<close>

definition strtol0 :: "string \<Rightarrow> int" where
  "strtol0 s =
     (case split_sign (dropWhile is_space s) of (neg, s) \<Rightarrow>
        let v = (if skip_0x s \<noteq> s then File_Sync.digits_value 16 (skip_0x s)
                 else File_Sync.digits_value (if take 1 s = ''0'' then 8 else 10) s)
        in if neg then max (- (2 ^ 31)) (- int v) else min (2 ^ 31 - 1) (int v))"

text \<open>
  \<open>adb_dirstart\<close> on Windows: the first slash or the first backslash, whichever comes later.
\<close>

definition adb_dirstart :: "nat \<Rightarrow> string \<Rightarrow> nat option" where
  "adb_dirstart i path =
     (case (strchr_from i CHR ''/'' path, strchr_from i CHR 0x5C path) of
        (None, p2) \<Rightarrow> p2
      | (Some p, Some p2) \<Rightarrow> Some (max p p2)
      | (Some p, None) \<Rightarrow> Some p)"

definition isalpha :: "char \<Rightarrow> bool" where
  "isalpha c = (between CHR ''a'' CHR ''z'' c \<or> between CHR ''A'' CHR ''Z'' c)"

definition adb_is_absolute_host_path :: "string \<Rightarrow> bool" where
  "adb_is_absolute_host_path path =
     (path \<noteq> [] \<and> isalpha (hd path) \<and> take 2 (drop 1 path) = [CHR '':'', CHR 0x5C])"

definition PATH_MAX :: nat where "PATH_MAX = 260"
definition SEP :: string where "SEP = [CHR 0x5C]"

definition product_file :: "string \<Rightarrow> cmdst \<Rightarrow> string outcome" where
  "product_file extra st =
     (case product_out st of None \<Rightarrow> Inl (Fatal ''exit'') | Some p \<Rightarrow> Inr (p @ SEP @ extra))"

definition SENTINEL_FILE :: string where "SENTINEL_FILE = ''config'' @ SEP @ ''envsetup.make''"

definition top_works :: "cmdenv \<Rightarrow> string \<Rightarrow> bool outcome" where
  "top_works env tp =
     (if adb_is_absolute_host_path tp then
        bindE (sntext PATH_MAX (tp @ SEP @ SENTINEL_FILE)) (\<lambda>p. Inr (access_ok env p))
      else Inr False)"

definition strcpy :: "nat \<Rightarrow> string \<Rightarrow> string outcome" where
  "strcpy n s = (if length s < n then Inr s else Inl (Bad_access ''strcpy''))"

lemma adb_dirstop_less: "adb_dirstop path = Some i \<Longrightarrow> i < length path"
  by (auto simp: adb_dirstop_def find_Some_iff rev_nth)

text \<open>The walk up the tree.\<close>

function walk_up :: "cmdenv \<Rightarrow> string \<Rightarrow> string option outcome" where
  "walk_up env path =
     bindE (top_works env path) (\<lambda>ok.
       if ok then Inr (Some path)
       else case adb_dirstop path of Some i \<Rightarrow> walk_up env (take i path) | None \<Rightarrow> Inr None)"
  by pat_completeness auto

termination walk_up
  by (relation "measure (\<lambda>(env, path). length path)") (auto dest: adb_dirstop_less)

declare walk_up.simps [simp del]

definition find_top_from :: "cmdenv \<Rightarrow> string \<Rightarrow> string option outcome" where
  "find_top_from env indir = bindE (strcpy PATH_MAX indir) (walk_up env)"

text \<open>A variable that is set and not empty; \<open>getcwd\<close> that fails hands \<open>NULL\<close> to \<open>strcpy\<close>.\<close>

definition env_text :: "cmdenv \<Rightarrow> string \<Rightarrow> string option" where
  "env_text env v = (case getenv env v of Some s \<Rightarrow> if s = [] then None else Some s | None \<Rightarrow> None)"

definition find_top :: "cmdenv \<Rightarrow> string option outcome" where
  "find_top env =
     (case (case env_text env ''ANDROID_BUILD_TOP'' of Some tp \<Rightarrow> Some tp | None \<Rightarrow> env_text env ''TOP'') of
        Some tp \<Rightarrow>
          bindE (top_works env tp) (\<lambda>ok. if ok then bindE (strcpy PATH_MAX tp) (\<lambda>p. Inr (Some p)) else Inr None)
      | None \<Rightarrow>
          (case getcwd env of
             None \<Rightarrow> Inl (Bad_access ''getcwd'')
           | Some dir \<Rightarrow>
               bindE (find_top_from env dir) (\<lambda>r.
                 case r of Some p \<Rightarrow> Inr (Some p) | None \<Rightarrow> find_top_from env (get_my_path env))))"

definition find_product_out_path :: "cmdenv \<Rightarrow> string \<Rightarrow> string option outcome" where
  "find_product_out_path env hint =
     (if hint = [] then Inr None
      else if adb_is_absolute_host_path hint then bindE (strcpy PATH_MAX hint) (\<lambda>p. Inr (Some p))
      else if adb_dirstart 0 hint \<noteq> None then
        (case getcwd env of
           None \<Rightarrow> Inr None
         | Some cwd \<Rightarrow> Inr (if length cwd + 1 + length hint \<ge> PATH_MAX then None else Some (cwd @ SEP @ hint)))
      else
        bindE (find_top env) (\<lambda>tp.
          case tp of
            None \<Rightarrow> Inr None
          | Some tp \<Rightarrow>
              bindE (sntext PATH_MAX (tp @ SEP @ ''out'' @ SEP @ ''target'' @ SEP @ ''product'' @ SEP @ hint)) (\<lambda>p.
                Inr (if access_ok env p then Some p else None))))"

definition find_sync_dirs :: "string option \<Rightarrow> cmdst \<Rightarrow> (string option \<times> string option) option outcome" where
  "find_sync_dirs srcarg st =
     (case srcarg of
        None \<Rightarrow> bindE (product_file ''system'' st) (\<lambda>a. bindE (product_file ''data'' st) (\<lambda>d. Inr (Some (Some a, Some d))))
      | Some s \<Rightarrow>
          if s = ''system'' then bindE (product_file ''system'' st) (\<lambda>a. Inr (Some (Some a, None)))
          else if s = ''data'' then bindE (product_file ''data'' st) (\<lambda>d. Inr (Some (None, Some d)))
          else Inr None)"


section \<open>Data in and out\<close>

text \<open>One \<open>adb_read\<close> of a connection: its return value, \<open>errno\<close>, the bytes. One \<open>adb_write\<close>: its return value.\<close>

definition client_read :: "int \<Rightarrow> nat \<Rightarrow> cmdst \<Rightarrow> int \<times> errno \<times> byte list \<times> cmdst" where
  "client_read fd n st =
     (if \<not> conn_ok fd st then (- 1, Eother 9, [], st)
      else case c_reads st of
        Inr e # rs \<Rightarrow> (- 1, e, [], st\<lparr>c_reads := rs\<rparr>)
      | rs \<Rightarrow>
          let k = (case rs of Inl k # _ \<Rightarrow> min n (max 1 k) | _ \<Rightarrow> n);
              bs = take k (c_inp (c_conns st ! nat fd)) in
          (int (length bs), Eother 0, bs, (upd_conn fd (\<lambda>c. c\<lparr>c_inp := drop k (c_inp c)\<rparr>) st)\<lparr>c_reads := drop 1 rs\<rparr>))"

definition client_write :: "int \<Rightarrow> byte list \<Rightarrow> cmdst \<Rightarrow> int \<times> cmdst" where
  "client_write fd bs st =
     (if \<not> conn_ok fd st then (- 1, st)
      else let k = min (length bs) (c_room (c_conns st ! nat fd)) in
        (int k, upd_conn fd (\<lambda>c. c\<lparr>c_outp := c_outp c @ take k bs, c_room := c_room c - k\<rparr>) st))"

definition sync_call :: "cmdenv \<Rightarrow> fscall \<Rightarrow> cmdst \<Rightarrow> sysres \<times> cmdst" where
  "sync_call env c st = (case syscall (kern env) c (c_sync st) of (r, sy) \<Rightarrow> (r, st\<lparr>c_sync := sy\<rparr>))"

text \<open>
  The array \<open>buf\<close> is cleared once; what is printed after a read is the text up to the first zero in it, whatever was read.
\<close>

definition overlay :: "byte list \<Rightarrow> byte list \<Rightarrow> byte list" where
  "overlay bs b = bs @ drop (length bs) b"

definition array_text :: "byte list \<Rightarrow> string outcome" where
  "array_text b = (if CHR 0x00 \<in> set b then Inr (cstring b) else Inl (Bad_access ''buf''))"

definition pending_size :: "int \<Rightarrow> cmdst \<Rightarrow> nat" where
  "pending_size fd st = length (c_reads st) + (if conn_ok fd st then length (c_inp (c_conns st ! nat fd)) else 0)"

lemma client_read_size:
  assumes r: "client_read fd n st = (len, e, bs, st')" and n: "0 < n" and l: "0 < len \<or> len < 0 \<and> e = EINTR"
  shows "pending_size fd st' < pending_size fd st"
proof -
  have ok: "conn_ok fd st" using r l by (cases "conn_ok fd st") (auto simp: client_read_def)
  consider (fail) e' rs where "c_reads st = Inr e' # rs" | (read) "\<And>e' rs. c_reads st \<noteq> Inr e' # rs" by blast
  then show ?thesis
  proof cases
    case fail
    then have "st' = st\<lparr>c_reads := rs\<rparr>" using r ok by (simp add: client_read_def)
    then show ?thesis using fail by (simp add: pending_size_def conn_ok_def)
  next
    case read
    define k where "k = (case c_reads st of Inl k # _ \<Rightarrow> min n (max 1 k) | _ \<Rightarrow> n)"
    have k: "0 < k" using n by (auto simp: k_def split: list.split sum.split)
    have "client_read fd n st = (int (length (take k (c_inp (c_conns st ! nat fd)))), Eother 0, take k (c_inp (c_conns st ! nat fd)),
        (upd_conn fd (\<lambda>c. c\<lparr>c_inp := drop k (c_inp c)\<rparr>) st)\<lparr>c_reads := drop 1 (c_reads st)\<rparr>)"
      using ok read by (cases "c_reads st") (auto simp: client_read_def k_def Let_def split: sum.split)
    then have "c_inp (c_conns st ! nat fd) \<noteq> []"
      "st' = (upd_conn fd (\<lambda>c. c\<lparr>c_inp := drop k (c_inp c)\<rparr>) st)\<lparr>c_reads := drop 1 (c_reads st)\<rparr>" using r l by auto
    then show ?thesis using ok k by (simp add: pending_size_def upd_conn_def conn_ok_def) (simp add: diff_less add_le_less_mono)
  qed
qed

lemma print_size [simp]: "pending_size fd (print s st) = pending_size fd st"
  by (simp add: pending_size_def print_def conn_ok_def)

function dump_loop :: "cmdenv \<Rightarrow> int \<Rightarrow> byte list \<Rightarrow> cmdst \<Rightarrow> cmdst outcome" where
  "dump_loop env fd b st =
     (if fd < 0 then Inr st
      else case client_read fd 4096 st of (len, e, bs, st') \<Rightarrow>
        if len = 0 then Inr st'
        else if len < 0 then (if e = EINTR then dump_loop env fd b st' else Inr st')
        else
          bindE (array_text (overlay bs b)) (\<lambda>text.
            dump_loop env fd (overlay bs b) (print (to_gbk (cl_env env) text) st')))"
  by pat_completeness auto

termination dump_loop
  by (relation "measure (\<lambda>(env, fd, b, st). pending_size fd st)") (auto dest: client_read_size [OF sym])

declare dump_loop.simps [simp del]

definition read_and_dump :: "cmdenv \<Rightarrow> int \<Rightarrow> cmdst \<Rightarrow> cmdst outcome" where
  "read_and_dump env fd st = dump_loop env fd (replicate 4096 CHR 0x00) st"

text \<open>\<open>copy_to_file\<close> from a connection to a file and from a file to a connection: the results of the writes are not looked at.\<close>

function copy_in :: "cmdenv \<Rightarrow> int \<Rightarrow> cmdst \<Rightarrow> cmdst" where
  "copy_in env fd st =
     (case client_read fd (32 * 1024) st of (len, e, bs, st') \<Rightarrow>
        if len = 0 then st'
        else if len < 0 then (if e = EINTR then copy_in env fd st' else st')
        else copy_in env fd (snd (sync_call env (WriteFile bs) st')))"
  by pat_completeness auto

lemma sync_call_size [simp]: "pending_size fd (snd (sync_call env c st)) = pending_size fd st"
  by (auto simp: pending_size_def sync_call_def conn_ok_def split: prod.split)

termination copy_in
  by (relation "measure (\<lambda>(env, fd, st). pending_size fd st)") (auto dest: client_read_size [OF sym])

declare copy_in.simps [simp del]

function copy_out :: "rd_ev list \<Rightarrow> int \<Rightarrow> cmdst \<Rightarrow> cmdst" where
  "copy_out [] fd st = st"
| "copy_out (Seg bs # s) fd st =
     (if bs = [] then st
      else copy_out (if length bs > 32 * 1024 then Seg (drop (32 * 1024) bs) # s else s) fd (snd (client_write fd (take (32 * 1024) bs) st)))"
| "copy_out (Fin # s) fd st = st"
| "copy_out (Fail e # s) fd st = (if e = EINTR then copy_out s fd st else st)"
  by pat_completeness auto

termination copy_out
  by (relation "measure (\<lambda>(s, fd, st). sum_list (map (\<lambda>e. case e of Seg bs \<Rightarrow> Suc (length bs) | _ \<Rightarrow> 1) s))") auto

text \<open>
  The keyboard of an interactive shell, as it is read: the escape is a line that starts with \<open>~.\<close>; \<open>None\<close> is \<open>exit\<close>.
\<close>

definition escape_step :: "nat \<Rightarrow> char \<Rightarrow> nat option" where
  "escape_step state c =
     (if c = CHR 0x0A then Some 1
      else if c = CHR 0x0D then Some 1
      else if c = CHR ''~'' then Some (if state = 1 then state + 1 else state)
      else if c = CHR ''.'' \<and> state = 2 then None
      else Some 0)"

fun escape_scan :: "nat \<Rightarrow> byte list \<Rightarrow> nat option" where
  "escape_scan state [] = Some state"
| "escape_scan state (c # cs) = (case escape_step state c of None \<Rightarrow> None | Some state \<Rightarrow> escape_scan state cs)"

text \<open>The result is whether the program exits.\<close>

function stdin_loop :: "cmdenv \<Rightarrow> int \<Rightarrow> rd_ev list \<Rightarrow> nat \<Rightarrow> byte list \<Rightarrow> cmdst \<Rightarrow> (bool \<times> cmdst) outcome" where
  "stdin_loop env fd [] state b st = Inr (False, st)"
| "stdin_loop env fd (Fin # s) state b st = Inr (False, st)"
| "stdin_loop env fd (Fail e # s) state b st = (if e = EINTR then stdin_loop env fd s state b st else Inr (False, st))"
| "stdin_loop env fd (Seg bs # s) state b st =
     (if bs = [] then Inr (False, st)
      else
        let got = take 1024 bs; b = overlay got b in
        case escape_scan state got of
          None \<Rightarrow> Inr (True, st)
        | Some state \<Rightarrow>
            bindE (array_text b) (\<lambda>text.
              case client_write fd (to_utf8 env text) st of (r, st) \<Rightarrow>
                if r \<le> 0 then Inr (False, st)
                else stdin_loop env fd (if length bs > 1024 then Seg (drop 1024 bs) # s else s) state b st))"
  by pat_completeness auto

termination stdin_loop
  by (relation "measure (\<lambda>(env, fd, s, state, b, st). sum_list (map (\<lambda>e. case e of Seg bs \<Rightarrow> Suc (length bs) | _ \<Rightarrow> 1) s))") auto

definition stdin_read_thread :: "cmdenv \<Rightarrow> int \<Rightarrow> rd_ev list \<Rightarrow> cmdst \<Rightarrow> (bool \<times> cmdst) outcome" where
  "stdin_read_thread env fd s st = stdin_loop env fd s 0 (replicate 1024 CHR 0x00) st"

section \<open>Pieces of commands\<close>

text \<open>The thread \<open>stdin_read_thread\<close> runs beside \<open>read_and_dump\<close>, on the same connection.\<close>

definition interactive_shell :: "cmdenv \<Rightarrow> cmdst \<Rightarrow> (int \<times> cmdst) outcome" where
  "interactive_shell env st =
     bindE (adb_connect ''shell:'' st) (\<lambda>(fd, st).
       if fd < 0 then Inr (1, st) else bindE (read_and_dump env fd st) (\<lambda>st. Inr (0, st)))"

definition format_host_command :: "nat \<Rightarrow> string \<Rightarrow> transport_type \<Rightarrow> string option \<Rightarrow> string outcome" where
  "format_host_command n cmd ttype sn =
     sntext n
       (case sn of
          Some s \<Rightarrow> ''host-serial:'' @ s @ '':'' @ cmd
        | None \<Rightarrow>
            (if ttype = KTransportUsb then ''host-usb'' else if ttype = KTransportLocal then ''host-local'' else ''host'') @ '':'' @ cmd)"

definition quoted_char :: "char \<Rightarrow> bool" where
  "quoted_char c \<longleftrightarrow> c = CHR '' '' \<or> c = CHR 0x22 \<or> c = CHR 0x5C \<or> c = CHR ''('' \<or> c = CHR '')''"

text \<open>The first loop of \<open>dupAndQuote\<close> determines the size of the array that the second one fills.\<close>

fun quote_len :: "string \<Rightarrow> nat" where
  "quote_len [] = 0"
| "quote_len (c # cs) = (if quoted_char c then 2 else 1) + quote_len cs"

fun quote_text :: "string \<Rightarrow> string" where
  "quote_text [] = []"
| "quote_text (c # cs) = (if quoted_char c then [CHR 0x5C] else []) @ c # quote_text cs"

definition dupAndQuote :: "string \<Rightarrow> string outcome" where
  "dupAndQuote s = strcpy (quote_len s + 1) (quote_text s)"

definition CHUNK_SIZE :: nat where "CHUNK_SIZE = 64 * 1024"

function send_chunks :: "int \<Rightarrow> byte list \<Rightarrow> cmdst \<Rightarrow> bool \<times> cmdst" where
  "send_chunks fd bytes st =
     (if bytes = [] then (True, st)
      else case client_writex fd (take CHUNK_SIZE bytes) st of
        (False, st) \<Rightarrow> (False, snd (adb_status fd st))
      | (True, st) \<Rightarrow> send_chunks fd (drop CHUNK_SIZE bytes) st)"
  by pat_completeness auto

termination send_chunks
  by (relation "measure (\<lambda>(fd, bytes, st). length bytes)") (auto simp: CHUNK_SIZE_def)

declare send_chunks.simps [simp del]

text \<open>A transfer that fails in the middle leaves the connection open.\<close>

definition adb_download_buffer :: "string \<Rightarrow> byte list \<Rightarrow> cmdst \<Rightarrow> (int \<times> cmdst) outcome" where
  "adb_download_buffer service bytes st =
     bindE (strcpy 4096 (service @ '':'' @ fmt_d (int (length bytes)))) (\<lambda>req.
     bindE (adb_connect req st) (\<lambda>(fd, st).
       if fd < 0 then Inr (- 1, st)
       else case send_chunks fd bytes st of
         (False, st) \<Rightarrow> Inr (- 1, st)
       | (True, st) \<Rightarrow>
           (case client_readx fd 4 st of
              (None, st) \<Rightarrow> Inr (- 1, client_close fd st)
            | (Some resp, st) \<Rightarrow> Inr (if resp \<noteq> ''OKAY'' then - 1 else 0, client_close fd st))))"

text \<open>
  \<open>load_file\<close> of \<open>sysdeps_win32.cpp\<close>: \<open>NULL\<close> also for an empty file. The size of the memory is computed with 32 bits.
\<close>

definition load_file :: "cmdenv \<Rightarrow> string \<Rightarrow> cmdst \<Rightarrow> (byte list option \<times> cmdst) outcome" where
  "load_file env fn st =
     (case sync_call env (OpenRead fn) st of
        (Reads s, st) \<Rightarrow>
          let (r, st) = sync_call env FileSize st;
              n = (case r of Stat fs \<Rightarrow> ucast (st_size fs) | _ \<Rightarrow> 0xffffffff) :: u32;
              st' = snd (sync_call env CloseFile st) in
          if n = 0 \<or> \<not> malloc_ok (cl_env env) (unat (n + 1)) then Inr (None, st')
          else (case read_once (unat n) s of
              None \<Rightarrow> Inr (None, st')
            | Some bs \<Rightarrow>
                if length bs > unat (n + 1) then Inl (Bad_access ''data'')
                else Inr (if length bs \<noteq> unat n then None else Some bs, st'))
      | (_, st) \<Rightarrow> Inr (None, st))"

definition adb_download :: "cmdenv \<Rightarrow> string \<Rightarrow> string \<Rightarrow> cmdst \<Rightarrow> (int \<times> cmdst) outcome" where
  "adb_download env service fn st =
     bindE (load_file env fn st) (\<lambda>(bytes, st).
       case bytes of None \<Rightarrow> Inr (- 1, st) | Some bs \<Rightarrow> adb_download_buffer service bs st)"

text \<open>One turn of \<open>status_window\<close>: the last state that was shown, or none.\<close>

definition status_turn :: "string \<Rightarrow> string option \<Rightarrow> cmdst \<Rightarrow> (string option \<times> cmdst) outcome" where
  "status_turn cmd laststate st =
     bindE (adb_query cmd (adb_sleep_ms 250 st)) (\<lambda>(r, st).
       let state = map_option cstring r in
       if state \<noteq> None \<and> state = laststate then Inr (laststate, st)
       else
         Inr (if state \<noteq> None then state else laststate,
              print ([CHR 0x1B] @ ''[2J'' @ [CHR 0x1B] @ ''[2HAndroid Debug Bridge'' @ [CHR 0x0A] @ ''State: '' @
                (case state of Some s \<Rightarrow> s | None \<Rightarrow> ''offline'') @ [CHR 0x0A]) st))"

partial_function (option) status_loop :: "string \<Rightarrow> string option \<Rightarrow> cmdst \<Rightarrow> int cmd" where
  "status_loop cmd laststate st =
     (case status_turn cmd laststate st of Inl e \<Rightarrow> Some (Inl e) | Inr (laststate, st) \<Rightarrow> status_loop cmd laststate st)"

definition status_window :: "transport_type \<Rightarrow> string option \<Rightarrow> cmdst \<Rightarrow> int cmd" where
  "status_window ttype sn st =
     (case format_host_command 4096 ''get-state'' ttype sn of Inl e \<Rightarrow> Some (Inl e) | Inr cmd \<Rightarrow> status_loop cmd None st)"

text \<open>\<open>console.cpp\<close>: the console of an emulator is a connection like the others.\<close>

definition connect_to_console :: "cmdst \<Rightarrow> (int \<times> cmdst) outcome" where
  "connect_to_console st =
     bindE (adb_get_emulator_console_port st) (\<lambda>(port, st).
       if port < 0 then Inr (- 1, st)
       else
         let name = adb_server_name st; server = adb_server_port st;
             (fd, st) = client_connect (st\<lparr>adb_server_name := None, adb_server_port := port\<rparr>) in
         Inr (if fd < 0 then - 1 else fd, st\<lparr>adb_server_name := name, adb_server_port := server\<rparr>))"

fun emulator_pieces :: "string list \<Rightarrow> string list" where
  "emulator_pieces [] = []"
| "emulator_pieces (a # as) = a # (if as = [] then [CHR 0x0A] else '' '') # emulator_pieces as"

definition adb_send_emulator_command :: "string list \<Rightarrow> cmdst \<Rightarrow> (int \<times> cmdst) outcome" where
  "adb_send_emulator_command args st =
     bindE (connect_to_console st) (\<lambda>(fd, st).
       if fd < 0 then Inr (1, st)
       else
         Inr (0, client_close fd (fold (\<lambda>p st. snd (client_write fd p st)) (emulator_pieces args @ [''quit'' @ [CHR 0x0A]]) st)))"

section \<open>Commands for the shell of the device\<close>

text \<open>
  \<open>do_cmd\<close> runs another command line; \<open>self\<close> is \<open>adb_commandline\<close>.
\<close>

definition do_cmd :: "(string list \<Rightarrow> cmdst \<Rightarrow> int cmd) \<Rightarrow> transport_type \<Rightarrow> string option \<Rightarrow> string list \<Rightarrow> cmdst \<Rightarrow> int cmd" where
  "do_cmd self ttype sn args st =
     self ((case sn of
              Some s \<Rightarrow> [''-s'', s]
            | None \<Rightarrow> if ttype = KTransportUsb then [''-d''] else if ttype = KTransportLocal then [''-e''] else []) @ args) st"

text \<open>The loop of \<open>send_shellcommand\<close>: connect, or wait for a device and try again.\<close>

partial_function (option) connect_wait :: "(cmdst \<Rightarrow> int cmd) \<Rightarrow> string \<Rightarrow> cmdst \<Rightarrow> int cmd" where
  "connect_wait wait req st =
     (case adb_connect req st of
        Inl e \<Rightarrow> Some (Inl e)
      | Inr (fd, st) \<Rightarrow>
          if fd \<ge> 0 then Some (Inr (fd, st))
          else (case wait (adb_sleep_ms 1000 st) of
                  None \<Rightarrow> None
                | Some (Inl e) \<Rightarrow> Some (Inl e)
                | Some (Inr (_, st)) \<Rightarrow> connect_wait wait req st))"

definition send_shellcommand ::
  "cmdenv \<Rightarrow> (string list \<Rightarrow> cmdst \<Rightarrow> int cmd) \<Rightarrow> transport_type \<Rightarrow> string option \<Rightarrow> string \<Rightarrow> cmdst \<Rightarrow> int cmd" where
  "send_shellcommand env self ttype sn req st =
     bindO (connect_wait (do_cmd self ttype sn [''wait-for-device'']) req st) (\<lambda>(fd, st).
     bindO (Some (read_and_dump env fd st)) (\<lambda>st. ret 0 (client_close fd st)))"

text \<open>Quoted arguments, each after a space. The bound of \<open>strncat\<close> is that of the array, not of the room left in it.\<close>

fun add_quoted :: "string list \<Rightarrow> string \<Rightarrow> string outcome" where
  "add_quoted [] b = Inr b"
| "add_quoted (a # as) b =
     bindE (dupAndQuote a) (\<lambda>quoted.
     bindE (strncat 4096 '' '' 4095 b) (\<lambda>b.
     bindE (strncat 4096 quoted 4095 b) (add_quoted as)))"

definition logcat_request :: "cmdenv \<Rightarrow> string \<Rightarrow> string list \<Rightarrow> string outcome" where
  "logcat_request env name args =
     bindE (dupAndQuote (case getenv env ''ANDROID_LOG_TAGS'' of None \<Rightarrow> [] | Some t \<Rightarrow> t)) (\<lambda>tags.
     bindE (sntext 4096 (''shell:export ANDROID_LOG_TAGS='' @ [CHR 0x22] @ tags @ [CHR 0x22] @ '' ; exec logcat'')) (\<lambda>b.
     bindE (if name = ''longcat'' then strncat 4096 '' -v long'' 4095 b else Inr b) (add_quoted args)))"

definition logcat ::
  "cmdenv \<Rightarrow> (string list \<Rightarrow> cmdst \<Rightarrow> int cmd) \<Rightarrow> transport_type \<Rightarrow> string option \<Rightarrow> string \<Rightarrow> string list \<Rightarrow> cmdst \<Rightarrow> int cmd" where
  "logcat env self ttype sn name args st =
     bindO (Some (logcat_request env name args)) (\<lambda>req.
     bindO (send_shellcommand env self ttype sn req st) (\<lambda>(_, st). ret 0 st))"

definition pm_command ::
  "cmdenv \<Rightarrow> (string list \<Rightarrow> cmdst \<Rightarrow> int cmd) \<Rightarrow> transport_type \<Rightarrow> string option \<Rightarrow> string list \<Rightarrow> cmdst \<Rightarrow> int cmd" where
  "pm_command env self ttype sn argv st =
     bindO (Some (add_quoted argv ''shell:pm'')) (\<lambda>req.
     bindO (send_shellcommand env self ttype sn req st) (\<lambda>(_, st). ret 0 st))"

definition keep_data_text :: "string \<Rightarrow> string" where
  "keep_data_text package =
     ''The -k option uninstalls the application while retaining the data/cache.'' @ [CHR 0x0A] @
     ''At the moment, there is no way to remove the remaining data.'' @ [CHR 0x0A] @
     ''You will have to reinstall the application with the same signature, and fully uninstall it.'' @ [CHR 0x0A] @
     ''If you truly wish to continue, execute '' @ [CHR 0x27] @ ''adb shell pm uninstall -k '' @ package @ [CHR 0x27, CHR 0x0A]"

definition uninstall_app ::
  "cmdenv \<Rightarrow> (string list \<Rightarrow> cmdst \<Rightarrow> int cmd) \<Rightarrow> transport_type \<Rightarrow> string option \<Rightarrow> string list \<Rightarrow> cmdst \<Rightarrow> int cmd" where
  "uninstall_app env self ttype sn argv st =
     (if length argv = 3 \<and> argv ! 1 = ''-k'' then ret (- 1) (print (keep_data_text (argv ! 2)) st)
      else pm_command env self ttype sn argv st)"

definition delete_file ::
  "cmdenv \<Rightarrow> (string list \<Rightarrow> cmdst \<Rightarrow> int cmd) \<Rightarrow> transport_type \<Rightarrow> string option \<Rightarrow> string \<Rightarrow> cmdst \<Rightarrow> int cmd" where
  "delete_file env self ttype sn filename st =
     bindO (Some (bindE (dupAndQuote filename) (\<lambda>quoted. strncat 4096 quoted 4095 ''shell:rm ''))) (\<lambda>req.
     bindO (send_shellcommand env self ttype sn req st) (\<lambda>(_, st). ret 0 st))"

section \<open>Installing\<close>

definition check_file :: "cmdenv \<Rightarrow> string option \<Rightarrow> cmdst \<Rightarrow> bool \<times> cmdst" where
  "check_file env filename st =
     (case filename of
        None \<Rightarrow> (True, st)
      | Some f \<Rightarrow>
          (case sync_call env (Lstat (to_gbk (cl_env env) f)) st of
             (Stat fs, st) \<Rightarrow> (S_ISREG (st_mode fs), st)
           | (_, st) \<Rightarrow> (False, st)))"

text \<open>The options before the file: its index, whether it goes to the card, whether the package is verified.\<close>

fun scan_install :: "nat \<Rightarrow> string list \<Rightarrow> bool \<Rightarrow> bool \<Rightarrow> nat option \<times> bool \<times> bool" where
  "scan_install i [] sd verify = (None, sd, verify)"
| "scan_install i (a # as) sd verify =
     (if take 1 a \<noteq> ''-'' then (Some i, sd, verify)
      else if a = ''-i'' then (case as of [] \<Rightarrow> (None, sd, verify) | _ # as \<Rightarrow> scan_install (i + 2) as sd verify)
      else if a = ''-s'' then scan_install (i + 1) as True verify
      else if a = ''--algo'' \<or> a = ''--iv'' \<or> a = ''--key''
      then (case as of [] \<Rightarrow> (None, sd, False) | _ # as \<Rightarrow> scan_install (i + 2) as sd False)
      else scan_install (i + 1) as sd verify)"

definition sync_push :: "cmdenv \<Rightarrow> string \<Rightarrow> string \<Rightarrow> bool \<Rightarrow> bool \<Rightarrow> cmdst \<Rightarrow> (int \<times> cmdst) outcome" where
  "sync_push env lpath rpath verify progress st =
     bindE (adb_connect ''sync:'' st) (\<lambda>(fd, st).
     bindE (do_sync_push (kern env) (cl_env env) (fd \<ge> 0) lpath rpath verify progress (c_sync st)) (\<lambda>(r, sy).
       Inr (r, st\<lparr>c_sync := sy\<rparr>)))"

definition install_dest :: "bool \<Rightarrow> string \<Rightarrow> string outcome" where
  "install_dest sd file = sntext PATH_MAX ((if sd then ''/sdcard/tmp/'' else ''/data/local/tmp/'') @ base_name file)"

text \<open>What is copied and run once the names are known; the files on the device are removed at the end, whatever happened.\<close>

definition install_files ::
  "cmdenv \<Rightarrow> (string list \<Rightarrow> cmdst \<Rightarrow> int cmd) \<Rightarrow> transport_type \<Rightarrow> string option \<Rightarrow> string list \<Rightarrow> nat \<Rightarrow> bool
     \<Rightarrow> string \<Rightarrow> string \<Rightarrow> (string \<times> string) option \<Rightarrow> cmdst \<Rightarrow> int cmd" where
  "install_files env self ttype sn argv k verify apk_file apk_dest ver st =
     bindO (Some (sync_push env apk_file apk_dest verify False st)) (\<lambda>(err, st).
     bindO (if err \<noteq> 0 then Some (Inr (err, argv, st))
            else case ver of
              None \<Rightarrow> Some (Inr (err, argv[k := apk_dest], st))
            | Some (f, dest) \<Rightarrow>
                bindO (Some (sync_push env f dest False False st)) (\<lambda>(err, st). Some (Inr (err, argv[k := apk_dest, Suc k := dest], st)))) (\<lambda>(err, argv, st).
     bindO (if err \<noteq> 0 then ret 0 st else pm_command env self ttype sn argv st) (\<lambda>(_, st).
     bindO (case ver of None \<Rightarrow> ret 0 st | Some (_, dest) \<Rightarrow> delete_file env self ttype sn dest st) (\<lambda>(_, st).
     bindO (delete_file env self ttype sn apk_dest st) (\<lambda>(_, st). ret err st)))))"

definition install_app ::
  "cmdenv \<Rightarrow> (string list \<Rightarrow> cmdst \<Rightarrow> int cmd) \<Rightarrow> transport_type \<Rightarrow> string option \<Rightarrow> string list \<Rightarrow> cmdst \<Rightarrow> int cmd" where
  "install_app env self ttype sn argv st =
     (case scan_install 1 (drop 1 argv) False True of
        (None, _) \<Rightarrow> ret 1 st
      | (Some k, sd, verify) \<Rightarrow>
          if k + 2 < length argv then ret 1 st
          else
            let apk_file = argv ! k;
                ver_file = (if k \<noteq> length argv - 1 then Some (argv ! Suc k) else None);
                (ok, st) = check_file env (Some apk_file) st in
            if \<not> ok then ret 1 st
            else case check_file env ver_file st of
              (False, st) \<Rightarrow> ret 1 st
            | (True, st) \<Rightarrow>
                bindO (Some (install_dest sd apk_file)) (\<lambda>apk_dest.
                  case ver_file of
                    None \<Rightarrow> install_files env self ttype sn argv k verify apk_file apk_dest None st
                  | Some f \<Rightarrow>
                      bindO (Some (install_dest sd f)) (\<lambda>dest.
                        if apk_dest = dest then ret 1 st
                        else install_files env self ttype sn argv k verify apk_file apk_dest (Some (f, dest)) st)))"

section \<open>Backup\<close>

text \<open>
  The loop of \<open>mkdirs\<close> from position \<open>i\<close>. The separators it passes become backslashes.
\<close>

lemma strchr_from_bounds: "strchr_from i c s = Some j \<Longrightarrow> i \<le> j \<and> j < length s"
  by (auto simp: strchr_from_def Let_def split: if_splits)

lemma dirstart_bounds: "adb_dirstart i path = Some j \<Longrightarrow> i \<le> j \<and> j < length path"
  by (auto simp: adb_dirstart_def dest: strchr_from_bounds split: option.splits)

function mkdirs_from :: "cmdenv \<Rightarrow> nat \<Rightarrow> string \<Rightarrow> cmdst \<Rightarrow> int \<times> string \<times> cmdst" where
  "mkdirs_from env i path st =
     (case adb_dirstart i path of
        None \<Rightarrow> (0, path, st)
      | Some x \<Rightarrow>
          (case sync_call env (Mkdir (take x path) 0x1FD) st of (r, st) \<Rightarrow>
             let path = path[x := CHR 0x5C] in
             if failed r \<and> r \<noteq> Err EEXIST then (- 1, path, st) else mkdirs_from env (Suc x) path st))"
  by pat_completeness auto

termination mkdirs_from
  by (relation "measure (\<lambda>(env, i, path, st). length path - i)") (auto dest: dirstart_bounds)

declare mkdirs_from.simps [simp del]

text \<open>An empty name: the loop starts behind its terminating zero.\<close>

definition mkdirs_win :: "cmdenv \<Rightarrow> string \<Rightarrow> cmdst \<Rightarrow> (int \<times> string \<times> cmdst) outcome" where
  "mkdirs_win env path st = (if path = [] then Inl (Bad_access ''path'') else Inr (mkdirs_from env 1 path st))"

text \<open>The name after the first \<open>-f\<close> and the other arguments; \<open>None\<close> when \<open>-f\<close> is the last one.\<close>

definition extract_f :: "string list \<Rightarrow> (string option \<times> string list) option" where
  "extract_f args =
     (case dropWhile (\<lambda>a. a \<noteq> ''-f'') args of
        [] \<Rightarrow> Some (None, args)
      | [_] \<Rightarrow> None
      | _ # f # rest \<Rightarrow> Some (Some f, takeWhile (\<lambda>a. a \<noteq> ''-f'') args @ rest))"

definition backup_request :: "string list \<Rightarrow> string" where
  "backup_request args =
     fold (\<lambda>a b. let b = b @ take (4096 - length b - 1) '':'' in b @ take (4096 - length b - 1) a) args ''backup''"

definition backup :: "cmdenv \<Rightarrow> string list \<Rightarrow> cmdst \<Rightarrow> int cmd" where
  "backup env args st =
     (case extract_f args of
        None \<Rightarrow> usage st
      | Some (f, args) \<Rightarrow>
          if args = [] then usage st
          else
            let filename = (case f of None \<Rightarrow> ''./backup.ab'' | Some f \<Rightarrow> f);
                (_, st) = sync_call env (Unlink filename) st in
            bindO (Some (mkdirs_win env filename st)) (\<lambda>(_, filename, st).
              case sync_call env (OpenWrite filename 0x1A0) st of
                (r, st) \<Rightarrow>
                  if failed r then ret (- 1) st
                  else
                    bindO (Some (adb_connect (backup_request args) st)) (\<lambda>(fd, st).
                      if fd < 0 then ret (- 1) (snd (sync_call env CloseFile st))
                      else
                        let st = print (''Now unlock your device and confirm the backup operation.'' @ [CHR 0x0A]) st;
                            st = client_close fd (copy_in env fd st) in
                        ret 0 (snd (sync_call env CloseFile st)))))"

definition restore :: "cmdenv \<Rightarrow> string list \<Rightarrow> cmdst \<Rightarrow> int cmd" where
  "restore env args st =
     (case args of
        [filename] \<Rightarrow>
          (case sync_call env (OpenRead filename) st of
             (Reads s, st) \<Rightarrow>
               bindO (Some (adb_connect ''restore:'' st)) (\<lambda>(fd, st).
                 if fd < 0 then ret (- 1) (snd (sync_call env CloseFile st))
                 else
                   let st = print (''Now unlock your device and confirm the restore operation.'' @ [CHR 0x0A]) st;
                       st = client_close fd (copy_out s fd st) in
                   ret 0 (snd (sync_call env CloseFile st)))
           | (_, st) \<Rightarrow> ret (- 1) st)
      | _ \<Rightarrow> usage st)"

section \<open>Flags\<close>

definition DEFAULT_ADB_PORT :: int where "DEFAULT_ADB_PORT = 5037"

record flags =
  is_server :: bool
  no_daemon :: bool
  is_daemon :: bool
  f_persist :: bool
  f_ttype :: transport_type
  f_serial :: "string option"
  f_port :: int

text \<open>A port number; \<open>None\<close> when it is not one.\<close>

definition server_port :: "string \<Rightarrow> int option" where
  "server_port s = (let p = strtol0 s in if p \<le> 0 \<or> p > 65535 then None else Some p)"

text \<open>The value of an option: the rest of its argument, or the next argument.\<close>

definition opt_value :: "string \<Rightarrow> string list \<Rightarrow> (string \<times> string list) option" where
  "opt_value a as = (if length a = 2 then (case as of [] \<Rightarrow> None | v # as \<Rightarrow> Some (v, as)) else Some (drop 2 a, as))"

lemma opt_value_length: "opt_value a as = Some (v, as') \<Longrightarrow> length as' \<le> length as"
  by (auto simp: opt_value_def split: if_splits list.splits)

text \<open>The value of \<open>-s\<close>, which is attached only when it starts with a digit.\<close>

definition serial_value :: "string \<Rightarrow> string list \<Rightarrow> (string \<times> string list) option" where
  "serial_value a as =
     (if drop 2 a \<noteq> [] \<and> isdigit (a ! 2) then Some (drop 2 a, as)
      else if drop 2 a \<noteq> [] then None
      else case as of [] \<Rightarrow> None | v # as \<Rightarrow> Some (v, as))"

lemma serial_value_length: "serial_value a as = Some (v, as') \<Longrightarrow> length as' \<le> length as"
  by (auto simp: serial_value_def split: if_splits list.splits)

text \<open>The loop over the modifiers: \<open>None\<close> is a call of \<open>usage\<close>.\<close>

function parse_flags :: "cmdenv \<Rightarrow> string list \<Rightarrow> flags \<Rightarrow> cmdst \<Rightarrow> ((flags \<times> string list) option \<times> cmdst) outcome" where
  "parse_flags env [] fl st = Inr (Some (fl, []), st)"
| "parse_flags env (a # as) fl st =
     (if a = ''server'' then parse_flags env as (fl\<lparr>is_server := True\<rparr>) st
      else if a = ''nodaemon'' then parse_flags env as (fl\<lparr>no_daemon := True\<rparr>) st
      else if a = ''fork-server'' then parse_flags env as (fl\<lparr>is_daemon := True\<rparr>) st
      else if a = ''persist'' then parse_flags env as (fl\<lparr>f_persist := True\<rparr>) st
      else if has_prefix ''-p'' a then
        (case opt_value a as of
           None \<Rightarrow> Inr (None, st)
         | Some (hint, as') \<Rightarrow>
             bindE (find_product_out_path env hint) (\<lambda>p.
               let st = st\<lparr>product_out := p\<rparr> in
               if p = None then Inr (None, st) else parse_flags env as' fl st))
      else if has_prefix ''-s'' a then
        (case serial_value a as of None \<Rightarrow> Inr (None, st) | Some (s, as') \<Rightarrow> parse_flags env as' (fl\<lparr>f_serial := Some s\<rparr>) st)
      else if a = ''-d'' then parse_flags env as (fl\<lparr>f_ttype := KTransportUsb\<rparr>) st
      else if a = ''-e'' then parse_flags env as (fl\<lparr>f_ttype := KTransportLocal\<rparr>) st
      else if a = ''-a'' then parse_flags env as fl (st\<lparr>listen_all := True\<rparr>)
      else if has_prefix ''-H'' a then
        (case opt_value a as of None \<Rightarrow> Inr (None, st) | Some (host, as') \<Rightarrow> parse_flags env as' fl (adb_set_tcp_name (Some host) st))
      else if has_prefix ''-P'' a then
        (case opt_value a as of
           None \<Rightarrow> Inr (None, st)
         | Some (p, as') \<Rightarrow>
             if p = [] then Inr (None, st)
             else (case server_port p of None \<Rightarrow> Inr (None, st) | Some port \<Rightarrow> parse_flags env as' (fl\<lparr>f_port := port\<rparr>) st))
      else Inr (Some (fl, a # as), st))"
  by pat_completeness auto

termination parse_flags
  by (relation "measure (\<lambda>(env, as, fl, st). length as)") (auto dest!: opt_value_length serial_value_length)

declare parse_flags.simps(2) [simp del]

section \<open>The commands\<close>

text \<open>A query to the server whose answer is printed, and a service whose output is printed.\<close>

definition query_and_print :: "string \<Rightarrow> string \<Rightarrow> string \<Rightarrow> cmdst \<Rightarrow> int cmd" where
  "query_and_print before req after st =
     bindO (Some (adb_query req st)) (\<lambda>(r, st).
       case r of None \<Rightarrow> ret 1 st | Some tmp \<Rightarrow> ret 0 (print (before @ cstring tmp @ after) st))"

definition dump_service :: "cmdenv \<Rightarrow> string \<Rightarrow> int \<Rightarrow> cmdst \<Rightarrow> int cmd" where
  "dump_service env req err st =
     bindO (Some (adb_connect req st)) (\<lambda>(fd, st).
       if fd \<ge> 0 then bindO (Some (read_and_dump env fd st)) (\<lambda>st. ret 0 (client_close fd st)) else ret err st)"

definition cmd_devices :: "string list \<Rightarrow> cmdst \<Rightarrow> int cmd" where
  "cmd_devices as st =
     (if as = [] \<or> as = [''-l''] then
        query_and_print (''List of devices attached '' @ [CHR 0x0A]) (''host:devices'' @ concat as) [CHR 0x0A] st
      else ret 1 st)"

definition cmd_connect :: "string list \<Rightarrow> cmdst \<Rightarrow> int cmd" where
  "cmd_connect as st =
     (case as of
        [host] \<Rightarrow> bindO (Some (sntext 4096 (''host:connect:'' @ host))) (\<lambda>req. query_and_print [] req [CHR 0x0A] st)
      | _ \<Rightarrow> ret 1 st)"

definition cmd_disconnect :: "string list \<Rightarrow> cmdst \<Rightarrow> int cmd" where
  "cmd_disconnect as st =
     (if length as > 1 then ret 1 st
      else bindO (Some (sntext 4096 (''host:disconnect:'' @ concat as))) (\<lambda>req. query_and_print [] req [CHR 0x0A] st))"

text \<open>Empty arguments and arguments with spaces are put in quotes.\<close>

fun add_args :: "string list \<Rightarrow> string \<Rightarrow> string outcome" where
  "add_args [] b = Inr b"
| "add_args (a # as) b =
     bindE (strcat 4096 '' '' b) (\<lambda>b.
       let quote = (a = [] \<or> CHR '' '' \<in> set a) in
       bindE (if quote then strcat 4096 [CHR 0x22] b else Inr b) (\<lambda>b.
       bindE (strcat 4096 a b) (\<lambda>b.
       bindE (if quote then strcat 4096 [CHR 0x22] b else Inr b) (add_args as))))"

definition shell_request :: "string \<Rightarrow> string list \<Rightarrow> string outcome" where
  "shell_request a as = bindE (sntext 4096 (''shell:'' @ a)) (add_args as)"

partial_function (option) shell_loop :: "cmdenv \<Rightarrow> (cmdst \<Rightarrow> int cmd) \<Rightarrow> bool \<Rightarrow> string \<Rightarrow> cmdst \<Rightarrow> int cmd" where
  "shell_loop env wait persist req st =
     (case bindE (adb_connect req st) (\<lambda>(fd, st).
             if fd \<ge> 0 then bindE (read_and_dump env fd st) (\<lambda>st. Inr (0, client_close fd st)) else Inr (- 1, st)) of
        Inl e \<Rightarrow> Some (Inl e)
      | Inr (r, st) \<Rightarrow>
          if \<not> persist then Some (Inr (r, st))
          else (case wait (adb_sleep_ms 1000 st) of
                  None \<Rightarrow> None
                | Some (Inl e) \<Rightarrow> Some (Inl e)
                | Some (Inr (_, st)) \<Rightarrow> shell_loop env wait persist req st))"

definition cmd_shell :: "cmdenv \<Rightarrow> (string list \<Rightarrow> cmdst \<Rightarrow> int cmd) \<Rightarrow> flags \<Rightarrow> string list \<Rightarrow> cmdst \<Rightarrow> int cmd" where
  "cmd_shell env self fl as st =
     (case as of
        [] \<Rightarrow> Some (interactive_shell env st)
      | a # as \<Rightarrow>
          bindO (Some (shell_request a as)) (\<lambda>req.
            shell_loop env (do_cmd self (f_ttype fl) (f_serial fl) [''wait-for-device'']) (f_persist fl) req st))"

definition cmd_kill_server :: "cmdst \<Rightarrow> int cmd" where
  "cmd_kill_server st = bindO (Some (adb_connect1 ''host:kill'' st)) (\<lambda>(fd, st). ret (if fd = - 1 then 1 else 0) st)"

definition cmd_sideload :: "cmdenv \<Rightarrow> string list \<Rightarrow> cmdst \<Rightarrow> int cmd" where
  "cmd_sideload env as st =
     (case as of
        [file] \<Rightarrow> bindO (Some (adb_download env ''sideload'' file st)) (\<lambda>(r, st). ret (if r \<noteq> 0 then 1 else 0) st)
      | _ \<Rightarrow> usage st)"

definition cmd_reboot :: "cmdenv \<Rightarrow> string \<Rightarrow> string list \<Rightarrow> cmdst \<Rightarrow> int cmd" where
  "cmd_reboot env a as st =
     bindO (Some (sntext 100 (if a = ''reboot-bootloader'' then ''reboot:bootloader''
                              else case as of x # _ \<Rightarrow> a @ '':'' @ x | [] \<Rightarrow> a @ '':''))) (\<lambda>req. dump_service env req 1 st)"

definition wait_service :: "transport_type \<Rightarrow> string \<Rightarrow> string" where
  "wait_service ttype a =
     (if has_prefix ''wait-for-device'' a then
        if ttype = KTransportUsb then ''wait-for-usb'' else if ttype = KTransportLocal then ''wait-for-local'' else ''wait-for-any''
      else a)"

definition cmd_wait :: "flags \<Rightarrow> string \<Rightarrow> cmdst \<Rightarrow> int cmd" where
  "cmd_wait fl a st =
     bindO (Some (format_host_command 4096 (wait_service (f_ttype fl) a) (f_ttype fl) (f_serial fl))) (\<lambda>req.
     bindO (Some (adb_command req st)) (\<lambda>(r, st). ret (if r \<noteq> 0 then 1 else 0) st))"

text \<open>\<open>forward\<close>: the options, the start of the request, the request itself (\<open>None\<close> is \<open>usage\<close>).\<close>

record fwd_opts =
  fo_list :: bool
  fo_remove :: bool
  fo_remove_all :: bool
  fo_no_rebind :: bool

fun forward_options :: "string list \<Rightarrow> fwd_opts \<Rightarrow> (fwd_opts \<times> string list) option" where
  "forward_options [] opt = Some (opt, [])"
| "forward_options (a # as) opt =
     (if take 1 a \<noteq> ''-'' then Some (opt, a # as)
      else if a = ''--list'' then forward_options as (opt\<lparr>fo_list := True\<rparr>)
      else if a = ''--remove'' then forward_options as (opt\<lparr>fo_remove := True\<rparr>)
      else if a = ''--remove-all'' then forward_options as (opt\<lparr>fo_remove_all := True\<rparr>)
      else if a = ''--no-rebind'' then forward_options as (opt\<lparr>fo_no_rebind := True\<rparr>)
      else None)"

definition forward_prefix :: "transport_type \<Rightarrow> string option \<Rightarrow> string outcome" where
  "forward_prefix ttype sn =
     sntext 64
       (case sn of
          Some s \<Rightarrow> ''host-serial:'' @ s
        | None \<Rightarrow> if ttype = KTransportUsb then ''host-usb'' else if ttype = KTransportLocal then ''host-local'' else ''host'')"

definition forward_request :: "fwd_opts \<Rightarrow> string \<Rightarrow> string list \<Rightarrow> string option" where
  "forward_request opt pre args =
     (if fo_list opt then (if args = [] then Some (pre @ '':list-forward'') else None)
      else if fo_remove_all opt then (if args = [] then Some (pre @ '':killforward-all'') else None)
      else if fo_remove opt then (case args of [l] \<Rightarrow> Some (pre @ '':killforward:'' @ l) | _ \<Rightarrow> None)
      else (case args of
              [l, r] \<Rightarrow> Some (pre @ '':'' @ (if fo_no_rebind opt then ''forward:norebind:'' else ''forward'') @ '':'' @ l @ '';'' @ r)
            | _ \<Rightarrow> None))"

definition cmd_forward :: "flags \<Rightarrow> string list \<Rightarrow> cmdst \<Rightarrow> int cmd" where
  "cmd_forward fl as st =
     (case forward_options as \<lparr>fo_list = False, fo_remove = False, fo_remove_all = False, fo_no_rebind = False\<rparr> of
        None \<Rightarrow> usage st
      | Some (opt, args) \<Rightarrow>
          if of_bool (fo_list opt) + of_bool (fo_remove opt) + of_bool (fo_remove_all opt) + of_bool (fo_no_rebind opt) > (1 :: nat) then usage st
          else
            bindO (Some (forward_prefix (f_ttype fl) (f_serial fl))) (\<lambda>pre.
              case forward_request opt pre args of
                None \<Rightarrow> usage st
              | Some req \<Rightarrow>
                  bindO (Some (sntext 4096 req)) (\<lambda>req.
                    if fo_list opt then query_and_print [] req [] st
                    else bindO (Some (adb_command req st)) (\<lambda>(r, st). ret (if r \<noteq> 0 then 1 else 0) st))))"

text \<open>\<open>push\<close> and \<open>pull\<close>: whether progress is shown, the two paths that are given.\<close>

definition parse_push_pull_args :: "string list \<Rightarrow> bool \<times> string option \<times> string option" where
  "parse_push_pull_args args =
     (let show_progress = (take 1 args = [''-p'']);
          args = (if show_progress then drop 1 args else args) in
      (show_progress,
       (case args of a # _ \<Rightarrow> Some a | [] \<Rightarrow> None),
       (case args of _ # b # _ \<Rightarrow> Some b | _ \<Rightarrow> None)))"

definition cmd_push :: "cmdenv \<Rightarrow> string list \<Rightarrow> cmdst \<Rightarrow> int cmd" where
  "cmd_push env as st =
     (case parse_push_pull_args as of
        (progress, Some lpath, Some rpath) \<Rightarrow> Some (sync_push env lpath rpath False progress st)
      | _ \<Rightarrow> usage st)"

definition with_sync :: "(bool \<Rightarrow> syncst \<Rightarrow> (int \<times> syncst) outcome) \<Rightarrow> cmdst \<Rightarrow> (int \<times> cmdst) outcome" where
  "with_sync f st =
     bindE (adb_connect ''sync:'' st) (\<lambda>(fd, st). bindE (f (fd \<ge> 0) (c_sync st)) (\<lambda>(r, sy). Inr (r, st\<lparr>c_sync := sy\<rparr>)))"

definition cmd_pull :: "cmdenv \<Rightarrow> string list \<Rightarrow> cmdst \<Rightarrow> int cmd" where
  "cmd_pull env as st =
     (case parse_push_pull_args as of
        (progress, Some rpath, lpath) \<Rightarrow>
          Some (with_sync (\<lambda>conn. do_sync_pull (kern env) (cl_env env) conn rpath (case lpath of None \<Rightarrow> ''.'' | Some l \<Rightarrow> l) progress) st)
      | _ \<Rightarrow> usage st)"

definition cmd_ls :: "cmdenv \<Rightarrow> string list \<Rightarrow> cmdst \<Rightarrow> int cmd" where
  "cmd_ls env as st =
     (case as of
        [path] \<Rightarrow> Some (with_sync (\<lambda>conn sy. bindE (do_sync_ls (kern env) conn path sy) (\<lambda>(r, ds, sy). Inr (r, sy))) st)
      | _ \<Rightarrow> usage st)"

text \<open>The arguments of \<open>sync\<close>: \<open>listonly\<close> and the source.\<close>

definition sync_args :: "string list \<Rightarrow> (bool \<times> string option) option" where
  "sync_args as =
     (case as of
        [] \<Rightarrow> Some (False, None)
      | a # rest \<Rightarrow>
          if a = ''-l'' then Some (True, case rest of [s] \<Rightarrow> Some s | _ \<Rightarrow> None)
          else if rest = [] then Some (False, Some a)
          else None)"

definition sync_tree :: "cmdenv \<Rightarrow> string option \<Rightarrow> string \<Rightarrow> bool \<Rightarrow> int \<Rightarrow> cmdst \<Rightarrow> (int \<times> cmdst) outcome" where
  "sync_tree env src rpath listonly r st =
     (case src of
        Some lpath \<Rightarrow> if r = 0 then with_sync (\<lambda>conn. do_sync_sync (kern env) (cl_env env) conn lpath rpath listonly) st else Inr (r, st)
      | None \<Rightarrow> Inr (r, st))"

definition cmd_sync :: "cmdenv \<Rightarrow> string list \<Rightarrow> cmdst \<Rightarrow> int cmd" where
  "cmd_sync env as st =
     (case sync_args as of
        None \<Rightarrow> usage st
      | Some (listonly, src) \<Rightarrow>
          bindO (Some (find_sync_dirs src st)) (\<lambda>dirs.
            case dirs of
              None \<Rightarrow> usage st
            | Some (android, user) \<Rightarrow>
                bindO (Some (sync_tree env android ''/system'' listonly 0 st)) (\<lambda>(r, st).
                  Some (sync_tree env user ''/data'' listonly r st))))"

definition version_text :: string where
  "version_text = ''Android Debug Bridge version '' @ fmt_d 1 @ ''.'' @ fmt_d 0 @ ''.'' @ fmt_d (int ADB_SERVER_VERSION) @ [CHR 0x0A]"

section \<open>The command line\<close>

fun run_command :: "cmdenv \<Rightarrow> (string list \<Rightarrow> cmdst \<Rightarrow> int cmd) \<Rightarrow> flags \<Rightarrow> string list \<Rightarrow> cmdst \<Rightarrow> int cmd" where
  "run_command env self fl [] st = usage st"
| "run_command env self fl (a # as) st =
     (let ttype = f_ttype fl; sn = f_serial fl in
      if a = ''devices'' then cmd_devices as st
      else if a = ''connect'' then cmd_connect as st
      else if a = ''disconnect'' then cmd_disconnect as st
      else if a = ''emu'' then Some (adb_send_emulator_command as st)
      else if a = ''shell'' \<or> a = ''hell'' then cmd_shell env self fl as st
      else if a = ''kill-server'' then cmd_kill_server st
      else if a = ''sideload'' then cmd_sideload env as st
      else if a \<in> {''remount'', ''reboot'', ''reboot-bootloader'', ''tcpip'', ''usb'', ''root''} then cmd_reboot env a as st
      else if a = ''bugreport'' then
        if as \<noteq> [] then usage st else bindO (do_cmd self ttype sn [''shell'', ''bugreport''] st) (\<lambda>(_, st). ret 0 st)
      else if has_prefix ''wait-for-'' a then
        bindO (cmd_wait fl a st) (\<lambda>(r, st).
          if r \<noteq> 0 then ret 1 st else if as = [] then ret 0 st else run_command env self fl as st)
      else if a = ''forward'' then cmd_forward fl as st
      else if a = ''ls'' then cmd_ls env as st
      else if a = ''push'' then cmd_push env as st
      else if a = ''pull'' then cmd_pull env as st
      else if a = ''install'' then if as = [] then usage st else install_app env self ttype sn (a # as) st
      else if a = ''uninstall'' then if as = [] then usage st else uninstall_app env self ttype sn (a # as) st
      else if a = ''sync'' then cmd_sync env as st
      else if a \<in> {''get-state'', ''get-serialno'', ''get-devpath''} then
        bindO (Some (format_host_command 4096 a ttype sn)) (\<lambda>req. query_and_print [] req [CHR 0x0A] st)
      else if a = ''status-window'' then status_window ttype sn st
      else if a \<in> {''logcat'', ''lolcat'', ''longcat''} then logcat env self ttype sn a as st
      else if a = ''ppp'' then ret (- 1) st
      else if a = ''start-server'' then Some (adb_connect ''host:start-server'' st)
      else if a = ''backup'' then backup env as st
      else if a = ''restore'' then restore env as st
      else if a = ''jdwp'' then dump_service env ''jdwp'' (- 1) st
      else if a = ''help'' \<or> a = ''/?'' then ret 0 st
      else if a = ''version'' then ret 0 (print version_text st)
      else usage st)"

declare run_command.simps(2) [simp del]

text \<open>What \<open>adb_commandline\<close> takes from the environment: \<open>None\<close> when the port is not one.\<close>

definition initial_flags :: "cmdenv \<Rightarrow> flags option" where
  "initial_flags env =
     map_option (\<lambda>port. \<lparr>is_server = False, no_daemon = False, is_daemon = False, f_persist = False, f_ttype = KTransportAny,
                         f_serial = getenv env ''ANDROID_SERIAL'', f_port = port\<rparr>)
       (case env_text env ''ANDROID_ADB_SERVER_PORT'' of None \<Rightarrow> Some DEFAULT_ADB_PORT | Some s \<Rightarrow> server_port s)"

definition run_server :: "cmdenv \<Rightarrow> flags \<Rightarrow> cmdst \<Rightarrow> int cmd" where
  "run_server env fl st =
     (if no_daemon fl \<or> is_daemon fl then ret (adb_main env (is_daemon fl) (f_port fl)) st
      else case launch_server st of (ok, st) \<Rightarrow> ret (if ok then 0 else - 1) st)"

definition commandline :: "cmdenv \<Rightarrow> (string list \<Rightarrow> cmdst \<Rightarrow> int cmd) \<Rightarrow> string list \<Rightarrow> cmdst \<Rightarrow> int cmd" where
  "commandline env self args st =
     (let st = st\<lparr>product_out := env_text env ''ANDROID_PRODUCT_OUT''\<rparr> in
      case initial_flags env of
        None \<Rightarrow> usage st
      | Some fl \<Rightarrow>
          bindO (Some (parse_flags env args fl st)) (\<lambda>(r, st).
            case r of
              None \<Rightarrow> usage st
            | Some (fl, args) \<Rightarrow>
                let st = adb_set_tcp_specifics (f_port fl) (adb_set_transport (f_ttype fl) (f_serial fl) st) in
                if is_server fl then run_server env fl st else run_command env self fl args st))"

text \<open>The recursion through \<open>do_cmd\<close>, to a depth of nested calls.\<close>

primrec adb_commandline :: "nat \<Rightarrow> cmdenv \<Rightarrow> string list \<Rightarrow> cmdst \<Rightarrow> int cmd" where
  "adb_commandline 0 env args st = Some (Inl (Bad_access ''depth''))"
| "adb_commandline (Suc n) env args st = commandline env (adb_commandline n env) args st"

end
