(* ===== verification/Command_Line_Props.thy ===== *)
theory Command_Line_Props
  imports Command_Line Adb_Client_Props
begin

text \<open>
  Properties of the command line: the requests it makes are those the server reads, quoted arguments arrive as they were given, the escape of the interactive
  shell, the recursion through \<open>do_cmd\<close>, and where the code goes wrong.
\<close>

section \<open>Quoting\<close>

lemma length_quote_text: "length (quote_text s) = quote_len s"
  by (induction s) auto

lemma dupAndQuote_eq [simp]: "dupAndQuote s = Inr (quote_text s)"
  by (simp add: dupAndQuote_def strcpy_def length_quote_text)

definition quoted_args :: "string list \<Rightarrow> string" where
  "quoted_args as = concat (map (\<lambda>a. CHR '' '' # quote_text a) as)"

lemma add_quoted_eq:
  "as \<noteq> [] \<Longrightarrow> add_quoted as b =
     (if length (b @ quoted_args as) < 4096 then Inr (b @ quoted_args as) else Inl (Bad_access ''buf''))"
proof (induction as arbitrary: b)
  case (Cons a as)
  have one: "add_quoted (a # as) b =
    (if length (b @ CHR '' '' # quote_text a) < 4096 then add_quoted as (b @ CHR '' '' # quote_text a) else Inl (Bad_access ''buf''))"
    by (auto simp: strncat_def strcat_def min_def)
  show ?case unfolding one using Cons.IH [of "b @ CHR '' '' # quote_text a"]
    by (cases "as = []") (auto simp: quoted_args_def)
qed simp

text \<open>
  How a shell splits a line into words: a backslash takes the next character as it is, a space separates words. \<open>None\<close>: another character that means something
  to a shell.
\<close>

definition meta :: "char \<Rightarrow> bool" where
  "meta c \<longleftrightarrow> c \<in> set ''|&;<>()$`*?[#~=%!{}'' \<or> c \<in> {CHR 0x22, CHR 0x27, CHR 0x5C, CHR 0x09, CHR 0x0A}"

fun shell_split :: "string option \<Rightarrow> string \<Rightarrow> string list option" where
  "shell_split cur [] = Some (case cur of None \<Rightarrow> [] | Some w \<Rightarrow> [w])"
| "shell_split cur (c # cs) =
     (if c = CHR 0x5C then
        (case cs of [] \<Rightarrow> None | d # ds \<Rightarrow> shell_split (Some ((case cur of None \<Rightarrow> [] | Some w \<Rightarrow> w) @ [d])) ds)
      else if c = CHR '' '' then
        (case cur of None \<Rightarrow> shell_split None cs | Some w \<Rightarrow> map_option (Cons w) (shell_split None cs))
      else if meta c then None
      else shell_split (Some ((case cur of None \<Rightarrow> [] | Some w \<Rightarrow> w) @ [c])) cs)"

definition plain :: "string \<Rightarrow> bool" where
  "plain s \<longleftrightarrow> s \<noteq> [] \<and> (\<forall>c\<in>set s. quoted_char c \<or> \<not> meta c)"

lemma split_quoted:
  "\<forall>c\<in>set s. quoted_char c \<or> \<not> meta c \<Longrightarrow> shell_split (Some w) (quote_text s @ r) = shell_split (Some (w @ s)) r"
proof (induction s arbitrary: w)
  case (Cons c s)
  have "c \<noteq> CHR 0x5C \<and> c \<noteq> CHR '' '' \<and> \<not> meta c" if "\<not> quoted_char c" using that Cons.prems by (auto simp: quoted_char_def)
  then show ?case using Cons.IH [of "w @ [c]"] Cons.prems by auto
qed simp

lemma split_plain:
  assumes "plain s"
  shows "shell_split None (quote_text s @ r) = shell_split (Some s) r"
proof -
  obtain c cs where s: "s = c # cs" using assms by (cases s) (auto simp: plain_def)
  have "c \<noteq> CHR 0x5C \<and> c \<noteq> CHR '' '' \<and> \<not> meta c" if "\<not> quoted_char c" using that assms s by (auto simp: quoted_char_def plain_def)
  then show ?thesis using split_quoted [of cs "[c]" r] assms by (auto simp: s plain_def)
qed

lemma split_args: "\<forall>a\<in>set as. plain a \<Longrightarrow> shell_split (Some w) (quoted_args as) = Some (w # as)"
proof (induction as arbitrary: w)
  case (Cons a as)
  then have "shell_split None (quote_text a @ quoted_args as) = Some (a # as)" using split_plain [of a "quoted_args as"] by simp
  then show ?case by (simp add: quoted_args_def)
qed (simp add: quoted_args_def)

text \<open>
  C19: The arguments of \<open>adb install\<close> and \<open>adb uninstall\<close> arrive on the device as they were given: the request has the form \<open>shell:pm ...\<close> and the shell splits
  it into \<open>pm\<close> and the arguments, for arguments whose special characters are those the code quotes. The array of 4096 bytes holds the request exactly when
  the quoted arguments fit; otherwise the code writes behind it.
\<close>

theorem pm_arguments_arrive:
  assumes "as \<noteq> []" and "\<forall>a\<in>set as. plain a"
  shows "(case add_quoted as ''shell:pm'' of
            Inr req \<Rightarrow> take 6 req = ''shell:'' \<and> shell_split None (drop 6 req) = Some (''pm'' # as) \<and> length req < 4096
          | Inl e \<Rightarrow> e = Bad_access ''buf'' \<and> 4096 \<le> 8 + (\<Sum>a\<leftarrow>as. 1 + length a + length (filter quoted_char a)))"
proof -
  have len: "length (quote_text a) = length a + length (filter quoted_char a)" for a by (induction a) auto
  have sum: "length (quoted_args as) = (\<Sum>a\<leftarrow>as. 1 + length a + length (filter quoted_char a))"
    by (simp add: quoted_args_def length_concat len comp_def)
  have "shell_split None (''pm'' @ quoted_args as) = Some (''pm'' # as)"
    using split_args [OF assms(2), of "''pm''"] by (simp add: meta_def)
  then show ?thesis using sum by (simp add: add_quoted_eq [OF assms(1)])
qed

theorem pm_arguments_arrive_witness:
  "case add_quoted [''install'', ''/data/local/tmp/my app(1).apk''] ''shell:pm'' of
     Inr req \<Rightarrow> shell_split None (drop 6 req) = Some [''pm'', ''install'', ''/data/local/tmp/my app(1).apk'']
   | Inl e \<Rightarrow> False"
proof -
  have p: "\<forall>a\<in>set [''install'', ''/data/local/tmp/my app(1).apk'']. plain a" by (simp add: plain_def quoted_char_def meta_def)
  have q: "length (quoted_args [''install'', ''/data/local/tmp/my app(1).apk'']) < 4000" by (simp add: quoted_args_def quoted_char_def)
  then have "add_quoted [''install'', ''/data/local/tmp/my app(1).apk''] ''shell:pm'' =
    Inr (''shell:pm'' @ quoted_args [''install'', ''/data/local/tmp/my app(1).apk''])" by (subst add_quoted_eq) simp_all
  then show ?thesis using pm_arguments_arrive [OF _ p] by (simp del: add_quoted.simps)
qed

section \<open>The escape of the interactive shell\<close>

definition tail1 :: "byte list \<Rightarrow> bool" where
  "tail1 bs \<longleftrightarrow> (\<exists>k ys. bs = replicate (Suc k) CHR ''~'' @ CHR ''.'' # ys)"

definition tail2 :: "byte list \<Rightarrow> bool" where
  "tail2 bs \<longleftrightarrow> (\<exists>k ys. bs = replicate k CHR ''~'' @ CHR ''.'' # ys)"

definition escape :: "byte list \<Rightarrow> bool" where
  "escape bs \<longleftrightarrow> (\<exists>xs c k ys. bs = xs @ c # replicate (Suc k) CHR ''~'' @ CHR ''.'' # ys \<and> (c = CHR 0x0A \<or> c = CHR 0x0D))"

lemma tail2_Cons: "tail2 (c # cs) \<longleftrightarrow> c = CHR ''.'' \<or> c = CHR ''~'' \<and> tail2 cs"
proof
  assume "tail2 (c # cs)"
  then obtain k ys where "c # cs = replicate k CHR ''~'' @ CHR ''.'' # ys" by (auto simp: tail2_def)
  then show "c = CHR ''.'' \<or> c = CHR ''~'' \<and> tail2 cs" by (cases k) (auto simp: tail2_def)
next
  assume "c = CHR ''.'' \<or> c = CHR ''~'' \<and> tail2 cs"
  then show "tail2 (c # cs)" unfolding tail2_def by (metis append_Cons append_Nil replicate_0 replicate_Suc)
qed

lemma tail1_Cons: "tail1 (c # cs) \<longleftrightarrow> c = CHR ''~'' \<and> tail2 cs"
  by (auto simp: tail1_def tail2_def)

lemma escape_Cons: "escape (c # cs) \<longleftrightarrow> (c = CHR 0x0A \<or> c = CHR 0x0D) \<and> tail1 cs \<or> escape cs"
proof
  assume "escape (c # cs)"
  then obtain xs d k ys where e: "c # cs = xs @ d # replicate (Suc k) CHR ''~'' @ CHR ''.'' # ys" "d = CHR 0x0A \<or> d = CHR 0x0D"
    by (auto simp: escape_def)
  show "(c = CHR 0x0A \<or> c = CHR 0x0D) \<and> tail1 cs \<or> escape cs"
  proof (cases xs)
    case Nil
    then show ?thesis using e by (auto simp: tail1_def)
  next
    case (Cons x xs')
    then have "cs = xs' @ d # replicate (Suc k) CHR ''~'' @ CHR ''.'' # ys" using e(1) by simp
    then show ?thesis using e(2) unfolding escape_def by blast
  qed
next
  assume "(c = CHR 0x0A \<or> c = CHR 0x0D) \<and> tail1 cs \<or> escape cs"
  then show "escape (c # cs)"
  proof
    assume "(c = CHR 0x0A \<or> c = CHR 0x0D) \<and> tail1 cs"
    then show ?thesis unfolding escape_def tail1_def by (intro exI [of _ "[]"] exI [of _ c]) auto
  next
    assume "escape cs"
    then show ?thesis unfolding escape_def by (metis append_Cons)
  qed
qed

lemma escape_scan_states:
  "(escape_scan 0 bs = None \<longleftrightarrow> escape bs) \<and> (escape_scan 1 bs = None \<longleftrightarrow> tail1 bs \<or> escape bs) \<and>
   (escape_scan 2 bs = None \<longleftrightarrow> tail2 bs \<or> escape bs)"
proof (induction bs)
  case Nil
  then show ?case by (simp add: tail1_def tail2_def escape_def)
next
  case (Cons c cs)
  then show ?case by (auto simp: escape_step_def escape_Cons tail1_Cons tail2_Cons numeral_2_eq_2)
qed

lemma escape_scan_append:
  "escape_scan s (xs @ ys) = (case escape_scan s xs of None \<Rightarrow> None | Some s \<Rightarrow> escape_scan s ys)"
  by (induction xs arbitrary: s) (auto split: option.split)

text \<open>What is typed: pieces that leave the last byte of the array alone and hold no zero, and interrupted reads.\<close>

fun key_ev :: "rd_ev \<Rightarrow> bool" where
  "key_ev (Seg bs) \<longleftrightarrow> bs \<noteq> [] \<and> length bs < 1024 \<and> CHR 0x00 \<notin> set bs"
| "key_ev (Fail e) \<longleftrightarrow> e = EINTR"
| "key_ev Fin \<longleftrightarrow> False"

fun typed_keys :: "rd_ev list \<Rightarrow> byte list" where
  "typed_keys [] = []"
| "typed_keys (Seg bs # s) = bs @ typed_keys s"
| "typed_keys (_ # s) = typed_keys s"

text \<open>A conversion to UTF-8: something for every text, at most three bytes for each.\<close>

definition converts :: "cmdenv \<Rightarrow> bool" where
  "converts env \<longleftrightarrow> (\<forall>t. t \<noteq> [] \<longrightarrow> to_utf8 env t \<noteq> [] \<and> length (to_utf8 env t) \<le> 3 * length t)"

lemma piece_text:
  assumes "length b = 1024" and "b ! 1023 = CHR 0x00" and "bs \<noteq> []" and "length bs < 1024" and "CHR 0x00 \<notin> set bs"
  shows "length (overlay bs b) = 1024" "overlay bs b ! 1023 = CHR 0x00"
    "\<exists>t. array_text (overlay bs b) = Inr t \<and> t \<noteq> [] \<and> length t < 1024"
proof -
  show l: "length (overlay bs b) = 1024" "overlay bs b ! 1023 = CHR 0x00" using assms by (simp_all add: overlay_def nth_append)
  then have z: "CHR 0x00 \<in> set (overlay bs b)" using nth_mem [of 1023 "overlay bs b"] by simp
  have "dropWhile (\<lambda>c. c \<noteq> CHR 0x00) (overlay bs b) \<noteq> []" using z by (auto simp: dropWhile_eq_Nil_conv)
  then have "length (takeWhile (\<lambda>c. c \<noteq> CHR 0x00) (overlay bs b)) < length (overlay bs b)"
    using arg_cong [OF takeWhile_dropWhile_id [of "\<lambda>c. c \<noteq> CHR 0x00" "overlay bs b"], of length] by (metis length_append less_add_same_cancel1 length_greater_0_conv)
  moreover have "takeWhile (\<lambda>c. c \<noteq> CHR 0x00) (overlay bs b) \<noteq> []" using assms(3,5) by (cases bs) (auto simp: overlay_def)
  ultimately show "\<exists>t. array_text (overlay bs b) = Inr t \<and> t \<noteq> [] \<and> length t < 1024"
    using z l(1) by (simp add: array_text_def cstring_def)
qed

lemma stdin_loop_scans:
  assumes env: "converts env"
  shows "\<forall>e\<in>set s. key_ev e \<Longrightarrow> conn_ok fd st \<Longrightarrow> 3072 * length s \<le> c_room (c_conns st ! nat fd) \<Longrightarrow> length b = 1024 \<Longrightarrow> b ! 1023 = CHR 0x00 \<Longrightarrow>
    \<exists>st'. stdin_loop env fd s state b st = Inr (escape_scan state (typed_keys s) = None, st')"
proof (induction s arbitrary: state b st)
  case (Cons e s)
  show ?case
  proof (cases e)
    case (Fail x)
    then show ?thesis using Cons by simp
  next
    case (Seg bs)
    then have k: "bs \<noteq> []" "length bs < 1024" "CHR 0x00 \<notin> set bs" using Cons.prems(1) by simp_all
    note p = piece_text [OF Cons.prems(4,5) k]
    obtain t where t: "array_text (overlay bs b) = Inr t" "t \<noteq> []" "length t < 1024" using p(3) by blast
    show ?thesis
    proof (cases "escape_scan state bs")
      case None
      then show ?thesis using Seg k by (simp add: escape_scan_append)
    next
      case (Some state')
      define n where "n = min (length (to_utf8 env t)) (c_room (c_conns st ! nat fd))"
      define st1 where "st1 = upd_conn fd (\<lambda>c. c\<lparr>c_outp := c_outp c @ take n (to_utf8 env t), c_room := c_room c - n\<rparr>) st"
      have "length (to_utf8 env t) \<le> 3 * length t" "0 < length (to_utf8 env t)" using env t(2) by (auto simp: converts_def)
      then have n: "0 < n" "n \<le> 3072" using t(3) Cons.prems(3) by (auto simp: n_def)
      have "client_write fd (to_utf8 env t) st = (int n, st1)" using Cons.prems(2) by (simp add: client_write_def n_def st1_def Let_def)
      then have e: "stdin_loop env fd (e # s) state b st = stdin_loop env fd s state' (overlay bs b) st1"
        using Seg k Some t(1) n(1) by (simp add: Let_def)
      have "conn_ok fd st1" "c_room (c_conns st1 ! nat fd) = c_room (c_conns st ! nat fd) - n"
        using Cons.prems(2) by (auto simp: st1_def upd_conn_def conn_ok_def)
      then have "\<exists>st'. stdin_loop env fd s state' (overlay bs b) st1 = Inr (escape_scan state' (typed_keys s) = None, st')"
        using Cons.prems(1,3) n(2) p(1,2) by (intro Cons.IH) auto
      then show ?thesis using Seg Some e by (simp add: escape_scan_append)
    qed
  qed (use Cons.prems(1) in simp)
qed simp

text \<open>
  C24: The interactive shell is left exactly when a line starts with one or more \<open>~\<close> followed by a full stop, however what is typed is cut into reads, some of which may be
  interrupted. The first line does not count: the input has to have an end of line before it. (Each read returns less than the array holds, and no zero byte; the
  connection takes what is written to it; the conversion to UTF-8 makes at most three bytes of one and something of every text.)
\<close>

theorem escape_recognised:
  assumes "\<forall>e\<in>set s. key_ev e" and "converts env" and "conn_ok fd st" and "3072 * length s \<le> c_room (c_conns st ! nat fd)"
  shows "\<exists>leaves st'. stdin_read_thread env fd s st = Inr (leaves, st') \<and>
    (leaves \<longleftrightarrow> (\<exists>xs c k ys. typed_keys s = xs @ c # replicate (Suc k) CHR ''~'' @ CHR ''.'' # ys \<and> (c = CHR 0x0A \<or> c = CHR 0x0D)))"
proof -
  obtain st' where "stdin_read_thread env fd s st = Inr (escape_scan 0 (typed_keys s) = None, st')"
    using stdin_loop_scans [OF assms(2,1,3,4), of "replicate 1024 CHR 0x00" 0] by (auto simp: stdin_read_thread_def)
  then show ?thesis using escape_scan_states [of "typed_keys s"] by (simp add: escape_def)
qed

section \<open>What is printed\<close>

lemma client_read_piece:
  assumes "conn_ok fd st" and "c_inp (c_conns st ! nat fd) = bs @ rest" and "c_reads st = Inl (length bs) # rs" and "bs \<noteq> []" and "length bs \<le> n"
  shows "client_read fd n st =
    (int (length bs), Eother 0, bs, (upd_conn fd (\<lambda>c. c\<lparr>c_inp := drop (length bs) (c_inp c)\<rparr>) st)\<lparr>c_reads := rs\<rparr>)"
proof -
  have "min n (max 1 (length bs)) = length bs" using assms(4,5) by (cases bs) auto
  then show ?thesis using assms by (simp add: client_read_def Let_def)
qed

lemma dump_piece:
  assumes "conn_ok fd st" and "c_inp (c_conns st ! nat fd) = bs @ rest" and "c_reads st = Inl (length bs) # rs" and "bs \<noteq> []" and "length bs \<le> 4096"
  shows "dump_loop env fd b st = bindE (array_text (overlay bs b)) (\<lambda>t. dump_loop env fd (overlay bs b)
    (print (to_gbk (cl_env env) t) ((upd_conn fd (\<lambda>c. c\<lparr>c_inp := rest\<rparr>) st)\<lparr>c_reads := rs\<rparr>)))"
proof -
  have "upd_conn fd (\<lambda>c. c\<lparr>c_inp := drop (length bs) (c_inp c)\<rparr>) st = upd_conn fd (\<lambda>c. c\<lparr>c_inp := rest\<rparr>) st"
    using assms(1,2) by (simp add: upd_conn_def)
  moreover have "0 \<le> fd" using assms(1) by (simp add: conn_ok_def)
  ultimately show ?thesis using assms(4) by (simp add: dump_loop.simps [of env fd b st] client_read_piece [OF assms])
qed

lemma dump_end: "conn_ok fd st \<Longrightarrow> c_inp (c_conns st ! nat fd) = [] \<Longrightarrow> c_reads st = [] \<Longrightarrow> \<exists>st'. dump_loop env fd b st = Inr st' \<and> c_out st' = c_out st"
  by (subst dump_loop.simps) (auto simp: client_read_def conn_ok_def upd_conn_def Let_def)

lemma after_piece:
  assumes "conn_ok fd st"
  shows "conn_ok fd (print s ((upd_conn fd (\<lambda>c. c\<lparr>c_inp := rest\<rparr>) st)\<lparr>c_reads := rs\<rparr>))"
    "c_inp (c_conns (print s ((upd_conn fd (\<lambda>c. c\<lparr>c_inp := rest\<rparr>) st)\<lparr>c_reads := rs\<rparr>)) ! nat fd) = rest"
    "c_reads (print s ((upd_conn fd (\<lambda>c. c\<lparr>c_inp := rest\<rparr>) st)\<lparr>c_reads := rs\<rparr>)) = rs"
    "c_out (print s ((upd_conn fd (\<lambda>c. c\<lparr>c_inp := rest\<rparr>) st)\<lparr>c_reads := rs\<rparr>)) = c_out st @ s"
  using assms by (auto simp: print_def upd_conn_def conn_ok_def)

lemma text_of_array: "CHR 0x00 \<notin> set a \<Longrightarrow> array_text (a @ replicate (Suc n) CHR 0x00) = Inr a"
  by (simp add: array_text_def cstring_def takeWhile_append)

text \<open>
  Output is printed twice. When what a command of the device prints arrives in two pieces, the second shorter than the first, \<open>read_and_dump\<close> prints the
  first piece, then the second one followed by the end of the first: the array is not cleared in between and the length that was read is not used.
\<close>

theorem read_and_dump_repeats:
  assumes "conn_ok fd st" and "c_inp (c_conns st ! nat fd) = p @ q" and "c_reads st = [Inl (length p), Inl (length q)]"
    and "q \<noteq> []" and "length q < length p" and "length p < 4096" and "CHR 0x00 \<notin> set (p @ q)"
  shows "\<exists>st'. read_and_dump env fd st = Inr st' \<and>
    c_out st' = c_out st @ to_gbk (cl_env env) p @ to_gbk (cl_env env) (q @ drop (length q) p)"
proof -
  define st1 where "st1 = print (to_gbk (cl_env env) p) ((upd_conn fd (\<lambda>c. c\<lparr>c_inp := q\<rparr>) st)\<lparr>c_reads := [Inl (length q)]\<rparr>)"
  define st2 where "st2 = print (to_gbk (cl_env env) (q @ drop (length q) p)) ((upd_conn fd (\<lambda>c. c\<lparr>c_inp := []\<rparr>) st1)\<lparr>c_reads := []\<rparr>)"
  define n where "n = 4095 - length p"
  have s1: "conn_ok fd st1" "c_inp (c_conns st1 ! nat fd) = q @ []" "c_reads st1 = [Inl (length q)]" "c_out st1 = c_out st @ to_gbk (cl_env env) p"
    using after_piece [OF assms(1)] by (simp_all add: st1_def)
  have s2: "conn_ok fd st2" "c_inp (c_conns st2 ! nat fd) = []" "c_reads st2 = []" "c_out st2 = c_out st1 @ to_gbk (cl_env env) (q @ drop (length q) p)"
    using after_piece [OF s1(1)] by (simp_all add: st2_def)
  have o1: "overlay p (replicate 4096 CHR 0x00) = p @ replicate (Suc n) CHR 0x00" 
  proof -
    have "4096 - length p = Suc n" using assms(6) by (simp add: n_def)
    then show ?thesis by (simp add: overlay_def)
  qed
  have o2: "overlay q (p @ replicate (Suc n) CHR 0x00) = (q @ drop (length q) p) @ replicate (Suc n) CHR 0x00"
    using assms(5) by (simp add: overlay_def)
  have t: "array_text (p @ replicate (Suc n) CHR 0x00) = Inr p"
    "array_text ((q @ drop (length q) p) @ replicate (Suc n) CHR 0x00) = Inr (q @ drop (length q) p)"
    using assms(7) text_of_array [of p n] text_of_array [of "q @ drop (length q) p" n] by (auto dest: in_set_dropD)
  have pl: "p \<noteq> []" "length p \<le> 4096" "length q \<le> 4096" using assms(5,6) by auto
  have "read_and_dump env fd st = dump_loop env fd (p @ replicate (Suc n) CHR 0x00) st1"
    unfolding read_and_dump_def by (subst dump_piece [OF assms(1-3) pl(1,2)]) (simp only: o1 t(1) bindE_Inr st1_def)
  also have "\<dots> = dump_loop env fd ((q @ drop (length q) p) @ replicate (Suc n) CHR 0x00) st2"
    by (subst dump_piece [OF s1(1-3) assms(4) pl(3)]) (simp only: o2 t(2) bindE_Inr st2_def)
  finally show ?thesis using dump_end [OF s2(1-3)] s2(4) s1(4) by auto
qed

lemma read_and_dump_overrun:
  assumes "conn_ok fd st" and "c_inp (c_conns st ! nat fd) = p @ q" and "c_reads st = [Inl 4096]" and "length p = 4096" and "CHR 0x00 \<notin> set p"
  shows "read_and_dump env fd st = Inl (Bad_access ''buf'')"
proof -
  have "overlay p (replicate 4096 CHR 0x00) = p" using assms(4) by (simp add: overlay_def)
  moreover have "p \<noteq> []" using assms(4) by auto
  ultimately show ?thesis using dump_piece [OF assms(1,2), of "[]"] assms(3-5) unfolding read_and_dump_def by (auto simp: array_text_def)
qed

definition empty_sync :: syncst where
  "empty_sync = \<lparr>inp = [], buffer = [], outp = [], room = 0, errno = Eother 0, calls = []\<rparr>"

definition sample_cmd :: "byte list \<Rightarrow> (nat + errno) list \<Rightarrow> cmdst" where
  "sample_cmd bs rs = \<lparr>adb_transport = KTransportAny, adb_serial = None, adb_server_port = 5037, adb_server_name = None, adb_error = [],
     c_conns = [\<lparr>c_inp = bs, c_outp = [], c_room = 100, c_open = True\<rparr>], c_dial = [], c_launch = [], c_log = [],
     c_reads = rs, c_sync = empty_sync, c_out = [], product_out = None, listen_all = False\<rparr>"

definition sample_cmdenv :: cmdenv where
  "sample_cmdenv = \<lparr>getenv = (\<lambda>_. None), access_ok = (\<lambda>_. False), getcwd = None, get_my_path = [],
     cl_env = \<lparr>to_gbk = (\<lambda>s. s), malloc_ok = (\<lambda>_. True), junk_stat = \<lparr>st_mode = 0, st_size = 0, st_mtime = 0\<rparr>\<rparr>, to_utf8 = (\<lambda>s. s),
     kern = \<lparr>answer = (\<lambda>_ _. Done), fs_config = (\<lambda>_ _. (0, 0, 0)), strerror = (\<lambda>_. []), ulong_max = 0\<rparr>, adb_main = (\<lambda>_ _. 0)\<rparr>"

text \<open>A line end at the end of one read, the escape in the next two, the second after an interruption.\<close>

theorem escape_recognised_witness:
  "\<exists>st'. stdin_read_thread sample_cmdenv 0 [Seg [CHR ''l'', CHR ''s'', CHR 0x0A], Seg ''~'', Fail EINTR, Seg ''.''] ((sample_cmd [] [])
     \<lparr>c_conns := map (\<lambda>c. c\<lparr>c_room := 20000\<rparr>) (c_conns (sample_cmd [] []))\<rparr>) = Inr (True, st')"
proof -
  let ?s = "[Seg [CHR ''l'', CHR ''s'', CHR 0x0A], Seg ''~'', Fail EINTR, Seg ''.'']"
  let ?st = "(sample_cmd [] [])\<lparr>c_conns := map (\<lambda>c. c\<lparr>c_room := 20000\<rparr>) (c_conns (sample_cmd [] []))\<rparr>"
  have e: "typed_keys ?s = ''ls'' @ CHR 0x0A # replicate (Suc 0) CHR ''~'' @ CHR ''.'' # []" by simp
  have "\<forall>e\<in>set ?s. key_ev e" "converts sample_cmdenv" "conn_ok 0 ?st" "3072 * length ?s \<le> c_room (c_conns ?st ! nat 0)"
    by (simp_all add: converts_def sample_cmdenv_def sample_cmd_def conn_ok_def)
  from escape_recognised [OF this] obtain leaves st' where "stdin_read_thread sample_cmdenv 0 ?s ?st = Inr (leaves, st')"
    "leaves \<longleftrightarrow> (\<exists>xs c k ys. typed_keys ?s = xs @ c # replicate (Suc k) CHR ''~'' @ CHR ''.'' # ys \<and> (c = CHR 0x0A \<or> c = CHR 0x0D))"
    by blast
  moreover have "\<exists>xs c k ys. typed_keys ?s = xs @ c # replicate (Suc k) CHR ''~'' @ CHR ''.'' # ys \<and> (c = CHR 0x0A \<or> c = CHR 0x0D)"
    using e by (intro exI [of _ "''ls''"] exI [of _ "CHR 0x0A"] exI [of _ 0] exI [of _ "[]"]) simp
  ultimately show ?thesis by simp
qed


theorem read_and_dump_repeats_witness:
  "\<exists>st'. read_and_dump sample_cmdenv 0 (sample_cmd ''total 12 done'' [Inl 9, Inl 4]) = Inr st' \<and> c_out st' = ''total 12 donel 12 ''"
  using read_and_dump_repeats [of 0 "sample_cmd ''total 12 done'' [Inl 9, Inl 4]" "''total 12 ''" "''done''" sample_cmdenv]
  by (simp add: sample_cmd_def sample_cmdenv_def conn_ok_def)

section \<open>Nested command lines\<close>

definition do_flags :: "transport_type \<Rightarrow> string option \<Rightarrow> flags \<Rightarrow> flags" where
  "do_flags ttype sn fl =
     (case sn of
        Some s \<Rightarrow> fl\<lparr>f_serial := Some s\<rparr>
      | None \<Rightarrow> if ttype = KTransportUsb \<or> ttype = KTransportLocal then fl\<lparr>f_ttype := ttype\<rparr> else fl)"

lemma parse_do_cmd:
  assumes "w = ''wait-for-device'' \<or> w = ''shell''"
  shows "parse_flags env ((case sn of
              Some s \<Rightarrow> [''-s'', s]
            | None \<Rightarrow> if ttype = KTransportUsb then [''-d''] else if ttype = KTransportLocal then [''-e''] else []) @ w # ws) fl st =
         Inr (Some (do_flags ttype sn fl, w # ws), st)"
proof -
  have "parse_flags env (w # ws) fl st = Inr (Some (fl, w # ws), st)" for fl
    using assms by (elim disjE) (simp_all add: parse_flags.simps(2) has_prefix_def)
  moreover have "parse_flags env (''-s'' # s # as) fl st = parse_flags env as (fl\<lparr>f_serial := Some s\<rparr>) st"
    "parse_flags env (''-d'' # as) fl st = parse_flags env as (fl\<lparr>f_ttype := KTransportUsb\<rparr>) st"
    "parse_flags env (''-e'' # as) fl st = parse_flags env as (fl\<lparr>f_ttype := KTransportLocal\<rparr>) st" for s as
    by (simp_all add: parse_flags.simps(2) [of env _ _ fl] has_prefix_def serial_value_def)
  ultimately show ?thesis by (simp add: do_flags_def split: option.split)
qed

text \<open>The command lines that \<open>do_cmd\<close> runs do not call \<open>do_cmd\<close>.\<close>

lemma initial_not_persist: "initial_flags env = Some fl \<Longrightarrow> \<not> f_persist fl \<and> \<not> is_server fl"
  by (auto simp: initial_flags_def)

lemma do_flags_keep [simp]: "f_persist (do_flags t s fl) = f_persist fl" "is_server (do_flags t s fl) = is_server fl" "f_port (do_flags t s fl) = f_port fl"
  by (simp_all add: do_flags_def split: option.split)

lemma shell_loop_once:
  "shell_loop env w False req st =
     Some (bindE (adb_connect req st) (\<lambda>(fd, st).
             if fd \<ge> 0 then bindE (read_and_dump env fd st) (\<lambda>st. Inr (0, client_close fd st)) else Inr (- 1, st)))"
  by (subst shell_loop.simps) (auto split: sum.split)

lemma run_inner:
  "run_command env self fl [''wait-for-device''] st = bindO (cmd_wait fl ''wait-for-device'' st) (\<lambda>(r, st). if r \<noteq> 0 then ret 1 st else ret 0 st)"
  "run_command env self fl (''shell'' # as) st = cmd_shell env self fl as st"
  by (simp_all add: run_command.simps(2) has_prefix_def Let_def cong: if_cong)

lemma inner_no_self:
  "do_cmd (commandline env f) ttype sn [''wait-for-device''] = do_cmd (commandline env g) ttype sn [''wait-for-device'']"
  "do_cmd (commandline env f) ttype sn [''shell'', ''bugreport''] = do_cmd (commandline env g) ttype sn [''shell'', ''bugreport'']"
proof -
  have "commandline env f (args @ w # ws) st = commandline env g (args @ w # ws) st"
    if a: "args = (case sn of Some s \<Rightarrow> [''-s'', s] | None \<Rightarrow> if ttype = KTransportUsb then [''-d''] else if ttype = KTransportLocal then [''-e''] else [])"
      and w: "w # ws = [''wait-for-device''] \<or> w # ws = [''shell'', ''bugreport'']" for args w ws st
  proof (cases "initial_flags env")
    case None
    then show ?thesis by (simp add: commandline_def)
  next
    case (Some fl)
    have p: "parse_flags env (args @ w # ws) fl st = Inr (Some (do_flags ttype sn fl, w # ws), st)" for st
      unfolding a by (rule parse_do_cmd) (use w in auto)
    have "run_command env f fl' (w # ws) st = run_command env g fl' (w # ws) st" if "\<not> f_persist fl'" for fl' st
      using w that by (elim disjE) (simp_all add: run_inner cmd_shell_def shell_loop_once)
    then show ?thesis using initial_not_persist [OF Some] by (simp add: commandline_def Some p bindO_def Let_def)
  qed
  then show "do_cmd (commandline env f) ttype sn [''wait-for-device''] = do_cmd (commandline env g) ttype sn [''wait-for-device'']"
    "do_cmd (commandline env f) ttype sn [''shell'', ''bugreport''] = do_cmd (commandline env g) ttype sn [''shell'', ''bugreport'']"
    by (auto simp: do_cmd_def fun_eq_iff)
qed

lemma run_command_self:
  assumes "\<And>ttype sn. do_cmd f ttype sn [''wait-for-device''] = do_cmd g ttype sn [''wait-for-device'']"
    and "\<And>ttype sn. do_cmd f ttype sn [''shell'', ''bugreport''] = do_cmd g ttype sn [''shell'', ''bugreport'']"
  shows "run_command env f fl args st = run_command env g fl args st"
proof -
  have s: "send_shellcommand env f = send_shellcommand env g"
    by (intro ext) (simp add: send_shellcommand_def assms(1))
  then have c: "pm_command env f = pm_command env g" "logcat env f = logcat env g" "delete_file env f = delete_file env g"
    by (auto intro!: ext simp: pm_command_def logcat_def delete_file_def)
  have i: "install_files env f = install_files env g" by (intro ext) (simp only: install_files_def c)
  have "install_app env f = install_app env g" "uninstall_app env f = uninstall_app env g" "logcat env f = logcat env g"
    by (intro ext, simp only: install_app_def i uninstall_app_def c)+
  moreover have "cmd_shell env f = cmd_shell env g" by (intro ext) (simp only: cmd_shell_def assms(1))
  ultimately show ?thesis
  proof (induction args arbitrary: st)
    case (Cons a as)
    note e = Cons.prems and IH = Cons.IH [OF Cons.prems]
    show ?case unfolding run_command.simps(2) e assms(2) IH ..
  qed simp
qed

lemma one_level: "adb_commandline (Suc 0) env = commandline env (adb_commandline 0 env)"
  by (intro ext) (rule adb_commandline.simps(2))

lemma run_bugreport:
  "run_command env self fl [''bugreport''] st = bindO (do_cmd self (f_ttype fl) (f_serial fl) [''shell'', ''bugreport''] st) (\<lambda>(_, st). ret 0 st)"
  by (simp add: run_command.simps(2) has_prefix_def Let_def)

text \<open>
  C23: The recursion through \<open>do_cmd\<close> ends: the command lines that a command line runs (waiting for a device, the shell of a bug report) run no further ones. Whatever
  function stands in for the third level, two levels give the result, so that the depth of two of the model is enough.
\<close>

theorem commandline_depth: "commandline env (commandline env f) args st = adb_commandline 2 env args st"
proof -
  have "run_command env (commandline env f) = run_command env (commandline env (adb_commandline 0 env))"
    by (intro ext run_command_self inner_no_self)
  then have "commandline env (commandline env f) args st = commandline env (commandline env (adb_commandline 0 env)) args st"
    by (simp only: commandline_def [of env "commandline env f"] commandline_def [of env "commandline env (adb_commandline 0 env)"])
  then show ?thesis by (simp add: numeral_2_eq_2 one_level)
qed

text \<open>
  The port of the server is forgotten. \<open>adb -P port bugreport\<close> does the same as \<open>adb bugreport\<close>: the command line that \<open>do_cmd\<close> runs starts from the port of the
  environment again, so that the report is requested from another server than the one that was asked for.
\<close>

theorem bugreport_forgets_port:
  assumes "server_port p = Some port"
  shows "adb_commandline 2 env [''-P'', p, ''bugreport''] st = adb_commandline 2 env [''bugreport''] st"
proof (cases "initial_flags env")
  case None
  then show ?thesis by (simp add: numeral_2_eq_2 commandline_def)
next
  case (Some fl)
  let ?st = "st\<lparr>product_out := env_text env ''ANDROID_PRODUCT_OUT''\<rparr>"
  have "p \<noteq> []" using assms by (auto simp: server_port_def strtol0_def split_sign_def skip_0x_def File_Sync.digits_value_def)
  then have "parse_flags env [''-P'', p, ''bugreport''] fl ?st = Inr (Some (fl\<lparr>f_port := port\<rparr>, [''bugreport'']), ?st)"
    "parse_flags env [''bugreport''] fl ?st = Inr (Some (fl, [''bugreport'']), ?st)"
    using assms by (simp_all add: parse_flags.simps(2) has_prefix_def opt_value_def)
  moreover have "do_cmd (commandline env g) ttype sn [''shell'', ''bugreport''] (adb_set_tcp_specifics port (adb_set_transport ttype sn st')) =
      do_cmd (commandline env g) ttype sn [''shell'', ''bugreport''] (adb_set_tcp_specifics (f_port fl) (adb_set_transport ttype sn st'))" for g ttype sn st'
    unfolding do_cmd_def commandline_def Some option.case Let_def
    by (simp only: parse_do_cmd [of "''shell''", simplified]) (simp add: bindO_def adb_set_tcp_specifics_def adb_set_transport_def)
  ultimately show ?thesis using initial_not_persist [OF Some]
    by (simp add: numeral_2_eq_2 commandline_def [of _ _ "[_]"] commandline_def [of _ _ "[_, _, _]"] Some bindO_def Let_def run_bugreport one_level)
qed

theorem bugreport_forgets_port_witness:
  "server_port ''5040'' = Some 5040 \<and>
   adb_commandline 2 sample_cmdenv [''-P'', ''5040'', ''bugreport''] (sample_cmd [] []) = adb_commandline 2 sample_cmdenv [''bugreport''] (sample_cmd [] [])"
proof -
  have "server_port ''5040'' = Some 5040" by code_simp
  then show ?thesis using bugreport_forgets_port by simp
qed

section \<open>Forwarding, from the command line to the server\<close>

text \<open>The serial numbers that the server finds again in a request: a path or name with its prefix, a plain serial number, an address with a port.\<close>

definition serial_ok :: "string \<Rightarrow> bool" where
  "serial_ok s \<longleftrightarrow>
     (\<exists>p\<in>set Smart.prefixes. \<exists>t. s = p @ t \<and> CHR '':'' \<notin> set t) \<or>
     (\<forall>p\<in>set Smart.prefixes. \<not> has_prefix p (s @ '':'')) \<and>
     (CHR '':'' \<notin> set s \<or> (\<exists>h ds. s = h @ '':'' @ ds \<and> CHR '':'' \<notin> set h \<and> ds \<noteq> [] \<and> (\<forall>c\<in>set ds. isdigit c)))"

lemma strchr_from_eq: "CHR '':'' \<notin> set s \<Longrightarrow> strchr_from (length p) CHR '':'' (p @ s @ CHR '':'' # r) = Some (length p + length s)"
  by (simp add: strchr_from_def Let_def takeWhile_append)

lemma prefix_colon: "p \<in> set Smart.prefixes \<Longrightarrow> \<exists>q. p = q @ '':'' \<and> CHR '':'' \<notin> set q"
  by (auto simp: Smart.prefixes_def)

lemma has_prefix_longer:
  assumes "p \<in> set Smart.prefixes" "\<not> has_prefix p (s @ '':'')"
  shows "\<not> has_prefix p (s @ CHR '':'' # r)"
proof
  assume h: "has_prefix p (s @ CHR '':'' # r)"
  obtain q where q: "p = q @ '':''" "CHR '':'' \<notin> set q" using prefix_colon [OF assms(1)] by blast
  have t: "take (length q + 1) (s @ CHR '':'' # r) = q @ '':''" using h q by (simp add: has_prefix_def)
  show False
  proof (cases "length q \<le> length s")
    case True
    then have "take (length q + 1) (s @ '':'') = q @ '':''" using t by (cases "length q = length s") (auto simp: take_Cons')
    then show False using assms(2) q by (simp add: has_prefix_def)
  next
    case False
    then have "(q @ '':'') ! length s = CHR '':''" using t [symmetric] by (simp add: nth_append)
    then show False using False q(2) nth_mem [of "length s" q] by (simp add: nth_append split: if_splits)
  qed
qed

lemma skip_serial:
  assumes "serial_ok s" and "service \<noteq> []" and "\<not> isdigit (hd service)"
  shows "skip_host_serial (s @ CHR '':'' # service) = Some (length s)"
  using assms(1) unfolding serial_ok_def
proof (elim disjE conjE bexE exE)
  fix p t assume p: "p \<in> set Smart.prefixes" and s: "s = p @ t" "CHR '':'' \<notin> set t"
  have "find (\<lambda>q. has_prefix q (s @ CHR '':'' # service)) Smart.prefixes = Some p"
  proof -
    have "p = ''usb:'' \<or> p = ''product:'' \<or> p = ''model:'' \<or> p = ''device:''" using p by (simp add: Smart.prefixes_def)
    then show ?thesis unfolding s(1) by (elim disjE) (simp_all add: Smart.prefixes_def has_prefix_def)
  qed
  then show ?thesis using strchr_from_eq [OF s(2), of p service] by (simp add: skip_host_serial_def s(1))
next
  assume n: "\<forall>p\<in>set Smart.prefixes. \<not> has_prefix p (s @ '':'')" and s: "CHR '':'' \<notin> set s"
  have "find (\<lambda>q. has_prefix q (s @ CHR '':'' # service)) Smart.prefixes = None"
    using n has_prefix_longer by (auto simp: find_None_iff)
  moreover have "takeWhile isdigit service = []" using assms(2,3) by (cases service) auto
  ultimately show ?thesis using strchr_from_eq [OF s, of "[]" service] by (simp add: skip_host_serial_def)
next
  fix h ds assume n: "\<forall>p\<in>set Smart.prefixes. \<not> has_prefix p (s @ '':'')"
    and s: "s = h @ '':'' @ ds" "CHR '':'' \<notin> set h" "ds \<noteq> []" "\<forall>c\<in>set ds. isdigit c"
  have "find (\<lambda>q. has_prefix q (s @ CHR '':'' # service)) Smart.prefixes = None"
    using n has_prefix_longer by (auto simp: find_None_iff)
  moreover have "takeWhile isdigit (ds @ CHR '':'' # service) = ds" using s(4) by (simp add: takeWhile_append isdigit_def between_def)
  ultimately show ?thesis using strchr_from_eq [OF s(2), of "[]" "ds @ CHR '':'' # service"] s(1,3)
    by (simp add: skip_host_serial_def Let_def nth_append)
qed

definition asked_type :: "transport_type \<Rightarrow> string option \<Rightarrow> transport_type" where
  "asked_type ttype sn = (if sn = None \<and> (ttype = KTransportUsb \<or> ttype = KTransportLocal) then ttype else KTransportAny)"

lemma prefix_found:
  assumes "forward_prefix ttype sn = Inr pre" and "\<forall>s. sn = Some s \<longrightarrow> serial_ok s" and "service \<noteq> []" and "\<not> isdigit (hd service)"
  shows "host_prefix (pre @ CHR '':'' # service) = Some (service, asked_type ttype sn, sn)"
proof (cases sn)
  case None
  then show ?thesis using assms(1)
    by (auto simp: forward_prefix_def sntext_def asked_type_def host_prefix_def has_prefix_def split: if_splits)
next
  case (Some s)
  then have pre: "pre = ''host-serial:'' @ s" using assms(1) by (auto simp: forward_prefix_def sntext_def split: if_splits)
  have "skip_host_serial (s @ CHR '':'' # service) = Some (length s)" using assms(2-4) Some by (intro skip_serial) auto
  then show ?thesis by (simp add: host_prefix_def has_prefix_def pre Some asked_type_def)
qed

lemma cut_at: "c \<notin> set xs \<Longrightarrow> cut c (xs @ c # ys) = Some (xs, ys)"
  by (simp add: cut_def takeWhile_append dropWhile_append)


definition no_fwd_opts :: fwd_opts where
  "no_fwd_opts = \<lparr>fo_list = False, fo_remove = False, fo_remove_all = False, fo_no_rebind = False\<rparr>"



text \<open>\<open>local_name_to_fd\<close> of \<open>adb.cpp\<close> on Windows; \<open>server\<close> opens a server socket, on all addresses or on the local one.\<close>

definition local_name_to_fd :: "(bool \<Rightarrow> int \<Rightarrow> int) \<Rightarrow> bool \<Rightarrow> string \<Rightarrow> int" where
  "local_name_to_fd server gListenAll name =
     (if has_prefix ''tcp:'' name then server gListenAll (atoi (drop 4 name)) else - 1)"

text \<open>A name that cannot be bound is refused, whatever is forwarded already, and nothing changes.\<close>

lemma install_refused:
  assumes "lsn_ok st" and "srv name < 0" and "new \<noteq> NULL"
  shows "\<exists>c. install_listener env srv new name target t True st = Some (Inr (c, st)) \<and> c \<noteq> INSTALL_STATUS_OK"
proof -
  obtain xs where inv: "lsn_inv st xs" using assms(1) by (auto simp: lsn_ok_def)
  show ?thesis using lookup [OF inv, of name] lsn_nodes [OF inv] assms(2,3)
    by (auto simp: install_listener_def new_listener_def)
qed

lemma acquire_returns:
  assumes "list_wf st ts"
  shows "\<exists>t err. acquire_one_transport CS_ANY ttype sn (\<lambda>_. st) = Some (Inr (0, t, err))"
  using acquire_pass_spec [OF assms, of CS_ANY ttype sn]
  by (auto simp: acquire_one_transport_def acquire_from.simps [of _ _ _ _ 0])

lemma sendfailmsg_writes:
  assumes "wr_script st fd = []"
  shows "wrote (snd (sendfailmsg fd m st)) fd = wrote st fd @ ''FAIL'' @ fmt_04x (length (take 65535 m)) @ take 65535 m"
proof -
  have "fst (sock_writex fd bs st)" for bs
  proof -
    have "\<exists>s. writex bs [Took (Suc (length bs))] = Some (True, bs, s)" by (cases bs) (simp_all add: writex_def)
    then show ?thesis using assms by (auto simp: sock_writex_def)
  qed
  moreover have "take (min (length m) 65535) m = take 65535 m" by (simp add: min_def)
  moreover note sock_writex_all [OF assms]
  ultimately show ?thesis using sock_writex_all [of "snd (sock_writex fd (''FAIL'' @ fmt_04x (min (length m) 65535)) st)" fd "take (min (length m) 65535) m"]
    by (simp add: sendfailmsg_def Let_def split_beta min.commute)
qed

lemma sendfailmsg_forwards: "forwards_of (snd (sendfailmsg fd m st)) = forwards_of (st :: 'z lsnst_scheme)"
proof -
  have "sockst.more st' = sockst.more st \<Longrightarrow> forwards_of st' = forwards_of st" for st' :: "'z lsnst_scheme"
    by (cases st; cases st') (simp add: forwards_of_def)
  then show ?thesis using sendfailmsg_more by blast
qed

lemma next_addr_lsn: "lsn_ok (snd (next_addr st)) = lsn_ok st" "forwards_of (snd (next_addr st)) = forwards_of st"
  "wr_script (snd (next_addr st)) = wr_script st" "wrote (snd (next_addr st)) = wrote st"
  by (simp_all add: next_addr_def lsn_ok_def lsn_inv_def fd_ok_def fd_inv_def attended_def forwards_of_def split: list.split)

text \<open>
  C39: \<open>adb forward --no-rebind\<close> never works. The request has a colon too many, the server reads it as part of the local name, and a name that starts with
  a colon cannot be bound: whatever is forwarded already, whichever devices there are, the server answers with nothing but a failure and its message, and forwards what it
  forwarded before. (The local name has no semicolon, the remote name is not empty and does not start with \<open>*\<close>, a serial number that is given is one of the usual
  forms (\<open>serial_ok\<close>), there is memory for a listener, and the connection takes the reply.)
\<close>

theorem no_rebind_never_binds:
  assumes "forward_prefix ttype sn = Inr pre" and "\<forall>s. sn = Some s \<longrightarrow> serial_ok s"
    and "CHR '';'' \<notin> set l" and "r \<noteq> []" and "hd r \<noteq> CHR ''*''"
    and "opt = no_fwd_opts\<lparr>fo_no_rebind := True\<rparr>" and "server_fd env = local_name_to_fd server gListenAll"
    and "lsn_ok st" and "list_wf st ts" and "fst (next_addr st) \<noteq> NULL" and "wr_script st fd = []"
  shows "\<exists>req service st' msg. forward_request opt pre [l, r] = Some req \<and> host_prefix req = Some (service, asked_type ttype sn, sn) \<and>
    handle_host_request env service (asked_type ttype sn) sn fd s st = Some (Inr (0, st')) \<and>
    wrote st' fd = wrote st fd @ ''FAIL'' @ fmt_04x (length msg) @ msg \<and> forwards_of st' = forwards_of st"
proof -
  define service where "service = ''forward:norebind::'' @ l @ '';'' @ r"
  define name where "name = CHR '':'' # l"
  have "forward_request opt pre [l, r] = Some (pre @ CHR '':'' # service)"
    by (simp add: forward_request_def service_def assms(6) no_fwd_opts_def)
  moreover have "host_prefix (pre @ CHR '':'' # service) = Some (service, asked_type ttype sn, sn)"
    using assms(1,2) by (intro prefix_found) (auto simp: service_def isdigit_def between_def)
  moreover have "CHR '';'' \<notin> set name" using assms(3) by (simp add: name_def)
  then have spec: "forward_spec True service = Some (True, name, r)"
    using assms(4,5) cut_at [of "CHR '';''" name r] by (simp add: forward_spec_def service_def has_prefix_def name_def)
  have h: "handle_host_request env service (asked_type ttype sn) sn fd s st = request_forward env service (asked_type ttype sn) sn fd st"
    by (simp add: handle_host_request_def service_def has_prefix_def)
  obtain t err where t: "acquire_one_transport CS_ANY (asked_type ttype sn) sn (\<lambda>_. st) = Some (Inr (0, t, err))"
    using acquire_returns [OF assms(9)] by blast
  have "server_fd env name < 0" by (simp add: assms(7) local_name_to_fd_def has_prefix_def name_def)
  then obtain c where c: "install_listener (cenv (henv env)) (server_fd env) (fst (next_addr st)) name r t True (snd (next_addr st)) =
      Some (Inr (c, snd (next_addr st)))" "c \<noteq> INSTALL_STATUS_OK"
    using install_refused [of "snd (next_addr st)" "server_fd env" name "fst (next_addr st)"] assms(8,10) unfolding next_addr_lsn by blast
  have "\<not> has_prefix ''kill'' service" by (simp add: service_def has_prefix_def)
  then have "\<exists>m st1. request_forward env service (asked_type ttype sn) sn fd st = Some (Inr (0, snd (sendfailmsg fd m st1))) \<and>
      (st1 = st \<or> st1 = snd (next_addr st))"
    using spec t c by (cases "t = NULL") (auto simp: request_forward_def bindO_def split_beta)
  then obtain m st1 where st1: "request_forward env service (asked_type ttype sn) sn fd st = Some (Inr (0, snd (sendfailmsg fd m st1)))"
    "st1 = st \<or> st1 = snd (next_addr st)" by blast
  then have "wrote (snd (sendfailmsg fd m st1)) fd = wrote st fd @ ''FAIL'' @ fmt_04x (length (take 65535 m)) @ take 65535 m"
    "forwards_of (snd (sendfailmsg fd m st1)) = forwards_of st"
    using sendfailmsg_writes [of st1 fd m] assms(11) by (auto simp: sendfailmsg_forwards next_addr_lsn)
  ultimately show ?thesis using h st1(1)
    by (intro exI [of _ "pre @ CHR '':'' # service"] exI [of _ service] exI [of _ "snd (sendfailmsg fd m st1)"] exI [of _ "take 65535 m"]) simp
qed

text \<open>A server with one device, to which replies can be written.\<close>

definition fwd_sample :: tregst where
  "fwd_sample = one_transport\<lparr>wr_script := (\<lambda>_. []), wrote := (\<lambda>_. [])\<rparr>"

lemma fwd_sample_ok: "lsn_ok fwd_sample" "list_wf fwd_sample [30]" "fst (next_addr fwd_sample) \<noteq> NULL" "wr_script fwd_sample 5 = []"
proof -
  have f: "fdstate.truncate fwd_sample = fdstate.truncate pair_sample" "llinks fwd_sample = list_init listener_list \<lparr>nxt = (\<lambda>_. 0), prv = (\<lambda>_. 0)\<rparr>"
    "alloc fwd_sample = [60, 61, 62]"
    by (simp_all add: fwd_sample_def one_transport_def no_transports_def device_sample_def sockst.defs lsnst.defs adbst.defs tregst.defs fdstate.defs)
  then have "lsn_inv fwd_sample []" using pair_fd_ok fd_ok_cong [OF f(1)] by (simp add: lsn_inv_def ring_list_init)
  then show "lsn_ok fwd_sample" by (auto simp: lsn_ok_def)
  show "list_wf fwd_sample [30]" using one_transport_wf by (simp add: list_wf_def fwd_sample_def)
  show "fst (next_addr fwd_sample) \<noteq> NULL" by (simp add: next_addr_def f(3))
  show "wr_script fwd_sample 5 = []" by (simp add: fwd_sample_def)
qed

theorem no_rebind_never_binds_witness:
  "\<exists>st' msg. handle_host_request (sample_hostenv\<lparr>server_fd := local_name_to_fd (\<lambda>_ _. 7) False\<rparr>) ''forward:norebind::tcp:8000;tcp:80'' KTransportAny None 5 12 fwd_sample =
     Some (Inr (0, st')) \<and> wrote st' 5 = ''FAIL'' @ fmt_04x (length msg) @ msg \<and> forwards_of st' = forwards_of fwd_sample"
proof -
  have p: "forward_prefix KTransportAny None = Inr ''host''" by code_simp
  have n: "CHR '';'' \<notin> set ''tcp:8000''" "''tcp:80'' \<noteq> []" "hd ''tcp:80'' \<noteq> CHR ''*''" by simp_all
  have "forward_request (no_fwd_opts\<lparr>fo_no_rebind := True\<rparr>) ''host'' [''tcp:8000'', ''tcp:80''] = Some ''host:forward:norebind::tcp:8000;tcp:80''"
    "host_prefix ''host:forward:norebind::tcp:8000;tcp:80'' = Some (''forward:norebind::tcp:8000;tcp:80'', KTransportAny, None)" by code_simp+
  then show ?thesis
    using no_rebind_never_binds [OF p _ n refl _ fwd_sample_ok, where env = "sample_hostenv\<lparr>server_fd := local_name_to_fd (\<lambda>_ _. 7) False\<rparr>"
        and server = "\<lambda>_ _. 7" and gListenAll = False and s = 12]
    by (auto simp: asked_type_def fwd_sample_def)
qed

end
