(* ===== verification/Host_Services.thy ===== *)
theory Host_Services
  imports Command_Line
begin

text \<open>
  The services of the server itself, \<open>services.cpp\<close> under \<open>ADB_HOST\<close>: \<open>connect:\<close>, which makes a transport of a TCP connection to a device or an emulator, and
  \<open>wait-for-\<close>, which answers when a device is there. A service runs in a thread of its own at one end of a socket pair; its result here is what it writes
  there. \<open>dial\<close> is \<open>socket_network_client_timeout\<close>, \<open>jport\<close> an uninitialised number. \<open>None\<close>: waiting for ever, or a list that does not come back to its head.
\<close>

section \<open>Connecting\<close>

text \<open>\<open>sscanf (s, "%d", ...)\<close>: what it stores and what it returns; at the end of the text it stores nothing and returns \<open>EOF\<close>.\<close>

definition sscanf_d :: "string \<Rightarrow> int \<times> int option" where
  "sscanf_d s =
     (let r = dropWhile is_space s; (neg, ds) = split_sign r in
      if r = [] then (- 1, None)
      else if takeWhile isdigit ds = [] then (0, None)
      else (1, Some (atoi s)))"

definition DEFAULT_ADB_LOCAL_TRANSPORT_PORT :: int where "DEFAULT_ADB_LOCAL_TRANSPORT_PORT = 5555"

text \<open>
  The host name in the array \<open>hostbuf\<close> and the port, or the text of a refusal. \<open>strncpy\<close> does not terminate a name of 99 characters or more; without a
  colon the last byte of the array is whatever it was.
\<close>

definition host_and_port :: "int \<Rightarrow> string \<Rightarrow> (string + (string \<times> int)) outcome" where
  "host_and_port jport host =
     (case strchr_from 0 CHR '':'' host of
        Some i \<Rightarrow>
          if i \<ge> 100 then Inr (Inl (''bad host name '' @ host))
          else (case sscanf_d (drop (i + 1) host) of (n, p) \<Rightarrow>
                  if n = 0 then Inr (Inl (''bad port number '' @ drop i host))
                  else Inr (Inr (take i host, case p of Some p \<Rightarrow> p | None \<Rightarrow> jport)))
      | None \<Rightarrow>
          if length host \<ge> 99 then Inl (Bad_access ''hostbuf'') else Inr (Inr (host, DEFAULT_ADB_LOCAL_TRANSPORT_PORT)))"

definition connect_device ::
  "(string \<Rightarrow> int \<Rightarrow> int) \<Rightarrow> int \<Rightarrow> bool \<Rightarrow> addr \<Rightarrow> addr \<Rightarrow> string \<Rightarrow> 'z tregst_scheme \<Rightarrow> (string \<times> 'z tregst_scheme) outcome option" where
  "connect_device dial jport hst t fde host st =
     bindO (Some (host_and_port jport host)) (\<lambda>r.
       case r of
         Inl msg \<Rightarrow> bindO (Some (sntext 4096 msg)) (\<lambda>msg. Some (Inr (msg, st)))
       | Inr (hostbuf, port) \<Rightarrow>
           bindO (Some (sntext 100 (hostbuf @ '':'' @ fmt_d port))) (\<lambda>sn.
             let fd = dial hostbuf port in
             if fd < 0 then bindO (Some (sntext 4096 (''unable to connect to '' @ host @ '':'' @ fmt_d port))) (\<lambda>msg. Some (Inr (msg, st)))
             else
               bindO (register_socket_transport hst t fde fd (Some sn) [] port False st) (\<lambda>(ok, st).
                 Some (Inr (if ok then (''connected to '' @ sn, st)
                            else (''already connected to '' @ sn, st\<lparr>closed_fds := closed_fds st @ [fd]\<rparr>))))))"

definition connect_emulator :: "'z tregst_scheme hostenv \<Rightarrow> string \<Rightarrow> 'z tregst_scheme \<Rightarrow> (string \<times> 'z tregst_scheme) outcome option" where
  "connect_emulator env port_spec st =
     (case cut CHR '','' port_spec of
        None \<Rightarrow>
          bindO (Some (sntext 4096 (''unable to parse '' @ [CHR 0x27] @ port_spec @ [CHR 0x27] @ '' as <console port>,<adb port>''))) (\<lambda>msg.
            Some (Inr (msg, st)))
      | Some (console, adb) \<Rightarrow>
          let console_port = strtol0 console; port = strtol0 adb in
          if \<not> (console_port > 0 \<and> port > 0) then
            bindO (Some (sntext 4096 (''Invalid port numbers: Expected positive numbers, got '' @ [CHR 0x27] @ port_spec @ [CHR 0x27]))) (\<lambda>msg.
              Some (Inr (msg, st)))
          else
            bindO (Some (find_emulator_transport_by_adb_port port st)) (\<lambda>known.
              if known \<noteq> NULL then Some (Inr (''Emulator on port '' @ fmt_d port @ '' already registered.'', st))
              else if get_available_local_transport_index st < 0 then Some (Inr (''Cannot accept more emulators.'', st))
              else
                bindO (local_connect_arbitrary_ports env console_port port st) (\<lambda>(r, st).
                  Some (Inr ((if r = 0 then ''Connected to emulator on ports '' else ''Could not connect to emulator on ports '') @
                               fmt_d console_port @ '','' @ fmt_d port, st)))))"

text \<open>The answer of the service: the length of the text in four digits and the text.\<close>

definition connect_service ::
  "(string \<Rightarrow> int \<Rightarrow> int) \<Rightarrow> int \<Rightarrow> 'z tregst_scheme hostenv \<Rightarrow> addr \<Rightarrow> addr \<Rightarrow> string \<Rightarrow> 'z tregst_scheme
     \<Rightarrow> (byte list \<times> 'z tregst_scheme) outcome option" where
  "connect_service dial jport env t fde host st =
     bindO (if has_prefix ''emu:'' host then connect_emulator env (drop 4 host) st
            else connect_device dial jport (HOST (henv env)) t fde host st) (\<lambda>(b, st).
     bindO (Some (sntext 4096 (fmt_04x (length b) @ b))) (\<lambda>resp. Some (Inr (resp, st))))"

section \<open>Waiting\<close>

text \<open>What is waited for; \<open>None\<close>: no such service.\<close>

definition wait_target :: "string \<Rightarrow> transport_type option" where
  "wait_target name =
     (if has_prefix ''local'' name then Some KTransportLocal
      else if has_prefix ''usb'' name then Some KTransportUsb
      else if has_prefix ''any'' name then Some KTransportAny
      else None)"

definition wait_for_state :: "transport_type \<Rightarrow> string option \<Rightarrow> (nat \<Rightarrow> 'z tregst_scheme) \<Rightarrow> (byte list) outcome option" where
  "wait_for_state ttype sn world =
     bindO (acquire_one_transport CS_DEVICE ttype sn world) (\<lambda>(_, t, err).
       Some (Inr (if t \<noteq> NULL then ''OKAY''
                  else let msg = take 0xffff (case err of None \<Rightarrow> ''unknown error'' | Some e \<Rightarrow> e) in ''FAIL'' @ fmt_04x (length msg) @ msg)))"

section \<open>The services\<close>

datatype host_service_req = Track_devices | Wait_for transport_type | Connect string

definition host_service_of :: "string \<Rightarrow> host_service_req option" where
  "host_service_of name =
     (if name = ''track-devices'' then Some Track_devices
      else if has_prefix ''wait-for-'' name then map_option Wait_for (wait_target (drop 9 name))
      else if has_prefix ''connect:'' name then Some (Connect (drop 8 name))
      else None)"

text \<open>
  \<open>host_service_to_socket\<close>: the end of the socket pair that \<open>create_service_thread\<close> returns (negative when it fails) becomes a local socket. \<open>tracker\<close> is
  \<open>create_device_tracker\<close>.
\<close>

definition host_service_to_socket ::
  "('z tregst_scheme \<Rightarrow> (addr \<times> 'z tregst_scheme) outcome) \<Rightarrow> int \<Rightarrow> fdenv \<Rightarrow> addr \<Rightarrow> string \<Rightarrow> 'z tregst_scheme \<Rightarrow> (addr \<times> 'z tregst_scheme) outcome" where
  "host_service_to_socket tracker fd env new name st =
     (case host_service_of name of
        None \<Rightarrow> Inr (NULL, st)
      | Some Track_devices \<Rightarrow> tracker st
      | Some _ \<Rightarrow> create_local_socket env new fd st)"

end
