(* ===== verification/Host_Services_Props.thy ===== *)
theory Host_Services_Props
  imports Host_Services Transports_Props Smart_Props
begin

text \<open>
  What the services of the server do: a connection to a device becomes a transport exactly when its serial number is not taken, the reply says so, and the
  descriptor is closed otherwise; a request is a service exactly when its name begins with one of three words.
\<close>

section \<open>Connecting\<close>

lemma serial_taken_eq:
  "\<forall>u\<in>set us. regs st u \<noteq> None \<Longrightarrow> NULL \<notin> set us \<Longrightarrow> serial_taken st sn us = Inr (\<exists>u\<in>set us. serial (the (regs st u)) = Some sn)"
  by (induction us) auto

definition taken :: "'z tregst_scheme \<Rightarrow> addr list \<Rightarrow> string \<Rightarrow> bool" where
  "taken st us sn \<longleftrightarrow> (\<exists>u\<in>set us. serial (the (regs st u)) = Some sn)"

lemma register_socket_eq:
  assumes i: "reg_inv st ts ps" and t: "t \<notin> {NULL, transport_list, pending_list}" "regs st t = None"
  shows "\<exists>st'. register_socket_transport hst t fde s (Some sn) tname port False st = Some (Inr (\<not> taken st (ts @ ps) sn, st')) \<and>
    closed_fds st' = closed_fds st \<and> (\<not> taken st (ts @ ps) sn \<longrightarrow> (\<exists>r. regs st' t = Some r \<and> serial r = Some sn \<and> sfd r = s))"
proof -
  define r where "r = (blank_treg fde)\<lparr>sfd := s, t_type := KTransportLocal, adb_port := 0\<rparr>"
  define st1 where "st1 = new_transport t (blank_transport\<lparr>connection_state := CS_OFFLINE\<rparr>) r st"
  have init: "init_socket_transport hst t s port False (new_transport t blank_transport (blank_treg fde) st) = Inr (True, st1)"
    by (simp add: init_socket_transport_def new_transport_def upd_trans_def upd_reg_def st1_def r_def)
  have n: "ring_nodes (tlinks st1) pending_list = Some ps" "ring_nodes (tlinks st1) transport_list = Some ts"
    using i by (auto simp: reg_inv_def ring_nodes st1_def new_transport_def)
  have nt: "t \<notin> set ts \<union> set ps" "NULL \<notin> set ts \<union> set ps" "\<forall>u\<in>set ts \<union> set ps. regs st u \<noteq> None"
  proof -
    have d: "dom (regs st) = set ts \<union> set ps" "NULL \<notin> set ts \<union> set ps" using i by (auto simp: reg_inv_def)
    then show "t \<notin> set ts \<union> set ps" "NULL \<notin> set ts \<union> set ps" "\<forall>u\<in>set ts \<union> set ps. regs st u \<noteq> None"
      using t(2) unfolding d(1) [symmetric] by auto
  qed
  have s: "serial_taken st1 sn us = Inr (taken st us sn)" if "set us \<subseteq> set ts \<union> set ps" for us
  proof -
    have "\<forall>u\<in>set us. regs st1 u = regs st u" using that nt(1) by (auto simp: st1_def new_transport_def)
    then show ?thesis using serial_taken_eq [of us st1 sn] that nt(2,3) by (auto simp: taken_def)
  qed
  have "register_socket_transport hst t fde s (Some sn) tname port False st = Some (Inr (if taken st (ts @ ps) sn then (False, free_transport t st1)
      else (True, pend_transport t (st1\<lparr>regs := (regs st1)(t \<mapsto> r\<lparr>serial := Some sn\<rparr>)\<rparr>))))"
    using s [of ps] s [of ts] t(1)
    by (auto simp: register_socket_transport_def init n taken_def upd_reg_def) (auto simp: st1_def new_transport_def)
  then show ?thesis
    by (auto simp: free_transport_def pend_transport_def register_transport_def st1_def new_transport_def r_def)
qed

text \<open>
  C20: \<open>adb connect\<close> registers a device or says why not. For a host and port that the service can read, it always answers: without a connection nothing
  changes; a connection whose serial number another transport has is closed and not registered; any other one is pending as a transport with this serial
  number and descriptor, and the registry stays well-formed.
\<close>

theorem connect_device_registers:
  assumes "reg_inv st ts ps" and "t \<notin> {NULL, transport_list, pending_list}" and "regs st t = None" and "trans st t = None"
    and "host_and_port jport host = Inr (Inr (h, port))" and "sn = h @ '':'' @ fmt_d port" and "length sn < 100" and "length host < 3000"
  shows "\<exists>reply st'. connect_device dial jport hst t fde host st = Some (Inr (reply, st')) \<and>
    (if dial h port < 0 then reply = ''unable to connect to '' @ host @ '':'' @ fmt_d port \<and> st' = st
     else if \<exists>u\<in>set (ts @ ps). serial (the (regs st u)) = Some sn
     then reply = ''already connected to '' @ sn \<and> reg_inv st' ts ps \<and> closed_fds st' = closed_fds st @ [dial h port]
     else reply = ''connected to '' @ sn \<and> reg_inv st' ts (ps @ [t]) \<and> closed_fds st' = closed_fds st \<and>
       (\<exists>r. regs st' t = Some r \<and> serial r = Some sn \<and> sfd r = dial h port))"
proof -
  let ?fd = "dial h port"
  have len: "length (fmt_d port) < 100" using assms(6,7) by simp
  obtain st' where st': "register_socket_transport hst t fde ?fd (Some sn) [] port False st = Some (Inr (\<not> taken st (ts @ ps) sn, st'))"
    "closed_fds st' = closed_fds st" "\<not> taken st (ts @ ps) sn \<longrightarrow> (\<exists>r. regs st' t = Some r \<and> serial r = Some sn \<and> sfd r = ?fd)"
    using register_socket_eq [OF assms(1-3)] by blast
  have inv: "reg_inv st' ts (if taken st (ts @ ps) sn then ps else ps @ [t])"
    using register_socket_inv [OF st'(1) assms(1-4)] by (simp split: if_splits)
  have "reg_inv (st'\<lparr>closed_fds := c\<rparr>) ts us = reg_inv st' ts us" for c us by (simp add: reg_inv_def)
  moreover have tk: "(\<exists>u\<in>set (ts @ ps). serial (the (regs st u)) = Some sn) = taken st (ts @ ps) sn" by (simp add: taken_def)
  have "connect_device dial jport hst t fde host st =
      (if ?fd < 0 then Some (Inr (''unable to connect to '' @ host @ '':'' @ fmt_d port, st))
       else Some (Inr (if taken st (ts @ ps) sn then (''already connected to '' @ sn, st'\<lparr>closed_fds := closed_fds st' @ [?fd]\<rparr>)
                       else (''connected to '' @ sn, st'))))"
    using assms(5,7,8) len st'(1) unfolding assms(6) by (simp add: connect_device_def bindO_def sntext_def Let_def)
  ultimately show ?thesis unfolding tk using st'(2,3) inv by (cases "taken st (ts @ ps) sn") simp_all
qed

theorem connect_device_registers_witness:
  "reg_inv one_transport [30] [] \<and> (\<exists>st'. connect_device (\<lambda>_ _. 9) 0 True 40 80 ''10.0.0.2'' one_transport = Some (Inr (''connected to 10.0.0.2:5555'', st')) \<and>
     reg_inv st' [30] [40] \<and> (\<exists>r. regs st' 40 = Some r \<and> serial r = Some ''10.0.0.2:5555'' \<and> sfd r = 9))"
proof -
  have hp: "host_and_port 0 ''10.0.0.2'' = Inr (Inr (''10.0.0.2'', 5555))" by code_simp
  have f: "fmt_d 5555 = ''5555''"
    by (simp add: fmt_d_def fmt_nat.simps [of 5555] fmt_nat.simps [of 555] fmt_nat.simps [of 55] fmt_nat.simps [of 5])
  have e: "regs one_transport 40 = None" "trans one_transport 40 = None" "(40::addr) \<notin> {NULL, transport_list, pending_list}"
    "serial (the (regs one_transport 30)) \<noteq> Some ''10.0.0.2:5555''"
    by (simp_all add: one_transport_def no_transports_def adbst.defs tregst.defs emu_reg_def transport_list_def pending_list_def)
  show ?thesis
    using connect_device_registers [of one_transport "[30]" "[]" 40 0 "''10.0.0.2''" "''10.0.0.2''" 5555 "''10.0.0.2:5555''" "\<lambda>_ _. 9" True 80]
      one_transport_inv hp f e by simp blast
qed

section \<open>Which requests are services\<close>

lemma host_service_unknown:
  "host_service_of name = None \<longleftrightarrow>
     name \<noteq> ''track-devices'' \<and> \<not> has_prefix ''connect:'' name \<and>
     (has_prefix ''wait-for-'' name \<longrightarrow> (\<forall>w\<in>{''local'', ''usb'', ''any''}. \<not> has_prefix w (drop 9 name)))"
proof -
  have "\<not> has_prefix ''connect:'' name" if "has_prefix ''wait-for-'' name"
    using that by (cases name) (auto simp: has_prefix_def)
  then show ?thesis by (auto simp: host_service_of_def wait_target_def)
qed

end
