(* ===== verification/Bip_Buffer.thy ===== *)
theory Bip_Buffer
  imports Adb_Prelude
begin

text \<open>
  The circular buffers behind the socket pairs that \<open>sysdeps_win32.cpp\<close> emulates: region A is \<open>[a_start, a_end)\<close>, region B is
  \<open>[0, b_end)\<close>, and bytes are read from A, then from B.

  A call is atomic (the critical section). A call that has to wait for the other side is \<open>None\<close> (and is not followed further: what a waiting
  call returns when the buffer is closed is not modelled); \<open>wait_ok\<close> says whether
  \<open>WaitForSingleObject\<close> succeeds. The results are the return value, \<open>errno\<close> when it was set, the bytes read and the buffer.

  The locale \<open>byte_queue\<close> is the contract of a bounded first-in first-out queue of bytes that two threads use in any order;
  the circular buffer is interpreted as one.
\<close>

definition EPIPE :: errno where "EPIPE = Eother 32"

definition BIP_BUFFER_SIZE :: nat where "BIP_BUFFER_SIZE = 4096"

record BipBuffer =
  a_start :: nat
  a_end :: nat
  b_end :: nat
  fdin :: int
  fdout :: int
  closed :: bool
  can_write :: bool
  evt_write :: bool
  can_read :: bool
  evt_read :: bool
  buff :: "byte list"

text \<open>\<open>junk\<close> is what \<open>malloc\<close> left in the array.\<close>

definition bip_buffer_init :: "byte list \<Rightarrow> BipBuffer" where
  "bip_buffer_init junk =
     \<lparr>a_start = 0, a_end = 0, b_end = 0, fdin = 0, fdout = 0, closed = False, can_write = True, evt_write = True,
      can_read = False, evt_read = False, buff = junk\<rparr>"

definition bip_buffer_close :: "BipBuffer \<Rightarrow> BipBuffer" where
  "bip_buffer_close bip =
     (let bip = bip\<lparr>closed := True\<rparr>;
          bip = (if \<not> can_read bip then bip\<lparr>evt_read := True\<rparr> else bip)
      in if \<not> can_write bip then bip\<lparr>evt_write := True\<rparr> else bip)"

section \<open>Writing\<close>

definition memcpy_to :: "nat \<Rightarrow> byte list \<Rightarrow> byte list \<Rightarrow> byte list outcome" where
  "memcpy_to pos bs b = (if pos + length bs \<le> length b then Inr (take pos b @ bs @ drop (pos + length bs) b) else Inl (Bad_access ''buff''))"

definition memcpy_from :: "nat \<Rightarrow> nat \<Rightarrow> byte list \<Rightarrow> byte list outcome" where
  "memcpy_from pos n b = (if pos + n \<le> length b then Inr (take n (drop pos b)) else Inl (Bad_access ''buff''))"

text \<open>The end of a write of \<open>count\<close> bytes.\<close>

definition write_exit :: "nat \<Rightarrow> BipBuffer \<Rightarrow> (int \<times> errno option \<times> BipBuffer) outcome" where
  "write_exit count bip =
     (if count = 0 then Inl (Fatal ''assert'')
      else Inr (int count, None, if \<not> can_read bip then bip\<lparr>can_read := True, evt_read := True\<rparr> else bip))"

text \<open>Writing to region B, after \<open>count\<close> bytes in region A.\<close>

definition write_b :: "nat \<Rightarrow> BipBuffer \<Rightarrow> byte list \<Rightarrow> (int \<times> errno option \<times> BipBuffer) outcome" where
  "write_b count bip src =
     (if src = [] then write_exit count bip
      else if a_start bip \<le> b_end bip then Inl (Fatal ''assert'')
      else
        let avail = min (a_start bip - b_end bip) (length src) in
        bindE (memcpy_to (b_end bip) (take avail src) (buff bip)) (\<lambda>b.
          let bip = bip\<lparr>buff := b, b_end := b_end bip + avail\<rparr>;
              bip = (if b_end bip = a_start bip then bip\<lparr>can_write := False, evt_write := False\<rparr> else bip)
          in write_exit (count + avail) bip))"

definition bip_write_exec :: "BipBuffer \<Rightarrow> byte list \<Rightarrow> (int \<times> errno option \<times> BipBuffer) outcome" where
  "bip_write_exec bip src =
     (if a_end bip < BIP_BUFFER_SIZE then
        let avail = min (BIP_BUFFER_SIZE - a_end bip) (length src) in
        bindE (memcpy_to (a_end bip) (take avail src) (buff bip)) (\<lambda>b.
          let bip = bip\<lparr>buff := b, a_end := a_end bip + avail\<rparr> in
          if a_end bip = BIP_BUFFER_SIZE \<and> a_start bip = 0 then write_exit avail (bip\<lparr>can_write := False, evt_write := False\<rparr>)
          else write_b avail bip (drop avail src))
      else write_b 0 bip src)"

text \<open>\<open>src\<close>: the \<open>len\<close> bytes to write, none when \<open>len\<close> is not positive.\<close>

definition bip_buffer_write :: "bool \<Rightarrow> BipBuffer \<Rightarrow> byte list \<Rightarrow> (int \<times> errno option \<times> BipBuffer) outcome option" where
  "bip_buffer_write wait_ok bip src =
     (if src = [] then Some (Inr (0, None, bip))
      else if \<not> can_write bip then
        if closed bip then Some (Inr (- 1, Some EPIPE, bip))
        else if \<not> wait_ok then Some (Inr (0, None, bip))
        else None
      else Some (bip_write_exec bip src))"

section \<open>Reading\<close>

definition read_exit :: "byte list \<Rightarrow> BipBuffer \<Rightarrow> (int \<times> errno option \<times> byte list \<times> BipBuffer) outcome" where
  "read_exit dst bip =
     (if dst = [] then Inl (Fatal ''assert'')
      else Inr (int (length dst), None, dst, if \<not> can_write bip then bip\<lparr>can_write := True, evt_write := True\<rparr> else bip))"

text \<open>Reading from what was region B, after \<open>dst\<close>; \<open>len\<close> bytes are still wanted.\<close>

definition read_b :: "byte list \<Rightarrow> BipBuffer \<Rightarrow> nat \<Rightarrow> (int \<times> errno option \<times> byte list \<times> BipBuffer) outcome" where
  "read_b dst bip len =
     (let bip = bip\<lparr>a_start := 0, a_end := b_end bip, b_end := 0\<rparr>;
          avail = min (a_end bip) len in
      if a_end bip > 0 then
        bindE (memcpy_from 0 avail (buff bip)) (\<lambda>bs.
          let bip = bip\<lparr>a_start := avail\<rparr> in
          if a_start bip < a_end bip then read_exit (dst @ bs) bip
          else read_exit (dst @ bs) (bip\<lparr>a_start := 0, a_end := 0, can_read := False, evt_read := False\<rparr>))
      else read_exit dst (bip\<lparr>can_read := False, evt_read := False\<rparr>))"

definition bip_read_exec :: "BipBuffer \<Rightarrow> nat \<Rightarrow> (int \<times> errno option \<times> byte list \<times> BipBuffer) outcome" where
  "bip_read_exec bip len =
     (if a_end bip \<le> a_start bip then Inl (Fatal ''assert'')
      else
        let avail = min (a_end bip - a_start bip) len in
        bindE (memcpy_from (a_start bip) avail (buff bip)) (\<lambda>bs.
          let bip = bip\<lparr>a_start := a_start bip + avail\<rparr> in
          if a_start bip < a_end bip then read_exit bs bip else read_b bs bip (len - avail)))"

definition bip_buffer_read :: "bool \<Rightarrow> BipBuffer \<Rightarrow> int \<Rightarrow> (int \<times> errno option \<times> byte list \<times> BipBuffer) outcome option" where
  "bip_buffer_read wait_ok bip len =
     (if len \<le> 0 then Some (Inr (0, None, [], bip))
      else if \<not> can_read bip then
        if closed bip then Some (Inr (- 1, Some EPIPE, [], bip))
        else if \<not> wait_ok then Some (Inr (0, None, [], bip))
        else None
      else Some (bip_read_exec bip (nat len)))"

section \<open>The invariant\<close>

text \<open>The bytes in the buffer, in the order they were written.\<close>

definition content :: "BipBuffer \<Rightarrow> byte list" where
  "content bip = take (a_end bip - a_start bip) (drop (a_start bip) (buff bip)) @ take (b_end bip) (buff bip)"

definition bip_ok :: "BipBuffer \<Rightarrow> bool" where
  "bip_ok bip \<longleftrightarrow>
     length (buff bip) = BIP_BUFFER_SIZE \<and> a_start bip \<le> a_end bip \<and> a_end bip \<le> BIP_BUFFER_SIZE \<and> b_end bip \<le> a_start bip \<and>
     (0 < b_end bip \<longrightarrow> a_end bip = BIP_BUFFER_SIZE) \<and> (a_start bip = a_end bip \<longrightarrow> a_end bip = 0) \<and>
     (can_read bip \<longleftrightarrow> a_start bip < a_end bip) \<and> (can_write bip \<longleftrightarrow> \<not> (a_end bip = BIP_BUFFER_SIZE \<and> b_end bip = a_start bip)) \<and>
     (can_read bip \<longrightarrow> evt_read bip) \<and> (can_write bip \<longrightarrow> evt_write bip) \<and>
     (\<not> closed bip \<longrightarrow> (evt_read bip \<longrightarrow> can_read bip) \<and> (evt_write bip \<longrightarrow> can_write bip))"

lemma length_content: "bip_ok bip \<Longrightarrow> length (content bip) = a_end bip - a_start bip + b_end bip"
  by (auto simp: content_def bip_ok_def)

lemma content_bounds: "bip_ok bip \<Longrightarrow> length (content bip) \<le> BIP_BUFFER_SIZE"
  by (simp add: length_content) (auto simp: bip_ok_def)

text \<open>The flags say whether a call has to wait.\<close>

lemma can_read_content: "bip_ok bip \<Longrightarrow> can_read bip \<longleftrightarrow> content bip \<noteq> []"
  unfolding length_0_conv [symmetric] by (simp add: length_content) (auto simp: bip_ok_def)

lemma can_write_content: "bip_ok bip \<Longrightarrow> can_write bip \<longleftrightarrow> length (content bip) < BIP_BUFFER_SIZE"
  by (simp add: length_content) (auto simp: bip_ok_def)

lemma bip_init_ok: "length junk = BIP_BUFFER_SIZE \<Longrightarrow> bip_ok (bip_buffer_init junk) \<and> content (bip_buffer_init junk) = []"
  by (simp add: bip_ok_def bip_buffer_init_def content_def BIP_BUFFER_SIZE_def)

lemma bip_close_ok: "bip_ok bip \<Longrightarrow> bip_ok (bip_buffer_close bip) \<and> content (bip_buffer_close bip) = content bip \<and> closed (bip_buffer_close bip)"
  by (auto simp: bip_buffer_close_def bip_ok_def content_def Let_def)

section \<open>Writing appends\<close>

lemma memcpy_to_simps:
  assumes "pos + length bs \<le> length b"
  shows "memcpy_to pos bs b = Inr (take pos b @ bs @ drop (pos + length bs) b)"
  using assms by (simp add: memcpy_to_def)

lemma append_region:
  "i \<le> j \<Longrightarrow> j + length bs \<le> length b \<Longrightarrow>
   take (j + length bs - i) (drop i (take j b @ bs @ drop (j + length bs) b)) = take (j - i) (drop i b) @ bs"
  by (simp add: drop_take)

lemma write_b_ok:
  assumes ok: "bip_ok bip" and w: "can_write bip" and a: "a_end bip = BIP_BUFFER_SIZE" and "src \<noteq> []"
  defines "k \<equiv> min (length src) (BIP_BUFFER_SIZE - length (content bip))"
  obtains bip' where "write_b n bip src = Inr (int (n + k), None, bip')" "bip_ok bip'" "content bip' = content bip @ take k src" "closed bip' = closed bip"
proof -
  have le: "b_end bip < a_start bip" "a_start bip < a_end bip" "length (buff bip) = BIP_BUFFER_SIZE" "can_read bip"
    using ok w a by (auto simp: bip_ok_def BIP_BUFFER_SIZE_def)
  have k: "k = min (a_start bip - b_end bip) (length src)" using le a by (simp add: k_def length_content [OF ok])
  then have kk: "0 < k" "b_end bip + k \<le> a_start bip" "length (take k src) = k" using le assms(4) by auto
  define b where "b = take (b_end bip) (buff bip) @ take k src @ drop (b_end bip + k) (buff bip)"
  have lb: "b_end bip + k \<le> length (buff bip)" using kk(2) le a by linarith
  have m: "memcpy_to (b_end bip) (take k src) (buff bip) = Inr b"
    using lb kk(3) by (simp add: memcpy_to_def b_def)
  define b1 where "b1 = bip\<lparr>buff := b, b_end := b_end bip + k\<rparr>"
  define bip' where "bip' = (if b_end bip + k = a_start bip then b1\<lparr>can_write := False, evt_write := False\<rparr> else b1)"
  have "write_b n bip src = Inr (int (n + k), None, bip')"
    using assms(4) le kk(1) m by (simp add: write_b_def Let_def k [symmetric] write_exit_def bip'_def b1_def)
  moreover have "bip_ok bip'"
    using ok w a kk lb le by (auto simp: bip_ok_def bip'_def b1_def b_def)
  moreover have "content bip' = content bip @ take k src"
  proof -
    have "drop (a_start bip) b = drop (a_start bip) (buff bip)" using kk(2,3) lb by (simp add: b_def drop_append)
    moreover have "take (b_end bip + k) b = take (b_end bip) (buff bip) @ take k src" using kk(3) lb by (simp add: b_def)
    ultimately have "content b1 = content bip @ take k src" by (simp add: content_def b1_def)
    moreover have "content bip' = content b1" by (simp add: content_def bip'_def)
    ultimately show ?thesis by simp
  qed
  moreover have "closed bip' = closed bip" by (simp add: bip'_def b1_def)
  ultimately show thesis by (rule that)
qed

lemma bip_write_exec_ok:
  assumes ok: "bip_ok bip" and w: "can_write bip" and "src \<noteq> []"
  defines "k \<equiv> min (length src) (BIP_BUFFER_SIZE - length (content bip))"
  obtains bip' where "bip_write_exec bip src = Inr (int k, None, bip')" "bip_ok bip'" "content bip' = content bip @ take k src" "closed bip' = closed bip"
proof (cases "a_end bip < BIP_BUFFER_SIZE")
  case False
  then have "a_end bip = BIP_BUFFER_SIZE" using ok by (simp add: bip_ok_def)
  from write_b_ok [OF ok w this assms(3), of 0] show thesis using that False by (auto simp: bip_write_exec_def k_def)
next
  case True
  define n where "n = min (BIP_BUFFER_SIZE - a_end bip) (length src)"
  have b0: "b_end bip = 0" "a_start bip \<le> a_end bip" "length (buff bip) = BIP_BUFFER_SIZE" using ok True by (auto simp: bip_ok_def)
  have n: "0 < n" "a_end bip + n \<le> BIP_BUFFER_SIZE" "length (take n src) = n" using True assms(3) by (auto simp: n_def)
  define b where "b = take (a_end bip) (buff bip) @ take n src @ drop (a_end bip + n) (buff bip)"
  have m: "memcpy_to (a_end bip) (take n src) (buff bip) = Inr b" using n b0 by (simp add: memcpy_to_def b_def)
  define b1 where "b1 = bip\<lparr>buff := b, a_end := a_end bip + n\<rparr>"
  have c1: "content b1 = content bip @ take n src"
    using append_region [of "a_start bip" "a_end bip" "take n src" "buff bip"] b0 n by (simp add: content_def b1_def b_def)
  have lb: "length b = BIP_BUFFER_SIZE" using n b0 by (simp add: b_def)
  have e: "bip_write_exec bip src =
      (if a_end bip + n = BIP_BUFFER_SIZE \<and> a_start bip = 0 then write_exit n (b1\<lparr>can_write := False, evt_write := False\<rparr>) else write_b n b1 (drop n src))"
    using True m by (simp add: bip_write_exec_def Let_def n_def [symmetric] b1_def)
  have lc: "length (content bip) = a_end bip - a_start bip" using length_content [OF ok] b0 by simp
  show thesis
  proof (cases "a_end bip + n = BIP_BUFFER_SIZE \<and> 0 < a_start bip")
    case True
    then have ok1: "bip_ok b1" "can_write b1" "a_end b1 = BIP_BUFFER_SIZE" using ok w n lb b0 by (auto simp: bip_ok_def b1_def)
    have n': "n = BIP_BUFFER_SIZE - a_end bip" using True by linarith
    show thesis
    proof (cases "drop n src = []")
      case True
      then have "k = n" using n' lc b0 by (simp add: k_def n_def)
      moreover have "bip_write_exec bip src = Inr (int n, None, b1)"
        using e \<open>a_end bip + n = BIP_BUFFER_SIZE \<and> 0 < a_start bip\<close> True n ok1 by (auto simp: write_b_def write_exit_def bip_ok_def b1_def)
      ultimately show thesis using that ok1 c1 by (simp add: b1_def)
    next
      case False
      obtain bip' where "write_b n b1 (drop n src) = Inr (int (n + (k - n)), None, bip')" "bip_ok bip'"
        "content bip' = content b1 @ take (k - n) (drop n src)" "closed bip' = closed b1"
      proof -
        have "min (length (drop n src)) (BIP_BUFFER_SIZE - length (content b1)) = k - n"
          using c1 n(3) by (simp add: k_def)
        then show thesis using write_b_ok [OF ok1 False, of n] that by metis
      qed
      moreover have "n \<le> k" using n' lc b0(2) n(3) unfolding k_def by auto
      moreover from this have "take n src @ take (k - n) (drop n src) = take k src" by (metis le_add_diff_inverse take_add)
      ultimately show thesis using that e True c1 by (simp add: b1_def)
    qed
  next
    case False
    then have kn: "k = n" "a_start bip = 0 \<and> a_end bip + n = BIP_BUFFER_SIZE \<or> a_end bip + n < BIP_BUFFER_SIZE \<and> drop n src = []"
      using lc n(2) b0 by (auto simp: k_def n_def)
    define b2 where "b2 = (if a_end bip + n = BIP_BUFFER_SIZE then b1\<lparr>can_write := False, evt_write := False\<rparr> else b1)"
    define b3 where "b3 = (if \<not> can_read b2 then b2\<lparr>can_read := True, evt_read := True\<rparr> else b2)"
    have "bip_write_exec bip src = Inr (int n, None, b3)"
      using e kn(2) n(1) by (auto simp: write_b_def write_exit_def b2_def b3_def)
    moreover have "bip_ok b3" using ok w n lb b0 kn(2) by (auto simp: bip_ok_def b3_def b2_def b1_def)
    moreover have "content b3 = content b1" by (simp add: content_def b3_def b2_def)
    ultimately show thesis using that c1 kn(1) by (simp add: b3_def b2_def b1_def)
  qed
qed

section \<open>Reading takes from the front\<close>

lemma memcpy_from_simps: "pos + n \<le> length b \<Longrightarrow> memcpy_from pos n b = Inr (take n (drop pos b))"
  by (simp add: memcpy_from_def)

text \<open>Region A is used up: what was region B becomes region A.\<close>

lemma read_b_ok:
  assumes ok: "bip_ok bip" and a: "a_start bip < a_end bip" and "dst \<noteq> []"
  defines "rest \<equiv> take (b_end bip) (buff bip)"
  obtains bip' where "read_b dst (bip\<lparr>a_start := a_end bip\<rparr>) len = Inr (int (length (dst @ take len rest)), None, dst @ take len rest, bip')"
    "bip_ok bip'" "content bip' = drop len rest" "closed bip' = closed bip"
proof -
  have f: "length (buff bip) = BIP_BUFFER_SIZE" "b_end bip < a_end bip" "a_end bip \<le> BIP_BUFFER_SIZE" using ok a by (auto simp: bip_ok_def)
  have ev: "can_read bip" "evt_read bip" "can_write bip \<longrightarrow> evt_write bip" "closed bip \<or> (evt_write bip \<longrightarrow> can_write bip)" using ok a by (auto simp: bip_ok_def)
  define n where "n = min (b_end bip) len"
  define b0 where "b0 = bip\<lparr>a_start := 0, a_end := b_end bip, b_end := 0\<rparr>"
  define b1 where "b1 = (if n < b_end bip then b0\<lparr>a_start := n\<rparr> else b0\<lparr>a_start := 0, a_end := 0, can_read := False, evt_read := False\<rparr>)"
  define b2 where "b2 = (if \<not> can_write b1 then b1\<lparr>can_write := True, evt_write := True\<rparr> else b1)"
  have t: "take len rest = take n (buff bip)" using f by (simp add: rest_def n_def min.commute)
  have "memcpy_from 0 n (buff bip) = Inr (take n (buff bip))" using f by (simp add: memcpy_from_def n_def)
  then have "read_b dst (bip\<lparr>a_start := a_end bip\<rparr>) len = read_exit (dst @ take len rest) b1"
  proof (cases "b_end bip = 0")
    case True
    then have "b1 = bip\<lparr>a_start := 0, a_end := 0, b_end := 0, can_read := False, evt_read := False\<rparr>"
      by (cases bip) (simp add: b1_def b0_def n_def)
    then show ?thesis using True by (simp add: read_b_def Let_def rest_def)
  qed (use t in \<open>simp add: read_b_def Let_def n_def [symmetric] b1_def b0_def\<close>)
  then have "read_b dst (bip\<lparr>a_start := a_end bip\<rparr>) len = Inr (int (length (dst @ take len rest)), None, dst @ take len rest, b2)"
    using assms(3) by (simp add: read_exit_def b2_def)
  moreover have "bip_ok b2" using f ev by (auto simp: bip_ok_def b2_def b1_def b0_def BIP_BUFFER_SIZE_def)
  moreover have "content b2 = drop len rest"
  proof -
    have "content b2 = content b1" by (simp add: content_def b2_def)
    also have "\<dots> = drop len rest" using f by (auto simp: content_def b1_def b0_def rest_def n_def drop_take min_def)
    finally show ?thesis .
  qed
  moreover have "closed b2 = closed bip" by (simp add: b2_def b1_def b0_def)
  ultimately show thesis by (rule that)
qed

lemma bip_read_exec_ok:
  assumes ok: "bip_ok bip" and r: "can_read bip" and "0 < len"
  obtains bip' where "bip_read_exec bip len = Inr (int (length (take len (content bip))), None, take len (content bip), bip')"
    "bip_ok bip'" "content bip' = drop len (content bip)" "closed bip' = closed bip"
proof -
  have f: "length (buff bip) = BIP_BUFFER_SIZE" "a_start bip < a_end bip" "a_end bip \<le> BIP_BUFFER_SIZE" "b_end bip \<le> a_start bip" using ok r by (auto simp: bip_ok_def)
  define n where "n = min (a_end bip - a_start bip) len"
  define ra where "ra = take (a_end bip - a_start bip) (drop (a_start bip) (buff bip))"
  define rb where "rb = take (b_end bip) (buff bip)"
  have c: "content bip = ra @ rb" "length ra = a_end bip - a_start bip" using f by (simp_all add: content_def ra_def rb_def)
  have bs: "memcpy_from (a_start bip) n (buff bip) = Inr (take n ra)"
    using f by (simp add: memcpy_from_def n_def ra_def)
  have n: "0 < n" using f assms(3) by (simp add: n_def)
  have e: "bip_read_exec bip len = (if a_start bip + n < a_end bip then read_exit (take n ra) (bip\<lparr>a_start := a_start bip + n\<rparr>)
      else read_b (take n ra) (bip\<lparr>a_start := a_start bip + n\<rparr>) (len - n))"
    using f bs by (simp add: bip_read_exec_def Let_def n_def [symmetric])
  show thesis
  proof (cases "a_start bip + n < a_end bip")
    case True
    then have nl: "n = len" by (simp add: n_def min_def split: if_splits)
    define b1 where "b1 = bip\<lparr>a_start := a_start bip + n\<rparr>"
    define b2 where "b2 = (if \<not> can_write b1 then b1\<lparr>can_write := True, evt_write := True\<rparr> else b1)"
    have ne: "take n ra \<noteq> []" "take len (content bip) = take n ra" using n c True nl by auto
    have "bip_read_exec bip len = Inr (int (length (take len (content bip))), None, take len (content bip), b2)"
      using e True ne by (simp add: read_exit_def b2_def b1_def)
    moreover have "bip_ok b2" using ok f n True by (auto simp: bip_ok_def b2_def b1_def)
    moreover have "content b2 = drop len (content bip)"
    proof -
      have "content b2 = content b1" by (simp add: content_def b2_def)
      also have "\<dots> = drop n ra @ rb" by (simp add: content_def b1_def ra_def rb_def drop_take add.commute)
      finally show ?thesis using c True nl by simp
    qed
    moreover have "closed b2 = closed bip" by (simp add: b2_def b1_def)
    ultimately show thesis by (rule that)
  next
    case False
    then have nl: "n = a_end bip - a_start bip" "n \<le> len" "a_start bip + n = a_end bip" using f by (auto simp: n_def)
    then have ra: "take n ra = ra" "ra \<noteq> []" using c n by auto
    obtain bip' where "read_b ra (bip\<lparr>a_start := a_end bip\<rparr>) (len - n) = Inr (int (length (ra @ take (len - n) rb)), None, ra @ take (len - n) rb, bip')"
      "bip_ok bip'" "content bip' = drop (len - n) rb" "closed bip' = closed bip"
      using read_b_ok [OF ok f(2) ra(2)] unfolding rb_def by blast
    then show thesis using that e nl c ra by simp
  qed
qed

section \<open>A bounded queue between two threads\<close>

text \<open>Calls of the two threads in any order: the bytes accepted and the bytes delivered.\<close>

inductive queue_run ::
  "('q \<Rightarrow> byte list \<Rightarrow> (int \<times> errno option \<times> 'q) outcome option) \<Rightarrow> ('q \<Rightarrow> int \<Rightarrow> (int \<times> errno option \<times> byte list \<times> 'q) outcome option) \<Rightarrow>
   ('q \<Rightarrow> 'q) \<Rightarrow> 'q \<Rightarrow> byte list \<Rightarrow> byte list \<Rightarrow> 'q \<Rightarrow> bool" for wr rd cls q
where
  start: "queue_run wr rd cls q [] [] q"
| wrote: "queue_run wr rd cls q i out q' \<Longrightarrow> wr q' src = Some (Inr (n, e, q'')) \<Longrightarrow> queue_run wr rd cls q (i @ take (nat n) src) out q''"
| got: "queue_run wr rd cls q i out q' \<Longrightarrow> rd q' n = Some (Inr (k, e, bs, q'')) \<Longrightarrow> queue_run wr rd cls q i (out @ bs) q''"
| shut: "queue_run wr rd cls q i out q' \<Longrightarrow> queue_run wr rd cls q i out (cls q')"

text \<open>
  The contract: \<open>wr\<close> accepts as much as there is room for, \<open>rd\<close> returns as much as there is; they wait (\<open>None\<close>) only when the queue is
  full or empty and open.
\<close>

locale byte_queue =
  fixes ok :: "'q \<Rightarrow> bool" and bytes_of :: "'q \<Rightarrow> byte list" and is_closed :: "'q \<Rightarrow> bool" and cap :: nat
    and wr :: "'q \<Rightarrow> byte list \<Rightarrow> (int \<times> errno option \<times> 'q) outcome option"
    and rd :: "'q \<Rightarrow> int \<Rightarrow> (int \<times> errno option \<times> byte list \<times> 'q) outcome option"
    and cls :: "'q \<Rightarrow> 'q"
  assumes cap: "ok q \<Longrightarrow> length (bytes_of q) \<le> cap"
    and wr_room: "ok q \<Longrightarrow> src \<noteq> [] \<Longrightarrow> length (bytes_of q) < cap \<Longrightarrow>
      \<exists>q'. wr q src = Some (Inr (int (min (length src) (cap - length (bytes_of q))), None, q')) \<and> ok q' \<and>
        bytes_of q' = bytes_of q @ take (cap - length (bytes_of q)) src \<and> is_closed q' = is_closed q"
    and wr_full: "ok q \<Longrightarrow> src \<noteq> [] \<Longrightarrow> length (bytes_of q) = cap \<Longrightarrow>
      wr q src = (if is_closed q then Some (Inr (- 1, Some EPIPE, q)) else None)"
    and wr_none: "wr q [] = Some (Inr (0, None, q))"
    and rd_some: "ok q \<Longrightarrow> 0 < n \<Longrightarrow> bytes_of q \<noteq> [] \<Longrightarrow>
      \<exists>q'. rd q n = Some (Inr (int (length (take (nat n) (bytes_of q))), None, take (nat n) (bytes_of q), q')) \<and> ok q' \<and>
        bytes_of q' = drop (nat n) (bytes_of q) \<and> is_closed q' = is_closed q"
    and rd_empty: "ok q \<Longrightarrow> 0 < n \<Longrightarrow> bytes_of q = [] \<Longrightarrow> rd q n = (if is_closed q then Some (Inr (- 1, Some EPIPE, [], q)) else None)"
    and rd_none: "n \<le> 0 \<Longrightarrow> rd q n = Some (Inr (0, None, [], q))"
    and cls_ok: "ok q \<Longrightarrow> ok (cls q) \<and> bytes_of (cls q) = bytes_of q \<and> is_closed (cls q)"
begin

lemma write_step:
  assumes "ok q" "wr q src = Some (Inr (n, e, q'))"
  shows "ok q' \<and> bytes_of q' = bytes_of q @ take (nat n) src"
proof (cases "src = []")
  case True
  then show ?thesis using assms wr_none [of q] by simp
next
  case False
  show ?thesis
  proof (cases "length (bytes_of q) < cap")
    case True
    from wr_room [OF assms(1) False True] assms(2) show ?thesis by (auto simp: min_def)
  next
    case room: False
    then have "length (bytes_of q) = cap" using cap [OF assms(1)] by simp
    from wr_full [OF assms(1) False this] assms show ?thesis by (simp split: if_splits)
  qed
qed

lemma read_step:
  assumes "ok q" "rd q n = Some (Inr (k, e, bs, q'))"
  shows "ok q' \<and> bytes_of q = bs @ bytes_of q'"
proof (cases "0 < n")
  case True
  show ?thesis
  proof (cases "bytes_of q = []")
    case False
    from rd_some [OF assms(1) True False] assms(2) show ?thesis by auto
  next
    case empty: True
    from rd_empty [OF assms(1) True this] assms empty show ?thesis by (simp split: if_splits)
  qed
next
  case False
  then show ?thesis using assms rd_none [of n q] by simp
qed

text \<open>First in, first out, whatever the interleaving.\<close>

lemma run_fifo: "queue_run wr rd cls q i out q' \<Longrightarrow> ok q \<Longrightarrow> ok q' \<and> bytes_of q @ i = out @ bytes_of q'"
proof (induction rule: queue_run.induct)
  case (wrote i out q' src n e q'')
  then show ?case using write_step [of q' src n e q''] by (metis append.assoc)
next
  case (got i out q' n k e bs q'')
  then show ?case using read_step [of q' n k e bs q''] by (metis append.assoc)
next
  case (shut i out q')
  then show ?case using cls_ok by metis
qed simp

lemma no_fault: "ok q \<Longrightarrow> wr q src \<noteq> Some (Inl f) \<and> rd q n \<noteq> Some (Inl f)"
proof -
  assume q: "ok q"
  have "wr q src \<noteq> Some (Inl f)"
    using wr_none [of q] wr_room [OF q, of src] wr_full [OF q, of src] cap [OF q]
    by (cases "src = []"; cases "length (bytes_of q) < cap") (auto split: if_splits)
  moreover have "rd q n \<noteq> Some (Inl f)"
    using rd_none [of n q] rd_some [OF q, of n] rd_empty [OF q, of n] by (cases "0 < n"; cases "bytes_of q = []") (auto split: if_splits)
  ultimately show ?thesis ..
qed

text \<open>The two threads never wait for each other.\<close>

lemma not_both_wait: "ok q \<Longrightarrow> 0 < cap \<Longrightarrow> wr q src = None \<Longrightarrow> 0 < n \<Longrightarrow> rd q n \<noteq> None"
  by (metis length_greater_0_conv option.distinct(1) rd_some wr_none wr_room cap le_neq_implies_less)

end

interpretation bip: byte_queue bip_ok content closed BIP_BUFFER_SIZE "bip_buffer_write True" "bip_buffer_read True" bip_buffer_close
proof unfold_locales
  fix q and src :: "byte list" assume q: "bip_ok q" "src \<noteq> []"
  { assume "length (content q) < BIP_BUFFER_SIZE"
    then have w: "can_write q" using can_write_content [OF q(1)] by simp
    obtain q' where "bip_write_exec q src = Inr (int (min (length src) (BIP_BUFFER_SIZE - length (content q))), None, q')" "bip_ok q'"
      "content q' = content q @ take (min (length src) (BIP_BUFFER_SIZE - length (content q))) src" "closed q' = closed q"
      by (rule bip_write_exec_ok [OF q(1) w q(2)])
    then show "\<exists>q'. bip_buffer_write True q src =
        Some (Inr (int (min (length src) (BIP_BUFFER_SIZE - length (content q))), None, q')) \<and> bip_ok q' \<and>
      content q' = content q @ take (BIP_BUFFER_SIZE - length (content q)) src \<and> closed q' = closed q"
      using w q(2) by (intro exI [of _ q']) (simp add: bip_buffer_write_def min_def) }
  { assume "length (content q) = BIP_BUFFER_SIZE"
    then show "bip_buffer_write True q src = (if closed q then Some (Inr (- 1, Some EPIPE, q)) else None)"
      using can_write_content [OF q(1)] q(2) by (simp add: bip_buffer_write_def) }
next
  fix q n assume q: "bip_ok q" "(0 :: int) < n"
  { assume "content q \<noteq> []"
    then have r: "can_read q" using can_read_content [OF q(1)] by simp
    have "0 < nat n" using q(2) by simp
    then obtain q' where "bip_read_exec q (nat n) = Inr (int (length (take (nat n) (content q))), None, take (nat n) (content q), q')" "bip_ok q'"
      "content q' = drop (nat n) (content q)" "closed q' = closed q" by (rule bip_read_exec_ok [OF q(1) r])
    then show "\<exists>q'. bip_buffer_read True q n =
        Some (Inr (int (length (take (nat n) (content q))), None, take (nat n) (content q), q')) \<and> bip_ok q' \<and>
      content q' = drop (nat n) (content q) \<and> closed q' = closed q"
      using r q(2) by (intro exI [of _ q']) (simp add: bip_buffer_read_def) }
  { assume "content q = []"
    then show "bip_buffer_read True q n = (if closed q then Some (Inr (- 1, Some EPIPE, [], q)) else None)"
      using can_read_content [OF q(1)] q(2) by (simp add: bip_buffer_read_def) }
qed (auto simp: bip_buffer_write_def bip_buffer_read_def dest: content_bounds bip_close_ok)

text \<open>
  C6: The circular buffer is a bounded first-in first-out queue: however the calls of the writer and the reader are interleaved, the bytes delivered
  and those still in the buffer are the bytes accepted, in order; no index leaves the array and no assertion fails; and the
  writer and the reader never wait at the same time.
\<close>

theorem bip_buffer_fifo:
  assumes "length junk = BIP_BUFFER_SIZE"
    and "queue_run (bip_buffer_write True) (bip_buffer_read True) bip_buffer_close (bip_buffer_init junk) i out q"
  shows "i = out @ content q \<and> length (content q) \<le> BIP_BUFFER_SIZE \<and>
    bip_buffer_write True q src \<noteq> Some (Inl f) \<and> bip_buffer_read True q n \<noteq> Some (Inl f) \<and>
    (0 < n \<and> bip_buffer_write True q src = None \<longrightarrow> bip_buffer_read True q n \<noteq> None)"
proof -
  have ok: "bip_ok (bip_buffer_init junk)" "content (bip_buffer_init junk) = []" using bip_init_ok [OF assms(1)] by auto
  have q: "bip_ok q" "i = out @ content q" using bip.run_fifo [OF assms(2) ok(1)] ok(2) by auto
  have "0 < BIP_BUFFER_SIZE" by (simp add: BIP_BUFFER_SIZE_def)
  then show ?thesis using q bip.cap [OF q(1)] bip.no_fault [OF q(1)] bip.not_both_wait [OF q(1), of src n] by blast
qed

theorem bip_buffer_fifo_witness:
  "\<exists>q. queue_run (bip_buffer_write True) (bip_buffer_read True) bip_buffer_close (bip_buffer_init (replicate 4096 CHR ''x'')) ''abc'' ''ab'' q \<and> content q = ''c''"
proof -
  let ?b = "bip_buffer_init (replicate 4096 CHR ''x'')"
  have ok: "bip_ok ?b" "content ?b = []" using bip_init_ok [of "replicate 4096 CHR ''x''"] by (auto simp: BIP_BUFFER_SIZE_def)
  obtain q1 where q1: "bip_buffer_write True ?b ''abc'' = Some (Inr (3, None, q1))" "bip_ok q1" "content q1 = ''abc''"
    using bip.wr_room [OF ok(1), of "''abc''"] ok(2) by (auto simp: BIP_BUFFER_SIZE_def)
  obtain q2 where q2: "bip_buffer_read True q1 2 = Some (Inr (2, None, ''ab'', q2))"
    using bip.rd_some [OF q1(2), of 2] q1(3) by auto
  have "queue_run (bip_buffer_write True) (bip_buffer_read True) bip_buffer_close ?b ([] @ take (nat 3) ''abc'') ([] @ ''ab'') q2"
    by (rule queue_run.got, rule queue_run.wrote, rule queue_run.start, rule q1(1), rule q2)
  then have r: "queue_run (bip_buffer_write True) (bip_buffer_read True) bip_buffer_close ?b ''abc'' ''ab'' q2" by simp
  have "length (replicate 4096 CHR ''x'') = BIP_BUFFER_SIZE" by (simp add: BIP_BUFFER_SIZE_def)
  from bip_buffer_fifo [OF this r] r show ?thesis by auto
qed

end
