(* ===== verification/Win_Handles.thy ===== *)
theory Win_Handles
  imports Bip_Buffer
begin

text \<open>
  The descriptors of \<open>sysdeps_win32.cpp\<close>: a table of 128 file handle records, each of one of three classes (a file, a Winsock socket, one
  end of an emulated socket pair), and the operations of \<open>sysdeps.h\<close> on them. A record holds a union; reading another
  member than the one that was stored is a fault. A file handle pointer is the index in the table.

  The answers of the system are the fields of \<open>winos\<close>, which is an argument of every call, so that each call may get other answers:
  an invalid handle or socket is -1, \<open>None\<close> a failed call. The names of the records (only printed) and \<open>WSAStartup\<close> are left out.
\<close>

definition EIO :: errno where "EIO = Eother 5"
definition ENOMEM :: errno where "ENOMEM = Eother 12"
definition ENOTDIR :: errno where "ENOTDIR = Eother 20"
definition EINVAL :: errno where "EINVAL = Eother 22"
definition ESPIPE :: errno where "ESPIPE = Eother 29"

datatype fh_class = Fh_file_class | Fh_socket_class | Fh_socketpair_class

datatype fh_union = U_handle int | U_socket int | U_pair addr

record FHRec =
  clazz :: "fh_class option"
  used :: bool
  eof :: bool
  fh_u :: fh_union
  fh_event :: int
  fh_mask :: int

record SocketPairRec =
  a2b_bip :: BipBuffer
  b2a_bip :: BipBuffer
  a_fd :: "nat option"
  pair_used :: int

record winst =
  fhs :: "FHRec list"
  fh_count :: nat
  sockpairs :: "addr \<Rightarrow> SocketPairRec option"
  w_errno :: errno
  closed_handles :: "int list"
  closed_sockets :: "int list"

record winos =
  CreateFileW :: "nat list \<Rightarrow> nat \<Rightarrow> bool \<Rightarrow> int"
  last_error :: int
  ReadFile :: "int \<Rightarrow> int \<Rightarrow> byte list option"
  WriteFile :: "int \<Rightarrow> byte list \<Rightarrow> nat option"
  SetFilePointer :: "int \<Rightarrow> int \<Rightarrow> nat \<Rightarrow> int option"
  sock_recv :: "int \<Rightarrow> int \<Rightarrow> byte list option"
  sock_send :: "int \<Rightarrow> byte list \<Rightarrow> nat option"
  wsa_error :: int
  WSACreateEvent :: int
  new_socket :: int
  host_known :: bool
  connect_ok :: bool
  bind_ok :: bool
  listen_ok :: bool
  accepted :: int
  malloc_pair :: addr
  pair_junk :: "byte list \<times> byte list"
  wait_ok :: bool
  wide :: "string \<Rightarrow> nat list"

definition WIN32_FH_BASE :: int where "WIN32_FH_BASE = 100"
definition WIN32_MAX_FHS :: nat where "WIN32_MAX_FHS = 128"

section \<open>The table\<close>

definition fh_at :: "nat \<Rightarrow> winst \<Rightarrow> FHRec outcome" where
  "fh_at f st = (if f < length (fhs st) then Inr (fhs st ! f) else Inl (Bad_access ''FHRec''))"

definition upd_fh :: "nat \<Rightarrow> (FHRec \<Rightarrow> FHRec) \<Rightarrow> winst \<Rightarrow> winst" where
  "upd_fh f g st = st\<lparr>fhs := (fhs st)[f := g (fhs st ! f)]\<rparr>"

definition fh_from_int :: "int \<Rightarrow> winst \<Rightarrow> nat option \<times> winst" where
  "fh_from_int fd st =
     (let i = fd - WIN32_FH_BASE in
      if i < 0 \<or> i \<ge> int (fh_count st) then (None, st\<lparr>w_errno := EBADF\<rparr>)
      else if \<not> used (fhs st ! nat i) then (None, st\<lparr>w_errno := EBADF\<rparr>)
      else (Some (nat i), st))"

definition fh_to_int :: "nat \<Rightarrow> winst \<Rightarrow> int" where
  "fh_to_int f st = (if f < WIN32_MAX_FHS \<and> used (fhs st ! f) then int f + WIN32_FH_BASE else - 1)"

definition fh_init :: "winos \<Rightarrow> fh_class \<Rightarrow> FHRec \<Rightarrow> FHRec" where
  "fh_init os c r =
     (case c of
        Fh_file_class \<Rightarrow> r\<lparr>fh_u := U_handle (- 1)\<rparr>
      | Fh_socket_class \<Rightarrow> r\<lparr>fh_u := U_socket (- 1), fh_event := WSACreateEvent os, fh_mask := 0\<rparr>
      | Fh_socketpair_class \<Rightarrow> r\<lparr>fh_u := U_pair NULL\<rparr>)"

definition free_slot :: "winst \<Rightarrow> nat option" where
  "free_slot st = find (\<lambda>nn. clazz (fhs st ! nn) = None) [0..<WIN32_MAX_FHS]"

definition fh_alloc :: "winos \<Rightarrow> fh_class \<Rightarrow> winst \<Rightarrow> nat option \<times> winst" where
  "fh_alloc os c st =
     (let (f, st) =
        (if fh_count st < WIN32_MAX_FHS then (Some (fh_count st), st\<lparr>fh_count := fh_count st + 1\<rparr>)
         else (free_slot st, st))
      in case f of
           None \<Rightarrow> (None, st)
         | Some f \<Rightarrow> (Some f, upd_fh f (\<lambda>r. fh_init os c (r\<lparr>clazz := Some c, used := True, eof := False\<rparr>)) st))"

section \<open>Members of the union\<close>

definition fh_handle :: "FHRec \<Rightarrow> int outcome" where
  "fh_handle r = (case fh_u r of U_handle h \<Rightarrow> Inr h | _ \<Rightarrow> Inl (Bad_access ''union''))"

definition fh_socket :: "FHRec \<Rightarrow> int outcome" where
  "fh_socket r = (case fh_u r of U_socket s \<Rightarrow> Inr s | _ \<Rightarrow> Inl (Bad_access ''union''))"

definition fh_pair :: "FHRec \<Rightarrow> addr outcome" where
  "fh_pair r = (case fh_u r of U_pair p \<Rightarrow> Inr p | _ \<Rightarrow> Inl (Bad_access ''union''))"

abbreviation pair_at :: "winst \<Rightarrow> addr \<Rightarrow> SocketPairRec outcome" where
  "pair_at st p \<equiv> deref ''SocketPairRec'' (sockpairs st) p"

section \<open>Closing\<close>

definition fh_file_close :: "nat \<Rightarrow> winst \<Rightarrow> winst outcome" where
  "fh_file_close f st =
     bindE (fh_at f st) (\<lambda>r. bindE (fh_handle r) (\<lambda>h.
       Inr (upd_fh f (\<lambda>r. r\<lparr>fh_u := U_handle (- 1)\<rparr>) (st\<lparr>closed_handles := closed_handles st @ [h]\<rparr>))))"

definition fh_socket_close :: "nat \<Rightarrow> winst \<Rightarrow> winst outcome" where
  "fh_socket_close f st =
     bindE (fh_at f st) (\<lambda>r. bindE (fh_socket r) (\<lambda>s.
       Inr (upd_fh f (\<lambda>r. r\<lparr>fh_u := U_socket (- 1), fh_mask := 0\<rparr>)
         (st\<lparr>closed_sockets := closed_sockets st @ [s], closed_handles := closed_handles st @ [fh_event r]\<rparr>))))"

definition fh_socketpair_close :: "nat \<Rightarrow> winst \<Rightarrow> winst outcome" where
  "fh_socketpair_close f st =
     bindE (fh_at f st) (\<lambda>r. bindE (fh_pair r) (\<lambda>p.
       if p = NULL then Inr st
       else bindE (pair_at st p) (\<lambda>x.
         let x = (if a_fd x = Some f then x\<lparr>a_fd := None\<rparr> else x);
             x = x\<lparr>b2a_bip := bip_buffer_close (b2a_bip x), a2b_bip := bip_buffer_close (a2b_bip x), pair_used := pair_used x - 1\<rparr>
         in Inr (upd_fh f (\<lambda>r. r\<lparr>fh_u := U_pair NULL\<rparr>)
                  (st\<lparr>sockpairs := (sockpairs st)(p := (if pair_used x = 0 then None else Some x))\<rparr>)))))"

definition fh_close :: "nat \<Rightarrow> winst \<Rightarrow> winst outcome" where
  "fh_close f st =
     bindE (fh_at f st) (\<lambda>r.
       if used r then
         bindE (case clazz r of
                  None \<Rightarrow> Inl (Bad_access ''clazz'')
                | Some Fh_file_class \<Rightarrow> fh_file_close f st
                | Some Fh_socket_class \<Rightarrow> fh_socket_close f st
                | Some Fh_socketpair_class \<Rightarrow> fh_socketpair_close f st) (\<lambda>st.
           Inr (upd_fh f (\<lambda>r. r\<lparr>used := False, eof := False, clazz := None\<rparr>) st))
       else Inr st)"

text \<open>\<open>_fh_close\<close> of a pointer that may be null.\<close>

definition fh_close_ptr :: "nat option \<Rightarrow> winst \<Rightarrow> winst outcome" where
  "fh_close_ptr f st = (case f of None \<Rightarrow> Inl (Bad_access ''FHRec'') | Some f \<Rightarrow> fh_close f st)"

section \<open>Files\<close>

definition fh_file_read :: "winos \<Rightarrow> nat \<Rightarrow> int \<Rightarrow> winst \<Rightarrow> (int \<times> byte list \<times> winst) outcome" where
  "fh_file_read os f len st =
     bindE (fh_at f st) (\<lambda>r. bindE (fh_handle r) (\<lambda>h.
       case ReadFile os h len of
         None \<Rightarrow> Inr (- 1, [], st\<lparr>w_errno := EIO\<rparr>)
       | Some bs \<Rightarrow> Inr (int (length bs), bs, if int (length bs) < len then upd_fh f (\<lambda>r. r\<lparr>eof := True\<rparr>) st else st)))"

definition fh_file_write :: "winos \<Rightarrow> nat \<Rightarrow> byte list \<Rightarrow> winst \<Rightarrow> (int \<times> winst) outcome" where
  "fh_file_write os f buf st =
     bindE (fh_at f st) (\<lambda>r. bindE (fh_handle r) (\<lambda>h.
       case WriteFile os h buf of
         None \<Rightarrow> Inr (- 1, st\<lparr>w_errno := EIO\<rparr>)
       | Some n \<Rightarrow> Inr (int n, if n < length buf then upd_fh f (\<lambda>r. r\<lparr>eof := True\<rparr>) st else st)))"

definition fh_file_lseek :: "winos \<Rightarrow> nat \<Rightarrow> int \<Rightarrow> int \<Rightarrow> winst \<Rightarrow> (int \<times> winst) outcome" where
  "fh_file_lseek os f pos origin st =
     (if origin < 0 \<or> origin > 2 then Inr (- 1, st\<lparr>w_errno := EINVAL\<rparr>)
      else
        bindE (fh_at f st) (\<lambda>r. bindE (fh_handle r) (\<lambda>h.
          case SetFilePointer os h pos (nat origin) of
            None \<Rightarrow> Inr (- 1, st\<lparr>w_errno := EIO\<rparr>)
          | Some n \<Rightarrow> Inr (n, upd_fh f (\<lambda>r. r\<lparr>eof := False\<rparr>) st))))"

text \<open>The end of \<open>adb_open\<close> and \<open>adb_creat\<close>: \<open>h\<close> is what \<open>CreateFileW\<close> returned.\<close>

definition opened :: "winos \<Rightarrow> nat \<Rightarrow> int \<Rightarrow> winst \<Rightarrow> (int \<times> winst) outcome" where
  "opened os f h st =
     (let st = upd_fh f (\<lambda>r. r\<lparr>fh_u := U_handle h\<rparr>) st in
      if h = - 1 then
        bindE (fh_close f st) (\<lambda>st. Inr (- 1, st\<lparr>w_errno := (if last_error os = 3 then ENOTDIR else ENOENT)\<rparr>))
      else Inr (fh_to_int f st, st))"

text \<open>\<open>O_RDONLY\<close>, \<open>O_WRONLY\<close> and \<open>O_RDWR\<close> are 0, 1 and 2.\<close>

definition adb_open_win32 :: "winos \<Rightarrow> string \<Rightarrow> int \<Rightarrow> winst \<Rightarrow> (int \<times> winst) outcome" where
  "adb_open_win32 os path options st =
     (if options < 0 \<or> options > 2 then Inr (- 1, st\<lparr>w_errno := EINVAL\<rparr>)
      else
        case fh_alloc os Fh_file_class st of
          (None, st) \<Rightarrow> Inr (- 1, st\<lparr>w_errno := ENOMEM\<rparr>)
        | (Some f, st) \<Rightarrow> opened os f (CreateFileW os (wide os path) (nat options) False) st)"

text \<open>\<open>wstr.replace(2, 1, L"/")\<close> throws when the string is shorter than two characters.\<close>

definition replace_third :: "nat list \<Rightarrow> nat list outcome" where
  "replace_third w = (if length w < 2 then Inl (Fatal ''std::out_of_range'') else Inr (take 2 w @ [of_char CHR ''/''] @ drop 3 w))"

definition adb_creat_win32 :: "winos \<Rightarrow> string \<Rightarrow> winst \<Rightarrow> (int \<times> winst) outcome" where
  "adb_creat_win32 os path st =
     (case fh_alloc os Fh_file_class st of
        (None, st) \<Rightarrow> Inr (- 1, st\<lparr>w_errno := ENOMEM\<rparr>)
      | (Some f, st) \<Rightarrow> bindE (replace_third (wide os path)) (\<lambda>w. opened os f (CreateFileW os w 1 True) st))"

section \<open>Sockets\<close>

definition socket_errno :: "winos \<Rightarrow> errno" where
  "socket_errno os =
     (if wsa_error os = 0 then Eother 0 else if wsa_error os = 10035 then EAGAIN else if wsa_error os = 10004 then EINTR else EINVAL)"

definition fh_socket_read :: "winos \<Rightarrow> nat \<Rightarrow> int \<Rightarrow> winst \<Rightarrow> (int \<times> byte list \<times> winst) outcome" where
  "fh_socket_read os f len st =
     bindE (fh_at f st) (\<lambda>r. bindE (fh_socket r) (\<lambda>s.
       case sock_recv os s len of
         None \<Rightarrow> Inr (- 1, [], st\<lparr>w_errno := socket_errno os\<rparr>)
       | Some bs \<Rightarrow> Inr (int (length bs), bs, st)))"

definition fh_socket_write :: "winos \<Rightarrow> nat \<Rightarrow> byte list \<Rightarrow> winst \<Rightarrow> (int \<times> winst) outcome" where
  "fh_socket_write os f buf st =
     bindE (fh_at f st) (\<lambda>r. bindE (fh_socket r) (\<lambda>s.
       case sock_send os s buf of
         None \<Rightarrow> Inr (- 1, st\<lparr>w_errno := socket_errno os\<rparr>)
       | Some n \<Rightarrow> Inr (int n, st)))"

definition close_and_fail :: "nat \<Rightarrow> winst \<Rightarrow> (int \<times> winst) outcome" where
  "close_and_fail f st = bindE (fh_close f st) (\<lambda>st. Inr (- 1, st))"

definition set_socket :: "nat \<Rightarrow> int \<Rightarrow> winst \<Rightarrow> winst" where
  "set_socket f s st = upd_fh f (\<lambda>r. r\<lparr>fh_u := U_socket s\<rparr>) st"

definition socket_loopback_client :: "winos \<Rightarrow> winst \<Rightarrow> (int \<times> winst) outcome" where
  "socket_loopback_client os st =
     (case fh_alloc os Fh_socket_class st of
        (None, st) \<Rightarrow> Inr (- 1, st)
      | (Some f, st) \<Rightarrow>
          if new_socket os = - 1 then close_and_fail f st
          else
            let st = set_socket f (new_socket os) st in
            if \<not> connect_ok os then close_and_fail f st else Inr (fh_to_int f st, st))"

text \<open>\<open>bind\<close> and \<open>listen\<close>; \<open>stream\<close>: the type is \<open>SOCK_STREAM\<close>.\<close>

definition start_listening :: "winos \<Rightarrow> bool \<Rightarrow> nat \<Rightarrow> winst \<Rightarrow> (int \<times> winst) outcome" where
  "start_listening os stream f st =
     (if \<not> bind_ok os then close_and_fail f st
      else if stream \<and> \<not> listen_ok os then close_and_fail f st
      else Inr (fh_to_int f st, st))"

definition socket_loopback_server :: "winos \<Rightarrow> bool \<Rightarrow> winst \<Rightarrow> (int \<times> winst) outcome" where
  "socket_loopback_server os stream st =
     (case fh_alloc os Fh_socket_class st of
        (None, st) \<Rightarrow> Inr (- 1, st)
      | (Some f, st) \<Rightarrow>
          if new_socket os = - 1 then Inr (- 1, st)
          else start_listening os stream f (set_socket f (new_socket os) st))"

definition socket_network_client :: "winos \<Rightarrow> winst \<Rightarrow> (int \<times> winst) outcome" where
  "socket_network_client os st =
     (case fh_alloc os Fh_socket_class st of
        (None, st) \<Rightarrow> Inr (- 1, st)
      | (Some f, st) \<Rightarrow>
          if \<not> host_known os then close_and_fail f st
          else if new_socket os = - 1 then close_and_fail f st
          else
            let st = set_socket f (new_socket os) st in
            if \<not> connect_ok os then close_and_fail f st else Inr (fh_to_int f st, st))"

definition socket_network_client_timeout :: "winos \<Rightarrow> winst \<Rightarrow> (int \<times> winst) outcome" where
  "socket_network_client_timeout os st = socket_network_client os st"

definition socket_inaddr_any_server :: "winos \<Rightarrow> bool \<Rightarrow> winst \<Rightarrow> (int \<times> winst) outcome" where
  "socket_inaddr_any_server os stream st =
     (case fh_alloc os Fh_socket_class st of
        (None, st) \<Rightarrow> Inr (- 1, st)
      | (Some f, st) \<Rightarrow>
          if new_socket os = - 1 then close_and_fail f st
          else start_listening os stream f (set_socket f (new_socket os) st))"

definition adb_socket_accept :: "winos \<Rightarrow> int \<Rightarrow> winst \<Rightarrow> (int \<times> winst) outcome" where
  "adb_socket_accept os serverfd st =
     (case fh_from_int serverfd st of
        (None, st) \<Rightarrow> Inr (- 1, st)
      | (Some serverfh, st) \<Rightarrow>
          if clazz (fhs st ! serverfh) \<noteq> Some Fh_socket_class then Inr (- 1, st)
          else
            case fh_alloc os Fh_socket_class st of
              (None, st) \<Rightarrow> Inr (- 1, st)
            | (Some fh, st) \<Rightarrow>
                bindE (bindE (fh_at serverfh st) fh_socket) (\<lambda>_.
                  let st = set_socket fh (accepted os) st in
                  if accepted os = - 1 then close_and_fail fh st else Inr (fh_to_int fh st, st)))"

definition disable_tcp_nagle :: "int \<Rightarrow> winst \<Rightarrow> winst outcome" where
  "disable_tcp_nagle fd st =
     (case fh_from_int fd st of
        (None, st) \<Rightarrow> Inr st
      | (Some fh, st) \<Rightarrow>
          if clazz (fhs st ! fh) \<noteq> Some Fh_socket_class then Inr st else bindE (fh_socket (fhs st ! fh)) (\<lambda>_. Inr st))"

section \<open>Socket pairs\<close>

definition fh_socketpair_read :: "winos \<Rightarrow> nat \<Rightarrow> int \<Rightarrow> winst \<Rightarrow> (int \<times> byte list \<times> winst) outcome option" where
  "fh_socketpair_read os f len st =
     (case bindE (fh_at f st) fh_pair of
        Inl e \<Rightarrow> Some (Inl e)
      | Inr p \<Rightarrow>
          if p = NULL then Some (Inr (- 1, [], st))
          else case pair_at st p of
            Inl e \<Rightarrow> Some (Inl e)
          | Inr x \<Rightarrow>
              map_option (\<lambda>r. bindE r (\<lambda>(n, e, bs, bip).
                  let x = (if a_fd x = Some f then x\<lparr>b2a_bip := bip\<rparr> else x\<lparr>a2b_bip := bip\<rparr>);
                      st = (case e of None \<Rightarrow> st | Some e \<Rightarrow> st\<lparr>w_errno := e\<rparr>)
                  in Inr (n, bs, st\<lparr>sockpairs := (sockpairs st)(p \<mapsto> x)\<rparr>)))
                (bip_buffer_read (wait_ok os) (if a_fd x = Some f then b2a_bip x else a2b_bip x) len))"

definition fh_socketpair_write :: "winos \<Rightarrow> nat \<Rightarrow> byte list \<Rightarrow> winst \<Rightarrow> (int \<times> winst) outcome option" where
  "fh_socketpair_write os f buf st =
     (case bindE (fh_at f st) fh_pair of
        Inl e \<Rightarrow> Some (Inl e)
      | Inr p \<Rightarrow>
          if p = NULL then Some (Inr (- 1, st))
          else case pair_at st p of
            Inl e \<Rightarrow> Some (Inl e)
          | Inr x \<Rightarrow>
              map_option (\<lambda>r. bindE r (\<lambda>(n, e, bip).
                  let x = (if a_fd x = Some f then x\<lparr>a2b_bip := bip\<rparr> else x\<lparr>b2a_bip := bip\<rparr>);
                      st = (case e of None \<Rightarrow> st | Some e \<Rightarrow> st\<lparr>w_errno := e\<rparr>)
                  in Inr (n, st\<lparr>sockpairs := (sockpairs st)(p \<mapsto> x)\<rparr>)))
                (bip_buffer_write (wait_ok os) (if a_fd x = Some f then a2b_bip x else b2a_bip x) buf))"

definition adb_socketpair :: "winos \<Rightarrow> winst \<Rightarrow> (int \<times> (int \<times> int) \<times> winst) outcome" where
  "adb_socketpair os st =
     (let (fa, st) = fh_alloc os Fh_socketpair_class st;
          (fb, st) = fh_alloc os Fh_socketpair_class st;
          fail = bindE (fh_close_ptr fb st) (\<lambda>st. bindE (fh_close_ptr fa st) (\<lambda>st. Inr (- 1, (0, 0), st))) in
      case (fa, fb) of
        (Some fa, Some fb) \<Rightarrow>
          let p = malloc_pair os in
          if p = NULL then fail
          else
            let st = upd_fh fb (\<lambda>r. r\<lparr>fh_u := U_pair p\<rparr>) (upd_fh fa (\<lambda>r. r\<lparr>fh_u := U_pair p\<rparr>) st);
                sv = (fh_to_int fa st, fh_to_int fb st);
                x = \<lparr>a2b_bip = (bip_buffer_init (fst (pair_junk os)))\<lparr>fdin := fst sv, fdout := snd sv\<rparr>,
                     b2a_bip = (bip_buffer_init (snd (pair_junk os)))\<lparr>fdin := snd sv, fdout := fst sv\<rparr>,
                     a_fd = Some fa, pair_used = 2\<rparr>
            in Inr (0, sv, st\<lparr>sockpairs := (sockpairs st)(p \<mapsto> x)\<rparr>)
      | _ \<Rightarrow> fail)"

section \<open>The calls through the class\<close>

definition adb_read_win32 :: "winos \<Rightarrow> int \<Rightarrow> int \<Rightarrow> winst \<Rightarrow> (int \<times> byte list \<times> winst) outcome option" where
  "adb_read_win32 os fd len st =
     (case fh_from_int fd st of
        (None, st) \<Rightarrow> Some (Inr (- 1, [], st))
      | (Some f, st) \<Rightarrow>
          (case clazz (fhs st ! f) of
             None \<Rightarrow> Some (Inl (Bad_access ''clazz''))
           | Some Fh_file_class \<Rightarrow> Some (fh_file_read os f len st)
           | Some Fh_socket_class \<Rightarrow> Some (fh_socket_read os f len st)
           | Some Fh_socketpair_class \<Rightarrow> fh_socketpair_read os f len st))"

definition adb_write_win32 :: "winos \<Rightarrow> int \<Rightarrow> byte list \<Rightarrow> winst \<Rightarrow> (int \<times> winst) outcome option" where
  "adb_write_win32 os fd buf st =
     (case fh_from_int fd st of
        (None, st) \<Rightarrow> Some (Inr (- 1, st))
      | (Some f, st) \<Rightarrow>
          (case clazz (fhs st ! f) of
             None \<Rightarrow> Some (Inl (Bad_access ''clazz''))
           | Some Fh_file_class \<Rightarrow> Some (fh_file_write os f buf st)
           | Some Fh_socket_class \<Rightarrow> Some (fh_socket_write os f buf st)
           | Some Fh_socketpair_class \<Rightarrow> fh_socketpair_write os f buf st))"

text \<open>\<open>_fh_socket_lseek\<close> and \<open>_fh_socketpair_lseek\<close> only set \<open>errno\<close>.\<close>

definition adb_lseek_win32 :: "winos \<Rightarrow> int \<Rightarrow> int \<Rightarrow> int \<Rightarrow> winst \<Rightarrow> (int \<times> winst) outcome" where
  "adb_lseek_win32 os fd pos origin st =
     (case fh_from_int fd st of
        (None, st) \<Rightarrow> Inr (- 1, st)
      | (Some f, st) \<Rightarrow>
          (case clazz (fhs st ! f) of
             None \<Rightarrow> Inl (Bad_access ''clazz'')
           | Some Fh_file_class \<Rightarrow> fh_file_lseek os f pos origin st
           | Some Fh_socket_class \<Rightarrow> Inr (- 1, st\<lparr>w_errno := EPIPE\<rparr>)
           | Some Fh_socketpair_class \<Rightarrow> Inr (- 1, st\<lparr>w_errno := ESPIPE\<rparr>)))"

definition adb_shutdown_win32 :: "int \<Rightarrow> winst \<Rightarrow> (int \<times> winst) outcome" where
  "adb_shutdown_win32 fd st =
     (case fh_from_int fd st of
        (None, st) \<Rightarrow> Inr (- 1, st)
      | (Some f, st) \<Rightarrow> bindE (fh_socket (fhs st ! f)) (\<lambda>_. Inr (0, st)))"

definition adb_close_win32 :: "int \<Rightarrow> winst \<Rightarrow> (int \<times> winst) outcome" where
  "adb_close_win32 fd st =
     (case fh_from_int fd st of
        (None, st) \<Rightarrow> Inr (- 1, st)
      | (Some f, st) \<Rightarrow> bindE (fh_close f st) (\<lambda>st. Inr (0, st)))"

end
