(* ===== verification/Win_Handles_Props.thy ===== *)
theory Win_Handles_Props
  imports Win_Handles
begin

text \<open>
  The handle records are well-typed: the union of a record in use holds the member of its class, a socket pair lives exactly as long as one
  of its ends, and every call keeps that.
\<close>

section \<open>The invariant\<close>

text \<open>The record is one end of the pair \<open>p\<close>.\<close>

definition end_of :: "addr \<Rightarrow> FHRec \<Rightarrow> bool" where
  "end_of p r \<longleftrightarrow> clazz r = Some Fh_socketpair_class \<and> fh_u r = U_pair p"

definition ends :: "addr \<Rightarrow> FHRec list \<Rightarrow> int" where
  "ends p rs = int (length (filter (end_of p) rs))"

definition typed :: "(addr \<Rightarrow> SocketPairRec option) \<Rightarrow> FHRec \<Rightarrow> bool" where
  "typed ps r \<longleftrightarrow>
     (used r \<longleftrightarrow> clazz r \<noteq> None) \<and>
     (case clazz r of
        None \<Rightarrow> True
      | Some Fh_file_class \<Rightarrow> \<exists>h. fh_u r = U_handle h
      | Some Fh_socket_class \<Rightarrow> \<exists>s. fh_u r = U_socket s
      | Some Fh_socketpair_class \<Rightarrow> \<exists>p. fh_u r = U_pair p \<and> (p = NULL \<or> ps p \<noteq> None))"

definition pair_ok :: "FHRec list \<Rightarrow> addr \<Rightarrow> SocketPairRec \<Rightarrow> bool" where
  "pair_ok rs p x \<longleftrightarrow> p \<noteq> NULL \<and> bip_ok (a2b_bip x) \<and> bip_ok (b2a_bip x) \<and> pair_used x = ends p rs \<and> 0 < pair_used x"

definition fh_inv :: "winst \<Rightarrow> bool" where
  "fh_inv st \<longleftrightarrow>
     length (fhs st) = WIN32_MAX_FHS \<and> fh_count st \<le> WIN32_MAX_FHS \<and> (\<forall>i < WIN32_MAX_FHS. i \<ge> fh_count st \<longrightarrow> clazz (fhs st ! i) = None) \<and>
     (\<forall>r\<in>set (fhs st). typed (sockpairs st) r) \<and> (\<forall>p x. sockpairs st p = Some x \<longrightarrow> pair_ok (fhs st) p x)"

lemma length_filter_upd:
  assumes "i < length xs"
  shows "int (length (filter P (xs[i := v]))) = int (length (filter P xs)) - (if P (xs ! i) then 1 else 0) + (if P v then 1 else 0)"
  using assms
proof (induction xs arbitrary: i)
  case (Cons x xs)
  then show ?case by (cases i) (simp_all, force?)
qed simp

lemma ends_upd:
  "i < length rs \<Longrightarrow> ends p (rs[i := v]) = ends p rs - (if end_of p (rs ! i) then 1 else 0) + (if end_of p v then 1 else 0)"
  by (simp add: ends_def length_filter_upd)

lemma typed_at: "fh_inv st \<Longrightarrow> f < WIN32_MAX_FHS \<Longrightarrow> typed (sockpairs st) (fhs st ! f)"
  by (auto simp: fh_inv_def)

lemma fh_at_ok: "fh_inv st \<Longrightarrow> f < WIN32_MAX_FHS \<Longrightarrow> fh_at f st = Inr (fhs st ! f)"
  by (simp add: fh_at_def fh_inv_def)

lemma typed_mono: "typed ps r \<Longrightarrow> (\<And>p. ps p \<noteq> None \<Longrightarrow> ps' p \<noteq> None) \<Longrightarrow> typed ps' r"
  unfolding typed_def by (auto split: option.splits fh_class.splits)

text \<open>A record is replaced and the pairs with it.\<close>

lemma fh_inv_upd:
  assumes inv: "fh_inv st" and f: "f < WIN32_MAX_FHS" "f < fh_count st \<or> clazz r = None" and r: "typed ps r"
    and ps: "\<And>g. g < WIN32_MAX_FHS \<Longrightarrow> g \<noteq> f \<Longrightarrow> typed ps (fhs st ! g)" "\<And>p x. ps p = Some x \<Longrightarrow> pair_ok ((fhs st)[f := r]) p x"
    and st': "fhs st' = (fhs st)[f := r]" "sockpairs st' = ps" "fh_count st' = fh_count st"
  shows "fh_inv st'"
proof -
  have len: "length (fhs st) = WIN32_MAX_FHS" using inv by (simp add: fh_inv_def)
  have "typed ps q" if "q \<in> set ((fhs st)[f := r])" for q
  proof -
    from that obtain g where "g < WIN32_MAX_FHS" "q = (fhs st)[f := r] ! g" using len by (auto simp: in_set_conv_nth)
    then show ?thesis using r ps(1) len by (cases "g = f") auto
  qed
  then show ?thesis using inv f ps(2) len unfolding fh_inv_def st' by (auto simp: nth_list_update)
qed

text \<open>Changes of a record that keep its class and its end of a pair.\<close>

lemma fh_inv_upd_same:
  assumes inv: "fh_inv st" and f: "f < WIN32_MAX_FHS" "f < fh_count st" and r: "typed (sockpairs st) r" "\<And>p. p \<noteq> NULL \<Longrightarrow> end_of p r = end_of p (fhs st ! f)"
    and st': "fhs st' = (fhs st)[f := r]" "sockpairs st' = sockpairs st" "fh_count st' = fh_count st"
  shows "fh_inv st'"
proof (rule fh_inv_upd [OF inv f(1) _ r(1) _ _ st'])
  have len: "length (fhs st) = WIN32_MAX_FHS" using inv by (simp add: fh_inv_def)
  fix p x assume "sockpairs st p = Some x"
  then have "pair_ok (fhs st) p x" using inv by (simp add: fh_inv_def)
  then show "pair_ok ((fhs st)[f := r]) p x" using f len r(2) by (simp add: pair_ok_def ends_upd)
qed (use f inv in \<open>auto intro: typed_at\<close>)

lemma fh_inv_frame [simp]:
  "fh_inv (st\<lparr>w_errno := e\<rparr>) = fh_inv st" "fh_inv (st\<lparr>closed_handles := hs\<rparr>) = fh_inv st" "fh_inv (st\<lparr>closed_sockets := hs\<rparr>) = fh_inv st"
  "fh_inv (st\<lparr>w_errno := e, sockpairs := ps\<rparr>) = fh_inv (st\<lparr>sockpairs := ps\<rparr>)"
  by (simp_all add: fh_inv_def)

lemma used_counted: "fh_inv st \<Longrightarrow> f < WIN32_MAX_FHS \<Longrightarrow> clazz (fhs st ! f) \<noteq> None \<Longrightarrow> f < fh_count st"
  unfolding fh_inv_def by (meson not_le)

lemma upd_fh_sel [simp]:
  "fhs (upd_fh f g st) = (fhs st)[f := g (fhs st ! f)]" "sockpairs (upd_fh f g st) = sockpairs st" "fh_count (upd_fh f g st) = fh_count st"
  by (simp_all add: upd_fh_def)

section \<open>Allocating and closing\<close>

lemma fh_alloc_ok:
  assumes inv: "fh_inv st" and a: "fh_alloc os c st = (Some f, st')"
  shows "fh_inv st'" "f < WIN32_MAX_FHS" "clazz (fhs st ! f) = None" "fhs st' = (fhs st)[f := fhs st' ! f]" "sockpairs st' = sockpairs st"
    "clazz (fhs st' ! f) = Some c" "used (fhs st' ! f)" "c = Fh_socketpair_class \<Longrightarrow> fh_u (fhs st' ! f) = U_pair NULL" "f < fh_count st'"
proof -
  define st1 where "st1 = (if fh_count st < WIN32_MAX_FHS then st\<lparr>fh_count := fh_count st + 1\<rparr> else st)"
  define r where "r = fh_init os c ((fhs st ! f)\<lparr>clazz := Some c, used := True, eof := False\<rparr>)"
  have len: "length (fhs st) = WIN32_MAX_FHS" using inv by (simp add: fh_inv_def)
  have s1: "fhs st1 = fhs st" "sockpairs st1 = sockpairs st" by (simp_all add: st1_def)
  have f: "f < WIN32_MAX_FHS \<and> clazz (fhs st ! f) = None \<and> f < fh_count st1"
  proof (cases "fh_count st < WIN32_MAX_FHS")
    case True
    then have "f = fh_count st" using a by (auto simp: fh_alloc_def)
    then show ?thesis using True inv by (simp add: fh_inv_def st1_def)
  next
    case False
    then have "find (\<lambda>nn. clazz (fhs st ! nn) = None) [0..<WIN32_MAX_FHS] = Some f" using a by (auto simp: fh_alloc_def free_slot_def split: option.splits)
    then have "f < WIN32_MAX_FHS" "clazz (fhs st ! f) = None" by (auto simp: find_Some_iff)
    then show ?thesis using False by (simp add: st1_def)
  qed
  have st': "st' = upd_fh f (\<lambda>r. fh_init os c (r\<lparr>clazz := Some c, used := True, eof := False\<rparr>)) st1"
    using a by (auto simp: fh_alloc_def st1_def split: option.splits if_splits)
  then have fl: "fhs st' = (fhs st)[f := r]" "sockpairs st' = sockpairs st" "fh_count st' = fh_count st1" by (simp_all add: s1 r_def)
  have i1: "fh_inv st1" using inv by (auto simp: fh_inv_def st1_def)
  have t1: "typed (sockpairs st1) r" by (cases c) (simp_all add: typed_def r_def fh_init_def)
  have "end_of p r = end_of p (fhs st1 ! f)" if "p \<noteq> NULL" for p
    using f that by (cases c) (simp_all add: end_of_def r_def fh_init_def s1)
  then show "fh_inv st'" by (intro fh_inv_upd_same [OF i1 _ _ t1]) (use f fl s1 in auto)
  have r: "fhs st' ! f = r" using fl(1) f len by simp
  show "fhs st' = (fhs st)[f := fhs st' ! f]" using fl(1) r by simp
  show "clazz (fhs st' ! f) = Some c" "used (fhs st' ! f)" "c = Fh_socketpair_class \<Longrightarrow> fh_u (fhs st' ! f) = U_pair NULL"
    unfolding r by (cases c; simp add: r_def fh_init_def)+
  show "f < WIN32_MAX_FHS" "clazz (fhs st ! f) = None" "sockpairs st' = sockpairs st" "f < fh_count st'" using f fl by auto
qed

lemma fh_alloc_none: "fh_inv st \<Longrightarrow> fh_alloc os c st = (None, st') \<Longrightarrow> st' = st"
  by (auto simp: fh_alloc_def split: option.splits if_splits)

lemma upd_fh_upd_fh [simp]: "f < length (fhs st) \<Longrightarrow> upd_fh f g (upd_fh f h st) = upd_fh f (\<lambda>r. g (h r)) st"
  by (simp add: upd_fh_def)

lemma socketpair_close_ok:
  assumes inv: "fh_inv st" and f: "f < WIN32_MAX_FHS" "clazz (fhs st ! f) = Some Fh_socketpair_class"
  obtains st1 where "fh_socketpair_close f st = Inr st1" "fh_inv (upd_fh f (\<lambda>r. r\<lparr>used := False, eof := False, clazz := None\<rparr>) st1)"
    "\<forall>g. g \<noteq> f \<longrightarrow> fhs st1 ! g = fhs st ! g" "length (fhs st1) = WIN32_MAX_FHS"
proof -
  let ?off = "\<lambda>r. r\<lparr>used := False, eof := False, clazz := None\<rparr>"
  have len: "length (fhs st) = WIN32_MAX_FHS" using inv by (simp add: fh_inv_def)
  obtain p where p: "fh_u (fhs st ! f) = U_pair p" "p = NULL \<or> sockpairs st p \<noteq> None" using typed_at [OF inv f(1)] f(2) by (auto simp: typed_def)
  have at: "bindE (fh_at f st) fh_pair = Inr p" using fh_at_ok [OF inv f(1)] p(1) by (simp add: fh_pair_def)
  have t: "typed ps (?off r)" for ps r by (simp add: typed_def)
  have cnt: "f < fh_count st" by (rule used_counted [OF inv f(1)]) (simp add: f(2))
  show thesis
  proof (cases "p = NULL")
    case True
    then have "fh_socketpair_close f st = Inr st" using fh_at_ok [OF inv f(1)] p(1) by (simp add: fh_socketpair_close_def fh_pair_def)
    moreover have "fh_inv (upd_fh f ?off st)"
      by (rule fh_inv_upd_same [OF inv f(1) cnt t]) (use p True in \<open>simp_all add: end_of_def\<close>)
    ultimately show thesis using that len by blast
  next
    case False
    then obtain x where x: "sockpairs st p = Some x" "pair_ok (fhs st) p x" using p(2) inv by (auto simp: fh_inv_def)
    define x1 where "x1 = (if a_fd x = Some f then x\<lparr>a_fd := None\<rparr> else x)
      \<lparr>b2a_bip := bip_buffer_close (b2a_bip x), a2b_bip := bip_buffer_close (a2b_bip x), pair_used := pair_used x - 1\<rparr>"
    define ps where "ps = (sockpairs st)(p := (if pair_used x1 = 0 then None else Some x1))"
    define st1 where "st1 = upd_fh f (\<lambda>r. r\<lparr>fh_u := U_pair NULL\<rparr>) (st\<lparr>sockpairs := ps\<rparr>)"
    have e: "fh_socketpair_close f st = Inr st1"
      using fh_at_ok [OF inv f(1)] p(1) False x(1) by (simp add: fh_socketpair_close_def fh_pair_def Let_def st1_def ps_def x1_def)
    let ?r = "?off ((fhs st ! f)\<lparr>fh_u := U_pair NULL\<rparr>)"
    have en: "end_of p (fhs st ! f)" using p(1) f(2) by (simp add: end_of_def)
    have ends: "ends q ((fhs st)[f := ?r]) = ends q (fhs st) - (if q = p then 1 else 0)" for q
      using en f(1) len by (simp add: ends_upd) (simp add: end_of_def)
    have used: "pair_used x1 = ends p ((fhs st)[f := ?r])" using x(2) ends [of p] by (simp add: x1_def pair_ok_def)
    have "pair_ok ((fhs st)[f := ?r]) q y" if "ps q = Some y" for q y
    proof (cases "q = p")
      case True
      then have "y = x1" "pair_used x1 \<noteq> 0" using that by (auto simp: ps_def split: if_splits)
      then show ?thesis using True x(2) used bip_close_ok by (auto simp: pair_ok_def x1_def)
    next
      case False
      then have "pair_ok (fhs st) q y" using that inv by (simp add: ps_def fh_inv_def)
      then show ?thesis using False by (simp add: pair_ok_def ends)
    qed
    moreover have "typed ps (fhs st ! g)" if g: "g < WIN32_MAX_FHS" "g \<noteq> f" for g
    proof (cases "end_of p (fhs st ! g)")
      case True
      then have "0 < ends p ((fhs st)[f := ?r])"
        using g len nth_mem [of g "(fhs st)[f := ?r]"] by (auto simp: ends_def length_greater_0_conv filter_empty_conv)
      then have "ps q \<noteq> None" if "sockpairs st q \<noteq> None" for q using that used by (auto simp: ps_def)
      then show ?thesis by (rule typed_mono [OF typed_at [OF inv g(1)]])
    next
      case False
      then show ?thesis using typed_at [OF inv g(1)]
        by (auto simp: typed_def end_of_def ps_def split: option.splits fh_class.splits)
    qed
    ultimately have "fh_inv (upd_fh f ?off st1)"
      by (intro fh_inv_upd [OF inv f(1) _ t]) (use len f(1) in \<open>simp_all add: st1_def ps_def\<close>)
    then show thesis using that e len f(1) by (simp add: st1_def)
  qed
qed

lemma fh_close_ok:
  assumes inv: "fh_inv st" and f: "f < WIN32_MAX_FHS"
  obtains st' where "fh_close f st = Inr st'" "fh_inv st'" "clazz (fhs st' ! f) = None" "\<forall>g. g \<noteq> f \<longrightarrow> fhs st' ! g = fhs st ! g"
proof (cases "clazz (fhs st ! f)")
  case None
  then have "\<not> used (fhs st ! f)" using typed_at [OF inv f] by (simp add: typed_def)
  then show thesis using that [of st] None inv fh_at_ok [OF inv f] by (simp add: fh_close_def)
next
  case (Some c)
  let ?off = "\<lambda>r. r\<lparr>used := False, eof := False, clazz := None\<rparr>"
  have len: "length (fhs st) = WIN32_MAX_FHS" using inv by (simp add: fh_inv_def)
  have u: "used (fhs st ! f)" "fh_at f st = Inr (fhs st ! f)" using typed_at [OF inv f] Some fh_at_ok [OF inv f] by (simp_all add: typed_def)
  have cnt: "f < fh_count st" by (rule used_counted [OF inv f]) (simp add: Some)
  have t: "typed ps (?off r)" for ps r by (simp add: typed_def)
  show thesis
  proof (cases c)
    case Fh_file_class
    then obtain h where h: "fh_u (fhs st ! f) = U_handle h" using typed_at [OF inv f] Some by (auto simp: typed_def)
    define st1 where "st1 = upd_fh f (\<lambda>r. r\<lparr>fh_u := U_handle (- 1)\<rparr>) (st\<lparr>closed_handles := closed_handles st @ [h]\<rparr>)"
    have "fh_close f st = Inr (upd_fh f ?off st1)"
      using u Some Fh_file_class h by (simp add: fh_close_def fh_file_close_def fh_handle_def st1_def)
    moreover have "fh_inv (upd_fh f ?off st1)"
      by (rule fh_inv_upd_same [OF inv f cnt t]) (use len f Some Fh_file_class in \<open>simp_all add: st1_def end_of_def\<close>)
    ultimately show thesis using that len f by (simp add: st1_def)
  next
    case Fh_socket_class
    then obtain h where h: "fh_u (fhs st ! f) = U_socket h" using typed_at [OF inv f] Some by (auto simp: typed_def)
    define st1 where "st1 = upd_fh f (\<lambda>r. r\<lparr>fh_u := U_socket (- 1), fh_mask := 0\<rparr>)
      (st\<lparr>closed_sockets := closed_sockets st @ [h], closed_handles := closed_handles st @ [fh_event (fhs st ! f)]\<rparr>)"
    have "fh_close f st = Inr (upd_fh f ?off st1)"
      using u Some Fh_socket_class h by (simp add: fh_close_def fh_socket_close_def fh_socket_def st1_def)
    moreover have "fh_inv (upd_fh f ?off st1)"
      by (rule fh_inv_upd_same [OF inv f cnt t]) (use len f Some Fh_socket_class in \<open>simp_all add: st1_def end_of_def\<close>)
    ultimately show thesis using that len f by (simp add: st1_def)
  next
    case Fh_socketpair_class
    then obtain st1 where "fh_socketpair_close f st = Inr st1" "fh_inv (upd_fh f ?off st1)" "\<forall>g. g \<noteq> f \<longrightarrow> fhs st1 ! g = fhs st ! g"
      "length (fhs st1) = WIN32_MAX_FHS" using socketpair_close_ok [OF inv f] Some by blast
    then show thesis using that u Some Fh_socketpair_class f by (simp add: fh_close_def)
  qed
qed

section \<open>Every call\<close>

definition fine :: "('a \<times> winst) outcome \<Rightarrow> bool" where
  "fine r \<longleftrightarrow> (\<exists>n st'. r = Inr (n, st') \<and> fh_inv st')"

lemma fine_simps [simp]: "fine (Inr (n, st)) = fh_inv st" "\<not> fine (Inl e)"
  by (simp_all add: fine_def)

lemma fine_bind_close:
  assumes "fh_inv st" "f < WIN32_MAX_FHS" "\<And>st'. fh_inv st' \<Longrightarrow> fine (k st')"
  shows "fine (bindE (fh_close f st) k)"
  by (rule fh_close_ok [OF assms(1,2)]) (simp add: assms(3))

lemma close_and_fail_fine: "fh_inv st \<Longrightarrow> f < WIN32_MAX_FHS \<Longrightarrow> fine (close_and_fail f st)"
  unfolding close_and_fail_def by (rule fine_bind_close) simp_all

text \<open>Storing a handle or a socket in a record of that class.\<close>

lemma store_union:
  assumes "fh_inv st" "f < WIN32_MAX_FHS" "(\<exists>h. clazz (fhs st ! f) = Some Fh_file_class \<and> u = U_handle h) \<or> (\<exists>s. clazz (fhs st ! f) = Some Fh_socket_class \<and> u = U_socket s)"
  shows "fh_inv (upd_fh f (\<lambda>r. r\<lparr>fh_u := u\<rparr>) st)"
proof -
  have "f < fh_count st" by (rule used_counted [OF assms(1,2)]) (use assms(3) in auto)
  then show ?thesis
    by (rule fh_inv_upd_same [OF assms(1,2)]) (use typed_at [OF assms(1,2)] assms(3) in \<open>auto simp: typed_def end_of_def\<close>)
qed

lemma set_eof:
  assumes "fh_inv st" "f < WIN32_MAX_FHS" "clazz (fhs st ! f) = Some c"
  shows "fh_inv (upd_fh f (\<lambda>r. r\<lparr>eof := b\<rparr>) st)"
proof -
  have "f < fh_count st" by (rule used_counted [OF assms(1,2)]) (simp add: assms(3))
  then show ?thesis
    by (rule fh_inv_upd_same [OF assms(1,2)]) (use typed_at [OF assms(1,2)] in \<open>simp_all add: typed_def end_of_def split: option.splits fh_class.splits\<close>)
qed

lemma opened_fine: "fh_inv st \<Longrightarrow> f < WIN32_MAX_FHS \<Longrightarrow> clazz (fhs st ! f) = Some Fh_file_class \<Longrightarrow> fine (opened os f h st)"
  using store_union [of st f "U_handle h"] by (auto simp: opened_def Let_def intro!: fine_bind_close)

lemma set_socket_ok: "fh_inv st \<Longrightarrow> f < WIN32_MAX_FHS \<Longrightarrow> clazz (fhs st ! f) = Some Fh_socket_class \<Longrightarrow> fh_inv (set_socket f s st)"
  unfolding set_socket_def by (rule store_union) auto

lemma from_int_ok:
  assumes "fh_inv st" "fh_from_int fd st = (fo, st')"
  shows "fh_inv st'" "fo = Some f \<Longrightarrow> st' = st \<and> f < WIN32_MAX_FHS \<and> (\<exists>c. clazz (fhs st ! f) = Some c)"
proof -
  show "fh_inv st'" using assms by (auto simp: fh_from_int_def Let_def split: if_splits)
  assume "fo = Some f"
  then have f: "st' = st" "f < fh_count st" "used (fhs st ! f)" using assms(2) by (auto simp: fh_from_int_def Let_def split: if_splits)
  then have "f < WIN32_MAX_FHS" using assms(1) by (simp add: fh_inv_def)
  then show "st' = st \<and> f < WIN32_MAX_FHS \<and> (\<exists>c. clazz (fhs st ! f) = Some c)"
    using f typed_at [OF assms(1)] by (auto simp: typed_def)
qed

lemma start_listening_fine: "fh_inv st \<Longrightarrow> f < WIN32_MAX_FHS \<Longrightarrow> fine (start_listening os stream f st)"
  by (simp add: start_listening_def close_and_fail_fine)

lemmas new_socket_rules = fh_alloc_none fh_alloc_ok close_and_fail_fine set_socket_ok start_listening_fine

lemma sockets_fine:
  assumes "fh_inv st"
  shows "fine (socket_loopback_client os st)" "fine (socket_loopback_server os stream st)" "fine (socket_network_client os st)"
    "fine (socket_inaddr_any_server os stream st)"
  unfolding socket_loopback_client_def socket_loopback_server_def socket_network_client_def socket_inaddr_any_server_def Let_def
  using assms by (auto split: prod.splits option.splits intro: new_socket_rules dest: fh_alloc_none)

lemma accept_fine:
  assumes "fh_inv st"
  shows "fine (adb_socket_accept os fd st)"
proof (cases "fh_from_int fd st")
  case (Pair fo st1)
  note r = from_int_ok [OF assms Pair]
  show ?thesis
  proof (cases fo)
    case None
    then show ?thesis using Pair r(1) by (simp add: adb_socket_accept_def)
  next
    case (Some g)
    then have g: "st1 = st" "g < WIN32_MAX_FHS" using r(2) by auto
    show ?thesis
    proof (cases "clazz (fhs st ! g) = Some Fh_socket_class")
      case False
      then show ?thesis using Pair Some g assms by (simp add: adb_socket_accept_def)
    next
      case True
      then obtain s where s: "fh_u (fhs st ! g) = U_socket s" using typed_at [OF assms g(2)] by (auto simp: typed_def)
      show ?thesis
      proof (cases "fh_alloc os Fh_socket_class st")
        case (Pair ao st2)
        show ?thesis
        proof (cases ao)
          case None
          then show ?thesis
            using Pair \<open>fh_from_int fd st = (fo, st1)\<close> Some g True assms fh_alloc_none by (auto simp: adb_socket_accept_def)
        next
          case (Some h)
          note a = fh_alloc_ok [OF assms Pair [unfolded Some]]
          have "g \<noteq> h" using a(3) True by auto
          then have "bindE (fh_at g st2) fh_socket = Inr s"
            using a(4) s g(2) fh_at_ok [OF a(1) g(2)] by (metis bindE_Inr fh_socket_def fh_union.simps(11) nth_list_update_neq)
          then show ?thesis
            using Pair Some \<open>fh_from_int fd st = (fo, st1)\<close> \<open>fo = Some g\<close> g True a set_socket_ok [OF a(1,2)]
            by (auto simp: adb_socket_accept_def Let_def intro!: close_and_fail_fine)
        qed
      qed
    qed
  qed
qed

lemma nagle_fine: "fh_inv st \<Longrightarrow> \<exists>st'. disable_tcp_nagle fd st = Inr st' \<and> fh_inv st'"
proof (cases "fh_from_int fd st")
  case (Pair fo st1)
  assume inv: "fh_inv st"
  note r = from_int_ok [OF inv Pair]
  show ?thesis
  proof (cases fo)
    case (Some g)
    then show ?thesis using r(2) [OF Some] typed_at [OF inv, of g] Pair inv
      by (auto simp: disable_tcp_nagle_def typed_def fh_socket_def)
  qed (use Pair r(1) in \<open>simp add: disable_tcp_nagle_def\<close>)
qed

lemma open_fine: "fh_inv st \<Longrightarrow> fine (adb_open_win32 os path opts st)"
  by (auto simp: adb_open_win32_def split: prod.splits option.splits intro: opened_fine fh_alloc_ok dest: fh_alloc_none)

lemma creat_fine: "fh_inv st \<Longrightarrow> 2 \<le> length (wide os path) \<Longrightarrow> fine (adb_creat_win32 os path st)"
  by (auto simp: adb_creat_win32_def replace_third_def split: prod.splits option.splits intro: opened_fine fh_alloc_ok dest: fh_alloc_none)

text \<open>Reading and writing one end of a pair replaces one of its buffers by a good one.\<close>

lemma pair_upd:
  assumes inv: "fh_inv st" and x: "sockpairs st p = Some x" and y: "bip_ok (a2b_bip y)" "bip_ok (b2a_bip y)" "pair_used y = pair_used x"
  shows "fh_inv (st\<lparr>sockpairs := (sockpairs st)(p \<mapsto> y)\<rparr>)"
proof -
  have "typed ((sockpairs st)(p \<mapsto> y)) r" if "r \<in> set (fhs st)" for r
  proof -
    have "typed (sockpairs st) r" using inv that by (simp add: fh_inv_def)
    then show ?thesis by (rule typed_mono) auto
  qed
  moreover have "pair_ok (fhs st) q z" if "((sockpairs st)(p \<mapsto> y)) q = Some z" for q z
  proof (cases "q = p")
    case True
    moreover have "pair_ok (fhs st) p x" using inv x by (simp add: fh_inv_def)
    ultimately show ?thesis using that y by (simp add: pair_ok_def)
  next
    case False
    then show ?thesis using that inv by (simp add: fh_inv_def)
  qed
  ultimately show ?thesis using inv by (simp add: fh_inv_def)
qed

lemma bip_calls:
  assumes "bip_ok b"
  shows "bip_buffer_write w b src = None \<and> length (content b) = BIP_BUFFER_SIZE \<and> \<not> closed b \<or> (\<exists>n e b'. bip_buffer_write w b src = Some (Inr (n, e, b')) \<and> bip_ok b')"
    "bip_buffer_read w b n = None \<and> content b = [] \<and> \<not> closed b \<or> (\<exists>k e bs b'. bip_buffer_read w b n = Some (Inr (k, e, bs, b')) \<and> bip_ok b')"
proof -
  show "bip_buffer_write w b src = None \<and> length (content b) = BIP_BUFFER_SIZE \<and> \<not> closed b \<or> (\<exists>n e b'. bip_buffer_write w b src = Some (Inr (n, e, b')) \<and> bip_ok b')"
  proof (cases "can_write b \<and> src \<noteq> []")
    case True
    then obtain b' n where "bip_write_exec b src = Inr (n, None, b')" "bip_ok b'" by (auto elim: bip_write_exec_ok [OF assms])
    then show ?thesis using True by (simp add: bip_buffer_write_def)
  qed (use assms can_write_content [OF assms] content_bounds [OF assms] in \<open>auto simp: bip_buffer_write_def\<close>)
  show "bip_buffer_read w b n = None \<and> content b = [] \<and> \<not> closed b \<or> (\<exists>k e bs b'. bip_buffer_read w b n = Some (Inr (k, e, bs, b')) \<and> bip_ok b')"
  proof (cases "can_read b \<and> 0 < n")
    case True
    then obtain b' k bs where "bip_read_exec b (nat n) = Inr (k, None, bs, b')" "bip_ok b'" by (auto elim: bip_read_exec_ok [OF assms, of "nat n"])
    then show ?thesis using True by (simp add: bip_buffer_read_def)
  qed (use assms can_read_content [OF assms] in \<open>auto simp: bip_buffer_read_def\<close>)
qed

text \<open>The buffer that one end of a pair reads from (\<open>rd\<close>) or writes to; a call waits when it is empty or full, and open.\<close>

definition pair_buffer :: "bool \<Rightarrow> nat \<Rightarrow> winst \<Rightarrow> BipBuffer option" where
  "pair_buffer rd f st =
     (case fh_u (fhs st ! f) of
        U_pair p \<Rightarrow> map_option (\<lambda>x. if (a_fd x = Some f) = rd then b2a_bip x else a2b_bip x) (sockpairs st p)
      | _ \<Rightarrow> None)"

definition waits :: "bool \<Rightarrow> nat \<Rightarrow> winst \<Rightarrow> bool" where
  "waits rd f st \<longleftrightarrow>
     clazz (fhs st ! f) = Some Fh_socketpair_class \<and>
     (case pair_buffer rd f st of
        None \<Rightarrow> False
      | Some b \<Rightarrow> \<not> closed b \<and> (if rd then content b = [] else length (content b) = BIP_BUFFER_SIZE))"

lemma pair_end:
  assumes inv: "fh_inv st" and f: "f < WIN32_MAX_FHS" "clazz (fhs st ! f) = Some Fh_socketpair_class"
  obtains p where "fh_u (fhs st ! f) = U_pair p" "bindE (fh_at f st) fh_pair = Inr p" "p = NULL \<or> (\<exists>x. sockpairs st p = Some x \<and> pair_ok (fhs st) p x)"
proof -
  obtain p where p: "fh_u (fhs st ! f) = U_pair p" "p = NULL \<or> sockpairs st p \<noteq> None" using typed_at [OF inv f(1)] f(2) by (auto simp: typed_def)
  have "bindE (fh_at f st) fh_pair = Inr p" using fh_at_ok [OF inv f(1)] p(1) by (simp add: fh_pair_def)
  moreover have "p = NULL \<or> (\<exists>x. sockpairs st p = Some x \<and> pair_ok (fhs st) p x)" using p(2) inv by (auto simp: fh_inv_def)
  ultimately show thesis by (rule that [OF p(1)])
qed

lemma pair_read_fine:
  assumes inv: "fh_inv st" and f: "f < WIN32_MAX_FHS" "clazz (fhs st ! f) = Some Fh_socketpair_class"
  shows "fh_socketpair_read os f len st = None \<and> waits True f st \<or> (\<exists>n bs st'. fh_socketpair_read os f len st = Some (Inr (n, bs, st')) \<and> fh_inv st')"
proof -
  obtain p where u: "fh_u (fhs st ! f) = U_pair p" and p: "bindE (fh_at f st) fh_pair = Inr p" "p = NULL \<or> (\<exists>x. sockpairs st p = Some x \<and> pair_ok (fhs st) p x)"
    by (rule pair_end [OF inv f])
  show ?thesis
  proof (cases "p = NULL")
    case True
    then show ?thesis using p(1) inv by (simp add: fh_socketpair_read_def)
  next
    case False
    then obtain x where x: "sockpairs st p = Some x" "pair_ok (fhs st) p x" using p(2) by auto
    define b where "b = (if a_fd x = Some f then b2a_bip x else a2b_bip x)"
    have b: "bip_ok b" using x(2) by (simp add: pair_ok_def b_def)
    from bip_calls(2) [OF b, of "wait_ok os" len] show ?thesis
    proof (elim disjE exE conjE)
      assume w: "bip_buffer_read (wait_ok os) b len = None" "content b = []" "\<not> closed b"
      then have "waits True f st" using f(2) u x(1) by (auto simp: waits_def pair_buffer_def b_def)
      then show ?thesis using p(1) False x(1) w(1) by (simp add: fh_socketpair_read_def b_def)
    next
      fix k e bs b' assume r: "bip_buffer_read (wait_ok os) b len = Some (Inr (k, e, bs, b'))" "bip_ok b'"
      define y where "y = (if a_fd x = Some f then x\<lparr>b2a_bip := b'\<rparr> else x\<lparr>a2b_bip := b'\<rparr>)"
      have "fh_inv (st\<lparr>sockpairs := (sockpairs st)(p \<mapsto> y)\<rparr>)" by (rule pair_upd [OF inv x(1)]) (use x(2) r(2) in \<open>simp_all add: pair_ok_def y_def\<close>)
      then show ?thesis
        using p(1) False x(1) r(1) by (cases e) (simp_all add: fh_socketpair_read_def b_def [symmetric] y_def Let_def)
    qed
  qed
qed

lemma pair_write_fine:
  assumes inv: "fh_inv st" and f: "f < WIN32_MAX_FHS" "clazz (fhs st ! f) = Some Fh_socketpair_class"
  shows "fh_socketpair_write os f buf st = None \<and> waits False f st \<or> (\<exists>n st'. fh_socketpair_write os f buf st = Some (Inr (n, st')) \<and> fh_inv st')"
proof -
  obtain p where u: "fh_u (fhs st ! f) = U_pair p" and p: "bindE (fh_at f st) fh_pair = Inr p" "p = NULL \<or> (\<exists>x. sockpairs st p = Some x \<and> pair_ok (fhs st) p x)"
    by (rule pair_end [OF inv f])
  show ?thesis
  proof (cases "p = NULL")
    case True
    then show ?thesis using p(1) inv by (simp add: fh_socketpair_write_def)
  next
    case False
    then obtain x where x: "sockpairs st p = Some x" "pair_ok (fhs st) p x" using p(2) by auto
    define b where "b = (if a_fd x = Some f then a2b_bip x else b2a_bip x)"
    have b: "bip_ok b" using x(2) by (simp add: pair_ok_def b_def)
    from bip_calls(1) [OF b, of "wait_ok os" buf] show ?thesis
    proof (elim disjE exE conjE)
      assume w: "bip_buffer_write (wait_ok os) b buf = None" "length (content b) = BIP_BUFFER_SIZE" "\<not> closed b"
      then have "waits False f st" using f(2) u x(1) by (auto simp: waits_def pair_buffer_def b_def)
      then show ?thesis using p(1) False x(1) w(1) by (simp add: fh_socketpair_write_def b_def)
    next
      fix k e b' assume r: "bip_buffer_write (wait_ok os) b buf = Some (Inr (k, e, b'))" "bip_ok b'"
      define y where "y = (if a_fd x = Some f then x\<lparr>a2b_bip := b'\<rparr> else x\<lparr>b2a_bip := b'\<rparr>)"
      have "fh_inv (st\<lparr>sockpairs := (sockpairs st)(p \<mapsto> y)\<rparr>)" by (rule pair_upd [OF inv x(1)]) (use x(2) r(2) in \<open>simp_all add: pair_ok_def y_def\<close>)
      then show ?thesis
        using p(1) False x(1) r(1) by (cases e) (simp_all add: fh_socketpair_write_def b_def [symmetric] y_def Let_def)
    qed
  qed
qed

section \<open>New pairs\<close>

lemma no_ends: "fh_inv st \<Longrightarrow> sockpairs st p = None \<Longrightarrow> p \<noteq> NULL \<Longrightarrow> ends p (fhs st) = 0"
proof -
  assume a: "fh_inv st" "sockpairs st p = None" "p \<noteq> NULL"
  then have "\<forall>r\<in>set (fhs st). \<not> end_of p r" unfolding fh_inv_def typed_def end_of_def by fastforce
  then show ?thesis by (simp add: ends_def filter_False)
qed

text \<open>One more end of a pair.\<close>

lemma add_end:
  assumes inv: "fh_inv st" and f: "f < WIN32_MAX_FHS" "clazz (fhs st ! f) = Some Fh_socketpair_class" "fh_u (fhs st ! f) = U_pair NULL"
    and p: "p \<noteq> NULL" and x: "bip_ok (a2b_bip x)" "bip_ok (b2a_bip x)" "pair_used x = ends p (fhs st) + 1"
    and st': "fhs st' = (fhs st)[f := (fhs st ! f)\<lparr>fh_u := U_pair p\<rparr>]" "sockpairs st' = (sockpairs st)(p \<mapsto> x)" "fh_count st' = fh_count st"
  shows "fh_inv st'"
proof (rule fh_inv_upd [OF inv f(1) _ _ _ _ st'])
  let ?ps = "(sockpairs st)(p \<mapsto> x)" and ?r = "(fhs st ! f)\<lparr>fh_u := U_pair p\<rparr>"
  have len: "length (fhs st) = WIN32_MAX_FHS" using inv by (simp add: fh_inv_def)
  have ends: "ends q ((fhs st)[f := ?r]) = ends q (fhs st) + (if q = p then 1 else 0)" if "q \<noteq> NULL" for q
    using f len p that by (simp add: ends_upd end_of_def)
  show "typed ?ps ?r" using typed_at [OF inv f(1)] f(2) by (simp add: typed_def)
  show "f < fh_count st \<or> clazz ?r = None" using used_counted [OF inv f(1)] f(2) by simp
  show "typed ?ps (fhs st ! g)" if "g < WIN32_MAX_FHS" for g by (rule typed_mono [OF typed_at [OF inv that]]) auto
  fix q y assume q: "?ps q = Some y"
  show "pair_ok ((fhs st)[f := ?r]) q y"
  proof (cases "q = p")
    case True
    have "0 \<le> ends p (fhs st)" by (simp add: ends_def)
    then show ?thesis using True q x p ends [of p] by (simp add: pair_ok_def)
  next
    case False
    then have "pair_ok (fhs st) q y" using q inv by (simp add: fh_inv_def)
    then show ?thesis using False ends [of q] by (simp add: pair_ok_def)
  qed
qed

text \<open>The allocations of \<open>adb_socketpair\<close>: two free records; memory for the pair, if any, is new.\<close>

definition pair_room :: "winos \<Rightarrow> winst \<Rightarrow> bool" where
  "pair_room os st \<longleftrightarrow>
     fst (fh_alloc os Fh_socketpair_class st) \<noteq> None \<and> fst (fh_alloc os Fh_socketpair_class (snd (fh_alloc os Fh_socketpair_class st))) \<noteq> None \<and>
     sockpairs st (malloc_pair os) = None \<and> length (fst (pair_junk os)) = BIP_BUFFER_SIZE \<and> length (snd (pair_junk os)) = BIP_BUFFER_SIZE"

lemma two_allocs:
  assumes inv: "fh_inv st" and room: "pair_room os st"
  obtains fa fb st2 where "fh_alloc os Fh_socketpair_class st = (Some fa, snd (fh_alloc os Fh_socketpair_class st))"
    "fh_alloc os Fh_socketpair_class (snd (fh_alloc os Fh_socketpair_class st)) = (Some fb, st2)"
    "fh_inv st2" "fa \<noteq> fb" "fa < WIN32_MAX_FHS" "fb < WIN32_MAX_FHS" "sockpairs st2 = sockpairs st"
    "\<forall>f\<in>{fa, fb}. clazz (fhs st2 ! f) = Some Fh_socketpair_class \<and> fh_u (fhs st2 ! f) = U_pair NULL \<and> used (fhs st2 ! f) \<and> f < fh_count st2"
proof -
  obtain fa st1 where a: "fh_alloc os Fh_socketpair_class st = (Some fa, st1)"
    using room by (cases "fh_alloc os Fh_socketpair_class st") (auto simp: pair_room_def)
  obtain fb st2 where b: "fh_alloc os Fh_socketpair_class st1 = (Some fb, st2)"
    using room a by (cases "fh_alloc os Fh_socketpair_class st1") (auto simp: pair_room_def)
  note a1 = fh_alloc_ok [OF inv a] and b1 = fh_alloc_ok [OF fh_alloc_ok(1) [OF inv a] b]
  have ne: "fa \<noteq> fb" using a1(6) b1(3) by auto
  then have fa: "fhs st2 ! fa = fhs st1 ! fa" using b1(4) by (metis nth_list_update_neq)
  have "fa < fh_count st2" by (rule used_counted [OF b1(1) a1(2)]) (simp add: fa a1(6))
  then show thesis using that [of fa fb st2] a b a1 b1 ne fa by simp
qed

lemma socketpair_result:
  assumes inv: "fh_inv st" and room: "pair_room os st" and m: "malloc_pair os \<noteq> NULL"
  obtains fa fb x st' where "adb_socketpair os st = Inr (0, (int fa + 100, int fb + 100), st')" "fh_inv st'" "fa \<noteq> fb" "fa < fh_count st'" "fb < fh_count st'"
    "fa < WIN32_MAX_FHS" "fb < WIN32_MAX_FHS"
    "\<forall>f\<in>{fa, fb}. clazz (fhs st' ! f) = Some Fh_socketpair_class \<and> fh_u (fhs st' ! f) = U_pair (malloc_pair os) \<and> used (fhs st' ! f)"
    "sockpairs st' (malloc_pair os) = Some x" "a_fd x = Some fa" "bip_ok (a2b_bip x)" "bip_ok (b2a_bip x)" "content (a2b_bip x) = []" "content (b2a_bip x) = []"
    "\<not> closed (a2b_bip x)" "\<not> closed (b2a_bip x)"
proof -
  let ?p = "malloc_pair os"
  obtain fa fb st2 where a: "fh_alloc os Fh_socketpair_class st = (Some fa, snd (fh_alloc os Fh_socketpair_class st))"
    "fh_alloc os Fh_socketpair_class (snd (fh_alloc os Fh_socketpair_class st)) = (Some fb, st2)"
    and i2: "fh_inv st2" and f: "fa \<noteq> fb" "fa < WIN32_MAX_FHS" "fb < WIN32_MAX_FHS" and ps: "sockpairs st2 = sockpairs st"
    and r: "\<forall>f\<in>{fa, fb}. clazz (fhs st2 ! f) = Some Fh_socketpair_class \<and> fh_u (fhs st2 ! f) = U_pair NULL \<and> used (fhs st2 ! f) \<and> f < fh_count st2"
    by (rule two_allocs [OF inv room])
  have len: "length (fhs st2) = WIN32_MAX_FHS" using i2 by (simp add: fh_inv_def)
  have none: "sockpairs st2 ?p = None" using room ps by (simp add: pair_room_def)
  define sv where "sv = (int fa + 100, int fb + 100)"
  define x where "x = \<lparr>a2b_bip = (bip_buffer_init (fst (pair_junk os)))\<lparr>fdin := fst sv, fdout := snd sv\<rparr>,
     b2a_bip = (bip_buffer_init (snd (pair_junk os)))\<lparr>fdin := snd sv, fdout := fst sv\<rparr>, a_fd = Some fa, pair_used = 2\<rparr>"
  have bip_fd: "bip_ok (b\<lparr>fdin := i, fdout := j\<rparr>) = bip_ok b" "content (b\<lparr>fdin := i, fdout := j\<rparr>) = content b" for b i j
    by (simp_all add: bip_ok_def content_def)
  have x: "bip_ok (a2b_bip x)" "bip_ok (b2a_bip x)" "content (a2b_bip x) = []" "content (b2a_bip x) = []" "\<not> closed (a2b_bip x)" "\<not> closed (b2a_bip x)"
    using room bip_init_ok by (auto simp: x_def bip_fd pair_room_def) (simp_all add: bip_buffer_init_def)
  define st3 where "st3 = (upd_fh fb (\<lambda>r. r\<lparr>fh_u := U_pair ?p\<rparr>) (upd_fh fa (\<lambda>r. r\<lparr>fh_u := U_pair ?p\<rparr>) st2))\<lparr>sockpairs := (sockpairs st2)(?p \<mapsto> x)\<rparr>"
  have fh3: "fhs st3 = (fhs st2)[fa := (fhs st2 ! fa)\<lparr>fh_u := U_pair ?p\<rparr>, fb := (fhs st2 ! fb)\<lparr>fh_u := U_pair ?p\<rparr>]" using f by (simp add: st3_def)
  have e: "adb_socketpair os st = Inr (0, sv, st3)"
  proof -
    have "adb_socketpair os st =
      (let st = upd_fh fb (\<lambda>r. r\<lparr>fh_u := U_pair ?p\<rparr>) (upd_fh fa (\<lambda>r. r\<lparr>fh_u := U_pair ?p\<rparr>) st2); sv = (fh_to_int fa st, fh_to_int fb st);
           x = \<lparr>a2b_bip = (bip_buffer_init (fst (pair_junk os)))\<lparr>fdin := fst sv, fdout := snd sv\<rparr>,
                b2a_bip = (bip_buffer_init (snd (pair_junk os)))\<lparr>fdin := snd sv, fdout := fst sv\<rparr>, a_fd = Some fa, pair_used = 2\<rparr>
       in Inr (0, sv, st\<lparr>sockpairs := (sockpairs st)(?p \<mapsto> x)\<rparr>))"
      unfolding adb_socketpair_def by (subst a(1)) (simp add: a(2) m Let_def)
    also have "\<dots> = Inr (0, sv, st3)"
      using f r len by (simp add: Let_def fh_to_int_def WIN32_FH_BASE_def st3_def x_def sv_def)
    finally show ?thesis .
  qed
  define stm where "stm = st2\<lparr>fhs := (fhs st2)[fa := (fhs st2 ! fa)\<lparr>fh_u := U_pair ?p\<rparr>], sockpairs := (sockpairs st2)(?p \<mapsto> x\<lparr>pair_used := 1\<rparr>)\<rparr>"
  have im: "fh_inv stm"
    by (rule add_end [OF i2 f(2) _ _ m, where x = "x\<lparr>pair_used := 1\<rparr>"]) (use r x no_ends [OF i2 none m] in \<open>simp_all add: stm_def\<close>)
  have "sockpairs stm ?p = Some (x\<lparr>pair_used := 1\<rparr>)" by (simp add: stm_def)
  then have "pair_ok (fhs stm) ?p (x\<lparr>pair_used := 1\<rparr>)" using im unfolding fh_inv_def by blast
  then have em: "ends ?p (fhs stm) = 1" by (simp add: pair_ok_def)
  have "fh_inv st3"
    by (rule add_end [OF im f(3) _ _ m, where x = x]) (use r x em f fh3 in \<open>simp_all add: stm_def st3_def x_def\<close>)
  moreover have "\<forall>f\<in>{fa, fb}. clazz (fhs st3 ! f) = Some Fh_socketpair_class \<and> fh_u (fhs st3 ! f) = U_pair ?p \<and> used (fhs st3 ! f)"
    using r f len fh3 by (simp add: nth_list_update)
  moreover have "sockpairs st3 ?p = Some x" "a_fd x = Some fa" "fh_count st3 = fh_count st2" by (simp_all add: st3_def x_def)
  ultimately show thesis using that [of fa fb st3 x] e f r x by (simp add: sv_def)
qed

lemma socketpair_no_memory:
  assumes inv: "fh_inv st" and room: "pair_room os st" and m: "malloc_pair os = NULL"
  shows "\<exists>st'. adb_socketpair os st = Inr (- 1, (0, 0), st') \<and> fh_inv st'"
proof -
  obtain fa fb st2 where a: "fh_alloc os Fh_socketpair_class st = (Some fa, snd (fh_alloc os Fh_socketpair_class st))"
    "fh_alloc os Fh_socketpair_class (snd (fh_alloc os Fh_socketpair_class st)) = (Some fb, st2)"
    and i2: "fh_inv st2" and f: "fa < WIN32_MAX_FHS" "fb < WIN32_MAX_FHS" by (rule two_allocs [OF inv room])
  obtain st3 where st3: "fh_close fb st2 = Inr st3" "fh_inv st3" by (rule fh_close_ok [OF i2 f(2)])
  obtain st4 where "fh_close fa st3 = Inr st4" "fh_inv st4" by (rule fh_close_ok [OF st3(2) f(1)])
  then show ?thesis unfolding adb_socketpair_def by (subst a(1)) (simp add: a(2) m Let_def fh_close_ptr_def st3)
qed

section \<open>The calls are type-safe\<close>

datatype win_call =
  Open string int | Creat string | Rd int int | Wr int "byte list" | Lseek int int int | Shutdown int | Close int | Loopback_client
| Loopback_server bool | Network_client | Any_server bool | Accept int | Nagle int | Socketpair

fun win_step :: "winos \<Rightarrow> win_call \<Rightarrow> winst \<Rightarrow> (int \<times> winst) outcome option" where
  "win_step os (Open path opts) st = Some (adb_open_win32 os path opts st)"
| "win_step os (Creat path) st = Some (adb_creat_win32 os path st)"
| "win_step os (Rd fd len) st = map_option (\<lambda>r. bindE r (\<lambda>(n, bs, st). Inr (n, st))) (adb_read_win32 os fd len st)"
| "win_step os (Wr fd buf) st = adb_write_win32 os fd buf st"
| "win_step os (Lseek fd pos origin) st = Some (adb_lseek_win32 os fd pos origin st)"
| "win_step os (Shutdown fd) st = Some (adb_shutdown_win32 fd st)"
| "win_step os (Close fd) st = Some (adb_close_win32 fd st)"
| "win_step os Loopback_client st = Some (socket_loopback_client os st)"
| "win_step os (Loopback_server stream) st = Some (socket_loopback_server os stream st)"
| "win_step os Network_client st = Some (socket_network_client_timeout os st)"
| "win_step os (Any_server stream) st = Some (socket_inaddr_any_server os stream st)"
| "win_step os (Accept fd) st = Some (adb_socket_accept os fd st)"
| "win_step os (Nagle fd) st = Some (bindE (disable_tcp_nagle fd st) (\<lambda>st. Inr (0, st)))"
| "win_step os Socketpair st = Some (bindE (adb_socketpair os st) (\<lambda>(n, sv, st). Inr (n, st)))"

text \<open>The records that are not in use, and what \<open>malloc\<close> guarantees for a new pair.\<close>

definition free_records :: "winst \<Rightarrow> int" where
  "free_records st = int (length (filter (\<lambda>r. clazz r = None) (fhs st)))"

definition new_memory :: "winos \<Rightarrow> winst \<Rightarrow> bool" where
  "new_memory os st \<longleftrightarrow>
     sockpairs st (malloc_pair os) = None \<and> length (fst (pair_junk os)) = BIP_BUFFER_SIZE \<and> length (snd (pair_junk os)) = BIP_BUFFER_SIZE"

lemma alloc_fails_iff:
  assumes inv: "fh_inv st"
  shows "fst (fh_alloc os c st) = None \<longleftrightarrow> free_records st = 0"
proof (cases "fh_count st < WIN32_MAX_FHS")
  case True
  then have "clazz (fhs st ! fh_count st) = None" "fh_count st < length (fhs st)" using inv by (simp_all add: fh_inv_def)
  then have "fhs st ! fh_count st \<in> set (filter (\<lambda>r. clazz r = None) (fhs st))" by simp
  then have "free_records st \<noteq> 0" unfolding free_records_def by (metis length_pos_if_in_set of_nat_0_less_iff less_irrefl)
  then show ?thesis using True by (simp add: fh_alloc_def)
next
  case False
  have "length (fhs st) = WIN32_MAX_FHS" using inv by (simp add: fh_inv_def)
  then have "free_slot st = None \<longleftrightarrow> (\<forall>r\<in>set (fhs st). clazz r \<noteq> None)" by (auto simp: free_slot_def find_None_iff all_set_conv_all_nth)
  then show ?thesis using False by (cases "free_slot st") (auto simp: fh_alloc_def free_records_def filter_empty_conv)
qed

lemma alloc_takes_one:
  assumes "fh_inv st" and "fh_alloc os c st = (Some f, st')"
  shows "free_records st' = free_records st - 1"
proof -
  note a = fh_alloc_ok [OF assms]
  have "f < length (fhs st)" using a(2) assms(1) by (simp add: fh_inv_def)
  then have "free_records (st\<lparr>fhs := (fhs st)[f := fhs st' ! f]\<rparr>) = free_records st - 1"
    using a(3,6) by (simp add: free_records_def length_filter_upd)
  then show ?thesis using a(4) by (simp add: free_records_def)
qed

lemma pair_room_iff:
  assumes inv: "fh_inv st"
  shows "pair_room os st \<longleftrightarrow> 2 \<le> free_records st \<and> new_memory os st"
proof -
  have pos: "0 \<le> free_records st" by (simp add: free_records_def)
  show ?thesis
  proof (cases "fh_alloc os Fh_socketpair_class st")
    case (Pair fa st1)
    show ?thesis
    proof (cases fa)
      case None
      then show ?thesis using Pair alloc_fails_iff [OF inv, of os Fh_socketpair_class] by (simp add: pair_room_def)
    next
      case (Some f)
      then have a: "fh_alloc os Fh_socketpair_class st = (Some f, st1)" using Pair by simp
      have "fst (fh_alloc os Fh_socketpair_class st1) = None \<longleftrightarrow> free_records st = 1"
        using alloc_fails_iff [OF fh_alloc_ok(1) [OF inv a], of os Fh_socketpair_class] alloc_takes_one [OF inv a] by auto
      moreover have "free_records st \<noteq> 0" using alloc_fails_iff [OF inv, of os Fh_socketpair_class] a by simp
      ultimately show ?thesis using a pos by (auto simp: pair_room_def new_memory_def)
    qed
  qed
qed

text \<open>
  The calls that the code does not survive: creating a file whose path has fewer than two characters, shutting down a descriptor that is not a socket, making a
  socket pair without two free records.
\<close>

fun faults :: "winos \<Rightarrow> win_call \<Rightarrow> winst \<Rightarrow> bool" where
  "faults os (Creat path) st = (free_records st \<noteq> 0 \<and> length (wide os path) < 2)"
| "faults os (Shutdown fd) st = (case fst (fh_from_int fd st) of None \<Rightarrow> False | Some f \<Rightarrow> clazz (fhs st ! f) \<noteq> Some Fh_socket_class)"
| "faults os Socketpair st = (free_records st < 2)"
| "faults os c st = False"

text \<open>The calls that wait for the other end.\<close>

fun waiting :: "win_call \<Rightarrow> winst \<Rightarrow> bool" where
  "waiting (Rd fd len) st = (case fst (fh_from_int fd st) of None \<Rightarrow> False | Some f \<Rightarrow> waits True f st)"
| "waiting (Wr fd buf) st = (case fst (fh_from_int fd st) of None \<Rightarrow> False | Some f \<Rightarrow> waits False f st)"
| "waiting c st = False"

lemma rw_fine:
  assumes inv: "fh_inv st"
  shows "adb_read_win32 os fd len st = None \<and> waiting (Rd fd len) st \<or> (\<exists>n bs st'. adb_read_win32 os fd len st = Some (Inr (n, bs, st')) \<and> fh_inv st')"
    "adb_write_win32 os fd buf st = None \<and> waiting (Wr fd buf) st \<or> (\<exists>n st'. adb_write_win32 os fd buf st = Some (Inr (n, st')) \<and> fh_inv st')"
    "fine (adb_lseek_win32 os fd pos origin st)"
proof -
  obtain fo st1 where fi: "fh_from_int fd st = (fo, st1)" by (cases "fh_from_int fd st")
  note r = from_int_ok [OF inv fi]
  have "(adb_read_win32 os fd len st = None \<and> waiting (Rd fd len) st \<or> (\<exists>n bs st'. adb_read_win32 os fd len st = Some (Inr (n, bs, st')) \<and> fh_inv st')) \<and>
      (adb_write_win32 os fd buf st = None \<and> waiting (Wr fd buf) st \<or> (\<exists>n st'. adb_write_win32 os fd buf st = Some (Inr (n, st')) \<and> fh_inv st')) \<and>
      fine (adb_lseek_win32 os fd pos origin st)"
  proof (cases fo)
    case None
    then show ?thesis using fi r(1) by (simp add: adb_read_win32_def adb_write_win32_def adb_lseek_win32_def)
  next
    case (Some f)
    then obtain c where f: "st1 = st" "f < WIN32_MAX_FHS" "clazz (fhs st ! f) = Some c" using r(2) by blast
    note t = typed_at [OF inv f(2)] and at = fh_at_ok [OF inv f(2)] and eof = set_eof [OF inv f(2,3)]
    show ?thesis
    proof (cases c)
      case Fh_file_class
      then obtain h where "fh_u (fhs st ! f) = U_handle h" using t f(3) by (auto simp: typed_def)
      then show ?thesis using fi Some f Fh_file_class at eof inv
        by (auto simp: adb_read_win32_def adb_write_win32_def adb_lseek_win32_def fh_file_read_def fh_file_write_def fh_file_lseek_def fh_handle_def split: option.splits)
    next
      case Fh_socket_class
      then obtain h where "fh_u (fhs st ! f) = U_socket h" using t f(3) by (auto simp: typed_def)
      then show ?thesis using fi Some f Fh_socket_class at inv
        by (auto simp: adb_read_win32_def adb_write_win32_def adb_lseek_win32_def fh_socket_read_def fh_socket_write_def fh_socket_def split: option.splits)
    next
      case Fh_socketpair_class
      then show ?thesis using fi Some f inv pair_read_fine [OF inv f(2), of os len] pair_write_fine [OF inv f(2), of os buf]
        by (auto simp: adb_read_win32_def adb_write_win32_def adb_lseek_win32_def)
    qed
  qed
  then show "adb_read_win32 os fd len st = None \<and> waiting (Rd fd len) st \<or> (\<exists>n bs st'. adb_read_win32 os fd len st = Some (Inr (n, bs, st')) \<and> fh_inv st')"
    "adb_write_win32 os fd buf st = None \<and> waiting (Wr fd buf) st \<or> (\<exists>n st'. adb_write_win32 os fd buf st = Some (Inr (n, st')) \<and> fh_inv st')"
    "fine (adb_lseek_win32 os fd pos origin st)" by blast+
qed

lemma shutdown_fine:
  assumes inv: "fh_inv st"
  shows "if faults os (Shutdown fd) st then \<exists>e. adb_shutdown_win32 fd st = Inl e else fine (adb_shutdown_win32 fd st)"
proof (cases "fh_from_int fd st")
  case (Pair fo st1)
  note r = from_int_ok [OF inv Pair]
  show ?thesis
  proof (cases fo)
    case (Some f)
    then obtain c where f: "st1 = st" "f < WIN32_MAX_FHS" "clazz (fhs st ! f) = Some c" using r(2) by blast
    then show ?thesis using Some Pair typed_at [OF inv f(2)] inv by (cases c) (auto simp: adb_shutdown_win32_def typed_def fh_socket_def)
  qed (use Pair r(1) in \<open>simp add: adb_shutdown_win32_def\<close>)
qed

lemma creat_faults:
  assumes inv: "fh_inv st"
  shows "if faults os (Creat path) st then \<exists>e. adb_creat_win32 os path st = Inl e else fine (adb_creat_win32 os path st)"
proof (cases "fh_alloc os Fh_file_class st")
  case (Pair fo st1)
  then show ?thesis
  proof (cases "length (wide os path) < 2")
    case True
    then show ?thesis using Pair alloc_fails_iff [OF inv, of os Fh_file_class] fh_alloc_none [OF inv, of os Fh_file_class st1] inv
      by (cases fo) (auto simp: adb_creat_win32_def replace_third_def)
  qed (use creat_fine [OF inv, of os path] in simp)
qed

lemma socketpair_faults:
  assumes inv: "fh_inv st" and few: "free_records st < 2"
  shows "\<exists>e. adb_socketpair os st = Inl e"
proof -
  obtain fa st1 where a: "fh_alloc os Fh_socketpair_class st = (fa, st1)" by fastforce
  obtain fb st2 where b: "fh_alloc os Fh_socketpair_class st1 = (fb, st2)" by fastforce
  have "fb = None"
  proof (cases fa)
    case None
    then have "st1 = st" using fh_alloc_none [OF inv] a by auto
    then show ?thesis using a b None by simp
  next
    case (Some f)
    then have i1: "fh_inv st1" "free_records st1 = free_records st - 1" using fh_alloc_ok(1) [OF inv] alloc_takes_one [OF inv] a by auto
    have "0 \<le> free_records st1" by (simp add: free_records_def)
    then have "free_records st1 = 0" using i1(2) few by simp
    then show ?thesis using alloc_fails_iff [OF i1(1), of os Fh_socketpair_class] b by simp
  qed
  then show ?thesis using a b by (cases fa) (simp_all add: adb_socketpair_def Let_def fh_close_ptr_def)
qed

lemma close_fine: "fh_inv st \<Longrightarrow> fine (adb_close_win32 fd st)"
proof (cases "fh_from_int fd st")
  case (Pair fo st1)
  assume a: "fh_inv st"
  note r = from_int_ok [OF a Pair]
  show ?thesis
  proof (cases fo)
    case (Some f)
    then show ?thesis using r(2) [OF Some] a Pair by (auto simp: adb_close_win32_def intro!: fine_bind_close)
  qed (use Pair r(1) in \<open>simp add: adb_close_win32_def\<close>)
qed

text \<open>
  C28: The handle table is type-safe but for three calls. Every call, with any descriptor and whatever the system answers, finds in the union of a record the member of
  its class, never touches a freed socket pair, and leaves a table in which that holds again, or waits for the other end of a socket pair. The exceptions, in
  which the call always faults: shutting down a file or an end of a socket pair (the wrong member of the union is read), making a socket pair
  with fewer than two free records (a null pointer is closed), and creating a file, with a record to spare, under a path of fewer than two characters (an exception nobody catches).
  (\<open>malloc\<close> returns new memory of the size asked for.)
\<close>

theorem win_handles_typed:
  assumes "fh_inv st" and "c = Socketpair \<longrightarrow> new_memory os st"
  shows "if faults os c st then \<exists>e. win_step os c st = Some (Inl e)
    else win_step os c st = None \<and> waiting c st \<or> (\<exists>n st'. win_step os c st = Some (Inr (n, st')) \<and> fh_inv st')"
proof -
  have f: "(\<exists>n st'. r = Inr (n, st') \<and> fh_inv st')" if "fine r" for r :: "(int \<times> winst) outcome" using that by (simp add: fine_def)
  note fs = sockets_fine [OF assms(1)] accept_fine [OF assms(1)] open_fine [OF assms(1)] rw_fine(3) [OF assms(1)] close_fine [OF assms(1)]
  show ?thesis
  proof (cases c)
    case (Rd fd len)
    then show ?thesis using rw_fine(1) [OF assms(1), of os fd len] by auto
  next
    case (Wr fd buf)
    then show ?thesis using rw_fine(2) [OF assms(1), of os fd buf] by auto
  next
    case (Nagle fd)
    then show ?thesis using nagle_fine [OF assms(1), of fd] by auto
  next
    case Socketpair
    show ?thesis
    proof (cases "free_records st < 2")
      case True
      then show ?thesis using Socketpair socketpair_faults [OF assms(1) True, of os] by auto
    next
      case few: False
      then have room: "pair_room os st" using assms Socketpair by (simp add: pair_room_iff)
      show ?thesis
      proof (cases "malloc_pair os = NULL")
        case True
        then show ?thesis using socketpair_no_memory [OF assms(1) room] Socketpair few by auto
      next
        case False
        obtain sv st' where "adb_socketpair os st = Inr (0, sv, st')" "fh_inv st'" by (rule socketpair_result [OF assms(1) room False])
        then show ?thesis using Socketpair few by simp
      qed
    qed
  next
    case (Creat path)
    then show ?thesis using creat_faults [OF assms(1), of os path] by (auto simp: fine_def split: if_splits)
  next
    case (Shutdown fd)
    then show ?thesis using shutdown_fine [OF assms(1), of os fd] by (auto simp: fine_def split: if_splits)
  qed (use fs in \<open>auto simp: socket_network_client_timeout_def intro!: f\<close>)
qed

definition blank_fh :: FHRec where
  "blank_fh = \<lparr>clazz = None, used = False, eof = False, fh_u = U_handle 0, fh_event = 0, fh_mask = 0\<rparr>"

definition win_start :: winst where
  "win_start = \<lparr>fhs = replicate WIN32_MAX_FHS blank_fh, fh_count = 0, sockpairs = Map.empty, w_errno = Eother 0, closed_handles = [], closed_sockets = []\<rparr>"

definition sample_os :: winos where
  "sample_os = \<lparr>CreateFileW = (\<lambda>_ _ _. 7), last_error = 0, ReadFile = (\<lambda>_ _. None), WriteFile = (\<lambda>_ _. None), SetFilePointer = (\<lambda>_ _ _. None),
     sock_recv = (\<lambda>_ _. None), sock_send = (\<lambda>_ _. None), wsa_error = 0, WSACreateEvent = 9, new_socket = 11, host_known = True, connect_ok = True,
     bind_ok = True, listen_ok = True, accepted = 12, malloc_pair = 500,
     pair_junk = (replicate BIP_BUFFER_SIZE CHR ''x'', replicate BIP_BUFFER_SIZE CHR ''y''), wait_ok = True, wide = map of_char\<rparr>"

lemma win_start_inv: "fh_inv win_start"
  by (simp add: fh_inv_def win_start_def typed_def blank_fh_def)

lemma win_start_room: "pair_room sample_os win_start"
  by (simp add: pair_room_def fh_alloc_def win_start_def sample_os_def WIN32_MAX_FHS_def upd_fh_def)

theorem win_handles_typed_witness:
  "\<exists>n st'. win_step sample_os Socketpair win_start = Some (Inr (n, st')) \<and> fh_inv st'"
  using win_handles_typed [OF win_start_inv, of Socketpair sample_os] pair_room_iff [OF win_start_inv, of sample_os] win_start_room by simp

section \<open>From one end to the other\<close>

text \<open>The record \<open>f\<close> is in use as an end of the pair \<open>x\<close> at \<open>p\<close>.\<close>

definition end_at :: "nat \<Rightarrow> addr \<Rightarrow> SocketPairRec \<Rightarrow> winst \<Rightarrow> bool" where
  "end_at f p x st \<longleftrightarrow> length (fhs st) = WIN32_MAX_FHS \<and> f < fh_count st \<and> f < WIN32_MAX_FHS \<and> clazz (fhs st ! f) = Some Fh_socketpair_class \<and>
     fh_u (fhs st ! f) = U_pair p \<and> used (fhs st ! f) \<and> p \<noteq> NULL \<and> sockpairs st p = Some x"

lemma end_found: "end_at f p x st \<Longrightarrow> fh_from_int (int f + 100) st = (Some f, st)"
  by (simp add: end_at_def fh_from_int_def WIN32_FH_BASE_def)

lemma end_write:
  assumes e: "end_at f p x st" and b: "b = (if a_fd x = Some f then a2b_bip x else b2a_bip x)" "bip_ok b" "content b = []"
    and src: "src \<noteq> []" "length src \<le> BIP_BUFFER_SIZE"
  obtains b' where "bip_ok b'" "content b' = src"
    "adb_write_win32 os (int f + 100) src st =
       Some (Inr (int (length src), st\<lparr>sockpairs := (sockpairs st)(p \<mapsto> (if a_fd x = Some f then x\<lparr>a2b_bip := b'\<rparr> else x\<lparr>b2a_bip := b'\<rparr>))\<rparr>))"
proof -
  have w: "can_write b" using can_write_content [OF b(2)] b(3) by (simp add: BIP_BUFFER_SIZE_def)
  obtain b' where b': "bip_write_exec b src = Inr (int (length src), None, b')" "bip_ok b'" "content b' = src"
    using bip_write_exec_ok [OF b(2) w src(1)] b(3) src(2) by (auto simp: min_def)
  have "bip_buffer_write (wait_ok os) b src = Some (Inr (int (length src), None, b'))" using w src(1) b'(1) by (simp add: bip_buffer_write_def)
  then have "fh_socketpair_write os f src st =
      Some (Inr (int (length src), st\<lparr>sockpairs := (sockpairs st)(p \<mapsto> (if a_fd x = Some f then x\<lparr>a2b_bip := b'\<rparr> else x\<lparr>b2a_bip := b'\<rparr>))\<rparr>))"
    using e unfolding b(1) by (simp add: fh_socketpair_write_def end_at_def fh_at_def fh_pair_def Let_def)
  then show thesis using that b' end_found [OF e] e by (simp add: adb_write_win32_def end_at_def)
qed

lemma end_read:
  assumes e: "end_at f p x st" and b: "b = (if a_fd x = Some f then b2a_bip x else a2b_bip x)" "bip_ok b" "content b \<noteq> []"
    and len: "int (length (content b)) \<le> len"
  obtains st' where "adb_read_win32 os (int f + 100) len st = Some (Inr (int (length (content b)), content b, st'))"
proof -
  have r: "can_read b" "0 < len" using can_read_content [OF b(2)] b(3) len by (cases "content b"; simp)+
  obtain b' where b': "bip_read_exec b (nat len) = Inr (int (length (content b)), None, content b, b')"
    using bip_read_exec_ok [OF b(2) r(1), of "nat len"] r(2) len by auto
  have "bip_buffer_read (wait_ok os) b len = Some (Inr (int (length (content b)), None, content b, b'))" using r b' by (simp add: bip_buffer_read_def)
  then obtain st' where "fh_socketpair_read os f len st = Some (Inr (int (length (content b)), content b, st'))"
    using e unfolding b(1) by (simp add: fh_socketpair_read_def end_at_def fh_at_def fh_pair_def Let_def)
  then show thesis using that end_found [OF e] e by (simp add: adb_read_win32_def end_at_def)
qed

text \<open>
  C35: The two descriptors of a new socket pair are different and connected in both directions: what is written to one is read from the other, and
  the writer's own end has nothing to read.
\<close>

theorem socketpair_transfers:
  assumes "fh_inv st" and "pair_room os st" and "malloc_pair os \<noteq> NULL" and "wait_ok os"
    and "src \<noteq> []" and "length src \<le> BIP_BUFFER_SIZE" and "int (length src) \<le> len"
  shows "\<exists>a b st1. adb_socketpair os st = Inr (0, (a, b), st1) \<and> a \<noteq> b \<and>
    (\<forall>(v, w) \<in> {(a, b), (b, a)}. \<exists>st2 st3. adb_write_win32 os v src st1 = Some (Inr (int (length src), st2)) \<and>
       adb_read_win32 os w len st2 = Some (Inr (int (length src), src, st3)) \<and> adb_read_win32 os v len st2 = None)"
proof -
  let ?p = "malloc_pair os"
  obtain fa fb x st1 where e: "adb_socketpair os st = Inr (0, (int fa + 100, int fb + 100), st1)" "fh_inv st1" "fa \<noteq> fb" "fa < fh_count st1" "fb < fh_count st1"
    "fa < WIN32_MAX_FHS" "fb < WIN32_MAX_FHS"
    "\<forall>f\<in>{fa, fb}. clazz (fhs st1 ! f) = Some Fh_socketpair_class \<and> fh_u (fhs st1 ! f) = U_pair ?p \<and> used (fhs st1 ! f)"
    "sockpairs st1 ?p = Some x" "a_fd x = Some fa" "bip_ok (a2b_bip x)" "bip_ok (b2a_bip x)" "content (a2b_bip x) = []" "content (b2a_bip x) = []"
    "\<not> closed (a2b_bip x)" "\<not> closed (b2a_bip x)"
    by (rule socketpair_result [OF assms(1-3)])
  have ends: "end_at fa ?p x st1" "end_at fb ?p x st1" using e assms(3) by (auto simp: end_at_def fh_inv_def)
  have "\<exists>st2 st3. adb_write_win32 os (int f + 100) src st1 = Some (Inr (int (length src), st2)) \<and>
      adb_read_win32 os (int g + 100) len st2 = Some (Inr (int (length src), src, st3)) \<and> adb_read_win32 os (int f + 100) len st2 = None"
    if fg: "f = fa \<and> g = fb \<or> f = fb \<and> g = fa" for f g
  proof -
    have ef: "end_at f ?p x st1" using ends fg by auto
    define b where "b = (if a_fd x = Some f then a2b_bip x else b2a_bip x)"
    have b: "bip_ok b" "content b = []" using e by (simp_all add: b_def)
    obtain b' where b': "bip_ok b'" "content b' = src" "adb_write_win32 os (int f + 100) src st1 =
       Some (Inr (int (length src), st1\<lparr>sockpairs := (sockpairs st1)(?p \<mapsto> (if a_fd x = Some f then x\<lparr>a2b_bip := b'\<rparr> else x\<lparr>b2a_bip := b'\<rparr>))\<rparr>))"
      by (rule end_write [OF ef b_def b assms(5,6)])
    define y where "y = (if a_fd x = Some f then x\<lparr>a2b_bip := b'\<rparr> else x\<lparr>b2a_bip := b'\<rparr>)"
    define st2 where "st2 = st1\<lparr>sockpairs := (sockpairs st1)(?p \<mapsto> y)\<rparr>"
    have e2: "end_at f ?p y st2" "end_at g ?p y st2" using ends fg by (auto simp: end_at_def st2_def)
    have "b' = (if a_fd y = Some g then b2a_bip y else a2b_bip y)" using fg e(3,10) by (auto simp: y_def)
    then obtain st3 where "adb_read_win32 os (int g + 100) len st2 = Some (Inr (int (length src), src, st3))"
      using end_read [OF e2(2), of b' len os] b' assms(5,7) by blast
    moreover have "adb_read_win32 os (int f + 100) len st2 = None"
    proof -
      define c where "c = (if a_fd y = Some f then b2a_bip y else a2b_bip y)"
      have "c = (if a_fd x = Some f then b2a_bip x else a2b_bip x)" using fg e(3,10) by (auto simp: c_def y_def)
      then have "bip_ok c" "content c = []" "\<not> closed c" using e by simp_all
      then have "bip_buffer_read (wait_ok os) c len = None"
        using can_read_content [of c] assms(4,5,7) by (cases src) (auto simp: bip_buffer_read_def)
      then have "fh_socketpair_read os f len st2 = None"
        using e2(1) by (simp add: fh_socketpair_read_def end_at_def fh_at_def fh_pair_def c_def)
      then show ?thesis using end_found [OF e2(1)] e2(1) by (simp add: adb_read_win32_def end_at_def)
    qed
    ultimately show ?thesis using b'(3) unfolding st2_def y_def by blast
  qed
  then show ?thesis using e(1,3) by (intro exI [of _ "int fa + 100"] exI [of _ "int fb + 100"] exI [of _ st1]) auto
qed

theorem socketpair_transfers_witness:
  "\<exists>a b st1. adb_socketpair sample_os win_start = Inr (0, (a, b), st1) \<and> a \<noteq> b \<and>
    (\<exists>st2 st3. adb_write_win32 sample_os a ''hello'' st1 = Some (Inr (5, st2)) \<and> adb_read_win32 sample_os b 100 st2 = Some (Inr (5, ''hello'', st3)))"
  using socketpair_transfers [OF win_start_inv win_start_room, of "''hello''" 100] by (auto simp: sample_os_def BIP_BUFFER_SIZE_def)

text \<open>
  When Winsock has no socket left, \<open>socket_loopback_server\<close> fails and leaves its record in use although it returned no descriptor of it,
  where the other functions that make a socket free theirs.
\<close>

theorem loopback_server_leaks:
  assumes "fh_inv st" and "new_socket os = - 1" and "fh_alloc os Fh_socket_class st = (Some f, st1)"
  shows "clazz (fhs st ! f) = None \<and>
    (\<exists>st'. socket_loopback_server os stream st = Inr (- 1, st') \<and> used (fhs st' ! f)) \<and>
    (\<exists>st'. socket_inaddr_any_server os stream st = Inr (- 1, st') \<and> \<not> used (fhs st' ! f)) \<and>
    (\<exists>st'. socket_loopback_client os st = Inr (- 1, st') \<and> \<not> used (fhs st' ! f)) \<and>
    (\<exists>st'. socket_network_client os st = Inr (- 1, st') \<and> \<not> used (fhs st' ! f))"
proof -
  note a = fh_alloc_ok [OF assms(1,3)]
  obtain st' where st': "fh_close f st1 = Inr st'" "fh_inv st'" "clazz (fhs st' ! f) = None" by (rule fh_close_ok [OF a(1,2)])
  then have "\<not> used (fhs st' ! f)" using typed_at [OF st'(2) a(2)] by (simp add: typed_def)
  then show ?thesis
    using a assms st'(1)
    by (simp add: socket_loopback_server_def socket_inaddr_any_server_def socket_loopback_client_def socket_network_client_def close_and_fail_def)
qed

theorem loopback_server_leaks_witness:
  "\<exists>st'. socket_loopback_server (sample_os\<lparr>new_socket := - 1\<rparr>) True win_start = Inr (- 1, st') \<and> used (fhs st' ! 0)"
proof -
  have "fh_alloc (sample_os\<lparr>new_socket := - 1\<rparr>) Fh_socket_class win_start = (Some 0, snd (fh_alloc (sample_os\<lparr>new_socket := - 1\<rparr>) Fh_socket_class win_start))"
    by (simp add: fh_alloc_def win_start_def WIN32_MAX_FHS_def)
  from loopback_server_leaks [OF win_start_inv _ this, of True] show ?thesis by simp
qed

end
