(* ===== verification/File_Sync_Props.thy ===== *)
theory File_Sync_Props
  imports File_Sync
begin

text \<open>
  What the file sync service guarantees: the bytes of a pushed file reach the file system unchanged,
  a push leaves the service at the next command whatever the file system answers, no input makes it
  write past its buffers, and the places where its replies or its memory accesses go wrong.
\<close>

section \<open>Frames\<close>

definition data_frame :: "byte list \<Rightarrow> byte list" where
  "data_frame bs = syncmsg [ID_DATA, of_nat (length bs)] @ bs"

definition push_stream :: "byte list list \<Rightarrow> u32 \<Rightarrow> byte list" where
  "push_stream cs mtime = concat (map data_frame cs) @ syncmsg [ID_DONE, mtime]"

lemma length_syncmsg [simp]: "length (syncmsg ws) = 4 * length ws"
  by (induction ws) (simp_all add: syncmsg_def)

lemma le_word_head [simp]: "le_word (syncmsg (w # ws) @ bs) = w" "le_word (syncmsg (w # ws)) = w"
proof -
  have "le_word (le_bytes w @ xs) = le_word (le_bytes w)" for xs
    unfolding le_word_def le_bytes_def by simp
  then show "le_word (syncmsg (w # ws) @ bs) = w" "le_word (syncmsg (w # ws)) = w"
    by (simp_all add: syncmsg_def)
qed

lemma drop4_syncmsg [simp]: "drop 4 (syncmsg (w # ws)) = syncmsg ws"
  by (simp add: syncmsg_def)

lemma unat_chunk_len:
  "length bs \<le> SYNC_DATA_MAX \<Longrightarrow> unat (of_nat (length bs) :: u32) = length bs"
  by (simp add: unat_of_nat SYNC_DATA_MAX_def)

lemma ids_distinct [simp]:
  "ID_DATA \<noteq> ID_DONE" "ID_DONE \<noteq> ID_DATA" "ID_OKAY \<noteq> ID_FAIL" "ID_FAIL \<noteq> ID_OKAY"
  "ID_FAIL \<noteq> ID_DATA" "ID_FAIL \<noteq> ID_DONE" "ID_DENT \<noteq> ID_DONE" "ID_DONE \<noteq> ID_DENT"
  by (simp_all add: sync_ids MKID_def)

lemma sync_readx_append:
  "inp st = as @ rest \<Longrightarrow> length as = n \<Longrightarrow> sync_readx n st = (Some as, st\<lparr>inp := rest\<rparr>)"
  by (simp add: sync_readx_def take_exact_def)

lemma sync_readbuf_append:
  "inp st = as @ rest \<Longrightarrow> length as = n \<Longrightarrow>
   sync_readbuf n st = (Some as, st\<lparr>inp := rest, buffer := as @ drop n (buffer st)\<rparr>)"
  by (simp add: sync_readbuf_def sync_readx_append)

lemma send_file_loop_data:
  assumes "inp st = data_frame bs @ rest" and "length bs \<le> SYNC_DATA_MAX"
  defines "st' \<equiv> st\<lparr>inp := rest, buffer := bs @ drop (length bs) (buffer st)\<rparr>"
  shows "send_file_loop k path u fd st =
    (if \<not> fd then send_file_loop k path u False st'
     else let (r, st3) = syscall k (WriteFile bs) st' in
       if \<not> failed r then send_file_loop k path u True st3
       else let saved = errno st3;
                st4 = snd (syscall k CloseFile st3);
                st4 = (if u then snd (syscall k (Unlink path) st4) else st4);
                (ok, st5) = fail_errno k (st4\<lparr>errno := saved\<rparr>) in
            if ok then send_file_loop k path u False st5 else (Inl False, st5))"
proof -
  have r1: "sync_readx 8 st = (Some (syncmsg [ID_DATA, of_nat (length bs)]), st\<lparr>inp := bs @ rest\<rparr>)"
    by (rule sync_readx_append) (simp_all add: assms data_frame_def)
  have r2: "sync_readbuf (length bs) (st\<lparr>inp := bs @ rest\<rparr>) = (Some bs, st')"
    by (subst sync_readbuf_append [of _ bs rest]) (simp_all add: st'_def)
  show ?thesis
    using assms(2) by (subst send_file_loop.simps) (simp add: r1 r2 unat_chunk_len cong: if_cong)
qed

lemma send_file_loop_done:
  assumes "inp st = syncmsg [ID_DONE, t] @ rest"
  shows "send_file_loop k path u fd st = (Inr (fd, t), st\<lparr>inp := rest\<rparr>)"
proof -
  have "sync_readx 8 st = (Some (syncmsg [ID_DONE, t]), st\<lparr>inp := rest\<rparr>)"
    by (rule sync_readx_append) (simp_all add: assms)
  then show ?thesis by (subst send_file_loop.simps) simp
qed

section \<open>Replies that fit\<close>

lemma sync_writex_fits:
  "length bs \<le> room st \<Longrightarrow> sync_writex bs st = (True, st\<lparr>outp := outp st @ bs, room := room st - length bs\<rparr>)"
  by (simp add: sync_writex_def)

definition fail_frame :: "string \<Rightarrow> byte list" where
  "fail_frame msg = syncmsg [ID_FAIL, of_nat (length msg)] @ msg"

lemma length_fail_frame [simp]: "length (fail_frame msg) = 8 + length msg"
  by (simp add: fail_frame_def)

lemma fail_message_fits:
  "8 + length msg \<le> room st \<Longrightarrow>
   fail_message msg st = (True, st\<lparr>outp := outp st @ fail_frame msg, room := room st - (8 + length msg)\<rparr>)"
  by (simp add: fail_message_def sync_writex_def fail_frame_def)

lemma room_syscall [simp]: "room (snd (syscall k c st)) = room st"
  by (auto simp: syscall_def Let_def split: sysres.splits)

lemma outp_syscall [simp]: "outp (snd (syscall k c st)) = outp st"
  by (auto simp: syscall_def Let_def split: sysres.splits)

lemma calls_syscall [simp]: "calls (snd (syscall k c st)) = calls st @ [c]"
  by (auto simp: syscall_def Let_def split: sysres.splits)

lemma syscall_fields:
  assumes "syscall k c st = (r, st')"
  shows "inp st' = inp st" "room st' = room st" "outp st' = outp st" "calls st' = calls st @ [c]"
  using inp_syscall [of k c st] room_syscall [of k c st] outp_syscall [of k c st] calls_syscall [of k c st] assms
  by simp_all


section \<open>A push keeps the service in step with its client\<close>

lemma fail_errno_fits:
  assumes "\<forall>e. length (strerror k e) \<le> L" and "8 + L \<le> room st"
  obtains st' where "fail_errno k st = (True, st')" "inp st' = inp st" "room st \<le> room st' + (8 + L)"
    "outp st' = outp st @ fail_frame (strerror k (errno st))" "errno st' = errno st" "calls st' = calls st"
proof -
  from assms(1) have "length (strerror k (errno st)) \<le> L" by blast
  with assms(2) fail_message_fits [of "strerror k (errno st)" st]
  have "fail_errno k st = (True, st\<lparr>outp := outp st @ fail_frame (strerror k (errno st)),
      room := room st - (8 + length (strerror k (errno st)))\<rparr>)" by (simp add: fail_errno_def)
  then show thesis using that \<open>length (strerror k (errno st)) \<le> L\<close> by simp
qed

lemma send_file_loop_drains:
  assumes "inp st = push_stream cs t @ rest" and "\<forall>bs\<in>set cs. length bs \<le> SYNC_DATA_MAX"
  shows "\<exists>st'. send_file_loop k path u False st = (Inr (False, t), st') \<and> inp st' = rest \<and> room st' = room st \<and>
    outp st' = outp st \<and> calls st' = calls st"
  using assms
proof (induction cs arbitrary: st)
  case Nil
  then show ?case by (simp add: push_stream_def send_file_loop_done)
next
  case (Cons bs cs)
  have len: "length bs \<le> SYNC_DATA_MAX" "inp st = data_frame bs @ (push_stream cs t @ rest)"
    using Cons.prems by (simp_all add: push_stream_def)
  show ?case
    using Cons.IH [of "st\<lparr>inp := push_stream cs t @ rest, buffer := bs @ drop (length bs) (buffer st)\<rparr>"]
      Cons.prems(2) by (simp add: send_file_loop_data [OF len(2,1)])
qed

lemma send_file_loop_in_sync:
  assumes "inp st = push_stream cs t @ rest" and "\<forall>bs\<in>set cs. length bs \<le> SYNC_DATA_MAX"
    and "\<forall>e. length (strerror k e) \<le> L" and "8 + L \<le> room st"
  shows "\<exists>fd st'. send_file_loop k path u True st = (Inr (fd, t), st') \<and> inp st' = rest \<and> room st \<le> room st' + (8 + L) \<and>
    (fd \<longrightarrow> room st' = room st \<and> outp st' = outp st \<and> calls st' = calls st @ map WriteFile cs)"
  using assms(1,2,4)
proof (induction cs arbitrary: st)
  case Nil
  then show ?case by (intro exI [of _ True]) (simp add: push_stream_def send_file_loop_done)
next
  case (Cons bs cs)
  have len: "length bs \<le> SYNC_DATA_MAX" "inp st = data_frame bs @ (push_stream cs t @ rest)"
    using Cons.prems by (simp_all add: push_stream_def)
  define st1 where "st1 = st\<lparr>inp := push_stream cs t @ rest, buffer := bs @ drop (length bs) (buffer st)\<rparr>"
  obtain r st3 where w: "syscall k (WriteFile bs) st1 = (r, st3)" by (cases "syscall k (WriteFile bs) st1")
  note f = syscall_fields [OF w]
  show ?case
  proof (cases "failed r")
    case False
    have "inp st3 = push_stream cs t @ rest" "8 + L \<le> room st3"
      using f Cons.prems(3) by (simp_all add: st1_def)
    from Cons.IH [OF this(1) _ this(2)] Cons.prems(2) obtain fd st'
      where st': "send_file_loop k path u True st3 = (Inr (fd, t), st')" "inp st' = rest" "room st3 \<le> room st' + (8 + L)"
        "fd \<longrightarrow> room st' = room st3 \<and> outp st' = outp st3 \<and> calls st' = calls st3 @ map WriteFile cs"
      by auto
    have "send_file_loop k path u True st = (Inr (fd, t), st')"
      using st'(1) False by (simp add: send_file_loop_data [OF len(2,1)] st1_def [symmetric] w)
    moreover have "room st3 = room st" "outp st3 = outp st" "calls st3 = calls st @ [WriteFile bs]"
      using f by (simp_all add: st1_def)
    ultimately show ?thesis using st'(2-4) by (intro exI [of _ fd] exI [of _ st']) simp
  next
    case True
    define st4 where "st4 = (let st4 = snd (syscall k CloseFile st3) in
       if u then snd (syscall k (Unlink path) st4) else st4)\<lparr>errno := errno st3\<rparr>"
    have st4: "inp st4 = push_stream cs t @ rest" "8 + L \<le> room st4" "room st4 = room st"
      using f Cons.prems(3) by (simp_all add: st4_def Let_def st1_def)
    obtain st5 where st5: "fail_errno k st4 = (True, st5)" "inp st5 = inp st4" "room st4 \<le> room st5 + (8 + L)"
      using fail_errno_fits [OF assms(3) st4(2)] by metis
    have "inp st5 = push_stream cs t @ rest" using st5 st4 by simp
    from send_file_loop_drains [OF this, of k path u] Cons.prems(2) obtain st6
      where "send_file_loop k path u False st5 = (Inr (False, t), st6)" "inp st6 = rest" "room st6 = room st5" by auto
    moreover from this(1) have "send_file_loop k path u True st = (Inr (False, t), st6)"
      using True st5(1) unfolding send_file_loop_data [OF len(2,1)] st1_def [symmetric] w st4_def
      by (cases u) (simp_all add: Let_def)
    ultimately show ?thesis using st5 st4(3) by (intro exI [of _ False] exI [of _ st6]) simp
  qed
qed

lemma mkdirs_loop_fields:
  "inp (snd (mkdirs_loop k names own st)) = inp st \<and> room (snd (mkdirs_loop k names own st)) = room st \<and>
   outp (snd (mkdirs_loop k names own st)) = outp st"
proof (induction names arbitrary: own st)
  case (Cons name names)
  show ?case
    by (auto simp: Let_def split_beta Cons split: sysres.split)
qed simp

lemma mkdirs_fields [simp]:
  "inp (snd (mkdirs k name st)) = inp st" "room (snd (mkdirs k name st)) = room st"
  "outp (snd (mkdirs k name st)) = outp st"
  by (simp_all add: mkdirs_def mkdirs_loop_fields)

lemma fail_errno_fits_fields:
  assumes "\<forall>e. length (strerror k e) \<le> L" and "8 + L \<le> room st"
  shows "fst (fail_errno k st)" "inp (snd (fail_errno k st)) = inp st"
    "room st \<le> room (snd (fail_errno k st)) + (8 + L)"
  using fail_errno_fits [OF assms] by (metis fst_conv snd_conv)+

lemma fail_errno_room:
  assumes "\<forall>e. length (strerror k e) \<le> L" and "8 + L \<le> r" and "room st = r"
  shows "r \<le> room (snd (fail_errno k st)) + (8 + L)"
  using fail_errno_fits_fields(3) [OF assms(1), of st] assms(2,3) by simp

lemma send_file_create_fits:
  assumes L: "\<forall>e. length (strerror k e) \<le> L" and "8 + L \<le> room st"
    and "send_file_create k path mode st = (gone, fd, st')"
  shows "\<not> gone \<and> inp st' = inp st \<and> room st \<le> room st' + (8 + L) \<and> (fd \<longrightarrow> room st' = room st)"
proof -
  note fits = fail_errno_fits_fields [OF L]
  show ?thesis using assms(2,3)
    by (auto simp: send_file_create_def Let_def split_beta fits intro!: fail_errno_room [OF L] split: if_splits)
qed

lemma send_file_open_fits:
  assumes L: "\<forall>e. length (strerror k e) \<le> L" and "8 + L \<le> room st"
    and "send_file_open k path uid gid mode fd st = (gone, fd', st')"
  shows "\<not> gone \<and> inp st' = inp st \<and> room st \<le> room st' + (8 + L)"
proof -
  note fits = fail_errno_fits_fields [OF L]
  show ?thesis using assms(2,3)
    by (auto simp: send_file_open_def Let_def split_beta fits intro!: fail_errno_room [OF L] split: if_splits)
qed

lemma send_file_loop_sync:
  assumes "inp st = push_stream cs t @ rest" and "\<forall>bs\<in>set cs. length bs \<le> SYNC_DATA_MAX"
    and "\<forall>e. length (strerror k e) \<le> L" and "fd \<Longrightarrow> 8 + L \<le> room st"
  obtains fd' st' where "send_file_loop k path u fd st = (Inr (fd', t), st')" "inp st' = rest"
    "fd' \<longrightarrow> fd \<and> room st' = room st"
  using send_file_loop_drains [OF assms(1,2), of k path u] send_file_loop_in_sync [OF assms(1-3), of path u] assms(4)
  by (cases fd) (simp, metis)+


text \<open>
  C31: whatever the file system answers, a push of chunks of at most 64 KB leaves the service exactly
  behind the push, ready for the next command, provided the peer takes the replies (at most three,
  no longer than the longest error text).
\<close>

theorem handle_send_file_in_sync:
  assumes "inp st = push_stream cs mtime @ rest" and "\<forall>bs\<in>set cs. length bs \<le> SYNC_DATA_MAX"
    and "\<forall>e. length (strerror k e) \<le> L" and "3 * (8 + L) \<le> room st"
  shows "fst (handle_send_file k path uid gid mode do_unlink st) \<and>
    inp (snd (handle_send_file k path uid gid mode do_unlink st)) = rest"
proof -
  obtain gone fd st1 where c: "send_file_create k path mode st = (gone, fd, st1)"
    by (cases "send_file_create k path mode st")
  from send_file_create_fits [OF assms(3) _ c] assms(4)
  have st1: "\<not> gone" "inp st1 = inp st" "2 * (8 + L) \<le> room st1" by simp_all
  obtain gone2 fd2 st2 where d: "send_file_open k path uid gid mode fd st1 = (gone2, fd2, st2)"
    by (cases "send_file_open k path uid gid mode fd st1")
  from send_file_open_fits [OF assms(3) _ d] st1
  have st2: "\<not> gone2" "inp st2 = push_stream cs mtime @ rest" "8 + L \<le> room st2" by (simp_all add: assms(1))
  from send_file_loop_sync [OF st2(2) assms(2,3) st2(3)] obtain fd3 st3
    where "send_file_loop k path do_unlink fd2 st2 = (Inr (fd3, mtime), st3)" "inp st3 = rest"
      "fd3 \<longrightarrow> room st3 = room st2" by metis
  with c d st1(1) st2(1,3) show ?thesis
    by (simp add: handle_send_file_def sync_writex_fits)
qed


text \<open>A file system that accepts everything, and a small push on it.\<close>

definition all_done :: kernel where
  "all_done = \<lparr>answer = (\<lambda>cs c. Done), fs_config = (\<lambda>p d. (0, 0, 0x1a4)), strerror = (\<lambda>e. ''no''),
     ulong_max = 4294967295\<rparr>"

definition no_dirs :: kernel where
  "no_dirs = all_done\<lparr>answer := (\<lambda>cs c. case c of OpenExcl p m \<Rightarrow> Err ENOENT | Mkdir p m \<Rightarrow> Err (Eother 30) | _ \<Rightarrow> Done)\<rparr>"

definition push_sample :: syncst where
  "push_sample = \<lparr>inp = push_stream [''ab'', ''c''] 7 @ ''rest'', buffer = [], outp = [], room = 100,
     errno = Eother 0, calls = []\<rparr>"

theorem handle_send_file_in_sync_witness:
  "fst (handle_send_file no_dirs ''/d/f'' 0 0 0x1a4 True push_sample) \<and>
    inp (snd (handle_send_file no_dirs ''/d/f'' 0 0 0x1a4 True push_sample)) = ''rest''"
  by (rule handle_send_file_in_sync [where cs = "[''ab'', ''c'']" and mtime = 7 and L = 2])
     (simp_all add: push_sample_def no_dirs_def all_done_def SYNC_DATA_MAX_def)

lemma failed_syscall: "failed (fst (syscall k c st)) = failed (answer k (calls st) c)"
  by (simp add: syscall_def Let_def)

lemma send_file_loop_writes:
  assumes "inp st = push_stream cs t @ rest" and "\<forall>bs\<in>set cs. length bs \<le> SYNC_DATA_MAX"
    and "\<And>cs c. \<not> failed (answer k cs c)"
  shows "\<exists>st'. send_file_loop k path u True st = (Inr (True, t), st') \<and> inp st' = rest \<and> room st' = room st \<and>
    outp st' = outp st \<and> calls st' = calls st @ map WriteFile cs"
  using assms(1,2)
proof (induction cs arbitrary: st)
  case Nil
  then show ?case by (simp add: push_stream_def send_file_loop_done)
next
  case (Cons bs cs)
  have len: "length bs \<le> SYNC_DATA_MAX" "inp st = data_frame bs @ (push_stream cs t @ rest)"
    using Cons.prems by (simp_all add: push_stream_def)
  define st1 where "st1 = st\<lparr>inp := push_stream cs t @ rest, buffer := bs @ drop (length bs) (buffer st)\<rparr>"
  have "inp (snd (syscall k (WriteFile bs) st1)) = push_stream cs t @ rest" by (simp add: st1_def)
  from Cons.IH [OF this] Cons.prems(2) show ?case
    by (simp add: send_file_loop_data [OF len(2,1)] st1_def [symmetric] split_beta failed_syscall assms(3))
       (simp add: st1_def)
qed

text \<open>
  When the file system refuses nothing, a push creates the file, sets its owner and mode, writes exactly the chunks of the stream in their order, closes
  and relabels the file, sets its time to the one sent, and answers \<open>OKAY\<close>.
\<close>

lemma handle_send_file_writes:
  assumes "inp st = push_stream cs mtime @ rest" and "\<forall>bs\<in>set cs. length bs \<le> SYNC_DATA_MAX"
    and "\<And>cs c. \<not> failed (answer k cs c)" and "8 \<le> room st"
  shows "\<exists>st'. handle_send_file k path uid gid mode do_unlink st = (True, st') \<and> inp st' = rest \<and>
    calls st' = calls st @ [OpenExcl path mode, Fchown uid gid, Fchmod mode] @ map WriteFile cs @
      [CloseFile, Restorecon path, Utime path mtime] \<and>
    outp st' = outp st @ syncmsg [ID_OKAY, 0]"
proof -
  define st1 where "st1 = snd (syscall k (OpenExcl path mode) st)"
  define st2 where "st2 = snd (syscall k (Fchmod mode) (snd (syscall k (Fchown uid gid) st1)))"
  have o: "send_file_create k path mode st = (False, True, st1)"
    by (simp add: send_file_create_def split_beta failed_syscall assms(3) st1_def)
  have p: "send_file_open k path uid gid mode True st1 = (False, True, st2)"
    by (simp add: send_file_open_def split_beta failed_syscall assms(3) st2_def)
  have "inp st2 = push_stream cs mtime @ rest" by (simp add: st2_def st1_def assms(1))
  from send_file_loop_writes [OF this assms(2,3), of path do_unlink] o p assms(4) show ?thesis
    by (auto simp: handle_send_file_def sync_writex_fits st2_def st1_def)
qed

section \<open>Two failures for one push\<close>

text \<open>
  when the missing directories of a file cannot be created, the service reports the failure twice:
  the reply to one push is two \<open>FAIL\<close> frames, although a client reads one status per push.
\<close>

theorem push_fails_twice:
  assumes "syscall k (OpenExcl path mode) st = (Err ENOENT, st1)" and "mkdirs k path st1 = (False, st2)"
    and "errno st2 \<noteq> EEXIST" and "inp st = push_stream cs mtime @ rest" and "\<forall>bs\<in>set cs. length bs \<le> SYNC_DATA_MAX"
    and "2 * (8 + length (strerror k (errno st2))) \<le> room st"
  shows "outp (snd (handle_send_file k path uid gid mode do_unlink st)) =
    outp st @ fail_frame (strerror k (errno st2)) @ fail_frame (strerror k (errno st2))"
proof -
  let ?F = "fail_frame (strerror k (errno st2))"
  have st2: "inp st2 = inp st" "room st2 = room st" "outp st2 = outp st" "errno st1 = ENOENT"
    using mkdirs_fields [of k path st1] syscall_fields [OF assms(1)] assms(1,2)
    by (auto simp: syscall_def Let_def split: sysres.splits)
  define st3 where "st3 = st2\<lparr>outp := outp st2 @ ?F, room := room st2 - length ?F\<rparr>"
  define st4 where "st4 = st3\<lparr>outp := outp st3 @ ?F, room := room st3 - length ?F\<rparr>"
  have f3: "fail_errno k st2 = (True, st3)" and f4: "fail_errno k st3 = (True, st4)"
    using assms(6) st2 by (simp_all add: fail_errno_def fail_message_fits st3_def st4_def)
  have c: "send_file_create k path mode st = (False, False, st3)"
    using assms(1,2) st2 by (simp add: send_file_create_def failed_def f3)
  have d: "send_file_open k path uid gid mode False st3 = (False, False, st4)"
    using assms(3) by (simp add: send_file_open_def f4) (simp add: st3_def)
  have "inp st4 = push_stream cs mtime @ rest" using st2 assms(4) by (simp add: st4_def st3_def)
  from send_file_loop_drains [OF this assms(5), of k path do_unlink] c d st2 show ?thesis
    by (auto simp: handle_send_file_def st4_def st3_def)
qed

theorem push_fails_twice_witness:
  "outp (snd (handle_send_file no_dirs ''/d/f'' 0 0 0x1a4 True push_sample)) =
     outp push_sample @ fail_frame ''no'' @ fail_frame ''no''"
proof -
  let ?st1 = "snd (syscall no_dirs (OpenExcl ''/d/f'' 0x1a4) push_sample)"
  let ?st2 = "snd (mkdirs no_dirs ''/d/f'' ?st1)"
  have 1: "syscall no_dirs (OpenExcl ''/d/f'' 0x1a4) push_sample = (Err ENOENT, ?st1)"
    by (simp add: syscall_def no_dirs_def)
  have 2: "mkdirs no_dirs ''/d/f'' ?st1 = (False, ?st2)" and 3: "errno ?st2 = Eother 30"
    by (simp_all add: mkdirs_def dir_prefixes_def upt_rec is_on_system_def syscall_def no_dirs_def all_done_def Let_def)
  show ?thesis
    using push_fails_twice [OF 1 2, of "[''ab'', ''c'']" 7 "''rest''" 0 0 True] 3
    by (simp add: push_sample_def SYNC_DATA_MAX_def no_dirs_def all_done_def)
qed


section \<open>The service never writes past its buffers\<close>

lemma do_list_loop_safe:
  "length path \<le> 1024 \<Longrightarrow> \<forall>n\<in>set names. length n \<le> 255 \<Longrightarrow> do_list_loop k path names st \<noteq> Inl f"
proof (induction names arbitrary: st)
  case (Cons name names)
  then show ?case by (auto simp: Let_def split_beta split: sysres.split)
qed simp

text \<open>A kernel whose directory entries fit the file name limit of Linux.\<close>

definition names_fit :: "kernel \<Rightarrow> bool" where
  "names_fit k = (\<forall>cs path ns. answer k cs (Readdir path) = Names ns \<longrightarrow> (\<forall>n\<in>set ns. length n \<le> 255))"

lemma do_list_safe:
  assumes "names_fit k" and "length path \<le> 1024"
  shows "do_list k path st \<noteq> Inl f"
proof -
  have "do_list_loop k path ns st' \<noteq> Inl g" if "answer k (calls st) (Readdir path) = Names ns" for ns st' g
    using do_list_loop_safe [OF assms(2)] assms(1) that unfolding names_fit_def by blast
  then show ?thesis
    by (auto simp: do_list_def syscall_def Let_def bindE_def split: sysres.splits sum.splits)
qed

lemma do_send_fault: "do_send k path st = Inl f \<Longrightarrow> f = Bad_access ''buffer''"
  by (auto simp: do_send_def handle_send_link_def Let_def split_beta split: if_splits option.splits)

lemma length_c_string: "length (c_string bs) \<le> length bs"
  by (simp add: c_string_def length_takeWhile_le)

lemma sync_command_fault:
  assumes "names_fit k" and "length name \<le> 1024" and "sync_command k ident name st = Inl f"
  shows "f = Bad_access ''buffer''"
  using assms(3) do_list_safe [OF assms(1,2), of st f] do_send_fault [of k name st f]
  by (auto simp: sync_command_def split: if_splits)

lemma sync_readx_length: "sync_readx n st = (Some bs, st') \<Longrightarrow> length bs = n"
  by (auto simp: sync_readx_def take_exact_def split: if_splits)

lemma sync_loop_safe:
  assumes "names_fit k"
  shows "case sync_loop k st of Inl f \<Rightarrow> f = Bad_access ''buffer'' | Inr st' \<Rightarrow> later st st'"
proof (induction "length (inp st)" arbitrary: st rule: less_induct)
  case less
  obtain x st1 where r1: "sync_readx 8 st = (x, st1)" by (cases "sync_readx 8 st")
  show ?case
  proof (cases x)
    case None
    then show ?thesis using r1 later_step_trans(3) [OF later_eq(3) [OF r1]] by (simp add: sync_loop.simps [of k st])
  next
    case (Some msg)
    let ?n = "unat (le_word (drop 4 msg))"
    have l1: "later st st1" "length (inp st1) < length (inp st)" using later_strict r1 Some by fastforce+
    obtain y st2 where r2: "sync_readx ?n st1 = (y, st2)" by (cases "sync_readx ?n st1")
    have l2: "later st st2" using l1(1) later_eq(3) [OF r2] by (rule later_trans)
    show ?thesis
    proof (cases "1024 < ?n \<or> y = None")
      case True
      then show ?thesis using r1 Some r2 later_step_trans(3) [OF l1(1)] later_step_trans(3) [OF l2]
        by (auto simp: sync_loop.simps [of k st] Let_def)
    next
      case False
      then obtain name where name: "y = Some name" "length (c_string name) \<le> 1024"
        using sync_readx_length r2 length_c_string by (metis le_trans linorder_not_le not_Some_eq)
      show ?thesis
      proof (cases "sync_command k (le_word msg) (c_string name) st2")
        case (Inl f)
        then show ?thesis using sync_command_fault [OF assms name(2) Inl] False r1 Some r2 name
          by (simp add: sync_loop.simps [of k st])
      next
        case (Inr p)
        obtain go st3 where p: "p = (go, st3)" by (cases p)
        have l3: "later st st3" using l2 later_outD [OF later_sync_command Inr [unfolded p]] by (rule later_trans)
        have "length (inp st3) < length (inp st)"
          using later_inp [OF later_outD [OF later_sync_command Inr [unfolded p]]] later_inp [OF later_eq(3) [OF r2]] l1(2)
          by simp
        note IH = less [OF this]
        show ?thesis using IH l3 False r1 Some r2 name Inr p
          by (auto simp: sync_loop.simps [of k st] intro: later_trans split: sum.splits)
      qed
    qed
  qed
qed

text \<open>
  C30: for every input and every answer of the file system (with directory entries of at most 255
  bytes), the service comes to an end; it consumes the input from the front and only adds to its
  replies, never writes past the end of its 64 KB buffer, and closes the socket last. The only invalid
  access it can make is reading past the buffer when it creates a link.
\<close>

theorem file_sync_service_safe:
  assumes "names_fit k" and "length mem = SYNC_DATA_MAX"
  shows "case file_sync_service k (Some mem) st of
      Inl f \<Rightarrow> f = Bad_access ''buffer''
    | Inr st' \<Rightarrow> suffix (inp st') (inp st) \<and> prefix (outp st) (outp st') \<and> length (buffer st') = SYNC_DATA_MAX \<and>
        (\<exists>cs. calls st' = calls st @ cs @ [CloseSocket])"
proof -
  have buf: "buffer (snd (syscall k c s)) = buffer s" for c s
    by (auto simp: syscall_def Let_def split: sysres.splits)
  from sync_loop_safe [OF assms(1), of "st\<lparr>buffer := mem\<rparr>"] assms(2) show ?thesis
    by (auto simp: file_sync_service_def bindE_def later_def prefix_def buf split: sum.splits)
qed

theorem file_sync_service_safe_witness:
  "case file_sync_service all_done (Some (replicate SYNC_DATA_MAX CHR ''x'')) push_sample of
      Inl f \<Rightarrow> f = Bad_access ''buffer''
    | Inr st' \<Rightarrow> suffix (inp st') (inp push_sample) \<and> prefix (outp push_sample) (outp st') \<and>
        length (buffer st') = SYNC_DATA_MAX \<and> (\<exists>cs. calls st' = calls push_sample @ cs @ [CloseSocket])"
  by (rule file_sync_service_safe) (simp_all add: names_fit_def all_done_def)

text \<open>
  the guard of \<open>do_list\<close> on the length of an entry is too weak by one: with a path of 1024 bytes, the longest
  that the service accepts, an entry of 256 bytes passes it and overruns \<open>tmp\<close>; entries of at most 255 bytes
  are safe.
\<close>

theorem do_list_overrun:
  assumes "length path = 1024" and "answer k (calls st) (Readdir path) = Names (name # names)"
  shows "(length name = 256 \<longrightarrow> do_list k path st = Inl (Bad_access ''tmp'')) \<and>
         ((\<forall>n\<in>set (name # names). length n \<le> 255) \<longrightarrow> (\<exists>r. do_list k path st = Inr r))"
proof (intro conjI impI)
  assume "length name = 256"
  then show "do_list k path st = Inl (Bad_access ''tmp'')"
    using assms by (simp add: do_list_def syscall_def)
next
  assume ok: "\<forall>n\<in>set (name # names). length n \<le> 255"
  obtain ok st' where "do_list_loop k path (name # names) (st\<lparr>calls := calls st @ [Readdir path]\<rparr>) = Inr (ok, st')"
    using do_list_loop_safe [of path "name # names" k "st\<lparr>calls := calls st @ [Readdir path]\<rparr>"] ok assms(1)
    by (metis old.prod.exhaust order_refl old.sum.exhaust)
  then show "\<exists>r. do_list k path st = Inr r"
    using assms(2) by (cases ok) (auto simp: do_list_def syscall_def simp del: do_list_loop.simps)
qed

definition long_dir :: kernel where
  "long_dir = all_done\<lparr>answer := (\<lambda>cs c. case c of Readdir p \<Rightarrow> Names [replicate 256 CHR ''n''] | _ \<Rightarrow> Done)\<rparr>"

theorem do_list_overrun_witness:
  "do_list long_dir (replicate 1024 CHR ''p'') push_sample = Inl (Bad_access ''tmp'')"
proof -
  have "length (replicate 1024 CHR ''p'') = 1024" "length (replicate 256 CHR ''n'') = 256"
    by (simp_all only: length_replicate)
  moreover have "answer long_dir (calls push_sample) (Readdir (replicate 1024 CHR ''p'')) = Names (replicate 256 CHR ''n'' # [])"
    by (simp add: long_dir_def)
  ultimately show ?thesis using do_list_overrun by blast
qed

text \<open>
  the target of a pushed link ends at the first zero byte of the shared buffer. When the data has no zero
  byte, the target goes on with what an earlier transfer left behind it, and with no zero byte left at all
  the service reads past the end of the buffer.
\<close>

theorem send_link_target:
  assumes "inp st = data_frame bs @ rest" and "length bs \<le> SYNC_DATA_MAX"
  defines "left \<equiv> drop (length bs) (buffer st)"
  shows "if CHR 0x00 \<in> set (bs @ left)
    then \<exists>r. handle_send_link k path st = Inr r \<and>
       prefix (calls st @ [Symlink (if CHR 0x00 \<in> set bs then c_string bs else bs @ c_string left) path]) (calls (snd r))
    else handle_send_link k path st = Inl (Bad_access ''buffer'')"
proof -
  have r1: "sync_readx 8 st = (Some (syncmsg [ID_DATA, of_nat (length bs)]), st\<lparr>inp := bs @ rest\<rparr>)"
    by (rule sync_readx_append) (simp_all add: assms(1) data_frame_def)
  define st1 where "st1 = st\<lparr>inp := rest, buffer := bs @ left\<rparr>"
  have r2: "sync_readbuf (length bs) (st\<lparr>inp := bs @ rest\<rparr>) = (Some bs, st1)"
    by (subst sync_readbuf_append [of _ bs rest]) (simp_all add: st1_def left_def)
  have t: "c_string (bs @ left) = (if CHR 0x00 \<in> set bs then c_string bs else bs @ c_string left)"
    by (auto simp: c_string_def takeWhile_append)
  define st2 where "st2 = snd (syscall k (Symlink (c_string (bs @ left)) path) st1)"
  have c2: "calls st2 = calls st @ [Symlink (c_string (bs @ left)) path]" by (simp add: st2_def st1_def)
  show ?thesis
  proof (cases "CHR 0x00 \<in> set (bs @ left)")
    case False
    then show ?thesis using assms(2) by (simp add: handle_send_link_def r1 unat_chunk_len r2 st1_def)
  next
    case True
    obtain r where w: "syscall k (Symlink (c_string (bs @ left)) path) st1 = (r, st2)"
      unfolding st2_def by (metis prod.collapse)
    have b: "buffer st1 = bs @ left" by (simp add: st1_def)
    note unf = handle_send_link_def r1 prod.case option.case le_word_head drop4_syncmsg
      unat_chunk_len [OF assms(2)] r2 Let_def b w
    have no: "\<not> SYNC_DATA_MAX < length bs" "CHR 0x00 \<notin> set (bs @ left) \<longleftrightarrow> False" using True assms(2) by auto
    have "later_out st2 (handle_send_link k path st)"
      unfolding unf
      by (rule later_out_rules later_out_bind3 later_rules later_read_trans later_mkdirs_trans | assumption
      | simp only: snd_conv no split: option.split | intro conjI allI impI)+
    moreover have "\<exists>p. handle_send_link k path st = Inr p"
      unfolding unf by (simp only: no if_False simp_thms) (simp split: prod.split)
    ultimately show ?thesis using True c2 t by (auto simp: later_def later_out_def)
  qed
qed

definition stale_sample :: syncst where
  "stale_sample = \<lparr>inp = data_frame ''/a'' @ syncmsg [ID_DONE, 0], buffer = ''oldfile'' @ [CHR 0x00], outp = [], room = 100,
     errno = Eother 0, calls = []\<rparr>"

theorem send_link_target_witness:
  "\<exists>r. handle_send_link all_done ''/l'' stale_sample = Inr r \<and> prefix [Symlink ''/adfile'' ''/l''] (calls (snd r))"
proof -
  have "inp stale_sample = data_frame ''/a'' @ syncmsg [ID_DONE, 0]" by (simp add: stale_sample_def)
  from send_link_target [OF this, of all_done "''/l''"] show ?thesis
    by (simp add: stale_sample_def SYNC_DATA_MAX_def c_string_def)
qed

end
