(* ===== verification/Sync_Client_Props.thy ===== *)
theory Sync_Client_Props
  imports Sync_Client File_Sync_Props
begin

text \<open>
  The client and the service of the file transfers together: a file that is pushed arrives as it was read, a file that is pulled is written as the
  service read it, and each side reads exactly what the other side wrote.
\<close>

section \<open>Reading a file in chunks\<close>

text \<open>The chunks in which either side reads a file, and the bytes it has.\<close>

function chunks :: "rd_ev list \<Rightarrow> byte list list" where
  "chunks [] = []"
| "chunks (Fin # s) = []"
| "chunks (Fail e # s) = (if e = EINTR then chunks s else [])"
| "chunks (Seg bs # s) =
     (if bs = [] then []
      else take SYNC_DATA_MAX bs # chunks (if length bs > SYNC_DATA_MAX then Seg (drop SYNC_DATA_MAX bs) # s else s))"
  by pat_completeness auto

termination chunks
  by (relation "measure (\<lambda>s. sum_list (map ev_size s))") (auto simp: SYNC_DATA_MAX_def)

declare chunks.simps(4) [simp del]

fun contents :: "rd_ev list \<Rightarrow> byte list" where
  "contents [] = []"
| "contents (Fin # s) = []"
| "contents (Fail e # s) = (if e = EINTR then contents s else [])"
| "contents (Seg bs # s) = (if bs = [] then [] else bs @ contents s)"

fun readable :: "rd_ev list \<Rightarrow> bool" where
  "readable [] = True"
| "readable (Fin # s) = True"
| "readable (Fail e # s) = (e = EINTR \<and> readable s)"
| "readable (Seg bs # s) = (bs = [] \<or> readable s)"

definition after_chunk :: "byte list \<Rightarrow> rd_ev list \<Rightarrow> rd_ev list" where
  "after_chunk bs s = (if length bs > SYNC_DATA_MAX then Seg (drop SYNC_DATA_MAX bs) # s else s)"

lemma chunks_Seg: "bs \<noteq> [] \<Longrightarrow> chunks (Seg bs # s) = take SYNC_DATA_MAX bs # chunks (after_chunk bs s)"
  by (simp add: chunks.simps(4) [of bs s] after_chunk_def)

lemma contents_Seg: "bs \<noteq> [] \<Longrightarrow> contents (Seg bs # s) = take SYNC_DATA_MAX bs @ contents (after_chunk bs s)"
  by (simp add: after_chunk_def)

lemma readable_Seg: "bs \<noteq> [] \<Longrightarrow> readable (Seg bs # s) = readable (after_chunk bs s)"
  by (simp add: after_chunk_def)

text \<open>Induction along the reads.\<close>

lemma read_induct [case_names Nil Fin Intr Err Empty Chunk]:
  assumes "P []" "\<And>s. P (Fin # s)" "\<And>s. P s \<Longrightarrow> P (Fail EINTR # s)" "\<And>e s. e \<noteq> EINTR \<Longrightarrow> P (Fail e # s)" "\<And>s. P (Seg [] # s)"
    "\<And>bs s. bs \<noteq> [] \<Longrightarrow> P (after_chunk bs s) \<Longrightarrow> P (Seg bs # s)"
  shows "P s"
proof (induction s rule: chunks.induct)
  case (3 e s)
  then show ?case using assms(3,4) by (cases "e = EINTR") auto
next
  case (4 bs s)
  then show ?case using assms(5,6) by (cases "bs = []") (auto simp: after_chunk_def)
qed (fact assms)+

lemma concat_chunks: "concat (chunks s) = contents s"
  by (induction s rule: read_induct) (simp_all add: chunks.simps(4) [of "[]"] chunks_Seg contents_Seg contents.simps(4) [of "[]"] del: contents.simps(4))

lemma length_chunk: "bs \<in> set (chunks s) \<Longrightarrow> length bs \<le> SYNC_DATA_MAX"
  by (induction s rule: read_induct) (auto simp: chunks.simps(4) [of "[]"] chunks_Seg)

definition frames :: "byte list list \<Rightarrow> byte list" where
  "frames cs = concat (map data_frame cs)"

lemma frames_simps [simp]: "frames [] = []" "frames (bs # cs) = data_frame bs @ frames cs"
  by (simp_all add: frames_def)

lemma length_data_frame [simp]: "length (data_frame bs) = 8 + length bs"
  by (simp add: data_frame_def)

text \<open>Both loops turn the file into the same frames.\<close>

lemma data_file_loop_frames:
  assumes "length (frames (chunks s)) \<le> room st"
  shows "\<exists>st'. data_file_loop s st = (0, st') \<and> inp st' = inp st \<and> outp st' = outp st @ frames (chunks s) \<and>
    room st' = room st - length (frames (chunks s)) \<and> calls st' = calls st"
  using assms
proof (induction s arbitrary: st rule: read_induct)
  case (Empty s)
  then show ?case by (simp add: data_file_loop.simps(4) chunks.simps(4) [of "[]"])
next
  case (Chunk bs s)
  let ?c = "take SYNC_DATA_MAX bs"
  define st1 where "st1 = st\<lparr>outp := outp st @ data_frame ?c, room := room st - length (data_frame ?c)\<rparr>"
  have "length (data_frame ?c) + length (frames (chunks (after_chunk bs s))) \<le> room st"
    using Chunk.prems by (simp add: chunks_Seg [OF Chunk.hyps(1)])
  then have w: "sync_writex (data_frame ?c) st = (True, st1)" and r: "length (frames (chunks (after_chunk bs s))) \<le> room st1"
    by (simp_all add: sync_writex_def st1_def)
  have "data_file_loop (Seg bs # s) st = data_file_loop (after_chunk bs s) st1"
    using Chunk.hyps(1) w [unfolded data_frame_def] by (simp add: data_file_loop.simps(4) [of bs s] after_chunk_def)
  with Chunk.IH [OF r] show ?case
    by (auto simp: st1_def chunks_Seg [OF Chunk.hyps(1)])
next
  case (Intr s)
  then show ?case using Intr.IH [of "st\<lparr>errno := EINTR\<rparr>"] by simp
qed simp_all

lemma do_recv_loop_frames:
  assumes "length (frames (chunks s)) \<le> room st" and "readable s"
  shows "\<exists>st'. do_recv_loop k s st = (None, st') \<and> inp st' = inp st \<and> outp st' = outp st @ frames (chunks s) \<and>
    room st' = room st - length (frames (chunks s)) \<and> calls st' = calls st"
  using assms
proof (induction s arbitrary: st rule: read_induct)
  case (Empty s)
  then show ?case by (simp add: do_recv_loop.simps(4) chunks.simps(4) [of "[]"])
next
  case (Chunk bs s)
  let ?c = "take SYNC_DATA_MAX bs"
  define st0 where "st0 = st\<lparr>buffer := ?c @ drop (length ?c) (buffer st)\<rparr>"
  define st1 where "st1 = st0\<lparr>outp := outp st0 @ syncmsg [ID_DATA, of_nat (length ?c)], room := room st0 - 8\<rparr>"
  define st2 where "st2 = st1\<lparr>outp := outp st1 @ ?c, room := room st1 - length ?c\<rparr>"
  have len: "8 + length ?c + length (frames (chunks (after_chunk bs s))) \<le> room st"
    using Chunk.prems(1) by (simp add: chunks_Seg [OF Chunk.hyps(1)])
  then have w: "sync_writex (syncmsg [ID_DATA, of_nat (length ?c)]) st0 = (True, st1)" "sync_writex ?c st1 = (True, st2)"
    and r: "length (frames (chunks (after_chunk bs s))) \<le> room st2"
    by (simp_all add: sync_writex_def st2_def st1_def st0_def)
  have "do_recv_loop k (Seg bs # s) st = do_recv_loop k (after_chunk bs s) st2"
    using Chunk.hyps(1)
    by (simp only: do_recv_loop.simps(4) [of k bs s] Let_def st0_def [symmetric] w prod.case if_True if_False after_chunk_def)
  with Chunk.IH [OF r] Chunk.prems(2) [unfolded readable_Seg [OF Chunk.hyps(1)]] show ?case
    by (auto simp: st2_def st1_def st0_def chunks_Seg [OF Chunk.hyps(1)] data_frame_def)
next
  case (Intr s)
  then show ?case using Intr.IH [of "st\<lparr>errno := EINTR\<rparr>"] by simp
qed simp_all

section \<open>The client sends a file\<close>

definition send_name :: "string \<Rightarrow> u32 \<Rightarrow> string" where
  "send_name rpath mode = rpath @ '','' @ fmt_d (sint mode)"

definition request :: "u32 \<Rightarrow> string \<Rightarrow> byte list" where
  "request ident path = syncmsg [ident, of_nat (length path)] @ path"

definition push_message :: "string \<Rightarrow> u32 \<Rightarrow> u32 \<Rightarrow> byte list list \<Rightarrow> byte list" where
  "push_message rpath mode mtime cs = request ID_SEND (send_name rpath mode) @ push_stream cs mtime"

lemma length_request [simp]: "length (request ident path) = 8 + length path"
  by (simp add: request_def)

lemma length_push_stream: "length (push_stream cs t) = length (frames cs) + 8"
  by (simp add: push_stream_def frames_def)

lemma sync_request_writes:
  assumes "length (request ident path) \<le> room st"
  shows "sync_request ident path st = (True, st\<lparr>outp := outp st @ request ident path, room := room st - length (request ident path)\<rparr>)"
  using assms by (simp add: sync_request_def sync_writex_def request_def diff_diff_left)

lemma send_request_writes:
  assumes "8 + length (send_name rpath mode) \<le> room st"
  shows "send_request rpath mode st =
    (True, st\<lparr>outp := outp st @ request ID_SEND (send_name rpath mode), room := room st - (8 + length (send_name rpath mode))\<rparr>)"
  using assms by (auto simp: send_request_def sync_writex_def request_def send_name_def Let_def diff_diff_left add_ac)

lemma syscall_answer:
  assumes "answer k (calls st) c = r" and "\<not> failed r"
  shows "syscall k c st = (r, st\<lparr>calls := calls st @ [c]\<rparr>)"
  using assms by (auto simp: syscall_def failed_def Let_def split: sysres.splits)

lemma sync_send_writes:
  assumes open_ok: "answer k (calls c) (OpenRead lpath) = Reads s" and "S_ISREG mode" and "length rpath \<le> 1024"
    and inp: "inp c = syncmsg [ID_OKAY, 0] @ rest" and room: "length (push_message rpath mode mtime (chunks s)) \<le> room c"
  shows "\<exists>c'. sync_send k env lpath rpath mtime mode False False c = Inr (0, c') \<and> inp c' = rest \<and>
    outp c' = outp c @ push_message rpath mode mtime (chunks s) \<and> room c' = room c - length (push_message rpath mode mtime (chunks s)) \<and>
    calls c' = calls c @ [OpenRead lpath, CloseFile]"
proof -
  let ?n = "8 + length (send_name rpath mode)"
  define c1 where "c1 = c\<lparr>outp := outp c @ request ID_SEND (send_name rpath mode), room := room c - ?n\<rparr>"
  define c2 where "c2 = c1\<lparr>calls := calls c1 @ [OpenRead lpath]\<rparr>"
  have n: "?n + length (frames (chunks s)) + 8 \<le> room c" using room by (simp add: push_message_def length_push_stream)
  then have 1: "send_request rpath mode c = (True, c1)" by (simp add: send_request_writes c1_def)
  have 2: "syscall k (OpenRead lpath) c1 = (Reads s, c2)"
    unfolding c2_def by (rule syscall_answer) (simp_all add: c1_def open_ok failed_def)
  have "length (frames (chunks s)) \<le> room c2" using n by (simp add: c2_def c1_def)
  from data_file_loop_frames [OF this] obtain c3
    where 3: "data_file_loop s c2 = (0, c3)" "inp c3 = inp c2" "outp c3 = outp c2 @ frames (chunks s)"
      "room c3 = room c2 - length (frames (chunks s))" "calls c3 = calls c2" by blast
  define c4 where "c4 = snd (syscall k CloseFile c3)"
  have 4: "inp c4 = inp c" "outp c4 = outp c @ request ID_SEND (send_name rpath mode) @ frames (chunks s)"
    "room c4 = room c - ?n - length (frames (chunks s))" "calls c4 = calls c @ [OpenRead lpath, CloseFile]"
    by (simp_all add: c4_def 3 c2_def c1_def)
  define c5 where "c5 = c4\<lparr>outp := outp c4 @ syncmsg [ID_DONE, mtime], room := room c4 - 8\<rparr>"
  have 5: "sync_writex (syncmsg [ID_DONE, mtime]) c4 = (True, c5)" using n 4(3) by (simp add: sync_writex_def c5_def)
  have 6: "sync_readx 8 c5 = (Some (syncmsg [ID_OKAY, 0]), c5\<lparr>inp := rest\<rparr>)"
    by (rule sync_readx_append) (simp_all add: c5_def 4(1) inp)
  have "sync_send k env lpath rpath mtime mode False False c = Inr (0, c5\<lparr>inp := rest\<rparr>)"
    using assms(2,3)
    by (simp add: sync_send_def 1 send_body_def write_data_file_def 2 3(1) failed_def c4_def [symmetric] 5 read_status_def 6)
  then show ?thesis using n 4 by (simp add: c5_def push_message_def push_stream_def frames_def)
qed

section \<open>The mode in the name\<close>

lemma digit_chars: "d < 10 \<Longrightarrow> digit_val (''0123456789'' ! d) = d \<and> ''0123456789'' ! d \<in> set ''0123456789'' \<and> (''0123456789'' ! d = CHR ''0'' \<longleftrightarrow> d = 0)"
proof -
  have "\<forall>d\<in>set [0..<10]. digit_val (''0123456789'' ! d) = d \<and> ''0123456789'' ! d \<in> set ''0123456789'' \<and> (''0123456789'' ! d = CHR ''0'' \<longleftrightarrow> d = 0)"
    by code_simp
  moreover assume "d < 10"
  then have "d \<in> set [0..<10]" by simp
  ultimately show ?thesis by (rule bspec)
qed

lemma fmt_nat_digits: "set (fmt_nat n) \<subseteq> set ''0123456789''"
proof (induction n rule: fmt_nat.induct)
  case (1 n)
  show ?case
  proof (cases "n < 10")
    case True
    then show ?thesis using digit_chars [of n] by (subst fmt_nat.simps) auto
  next
    case False
    then show ?thesis using digit_chars [of "n mod 10"] 1 by (subst fmt_nat.simps) auto
  qed
qed

lemma fmt_nat_head: "fmt_nat n \<noteq> [] \<and> (hd (fmt_nat n) = CHR ''0'' \<longleftrightarrow> n = 0)"
proof (induction n rule: fmt_nat.induct)
  case (1 n)
  show ?case
  proof (cases "n < 10")
    case True
    then show ?thesis using digit_chars [of n] by (subst (1 2) fmt_nat.simps) simp
  next
    case False
    moreover have "n div 10 \<noteq> 0" using False by (simp add: div_eq_0_iff)
    ultimately show ?thesis using 1 by (subst (1 2) fmt_nat.simps) (simp add: hd_append)
  qed
qed

lemma foldl_fmt_nat: "foldl (\<lambda>v c. v * 10 + digit_val c) 0 (fmt_nat n) = n"
proof (induction n rule: fmt_nat.induct)
  case (1 n)
  show ?case
  proof (cases "n < 10")
    case True
    then show ?thesis using digit_chars [of n] by (subst fmt_nat.simps) simp
  next
    case False
    then show ?thesis using digit_chars [of "n mod 10"] 1 by (subst fmt_nat.simps) simp
  qed
qed

lemma strtoul_fmt_nat:
  assumes "n \<le> umax"
  shows "strtoul umax (fmt_nat n) = (n, False)"
proof -
  have digit: "digit_val c < 10 \<and> c \<noteq> CHR ''-'' \<and> c \<noteq> CHR ''+'' \<and> c \<noteq> CHR ''x'' \<and> c \<noteq> CHR ''X'' \<and>
      \<not> (c = CHR '' '' \<or> 9 \<le> (of_char c :: nat) \<and> (of_char c :: nat) \<le> 13)" if "c \<in> set ''0123456789''" for c
    using that by (auto simp: digit_val_def)
  obtain c cs where c: "fmt_nat n = c # cs" using fmt_nat_head [of n] by (cases "fmt_nat n") auto
  have c0: "c \<in> set ''0123456789''" by (rule subsetD [OF fmt_nat_digits [of n]]) (simp only: c list.set_intros)
  have v: "digits_value 10 (fmt_nat n) = n"
  proof -
    have "takeWhile (\<lambda>c. digit_val c < 10) (fmt_nat n) = fmt_nat n"
      by (intro takeWhile_eq_all_conv [THEN iffD2] ballI digit [THEN conjunct1] subsetD [OF fmt_nat_digits])
    then show ?thesis by (simp only: digits_value_def foldl_fmt_nat)
  qed
  have z: "c = CHR ''0'' \<Longrightarrow> n = 0 \<and> cs = []" 
  proof -
    assume "c = CHR ''0''"
    then have "n = 0" using fmt_nat_head [of n] c by simp
    then show ?thesis using c by (simp add: fmt_nat.simps)
  qed
  note dc = digit [of c] 
  show ?thesis
  proof (cases "c = CHR ''0''")
    case True
    then show ?thesis using z by (simp add: fmt_nat.simps [of 0] strtoul_def digits_value_def digit_val_def)
  next
    case False
    have sp: "(c = CHR '' '' \<or> 9 \<le> (of_char c :: nat) \<and> (of_char c :: nat) \<le> 13) = False" using dc [OF c0] by blast
    have "dropWhile (\<lambda>c. c = CHR '' '' \<or> 9 \<le> (of_char c :: nat) \<and> (of_char c :: nat) \<le> 13) (c # cs) = c # cs"
      by (simp only: dropWhile.simps sp if_False)
    note start = this
    have no: "(take 1 (c # cs) = ''-'') = False" "(take 1 (c # cs) = ''+'') = False" "(take 1 (c # cs) = ''0'') = False"
      "(take 2 (c # cs) = ''0x'') = False" "(take 2 (c # cs) = ''0X'') = False"
      using dc [OF c0] False by (simp_all add: numeral_2_eq_2)
    have le: "(umax < n) = False" using assms by simp
    show ?thesis unfolding strtoul_def Let_def c start by (simp only: no v [unfolded c] le if_False simp_thms)
  qed
qed

lemma split_last_comma_send: "CHR '','' \<notin> set num \<Longrightarrow> split_last_comma (path @ '','' @ num) = Some (path, num)"
  by (simp add: split_last_comma_def dropWhile_append takeWhile_append)

lemma comma_free: "CHR '','' \<notin> set (fmt_nat n)"
  using fmt_nat_digits [of n] by auto

section \<open>The service receives it\<close>

definition quit_message :: "byte list" where
  "quit_message = syncmsg [ID_QUIT, 0]"

lemma sync_loop_request:
  assumes "inp st = request ident name @ rest" and "length name \<le> 1024" and "CHR 0x00 \<notin> set name"
  shows "sync_loop k st =
    (case sync_command k ident name (st\<lparr>inp := rest\<rparr>) of
       Inl f \<Rightarrow> Inl f
     | Inr (go, st3) \<Rightarrow> if go then sync_loop k st3 else Inr st3)"
proof -
  have r1: "sync_readx 8 st = (Some (syncmsg [ident, of_nat (length name)]), st\<lparr>inp := name @ rest\<rparr>)"
    by (rule sync_readx_append) (simp_all add: assms request_def)
  have r2: "sync_readx (length name) (st\<lparr>inp := name @ rest\<rparr>) = (Some name, st\<lparr>inp := rest\<rparr>)"
    by (subst sync_readx_append [of _ name rest]) simp_all
  have u: "unat (of_nat (length name) :: u32) = length name" by (rule unat_chunk_len) (use assms(2) in \<open>simp add: SYNC_DATA_MAX_def\<close>)
  have c: "c_string name = name" using assms(3) by (auto simp: c_string_def takeWhile_eq_all_conv)
  show ?thesis using assms(2) by (simp add: sync_loop.simps [of k st] r1 u r2 c)
qed

lemma sync_loop_quit:
  assumes "inp st = quit_message"
  shows "sync_loop k st = Inr (st\<lparr>inp := []\<rparr>)"
proof -
  have "inp st = request ID_QUIT [] @ []" using assms by (simp add: quit_message_def request_def)
  from sync_loop_request [OF this, of k] show ?thesis
    by (simp add: sync_command_def sync_ids MKID_def)
qed

lemma ids_command [simp]: "ID_SEND \<noteq> ID_STAT" "ID_SEND \<noteq> ID_LIST" "ID_RECV \<noteq> ID_STAT" "ID_RECV \<noteq> ID_LIST" "ID_RECV \<noteq> ID_SEND"
  by (simp_all add: sync_ids MKID_def)

lemma do_send_writes:
  assumes k: "\<And>cs c. \<not> failed (answer k cs c)" and mode: "S_ISREG mode" "unat mode < 2 ^ 31" "2 ^ 31 \<le> ulong_max k"
    and inp: "inp st = push_stream cs mtime @ rest" and len: "\<forall>bs\<in>set cs. length bs \<le> SYNC_DATA_MAX" and room: "8 \<le> room st"
  shows "\<exists>st' pre uid gid m. do_send k (send_name path mode) st = Inr (True, st') \<and> inp st' = rest \<and> outp st' = outp st @ syncmsg [ID_OKAY, 0] \<and>
    calls st' = calls st @ pre @ [OpenExcl path m, Fchown uid gid, Fchmod m] @ map WriteFile cs @ [CloseFile, Restorecon path, Utime path mtime] \<and>
    set pre \<subseteq> {Lstat path, Unlink path}"
proof -
  have num: "fmt_d (sint mode) = fmt_nat (unat mode)" 
  proof -
    have "uint mode < 2 ^ 31" using mode(2) by (metis of_nat_less_iff of_nat_numeral of_nat_power uint_nat)
    moreover have "- (2 ^ 31) \<le> uint mode" by (rule order_trans [of _ 0]) simp_all
    ultimately have "sint mode = uint mode" unfolding sint_uint by (simp add: signed_take_bit_int_eq_self)
    then show ?thesis by (simp add: fmt_d_def)
  qed
  have split: "split_last_comma (send_name path mode) = Some (path, fmt_nat (unat mode))"
    unfolding send_name_def num by (rule split_last_comma_send) (rule comma_free)
  have link: "\<not> S_ISLNK mode" using mode(1) by (simp add: S_ISREG_def S_ISLNK_def)
  define st1 where "st1 = snd (syscall k (Lstat path) (st\<lparr>errno := Eother 0\<rparr>))"
  define u where "u = (case fst (syscall k (Lstat path) (st\<lparr>errno := Eother 0\<rparr>)) of Stat s \<Rightarrow> S_ISREG (st_mode s) \<or> S_ISLNK (st_mode s) | _ \<Rightarrow> True)"
  define st2 where "st2 = (if u then snd (syscall k (Unlink path) st1) else st1)"
  define own where "own = (if is_on_system path then fs_config k (if take 1 path = ''/'' then drop 1 path else path) False
     else (- 1, - 1, spread_mode (mode AND 0x1ff)))"
  have st2: "inp st2 = push_stream cs mtime @ rest" "8 \<le> room st2" "outp st2 = outp st"
    "\<exists>pre. calls st2 = calls st @ pre \<and> set pre \<subseteq> {Lstat path, Unlink path}"
    using inp room by (auto simp: st2_def st1_def)
  have "do_send k (send_name path mode) st = Inr (handle_send_file k path (fst own) (fst (snd own)) (snd (snd own)) u st2)"
    using strtoul_fmt_nat [of "unat mode" "ulong_max k"] mode(2,3) link
    by (simp add: do_send_def split split_beta u_def [symmetric] st1_def [symmetric] own_def Let_def) (simp add: st2_def)
  with handle_send_file_writes [OF st2(1) len k st2(2), of path "fst own" "fst (snd own)" "snd (snd own)" u] st2(3,4) show ?thesis by auto
qed

text \<open>
  C7: \<open>adb push\<close> end to end. When the client sends a regular file that it can open, and the device refuses nothing, then the client reports success,
  and the service, given exactly the bytes that the client wrote and the final \<open>QUIT\<close>, ends after writing to the file of that name the bytes that the client
  read, with the time sent, and answers with exactly the status that the client reads.
\<close>

theorem push_end_to_end:
  assumes "answer kc (calls c) (OpenRead lpath) = Reads s" and "S_ISREG mode" and "unat mode < 2 ^ 31"
    and "length (send_name rpath mode) \<le> 1024" and "CHR 0x00 \<notin> set (send_name rpath mode)"
    and "inp c = syncmsg [ID_OKAY, 0]" and "length (push_message rpath mode mtime (chunks s)) + 8 \<le> room c"
    and "\<And>cs c. \<not> failed (answer k cs c)" and "2 ^ 31 \<le> ulong_max k" and "8 \<le> room st"
  shows "\<exists>c' wire st' pre uid gid m cs.
    sync_send kc env lpath rpath mtime mode False False c = Inr (0, c') \<and> outp (sync_quit c') = outp c @ wire \<and>
    sync_loop k (st\<lparr>inp := wire\<rparr>) = Inr st' \<and> inp st' = [] \<and> outp st' = outp st @ inp c \<and>
    calls st' = calls st @ pre @ [OpenExcl rpath m, Fchown uid gid, Fchmod m] @ map WriteFile cs @ [CloseFile, Restorecon rpath, Utime rpath mtime] \<and>
    set pre \<subseteq> {Lstat rpath, Unlink rpath} \<and> concat cs = contents s"
proof -
  let ?cs = "chunks s" and ?name = "send_name rpath mode"
  have "length rpath \<le> 1024" using assms(4) by (simp add: send_name_def)
  with sync_send_writes [OF assms(1,2) _ _, of rpath "[]" mtime env] assms(6,7) obtain c'
    where c': "sync_send kc env lpath rpath mtime mode False False c = Inr (0, c')" "outp c' = outp c @ push_message rpath mode mtime ?cs" "8 \<le> room c'"
    by auto
  have quit: "outp (sync_quit c') = outp c @ push_message rpath mode mtime ?cs @ quit_message"
    using c' by (simp add: sync_quit_def sync_writex_def quit_message_def)
  let ?st = "st\<lparr>inp := push_message rpath mode mtime ?cs @ quit_message\<rparr>"
  have "inp ?st = request ID_SEND ?name @ (push_stream ?cs mtime @ quit_message)" by (simp add: push_message_def)
  note loop = sync_loop_request [OF this assms(4,5), of k]
  obtain st1 pre uid gid m where st1: "do_send k ?name (?st\<lparr>inp := push_stream ?cs mtime @ quit_message\<rparr>) = Inr (True, st1)" "inp st1 = quit_message"
    "outp st1 = outp st @ syncmsg [ID_OKAY, 0]"
    "calls st1 = calls st @ pre @ [OpenExcl rpath m, Fchown uid gid, Fchmod m] @ map WriteFile ?cs @ [CloseFile, Restorecon rpath, Utime rpath mtime]"
    "set pre \<subseteq> {Lstat rpath, Unlink rpath}"
    using do_send_writes [OF assms(8,2,3,9), of "?st\<lparr>inp := push_stream ?cs mtime @ quit_message\<rparr>" ?cs mtime quit_message rpath] length_chunk assms(10)
    by auto
  have "sync_loop k ?st = Inr (st1\<lparr>inp := []\<rparr>)"
    using loop st1(1) sync_loop_quit [OF st1(2), of k] by (simp add: sync_command_def)
  then show ?thesis
    using c'(1) quit st1(3-5) assms(6) concat_chunks [of s]
    by (intro exI [of _ c'] exI [of _ "push_message rpath mode mtime ?cs @ quit_message"] exI [of _ "st1\<lparr>inp := []\<rparr>"] exI [of _ pre]
        exI [of _ uid] exI [of _ gid] exI [of _ m] exI [of _ ?cs]) simp
qed

text \<open>A kernel with one file in it, and a client.\<close>

definition one_file :: kernel where
  "one_file = all_done\<lparr>answer := (\<lambda>cs c. case c of OpenRead p \<Rightarrow> Reads [Fail EINTR, Seg ''ab'', Seg ''c'', Fin] | _ \<Rightarrow> Done)\<rparr>"

definition client_sample :: syncst where
  "client_sample = \<lparr>inp = syncmsg [ID_OKAY, 0], buffer = [], outp = [], room = 100, errno = Eother 0, calls = []\<rparr>"

definition env_sample :: client_env where
  "env_sample = \<lparr>to_gbk = (\<lambda>s. s), malloc_ok = (\<lambda>n. True), junk_stat = \<lparr>st_mode = 0, st_size = 0, st_mtime = 0\<rparr>\<rparr>"

lemma sample_chunks: "chunks [Seg ''ab'', Seg ''c'', Fin] = [''ab'', ''c'']"
  by (simp add: chunks.simps(4) SYNC_DATA_MAX_def)

lemma sample_mode: "fmt_d 33188 = ''33188''"
  by (simp add: fmt_d_def fmt_nat.simps)

theorem push_end_to_end_witness:
  "\<exists>c' wire st' pre uid gid m cs.
    sync_send one_file env_sample ''f'' ''/d/f'' 7 0x81a4 False False client_sample = Inr (0, c') \<and> outp (sync_quit c') = outp client_sample @ wire \<and>
    sync_loop all_done (push_sample\<lparr>inp := wire\<rparr>) = Inr st' \<and> inp st' = [] \<and> outp st' = outp push_sample @ inp client_sample \<and>
    calls st' = calls push_sample @ pre @ [OpenExcl ''/d/f'' m, Fchown uid gid, Fchmod m] @ map WriteFile cs @
      [CloseFile, Restorecon ''/d/f'', Utime ''/d/f'' 7] \<and>
    set pre \<subseteq> {Lstat ''/d/f'', Unlink ''/d/f''} \<and> concat cs = contents [Fail EINTR, Seg ''ab'', Seg ''c'', Fin]"
  by (rule push_end_to_end)
     (simp_all add: one_file_def client_sample_def push_sample_def all_done_def failed_def S_ISREG_def S_IFMT_def send_name_def push_message_def
       sample_mode sample_chunks length_push_stream)

section \<open>Pulling a file\<close>

lemma do_recv_writes:
  assumes "answer k (calls st) (OpenRead path) = Reads s" and "readable s" and "length (frames (chunks s)) + 8 \<le> room st"
  shows "\<exists>st'. do_recv k path st = (True, st') \<and> inp st' = inp st \<and> outp st' = outp st @ frames (chunks s) @ syncmsg [ID_DONE, 0]"
proof -
  define st1 where "st1 = st\<lparr>calls := calls st @ [OpenRead path]\<rparr>"
  have 1: "syscall k (OpenRead path) st = (Reads s, st1)"
    unfolding st1_def by (rule syscall_answer) (simp_all add: assms(1) failed_def)
  have "length (frames (chunks s)) \<le> room st1" using assms(3) by (simp add: st1_def)
  from do_recv_loop_frames [OF this assms(2), of k] obtain st2
    where 2: "do_recv_loop k s st1 = (None, st2)" "inp st2 = inp st1" "outp st2 = outp st1 @ frames (chunks s)"
      "room st2 = room st1 - length (frames (chunks s))" by blast
  have "8 \<le> room (snd (syscall k CloseFile st2))" using assms(3) 2(4) by (simp add: st1_def)
  then show ?thesis using 1 2 by (simp add: do_recv_def sync_writex_def) (simp add: st1_def)
qed

text \<open>A frame, with the file open.\<close>

lemma recv_loop_done: "recv_loop k lpath (syncmsg [ID_DONE, w]) st = Inr (0, snd (syscall k CloseFile st))"
  by (simp add: recv_loop.simps)

lemma sint_chunk_len: "length bs \<le> SYNC_DATA_MAX \<Longrightarrow> sint (of_nat (length bs) :: u32) = int (length bs)"
  by (simp add: signed_of_nat signed_take_bit_int_eq_self SYNC_DATA_MAX_def)

lemma recv_loop_data:
  assumes "length bs \<le> SYNC_DATA_MAX" and "\<And>cs c. \<not> failed (answer k cs c)" and "length msg = 8" and "inp st = bs @ msg @ rest"
  shows "\<exists>st'. recv_loop k lpath (syncmsg [ID_DATA, of_nat (length bs)]) st = recv_loop k lpath msg st' \<and> inp st' = rest \<and>
    outp st' = outp st \<and> room st' = room st \<and> calls st' = calls st @ [WriteFile bs]"
proof -
  have r1: "sync_readx (length bs) st = (Some bs, st\<lparr>inp := msg @ rest\<rparr>)" by (rule sync_readx_append) (simp_all add: assms(4))
  define st2 where "st2 = snd (syscall k (WriteFile bs) (st\<lparr>inp := msg @ rest\<rparr>))"
  have w: "syscall k (WriteFile bs) (st\<lparr>inp := msg @ rest\<rparr>) = (answer k (calls st) (WriteFile bs), st2)"
    by (simp add: st2_def syscall_def Let_def)
  have r2: "sync_readx 8 st2 = (Some msg, st2\<lparr>inp := rest\<rparr>)" by (rule sync_readx_append) (simp_all add: assms(3) st2_def)
  have "recv_loop k lpath (syncmsg [ID_DATA, of_nat (length bs)]) st = recv_loop k lpath msg (st2\<lparr>inp := rest\<rparr>)"
    using assms(1) by (subst recv_loop.simps) (simp add: sint_chunk_len read_into_def r1 w assms(2) r2)
  then show ?thesis by (intro exI [of _ "st2\<lparr>inp := rest\<rparr>"]) (simp add: st2_def)
qed

text \<open>The header that comes next, and what follows it.\<close>

fun header :: "byte list list \<Rightarrow> byte list" where
  "header [] = syncmsg [ID_DONE, 0]"
| "header (bs # cs) = syncmsg [ID_DATA, of_nat (length bs)]"

fun behind :: "byte list list \<Rightarrow> byte list" where
  "behind [] = []"
| "behind (bs # cs) = bs @ header cs @ behind cs"

lemma frames_header: "frames cs @ syncmsg [ID_DONE, 0] = header cs @ behind cs"
  by (induction cs) (simp_all add: data_frame_def)

lemma length_header [simp]: "length (header cs) = 8"
  by (cases cs) simp_all

lemma recv_loop_writes:
  assumes "\<forall>bs\<in>set cs. length bs \<le> SYNC_DATA_MAX" and k: "\<And>cs c. \<not> failed (answer k cs c)" and "inp st = behind cs @ rest"
  shows "\<exists>st'. recv_loop k lpath (header cs) st = Inr (0, st') \<and> inp st' = rest \<and> outp st' = outp st \<and> room st' = room st \<and> calls st' = calls st @ map WriteFile cs @ [CloseFile]"
  using assms(1,3)
proof (induction cs arbitrary: st)
  case Nil
  then show ?case by (simp add: recv_loop_done)
next
  case (Cons bs cs)
  obtain st1 where st1: "recv_loop k lpath (header (bs # cs)) st = recv_loop k lpath (header cs) st1" "inp st1 = behind cs @ rest"
    "outp st1 = outp st" "room st1 = room st" "calls st1 = calls st @ [WriteFile bs]"
    using recv_loop_data [OF _ k, of bs "header cs" st "behind cs @ rest" lpath] Cons.prems by auto
  with Cons.IH [OF _ st1(2)] Cons.prems(1) show ?case by auto
qed

lemma local_dir_fits:
  assumes "2 \<le> length str" and "length str < 260"
  obtains dir where "local_dir str = Inr dir" "length dir < 260"
proof -
  let ?s = "take 2 str @ ''/'' @ drop 3 str"
  have "length (dropWhile (\<lambda>c. c \<noteq> CHR ''/'') (rev ?s)) \<le> length ?s" by (metis length_dropWhile_le length_rev)
  then have "length (rev (drop 1 (dropWhile (\<lambda>c. c \<noteq> CHR ''/'') (rev ?s)))) < 260" using assms by simp
  then show thesis using assms(1) that by (simp add: local_dir_def Let_def)
qed

lemma client_mkdirs_loop_fields:
  assumes "\<And>cs c. \<not> failed (answer k cs c)"
  shows "\<exists>pre. calls (client_mkdirs_loop k ds st) = calls st @ pre \<and> inp (client_mkdirs_loop k ds st) = inp st \<and>
    outp (client_mkdirs_loop k ds st) = outp st \<and> room (client_mkdirs_loop k ds st) = room st"
proof (induction ds arbitrary: st)
  case (Cons d ds)
  show ?case using Cons [of "snd (syscall k (Lstat d) st)"] by (auto simp: split_beta failed_syscall assms)
qed simp

text \<open>
  C8: \<open>adb pull\<close> end to end. When the service can read the file, and the local file system refuses nothing, the service answers the bytes that the client
  sent with exactly the bytes that the client reads, and the client writes to the local file what the service read, and reports success.
\<close>

theorem pull_end_to_end:
  assumes "answer k (calls st) (OpenRead rpath) = Reads s" and "readable s" and "length (frames (chunks s)) + 8 \<le> room st"
    and "length rpath \<le> 1024" and "CHR 0x00 \<notin> set rpath" and "16 + length rpath \<le> room c"
    and "\<And>cs c. \<not> failed (answer kc cs c)" and "2 \<le> length (to_gbk env lpath)" and "length (to_gbk env lpath) < 260"
  shows "\<exists>st' wire c' pre cs.
    sync_loop k (st\<lparr>inp := request ID_RECV rpath @ quit_message\<rparr>) = Inr st' \<and> outp st' = outp st @ wire \<and>
    sync_recv kc env rpath lpath False (c\<lparr>inp := wire\<rparr>) = Inr (0, c') \<and> inp c' = [] \<and>
    outp (sync_quit c') = outp c @ request ID_RECV rpath @ quit_message \<and>
    calls c' = calls c @ pre @ [OpenWrite lpath 0x1a4] @ map WriteFile cs @ [CloseFile] \<and> concat cs = contents s"
proof -
  let ?cs = "chunks s"
  let ?wire = "frames ?cs @ syncmsg [ID_DONE, 0]"
  let ?st = "st\<lparr>inp := request ID_RECV rpath @ quit_message\<rparr>"
  have loop: "sync_loop k ?st = (case sync_command k ID_RECV rpath (?st\<lparr>inp := quit_message\<rparr>) of
      Inl f \<Rightarrow> Inl f | Inr (go, st3) \<Rightarrow> if go then sync_loop k st3 else Inr st3)"
    by (rule sync_loop_request) (simp_all add: assms(4,5))
  obtain st1 where st1: "do_recv k rpath (?st\<lparr>inp := quit_message\<rparr>) = (True, st1)" "inp st1 = quit_message" "outp st1 = outp st @ ?wire"
    using do_recv_writes [of k "?st\<lparr>inp := quit_message\<rparr>" rpath s] assms(1-3) by auto
  have 1: "sync_loop k ?st = Inr (st1\<lparr>inp := []\<rparr>)"
    using loop st1(1) sync_loop_quit [OF st1(2), of k] by (simp add: sync_command_def)
  define c1 where "c1 = c\<lparr>inp := ?wire, outp := outp c @ request ID_RECV rpath, room := room c - length (request ID_RECV rpath)\<rparr>"
  have 2: "sync_request ID_RECV rpath (c\<lparr>inp := ?wire\<rparr>) = (True, c1)"
    using assms(6) by (subst sync_request_writes) (simp_all add: c1_def)
  have 3: "sync_readx 8 c1 = (Some (header ?cs), c1\<lparr>inp := behind ?cs\<rparr>)"
    by (rule sync_readx_append) (simp_all add: c1_def frames_header)
  have id: "le_word (header ?cs) = ID_DATA \<or> le_word (header ?cs) = ID_DONE" by (cases ?cs) simp_all
  obtain dir where dir: "local_dir (to_gbk env lpath) = Inr dir" "length dir < 260"
    by (rule local_dir_fits [OF assms(8,9)])
  define c2 where "c2 = snd (syscall kc (Unlink lpath) (c1\<lparr>inp := behind ?cs\<rparr>))"
  obtain c3 pre where c3: "client_mkdirs kc dir c2 = Inr c3" "calls c3 = calls c2 @ pre" "inp c3 = inp c2" "outp c3 = outp c2" "room c3 = room c2"
    using client_mkdirs_loop_fields [OF assms(7)] dir(2) unfolding client_mkdirs_def by (metis not_le)
  define c4 where "c4 = snd (syscall kc (OpenWrite lpath 0x1a4) c3)"
  have "inp c4 = behind ?cs @ []" by (simp add: c4_def c3 c2_def)
  from recv_loop_writes [OF _ assms(7) this, of lpath] length_chunk obtain c5
    where c5: "recv_loop kc lpath (header ?cs) c4 = Inr (0, c5)" "inp c5 = []" "calls c5 = calls c4 @ map WriteFile ?cs @ [CloseFile]"
      "outp c5 = outp c4" "room c5 = room c4" by blast
  have op: "syscall kc (OpenWrite lpath 0x1a4) c3 = (answer kc (calls c3) (OpenWrite lpath 0x1a4), c4)"
    by (simp add: c4_def syscall_def Let_def)
  have "sync_recv kc env rpath lpath False (c\<lparr>inp := ?wire\<rparr>) = Inr (0, c5)"
    using assms(4) id by (simp add: sync_recv_def 2 3 dir(1) c2_def [symmetric] c3(1) op assms(7) c5(1))
  moreover have "calls c5 = calls c @ (Unlink lpath # pre) @ [OpenWrite lpath 0x1a4] @ map WriteFile ?cs @ [CloseFile]"
    by (simp add: c5(3) c4_def c3 c2_def c1_def)
  moreover have "outp (sync_quit c5) = outp c @ request ID_RECV rpath @ quit_message"
    using assms(6) by (simp add: sync_quit_def sync_writex_def quit_message_def c5 c4_def c3 c2_def c1_def)
  ultimately show ?thesis
    using 1 st1(3) c5(2) concat_chunks [of s]
    by (intro exI [of _ "st1\<lparr>inp := []\<rparr>"] exI [of _ ?wire] exI [of _ c5] exI [of _ "Unlink lpath # pre"] exI [of _ ?cs]) simp
qed

theorem pull_end_to_end_witness:
  "\<exists>st' wire c' pre cs.
    sync_loop one_file (push_sample\<lparr>inp := request ID_RECV ''/d/f'' @ quit_message\<rparr>) = Inr st' \<and> outp st' = outp push_sample @ wire \<and>
    sync_recv all_done env_sample ''/d/f'' ''c:/f'' False (client_sample\<lparr>inp := wire\<rparr>) = Inr (0, c') \<and> inp c' = [] \<and>
    outp (sync_quit c') = outp client_sample @ request ID_RECV ''/d/f'' @ quit_message \<and>
    calls c' = calls client_sample @ pre @ [OpenWrite ''c:/f'' 0x1a4] @ map WriteFile cs @ [CloseFile] \<and>
    concat cs = contents [Fail EINTR, Seg ''ab'', Seg ''c'', Fin]"
  by (rule pull_end_to_end)
     (simp_all add: one_file_def client_sample_def push_sample_def all_done_def env_sample_def failed_def sample_chunks)

end
