(* ===== verification/Zipfile_Props.thy ===== *)
theory Zipfile_Props
  imports Zipfile
begin

text \<open>
  Archives as they should be, byte by byte, and what the reader makes of them: it finds the entries of every well-formed archive, with their names and in
  reverse order. A look-up finds the first entry whose name is a prefix of the name looked for.
\<close>

section \<open>Fields\<close>

definition le16 :: "nat \<Rightarrow> byte list" where
  "le16 n = [char_of n, char_of (n div 256)]"

lemma length_le16 [simp]: "length (le16 n) = 2"
  by (simp add: le16_def)

lemma word_of_char_of: "of_char (char_of m) = (of_nat (m mod 256) :: u32)" for m :: nat
  by (metis of_char_of of_nat_of_char)

lemma le_short_le16:
  assumes "n < 65536"
  shows "le_short (le16 n) = of_nat n"
proof -
  have top: "n div 256 mod 256 = n div 256" using assms by (simp add: div_less_iff_less_mult)
  have "(of_nat (n mod 256) :: u32) + of_nat (n div 256) * 256 = of_nat (n mod 256 + n div 256 * 256)"
    by (simp only: of_nat_add of_nat_mult of_nat_numeral)
  also have "n mod 256 + n div 256 * 256 = n" by (rule mod_div_mult_eq)
  finally show ?thesis by (simp only: le_short_def le16_def nth_Cons_0 nth_Cons_Suc One_nat_def word_of_char_of top)
qed

lemma unat_nat32: "n < 2 ^ 32 \<Longrightarrow> unat (of_nat n :: u32) = n"
  by (simp add: unsigned_of_nat take_bit_nat_eq_self)

lemma drop_split_length: "drop i b = xs @ ys @ zs \<Longrightarrow> ys \<noteq> [] \<Longrightarrow> length b = i + length xs + length ys + length zs"
  by (metis add.assoc append_is_Nil_conv drop_eq_Nil length_append length_drop le_add_diff_inverse nat_le_linear)

lemma peek_at:
  assumes "drop i b = xs @ ys @ zs" and "length b < 2 ^ 32" and "ys \<noteq> []"
  shows "peek b (of_nat (i + length xs)) (length ys) = Inr ys"
proof -
  note len = drop_split_length [OF assms(1,3)]
  have "drop (i + length xs) b = ys @ zs"
    using arg_cong [OF assms(1), of "drop (length xs)"] by (simp add: add.commute)
  then have "take (length ys) (drop (i + length xs) b) = ys" by simp
  moreover have "unat (of_nat (i + length xs) :: u32) = i + length xs"
    by (rule unat_nat32) (use len assms(2) in linarith)
  ultimately show ?thesis unfolding peek_def using len by simp
qed

lemma le_bytes_nonempty [simp]: "le_bytes w \<noteq> []" "le16 n \<noteq> []"
  by (simp_all add: le_bytes_def le16_def)

lemma read_le_int_at:
  assumes "drop i b = xs @ le_bytes w @ zs" and "length b < 2 ^ 32" and "of_nat (i + length xs) = p"
  shows "read_le_int b p = Inr w"
  using peek_at [OF assms(1,2)] assms(3) by (simp add: read_le_int_def del: of_nat_add)

lemma read_le_short_at:
  assumes "drop i b = xs @ le16 n @ zs" and "length b < 2 ^ 32" and "n < 65536" and "of_nat (i + length xs) = p"
  shows "read_le_short b p = Inr (of_nat n)"
  using peek_at [OF assms(1,2)] assms(3,4) by (simp add: read_le_short_def le_short_le16 del: of_nat_add)

section \<open>Archives\<close>

text \<open>The parts of an entry that the reader does not look at: versions and flags, times and checksum, disk number and attributes.\<close>

record zip_item =
  zi_name :: string
  zi_extra :: "byte list"
  zi_comment :: "byte list"
  zi_method :: nat
  zi_csize :: u32
  zi_usize :: u32
  zi_offset :: nat
  zi_head :: "byte list"
  zi_times :: "byte list"
  zi_attrs :: "byte list"

definition item_ok :: "nat \<Rightarrow> zip_item \<Rightarrow> bool" where
  "item_ok n it =
     (length (zi_name it) < 65536 \<and> length (zi_extra it) < 65536 \<and> length (zi_comment it) < 65536 \<and> zi_method it < 65536 \<and>
      zi_offset it + LFH_SIZE \<le> n \<and> length (zi_head it) = 6 \<and> length (zi_times it) = 8 \<and> length (zi_attrs it) = 8)"

definition cd_entry :: "zip_item \<Rightarrow> byte list" where
  "cd_entry it =
     le_bytes ENTRY_SIGNATURE @ zi_head it @ le16 (zi_method it) @ zi_times it @ le_bytes (zi_csize it) @ le_bytes (zi_usize it) @
     le16 (length (zi_name it)) @ le16 (length (zi_extra it)) @ le16 (length (zi_comment it)) @ zi_attrs it @
     le_bytes (of_nat (zi_offset it)) @ zi_name it @ zi_extra it @ zi_comment it"

definition cd_bytes :: "zip_item list \<Rightarrow> byte list" where
  "cd_bytes its = concat (map cd_entry its)"

definition eocd_bytes :: "nat \<Rightarrow> zip_item list \<Rightarrow> byte list \<Rightarrow> byte list" where
  "eocd_bytes off its cmt =
     le_bytes CD_SIGNATURE @ le16 0 @ le16 0 @ le16 (length its) @ le16 (length its) @ le_bytes (of_nat (length (cd_bytes its))) @
     le_bytes (of_nat off) @ le16 (length cmt) @ cmt"

definition archive :: "byte list \<Rightarrow> zip_item list \<Rightarrow> byte list \<Rightarrow> byte list" where
  "archive body its cmt = body @ cd_bytes its @ eocd_bytes (length body) its cmt"

text \<open>The entry that the reader makes of an item of the archive \<open>b\<close>.\<close>

definition entry_ok :: "byte list \<Rightarrow> zip_item \<Rightarrow> Zipentry \<Rightarrow> bool" where
  "entry_ok b it e =
     (fileNameLength e = of_nat (length (zi_name it)) \<and> compressionMethod e = of_nat (zi_method it) \<and>
      compressedSize e = zi_csize it \<and> uncompressedSize e = zi_usize it \<and>
      (case fileName e of None \<Rightarrow> zi_name it = [] | Some p \<Rightarrow> peek b p (length (zi_name it)) = Inr (zi_name it)))"

lemma read_entry_at:
  assumes b: "drop i b = cd_entry it @ zs" and len: "length b < 2 ^ 31" and ok: "item_ok (length b) it" and "int ENTRY_LEN \<le> lim"
    and zf: "buf zf = b"
  shows "\<exists>e. read_central_directory_entry zf (of_nat i) lim = Inr (Some (e, of_nat (i + length (cd_entry it)))) \<and> entry_ok b it e"
proof -
  have l32: "length b < 2 ^ 32" using len by simp
  note b' = b [unfolded cd_entry_def append_assoc]
  note int_at = read_le_int_at [OF _ l32] and short_at = read_le_short_at [OF _ l32]
  have w: "length (zi_head it) = 6" "length (zi_times it) = 8" "length (zi_attrs it) = 8" using ok by (simp_all add: item_ok_def)
  have sig: "read_le_int b (of_nat i) = Inr ENTRY_SIGNATURE"
    by (rule int_at [of i "[]"]) (simp_all add: b')
  let ?p0 = "le_bytes ENTRY_SIGNATURE @ zi_head it"
  have m: "read_le_short b (of_nat i + 0x0a) = Inr (of_nat (zi_method it))"
    by (rule short_at [of i ?p0]) (use ok w in \<open>simp_all add: b' item_ok_def\<close>)
  let ?p1 = "?p0 @ le16 (zi_method it) @ zi_times it"
  have cs: "read_le_int b (of_nat i + 0x14) = Inr (zi_csize it)"
    by (rule int_at [of i ?p1]) (use w in \<open>simp_all add: b'\<close>)
  let ?p2 = "?p1 @ le_bytes (zi_csize it)"
  have us: "read_le_int b (of_nat i + 0x18) = Inr (zi_usize it)"
    by (rule int_at [of i ?p2]) (use w in \<open>simp_all add: b'\<close>)
  let ?p3 = "?p2 @ le_bytes (zi_usize it)"
  have nl: "read_le_short b (of_nat i + 0x1c) = Inr (of_nat (length (zi_name it)))"
    by (rule short_at [of i ?p3]) (use ok w in \<open>simp_all add: b' item_ok_def\<close>)
  let ?p4 = "?p3 @ le16 (length (zi_name it))"
  have xl: "read_le_short b (of_nat i + 0x1e) = Inr (of_nat (length (zi_extra it)))"
    by (rule short_at [of i ?p4]) (use ok w in \<open>simp_all add: b' item_ok_def\<close>)
  let ?p5 = "?p4 @ le16 (length (zi_extra it))"
  have cl: "read_le_short b (of_nat i + 0x20) = Inr (of_nat (length (zi_comment it)))"
    by (rule short_at [of i ?p5]) (use ok w in \<open>simp_all add: b' item_ok_def\<close>)
  let ?p6 = "?p5 @ le16 (length (zi_comment it)) @ zi_attrs it"
  have lho: "read_le_int b (of_nat i + 0x2a) = Inr (of_nat (zi_offset it))"
    by (rule int_at [of i ?p6]) (use w in \<open>simp_all add: b'\<close>)
  have loc: "unat (of_nat (zi_offset it) + 0x1c :: u32) = zi_offset it + 28"
    using unat_nat32 [of "zi_offset it + 28"] ok len by (simp add: item_ok_def LFH_SIZE_def)
  then obtain lx where lx: "read_le_short b (of_nat (zi_offset it) + 0x1c) = Inr lx"
    using ok by (auto simp: read_le_short_def peek_def item_ok_def LFH_SIZE_def)
  have name: "zi_name it = [] \<or> peek b (of_nat i + 46) (length (zi_name it)) = Inr (zi_name it)"
    using peek_at [of i b "?p6 @ le_bytes (of_nat (zi_offset it))" "zi_name it" "zi_extra it @ zi_comment it @ zs", OF _ l32] w
    by (auto simp: b')
  have short: "unat (of_nat (length (zi_name it)) :: u32) = length (zi_name it)"
    by (rule unat_nat32) (use ok in \<open>simp add: item_ok_def\<close>)
  have zero: "(of_nat (length (zi_name it)) :: u32) = 0 \<longleftrightarrow> zi_name it = []"
  proof
    assume "(of_nat (length (zi_name it)) :: u32) = 0"
    then show "zi_name it = []" using short by (simp only: unsigned_0 length_0_conv eq_commute [of 0])
  qed simp
  show ?thesis
    unfolding read_central_directory_entry_def
    using assms(4) name w zero
    by (auto simp: zf sig m cs us nl xl cl lho lx entry_ok_def ENTRY_LEN_def LFH_SIZE_def Let_def cd_entry_def algebra_simps)
qed

lemma read_entries_at:
  assumes "drop i b = cd_bytes its @ zs" and len: "length b < 2 ^ 31" and "\<forall>it\<in>set its. item_ok (length b) it"
    and "its \<noteq> [] \<longrightarrow> int ENTRY_LEN \<le> lim" and "buf zf = b"
  shows "\<exists>es. read_entries zf (length its) (of_nat i) lim = Inr (Some (zf\<lparr>entries := es @ entries zf\<rparr>)) \<and>
    list_all2 (entry_ok b) (rev its) es"
  using assms(1,3-)
proof (induction its arbitrary: i zf)
  case Nil
  show ?case by (intro exI [of _ "[]"]) simp
next
  case (Cons it its)
  have here: "drop i b = cd_entry it @ (cd_bytes its @ zs)" using Cons.prems(1) by (simp add: cd_bytes_def)
  have "item_ok (length b) it" "int ENTRY_LEN \<le> lim" using Cons.prems by simp_all
  from read_entry_at [OF here len this Cons.prems(4)] obtain e
    where e: "read_central_directory_entry zf (of_nat i) lim = Inr (Some (e, of_nat (i + length (cd_entry it))))" "entry_ok b it e" by blast
  have nxt: "drop (i + length (cd_entry it)) b = cd_bytes its @ zs"
    using arg_cong [OF here, of "drop (length (cd_entry it))"] by (simp add: add.commute)
  obtain es where es: "read_entries (zf\<lparr>entries := e # entries zf\<rparr>) (length its) (of_nat (i + length (cd_entry it))) lim =
      Inr (Some (zf\<lparr>entries := es @ e # entries zf\<rparr>))" "list_all2 (entry_ok b) (rev its) es"
    using Cons.IH [OF nxt, of "zf\<lparr>entries := e # entries zf\<rparr>"] Cons.prems(2-) by auto
  show ?case
    by (rule exI [of _ "es @ [e]"]) (use e es in \<open>simp add: list_all2_appendI del: of_nat_add\<close>)
qed

section \<open>The end of the central directory\<close>

text \<open>No signature behind the one at \<open>pos\<close>.\<close>

definition last_signature :: "nat \<Rightarrow> byte list \<Rightarrow> bool" where
  "last_signature pos b = (\<forall>j\<in>{Suc pos..length b - 4}. le_word (take 4 (drop j b)) \<noteq> CD_SIGNATURE)"

lemma eocd_at_word:
  assumes "j + 4 \<le> length b" and "length b < 2 ^ 32"
  shows "le_word (take 4 (drop j b)) \<noteq> CD_SIGNATURE \<Longrightarrow> eocd_at b (of_nat j) = Inr False"
    and "take 4 (drop j b) = le_bytes CD_SIGNATURE \<Longrightarrow> eocd_at b (of_nat j) = Inr True"
proof -
  have u: "unat (of_nat j :: u32) = j" by (rule unat_nat32) (use assms in linarith)
  have w: "read_le_int b (of_nat j) = Inr (le_word (take 4 (drop j b)))"
    and p: "peek b (of_nat j) (Suc 0) = Inr (take 1 (drop j b))" using assms(1) by (simp_all add: read_le_int_def peek_def u)
  show "eocd_at b (of_nat j) = Inr False" if "le_word (take 4 (drop j b)) \<noteq> CD_SIGNATURE"
    using that by (simp add: eocd_at_def w p)
  assume sig: "take 4 (drop j b) = le_bytes CD_SIGNATURE"
  then have "take 1 (drop j b) = take 1 (le_bytes CD_SIGNATURE)" by (metis min.absorb1 numeral_le_one_iff one_le_numeral take_take)
  moreover have "(char_of (101010256 :: nat) :: char) = char_of (80 :: nat)" by (subst char_of_mod_256 [symmetric]) simp
  then have "take 1 (le_bytes CD_SIGNATURE) = [CHR 0x50]" by (simp add: le_bytes_def CD_SIGNATURE_def char_of_def)
  ultimately show "eocd_at b (of_nat j) = Inr True" using sig by (simp add: eocd_at_def w p)
qed

lemma find_eocd_last:
  assumes "take 4 (drop pos b) = le_bytes CD_SIGNATURE" and "last_signature pos b" and "length b < 2 ^ 32" and "start \<le> pos"
    and "pos + d + 4 \<le> length b"
  shows "find_eocd b start (pos + d) = Inr (Some pos)"
  using assms(5)
proof (induction d)
  case 0
  then show ?case using eocd_at_word(2) [OF _ assms(3,1)] assms(4) by (cases pos) simp_all
next
  case (Suc d)
  have "le_word (take 4 (drop (Suc (pos + d)) b)) \<noteq> CD_SIGNATURE"
    using assms(2) Suc.prems unfolding last_signature_def by (metis Suc_le_mono add_Suc_right atLeastAtMost_iff le_add1 le_diff_conv2 add_leD2 add.commute)
  then have "eocd_at b (of_nat (Suc (pos + d))) = Inr False"
    using eocd_at_word(1) [of "Suc (pos + d)" b] Suc.prems assms(3) by simp
  then show ?case using Suc assms(4) by (simp del: of_nat_Suc)
qed

lemma archive_parts:
  "length (archive body its cmt) = length body + length (cd_bytes its) + (EOCD_LEN + length cmt)"
  "drop (length body) (archive body its cmt) = cd_bytes its @ eocd_bytes (length body) its cmt"
  "drop (length body + length (cd_bytes its)) (archive body its cmt) = eocd_bytes (length body) its cmt"
  by (simp_all add: archive_def eocd_bytes_def EOCD_LEN_def)

lemma read_values_at:
  assumes b: "drop i b = eocd_bytes off its cmt" and len: "length b < 2 ^ 31" and n: "length its < 65536" "length cmt < 65536" and zf: "buf zf = b"
  shows "\<exists>zf'. read_central_dir_values zf (of_nat i) (int (length b) - int i) = Inr (Some zf') \<and> buf zf' = b \<and> entries zf' = entries zf \<and>
    disknum zf' = 0 \<and> diskWithCentralDir zf' = 0 \<and> entryCount zf' = of_nat (length its) \<and> totalEntryCount zf' = of_nat (length its) \<and>
    centralDirOffest zf' = of_nat off"
proof -
  have l32: "length b < 2 ^ 32" using len by simp
  note b' = b [unfolded eocd_bytes_def append_assoc]
  note int_at = read_le_int_at [OF _ l32] and short_at = read_le_short_at [OF _ l32]
  have total: "length b = i + 22 + length cmt"
    using drop_split_length [of i b "[]" "le_bytes CD_SIGNATURE"] b' by simp
  let ?p0 = "le_bytes CD_SIGNATURE"
  have dn: "read_le_short b (of_nat i + 0x04) = Inr 0" using short_at [of i ?p0 0] by (simp add: b')
  have dc: "read_le_short b (of_nat i + 0x06) = Inr 0" using short_at [of i "?p0 @ le16 0" 0] by (simp add: b')
  let ?p1 = "?p0 @ le16 0 @ le16 0"
  have ec: "read_le_short b (of_nat i + 0x08) = Inr (of_nat (length its))"
    by (rule short_at [of i ?p1]) (use n in \<open>simp_all add: b'\<close>)
  let ?p2 = "?p1 @ le16 (length its)"
  have tec: "read_le_short b (of_nat i + 0x0a) = Inr (of_nat (length its))"
    by (rule short_at [of i ?p2]) (use n in \<open>simp_all add: b'\<close>)
  let ?p3 = "?p2 @ le16 (length its)"
  have cds: "read_le_int b (of_nat i + 0x0c) = Inr (of_nat (length (cd_bytes its)))"
    by (rule int_at [of i ?p3]) (simp_all add: b')
  let ?p4 = "?p3 @ le_bytes (of_nat (length (cd_bytes its)))"
  have cdo: "read_le_int b (of_nat i + 0x10) = Inr (of_nat off)"
    by (rule int_at [of i ?p4]) (simp_all add: b')
  have cl: "read_le_short b (of_nat i + 0x14) = Inr (of_nat (length cmt))"
    by (rule short_at [of i "?p4 @ le_bytes (of_nat off)"]) (use n in \<open>simp_all add: b'\<close>)
  have u: "uint (of_nat (length cmt) :: u32) = int (length cmt)"
    using n(2) by (simp add: unsigned_of_nat take_bit_nat_eq_self)
  show ?thesis
    unfolding read_central_dir_values_def zf
    by (simp add: dn dc ec tec cds cdo cl u total EOCD_LEN_def Let_def zf)
qed

lemma length_cd_bytes: "its \<noteq> [] \<Longrightarrow> \<forall>it\<in>set its. item_ok n it \<Longrightarrow> ENTRY_LEN \<le> length (cd_bytes its)"
  by (cases its) (simp_all add: cd_bytes_def cd_entry_def item_ok_def ENTRY_LEN_def)

lemma init_zipfile_archive:
  assumes b: "b = archive body its cmt" and len: "length b < 2 ^ 31" and its: "\<forall>it\<in>set its. item_ok (length b) it" and n: "length its < 65536" "length cmt < 65536"
    and sig: "last_signature (length body + length (cd_bytes its)) b"
  obtains zf where "init_zipfile b = Inr (Some zf)" "buf zf = b" "list_all2 (entry_ok b) (rev its) (entries zf)"
proof -
  define pos where "pos = length body + length (cd_bytes its)"
  let ?zf = "\<lparr>buf = b, disknum = 0, diskWithCentralDir = 0, entryCount = 0, totalEntryCount = 0, centralDirSize = 0,
       centralDirOffest = 0, commentLen = 0, comment = None, entries = []\<rparr>"
  have l: "length b = pos + 22 + length cmt" by (simp add: b pos_def archive_parts EOCD_LEN_def)
  have at_pos: "drop pos b = eocd_bytes (length body) its cmt" by (simp add: b pos_def archive_parts)
  have "find_eocd b (if length b > MAX_EOCD_SEARCH then length b - MAX_EOCD_SEARCH else 0) (pos + (18 + length cmt)) = Inr (Some pos)"
    by (rule find_eocd_last)
       (use l n len sig at_pos in \<open>auto simp: pos_def [symmetric] eocd_bytes_def zip_consts\<close>)
  moreover have "pos + (18 + length cmt) = length b - 4" using l by simp
  ultimately have find: "find_eocd b (if length b > MAX_EOCD_SEARCH then length b - MAX_EOCD_SEARCH else 0) (length b - 4) = Inr (Some pos)"
    by (simp only:)
  obtain zf' where v: "read_central_dir_values ?zf (of_nat pos) (int (length b) - int pos) = Inr (Some zf')" "buf zf' = b" "entries zf' = []"
    "disknum zf' = 0" "diskWithCentralDir zf' = 0" "entryCount zf' = of_nat (length its)" "totalEntryCount zf' = of_nat (length its)"
    "centralDirOffest zf' = of_nat (length body)"
    using read_values_at [OF at_pos len n, of ?zf] by auto
  have body: "length body \<le> length b" using l by (simp add: pos_def)
  have "of_nat (length b) - of_nat (length body) = (of_nat (length b - length body) :: u32)" using body by (simp add: of_nat_diff)
  then have lim: "sint (of_nat (length b) - of_nat (length body) :: u32) = int (length b - length body)"
    using len by (simp add: signed_of_nat signed_take_bit_int_eq_self)
  have room: "its \<noteq> [] \<longrightarrow> int ENTRY_LEN \<le> int (length b - length body)"
    using length_cd_bytes [OF _ its] l by (auto simp: pos_def ENTRY_LEN_def)
  have "drop (length body) b = cd_bytes its @ eocd_bytes (length body) its cmt" by (simp add: b archive_parts)
  from read_entries_at [OF this len its room v(2)] obtain es
    where es: "read_entries zf' (length its) (of_nat (length body)) (int (length b - length body)) = Inr (Some (zf'\<lparr>entries := es @ entries zf'\<rparr>))"
      "list_all2 (entry_ok b) (rev its) es" by blast
  have u: "unat (of_nat (length its) :: u32) = length its" by (rule unat_nat32) (use n in simp)
  have b0: "buf ?zf = b" by simp
  have big: "\<not> length b < EOCD_LEN" using l by (simp add: EOCD_LEN_def)
  have "init_zipfile b = Inr (Some (zf'\<lparr>entries := es @ entries zf'\<rparr>))"
    unfolding init_zipfile_def read_central_dir_def Let_def b0 find
    by (simp add: v es(1) lim u big)
  then show thesis using es(2) v(2,3) that by simp
qed

section \<open>Looking up a name\<close>

lemma peek_Cons:
  assumes "peek b p (Suc n) = Inr (c # cs)" and "length b < 2 ^ 32"
  shows "peek b p 1 = Inr [c]" and "n \<noteq> 0 \<Longrightarrow> peek b (p + 1) n = Inr cs"
proof -
  have u: "unat p + Suc n \<le> length b" and t: "take (Suc n) (drop (unat p) b) = c # cs"
    using assms(1) by (simp_all add: peek_def split: if_splits)
  then show "peek b p 1 = Inr [c]" by (cases "drop (unat p) b") (simp_all add: peek_def)
  have "unat (of_nat (Suc (unat p)) :: u32) = Suc (unat p)" by (rule unat_nat32) (use u assms(2) in linarith)
  then have "unat (p + 1) = Suc (unat p)" by (simp add: add.commute)
  moreover have "take n (drop (Suc (unat p)) b) = cs"
    using arg_cong [OF t, of "drop 1"] by (simp add: drop_take)
  ultimately show "peek b (p + 1) n = Inr cs" using u by (simp add: peek_def)
qed

lemma mem_equal_prefix:
  assumes "peek b p (length name) = Inr name" and "length b < 2 ^ 32" and "CHR 0x00 \<notin> set name"
  shows "mem_equal (nm @ [CHR 0x00]) b p (length name) = Inr (prefix name nm)"
  using assms(1,3)
proof (induction name arbitrary: p nm)
  case (Cons c name)
  note step = peek_Cons [OF Cons.prems(1) [unfolded list.size add_0_right Nat.add_Suc_right] assms(2)]
  show ?case
  proof (cases nm)
    case Nil
    then show ?thesis using step(1) Cons.prems(2) by auto
  next
    case (Cons d nm')
    show ?thesis
      using step Cons Cons.IH [of "p + 1" nm'] Cons.prems(2) by (cases name) auto
  qed
qed simp

lemma entry_name:
  assumes "entry_ok (buf zf) it e" and "length (zi_name it) < 65536"
  shows "get_zipentry_name zf e = Inr (zi_name it)"
proof -
  have "unat (of_nat (length (zi_name it)) :: u32) = length (zi_name it)" by (rule unat_nat32) (use assms(2) in simp)
  then show ?thesis using assms(1) by (simp add: entry_ok_def get_zipentry_name_def split: option.splits)
qed

lemma lookup_entries_prefix:
  assumes "list_all2 (entry_ok b) its es" and "length b < 2 ^ 32" and "\<forall>it\<in>set its. length (zi_name it) < 65536 \<and> CHR 0x00 \<notin> set (zi_name it)"
  shows "\<exists>r. lookup_entries b nm es = Inr r \<and> rel_option (entry_ok b) (find (\<lambda>it. prefix (zi_name it) nm) its) r"
  using assms(1,3)
proof (induction rule: list_all2_induct)
  case (Cons it its e es)
  have u: "unat (of_nat (length (zi_name it)) :: u32) = length (zi_name it)"
    by (rule unat_nat32) (use Cons.prems in simp)
  have "(case fileName e of None \<Rightarrow> Inr True | Some p \<Rightarrow> mem_equal (nm @ [CHR 0x00]) b p (unat (fileNameLength e))) = Inr (prefix (zi_name it) nm)"
    using Cons.hyps(1) Cons.prems u mem_equal_prefix [OF _ assms(2)] by (auto simp: entry_ok_def split: option.splits)
  then show ?case using Cons by auto
qed simp

text \<open>
  C21: the reader accepts every well-formed archive below 2 GB and finds in it exactly the entries that are there, with their names, the last one first.
  Looking up a name then yields the first of them whose name is a prefix of the name looked for: the comparison stops at the end of the entry's name,
  so that an entry with the name \<open>And\<close>, or with none, passes for the manifest of a package.
\<close>

theorem zip_lookup_prefix:
  assumes "length (archive body its cmt) < 2 ^ 31" and "\<forall>it\<in>set its. item_ok (length (archive body its cmt)) it \<and> CHR 0x00 \<notin> set (zi_name it)"
    and "length its < 65536" and "length cmt < 65536" and "last_signature (length body + length (cd_bytes its)) (archive body its cmt)"
  shows "\<exists>zf r. init_zipfile (archive body its cmt) = Inr (Some zf) \<and> lookup_zipentry zf nm = Inr r \<and>
    map (get_zipentry_name zf) (entries zf) = map (\<lambda>it. Inr (zi_name it)) (rev its) \<and>
    map_option (get_zipentry_name zf) r = map_option (\<lambda>it. Inr (zi_name it)) (find (\<lambda>it. prefix (zi_name it) nm) (rev its))"
proof -
  let ?b = "archive body its cmt"
  have short: "length (zi_name it) < 65536" if "it \<in> set its" for it using assms(2) that by (auto simp: item_ok_def)
  obtain zf where zf: "init_zipfile ?b = Inr (Some zf)" "buf zf = ?b" "list_all2 (entry_ok ?b) (rev its) (entries zf)"
    by (rule init_zipfile_archive [OF refl assms(1) _ assms(3-5)]) (use assms(2) in auto)
  have "length ?b < 2 ^ 32" using assms(1) by simp
  with lookup_entries_prefix [OF zf(3), of nm] short assms(2) obtain r
    where r: "lookup_entries ?b nm (entries zf) = Inr r"
      "rel_option (entry_ok ?b) (find (\<lambda>it. prefix (zi_name it) nm) (rev its)) r" by auto
  have names: "map (get_zipentry_name zf) (entries zf) = map (\<lambda>it. Inr (zi_name it)) (rev its)"
  proof -
    have "get_zipentry_name zf e = Inr (zi_name it)" if "entry_ok ?b it e" "it \<in> set its" for it e
      using entry_name [of zf it e] that short zf(2) by simp
    then have "list_all2 (\<lambda>it e. get_zipentry_name zf e = Inr (zi_name it)) (rev its) (entries zf)"
      using list.rel_mono_strong [OF zf(3)] by simp
    then show ?thesis by (induction rule: list_all2_induct) simp_all
  qed
  have found: "it \<in> set its" if "find (\<lambda>it. prefix (zi_name it) nm) (rev its) = Some it" for it
    using that by (metis find_Some_iff nth_mem set_rev)
  have "map_option (get_zipentry_name zf) r = map_option (\<lambda>it. Inr (zi_name it)) (find (\<lambda>it. prefix (zi_name it) nm) (rev its))"
    using r(2) short found unfolding zf(2) [symmetric] by (cases rule: option.rel_cases) (auto simp: entry_name)
  with zf r(1) names show ?thesis by (auto simp: lookup_zipentry_def)
qed

definition prefix_item :: zip_item where
  "prefix_item = \<lparr>zi_name = ''And'', zi_extra = [], zi_comment = [], zi_method = 0, zi_csize = 0, zi_usize = 0, zi_offset = 0,
     zi_head = ''------'', zi_times = ''--------'', zi_attrs = ''--------''\<rparr>"

theorem zip_lookup_prefix_witness:
  "\<exists>zf r. init_zipfile (archive (replicate 30 CHR ''-'') [prefix_item] []) = Inr (Some zf) \<and>
    lookup_zipentry zf ''AndroidManifest.xml'' = Inr r \<and>
    map (get_zipentry_name zf) (entries zf) = [Inr ''And''] \<and> map_option (get_zipentry_name zf) r = Some (Inr ''And'')"
proof -
  let ?body = "replicate 30 CHR ''-''"
  have cd: "length (cd_bytes [prefix_item]) = 49" by (simp add: cd_bytes_def cd_entry_def prefix_item_def)
  have len: "length (archive ?body [prefix_item] []) = 101" by (simp add: archive_parts cd EOCD_LEN_def)
  have last: "\<forall>d\<in>set [1..<19]. le_word (take 4 (drop d (eocd_bytes 30 [prefix_item] []))) \<noteq> CD_SIGNATURE"
    by (simp add: upt_rec eocd_bytes_def cd le_bytes_def le16_def le_word_def CD_SIGNATURE_def word_of_char_of)
  have "le_word (take 4 (drop j (archive ?body [prefix_item] []))) \<noteq> CD_SIGNATURE" if "79 < j" "j \<le> 97" for j
  proof -
    have "j - 79 \<in> set [1..<19]" using that by auto
    from bspec [OF last this] show ?thesis using archive_parts(3) [of ?body "[prefix_item]" "[]"] that cd
      drop_drop [of "j - 79" 79 "archive ?body [prefix_item] []"] by simp
  qed
  then have "last_signature (length ?body + length (cd_bytes [prefix_item])) (archive ?body [prefix_item] [])"
    by (simp add: last_signature_def cd len)
  moreover have "item_ok 101 prefix_item" by (simp add: item_ok_def prefix_item_def LFH_SIZE_def)
  ultimately show ?thesis
    using zip_lookup_prefix [of ?body "[prefix_item]" "[]" "''AndroidManifest.xml''"] len
    by (simp add: prefix_item_def)
qed

end
