(* ===== verification/Host_Keys.thy ===== *)
theory Host_Keys
  imports Command_Line
begin

text \<open>
  The keys of the host, \<open>adb_auth_host.cpp\<close> built for Windows: the key of the user, which is generated when there is none, the keys that \<open>ADB_VENDOR_KEYS\<close> names,
  and what the protocol asks of them: the next key, a signature, the public key.

  OpenSSL is a parameter: the operations on big numbers (\<open>bn_lib\<close>), generating a key, reading and writing it, signing, base64. The files of the host are a map in the
  state; \<open>writable\<close> and \<open>mkdir_ok\<close> say which can be created. Allocation succeeds; \<open>kmalloc\<close> gives the address of the n-th object.
\<close>

section \<open>adb\_strtok\_r\<close>

fun skip_delims :: "string \<Rightarrow> string \<Rightarrow> string" where
  "skip_delims delim [] = []"
| "skip_delims delim (c # s) = (if c \<in> set delim then skip_delims delim s else c # s)"

text \<open>The token up to the next separator, and where the next call goes on: \<open>None\<close> is \<open>NULL\<close>.\<close>

fun scan_token :: "string \<Rightarrow> string \<Rightarrow> string \<times> string option" where
  "scan_token delim [] = ([], None)"
| "scan_token delim (c # s) = (if c \<in> set delim then ([], Some s) else case scan_token delim s of (tok, l) \<Rightarrow> (c # tok, l))"

definition adb_strtok_r :: "string \<Rightarrow> string option \<Rightarrow> (string \<times> string option) option" where
  "adb_strtok_r delim s =
     (case s of
        None \<Rightarrow> None
      | Some s \<Rightarrow> (case skip_delims delim s of [] \<Rightarrow> None | c # s \<Rightarrow> (case scan_token delim s of (tok, l) \<Rightarrow> Some (c # tok, l))))"

lemma length_skip_delims: "length (skip_delims delim s) \<le> length s"
  by (induction s) auto

lemma scan_token_less: "scan_token delim s = (tok, Some r) \<Longrightarrow> length r < length s"
  by (induction s arbitrary: tok) (auto split: if_splits prod.splits)

lemma strtok_less: "adb_strtok_r delim s = Some (tok, Some r) \<Longrightarrow> \<exists>s'. s = Some s' \<and> length r < length s'"
  using length_skip_delims [of delim "the s"]
  by (auto simp: adb_strtok_r_def split: option.splits list.splits prod.splits dest!: scan_token_less)

section \<open>Public keys\<close>

record rsa_key =
  rsa_n :: int
  rsa_e :: int
  rsa_d :: int

record bn_lib =
  BN_div :: "int \<Rightarrow> int \<Rightarrow> int \<times> int"
  BN_mod_sqr :: "int \<Rightarrow> int \<Rightarrow> int"
  BN_mod_inverse :: "int \<Rightarrow> int \<Rightarrow> int option"
  BN_get_word :: "int \<Rightarrow> u32"
  BN_set_bit :: "int \<Rightarrow> nat \<Rightarrow> int"
  RSA_size :: "rsa_key \<Rightarrow> nat"

record RSAPublicKey =
  k_len :: u32
  k_n0inv :: u32
  k_n :: "u32 list"
  k_rr :: "u32 list"
  k_exponent :: u32

text \<open>The loop: the words of \<open>n\<close> and of \<open>rr\<close>, the lowest first.\<close>

fun key_words :: "bn_lib \<Rightarrow> nat \<Rightarrow> int \<Rightarrow> int \<Rightarrow> int \<Rightarrow> u32 list \<times> u32 list" where
  "key_words bn 0 r32 rr n = ([], [])"
| "key_words bn (Suc i) r32 rr n =
     (let (rr, rem_rr) = BN_div bn rr r32;
          (n, rem_n) = BN_div bn n r32;
          (ns, rrs) = key_words bn i r32 rr n
      in (BN_get_word bn rem_n # ns, BN_get_word bn rem_rr # rrs))"

text \<open>A number that \<open>BN_new\<close> returns is 0; \<open>BN_mod_inverse\<close> leaves it so when there is no inverse.\<close>

definition RSA_to_RSAPublicKey :: "bn_lib \<Rightarrow> rsa_key \<Rightarrow> RSAPublicKey option" where
  "RSA_to_RSAPublicKey bn rsa =
     (if RSA_size bn rsa \<noteq> RSANUMBYTES then None
      else
        let r32 = BN_set_bit bn 0 32;
            n = rsa_n rsa;
            r = BN_set_bit bn 0 (RSANUMWORDS * 32);
            rr = BN_mod_sqr bn r n;
            n0inv = (case BN_mod_inverse bn (snd (BN_div bn n r32)) r32 of None \<Rightarrow> 0 | Some i \<Rightarrow> i);
            (ns, rrs) = key_words bn RSANUMWORDS r32 rr n
        in Some \<lparr>k_len = of_nat RSANUMWORDS, k_n0inv = 0 - BN_get_word bn n0inv, k_n = ns, k_rr = rrs, k_exponent = BN_get_word bn (rsa_e rsa)\<rparr>)"

text \<open>The bytes of the structure.\<close>

definition key_image :: "RSAPublicKey \<Rightarrow> byte list" where
  "key_image k =
     le_bytes (k_len k) @ le_bytes (k_n0inv k) @ concat (map le_bytes (k_n k)) @ concat (map le_bytes (k_rr k)) @ le_bytes (k_exponent k)"

section \<open>Key files\<close>

record keyenv =
  kbn :: bn_lib
  kgetenv :: "string \<Rightarrow> string option"
  profile_dir :: string
  new_rsa :: rsa_key
  pem_write :: "rsa_key \<Rightarrow> byte list option"
  pem_read :: "byte list \<Rightarrow> rsa_key option"
  b64_ntop :: "byte list \<Rightarrow> string"
  RSA_sign :: "rsa_key \<Rightarrow> byte list \<Rightarrow> byte list option"
  writable :: "string \<Rightarrow> bool"
  mkdir_ok :: "string \<Rightarrow> bool"
  kmalloc :: "nat \<Rightarrow> addr"

record keyst =
  klinks :: links
  kheap :: "addr \<Rightarrow> rsa_key option"
  kcount :: nat
  hfiles :: "string \<Rightarrow> byte list option"
  hdirs :: "string set"

definition key_list :: addr where "key_list = 1"
definition ANDROID_PATH :: string where "ANDROID_PATH = ''.android''"
definition ADB_KEY_FILE :: string where "ADB_KEY_FILE = ''adbkey''"

text \<open>
  \<open>_snprintf\<close>: what it returns, and the text in the array, which has no end when it fills the array. A longer text gives a negative result.
\<close>

definition snprintf_win :: "nat \<Rightarrow> string \<Rightarrow> int \<times> string outcome" where
  "snprintf_win n s = (if length s > n then - 1 else int (length s), sntext n s)"

definition path_exists :: "string \<Rightarrow> keyst \<Rightarrow> bool" where
  "path_exists p st \<longleftrightarrow> hfiles st p \<noteq> None \<or> p \<in> hdirs st"

text \<open>On Windows, the names of user and host are not asked for.\<close>

definition get_user_info :: string where
  "get_user_info = '' '' @ ''unknown'' @ ''@'' @ ''unknown''"

definition write_public_keyfile :: "keyenv \<Rightarrow> rsa_key \<Rightarrow> string \<Rightarrow> keyst \<Rightarrow> (bool \<times> keyst) outcome" where
  "write_public_keyfile env rsa private_key_path st =
     (case snprintf_win PATH_MAX (private_key_path @ ''.pub'') of (r, path) \<Rightarrow>
        if r \<ge> int PATH_MAX then Inr (False, st)
        else case RSA_to_RSAPublicKey (kbn env) rsa of
          None \<Rightarrow> Inr (False, st)
        | Some pkey \<Rightarrow>
            bindE path (\<lambda>path.
              if \<not> writable env path then Inr (False, st)
              else Inr (True, st\<lparr>hfiles := (hfiles st)(path \<mapsto> b64_ntop env (key_image pkey) @ get_user_info)\<rparr>)))"

definition generate_key :: "keyenv \<Rightarrow> string \<Rightarrow> keyst \<Rightarrow> (bool \<times> keyst) outcome" where
  "generate_key env file st =
     (if \<not> writable env file then Inr (False, st)
      else case pem_write env (new_rsa env) of
        None \<Rightarrow> Inr (False, st\<lparr>hfiles := (hfiles st)(file \<mapsto> [])\<rparr>)
      | Some pem \<Rightarrow> write_public_keyfile env (new_rsa env) file (st\<lparr>hfiles := (hfiles st)(file \<mapsto> pem)\<rparr>))"

definition read_key :: "keyenv \<Rightarrow> string \<Rightarrow> keyst \<Rightarrow> bool \<times> keyst" where
  "read_key env file st =
     (case hfiles st file of
        None \<Rightarrow> (False, st)
      | Some bs \<Rightarrow>
          let a = kmalloc env (kcount st); st = st\<lparr>kcount := kcount st + 1\<rparr> in
          (case pem_read env bs of
             None \<Rightarrow> (False, st)
           | Some rsa \<Rightarrow> (True, st\<lparr>kheap := (kheap st)(a \<mapsto> rsa), klinks := list_add_tail key_list a (klinks st)\<rparr>)))"

definition get_user_keyfilepath :: "keyenv \<Rightarrow> nat \<Rightarrow> keyst \<Rightarrow> (int \<times> string outcome \<times> keyst) outcome" where
  "get_user_keyfilepath env len st =
     (let home = (case kgetenv env ''ANDROID_SDK_HOME'' of Some h \<Rightarrow> h | None \<Rightarrow> profile_dir env) in
      case snprintf_win PATH_MAX (home @ SEP @ ANDROID_PATH) of (r, android_dir) \<Rightarrow>
        if r \<ge> int PATH_MAX then Inr (- 1, Inr [], st)
        else
          bindE android_dir (\<lambda>android_dir.
            if \<not> path_exists android_dir st \<and> \<not> mkdir_ok env android_dir then Inr (- 1, Inr [], st)
            else
              let st = (if path_exists android_dir st then st else st\<lparr>hdirs := insert android_dir (hdirs st)\<rparr>);
                  (r, filename) = snprintf_win len (android_dir @ SEP @ ADB_KEY_FILE)
              in Inr (r, filename, st)))"

definition get_user_key :: "keyenv \<Rightarrow> keyst \<Rightarrow> (bool \<times> keyst) outcome" where
  "get_user_key env st =
     bindE (get_user_keyfilepath env PATH_MAX st) (\<lambda>(r, path, st).
       if r < 0 \<or> r \<ge> int PATH_MAX then Inr (False, st)
       else
         bindE path (\<lambda>path.
         bindE (if path_exists path st then Inr (True, st) else generate_key env path st) (\<lambda>(ok, st).
           Inr (if ok then read_key env path st else (False, st)))))"

text \<open>The paths that \<open>get_vendor_keys\<close> reads, one call of \<open>adb_strtok_r\<close> after another.\<close>

function vendor_loop :: "keyenv \<Rightarrow> string option \<Rightarrow> keyst \<Rightarrow> keyst" where
  "vendor_loop env rest st =
     (case adb_strtok_r '';'' rest of
        None \<Rightarrow> st
      | Some (path, rest) \<Rightarrow> vendor_loop env rest (if path_exists path st then snd (read_key env path st) else st))"
  by pat_completeness auto

termination vendor_loop
proof (relation "measure (\<lambda>(env, rest, st). case rest of None \<Rightarrow> 0 | Some s \<Rightarrow> Suc (length s))", goal_cases)
  case (2 env rest st x path l)
  then have "adb_strtok_r '';'' rest = Some (path, l)" by simp
  then show ?case
    using strtok_less [of "'';''" rest path "the l"] by (cases l) (auto simp: adb_strtok_r_def split: option.splits)
qed simp

declare vendor_loop.simps [simp del]

text \<open>\<open>strncpy\<close> leaves a text that fills the array without an end.\<close>

definition get_vendor_keys :: "keyenv \<Rightarrow> keyst \<Rightarrow> keyst outcome" where
  "get_vendor_keys env st =
     (case kgetenv env ''ADB_VENDOR_KEYS'' of
        None \<Rightarrow> Inr st
      | Some p \<Rightarrow> if length p \<ge> MAX_PAYLOAD then Inl (Bad_access ''keys_path'') else Inr (vendor_loop env (Some p) st))"

section \<open>What the protocol asks for\<close>

text \<open>The signature; empty when there is none.\<close>

definition adb_auth_sign :: "keyenv \<Rightarrow> addr \<Rightarrow> byte list \<Rightarrow> keyst \<Rightarrow> byte list outcome" where
  "adb_auth_sign env node tok st =
     bindE (deref ''adb_private_key'' (kheap st) node) (\<lambda>rsa. Inr (case RSA_sign env rsa tok of None \<Rightarrow> [] | Some sig \<Rightarrow> sig))"

text \<open>\<open>None\<close>: the list does not come back to its head.\<close>

partial_function (option) nextkey_from :: "links \<Rightarrow> addr \<Rightarrow> addr \<Rightarrow> addr option" where
  "nextkey_from h current item =
     (if item = key_list then Some NULL
      else if item = current then Some (if nxt h item = key_list then NULL else nxt h item)
      else nextkey_from h current (nxt h item))"

definition adb_auth_nextkey :: "addr \<Rightarrow> keyst \<Rightarrow> addr option" where
  "adb_auth_nextkey current st =
     (if nxt (klinks st) key_list = key_list then Some NULL
      else if current = NULL then Some (nxt (klinks st) key_list)
      else nextkey_from (klinks st) current (nxt (klinks st) key_list))"

text \<open>The bytes that are put into the array of \<open>len\<close> bytes; none when the result is 0.\<close>

definition adb_auth_get_userkey :: "keyenv \<Rightarrow> nat \<Rightarrow> keyst \<Rightarrow> (byte list \<times> keyst) outcome" where
  "adb_auth_get_userkey env len st =
     bindE (get_user_keyfilepath env (PATH_MAX - 4) st) (\<lambda>(r, path, st).
       if r < 0 \<or> r \<ge> int (PATH_MAX - 4) then Inr ([], st)
       else
         bindE path (\<lambda>path.
           case hfiles st (path @ ''.pub'') of
             None \<Rightarrow> Inr ([], st)
           | Some bs \<Rightarrow> Inr (if bs = [] \<or> len < length bs + 1 then [] else bs @ [CHR 0x00], st)))"

definition adb_auth_init_host :: "keyenv \<Rightarrow> keyst \<Rightarrow> keyst outcome" where
  "adb_auth_init_host env st =
     bindE (get_user_key env (st\<lparr>klinks := list_init key_list (klinks st)\<rparr>)) (\<lambda>(ok, st).
       if ok then get_vendor_keys env st else Inr st)"

end
