(* ===== verification/Host_Keys_Props.thy ===== *)
theory Host_Keys_Props
  imports Host_Keys Protocol_Props
begin

text \<open>
  The keys of the host: the public key has the numbers that verifying a signature needs; the keys are tried in the order in which they were read; the public key
  that is sent is one that the device can read; and what a failure to write it, or a long path, leads to.
\<close>

section \<open>adb\_strtok\_r\<close>

lemma tokens_Cons: "tokens d (c # s) = (if c = d then tokens d s
    else case scan_token [d] s of (tok, l) \<Rightarrow> (c # tok) # (case l of None \<Rightarrow> [] | Some r \<Rightarrow> tokens d r))"
proof (induction s arbitrary: c)
  case Nil
  then show ?case by (simp add: tokens_def)
next
  case (Cons b s)
  have ne: "split_on d s \<noteq> []" for s by (induction s) (auto split: list.splits)
  show ?case
    using Cons [of b] ne [of s] by (auto simp: tokens_def split: list.splits prod.splits option.splits)
qed

lemma tokens_skip: "tokens d (skip_delims [d] s) = tokens d s"
  by (induction s) (auto simp: tokens_Cons)

lemma skip_delims_hd: "skip_delims delim s = c # r \<Longrightarrow> c \<notin> set delim"
  by (induction s) (auto split: if_splits)

text \<open>Calling \<open>adb_strtok_r\<close> until it returns \<open>NULL\<close> gives the pieces that the model of \<open>parse_banner\<close> uses.\<close>

lemma strtok_tokens:
  "(case adb_strtok_r [d] s of None \<Rightarrow> [] | Some (tok, l) \<Rightarrow> tok # (case l of None \<Rightarrow> [] | Some r \<Rightarrow> tokens d r)) =
   (case s of None \<Rightarrow> [] | Some s \<Rightarrow> tokens d s)"
proof (cases s)
  case None
  then show ?thesis by (simp add: adb_strtok_r_def)
next
  case (Some s')
  have e: "tokens d [] = []" by (simp add: tokens_def)
  show ?thesis
    using tokens_skip [of d s'] skip_delims_hd [of "[d]" s']
    by (cases "skip_delims [d] s'") (auto simp: Some e adb_strtok_r_def tokens_Cons split: prod.splits)
qed

text \<open>The vendor keys are read from the named files, in order.\<close>

lemma vendor_loop_tokens:
  "vendor_loop env s st =
     fold (\<lambda>path st. if path_exists path st then snd (read_key env path st) else st) (case s of None \<Rightarrow> [] | Some s \<Rightarrow> tokens CHR '';'' s) st"
proof (induction env s st rule: vendor_loop.induct)
  case (1 env rest st)
  show ?case
  proof (cases "adb_strtok_r '';'' rest")
    case None
    then show ?thesis using strtok_tokens [of "CHR '';''" rest] by (simp add: vendor_loop.simps [of env rest])
  next
    case (Some r)
    obtain tok l where r: "r = (tok, l)" by fastforce
    show ?thesis
      using 1 [OF Some r [symmetric]] strtok_tokens [of "CHR '';''" rest, symmetric] Some r by (simp add: vendor_loop.simps [of env rest])
  qed
qed

section \<open>The numbers of the public key\<close>

text \<open>What OpenSSL documents of the operations, for the arguments they are called with. Numbers of 2048 bits have 256 bytes.\<close>

definition bn_ok :: "bn_lib \<Rightarrow> bool" where
  "bn_ok bn \<longleftrightarrow>
     (\<forall>a d. 0 \<le> a \<and> 0 < d \<longrightarrow> BN_div bn a d = (a div d, a mod d)) \<and>
     (\<forall>a m. 0 \<le> a \<and> 0 < m \<longrightarrow> BN_mod_sqr bn a m = a * a mod m) \<and>
     (\<forall>a m. 0 \<le> a \<and> 1 < m \<and> coprime a m \<longrightarrow> (\<exists>i. BN_mod_inverse bn a m = Some i \<and> 0 \<le> i \<and> i < m \<and> a * i mod m = 1)) \<and>
     (\<forall>a. 0 \<le> a \<and> a < 2 ^ 32 \<longrightarrow> BN_get_word bn a = word_of_int a) \<and>
     (\<forall>k. BN_set_bit bn 0 k = 2 ^ k) \<and>
     (\<forall>rsa. RSA_size bn rsa = RSANUMBYTES \<longrightarrow> 0 < rsa_n rsa \<and> rsa_n rsa < 2 ^ (32 * RSANUMWORDS))"

text \<open>The number with the given words, the lowest first.\<close>

fun words_value :: "u32 list \<Rightarrow> int" where
  "words_value [] = 0"
| "words_value (w # ws) = uint w + 2 ^ 32 * words_value ws"

lemma uint_of_small: "0 \<le> a \<Longrightarrow> a < 2 ^ 32 \<Longrightarrow> uint (word_of_int a :: u32) = a"
  by (simp add: uint_word_of_int)

lemma key_words_value:
  assumes bn: "bn_ok bn"
  shows "0 \<le> rr \<Longrightarrow> rr < 2 ^ (32 * k) \<Longrightarrow> 0 \<le> n \<Longrightarrow> n < 2 ^ (32 * k) \<Longrightarrow> key_words bn k (2 ^ 32) rr n = (ns, rrs) \<Longrightarrow>
    words_value ns = n \<and> words_value rrs = rr \<and> length ns = k \<and> length rrs = k"
proof (induction k arbitrary: rr n ns rrs)
  case 0
  then show ?case by simp
next
  case (Suc k)
  have d: "BN_div bn a (2 ^ 32) = (a div 2 ^ 32, a mod 2 ^ 32)" "BN_get_word bn (a mod 2 ^ 32) = word_of_int (a mod 2 ^ 32)" if "0 \<le> a" for a
    using bn that by (auto simp: bn_ok_def)
  have q: "0 \<le> a div 2 ^ 32 \<and> a div 2 ^ 32 < 2 ^ (32 * k)" if "0 \<le> a" "a < 2 ^ (32 * Suc k)" for a :: int
  proof -
    have "(2::int) ^ (32 * Suc k) = 2 ^ (32 * k) * 2 ^ 32" by (simp only: power_add [symmetric] mult_Suc_right add.commute)
    then show ?thesis using that by (simp add: pos_imp_zdiv_nonneg_iff int_div_less_self div_less_iff_less_mult)
  qed
  obtain ns' rrs' where kw: "key_words bn k (2 ^ 32) (rr div 2 ^ 32) (n div 2 ^ 32) = (ns', rrs')" by fastforce
  have e: "ns = word_of_int (n mod 2 ^ 32) # ns'" "rrs = word_of_int (rr mod 2 ^ 32) # rrs'"
    using Suc.prems(5) unfolding key_words.simps d(1) [OF Suc.prems(1)] d(1) [OF Suc.prems(3)] Let_def prod.case kw d(2) [OF Suc.prems(1)] d(2) [OF Suc.prems(3)]
    by auto
  have "words_value ns' = n div 2 ^ 32 \<and> words_value rrs' = rr div 2 ^ 32 \<and> length ns' = k \<and> length rrs' = k"
    using Suc.IH [OF _ _ _ _ kw] q [OF Suc.prems(1,2)] q [OF Suc.prems(3,4)] by blast
  moreover have "uint (word_of_int (a mod 2 ^ 32) :: u32) = a mod 2 ^ 32" for a
    by (rule uint_of_small) simp_all
  ultimately show ?case unfolding e words_value.simps list.size by simp
qed

text \<open>
  C16: The public key that is sent to a device has the numbers that verifying a signature needs: the modulus in 64 words, the square of \<open>R = 2^2048\<close> modulo it, and
  in \<open>n0inv\<close> the negative inverse of the lowest word of the modulus, all for an odd modulus of 2048 bits.
\<close>

theorem public_key_numbers:
  assumes "bn_ok bn" and "RSA_size bn rsa = RSANUMBYTES" and "odd (rsa_n rsa)" and "0 \<le> rsa_e rsa" and "rsa_e rsa < 2 ^ 32"
  shows "\<exists>k. RSA_to_RSAPublicKey bn rsa = Some k \<and> length (k_n k) = RSANUMWORDS \<and> length (k_rr k) = RSANUMWORDS \<and>
    words_value (k_n k) = rsa_n rsa \<and> words_value (k_rr k) = (2 ^ (32 * RSANUMWORDS))\<^sup>2 mod rsa_n rsa \<and>
    k_n0inv k * (k_n k ! 0) = - 1 \<and> uint (k_exponent k) = rsa_e rsa"
proof -
  let ?R = "2 ^ (32 * RSANUMWORDS) :: int" and ?n = "rsa_n rsa"
  have n: "0 < ?n" "?n < ?R" using assms(1,2) by (auto simp: bn_ok_def)
  have sq: "BN_mod_sqr bn ?R ?n = ?R\<^sup>2 mod ?n" using assms(1) n(1) by (simp add: bn_ok_def power2_eq_square)
  have div: "snd (BN_div bn ?n (2 ^ 32)) = ?n mod 2 ^ 32" using assms(1) n(1) by (simp add: bn_ok_def)
  have "odd (?n mod 2 ^ 32)" using assms(3) dvd_mod_iff [of "2::int" "2 ^ 32" ?n] by simp
  then have "coprime (?n mod 2 ^ 32) (2 ^ 32)" by (simp only: coprime_power_right_iff coprime_right_2_iff_odd simp_thms)
  then obtain i where i: "BN_mod_inverse bn (?n mod 2 ^ 32) (2 ^ 32) = Some i" "0 \<le> i" "i < 2 ^ 32" "?n mod 2 ^ 32 * i mod 2 ^ 32 = 1"
    using assms(1) unfolding bn_ok_def by (metis one_less_power one_less_numeral_iff semiring_norm(76) pos_mod_sign zero_less_numeral zero_less_power)
  obtain ns rrs where kw: "key_words bn RSANUMWORDS (2 ^ 32) (?R\<^sup>2 mod ?n) ?n = (ns, rrs)" by fastforce
  have "0 \<le> ?R\<^sup>2 mod ?n" "?R\<^sup>2 mod ?n < ?R" using n by (simp_all add: order.strict_trans [OF pos_mod_bound])
  then have v: "words_value ns = ?n" "words_value rrs = ?R\<^sup>2 mod ?n" "length ns = RSANUMWORDS" "length rrs = RSANUMWORDS"
    using key_words_value [OF assms(1) _ _ _ n(2) kw] n(1) by (metis less_imp_le)+
  have "RSANUMWORDS = Suc 63" by (simp add: RSANUMWORDS_def)
  then obtain w ws where ns: "ns = w # ws" using v(3) by (cases ns) auto
  have "(uint w + 2 ^ 32 * words_value ws) mod 2 ^ 32 = uint w" using uint_lt2p [of w] by simp
  then have "uint w = ?n mod 2 ^ 32" using v(1) unfolding ns words_value.simps by metis
  then have w: "w = word_of_int (?n mod 2 ^ 32)" by (metis word_of_int_uint)
  have "word_of_int (a mod 2 ^ 32) = (word_of_int a :: u32)" for a by (simp add: word_of_int_eq_iff take_bit_eq_mod)
  from this [of "?n mod 2 ^ 32 * i"] have "word_of_int i * w = (word_of_int (?n mod 2 ^ 32 * i mod 2 ^ 32) :: u32)"
    unfolding w by (simp only: of_int_mult mult.commute)
  then have inv: "(0 - word_of_int i) * w = (- 1 :: u32)" using i(4) by simp
  have gw: "BN_get_word bn i = word_of_int i" "uint (BN_get_word bn (rsa_e rsa)) = rsa_e rsa"
    using assms(1,4,5) i(2,3) uint_of_small by (auto simp: bn_ok_def)
  have bits: "BN_set_bit bn 0 32 = 2 ^ 32" "BN_set_bit bn 0 (RSANUMWORDS * 32) = ?R"
    using assms(1) by (simp_all add: bn_ok_def mult.commute)
  have "RSA_to_RSAPublicKey bn rsa = Some \<lparr>k_len = of_nat RSANUMWORDS, k_n0inv = 0 - word_of_int i, k_n = ns, k_rr = rrs, k_exponent = BN_get_word bn (rsa_e rsa)\<rparr>"
    unfolding RSA_to_RSAPublicKey_def bits Let_def sq div i(1) option.case kw prod.case gw(1) using assms(2) by simp
  then show ?thesis using v inv gw(2) ns by simp
qed

text \<open>A library with the documented behaviour, a key of 2048 bits, and an encoding of bytes by two letters.\<close>

function egcd :: "int \<Rightarrow> int \<Rightarrow> int \<times> int" where
  "egcd a b = (if b \<le> 0 then (1, 0) else case egcd b (a mod b) of (x, y) \<Rightarrow> (y, x - a div b * y))"
  by pat_completeness auto

termination egcd
  by (relation "measure (\<lambda>(a, b). nat b)") auto

declare egcd.simps [simp del]

lemma egcd_gcd: "0 \<le> a \<Longrightarrow> 0 \<le> b \<Longrightarrow> egcd a b = (x, y) \<Longrightarrow> a * x + b * y = gcd a b"
proof (induction a b arbitrary: x y rule: egcd.induct)
  case (1 a b)
  show ?case
  proof (cases "b \<le> 0")
    case True
    then have "egcd a b = (1, 0)" by (simp add: egcd.simps [of a b])
    with True have "(x, y) = (1, 0)" "b = 0" using 1(3,4) by simp_all
    with 1(2) show ?thesis by simp
  next
    case False
    obtain u v where uv: "egcd b (a mod b) = (u, v)" by fastforce
    with 1 False have g: "b * u + a mod b * v = gcd b (a mod b)" by simp
    have xy: "x = v" "y = u - a div b * v" using 1(4) uv False by (auto simp: egcd.simps [of a b])
    have "a * v + b * (u - a div b * v) = b * u + (a - b * (a div b)) * v" by (simp add: algebra_simps)
    also have "\<dots> = gcd b (a mod b)" using g by (simp add: minus_mult_div_eq_mod)
    also have "\<dots> = gcd a b" by (metis gcd.commute gcd_red_int)
    finally show ?thesis by (simp add: xy)
  qed
qed

definition sample_bn :: bn_lib where
  "sample_bn = \<lparr>BN_div = (\<lambda>a d. (a div d, a mod d)), BN_mod_sqr = (\<lambda>a m. a * a mod m), BN_mod_inverse = (\<lambda>a m. Some (fst (egcd a m) mod m)),
     BN_get_word = word_of_int, BN_set_bit = (\<lambda>a k. a + 2 ^ k),
     RSA_size = (\<lambda>k. if 2 ^ (32 * RSANUMWORDS - 8) \<le> rsa_n k \<and> rsa_n k < 2 ^ (32 * RSANUMWORDS) then RSANUMBYTES else 0)\<rparr>"

definition sample_rsa :: rsa_key where
  "sample_rsa = \<lparr>rsa_n = 2 ^ (32 * RSANUMWORDS - 1) + 1, rsa_e = 65537, rsa_d = 0\<rparr>"

lemma sample_bn_ok: "bn_ok sample_bn"
proof -
  have "\<exists>i. fst (egcd a m) mod m = i \<and> 0 \<le> i \<and> i < m \<and> a * i mod m = 1" if "0 \<le> a" "1 < m" "coprime a m" for a m :: int
  proof -
    obtain x y where xy: "egcd a m = (x, y)" by fastforce
    then have "a * x = 1 - m * y" using egcd_gcd [OF that(1) _ xy] that(2,3) by (simp add: coprime_iff_gcd_eq_1)
    then have "a * (x mod m) mod m = 1" using that(2) by (simp add: mod_mult_right_eq mod_diff_eq [of 1 m "m * y", symmetric])
    with that(2) xy show ?thesis by simp
  qed
  moreover have "0 < v" if "2 ^ (32 * RSANUMWORDS - 8) \<le> v" for v :: int using that by (rule less_le_trans [rotated]) simp
  ultimately show ?thesis unfolding bn_ok_def
    by (auto simp: sample_bn_def RSANUMBYTES_def split: if_splits)
qed

lemma sample_rsa_size: "RSA_size sample_bn sample_rsa = RSANUMBYTES" "odd (rsa_n sample_rsa)"
proof -
  obtain m where m: "32 * RSANUMWORDS = Suc m" "0 < m" by (metis RSANUMWORDS_def Suc_pred numeral_2_eq_2 mult_pos_pos zero_less_numeral odd_pos even_Suc dvd_mult2 dvd_refl even_mult_iff even_numeral)
  have "(2::int) ^ (Suc m - 8) \<le> 2 ^ m" by (rule power_increasing) simp_all
  moreover have "(1::int) < 2 ^ m" using m(2) by (intro one_less_power) simp_all
  ultimately have "(2::int) ^ (Suc m - 8) \<le> 2 ^ m + 1" "(2::int) ^ m + 1 < 2 ^ Suc m" by (linarith, simp)
  then show "RSA_size sample_bn sample_rsa = RSANUMBYTES" "odd (rsa_n sample_rsa)"
    using m(2) by (simp_all add: sample_bn_def sample_rsa_def m(1))
qed

theorem public_key_numbers_witness:
  "bn_ok sample_bn \<and> (\<exists>k. RSA_to_RSAPublicKey sample_bn sample_rsa = Some k \<and> words_value (k_n k) = rsa_n sample_rsa \<and> k_n0inv k * (k_n k ! 0) = - 1)"
  using public_key_numbers [OF sample_bn_ok sample_rsa_size] sample_bn_ok by (auto simp: sample_rsa_def)

section \<open>Trying the keys\<close>

lemma nextkey_from_seg:
  "seg (nxt h) (as @ x # bs @ [key_list]) \<Longrightarrow> key_list \<notin> set (as @ x # bs) \<Longrightarrow> x \<notin> set as \<Longrightarrow>
   nextkey_from h x (hd (as @ [x])) = Some (hd (bs @ [NULL]))"
proof (induction as)
  case Nil
  then show ?case by (cases bs) (auto simp: nextkey_from.simps [of h x x])
next
  case (Cons a as)
  have "nxt h a = hd (as @ [x])" "seg (nxt h) (as @ x # bs @ [key_list])" using Cons.prems(1) by (cases as; simp)+
  with Cons show ?case by (simp add: nextkey_from.simps [of h x a])
qed

text \<open>The key after the i-th one is the next one; after the last one there is none, and with none the first one is taken.\<close>

lemma nextkey_order:
  assumes "ring (klinks st) key_list ks" and "NULL \<notin> set ks" and "i \<le> length ks"
  shows "adb_auth_nextkey ((NULL # ks) ! i) st = Some ((ks @ [NULL]) ! i)"
proof (cases i)
  case 0
  show ?thesis
  proof (cases ks)
    case Nil
    then show ?thesis using assms(1) 0 by (simp add: adb_auth_nextkey_def ring_Nil)
  next
    case (Cons k ks')
    then have "nxt (klinks st) key_list = k" "k \<noteq> key_list" using assms(1) ring_first ring_distinct(2) by fastforce+
    with Cons 0 show ?thesis by (simp add: adb_auth_nextkey_def)
  qed
next
  case (Suc j)
  define as x bs where "as = take j ks" and "x = ks ! j" and "bs = drop (Suc j) ks"
  have ks: "ks = as @ x # bs" using assms(3) Suc id_take_nth_drop [of j ks] by (simp add: as_def x_def bs_def)
  have r: "seg (nxt (klinks st)) (key_list # as @ x # bs @ [key_list])" "distinct (key_list # ks)" using assms(1) by (auto simp: ring_def ks)
  then have f: "nxt (klinks st) key_list = hd (as @ [x])" "seg (nxt (klinks st)) (as @ x # bs @ [key_list])" by (cases as; simp)+
  have "nextkey_from (klinks st) x (hd (as @ [x])) = Some (hd (bs @ [NULL]))" using r(2) ks by (intro nextkey_from_seg f) auto
  moreover have "hd (as @ [x]) \<noteq> key_list" using r(2) ks by (cases as) auto
  moreover have "x \<noteq> NULL" using assms(2) ks by auto
  moreover have "length as = j" using assms(3) Suc by (simp add: as_def)
  then have "(ks @ [NULL]) ! Suc j = hd (bs @ [NULL])" unfolding ks by (cases bs) (simp_all add: nth_append)
  moreover have "(NULL # ks) ! i = x" by (simp add: Suc x_def)
  ultimately show ?thesis using f(1) by (simp add: adb_auth_nextkey_def Suc)
qed

text \<open>The functions of this component as the parameters of the protocol; \<open>sizeof (p->data)\<close> is \<open>MAX_PAYLOAD\<close>.\<close>

definition with_keys :: "keyenv \<Rightarrow> keyst \<Rightarrow> adbenv \<Rightarrow> adbenv" where
  "with_keys kenv kst env = env
     \<lparr>nextkey := (\<lambda>a. the (adb_auth_nextkey a kst)),
      sign := (\<lambda>a tok. case adb_auth_sign kenv a tok kst of Inr sig \<Rightarrow> sig | Inl _ \<Rightarrow> []),
      userkey := (case adb_auth_get_userkey kenv MAX_PAYLOAD kst of Inr (bs, _) \<Rightarrow> bs | Inl _ \<Rightarrow> [])\<rparr>"

fun handle_tokens :: "adbenv \<Rightarrow> bool \<Rightarrow> apacket list \<Rightarrow> addr \<Rightarrow> 'z adbst_scheme \<Rightarrow> 'z adbst_scheme outcome" where
  "handle_tokens env ok [] t st = Inr st"
| "handle_tokens env ok (p # ps) t st = bindE (handle_auth env ok p t st) (handle_tokens env ok ps t)"

text \<open>What a packet of the protocol says: its first argument and its payload.\<close>

definition said :: "apacket \<Rightarrow> u32 \<times> byte list" where
  "said p = (arg0 (pmsg p), take (unat (data_length (pmsg p))) (pdata p))"

definition token_of :: "apacket \<Rightarrow> byte list" where
  "token_of p = take (unat (data_length (pmsg p))) (pdata p)"

lemma send_auth_said:
  assumes "length bs \<le> MAX_PAYLOAD" and "t \<noteq> NULL"
  shows "\<exists>q. send_packet (auth_packet kind bs payload) t st = Inr (st\<lparr>sent := sent st @ [(t, q)]\<rparr>) \<and> said q = (kind, bs)"
proof -
  have n: "unat (of_nat (length bs) :: u32) = length bs" using assms(1) by (simp add: MAX_PAYLOAD_def unat_of_nat)
  have "\<exists>s. payload_sum (of_nat (length bs)) (bs @ ys) = Inr s" for ys by (simp add: payload_sum_def n)
  then obtain s where "payload_sum (of_nat (length bs)) (bs @ drop (length bs) payload) = Inr s" by blast
  then show ?thesis using assms(2)
    by (simp add: send_packet_def seal_packet_def auth_packet_def with_payload_def get_apacket_def said_def n Let_def)
      (rule exI, rule conjI, rule refl, simp add: n)
qed

lemma handle_token:
  assumes "trans st t = Some x" and "arg0 (pmsg p) = ADB_AUTH_TOKEN" and "t \<noteq> NULL" and "k = nextkey env (t_key x)"
    and "bs = (if k = NULL then userkey env else sign env k (token_of p))" and "bs \<noteq> []" and "length bs \<le> MAX_PAYLOAD"
  shows "\<exists>q st'. handle_auth env ok p t st = Inr st' \<and> trans st' t = Some (x\<lparr>connection_state := CS_UNAUTHORIZED, t_key := k\<rparr>) \<and>
    sent st' = sent st @ [(t, q)] \<and> said q = (if k = NULL then ADB_AUTH_RSAPUBLICKEY else ADB_AUTH_SIGNATURE, bs)"
proof -
  let ?st = "st\<lparr>trans := (trans st)(t \<mapsto> x\<lparr>connection_state := CS_UNAUTHORIZED, t_key := k\<rparr>)\<rparr>"
  obtain q where q: "send_packet (auth_packet (if k = NULL then ADB_AUTH_RSAPUBLICKEY else ADB_AUTH_SIGNATURE) bs (fresh_payload st)) t ?st =
      Inr (?st\<lparr>sent := sent ?st @ [(t, q)]\<rparr>)" "said q = (if k = NULL then ADB_AUTH_RSAPUBLICKEY else ADB_AUTH_SIGNATURE, bs)"
    using send_auth_said [OF assms(7,3)] by blast
  show ?thesis
    using q assms(1-6) by (cases "k = NULL")
      (auto simp: handle_auth_def upd_trans_def send_auth_response_def send_auth_publickey_def token_of_def Let_def)
qed

lemma userkey_length:
  assumes "adb_auth_get_userkey env len st = Inr (bs, st')"
  shows "length bs \<le> len"
proof -
  obtain r path st1 where "get_user_keyfilepath env (PATH_MAX - 4) st = Inr (r, path, st1)"
    using assms unfolding adb_auth_get_userkey_def by (elim bindE_InrE) (metis prod.collapse)
  with assms show ?thesis unfolding adb_auth_get_userkey_def
    by (cases path) (simp_all split: if_splits option.splits, auto)
qed

text \<open>
  C15: The host tries its keys in turn. When the device sends a token for every key and one more, the i-th answer is the signature of the i-th key, in the order in which the keys were
  read, and after the last key the public key of the user, which the device shows to the user. No key is left out or tried twice before that.
\<close>

theorem keys_tried_in_turn:
  assumes "ring (klinks kst) key_list ks" and "NULL \<notin> set ks" and "\<forall>k\<in>set ks. kheap kst k \<noteq> None"
    and "\<forall>k tok. \<exists>sig. RSA_sign kenv k tok = Some sig \<and> sig \<noteq> [] \<and> length sig \<le> MAX_PAYLOAD"
    and "adb_auth_get_userkey kenv MAX_PAYLOAD kst = Inr (pub, kst)" and "pub \<noteq> []"
    and "trans st t = Some x" and "t_key x = NULL" and "t \<noteq> NULL"
    and "length ps = length ks + 1" and "\<forall>p\<in>set ps. arg0 (pmsg p) = ADB_AUTH_TOKEN"
  shows "\<exists>st' qs. handle_tokens (with_keys kenv kst env) ok ps t st = Inr st' \<and> sent st' = sent st @ map (Pair t) qs \<and>
    map said qs = map (\<lambda>(k, p). (ADB_AUTH_SIGNATURE, the (RSA_sign kenv (the (kheap kst k)) (token_of p)))) (zip ks ps) @ [(ADB_AUTH_RSAPUBLICKEY, pub)]"
proof -
  let ?env = "with_keys kenv kst env"
  have pub: "userkey ?env = pub" "length pub \<le> MAX_PAYLOAD"
    using assms(5) userkey_length [OF assms(5)] by (simp_all add: with_keys_def)
  have nk: "nextkey ?env ((NULL # ks) ! i) = (ks @ [NULL]) ! i" if "i \<le> length ks" for i
    using nextkey_order [OF assms(1,2) that] by (simp add: with_keys_def)
  have sg: "sign ?env k tok = the (RSA_sign kenv (the (kheap kst k)) tok) \<and> sign ?env k tok \<noteq> [] \<and> length (sign ?env k tok) \<le> MAX_PAYLOAD"
    if "k \<in> set ks" for k tok
  proof -
    have "kheap kst k \<noteq> None" using assms(3) that by blast
    then obtain r where "kheap kst k = Some r" by blast
    with assms(4) [rule_format, of r tok] show ?thesis by (auto simp: with_keys_def adb_auth_sign_def)
  qed
  have "\<exists>st' qs. handle_tokens ?env ok ps t st = Inr st' \<and> sent st' = sent st @ map (Pair t) qs \<and>
      map said qs = map (\<lambda>(k, p). (ADB_AUTH_SIGNATURE, the (RSA_sign kenv (the (kheap kst k)) (token_of p)))) (zip (drop i ks) ps) @ [(ADB_AUTH_RSAPUBLICKEY, pub)]"
    if "i \<le> length ks" "length ps = length ks - i + 1" "\<forall>p\<in>set ps. arg0 (pmsg p) = ADB_AUTH_TOKEN" "trans st t = Some x" "t_key x = (NULL # ks) ! i"
    for i ps st x
    using that
  proof (induction ps arbitrary: i st x)
    case (Cons p ps)
    let ?k = "(ks @ [NULL]) ! i"
    define bs where "bs = (if ?k = NULL then userkey ?env else sign ?env ?k (token_of p))"
    have m: "i < length ks \<Longrightarrow> ks ! i \<noteq> NULL" using assms(2) nth_mem [of i ks] by metis
    have k: "?k = NULL \<longleftrightarrow> i = length ks" "i < length ks \<Longrightarrow> ?k \<in> set ks" using m Cons.prems(1) by (auto simp: nth_append)
    have bs: "bs \<noteq> []" "length bs \<le> MAX_PAYLOAD" using sg [of ?k "token_of p"] pub assms(6) k Cons.prems(1) by (auto simp: bs_def)
    obtain q st1 where q: "handle_auth ?env ok p t st = Inr st1" "trans st1 t = Some (x\<lparr>connection_state := CS_UNAUTHORIZED, t_key := ?k\<rparr>)"
      "sent st1 = sent st @ [(t, q)]" "said q = (if ?k = NULL then ADB_AUTH_RSAPUBLICKEY else ADB_AUTH_SIGNATURE, bs)"
      using handle_token [OF Cons.prems(4) _ assms(9) _ bs_def bs, of ok] nk [OF Cons.prems(1)] Cons.prems(3,5) by auto
    show ?case
    proof (cases "i = length ks")
      case True
      then show ?thesis using q Cons.prems(2) k(1) pub(1) by (auto simp: bs_def intro!: exI [of _ "[q]"])
    next
      case False
      then have i: "i < length ks" using Cons.prems(1) by simp
      obtain st' qs where IH: "handle_tokens ?env ok ps t st1 = Inr st'" "sent st' = sent st1 @ map (Pair t) qs"
        "map said qs = map (\<lambda>(k, p). (ADB_AUTH_SIGNATURE, the (RSA_sign kenv (the (kheap kst k)) (token_of p)))) (zip (drop (Suc i) ks) ps) @ [(ADB_AUTH_RSAPUBLICKEY, pub)]"
        using Cons.IH [of "Suc i" st1, OF _ _ _ q(2)] i Cons.prems(2,3) by (auto simp: nth_append Suc_diff_Suc)
      have "drop i ks = ?k # drop (Suc i) ks" using i by (simp add: Cons_nth_drop_Suc nth_append)
      then show ?thesis using q IH k i sg [of ?k "token_of p"] by (auto simp: bs_def intro!: exI [of _ "q # qs"])
    qed
  qed simp
  from this [of 0 ps st x] assms(7-11) show ?thesis by simp
qed

section \<open>The key of the user\<close>

definition user_home :: "keyenv \<Rightarrow> string" where
  "user_home env = (case kgetenv env ''ANDROID_SDK_HOME'' of Some h \<Rightarrow> h | None \<Rightarrow> profile_dir env)"

definition user_dir :: "keyenv \<Rightarrow> string" where "user_dir env = user_home env @ SEP @ ANDROID_PATH"
definition user_file :: "keyenv \<Rightarrow> string" where "user_file env = user_dir env @ SEP @ ADB_KEY_FILE"

definition with_dir :: "keyenv \<Rightarrow> keyst \<Rightarrow> keyst" where
  "with_dir env st = (if path_exists (user_dir env) st then st else st\<lparr>hdirs := insert (user_dir env) (hdirs st)\<rparr>)"

lemma with_dir_sel [simp]:
  "klinks (with_dir env st) = klinks st" "kheap (with_dir env st) = kheap st" "kcount (with_dir env st) = kcount st" "hfiles (with_dir env st) = hfiles st"
  "path_exists (user_dir env) (with_dir env st)"
  by (simp_all add: with_dir_def path_exists_def)

lemma user_file_not_dir: "path_exists (user_file env) (with_dir env st) = path_exists (user_file env) st"
  by (auto simp: with_dir_def path_exists_def user_file_def SEP_def)

lemma keyfilepath_eq:
  assumes "length (user_home env) \<le> 200" and "path_exists (user_dir env) st \<or> mkdir_ok env (user_dir env)" and "230 < len"
  shows "get_user_keyfilepath env len st = Inr (int (length (user_file env)), Inr (user_file env), with_dir env st)"
proof -
  have "length (user_dir env) < 210" "length (user_file env) < 220" using assms(1) by (simp_all add: user_dir_def user_file_def SEP_def ANDROID_PATH_def ADB_KEY_FILE_def)
  then have s: "snprintf_win PATH_MAX (user_dir env) = (int (length (user_dir env)), Inr (user_dir env))"
    "snprintf_win len (user_file env) = (int (length (user_file env)), Inr (user_file env))" "\<not> int (length (user_dir env)) \<ge> int PATH_MAX"
    using assms(3) by (simp_all add: snprintf_win_def sntext_def PATH_MAX_def)
  show ?thesis
    unfolding get_user_keyfilepath_def Let_def
    unfolding user_home_def [symmetric] unfolding user_dir_def [symmetric] s(1) prod.case if_not_P [OF s(3)] bindE_Inr unfolding user_file_def [symmetric] s(2) prod.case
    using assms(2) by (auto simp: with_dir_def)
qed

lemma user_file_short: "length (user_home env) \<le> 200 \<Longrightarrow> length (user_file env) < 220"
  by (simp add: user_dir_def user_file_def SEP_def ANDROID_PATH_def ADB_KEY_FILE_def)

lemma get_user_key_eq:
  assumes "length (user_home env) \<le> 200" and "path_exists (user_dir env) st \<or> mkdir_ok env (user_dir env)"
  shows "get_user_key env st =
    bindE (if path_exists (user_file env) st then Inr (True, with_dir env st) else generate_key env (user_file env) (with_dir env st)) (\<lambda>(ok, st).
      Inr (if ok then read_key env (user_file env) st else (False, st)))"
  using keyfilepath_eq [OF assms, of PATH_MAX] user_file_short [OF assms(1)]
  by (simp add: get_user_key_def PATH_MAX_def user_file_not_dir)

lemma userkey_eq:
  assumes "length (user_home env) \<le> 200" and "path_exists (user_dir env) st"
  shows "adb_auth_get_userkey env len st =
    Inr (case hfiles st (user_file env @ ''.pub'') of None \<Rightarrow> [] | Some bs \<Rightarrow> if bs = [] \<or> len < length bs + 1 then [] else bs @ [CHR 0x00], st)"
proof -
  have "with_dir env st = st" using assms(2) by (simp add: with_dir_def)
  then show ?thesis using keyfilepath_eq [of env st "PATH_MAX - 4"] user_file_short [OF assms(1)] assms
    by (simp add: adb_auth_get_userkey_def PATH_MAX_def split: option.split)
qed

lemma key_words_length: "key_words bn k r rr n = (ns, rrs) \<Longrightarrow> length ns = k \<and> length rrs = k"
proof (induction k arbitrary: rr n ns rrs)
  case (Suc k)
  obtain ns' rrs' where "key_words bn k r (fst (BN_div bn rr r)) (fst (BN_div bn n r)) = (ns', rrs')" by fastforce
  then show ?case using Suc.prems Suc.IH by (auto simp: Let_def case_prod_beta)
qed simp

lemma length_concat_le: "length (concat (map le_bytes ws)) = 4 * length ws"
  by (induction ws) auto

lemma key_image_shape:
  assumes "RSA_to_RSAPublicKey bn rsa = Some k"
  shows "length (key_image k) = 524 \<and> unat (le_word (key_image k)) = RSANUMWORDS"
proof -
  obtain i ns rrs e where "k = \<lparr>k_len = of_nat RSANUMWORDS, k_n0inv = i, k_n = ns, k_rr = rrs, k_exponent = e\<rparr>" "length ns = RSANUMWORDS" "length rrs = RSANUMWORDS"
    using assms key_words_length [of bn RSANUMWORDS] by (fastforce simp: RSA_to_RSAPublicKey_def Let_def split: if_splits prod.splits)
  then show ?thesis by (simp add: key_image_def length_concat_le le_word_append RSANUMWORDS_def)
qed

text \<open>What is documented of base64: one line of printable characters, four for three bytes (at most two for each, and two more), which the decoder of the device reads.\<close>

definition b64_ok :: "keyenv \<Rightarrow> adbenv \<Rightarrow> bool" where
  "b64_ok env denv \<longleftrightarrow> (\<forall>bs. b64_pton denv (b64_ntop env bs) = Some bs \<and> length (b64_ntop env bs) \<le> 2 * length bs + 2 \<and>
     CHR '' '' \<notin> set (b64_ntop env bs) \<and> CHR 0x09 \<notin> set (b64_ntop env bs) \<and> CHR 0x00 \<notin> set (b64_ntop env bs))"

lemma userkey_line:
  assumes "b64_ok env denv" and "length (key_image k) = 524 \<and> unat (le_word (key_image k)) = RSANUMWORDS"
  shows "parse_key denv (takeWhile (\<lambda>c. c \<noteq> CHR 0x00) (b64_ntop env (key_image k) @ get_user_info @ [CHR 0x00])) = Some (key_image k)"
proof -
  let ?b = "b64_ntop env (key_image k)"
  have b: "\<forall>c\<in>set ?b. c \<noteq> CHR 0x00" "\<forall>c\<in>set ?b. c \<noteq> CHR '' '' \<and> c \<noteq> CHR 0x09" "b64_pton denv ?b = Some (key_image k)"
    using assms(1) by (auto simp: b64_ok_def)
  have "takeWhile (\<lambda>c. c \<noteq> CHR 0x00) (?b @ get_user_info @ [CHR 0x00]) = ?b @ get_user_info"
    using b(1) by (simp add: takeWhile_append2 get_user_info_def)
  moreover have "takeWhile (\<lambda>c. c \<noteq> CHR '' '' \<and> c \<noteq> CHR 0x09) (?b @ get_user_info) = ?b"
    using b(2) by (simp add: takeWhile_append2 get_user_info_def)
  ultimately show ?thesis using assms(2) b(3) by (simp add: parse_key_def)
qed

lemma write_public_eq:
  assumes "length (user_home env) \<le> 200" and "RSA_size (kbn env) rsa = RSANUMBYTES"
  shows "\<exists>k. RSA_to_RSAPublicKey (kbn env) rsa = Some k \<and> write_public_keyfile env rsa (user_file env) st =
    Inr (if writable env (user_file env @ ''.pub'') then (True, st\<lparr>hfiles := (hfiles st)(user_file env @ ''.pub'' \<mapsto> b64_ntop env (key_image k) @ get_user_info)\<rparr>)
         else (False, st))"
proof -
  have "RSA_to_RSAPublicKey (kbn env) rsa \<noteq> None" using assms(2) by (simp add: RSA_to_RSAPublicKey_def Let_def split: prod.split)
  then obtain k where "RSA_to_RSAPublicKey (kbn env) rsa = Some k" by blast
  then show ?thesis using user_file_short [OF assms(1)] by (simp add: write_public_keyfile_def snprintf_win_def sntext_def PATH_MAX_def)
qed

lemma generate_key_eq:
  assumes "length (user_home env) \<le> 200" and "RSA_size (kbn env) (new_rsa env) = RSANUMBYTES" and "writable env (user_file env)" and "pem_write env (new_rsa env) = Some pem"
  shows "\<exists>k. RSA_to_RSAPublicKey (kbn env) (new_rsa env) = Some k \<and> generate_key env (user_file env) st =
    Inr (if writable env (user_file env @ ''.pub'')
         then (True, st\<lparr>hfiles := (hfiles st)(user_file env \<mapsto> pem, user_file env @ ''.pub'' \<mapsto> b64_ntop env (key_image k) @ get_user_info)\<rparr>)
         else (False, st\<lparr>hfiles := (hfiles st)(user_file env \<mapsto> pem)\<rparr>))"
  using write_public_eq [OF assms(1,2), of "st\<lparr>hfiles := (hfiles st)(user_file env \<mapsto> pem)\<rparr>"] assms(3,4)
  by (elim exE) (auto simp: generate_key_def)

lemma read_key_eq:
  assumes "hfiles st file = Some pem" and "pem_read env pem = Some rsa"
  shows "read_key env file st = (True, st\<lparr>kcount := kcount st + 1, kheap := (kheap st)(kmalloc env (kcount st) \<mapsto> rsa),
    klinks := list_add_tail key_list (kmalloc env (kcount st)) (klinks st)\<rparr>)"
  using assms by (simp add: read_key_def Let_def)

text \<open>
  C12: The first start gives a host that a device can get to know. Without a key file, \<open>adb_auth_init\<close> generates a key, which becomes the only key in the list; the
  public key that the host then sends ends with a zero byte, and the device reads from this line exactly the structure with the numbers of this key.
  (\<open>ADB_VENDOR_KEYS\<close> is not set, the path of the home directory has at most 200 bytes, and the two files can be written.)
\<close>

theorem first_start_key_usable:
  assumes "length (user_home env) \<le> 200" and "path_exists (user_dir env) st \<or> mkdir_ok env (user_dir env)" and "\<not> path_exists (user_file env) st"
    and "writable env (user_file env)" and "writable env (user_file env @ ''.pub'')" and "kgetenv env ''ADB_VENDOR_KEYS'' = None"
    and "pem_write env (new_rsa env) = Some pem" and "pem_read env pem = Some (new_rsa env)" and "RSA_size (kbn env) (new_rsa env) = RSANUMBYTES"
    and "b64_ok env denv" and "kmalloc env (kcount st) \<noteq> key_list"
  shows "\<exists>st' k pub. adb_auth_init_host env st = Inr st' \<and> ring (klinks st') key_list [kmalloc env (kcount st)] \<and>
    kheap st' (kmalloc env (kcount st)) = Some (new_rsa env) \<and> adb_auth_get_userkey env MAX_PAYLOAD st' = Inr (pub @ [CHR 0x00], st') \<and>
    RSA_to_RSAPublicKey (kbn env) (new_rsa env) = Some k \<and> parse_key denv (takeWhile (\<lambda>c. c \<noteq> CHR 0x00) (pub @ [CHR 0x00])) = Some (key_image k)"
proof -
  let ?f = "user_file env" and ?a = "kmalloc env (kcount st)" and ?st = "st\<lparr>klinks := list_init key_list (klinks st)\<rparr>"
  have e: "path_exists p ?st = path_exists p st" for p by (simp add: path_exists_def)
  obtain k where k: "RSA_to_RSAPublicKey (kbn env) (new_rsa env) = Some k" "generate_key env ?f (with_dir env ?st) =
      Inr (True, (with_dir env ?st)\<lparr>hfiles := (hfiles st)(?f \<mapsto> pem, ?f @ ''.pub'' \<mapsto> b64_ntop env (key_image k) @ get_user_info)\<rparr>)"
    using generate_key_eq [OF assms(1,9,4,7), of "with_dir env ?st"] assms(5) by auto
  let ?pub = "b64_ntop env (key_image k) @ get_user_info"
  let ?st' = "(with_dir env ?st)\<lparr>hfiles := (hfiles st)(?f \<mapsto> pem, ?f @ ''.pub'' \<mapsto> ?pub), kcount := kcount st + 1, kheap := (kheap st)(?a \<mapsto> new_rsa env),
    klinks := list_add_tail key_list ?a (list_init key_list (klinks st))\<rparr>"
  have "get_user_key env ?st = Inr (True, ?st')"
    using get_user_key_eq [OF assms(1), of ?st] assms(2,3) e k(2) read_key_eq [of _ ?f pem env "new_rsa env"] assms(8) by simp
  then have init: "adb_auth_init_host env st = Inr ?st'" by (simp add: adb_auth_init_host_def get_vendor_keys_def assms(6))
  have d: "path_exists (user_dir env) ?st'" by (auto simp: path_exists_def with_dir_def user_file_def)
  have sh: "length (key_image k) = 524 \<and> unat (le_word (key_image k)) = RSANUMWORDS" by (rule key_image_shape [OF k(1)])
  have "length (b64_ntop env (key_image k)) \<le> 1050" using assms(10) sh by (auto simp: b64_ok_def dest!: spec [of _ "key_image k"])
  then have uk: "adb_auth_get_userkey env MAX_PAYLOAD ?st' = Inr (?pub @ [CHR 0x00], ?st')"
    using userkey_eq [OF assms(1) d, of MAX_PAYLOAD] by (simp add: get_user_info_def MAX_PAYLOAD_def)
  have "ring (klinks ?st') key_list [?a]" using ring_add_tail [OF ring_list_init, of ?a key_list] assms(11) by simp
  then show ?thesis using init uk k(1) userkey_line [OF assms(10) sh] by (intro exI [of _ ?st'] exI [of _ k] exI [of _ ?pub]) simp
qed

text \<open>A host with two keys; letters for bytes.\<close>

definition letter :: "nat \<Rightarrow> char" where "letter n = char_of (65 + n)"

definition enc2 :: "byte list \<Rightarrow> string" where
  "enc2 bs = concat (map (\<lambda>c. [letter (of_char c div 16), letter (of_char c mod 16)]) bs)"

fun dec2 :: "string \<Rightarrow> byte list" where
  "dec2 (a # b # s) = char_of ((of_char a - 65) * 16 + (of_char b - 65 :: nat)) # dec2 s"
| "dec2 _ = []"

lemma of_char_letter: "n < 16 \<Longrightarrow> of_char (letter n) = 65 + n"
  by (simp add: letter_def)

lemma letter_plain: "n < 16 \<Longrightarrow> letter n \<noteq> CHR '' '' \<and> letter n \<noteq> CHR 0x09 \<and> letter n \<noteq> CHR 0x00"
proof -
  assume "n < 16"
  then have "of_char (letter n) = 65 + n" by (rule of_char_letter)
  then show ?thesis by auto
qed

lemma enc2_ok:
  "dec2 (enc2 bs) = bs" "length (enc2 bs) = 2 * length bs" "CHR '' '' \<notin> set (enc2 bs) \<and> CHR 0x09 \<notin> set (enc2 bs) \<and> CHR 0x00 \<notin> set (enc2 bs)"
proof (induction bs)
  case (Cons c bs)
  have n: "(of_char c :: nat) div 16 < 16" "(of_char c :: nat) mod 16 < 16" using of_char_lt_256 [of c] by linarith+
  have e: "of_char c div 16 * 16 + of_char c mod 16 = (of_char c :: nat)" by (rule div_mult_mod_eq)
  show "dec2 (enc2 (c # bs)) = c # bs" using Cons(1) e by (simp add: enc2_def of_char_letter [OF n(1)] of_char_letter [OF n(2)])
  show "length (enc2 (c # bs)) = 2 * length (c # bs)" using Cons(2) by (simp add: enc2_def)
  show "CHR '' '' \<notin> set (enc2 (c # bs)) \<and> CHR 0x09 \<notin> set (enc2 (c # bs)) \<and> CHR 0x00 \<notin> set (enc2 (c # bs))"
    using Cons(3) letter_plain [OF n(1)] letter_plain [OF n(2)] by (auto simp: enc2_def)
qed (simp_all add: enc2_def)

definition sample_keyenv :: "(string \<Rightarrow> bool) \<Rightarrow> keyenv" where
  "sample_keyenv w = \<lparr>kbn = sample_bn, kgetenv = (\<lambda>_. None), profile_dir = ''C:'', new_rsa = sample_rsa, pem_write = (\<lambda>_. Some ''pem''),
     pem_read = (\<lambda>bs. if bs = ''pem'' then Some sample_rsa else None), b64_ntop = enc2, RSA_sign = (\<lambda>k tok. Some ''sig''), writable = w,
     mkdir_ok = (\<lambda>_. True), kmalloc = (\<lambda>n. n + 10)\<rparr>"

definition no_keys :: keyst where
  "no_keys = \<lparr>klinks = \<lparr>nxt = (\<lambda>_. 0), prv = (\<lambda>_. 0)\<rparr>, kheap = Map.empty, kcount = 0, hfiles = Map.empty, hdirs = {}\<rparr>"

definition two_keys :: keyst where
  "two_keys = \<lparr>klinks = list_add_tail key_list 11 (list_add_tail key_list 10 (list_init key_list \<lparr>nxt = (\<lambda>_. 0), prv = (\<lambda>_. 0)\<rparr>)),
     kheap = [10 \<mapsto> sample_rsa, 11 \<mapsto> sample_rsa], kcount = 2, hfiles = [user_file (sample_keyenv (\<lambda>_. True)) @ ''.pub'' \<mapsto> ''KEY user''],
     hdirs = {user_dir (sample_keyenv (\<lambda>_. True))}\<rparr>"

lemma sample_home: "length (user_home (sample_keyenv w)) \<le> 200"
  by (simp add: sample_keyenv_def user_home_def)

theorem first_start_key_usable_witness:
  "\<exists>st' k pub. adb_auth_init_host (sample_keyenv (\<lambda>_. True)) no_keys = Inr st' \<and> ring (klinks st') key_list [10] \<and>
    adb_auth_get_userkey (sample_keyenv (\<lambda>_. True)) MAX_PAYLOAD st' = Inr (pub @ [CHR 0x00], st') \<and>
    parse_key (sample_env\<lparr>b64_pton := \<lambda>s. Some (dec2 s)\<rparr>) (takeWhile (\<lambda>c. c \<noteq> CHR 0x00) (pub @ [CHR 0x00])) = Some (key_image k)"
proof -
  have "b64_ok (sample_keyenv (\<lambda>_. True)) (sample_env\<lparr>b64_pton := \<lambda>s. Some (dec2 s)\<rparr>)"
    using enc2_ok by (simp add: b64_ok_def sample_keyenv_def)
  then show ?thesis
    using first_start_key_usable [OF sample_home, of "\<lambda>_. True" no_keys "''pem''" "sample_env\<lparr>b64_pton := \<lambda>s. Some (dec2 s)\<rparr>"] sample_rsa_size(1)
    by (auto simp: sample_keyenv_def no_keys_def path_exists_def key_list_def)
qed

theorem keys_tried_in_turn_witness:
  "\<exists>st' qs. handle_tokens (with_keys (sample_keyenv (\<lambda>_. True)) two_keys sample_env) True
      (replicate 3 (signed_packet\<lparr>pmsg := (pmsg signed_packet)\<lparr>arg0 := ADB_AUTH_TOKEN\<rparr>\<rparr>)) 7 device_sample = Inr st' \<and>
    sent st' = sent device_sample @ map (Pair 7) qs \<and>
    map said qs = [(ADB_AUTH_SIGNATURE, ''sig''), (ADB_AUTH_SIGNATURE, ''sig''), (ADB_AUTH_RSAPUBLICKEY, ''KEY user'' @ [CHR 0x00])]"
proof -
  let ?p = "signed_packet\<lparr>pmsg := (pmsg signed_packet)\<lparr>arg0 := ADB_AUTH_TOKEN\<rparr>\<rparr>" and ?e = "sample_keyenv (\<lambda>_. True)"
  have r: "ring (klinks two_keys) key_list [10, 11]"
    using cl.ins_all_ring [OF ring_list_init, of key_list "[10, 11]"] by (simp add: two_keys_def key_list_def)
  have "path_exists (user_dir ?e) two_keys" by (simp add: path_exists_def two_keys_def)
  from userkey_eq [OF sample_home this, of MAX_PAYLOAD]
  have u: "adb_auth_get_userkey ?e MAX_PAYLOAD two_keys = Inr (''KEY user'' @ [CHR 0x00], two_keys)" by (simp add: two_keys_def MAX_PAYLOAD_def)
  have sg: "RSA_sign ?e k tok = Some ''sig''" for k tok by (simp add: sample_keyenv_def)
  have x: "trans device_sample 7 = Some sample_transport" "t_key sample_transport = NULL"
    by (simp_all add: device_sample_def sockst.defs lsnst.defs adbst.defs sample_transport_def)
  show ?thesis
    using keys_tried_in_turn [OF r _ _ _ u _ x(1) x(2), where ps = "replicate 3 ?p" and ok = True and env = sample_env]
    by (simp add: sg two_keys_def MAX_PAYLOAD_def numeral_3_eq_3)
qed

text \<open>
  A public key that could not be written is never written. When at the first start the file of the private key can be created and that of the public key
  cannot, there is no key in this run; in every later run the private key is used, but there is no public key to send, even when its file could now be written.
\<close>

theorem public_key_never_written:
  assumes "length (user_home env) \<le> 200" and "path_exists (user_dir env) st \<or> mkdir_ok env (user_dir env)" and "\<not> path_exists (user_file env) st"
    and "writable env (user_file env)" and "\<not> writable env (user_file env @ ''.pub'')" and "hfiles st (user_file env @ ''.pub'') = None"
    and "kgetenv env ''ADB_VENDOR_KEYS'' = None"
    and "pem_write env (new_rsa env) = Some pem" and "pem_read env pem = Some (new_rsa env)" and "RSA_size (kbn env) (new_rsa env) = RSANUMBYTES"
    and "kmalloc env (kcount st) \<notin> {NULL, key_list}" and "env' = env\<lparr>writable := (\<lambda>_. True)\<rparr>"
  shows "\<exists>st1 st2. adb_auth_init_host env st = Inr st1 \<and> ring (klinks st1) key_list [] \<and> adb_auth_init_host env' st1 = Inr st2 \<and>
    adb_auth_nextkey NULL st2 = Some (kmalloc env (kcount st)) \<and> adb_auth_get_userkey env' len st2 = Inr ([], st2)"
proof -
  let ?f = "user_file env" and ?a = "kmalloc env (kcount st)" and ?st = "st\<lparr>klinks := list_init key_list (klinks st)\<rparr>"
  have e: "path_exists p ?st = path_exists p st" for p by (simp add: path_exists_def)
  have env': "user_home env' = user_home env" "user_dir env' = user_dir env" "user_file env' = ?f" by (simp_all add: assms(12) user_home_def user_dir_def user_file_def split: option.split)
  let ?st1 = "(with_dir env ?st)\<lparr>hfiles := (hfiles st)(?f \<mapsto> pem)\<rparr>"
  have "generate_key env ?f (with_dir env ?st) = Inr (False, ?st1)" using generate_key_eq [OF assms(1,10,4,8), of "with_dir env ?st"] assms(5) by auto
  then have "get_user_key env ?st = Inr (False, ?st1)" using get_user_key_eq [OF assms(1), of ?st] assms(2,3) e by simp
  then have init1: "adb_auth_init_host env st = Inr ?st1" by (simp add: adb_auth_init_host_def)
  let ?st1' = "?st1\<lparr>klinks := list_init key_list (klinks ?st1)\<rparr>"
  have ex: "path_exists (user_dir env') ?st1'" "path_exists (user_file env') ?st1'" by (auto simp: path_exists_def with_dir_def env' user_file_def)
  let ?st2 = "?st1'\<lparr>kcount := kcount st + 1, kheap := (kheap st)(?a \<mapsto> new_rsa env), klinks := list_add_tail key_list ?a (klinks ?st1')\<rparr>"
  have "read_key env' ?f ?st1' = (True, ?st2)" using read_key_eq [of ?st1' ?f pem env' "new_rsa env"] assms(9,12) by simp
  moreover have "with_dir env' ?st1' = ?st1'" using ex(1) by (simp add: with_dir_def)
  ultimately have "get_user_key env' ?st1' = Inr (True, ?st2)"
    using get_user_key_eq [of env' ?st1'] assms(1) ex env' by simp
  then have init2: "adb_auth_init_host env' ?st1 = Inr ?st2" using assms(7,12) by (simp add: adb_auth_init_host_def get_vendor_keys_def)
  have "ring (klinks ?st2) key_list [?a]" using ring_add_tail [OF ring_list_init, of ?a key_list] assms(11) by simp
  then have nk: "adb_auth_nextkey NULL ?st2 = Some ?a" using nextkey_order [of ?st2 "[?a]" 0] assms(11) by simp
  have "path_exists (user_dir env') ?st2" using ex(1) by (simp add: path_exists_def)
  then have "adb_auth_get_userkey env' len ?st2 = Inr ([], ?st2)" using userkey_eq [of env' ?st2 len] assms(1,6) env' by simp
  moreover have "ring (klinks ?st1) key_list []" by (simp add: ring_list_init)
  ultimately show ?thesis using init1 init2 nk by blast
qed

theorem public_key_never_written_witness:
  "\<exists>st1 st2. adb_auth_init_host (sample_keyenv (\<lambda>p. p = user_file (sample_keyenv (\<lambda>_. True)))) no_keys = Inr st1 \<and>
    adb_auth_init_host (sample_keyenv (\<lambda>_. True)) st1 = Inr st2 \<and> adb_auth_nextkey NULL st2 = Some 10 \<and>
    adb_auth_get_userkey (sample_keyenv (\<lambda>_. True)) MAX_PAYLOAD st2 = Inr ([], st2)"
proof -
  let ?w = "\<lambda>p. p = user_file (sample_keyenv (\<lambda>_. True))"
  have f: "user_file (sample_keyenv ?w) = user_file (sample_keyenv (\<lambda>_. True))" by (simp add: user_file_def user_dir_def user_home_def sample_keyenv_def)
  have w: "writable (sample_keyenv w) = w" "sample_keyenv w\<lparr>writable := \<lambda>_. True\<rparr> = sample_keyenv (\<lambda>_. True)" for w by (simp_all add: sample_keyenv_def)
  show ?thesis
    using public_key_never_written [OF sample_home, of ?w no_keys "''pem''" "sample_keyenv (\<lambda>_. True)" MAX_PAYLOAD] sample_rsa_size(1)
    by (auto simp: f w) (auto simp: sample_keyenv_def no_keys_def path_exists_def key_list_def)
qed

end
