(* ===== verification/Usb_Windows.thy ===== *)
theory Usb_Windows
  imports Host_Keys Host_Services
begin

text \<open>
  USB on Windows: the vendors of \<open>usb_vendors.cpp\<close>, \<open>is_adb_interface\<close> of \<open>transport_usb.cpp\<close>, and \<open>usb_windows.cpp\<close>, which finds the devices, keeps the list of
  the open ones, and reads and writes them.

  The library \<open>AdbWinApi\<close> is a parameter: what opening an interface or a pipe returns, the names, descriptors and serial numbers (\<open>usbenv\<close>), and the result of each
  transfer. A field of a structure from \<open>malloc\<close> that nothing was written to is \<open>Junk\<close>; using it is an access that C leaves undefined.
\<close>

section \<open>Vendors\<close>

definition ANDROID_ADB_INI :: string where "ANDROID_ADB_INI = ''adb_usb.ini''"
definition VENDOR_COUNT_MAX :: nat where "VENDOR_COUNT_MAX = 128"
definition ADB_CLASS :: int where "ADB_CLASS = 0xff"
definition ADB_SUBCLASS :: int where "ADB_SUBCLASS = 0x42"
definition ADB_PROTOCOL :: int where "ADB_PROTOCOL = 1"

definition builtInVendorIds :: "int list" where
  "builtInVendorIds =
     [0x0502, 0x1f3a, 0x1b8e, 0x16d5, 0x0e79, 0x0b05, 0x1d91, 0x04b7, 0x1219, 0x413c, 0x03fc, 0x297f, 0x2207, 0x0489, 0x04c5, 0x0f1c, 0x091e,
      0x0414, 0x1e85, 0x18d1, 0x201e, 0x19a5, 0x109b, 0x03f0, 0x0bb4, 0x12d1, 0x2314, 0x8087, 0x067e, 0x2420, 0x2237, 0x24e3, 0x2116, 0x0482,
      0x1949, 0x17ef, 0x2006, 0x1004, 0x25e3, 0x22b8, 0x0db0, 0x0e8d, 0x0409, 0x2080, 0x0955, 0x22d9, 0x2257, 0x2836, 0x10a9, 0x1d4d, 0x0471,
      0x04da, 0x1662, 0x29e4, 0x1d45, 0x05c6, 0x0408, 0x2207, 0x04e8, 0x04dd, 0x1f53, 0x054c, 0x0fce, 0x1bbb, 0x1d09, 0x2340, 0x0451, 0x0930,
      0xe040, 0x0531, 0x2717, 0x2916, 0x1ebf, 0x19d2]"

text \<open>\<open>fgets\<close> with an array of \<open>n\<close> bytes: at most \<open>n - 1\<close> characters, up to the end of the line.\<close>

definition line_end :: "nat \<Rightarrow> string \<Rightarrow> nat" where
  "line_end n s = max 1 (min (n - 1) (Suc (length (takeWhile (\<lambda>c. c \<noteq> CHR 0x0A) s))))"

function fgets_lines :: "nat \<Rightarrow> string \<Rightarrow> string list" where
  "fgets_lines n s = (if s = [] then [] else take (line_end n s) s # fgets_lines n (drop (line_end n s) s))"
  by pat_completeness auto

termination fgets_lines
  by (relation "measure (\<lambda>(n, s). length s)") (auto simp: line_end_def)

declare fgets_lines.simps [simp del]

text \<open>The value \<open>strtol (s, NULL, 0)\<close> would have without a bound; outside the range of \<open>long\<close>, \<open>errno\<close> is \<open>ERANGE\<close>.\<close>

definition strtol_raw :: "string \<Rightarrow> int" where
  "strtol_raw s =
     (case split_sign (dropWhile is_space s) of (neg, s) \<Rightarrow>
        let v = (if skip_0x s \<noteq> s then File_Sync.digits_value 16 (skip_0x s)
                 else File_Sync.digits_value (if take 1 s = ''0'' then 8 else 10) s)
        in if neg then - int v else int v)"

text \<open>The loop over the lines. \<open>errno\<close> is not reset: \<open>bad\<close> says whether it was \<open>EINVAL\<close> or \<open>ERANGE\<close> before.\<close>

fun vendor_lines :: "bool \<Rightarrow> string list \<Rightarrow> int list \<Rightarrow> int list outcome" where
  "vendor_lines bad [] ids = Inr ids"
| "vendor_lines bad (l # ls) ids =
     (if take 1 l = ''#'' then vendor_lines bad ls ids
      else
        let value = strtol0 l in
        if bad \<or> strtol_raw l \<noteq> value \<or> value > 2 ^ 31 - 1 \<or> value < 0 then Inl (Fatal ''Invalid content in adb_usb.ini'')
        else if length ids \<ge> VENDOR_COUNT_MAX then Inl (Bad_access ''vendorIds'')
        else if length (ids @ [value]) = VENDOR_COUNT_MAX then Inr (ids @ [value])
        else vendor_lines bad ls (ids @ [value]))"

definition build_path :: "nat \<Rightarrow> string \<Rightarrow> bool \<times> string outcome" where
  "build_path len home =
     (case snprintf_win len (home @ SEP @ ANDROID_PATH @ SEP @ ANDROID_ADB_INI) of (r, text) \<Rightarrow> (\<not> r \<ge> int len, text))"

definition get_adb_usb_ini :: "string option \<Rightarrow> string \<Rightarrow> nat \<Rightarrow> bool \<times> string outcome" where
  "get_adb_usb_ini sdk_home profile len = build_path len (case sdk_home of Some h \<Rightarrow> h | None \<Rightarrow> profile)"

text \<open>\<open>vendorIds\<close> up to \<open>vendorIdCount\<close>. \<open>file\<close> is what \<open>fopen\<close> and reading give for a path.\<close>

definition usb_vendors_init :: "string option \<Rightarrow> string \<Rightarrow> (string \<Rightarrow> string option) \<Rightarrow> bool \<Rightarrow> int list outcome" where
  "usb_vendors_init sdk_home profile file bad =
     (if VENDOR_COUNT_MAX < length builtInVendorIds then Inl (Fatal ''VENDOR_COUNT_MAX'')
      else if VENDOR_COUNT_MAX = length builtInVendorIds then Inr builtInVendorIds
      else case get_adb_usb_ini sdk_home profile PATH_MAX of (ok, path) \<Rightarrow>
        if \<not> ok then Inr builtInVendorIds
        else
          bindE path (\<lambda>path.
            case file path of
              None \<Rightarrow> Inr builtInVendorIds
            | Some text \<Rightarrow> vendor_lines bad (fgets_lines PATH_MAX text) builtInVendorIds))"

fun is_adb_interface :: "int list \<Rightarrow> int \<Rightarrow> int \<Rightarrow> int \<Rightarrow> int \<Rightarrow> bool" where
  "is_adb_interface [] vid usb_class usb_subclass usb_protocol = False"
| "is_adb_interface (v # vs) vid usb_class usb_subclass usb_protocol =
     (if vid = v then usb_class = ADB_CLASS \<and> usb_subclass = ADB_SUBCLASS \<and> usb_protocol = ADB_PROTOCOL
      else is_adb_interface vs vid usb_class usb_subclass usb_protocol)"

section \<open>Handles\<close>

datatype 'a cell = Junk | Null | Has 'a

record usb_handle =
  u_interface :: "nat cell"
  u_read :: "nat cell"
  u_write :: "nat cell"
  u_name :: "string cell"
  u_mask :: "u32 cell"

record usbst = tregst +
  ulinks :: links
  uheap :: "addr \<Rightarrow> usb_handle option"
  api_closed :: "nat list"

record usbenv =
  open_if :: "u16 list \<Rightarrow> nat option"
  open_read :: "nat \<Rightarrow> nat option"
  open_write :: "nat \<Rightarrow> nat option"
  name_len :: "nat \<Rightarrow> nat"
  if_name :: "nat \<Rightarrow> string option"
  device_desc :: "nat \<Rightarrow> int option"
  interf_desc :: "nat \<Rightarrow> (nat \<times> int \<times> int \<times> int) option"
  ep_size :: "nat \<Rightarrow> u32 option"
  serial_no :: "nat \<Rightarrow> string option"
  vendorIds :: "int list"

definition handle_list :: addr where "handle_list = 1"

definition cell :: "'a cell \<Rightarrow> 'a option outcome" where
  "cell c = (case c of Junk \<Rightarrow> Inl (Bad_access ''usb_handle'') | Null \<Rightarrow> Inr None | Has x \<Rightarrow> Inr (Some x))"

abbreviation handle_at :: "usbst \<Rightarrow> addr \<Rightarrow> usb_handle outcome" where
  "handle_at st a \<equiv> deref ''usb_handle'' (uheap st) a"

definition link_handle :: "addr \<Rightarrow> links \<Rightarrow> links" where
  "link_handle a h =
     (let h = set_nxt a handle_list h;
          h = set_prv a (prv h handle_list) h;
          h = set_nxt (prv h a) a h
      in set_prv (nxt h a) a h)"

definition unlink_handle :: "addr \<Rightarrow> links \<Rightarrow> links" where
  "unlink_handle a h =
     (let h = set_prv (nxt h a) (prv h a) h;
          h = set_nxt (prv h a) (nxt h a) h;
          h = set_prv a a h
      in set_nxt a a h)"

text \<open>\<open>stricmp\<close>: equal up to case.\<close>

definition lower :: "string \<Rightarrow> string" where
  "lower s = map (\<lambda>c. if between CHR ''A'' CHR ''Z'' c then char_of (of_char c + 32 :: nat) else c) s"

fun known_in :: "(addr \<Rightarrow> usb_handle option) \<Rightarrow> string \<Rightarrow> addr list \<Rightarrow> bool outcome" where
  "known_in h dev_name [] = Inr False"
| "known_in h dev_name (a # as) =
     bindE (deref ''usb_handle'' h a) (\<lambda>u. bindE (cell (u_name u)) (\<lambda>n.
       case n of
         Some n \<Rightarrow> if lower n = lower dev_name then Inr True else known_in h dev_name as
       | None \<Rightarrow> known_in h dev_name as))"

text \<open>\<open>None\<close>: the list does not come back to its head. No name is \<open>NULL\<close> and never known.\<close>

definition known_device_locked :: "string option \<Rightarrow> usbst \<Rightarrow> bool outcome option" where
  "known_device_locked dev_name st =
     (case dev_name of
        None \<Rightarrow> Some (Inr False)
      | Some n \<Rightarrow> map_option (known_in (uheap st) n) (ring_nodes (ulinks st) handle_list))"

definition register_new_device :: "addr \<Rightarrow> usbst \<Rightarrow> (bool \<times> usbst) outcome option" where
  "register_new_device a st =
     (if a = NULL then Some (Inr (False, st))
      else
        bindO (Some (bindE (handle_at st a) (\<lambda>u. cell (u_name u)))) (\<lambda>n.
        bindO (known_device_locked n st) (\<lambda>known.
          Some (Inr (if known then (False, st) else (True, st\<lparr>ulinks := link_handle a (ulinks st)\<rparr>))))))"

definition opt_list :: "'a option \<Rightarrow> 'a list" where
  "opt_list x = (case x of None \<Rightarrow> [] | Some x \<Rightarrow> [x])"

definition usb_cleanup_handle :: "addr \<Rightarrow> usbst \<Rightarrow> usbst outcome" where
  "usb_cleanup_handle a st =
     (if a = NULL then Inr st
      else
        bindE (handle_at st a) (\<lambda>u.
        bindE (cell (u_name u)) (\<lambda>_.
        bindE (cell (u_write u)) (\<lambda>w.
        bindE (cell (u_read u)) (\<lambda>r.
        bindE (cell (u_interface u)) (\<lambda>i.
          Inr (st\<lparr>api_closed := api_closed st @ opt_list w @ opt_list r @ opt_list i,
                  uheap := (uheap st)(a \<mapsto> u\<lparr>u_name := Null, u_write := Null, u_read := Null, u_interface := Null\<rparr>)\<rparr>)))))))"

definition free_handle :: "addr \<Rightarrow> usbst \<Rightarrow> usbst" where
  "free_handle a st = st\<lparr>uheap := (uheap st)(a := None)\<rparr>"

text \<open>Cleaning up and freeing a handle that is in no list.\<close>

definition drop_handle :: "addr \<Rightarrow> usbst \<Rightarrow> usbst outcome" where
  "drop_handle a st = bindE (usb_cleanup_handle a st) (\<lambda>st. Inr (free_handle a st))"

definition opt_cell :: "'a option \<Rightarrow> 'a cell" where
  "opt_cell x = (case x of None \<Rightarrow> Null | Some x \<Rightarrow> Has x)"

text \<open>The fields that opening an interface sets, step by step, and whether all went well.\<close>

definition open_fields :: "usbenv \<Rightarrow> nat \<Rightarrow> bool \<times> usb_handle" where
  "open_fields env i =
     (let u = \<lparr>u_interface = Has i, u_read = opt_cell (open_read env i), u_write = Junk, u_name = Junk, u_mask = Junk\<rparr> in
      if open_read env i = None then (False, u)
      else
        let u = u\<lparr>u_write := opt_cell (open_write env i)\<rparr> in
        if open_write env i = None then (False, u)
        else if name_len env i = 0 then (False, u)
        else case if_name env i of
          Some n \<Rightarrow> (True, u\<lparr>u_name := Has n\<rparr>)
        | None \<Rightarrow> (False, u\<lparr>u_name := Has []\<rparr>))"

definition do_usb_open :: "usbenv \<Rightarrow> addr \<Rightarrow> u16 list \<Rightarrow> usbst \<Rightarrow> (addr \<times> usbst) outcome" where
  "do_usb_open env a interface_name st =
     (case open_if env interface_name of
        None \<Rightarrow> Inr (NULL, st\<lparr>ulinks := set_prv a a (set_nxt a a (ulinks st))\<rparr>)
      | Some i \<Rightarrow>
          (case open_fields env i of (ok, u) \<Rightarrow>
             let st = st\<lparr>ulinks := set_prv a a (set_nxt a a (ulinks st)), uheap := (uheap st)(a \<mapsto> u)\<rparr> in
             if ok then Inr (a, st) else bindE (drop_handle a st) (\<lambda>st. Inr (NULL, st))))"

section \<open>Transfers\<close>

definition usb_kick :: "addr \<Rightarrow> usbst \<Rightarrow> usbst outcome" where
  "usb_kick a st = (if a = NULL then Inr st else usb_cleanup_handle a st)"

text \<open>
  \<open>res\<close> is the result of the transfer: how many bytes were written, or whether the error was \<open>ERROR_INVALID_HANDLE\<close>, which it is for a pipe that is \<open>NULL\<close>. The
  transfers that were made are returned.
\<close>

definition usb_write :: "addr \<Rightarrow> byte list \<Rightarrow> nat + bool \<Rightarrow> usbst \<Rightarrow> (int \<times> byte list list \<times> usbst) outcome" where
  "usb_write a bs res st =
     (if a = NULL then Inr (- 1, [], st)
      else
        bindE (handle_at st a) (\<lambda>u. bindE (cell (u_write u)) (\<lambda>pipe.
          case (if pipe = None then Inr True else res) of
            Inl written \<Rightarrow>
              if written = length bs then
                bindE (cell (u_mask u)) (\<lambda>mask.
                  let m = (case mask of None \<Rightarrow> 0 | Some m \<Rightarrow> m) in
                  Inr (0, if m \<noteq> 0 \<and> of_nat (length bs) AND m = 0 then [bs, []] else [bs], st))
              else Inr (- 1, [take written bs], st)
          | Inr invalid \<Rightarrow> bindE (if invalid then usb_kick a st else Inr st) (\<lambda>st. Inr (- 1, [], st)))))"

text \<open>
  What the transfers deliver is a script, a transfer of more bytes than were asked for runs over the buffer. \<open>None\<close>: no transfer ends (there is no time-out).
\<close>

fun usb_read_loop :: "addr \<Rightarrow> nat \<Rightarrow> (byte list + bool) list \<Rightarrow> byte list \<Rightarrow> usbst \<Rightarrow> (int \<times> byte list \<times> (byte list + bool) list \<times> usbst) outcome option" where
  "usb_read_loop a len [] acc st = (if len = 0 then Some (Inr (- 1, acc, [], st)) else None)"
| "usb_read_loop a len (r # rs) acc st =
     (if len = 0 then Some (Inr (- 1, acc, r # rs, st))
      else
        case bindE (handle_at st a) (\<lambda>u. cell (u_read u)) of
          Inl e \<Rightarrow> Some (Inl e)
        | Inr pipe \<Rightarrow>
            (case (if pipe = None then Inr True else r) of
               Inl bs \<Rightarrow>
                 if length bs > min len 4096 then Some (Inl (Bad_access ''data''))
                 else if length bs = len then Some (Inr (0, acc @ bs, rs, st))
                 else usb_read_loop a (len - length bs) rs (acc @ bs) st
             | Inr invalid \<Rightarrow>
                 Some (bindE (if invalid then usb_kick a st else Inr st) (\<lambda>st. Inr (- 1, acc, if pipe = None then r # rs else rs, st)))))"

definition usb_read :: "addr \<Rightarrow> nat \<Rightarrow> (byte list + bool) list \<Rightarrow> usbst \<Rightarrow> (int \<times> byte list \<times> (byte list + bool) list \<times> usbst) outcome option" where
  "usb_read a len rs st = (if a = NULL then Some (Inr (- 1, [], rs, st)) else usb_read_loop a len rs [] st)"

definition usb_close :: "addr \<Rightarrow> usbst \<Rightarrow> usbst outcome" where
  "usb_close a st =
     (if a = NULL then Inr st
      else
        bindE (handle_at st a) (\<lambda>_.
          let h = ulinks st;
              st = (if nxt h a \<noteq> a \<and> prv h a \<noteq> a then st\<lparr>ulinks := unlink_handle a h\<rparr> else st)
          in drop_handle a st))"

section \<open>Finding devices\<close>

definition recognized_device :: "usbenv \<Rightarrow> addr \<Rightarrow> usbst \<Rightarrow> (bool \<times> usbst) outcome" where
  "recognized_device env a st =
     (if a = NULL then Inr (False, st)
      else
        bindE (handle_at st a) (\<lambda>u. bindE (cell (u_interface u)) (\<lambda>i.
          case i of
            None \<Rightarrow> Inr (False, st)
          | Some i \<Rightarrow>
              (case device_desc env i of
                 None \<Rightarrow> Inr (False, st)
               | Some vid \<Rightarrow>
                   (case interf_desc env i of
                      None \<Rightarrow> Inr (False, st)
                    | Some (eps, cls, sub, proto) \<Rightarrow>
                        if eps \<noteq> 2 then Inr (False, st)
                        else if is_adb_interface (vendorIds env) vid cls sub proto then
                          Inr (True,
                            if proto = 1 then
                              (case ep_size env i of
                                 None \<Rightarrow> st
                               | Some n \<Rightarrow> st\<lparr>uheap := (uheap st)(a \<mapsto> u\<lparr>u_mask := Has (n - 1)\<rparr>)\<rparr>)
                            else st)
                        else Inr (False, st))))))"

text \<open>The name of an interface, each character cut to eight bits.\<close>

definition narrow :: "u16 list \<Rightarrow> string" where
  "narrow ws = map (\<lambda>w. char_of (unat w)) (takeWhile (\<lambda>w. w \<noteq> 0) ws)"

text \<open>An interface that is present: its name and the addresses for a handle, a transport and its event.\<close>

type_synonym found = "u16 list \<times> addr \<times> addr \<times> addr"

text \<open>What is done with an open handle: it becomes a device of the list and a transport, or is closed.\<close>

definition offer_device :: "usbenv \<Rightarrow> addr \<Rightarrow> addr \<Rightarrow> addr \<Rightarrow> usbst \<Rightarrow> usbst outcome option" where
  "offer_device env h t fde st =
     bindO (Some (recognized_device env h st)) (\<lambda>(ok, st).
       if \<not> ok then Some (drop_handle h st)
       else
         bindO (Some (bindE (handle_at st h) (\<lambda>u. cell (u_interface u)))) (\<lambda>i.
           case Option.bind i (serial_no env) of
             None \<Rightarrow> Some (drop_handle h st)
           | Some sn \<Rightarrow>
               bindO (register_new_device h st) (\<lambda>(new, st).
                 Some (if new then register_usb_transport t fde h (Some sn) None True st else drop_handle h st))))"

definition find_device :: "usbenv \<Rightarrow> found \<Rightarrow> usbst \<Rightarrow> usbst outcome option" where
  "find_device env f st =
     (case f of (wname, a, t, fde) \<Rightarrow>
        bindO (known_device_locked (Some (narrow wname)) st) (\<lambda>known.
          if known then Some (Inr st)
          else
            bindO (Some (do_usb_open env a wname st)) (\<lambda>(h, st).
              if h = NULL then Some (Inr st) else offer_device env h t fde st)))"

fun find_devices :: "usbenv \<Rightarrow> found list \<Rightarrow> usbst \<Rightarrow> usbst outcome option" where
  "find_devices env [] st = Some (Inr st)"
| "find_devices env (f # fs) st = bindO (find_device env f st) (find_devices env fs)"

interpretation uh: ring_list handle_list link_handle unlink_handle
proof
  fix h xs x
  assume r: "ring h handle_list xs"
  show "ring (link_handle x h) handle_list (xs @ [x])" if "x \<notin> set (handle_list # xs)"
    using r that by (cases xs rule: rev_cases) (auto simp: ring_def link_handle_def Let_def)
  show "ring (unlink_handle x h) handle_list (remove1 x xs)" if "x \<in> set xs"
  proof -
    have n: "x \<noteq> handle_list" "x \<notin> set (remove1 x xs)" using r that by (auto simp: ring_def)
    have "ring (list_remove x h) handle_list (remove1 x xs)" by (rule ring_remove [OF r that])
    then have "ring (set_nxt x x (set_prv x x (list_remove x h))) handle_list (remove1 x xs)"
      using n by (intro ring_set_other) auto
    then show ?thesis by (simp add: unlink_handle_def list_remove_def Let_def)
  qed
qed

end
