(* ===== verification/Usb_Windows_Props.thy ===== *)
theory Usb_Windows_Props
  imports Usb_Windows Transports_Props
begin

text \<open>
  USB on Windows: the array of vendors is never left, a device is in the list once, whatever happens to it, and no handle is lost; reading delivers what was asked
  for; and what happens when a device can only be opened half-way.
\<close>

section \<open>Vendors\<close>

lemma vendor_lines_prefix:
  "length ids < VENDOR_COUNT_MAX \<Longrightarrow>
     (case vendor_lines bad ls ids of
        Inr vs \<Rightarrow> length vs \<le> VENDOR_COUNT_MAX \<and> (\<exists>ws. vs = ids @ ws \<and> (\<forall>v\<in>set ws. 0 \<le> v \<and> v < 2 ^ 31))
      | Inl e \<Rightarrow> \<exists>m. e = Fatal m)"
proof (induction ls arbitrary: ids)
  case (Cons l ls)
  show ?case
  proof (cases "take 1 l = ''#'' \<or> bad \<or> strtol_raw l \<noteq> strtol0 l \<or> strtol0 l > 2 ^ 31 - 1 \<or> strtol0 l < 0")
    case True
    then show ?thesis using Cons by (auto simp: Let_def split: sum.splits)
  next
    case False
    then have v: "0 \<le> strtol0 l" "strtol0 l < 2 ^ 31" by auto
    show ?thesis
    proof (cases "length (ids @ [strtol0 l]) = VENDOR_COUNT_MAX")
      case True
      then show ?thesis using False v Cons.prems by (simp add: Let_def)
    next
      case len: False
      then have "length (ids @ [strtol0 l]) < VENDOR_COUNT_MAX" using Cons.prems by simp
      from Cons.IH [OF this] show ?thesis using False len v Cons.prems by (auto simp: Let_def split: sum.splits)
    qed
  qed
qed simp

lemma length_builtIn: "length builtInVendorIds = 74"
  by (simp add: builtInVendorIds_def)

text \<open>
  The file of vendors, whatever is in it, never makes the program write behind the array: it is refused with a message, or the numbers that it adds follow the
  built-in ones, up to 128 in all.
\<close>

lemma vendors_bounded:
  assumes "length (case sdk_home of Some h \<Rightarrow> h | None \<Rightarrow> profile) \<le> 200"
  shows "case usb_vendors_init sdk_home profile file bad of
      Inr vs \<Rightarrow> length vs \<le> VENDOR_COUNT_MAX \<and> take 74 vs = builtInVendorIds \<and> (\<forall>v\<in>set (drop 74 vs). 0 \<le> v \<and> v < 2 ^ 31)
    | Inl e \<Rightarrow> \<exists>m. e = Fatal m"
proof -
  let ?home = "case sdk_home of Some h \<Rightarrow> h | None \<Rightarrow> profile"
  let ?path = "?home @ SEP @ ANDROID_PATH @ SEP @ ANDROID_ADB_INI"
  have "length ?path < PATH_MAX" using assms by (simp add: SEP_def ANDROID_PATH_def ANDROID_ADB_INI_def PATH_MAX_def)
  then have "get_adb_usb_ini sdk_home profile PATH_MAX = (True, Inr ?path)" by (simp add: get_adb_usb_ini_def build_path_def snprintf_win_def sntext_def)
  then have e: "usb_vendors_init sdk_home profile file bad =
      (case file ?path of None \<Rightarrow> Inr builtInVendorIds | Some cont \<Rightarrow> vendor_lines bad (fgets_lines PATH_MAX cont) builtInVendorIds)"
    by (simp add: usb_vendors_init_def length_builtIn VENDOR_COUNT_MAX_def)
  show ?thesis
  proof (cases "file ?path")
    case None
    then show ?thesis using e by (simp add: length_builtIn VENDOR_COUNT_MAX_def)
  next
    case (Some cont)
    with e vendor_lines_prefix [of builtInVendorIds bad "fgets_lines PATH_MAX cont"] show ?thesis
      by (auto simp: length_builtIn VENDOR_COUNT_MAX_def split: sum.splits)
  qed
qed

lemma is_adb_interface_iff:
  "is_adb_interface vs vid cls sub proto \<longleftrightarrow> vid \<in> set vs \<and> cls = ADB_CLASS \<and> sub = ADB_SUBCLASS \<and> proto = ADB_PROTOCOL"
  by (induction vs) auto

section \<open>The list of devices\<close>

text \<open>No field but the mask is left as it came from \<open>malloc\<close>.\<close>

definition whole :: "usb_handle \<Rightarrow> bool" where
  "whole u \<longleftrightarrow> u_name u \<noteq> Junk \<and> u_interface u \<noteq> Junk \<and> u_read u \<noteq> Junk \<and> u_write u \<noteq> Junk"

definition name_at :: "(addr \<Rightarrow> usb_handle option) \<Rightarrow> addr \<Rightarrow> string list" where
  "name_at h a = (case h a of None \<Rightarrow> [] | Some u \<Rightarrow> (case u_name u of Has n \<Rightarrow> [lower n] | _ \<Rightarrow> []))"

text \<open>The handles that exist are those in the list; names of devices are in it once, up to case.\<close>

definition usb_inv :: "usbst \<Rightarrow> addr list \<Rightarrow> bool" where
  "usb_inv st hs \<longleftrightarrow>
     ring (ulinks st) handle_list hs \<and> NULL \<notin> set hs \<and> dom (uheap st) = set hs \<and> (\<forall>a\<in>set hs. whole (the (uheap st a))) \<and>
     distinct (concat (map (name_at (uheap st)) hs))"

lemma usb_invD:
  assumes "usb_inv st hs" and "a \<in> set hs"
  shows "a \<noteq> NULL" "\<exists>u. uheap st a = Some u \<and> whole u"
proof -
  show "a \<noteq> NULL" using assms by (auto simp: usb_inv_def)
  have "a \<in> dom (uheap st)" using assms by (simp add: usb_inv_def)
  then show "\<exists>u. uheap st a = Some u \<and> whole u" using assms by (force simp: usb_inv_def)
qed

lemma cell_not_junk: "c \<noteq> Junk \<Longrightarrow> \<exists>x. cell c = Inr x"
  by (cases c) (auto simp: cell_def)

definition clean :: "usb_handle \<Rightarrow> usb_handle" where
  "clean u = u\<lparr>u_name := Null, u_write := Null, u_read := Null, u_interface := Null\<rparr>"

lemma cleanup_eq:
  assumes "a \<noteq> NULL" and "uheap st a = Some u" and "u_name u \<noteq> Junk" "u_interface u \<noteq> Junk" "u_read u \<noteq> Junk" "u_write u \<noteq> Junk"
  shows "\<exists>cs. usb_cleanup_handle a st = Inr (st\<lparr>api_closed := cs, uheap := (uheap st)(a \<mapsto> clean u)\<rparr>)"
  using assms cell_not_junk [OF assms(3)] cell_not_junk [OF assms(4)] cell_not_junk [OF assms(5)] cell_not_junk [OF assms(6)]
  by (fastforce simp: usb_cleanup_handle_def clean_def)

lemma distinct_concat_less:
  "distinct (concat (map f xs)) \<Longrightarrow> \<forall>x\<in>set xs. g x = f x \<or> g x = [] \<Longrightarrow> distinct (concat (map g xs)) \<and> set (concat (map g xs)) \<subseteq> set (concat (map f xs))"
  by (induction xs) fastforce+

lemma kick_inv:
  assumes "usb_inv st hs" and "a \<in> set hs"
  shows "\<exists>st'. usb_kick a st = Inr st' \<and> usb_inv st' hs"
proof -
  obtain u where u: "uheap st a = Some u" "whole u" using usb_invD [OF assms] by blast
  obtain cs where k: "usb_kick a st = Inr (st\<lparr>api_closed := cs, uheap := (uheap st)(a \<mapsto> clean u)\<rparr>)"
    using cleanup_eq [OF usb_invD(1) [OF assms] u(1)] u(2) usb_invD(1) [OF assms] by (auto simp: whole_def usb_kick_def)
  have "whole (clean u)" using u(2) by (simp add: whole_def clean_def)
  moreover have "distinct (concat (map (name_at ((uheap st)(a \<mapsto> clean u))) hs))"
    using distinct_concat_less [of "name_at (uheap st)" hs "name_at ((uheap st)(a \<mapsto> clean u))"] assms(1)
    by (auto simp: usb_inv_def name_at_def clean_def)
  ultimately show ?thesis using k assms by (auto simp: usb_inv_def)
qed

lemma close_inv:
  assumes "usb_inv st hs" and "a \<in> set hs"
  shows "\<exists>st'. usb_close a st = Inr st' \<and> usb_inv st' (remove1 a hs)"
proof -
  obtain u where u: "uheap st a = Some u" "whole u" using usb_invD [OF assms] by blast
  have n: "a \<noteq> NULL" by (rule usb_invD(1) [OF assms])
  have r: "ring (ulinks st) handle_list hs" using assms(1) by (simp add: usb_inv_def)
  let ?st = "st\<lparr>ulinks := unlink_handle a (ulinks st)\<rparr>"
  obtain cs where k: "usb_cleanup_handle a ?st = Inr (?st\<lparr>api_closed := cs, uheap := (uheap ?st)(a \<mapsto> clean u)\<rparr>)"
    using cleanup_eq [OF n, of ?st u] u by (auto simp: whole_def)
  have "usb_close a st = Inr (?st\<lparr>api_closed := cs, uheap := (uheap st)(a := None)\<rparr>)"
    using ring_nxt_neq [OF r assms(2)] n u(1) k by (simp add: usb_close_def Let_def drop_handle_def free_handle_def)
  moreover have "usb_inv (?st\<lparr>api_closed := cs, uheap := (uheap st)(a := None)\<rparr>) (remove1 a hs)"
  proof -
    have d: "distinct hs" using r by (simp add: ring_def)
    obtain as bs where hs: "hs = as @ a # bs" "a \<notin> set as" using assms(2) by (metis split_list_first)
    have eq: "name_at ((uheap st)(a := None)) b = name_at (uheap st) b" if "b \<noteq> a" for b using that by (simp add: name_at_def)
    have m: "map (name_at ((uheap st)(a := None))) xs = map (name_at (uheap st)) xs" if "a \<notin> set xs" for xs
      using that eq by (intro map_cong refl) metis
    have nb: "a \<notin> set bs" using d hs(1) by simp
    have "remove1 a hs = as @ bs" using hs by (simp add: remove1_append)
    then have "concat (map (name_at ((uheap st)(a := None))) (remove1 a hs)) = concat (map (name_at (uheap st)) as) @ concat (map (name_at (uheap st)) bs)"
      by (simp only: map_append concat_append m [OF hs(2)] m [OF nb])
    then show ?thesis using assms uh.del_ring [OF r assms(2)] d unfolding usb_inv_def hs(1) by auto
  qed
  ultimately show ?thesis by blast
qed

text \<open>The mask is set only when \<open>AdbGetEndpointInformation\<close> answers; writing a whole buffer tests it.\<close>

definition mask_unset :: "addr \<Rightarrow> usbst \<Rightarrow> bool" where
  "mask_unset a st \<longleftrightarrow> (\<exists>u. uheap st a = Some u \<and> u_mask u = Junk)"

lemma write_inv:
  assumes "usb_inv st hs" and "a \<in> set hs"
  shows "(\<exists>x ts st'. usb_write a bs res st = Inr (x, ts, st') \<and> usb_inv st' hs) \<or>
    mask_unset a st \<and> usb_write a bs res st = Inl (Bad_access ''usb_handle'')"
proof -
  obtain u where u: "uheap st a = Some u" "whole u" using usb_invD [OF assms] by blast
  obtain p where p: "cell (u_write u) = Inr p" using u(2) cell_not_junk by (metis whole_def)
  show ?thesis
  proof (cases "u_mask u = Junk")
    case True
    then show ?thesis using kick_inv [OF assms] usb_invD(1) [OF assms] u(1) assms(1) p
      by (cases "if p = None then Inr True else res") (auto simp: usb_write_def mask_unset_def cell_def)
  next
    case False
    then obtain m where "cell (u_mask u) = Inr m" using cell_not_junk by blast
    then show ?thesis using kick_inv [OF assms] usb_invD(1) [OF assms] u(1) assms(1) p
      by (cases "if p = None then Inr True else res") (auto simp: usb_write_def Let_def)
  qed
qed

text \<open>What is documented of \<open>AdbReadEndpointSync\<close>: a transfer delivers at most as many bytes as were asked for.\<close>

fun as_asked :: "nat \<Rightarrow> (byte list + bool) list \<Rightarrow> bool" where
  "as_asked len (Inl bs # rs) \<longleftrightarrow> length bs \<le> min len 4096 \<and> as_asked (len - length bs) rs"
| "as_asked len _ \<longleftrightarrow> True"

lemma read_loop_inv:
  assumes "usb_inv st hs" and "a \<in> set hs"
  shows "as_asked len rs \<Longrightarrow> usb_read_loop a len rs acc st = Some r \<Longrightarrow> \<exists>x bs rs' st'. r = Inr (x, bs, rs', st') \<and> usb_inv st' hs"
proof (induction rs arbitrary: len acc)
  case Nil
  then show ?case using assms(1) by (auto split: if_splits)
next
  case (Cons c rs)
  obtain u where u: "uheap st a = Some u" "whole u" using usb_invD [OF assms] by blast
  obtain p where p: "cell (u_read u) = Inr p" using u(2) cell_not_junk by (metis whole_def)
  obtain st1 where k: "usb_kick a st = Inr st1" "usb_inv st1 hs" using kick_inv [OF assms] by blast
  show ?case
  proof (cases "if p = None then Inr True else c")
    case (Inl bs)
    then have "c = Inl bs" by (simp split: if_splits)
    then show ?thesis using Cons Inl u(1) p assms(1) by (auto split: if_splits)
  next
    case (Inr b)
    then show ?thesis using Cons.prems(2) u(1) p k assms(1) by (cases b) (auto split: if_splits)
  qed
qed

lemma known_in_eq:
  "\<forall>a\<in>set as. \<exists>u. h a = Some u \<and> u_name u \<noteq> Junk \<Longrightarrow> known_in h n as = Inr (lower n \<in> set (concat (map (name_at h) as)))"
proof (induction as)
  case (Cons a as)
  then obtain u where u: "h a = Some u" "u_name u \<noteq> Junk" by auto
  then show ?case using Cons by (cases "u_name u") (auto simp: cell_def name_at_def)
qed simp

lemma known_eq:
  assumes "usb_inv st hs"
  shows "known_device_locked (Some n) st = Some (Inr (lower n \<in> set (concat (map (name_at (uheap st)) hs))))"
proof -
  have "\<forall>a\<in>set hs. \<exists>u. uheap st a = Some u \<and> u_name u \<noteq> Junk" using usb_invD(2) [OF assms] by (metis whole_def)
  then show ?thesis using assms ring_nodes [of "ulinks st" handle_list hs] known_in_eq [of hs "uheap st" n]
    by (simp add: known_device_locked_def usb_inv_def)
qed

text \<open>An interface of which a pipe or the length of the name cannot be had.\<close>

definition half_open :: "usbenv \<Rightarrow> nat \<Rightarrow> bool" where
  "half_open env i \<longleftrightarrow> open_read env i = None \<or> open_write env i = None \<or> name_len env i = 0"

lemma open_fields_whole:
  assumes "\<not> half_open env i"
  shows "\<exists>r w. open_fields env i = (if_name env i \<noteq> None,
    \<lparr>u_interface = Has i, u_read = Has r, u_write = Has w, u_name = Has (case if_name env i of Some n \<Rightarrow> n | None \<Rightarrow> []), u_mask = Junk\<rparr>)"
proof -
  obtain r w where "open_read env i = Some r" "open_write env i = Some w" "name_len env i \<noteq> 0"
    using assms unfolding half_open_def by (metis option.exhaust)
  then show ?thesis by (simp add: open_fields_def opt_cell_def Let_def split: option.split)
qed

lemma register_usb_more:
  "\<exists>st'. register_usb_transport t fde h sn d w st = Inr st' \<and> tregst.more st' = tregst.more st"
  by (simp add: register_usb_transport_def init_usb_transport_def new_transport_def upd_trans_def upd_reg_def pend_transport_def register_transport_def)

lemma usb_inv_frame: "tregst.more st' = tregst.more st \<Longrightarrow> usb_inv st' hs = usb_inv st hs"
  by (cases st; cases st') (simp add: usb_inv_def)

text \<open>A new handle that is in no list yet: the rest of the state is as it was, but for the links of the handle itself.\<close>

definition opened_at :: "usbst \<Rightarrow> addr \<Rightarrow> usb_handle \<Rightarrow> usbst \<Rightarrow> bool" where
  "opened_at st a u st' \<longleftrightarrow> (\<exists>cs. st' = st\<lparr>ulinks := set_prv a a (set_nxt a a (ulinks st)), uheap := (uheap st)(a \<mapsto> u), api_closed := cs\<rparr>)"

lemma name_at_other: "a \<notin> set hs \<Longrightarrow> map (name_at (h(a := v))) hs = map (name_at h) hs"
  by (simp add: name_at_def)

lemma drop_inv:
  assumes "usb_inv st hs" and "a \<notin> set hs" and "a \<notin> {NULL, handle_list}" and "opened_at st a u st1"
    and "u_name u \<noteq> Junk" "u_interface u \<noteq> Junk" "u_read u \<noteq> Junk" "u_write u \<noteq> Junk"
  shows "\<exists>st'. drop_handle a st1 = Inr st' \<and> usb_inv st' hs"
proof -
  have "uheap st a = None" using assms(1,2) by (auto simp: usb_inv_def)
  then have e: "(uheap st)(a := None) = uheap st" by auto
  obtain cs where st1: "st1 = st\<lparr>ulinks := set_prv a a (set_nxt a a (ulinks st)), uheap := (uheap st)(a \<mapsto> u), api_closed := cs\<rparr>"
    using assms(4) by (auto simp: opened_at_def)
  obtain cs' where "drop_handle a st1 = Inr (st1\<lparr>api_closed := cs', uheap := uheap st\<rparr>)"
    using cleanup_eq [of a st1 u] assms(3,5-8) e by (auto simp: drop_handle_def free_handle_def st1)
  moreover have "ring (set_prv a a (set_nxt a a (ulinks st))) handle_list hs" using assms(1-3) by (intro ring_set_other) (auto simp: usb_inv_def)
  ultimately show ?thesis using assms(1) by (auto simp: usb_inv_def st1)
qed

lemma recognized_eq:
  assumes "a \<noteq> NULL" and "uheap st a = Some u" and "u_interface u = Has i"
  shows "\<exists>ok u'. recognized_device env a st = Inr (ok, st\<lparr>uheap := (uheap st)(a \<mapsto> u')\<rparr>) \<and> (u' = u \<or> (\<exists>m. u' = u\<lparr>u_mask := Has m\<rparr>))"
proof -
  let ?u = "case ep_size env i of None \<Rightarrow> u | Some m \<Rightarrow> u\<lparr>u_mask := Has (m - 1)\<rparr>"
  have "(uheap st)(a \<mapsto> u) = uheap st" using assms(2) by auto
  then have self: "st\<lparr>uheap := (uheap st)(a \<mapsto> u)\<rparr> = st" by simp
  have r: "recognized_device env a st =
      (if \<exists>vid cls sub proto. device_desc env i = Some vid \<and> interf_desc env i = Some (2, cls, sub, proto) \<and> is_adb_interface (vendorIds env) vid cls sub proto
       then Inr (True, st\<lparr>uheap := (uheap st)(a \<mapsto> ?u)\<rparr>) else Inr (False, st))"
    using assms self by (auto simp: recognized_device_def cell_def is_adb_interface_iff ADB_PROTOCOL_def split: option.splits)
  show ?thesis
  proof (cases "\<exists>vid cls sub proto. device_desc env i = Some vid \<and> interf_desc env i = Some (2, cls, sub, proto) \<and> is_adb_interface (vendorIds env) vid cls sub proto")
    case True
    then show ?thesis unfolding r by (intro exI [of _ True] exI [of _ ?u]) (auto split: option.split)
  next
    case False
    then show ?thesis unfolding r by (intro exI [of _ False] exI [of _ u]) (simp add: self)
  qed
qed

lemma add_inv:
  assumes "usb_inv st hs" and "a \<notin> set hs" and "a \<notin> {NULL, handle_list}" and "opened_at st a u st1" and "whole u" and "u_name u = Has n"
    and "lower n \<notin> set (concat (map (name_at (uheap st)) hs))"
  shows "usb_inv (st1\<lparr>ulinks := link_handle a (ulinks st1)\<rparr>) (hs @ [a])"
proof -
  have "ring (set_prv a a (set_nxt a a (ulinks st))) handle_list hs" using assms(1-3) by (intro ring_set_other) (auto simp: usb_inv_def)
  then have "ring (link_handle a (set_prv a a (set_nxt a a (ulinks st)))) handle_list (hs @ [a])" using assms(2,3) by (intro uh.ins_ring) auto
  moreover have "dom ((uheap st)(a \<mapsto> u)) = set (hs @ [a])" using assms(1) by (simp add: usb_inv_def)
  moreover have "\<forall>b\<in>set (hs @ [a]). whole (the (((uheap st)(a \<mapsto> u)) b))" using assms(1,5) by (simp add: usb_inv_def)
  moreover have "name_at ((uheap st)(a \<mapsto> u)) a = [lower n]" using assms(6) by (simp add: name_at_def)
  then have "concat (map (name_at ((uheap st)(a \<mapsto> u))) (hs @ [a])) = concat (map (name_at (uheap st)) hs) @ [lower n]"
    by (simp only: map_append concat_append name_at_other [OF assms(2)]) simp
  then have "distinct (concat (map (name_at ((uheap st)(a \<mapsto> u))) (hs @ [a])))" using assms(1,7) by (simp only: usb_inv_def distinct_append) simp
  moreover have "NULL \<notin> set (hs @ [a])" using assms(1,3) by (auto simp: usb_inv_def)
  moreover obtain cs where "st1 = st\<lparr>ulinks := set_prv a a (set_nxt a a (ulinks st)), uheap := (uheap st)(a \<mapsto> u), api_closed := cs\<rparr>"
    using assms(4) by (auto simp: opened_at_def)
  ultimately show ?thesis by (simp add: usb_inv_def)
qed

lemma register_new_eq:
  assumes i: "usb_inv st hs" and a: "a \<notin> set hs" "a \<notin> {NULL, handle_list}" and o: "opened_at st a u st1" "u_name u = Has n"
  shows "register_new_device a st1 = Some (Inr (if lower n \<in> set (concat (map (name_at (uheap st)) hs)) then (False, st1)
    else (True, st1\<lparr>ulinks := link_handle a (ulinks st1)\<rparr>)))"
proof -
  obtain cs where st1: "st1 = st\<lparr>ulinks := set_prv a a (set_nxt a a (ulinks st)), uheap := (uheap st)(a \<mapsto> u), api_closed := cs\<rparr>"
    using o(1) by (auto simp: opened_at_def)
  have h1: "uheap st1 = (uheap st)(a \<mapsto> u)" by (simp add: st1)
  have "\<forall>b\<in>set hs. \<exists>v. uheap st1 b = Some v \<and> u_name v \<noteq> Junk" using usb_invD(2) [OF i] a(1) by (auto simp: whole_def st1)
  from known_in_eq [OF this, of n] have "known_in (uheap st1) n hs = Inr (lower n \<in> set (concat (map (name_at (uheap st)) hs)))"
    by (simp only: h1 name_at_other [OF a(1)])
  moreover have "ring (ulinks st1) handle_list hs" using i a by (auto simp: usb_inv_def st1 intro!: ring_set_other)
  ultimately have "known_device_locked (Some n) st1 = Some (Inr (lower n \<in> set (concat (map (name_at (uheap st)) hs))))"
    by (simp add: known_device_locked_def ring_nodes)
  then show ?thesis using a(2) o(2) by (simp add: register_new_device_def bindO_def cell_def st1)
qed

lemma offer_inv:
  assumes i: "usb_inv st hs" and a: "a \<notin> set hs" "a \<notin> {NULL, handle_list}"
    and o: "opened_at st a u st1" "u_name u = Has nm" "u_interface u = Has n" "u_read u = Has r" "u_write u = Has w"
  shows "\<exists>st' hs'. offer_device env a t fde st1 = Some (Inr st') \<and> usb_inv st' hs' \<and> set hs' \<subseteq> insert a (set hs)"
proof -
  have "uheap st1 a = Some u" using o(1) by (auto simp: opened_at_def)
  then obtain ok u' where rec: "recognized_device env a st1 = Inr (ok, st1\<lparr>uheap := (uheap st1)(a \<mapsto> u')\<rparr>)" "u' = u \<or> (\<exists>m. u' = u\<lparr>u_mask := Has m\<rparr>)"
    using recognized_eq [OF _ _ o(3)] a(2) by blast
  let ?st2 = "st1\<lparr>uheap := (uheap st1)(a \<mapsto> u')\<rparr>"
  obtain cs where st1: "st1 = st\<lparr>ulinks := set_prv a a (set_nxt a a (ulinks st)), uheap := (uheap st)(a \<mapsto> u), api_closed := cs\<rparr>"
    using o(1) by (auto simp: opened_at_def)
  have o2: "opened_at st a u' ?st2" unfolding opened_at_def by (intro exI [of _ cs]) (simp add: st1)
  have u': "u_name u' = Has nm" "u_interface u' = Has n" "u_read u' = Has r" "u_write u' = Has w" using rec(2) o by auto
  have drop: "\<exists>st'. drop_handle a ?st2 = Inr st' \<and> usb_inv st' hs" using drop_inv [OF i a o2] u' by simp
  show ?thesis
  proof (cases "ok \<and> serial_no env n \<noteq> None")
    case False
    then have "offer_device env a t fde st1 = Some (drop_handle a ?st2)" using rec(1) u'(2) by (auto simp: offer_device_def bindO_def cell_def)
    then show ?thesis using drop by auto
  next
    case True
    then obtain sn where sn: "serial_no env n = Some sn" by blast
    let ?st3 = "?st2\<lparr>ulinks := link_handle a (ulinks ?st2)\<rparr>" and ?known = "lower nm \<in> set (concat (map (name_at (uheap st)) hs))"
    have of: "offer_device env a t fde st1 = Some (if ?known then drop_handle a ?st2 else register_usb_transport t fde a (Some sn) None True ?st3)"
      using rec(1) True u'(2) sn register_new_eq [OF i a o2 u'(1)] by (simp add: offer_device_def bindO_def cell_def)
    show ?thesis
    proof (cases ?known)
      case True
      then show ?thesis using of drop by auto
    next
      case new: False
      have "whole u'" using u' by (simp add: whole_def)
      from add_inv [OF i a o2 this u'(1) new] have inv: "usb_inv ?st3 (hs @ [a])" .
      obtain st' where st': "register_usb_transport t fde a (Some sn) None True ?st3 = Inr st'" "tregst.more st' = tregst.more ?st3" using register_usb_more by blast
      have "usb_inv st' (hs @ [a])" using inv unfolding usb_inv_frame [OF st'(2)] .
      then show ?thesis using of new st'(1) by (intro exI [of _ st'] exI [of _ "hs @ [a]"]) simp
    qed
  qed
qed

text \<open>
  A device that can be opened only half-way. When the interface can be opened but one of its pipes or its name cannot, \<open>do_usb_open\<close> cleans up a structure
  whose other fields were never set: the pointer to the name that it passes to \<open>free\<close> is whatever was in the memory.
\<close>

lemma half_open_frees_garbage:
  assumes "open_if env wname = Some i" and "half_open env i" and "a \<noteq> NULL"
  shows "do_usb_open env a wname st = Inl (Bad_access ''usb_handle'')"
proof -
  obtain ok u where u: "open_fields env i = (ok, u)" by fastforce
  then have "\<not> ok" "u_name u = Junk" using assms(2) by (auto simp: half_open_def open_fields_def Let_def split: if_splits)
  then show ?thesis using assms(1,3) u by (simp add: do_usb_open_def drop_handle_def usb_cleanup_handle_def cell_def Let_def)
qed

lemma find_device_inv:
  assumes i: "usb_inv st hs" and a: "a \<notin> set hs" "a \<notin> {NULL, handle_list}"
  shows "(\<exists>st' hs'. find_device env (wname, a, t, fde) st = Some (Inr st') \<and> usb_inv st' hs' \<and> set hs' \<subseteq> insert a (set hs)) \<or>
    (\<exists>i. open_if env wname = Some i \<and> half_open env i \<and> find_device env (wname, a, t, fde) st = Some (Inl (Bad_access ''usb_handle'')))"
proof (cases "lower (narrow wname) \<in> set (concat (map (name_at (uheap st)) hs)) \<or> open_if env wname = None")
  case True
  have "usb_inv (st\<lparr>ulinks := set_prv a a (set_nxt a a (ulinks st))\<rparr>) hs" using i a by (auto simp: usb_inv_def intro!: ring_set_other)
  then show ?thesis using True i known_eq [OF i, of "narrow wname"] by (auto simp: find_device_def bindO_def do_usb_open_def)
next
  case False
  then obtain n where n: "open_if env wname = Some n" by blast
  show ?thesis
  proof (cases "half_open env n")
    case True
    then have "do_usb_open env a wname st = Inl (Bad_access ''usb_handle'')" using half_open_frees_garbage [OF n] a(2) by simp
    then show ?thesis using True n False known_eq [OF i, of "narrow wname"] by (auto simp: find_device_def bindO_def)
  next
    case whole: False
    obtain r w where of: "open_fields env n = (if_name env n \<noteq> None,
        \<lparr>u_interface = Has n, u_read = Has r, u_write = Has w, u_name = Has (case if_name env n of Some n \<Rightarrow> n | None \<Rightarrow> []), u_mask = Junk\<rparr>)"
      (is "_ = (_, ?u)") using open_fields_whole [OF whole] by blast
    let ?st1 = "st\<lparr>ulinks := set_prv a a (set_nxt a a (ulinks st)), uheap := (uheap st)(a \<mapsto> ?u)\<rparr>"
    have o1: "opened_at st a ?u ?st1" by (auto simp: opened_at_def intro!: exI [of _ "api_closed st"])
    have fd: "find_device env (wname, a, t, fde) st =
        (if if_name env n \<noteq> None then offer_device env a t fde ?st1 else Some (bindE (drop_handle a ?st1) Inr))"
      using False n of a(2) known_eq [OF i, of "narrow wname"]
      by (cases "drop_handle a ?st1") (auto simp: find_device_def bindO_def do_usb_open_def Let_def)
    show ?thesis
    proof (cases "if_name env n")
      case None
      then show ?thesis using fd drop_inv [OF i a o1] by auto
    next
      case (Some nm)
      then show ?thesis using fd offer_inv [OF i a o1, of nm n r w env t fde] by simp
    qed
  qed
qed

lemma find_devices_inv:
  "usb_inv st hs \<Longrightarrow> distinct (map (fst \<circ> snd) fs) \<Longrightarrow> (fst \<circ> snd) ` set fs \<inter> ({NULL, handle_list} \<union> set hs) = {} \<Longrightarrow>
    (\<exists>st' hs'. find_devices env fs st = Some (Inr st') \<and> usb_inv st' hs') \<or>
    (\<exists>f\<in>set fs. \<exists>i. open_if env (fst f) = Some i \<and> half_open env i) \<and> find_devices env fs st = Some (Inl (Bad_access ''usb_handle''))"
proof (induction fs arbitrary: st hs)
  case (Cons f fs)
  obtain wname a t fde where f: "f = (wname, a, t, fde)" by (cases f)
  have a: "a \<notin> set hs" "a \<notin> {NULL, handle_list}" using Cons.prems(3) by (auto simp: f)
  show ?case
  proof (cases "\<exists>st1 hs1. find_device env f st = Some (Inr st1) \<and> usb_inv st1 hs1 \<and> set hs1 \<subseteq> insert a (set hs)")
    case False
    then show ?thesis using find_device_inv [OF Cons.prems(1) a, of env wname t fde] by (auto simp: f bindO_def)
  next
    case True
    then obtain st1 hs1 where h: "find_device env f st = Some (Inr st1)" "usb_inv st1 hs1" "set hs1 \<subseteq> insert a (set hs)" by blast
    have d: "a \<notin> (fst \<circ> snd) ` set fs" using Cons.prems(2) by (simp add: f)
    have "(fst \<circ> snd) ` set fs \<inter> ({NULL, handle_list} \<union> set hs1) = {}"
    proof -
      have "(fst \<circ> snd) ` set fs \<inter> ({NULL, handle_list} \<union> set hs) = {}" using Cons.prems(3) by auto
      then show ?thesis using h(3) d by blast
    qed
    then show ?thesis using Cons.IH [OF h(2)] Cons.prems(2) h(1) by (auto simp: bindO_def)
  qed
qed auto

datatype usb_op = Scan "found list" | Kick addr | Close addr | Write addr "byte list" "nat + bool" | Read addr nat "(byte list + bool) list"

fun run_usb :: "usbenv \<Rightarrow> usb_op \<Rightarrow> usbst \<Rightarrow> usbst outcome option" where
  "run_usb env (Scan fs) st = find_devices env fs st"
| "run_usb env (Kick a) st = Some (usb_kick a st)"
| "run_usb env (Close a) st = Some (usb_close a st)"
| "run_usb env (Write a bs res) st = Some (map_sum id (\<lambda>(_, _, st). st) (usb_write a bs res st))"
| "run_usb env (Read a len rs) st = map_option (map_sum id (\<lambda>(_, _, _, st). st)) (usb_read a len rs st)"

text \<open>
  New handles have new addresses, operations are on handles in the list, and a transfer delivers at most what was asked for.
\<close>

fun op_ok :: "addr list \<Rightarrow> usb_op \<Rightarrow> bool" where
  "op_ok hs (Scan fs) \<longleftrightarrow> distinct (map (fst \<circ> snd) fs) \<and> (fst \<circ> snd) ` set fs \<inter> ({NULL, handle_list} \<union> set hs) = {}"
| "op_ok hs (Kick a) \<longleftrightarrow> a \<in> set hs"
| "op_ok hs (Close a) \<longleftrightarrow> a \<in> set hs"
| "op_ok hs (Write a bs res) \<longleftrightarrow> a \<in> set hs"
| "op_ok hs (Read a len rs) \<longleftrightarrow> a \<in> set hs \<and> as_asked len rs"

text \<open>
  C14: A USB device is in the list once. Every operation on the handles of USB devices, the search for new devices included, whatever the library answers, keeps the
  list well-formed, with every name in it at most once up to case and no handle outside the list, with three exceptions: reading may wait for ever; the search
  reads a field that was never set when the library opens one of the interfaces found but not its pipes or its name; and so does writing to
  a device whose end point gave no information when it was found. (Operations are on handles in the list, handles come from \<open>malloc\<close> at new addresses,
  and a transfer delivers at most what was asked for.)
\<close>

theorem usb_devices_once:
  assumes "usb_inv st hs" and "op_ok hs op"
  shows "(\<exists>st' hs'. run_usb env op st = Some (Inr st') \<and> usb_inv st' hs') \<or>
    (\<exists>a len rs. op = Read a len rs \<and> run_usb env op st = None) \<or>
    run_usb env op st = Some (Inl (Bad_access ''usb_handle'')) \<and>
      ((\<exists>fs. op = Scan fs \<and> (\<exists>f\<in>set fs. \<exists>i. open_if env (fst f) = Some i \<and> half_open env i)) \<or> (\<exists>a bs res. op = Write a bs res \<and> mask_unset a st))"
proof (cases op)
  case (Scan fs)
  then show ?thesis using find_devices_inv [OF assms(1), of fs env] assms(2) by auto
next
  case (Kick a)
  then show ?thesis using kick_inv [OF assms(1), of a] assms(2) by auto
next
  case (Close a)
  then show ?thesis using close_inv [OF assms(1), of a] assms(2) by auto
next
  case (Write a bs res)
  then have "a \<in> set hs" using assms(2) by simp
  from write_inv [OF assms(1) this, of bs res] show ?thesis using Write by auto
next
  case (Read a len rs)
  then have a: "a \<in> set hs" "as_asked len rs" using assms(2) by auto
  show ?thesis
  proof (cases "usb_read_loop a len rs [] st")
    case None
    then show ?thesis using Read usb_invD(1) [OF assms(1) a(1)] by (simp add: usb_read_def)
  next
    case (Some r)
    then show ?thesis using Read usb_invD(1) [OF assms(1) a(1)] read_loop_inv [OF assms(1) a(1,2) Some] by (auto simp: usb_read_def)
  qed
qed

text \<open>An empty list, and a device that is found.\<close>

definition no_usb :: usbst where
  "no_usb = tregst.extend no_transports (usbst.fields (list_init handle_list \<lparr>nxt = (\<lambda>_. 0), prv = (\<lambda>_. 0)\<rparr>) Map.empty [])"

definition sample_usb :: usbenv where
  "sample_usb = \<lparr>open_if = (\<lambda>_. Some 1), open_read = (\<lambda>_. Some 2), open_write = (\<lambda>_. Some 3), name_len = (\<lambda>_. 4), if_name = (\<lambda>_. Some ''dev''),
     device_desc = (\<lambda>_. Some 0x18d1), interf_desc = (\<lambda>_. Some (2, 0xff, 0x42, 1)), ep_size = (\<lambda>_. Some 512), serial_no = (\<lambda>_. Some ''0123''),
     vendorIds = builtInVendorIds\<rparr>"

lemma no_usb_inv: "usb_inv no_usb []"
  using ring_list_init [of handle_list] by (simp add: usb_inv_def no_usb_def tregst.defs usbst.defs)

theorem usb_devices_once_witness:
  "usb_inv no_usb [] \<and> (\<exists>st' hs'. run_usb sample_usb (Scan [([100], 20, 40, 41)]) no_usb = Some (Inr st') \<and> usb_inv st' hs')"
proof -
  have "\<not> half_open sample_usb i" for i by (simp add: half_open_def sample_usb_def)
  moreover have "op_ok [] (Scan [([100], 20, 40, 41)])" by (simp add: handle_list_def)
  ultimately show ?thesis using usb_devices_once [OF no_usb_inv, of "Scan [([100], 20, 40, 41)]" sample_usb] no_usb_inv by auto
qed

section \<open>Reading\<close>

text \<open>
  However the bytes of a request are spread over transfers, reading returns them all, in order, and takes no transfer after the one that completes them.
\<close>

lemma usb_read_loop_exact:
  assumes "uheap st a = Some u" and "u_read u = Has p"
  shows "ps \<noteq> [] \<Longrightarrow> last ps \<noteq> [] \<Longrightarrow> length (concat ps) = len \<Longrightarrow> as_asked len (map Inl ps) \<Longrightarrow>
    usb_read_loop a len (map Inl ps @ rest) acc st = Some (Inr (0, acc @ concat ps, rest, st))"
proof (induction ps arbitrary: len acc)
  case (Cons q ps)
  have l: "length q \<le> min len 4096" using Cons.prems(4) by simp
  show ?case
  proof (cases "ps = []")
    case True
    then show ?thesis using Cons.prems l assms by (auto simp: cell_def)
  next
    case False
    then have "concat ps \<noteq> []" using Cons.prems(2) by (metis concat_eq_Nil_conv last.simps last_in_set)
    then have "length q < len" "length (concat ps) = len - length q" using Cons.prems(3) by auto
    then show ?thesis using Cons False l assms by (simp add: cell_def min_def split: if_splits)
  qed
qed simp

end
