(* ===== verification/Bounded_Buffer.thy ===== *)
theory Bounded_Buffer
  imports Adb_Prelude
begin

text \<open>
  \<open>utils.cpp\<close>: appending to an array of bytes with a bound. The state is the array and the position of the cursor; the end of the array is \<open>buffEnd\<close>. The functions
  refine appending to a text: until the array is full it holds the whole text, then its beginning, with a zero at the end, and the cursor tells which.
\<close>

section \<open>The functions\<close>

type_synonym buff = "byte list \<times> nat"

definition NUL :: byte where "NUL = CHR 0x00"

definition buff_addc :: "char \<Rightarrow> buff \<Rightarrow> buff" where
  "buff_addc c b =
     (case b of (mem, p) \<Rightarrow>
        if length mem \<le> p then (mem, p)
        else if length mem - p = 1 then (mem[p := NUL], p + 1)
        else (mem[p := c, p + 1 := NUL], p + 1))"

text \<open>The zero behind the text, or over its last byte.\<close>

definition terminated :: "buff \<Rightarrow> buff" where
  "terminated b = (case b of (mem, p) \<Rightarrow> (if length mem \<le> p then mem[p - 1 := NUL] else mem[p := NUL], p))"

definition store :: "byte list \<Rightarrow> nat \<Rightarrow> byte list \<Rightarrow> byte list" where
  "store bs p mem = take p mem @ bs @ drop (p + length bs) mem"

text \<open>\<open>bs\<close> are the \<open>len\<close> bytes at \<open>data\<close>.\<close>

definition buff_addb :: "byte list \<Rightarrow> buff \<Rightarrow> buff" where
  "buff_addb bs b =
     (case b of (mem, p) \<Rightarrow>
        if length mem \<le> p \<or> bs = [] then (mem, p)
        else
          let len = min (length bs) (length mem - p)
          in terminated (store (take len bs) p mem, p + len))"

definition buff_adds :: "string \<Rightarrow> buff \<Rightarrow> buff" where
  "buff_adds s b = buff_addb (takeWhile (\<lambda>c. c \<noteq> NUL) s) b"

text \<open>
  \<open>vsnprintf\<close> of a formatted text: the array and the result. The C library of Windows fills the array to its end and returns a negative number for a text that is
  too long, others leave room for the zero and return the length of the text.
\<close>

definition vsnprintf :: "bool \<Rightarrow> string \<Rightarrow> nat \<Rightarrow> nat \<Rightarrow> byte list \<Rightarrow> int \<times> byte list" where
  "vsnprintf win s p avail mem =
     (if length s < avail then (int (length s), store (s @ [NUL]) p mem)
      else if win then (if length s = avail then int (length s) else - 1, store (take avail s) p mem)
      else (int (length s), store (take (avail - 1) s @ [NUL]) p mem))"

definition buff_add :: "bool \<Rightarrow> string \<Rightarrow> buff \<Rightarrow> buff" where
  "buff_add win s b =
     (case b of (mem, p) \<Rightarrow>
        if length mem \<le> p then (mem, p)
        else
          let avail = length mem - p;
              (nn, mem) = vsnprintf win s p avail mem;
              nn = (if nn < 0 then avail else if nn > int avail then avail else nat nn)
          in terminated (mem, p + nn))"

section \<open>Appending\<close>

text \<open>The array of \<open>n\<close> bytes stands for the text \<open>t\<close>.\<close>

definition stands_for :: "nat \<Rightarrow> buff \<Rightarrow> string \<Rightarrow> bool" where
  "stands_for n b t \<longleftrightarrow>
     (case b of (mem, p) \<Rightarrow>
        length mem = n \<and>
        (if length t < n then p = length t \<and> take p mem = t \<and> (t \<noteq> [] \<longrightarrow> mem ! p = NUL)
         else p = n \<and> mem = take (n - 1) t @ [NUL]))"

lemma stands_for_full: "stands_for n (mem, p) t \<Longrightarrow> n \<le> length t \<Longrightarrow> p = length mem \<and> stands_for n (mem, p) (t @ s)"
  by (cases mem) (auto simp: stands_for_def)

lemma length_store: "p + length bs \<le> length mem \<Longrightarrow> length (store bs p mem) = length mem"
  by (simp add: store_def)

lemma stored_stands:
  assumes "stands_for n (mem, p) t" and "length t < n" and "length mem' = n" and "take (p + min (length s) (n - p)) mem' = take p mem @ take (n - p) s" and "s \<noteq> []"
  shows "stands_for n (terminated (mem', p + min (length s) (n - p))) (t @ s)"
proof (cases "length t + length s < n")
  case True
  then show ?thesis using assms by (auto simp: stands_for_def terminated_def nth_list_update take_update_cancel)
next
  case False
  then have p: "p = length t" "take p mem = t" "p + min (length s) (n - p) = n" using assms(1,2) by (auto simp: stands_for_def)
  have "mem' = t @ take (n - p) s" using assms(3,4) p by simp
  moreover have "(t @ take (n - p) s)[n - 1 := NUL] = take (n - 1) (t @ s) @ [NUL]"
  proof (rule nth_equalityI)
    show "length ((t @ take (n - p) s)[n - 1 := NUL]) = length (take (n - 1) (t @ s) @ [NUL])" using False assms(2) p by simp
    show "(t @ take (n - p) s)[n - 1 := NUL] ! i = (take (n - 1) (t @ s) @ [NUL]) ! i" if "i < length ((t @ take (n - p) s)[n - 1 := NUL])" for i
      using that False assms(2) p(1) by (auto simp: nth_append nth_list_update)
  qed
  ultimately show ?thesis using False assms(2,3) p by (simp add: stands_for_def terminated_def)
qed

lemma addb_stands:
  assumes "stands_for n b t"
  shows "stands_for n (buff_addb bs b) (t @ bs)"
proof -
  obtain mem p where b: "b = (mem, p)" by fastforce
  show ?thesis
  proof (cases "n \<le> length t \<or> bs = []")
    case True
    then show ?thesis using assms stands_for_full [of n mem p t bs] by (auto simp: buff_addb_def b)
  next
    case False
    then have "length mem = n" "p = length t" using assms by (auto simp: stands_for_def b)
    with False show ?thesis using stored_stands [of n mem p t "store (take (min (length bs) (n - p)) bs) p mem" bs] assms
      by (auto simp: buff_addb_def b Let_def length_store store_def min_def)
  qed
qed

lemma addc_stands:
  assumes "stands_for n b t"
  shows "stands_for n (buff_addc c b) (t @ [c])"
proof -
  obtain mem p where b: "b = (mem, p)" by fastforce
  have "store [c] p mem = mem[p := c]" if "p < length mem" using that by (simp add: store_def upd_conv_take_nth_drop)
  then have "buff_addc c b = buff_addb [c] b" by (auto simp: buff_addc_def buff_addb_def b Let_def terminated_def)
  then show ?thesis using addb_stands [OF assms] by simp
qed

text \<open>The formatted text is stored as its bytes are; what the library writes beyond them is overwritten.\<close>

lemma add_is_addb:
  assumes "p < length mem" and "s \<noteq> []"
  shows "buff_add win s (mem, p) = buff_addb s (mem, p)"
proof (cases "length s < length mem - p")
  case True
  have "terminated (store (s @ [NUL]) p mem, p + length s) = terminated (store s p mem, p + length s)"
    using True assms(1) by (auto simp: terminated_def store_def nth_append nth_list_update nth_Cons' intro!: nth_equalityI)
  moreover have "\<not> int (length mem) - int p < int (length s)" using True by linarith
  ultimately show ?thesis using True assms by (simp add: buff_add_def buff_addb_def vsnprintf_def Let_def)
next
  case False
  let ?v = "length mem - p"
  have "(store (take (?v - 1) s @ [NUL]) p mem)[length mem - 1 := NUL] = (store (take ?v s) p mem)[length mem - 1 := NUL]"
    using False assms by (intro nth_equalityI) (auto simp: store_def nth_append nth_list_update)
  moreover have "p + nat (int (length mem) - int p) = length mem" using assms(1) by simp
  ultimately show ?thesis using False assms by (auto simp: buff_add_def buff_addb_def vsnprintf_def Let_def terminated_def length_store)
qed

lemma add_stands:
  assumes "stands_for n b t"
  shows "stands_for n (buff_add win s b) (t @ s)"
proof -
  obtain mem p where b: "b = (mem, p)" by fastforce
  show ?thesis
  proof (cases "p < length mem \<and> s \<noteq> []")
    case True
    then show ?thesis using add_is_addb [of p mem s win] addb_stands [OF assms, of s] b by simp
  next
    case False
    then show ?thesis
    proof (cases "s = [] \<and> length t < n")
      case True
      then show ?thesis using assms
        by (auto simp: b buff_add_def vsnprintf_def store_def stands_for_def terminated_def Let_def nth_append min_def split: if_splits)
    next
      case full: False
      then have "n \<le> length t" "length mem \<le> p" using False assms by (auto simp: stands_for_def b split: if_splits)
      then show ?thesis using stands_for_full [of n mem p t s] assms by (auto simp: b buff_add_def)
    qed
  qed
qed

text \<open>
  C18: The functions append. If the array stands for a text, then after adding a character, bytes, a string or a formatted text it stands for the text with this at
  the end, whichever C library formats it: complete with a zero behind it as long as it fits, and otherwise cut to the array less one byte, with the cursor at the end.
\<close>

theorem buff_refines_append:
  assumes "stands_for n b t"
  shows "stands_for n (buff_addc c b) (t @ [c]) \<and> stands_for n (buff_addb bs b) (t @ bs) \<and>
    stands_for n (buff_adds s b) (t @ takeWhile (\<lambda>c. c \<noteq> NUL) s) \<and> stands_for n (buff_add win s b) (t @ s)"
  using addc_stands [OF assms] addb_stands [OF assms] add_stands [OF assms] by (simp add: buff_adds_def)

theorem buff_refines_append_witness:
  "stands_for 4 (replicate 4 CHR ''x'', 0) [] \<and> stands_for 4 (buff_add True ''abcdef'' (replicate 4 CHR ''x'', 0)) ''abcdef'' \<and>
   buff_add True ''abcdef'' (replicate 4 CHR ''x'', 0) = (''abc'' @ [NUL], 4)"
proof -
  have e: "stands_for 4 (replicate 4 CHR ''x'', 0) []" by (simp add: stands_for_def)
  then have "stands_for 4 (buff_add True ''abcdef'' (replicate 4 CHR ''x'', 0)) ''abcdef''" using buff_refines_append [OF e, of undefined undefined "''abcdef''" True] by simp
  with e show ?thesis by (simp add: stands_for_def split: prod.splits)
qed

text \<open>
  The header says that the array ends with a zero after every operation. Appending nothing to a new array is an exception.
\<close>

lemma addb_empty_unterminated: "buff_addb [] (mem, p) = (mem, p)"
  by (simp add: buff_addb_def)

end
