(* ===== verification/Sent_Packets.thy ===== *)
theory Sent_Packets
  imports Protocol_Props
begin

text \<open>
  What the event loop sends while it handles an event: packets are only added to those that were sent, and the only \<open>SYNC\<close> packet among them is the one that
  \<open>handle_packet\<close> sends back. This is what the threads of a transport rely on.
\<close>

section \<open>Results that satisfy a predicate\<close>

definition ensures :: "('s \<Rightarrow> bool) \<Rightarrow> 's outcome \<Rightarrow> bool" where
  "ensures P r \<longleftrightarrow> (\<forall>st. r = Inr st \<longrightarrow> P st)"

definition ensures_pair :: "('s \<Rightarrow> bool) \<Rightarrow> ('a \<times> 's) outcome \<Rightarrow> bool" where
  "ensures_pair P r \<longleftrightarrow> (\<forall>x st. r = Inr (x, st) \<longrightarrow> P st)"

named_theorems ens

lemma ensures_rules [ens]:
  "ensures P (Inl e)" "P st \<Longrightarrow> ensures P (Inr st)" "(b \<Longrightarrow> ensures P r) \<Longrightarrow> (\<not> b \<Longrightarrow> ensures P r') \<Longrightarrow> ensures P (if b then r else r')"
  "ensures_pair P (Inl e)" "P st \<Longrightarrow> ensures_pair P (Inr (x, st))"
  "(b \<Longrightarrow> ensures_pair P q) \<Longrightarrow> (\<not> b \<Longrightarrow> ensures_pair P q') \<Longrightarrow> ensures_pair P (if b then q else q')"
  by (simp_all add: ensures_def ensures_pair_def)

lemma ensures_bind:
  "ensures P r \<Longrightarrow> (\<And>st. P st \<Longrightarrow> ensures P (f st)) \<Longrightarrow> ensures P (bindE r f)"
  "ensures P r \<Longrightarrow> (\<And>st. P st \<Longrightarrow> ensures_pair P (g st)) \<Longrightarrow> ensures_pair P (bindE r g)"
  unfolding ensures_def ensures_pair_def bindE_eq_Inr by blast+

lemma ensures_read:
  "(\<And>x. r = Inr x \<Longrightarrow> ensures P (f x)) \<Longrightarrow> ensures P (bindE (r :: 'a outcome) f)"
  "(\<And>x. r = Inr x \<Longrightarrow> ensures_pair P (g x)) \<Longrightarrow> ensures_pair P (bindE (r :: 'a outcome) g)"
  unfolding ensures_def ensures_pair_def bindE_eq_Inr by blast+

lemma ensures_from_pair:
  "ensures_pair P r \<Longrightarrow> (\<And>x st. P st \<Longrightarrow> ensures P (f (x, st))) \<Longrightarrow> ensures P (bindE r f)"
  "ensures_pair P r \<Longrightarrow> (\<And>x st. P st \<Longrightarrow> ensures_pair P (g (x, st))) \<Longrightarrow> ensures_pair P (bindE r g)"
  unfolding ensures_def ensures_pair_def bindE_eq_Inr by (metis surj_pair)+

lemma ensuresD: "r = Inr st \<Longrightarrow> ensures P r \<Longrightarrow> P st" "q = Inr (x, st) \<Longrightarrow> ensures_pair P q \<Longrightarrow> P st"
  by (simp_all add: ensures_def ensures_pair_def)

section \<open>Sockets\<close>

definition is_sync :: "apacket \<Rightarrow> bool" where "is_sync p \<longleftrightarrow> command (pmsg p) = A_SYNC"

text \<open>From \<open>st0\<close> to \<open>st\<close> packets were sent, none of them a \<open>SYNC\<close>.\<close>

definition sends :: "'z sockst_scheme \<Rightarrow> 'z sockst_scheme \<Rightarrow> bool" where
  "sends st0 st \<longleftrightarrow> (\<exists>new. sent st = sent st0 @ new \<and> (\<forall>(u, q)\<in>set new. \<not> is_sync q))"

lemma sends_refl [simp]: "sends st st"
  by (simp add: sends_def)

lemma sends_trans: "sends a b \<Longrightarrow> sends b c \<Longrightarrow> sends a c"
  unfolding sends_def by fastforce

lemma sends_same: "sent st = sent st1 \<Longrightarrow> sends st0 st1 \<Longrightarrow> sends st0 st"
  by (simp add: sends_def)

lemma sends_simps [simp]:
  "sends st0 (st\<lparr>slinks := l\<rparr>) = sends st0 st" "sends st0 (st\<lparr>dlinks := d\<rparr>) = sends st0 st" "sends st0 (st\<lparr>socks := m\<rparr>) = sends st0 st"
  "sends st0 (st\<lparr>local_socket_next_id := i\<rparr>) = sends st0 st" "sends st0 (free_sock a st) = sends st0 st" "sends st0 (set_sock a s st) = sends st0 st"
  by (simp_all add: sends_def free_sock_def set_sock_def)

lemma sends_fd [ens]:
  assumes "sends st0 st"
  shows "ensures (sends st0) (fdevent_remove a st)" "ensures (sends st0) (fdevent_add a ev st)" "ensures (sends st0) (fdevent_del a ev st)"
    "ensures (sends st0) (fdevent_set a ev st)" "ensures (sends st0) (fdevent_install env a fd f arg st)"
  using assms by (auto simp: ensures_def more_fields(4) [OF fdevent_more(1)] more_fields(4) [OF fdevent_more(2)] more_fields(4) [OF fdevent_more(3)]
      more_fields(4) [OF fdevent_more(4)] more_fields(4) [OF fdevent_install_more] intro: sends_same)

lemma sends_upd_sock [ens]: "sends st0 st \<Longrightarrow> ensures (sends st0) (upd_sock a f st)"
  by (auto simp: ensures_def upd_sock_def bindE_eq_Inr)

lemma sends_remove_socket [ens]: "sends st0 st \<Longrightarrow> ensures (sends st0) (remove_socket a st)"
  unfolding remove_socket_def by (intro ens) simp_all

lemma seal_command: "seal_packet p = Inr q \<Longrightarrow> command (pmsg q) = command (pmsg p) \<and> arg0 (pmsg q) = arg0 (pmsg p) \<and> arg1 (pmsg q) = arg1 (pmsg p)"
  by (auto simp: seal_packet_def bindE_eq_Inr Let_def split: if_splits)

lemma sends_packet [ens]: "sends st0 st \<Longrightarrow> \<not> is_sync p \<Longrightarrow> ensures (sends st0) (send_packet p t st)"
  by (auto simp: ensures_def send_packet_def bindE_eq_Inr sends_def is_sync_def dest: seal_command split: if_splits)

lemma sends_destroy [ens]: "sends st0 st \<Longrightarrow> ensures (sends st0) (local_socket_destroy a st)"
  unfolding local_socket_destroy_def by (rule ensures_read, rule ensures_bind, erule sends_fd, rule ensures_bind, erule sends_remove_socket) (auto intro!: ens)

lemma sends_shutdown [ens]: "sends st0 st \<Longrightarrow> ensures (sends st0) (remote_socket_shutdown a st)"
  unfolding remote_socket_shutdown_def Let_def by (intro ensures_read sends_packet) (simp_all add: is_sync_def a_commands)

lemma sendfailmsg_sent [simp]: "sends st0 (snd (sendfailmsg fd m st)) = sends st0 st"
  by (simp add: sends_def sendfailmsg_def Let_def split_beta sock_writex_def split: option.split)

lemma sends_close [ens]: "sends st0 st \<Longrightarrow> ensures (sends st0) (socket_close n a st)"
proof (induction n arbitrary: a st)
  case 0
  then show ?case by (simp add: ensures_def)
next
  case (Suc n)
  note cl = Suc.IH
  have peer: "ensures (sends st0) (close_peer_of (socket_close n) a st)" if "sends st0 st" for st
    unfolding close_peer_of_def
    by (intro ensures_read ensures_bind(1) sends_upd_sock cl, simp split: shutdown_fn.split) (use that in \<open>auto intro!: ens cl\<close>)
  have "ensures (sends st0) (local_socket_close_locked (socket_close n) a st)"
    unfolding local_socket_close_locked_def
    apply (rule ensures_read, rule ensures_bind, rule ensures_rules, rule peer, rule Suc.prems, rule ensures_rules, rule Suc.prems)
    apply (rule ensures_read, rule ensures_rules, erule sends_destroy)
    apply (rule ensures_bind, erule sends_upd_sock, rule ensures_bind, erule sends_fd, rule ensures_bind, erule sends_remove_socket)
    by (auto intro!: ens)
  moreover have "ensures (sends st0) (local_socket_close_notify (socket_close n) a st)"
    unfolding local_socket_close_notify_def
    by (rule ensures_bind, rule sends_upd_sock, rule Suc.prems, rule ensures_read, rule cl) simp
  moreover have "ensures (sends st0) (remote_socket_close (socket_close n) a st)"
    unfolding remote_socket_close_def
    apply (rule ensures_read, rule ensures_bind, rule ensures_rules, rule ensures_bind, rule sends_upd_sock, rule Suc.prems)
    apply (rule ensures_read, erule cl, rule ensures_rules, rule Suc.prems, rule ensures_read)
    by (auto intro!: ens)
  moreover have "ensures (sends st0) (smart_socket_close (socket_close n) a st)"
    unfolding smart_socket_close_def
    apply (rule ensures_read, rule ensures_bind, rule ensures_rules, rule ensures_bind, rule sends_upd_sock, rule Suc.prems)
    apply (rule ensures_read, rule ensures_bind, erule cl, erule sends_upd_sock, rule ensures_rules, rule Suc.prems, rule ensures_read)
    by (auto intro!: ens)
  moreover have "ensures (sends st0) (Inl e)" for e :: fault by (rule ens)
  ultimately show ?case by (auto intro!: ensures_read split: close_fn.split)
qed

lemma adb_write_sent: "adb_write fd bs st = (r, e, st') \<Longrightarrow> sent st' = sent st"
  by (auto simp: adb_write_def split: list.splits wr_ev.splits)

lemma enqueue_write_sent: "enqueue_write fd p st = (ok, p', st') \<Longrightarrow> sent st' = sent st"
proof (induction fd p st arbitrary: ok p' st' rule: enqueue_write.induct)
  case (1 fd p st)
  obtain r e st1 where w: "adb_write fd (pbytes p) st = (r, e, st1)" by (metis prod_cases3)
  show ?case
    using "1.prems" "1.IH" [OF _ w [symmetric] refl] adb_write_sent [OF w]
    by (subst (asm) enqueue_write.simps) (auto simp: w split: if_splits)
qed

lemma sends_local_enqueue [ens]:
  assumes "sends st0 st"
  shows "ensures_pair (sends st0) (local_socket_enqueue a p st)"
proof -
  have w: "sends st0 (snd (snd (enqueue_write fd p st)))" for fd p
    using enqueue_write_sent [of fd p st] sends_same [OF _ assms] by (metis prod.collapse)
  show ?thesis
    unfolding local_socket_enqueue_def Let_def split_beta
    by (rule ensures_read, intro ensures_rules ensures_bind(2) sends_close sends_upd_sock) (auto simp: w assms intro!: ens)
qed

lemma sends_remote_enqueue [ens]: "sends st0 st \<Longrightarrow> ensures_pair (sends st0) (remote_socket_enqueue a p st)"
  unfolding remote_socket_enqueue_def
  by (intro ensures_read ensures_bind(2) sends_packet ensures_rules) (simp_all add: is_sync_def a_commands)

lemma sends_ready [ens]:
  assumes "sends st0 st"
  shows "ensures (sends st0) (socket_ready a st)"
proof -
  have "ensures (sends st0) (local_socket_ready_notify a st)"
    unfolding local_socket_ready_notify_def
    apply (rule ensures_bind [OF sends_upd_sock [OF assms]], rule ensures_read)
    apply (simp add: split_beta local_socket_ready_def)
    by (rule sends_fd(2)) (metis adb_write_sent prod.collapse sends_same)
  moreover have "ensures (sends st0) (remote_socket_ready a st)"
    unfolding remote_socket_ready_def Let_def by (intro ensures_read sends_packet assms) (simp add: is_sync_def a_commands)
  ultimately show ?thesis unfolding socket_ready_def
    by (auto intro!: ensures_read ens assms simp: local_socket_ready_def split: ready_fn.split)
qed

lemma sends_create_local [ens]: "sends st0 st \<Longrightarrow> ensures_pair (sends st0) (create_local_socket env new fd st)"
  unfolding create_local_socket_def install_local_socket_def Let_def
  by (intro ensures_rules ensures_bind sends_upd_sock sends_fd) simp_all

lemma sends_create_remote [ens]: "sends st0 st \<Longrightarrow> ensures_pair (sends st0) (create_remote_socket new i t st)"
  unfolding create_remote_socket_def Let_def by (intro ensures_rules) simp

lemma sends_enqueue [ens]:
  assumes "sends st0 st" "\<And>a p st. sends st0 st \<Longrightarrow> ensures_pair (sends st0) (smart a p st)"
  shows "ensures_pair (sends st0) (socket_enqueue smart a p st)"
  unfolding socket_enqueue_def by (rule ensures_read) (auto split: enqueue_fn.split intro!: ens assms)

section \<open>Handling packets\<close>

lemma sends_adb [simp]:
  "sends st0 (st\<lparr>trans := m\<rparr>) = sends st0 st" "sends st0 (usb_disconnected st) = sends st0 st" "sends st0 (st\<lparr>framework_fd := fd\<rparr>) = sends st0 st"
  "sends st0 (st\<lparr>needs_retry := b\<rparr>) = sends st0 st" "sends st0 (st\<lparr>updates := n\<rparr>) = sends st0 st" "sends st0 (st\<lparr>to_framework := x\<rparr>) = sends st0 st"
  "sends st0 (st\<lparr>usb_transport := t, usb_disconnect_on := t'\<rparr>) = sends st0 st" "sends st0 (st\<lparr>alloc := as\<rparr>) = sends st0 st"
  "sends st0 (st\<lparr>llinks := h\<rparr>) = sends st0 st" "sends st0 (snd (next_addr st)) = sends st0 st"
  by (simp_all add: sends_def usb_disconnected_def next_addr_def split: list.split)

lemma sends_upd_trans [ens]: "sends st0 st \<Longrightarrow> ensures (sends st0) (upd_trans t f st)"
  unfolding upd_trans_def by (intro ensures_read ensures_rules) simp

lemma sends_ready_packet [ens]:
  "sends st0 st \<Longrightarrow> ensures (sends st0) (send_ready l r t st)" "sends st0 st \<Longrightarrow> ensures (sends st0) (send_close l r t st)"
  "sends st0 st \<Longrightarrow> ensures (sends st0) (send_connect env t st)"
  unfolding send_ready_def send_close_def send_connect_def Let_def by (intro sends_packet; simp add: is_sync_def a_commands)+

lemma sends_auth [ens]:
  assumes "sends st0 st"
  shows "ensures (sends st0) (send_auth_request env t st)" "ensures (sends st0) (send_auth_response env tok t st)"
    "ensures (sends st0) (send_auth_publickey env t st)" "ensures (sends st0) (adb_auth_verified env t st)"
proof -
  have n: "\<not> is_sync (auth_packet k bs pl)" for k bs pl by (simp add: auth_packet_def is_sync_def a_commands Let_def)
  show "ensures (sends st0) (send_auth_request env t st)"
    unfolding send_auth_request_def
    by (cases "adb_auth_generate_token env TOKEN_SIZE") (auto intro!: ensures_rules ensures_bind(1) [OF sends_upd_trans] sends_packet assms n)
  show "ensures (sends st0) (send_auth_response env tok t st)" "ensures (sends st0) (send_auth_publickey env t st)"
    unfolding send_auth_response_def send_auth_publickey_def Let_def by (intro ensures_read ensures_rules sends_packet assms n)+
  show "ensures (sends st0) (adb_auth_verified env t st)"
    unfolding adb_auth_verified_def handle_online_def by (intro ensures_bind sends_upd_trans assms sends_ready_packet)
qed

lemma sends_disconnect: "sends st0 st \<Longrightarrow> ensures (sends st0) (remote_socket_disconnect a st)"
  unfolding remote_socket_disconnect_def
  by (rule ensures_read, rule ensures_bind, rule ensures_rules, rule ensures_bind) (auto intro!: ens ensures_read)

lemma sends_listener: "sends st0 st \<Longrightarrow> ensures (sends st0) (listener_disconnect l st)"
  unfolding listener_disconnect_def free_listener_def Let_def
  by (intro ensures_read ensures_bind ensures_rules sends_fd) (simp_all add: sends_def)

lemma sends_run_disconnects: "run_disconnects_from t dis st = Some r \<Longrightarrow> sends st0 st \<Longrightarrow> ensures (sends st0) r"
proof (induction rule: run_disconnects_from.raw_induct [rotated, consumes 1])
  case (1 f t dis st r)
  show ?case
  proof (cases "dis = t \<or> socks st dis = None \<and> listeners st dis = None \<or> (\<exists>e. run_callback dis st = Inl e)")
    case True
    then show ?thesis using 1(2,3) by (auto simp: Let_def intro!: ensures_rules split: if_splits)
  next
    case False
    then obtain st1 where st1: "run_callback dis st = Inr st1" by (cases "run_callback dis st") auto
    have "sends st0 st1" using ensuresD(1) [OF _ sends_disconnect [OF 1(3)]] ensuresD(1) [OF _ sends_listener [OF 1(3)]] st1 by (metis (full_types))
    with False st1 1(1) [of t "nxt (dlinks st) dis" st1 r] 1(2) show ?thesis by (auto simp: Let_def)
  qed
qed

lemma sends_offline:
  assumes "handle_offline t st = Some r" "sends st0 st"
  shows "ensures (sends st0) r"
proof (cases "upd_trans t (\<lambda>x. x\<lparr>online := False\<rparr>) st")
  case (Inl e)
  then have "r = Inl e" using assms(1) unfolding handle_offline_def by simp
  then show ?thesis by (simp add: ensures_rules)
next
  case (Inr st1)
  have "sends st0 st1" by (rule ensuresD(1) [OF Inr sends_upd_trans [OF assms(2)]])
  then show ?thesis
    using assms(1) sends_run_disconnects by (fastforce simp: handle_offline_def Inr run_transport_disconnects_def Let_def)
qed

lemma sends_go_offline:
  assumes "go_offline t st = Some r" "sends st0 st"
  shows "ensures (sends st0) r"
proof (cases "upd_trans t (\<lambda>x. x\<lparr>connection_state := CS_OFFLINE\<rparr>) st")
  case (Inr st1)
  then show ?thesis using assms(1) sends_offline ensuresD(1) [OF Inr sends_upd_trans [OF assms(2)]] by (simp add: go_offline_def)
next
  case (Inl e)
  then have "r = Inl e" using assms(1) by (simp add: go_offline_def)
  then show ?thesis by (simp add: ensures_rules)
qed

lemma sends_banner [ens]: "sends st0 st \<Longrightarrow> ensures (sends st0) (parse_banner data t st)"
  unfolding parse_banner_def by (intro ensures_rules ensures_bind(1) sends_upd_trans ensures_read) simp_all

lemma sends_confirm [ens]: "sends st0 st \<Longrightarrow> ensures (sends st0) (adb_auth_confirm_key env b key n ok t st)"
  unfolding adb_auth_confirm_key_def Let_def
  by (intro ensures_rules ensures_read ensures_bind(1) [OF sends_fd(5)] sends_fd(2)) simp_all

lemma sends_service:
  "sends st0 st \<Longrightarrow> (\<And>b st. sends st0 st \<Longrightarrow> ensures_pair (sends st0) (jdwp b st)) \<Longrightarrow>
   ensures_pair (sends st0) (create_local_service_socket env jdwp name st)"
  unfolding create_local_service_socket_def Let_def split_beta
  by (intro ensures_rules ensures_from_pair sends_create_local; (assumption)?; simp only: fst_conv snd_conv sends_adb)
     (intro ensures_rules ensures_bind(2) sends_upd_sock; assumption)+

lemma sends_bind_remote [ens]: "sends st0 st \<Longrightarrow> ensures_pair (sends st0) (bind_remote a rid t st)"
  unfolding bind_remote_def Let_def split_beta
  by (intro ensures_rules ensures_from_pair sends_create_remote; (assumption)?; simp only: fst_conv snd_conv sends_adb)
     (intro ensures_rules ensures_bind(2) sends_upd_sock; assumption)+

lemma sends_open:
  "sends st0 st \<Longrightarrow> (\<And>b st. sends st0 st \<Longrightarrow> ensures_pair (sends st0) (jdwp b st)) \<Longrightarrow> ensures (sends st0) (handle_open env jdwp p t st)"
  unfolding handle_open_def Let_def
  apply (intro ensures_read ensures_rules ensures_from_pair sends_service; (assumption)?; simp only: split_conv)
  by (intro ensures_rules sends_ready_packet ensures_from_pair sends_bind_remote; (assumption)?; simp only: split_conv)
     (intro ensures_read ensures_bind(1) sends_ready_packet sends_ready; assumption)

lemma sends_okay: "handle_okay p t st = Some r \<Longrightarrow> sends st0 st \<Longrightarrow> ensures (sends st0) r"
proof -
  assume h: "handle_okay p t st = Some r" and c: "sends st0 st"
  note b = ensuresD(2) [OF _ sends_bind_remote [OF c]]
  show ?thesis using h c
    by (auto simp: handle_okay_def intro!: ensures_rules ensures_read sends_ready intro: b split: sum.splits if_splits option.splits)
qed

lemma sends_clse: "handle_clse p t st = Some r \<Longrightarrow> sends st0 st \<Longrightarrow> ensures (sends st0) r"
  by (auto simp: handle_clse_def intro!: ensures_rules ensures_read sends_close split: sum.splits if_splits option.splits)

lemma sends_wrte:
  assumes "handle_wrte smart p t st = Some r" "sends st0 st" "\<And>a p st. sends st0 st \<Longrightarrow> ensures_pair (sends st0) (smart a p st)"
  shows "ensures (sends st0) r"
  using assms(1,2)
  by (auto simp: handle_wrte_def intro!: ensures_rules ensures_read sends_ready_packet intro: ensuresD(2) [OF _ sends_enqueue] assms
      split: sum.splits if_splits option.splits)

lemma sends_handle_auth: "sends st0 st \<Longrightarrow> ensures (sends st0) (handle_auth env ok p t st)"
  unfolding handle_auth_def Let_def
  by (intro ensures_rules ensures_read ensures_bind(1) sends_upd_trans sends_auth sends_confirm)

text \<open>The packets that are sent in one step, and those among them that a transport gets.\<close>

definition same_call :: "apacket \<Rightarrow> apacket \<Rightarrow> bool" where
  "same_call p q \<longleftrightarrow> command (pmsg p) = command (pmsg q) \<and> arg0 (pmsg p) = arg0 (pmsg q) \<and> arg1 (pmsg p) = arg1 (pmsg q)"

lemma seal_same: "seal_packet p = Inr q \<Longrightarrow> same_call p q"
  using seal_command [of p q] by (simp add: same_call_def)

lemma sent_one: "send_packet p t st = Inr st' \<Longrightarrow> \<exists>q. seal_packet p = Inr q \<and> st' = st\<lparr>sent := sent st @ [(t, q)]\<rparr>"
  by (auto simp: send_packet_def bindE_eq_Inr split: if_splits)

lemma sync_sent_back:
  assumes "handle_packet env jdwp smart ok p t st = Some (Inr st')" and "is_sync p"
  shows "\<exists>as q bs. sent st' = sent st @ as @ (t, q) # bs \<and> same_call p q \<and> (\<forall>(u, r)\<in>set (as @ bs). \<not> is_sync r)"
proof (cases "arg0 (pmsg p) = 0")
  case False
  then have "bindE (send_packet p t st) (\<lambda>st. if HOST env then send_connect env t st else Inr st) = Inr st'"
    using assms by (simp add: handle_packet_def is_sync_def)
  then obtain st1 where st1: "send_packet p t st = Inr st1" "(if HOST env then send_connect env t st1 else Inr st1) = Inr st'"
    unfolding bindE_eq_Inr by blast
  obtain q where q: "seal_packet p = Inr q" "st1 = st\<lparr>sent := sent st @ [(t, q)]\<rparr>" using sent_one [OF st1(1)] by blast
  have "ensures (sends st1) (if HOST env then send_connect env t st1 else Inr st1)" by (intro ens sends_refl)
  from ensuresD(1) [OF st1(2) this] obtain new where "sent st' = sent st1 @ new" "\<forall>(u, r)\<in>set new. \<not> is_sync r" by (auto simp: sends_def)
  then show ?thesis using seal_same [OF q(1)] q(2) by (intro exI [of _ "[]"] exI [of _ q] exI [of _ new]) simp
next
  case True
  then have "map_option (\<lambda>r. bindE r (send_packet p t)) (go_offline t st) = Some (Inr st')"
    using assms by (cases "upd_trans t (\<lambda>x. x\<lparr>connection_state := CS_OFFLINE\<rparr>) st") (simp_all add: handle_packet_def is_sync_def go_offline_def)
  then obtain st1 where s1: "go_offline t st = Some (Inr st1)" "send_packet p t st1 = Inr st'" by (auto simp: bindE_eq_Inr)
  obtain q where st1: "go_offline t st = Some (Inr st1)" "seal_packet p = Inr q" "st' = st1\<lparr>sent := sent st1 @ [(t, q)]\<rparr>"
    using s1(1) sent_one [OF s1(2)] by blast
  obtain new where "sent st1 = sent st @ new" "\<forall>(u, r)\<in>set new. \<not> is_sync r"
    using ensuresD(1) [OF refl sends_go_offline [OF st1(1) sends_refl]] by (auto simp: sends_def)
  then show ?thesis using seal_same [OF st1(2)] st1(3) by (intro exI [of _ new] exI [of _ q] exI [of _ "[]"]) simp
qed

lemma sends_cnxn:
  assumes h: "handle_packet env jdwp smart ok p t st = Some r" and c: "command (pmsg p) = A_CNXN"
  shows "ensures (sends st) r"
proof (cases "trans_at st t")
  case (Inl e)
  then have "r = Inl e" using h c by (simp add: handle_packet_def a_commands)
  then show ?thesis by (simp add: ensures_rules)
next
  case (Inr x)
  let ?rest = "\<lambda>st. bindE (parse_banner (pdata p) t st) (\<lambda>st. if HOST env \<or> \<not> auth_enabled env then
      bindE (handle_online t st) (\<lambda>st. if \<not> HOST env then send_connect env t st else Inr st) else send_auth_request env t st)"
  obtain r' where r: "ensures (sends st) r'" "r = bindE r' ?rest"
  proof (cases "connection_state x = CS_OFFLINE")
    case True
    then have "r = bindE (Inr st) ?rest" using h c Inr by (simp add: handle_packet_def a_commands)
    then show ?thesis using that ensures_rules(2) [of "sends st" st] by simp
  next
    case False
    then obtain r' where "go_offline t st = Some r'" "r = bindE r' ?rest"
      using h c Inr by (auto simp: handle_packet_def a_commands go_offline_def)
    then show ?thesis using that sends_go_offline [OF _ sends_refl] by blast
  qed
  show ?thesis unfolding r(2) handle_online_def
    by (rule ensures_bind [OF r(1)], rule ensures_bind, erule sends_banner) (intro ens ensures_bind(1); assumption)
qed

lemma other_packet_sends:
  assumes smart: "\<forall>a p st. ensures_pair (sends st) (smart a p st)" and jdwp: "\<forall>b st. ensures_pair (sends st) (jdwp b st)"
    and h: "handle_packet env jdwp smart ok p t st = Some (Inr st')" and p: "\<not> is_sync p"
  shows "sends st st'"
proof -
  have s: "\<And>a p st1. sends st st1 \<Longrightarrow> ensures_pair (sends st) (smart a p st1)"
    using smart unfolding ensures_pair_def by (metis sends_trans)
  have j: "\<And>b st1. sends st st1 \<Longrightarrow> ensures_pair (sends st) (jdwp b st1)"
    using jdwp unfolding ensures_pair_def by (metis sends_trans)
  have o: "handle_open env jdwp p t st = Inr st' \<Longrightarrow> sends st st'" by (erule ensuresD(1)) (rule sends_open [OF sends_refl], rule j)
  have a: "handle_auth env ok p t st = Inr st' \<Longrightarrow> sends st st'" using ensuresD(1) [OF _ sends_handle_auth [OF sends_refl]] by blast
  have "ensures (sends st) (Inr st')"
    using h p o a sends_cnxn [OF h] by (auto simp: handle_packet_def is_sync_def intro: ensures_rules(2)
        sends_okay [OF _ sends_refl] sends_clse [OF _ sends_refl] sends_wrte [OF _ sends_refl s] split: if_splits)
  then show ?thesis by (simp add: ensures_def)
qed

section \<open>Other events\<close>

lemma drain_packet_sent: "drain_packet fd p st = (r, p', st') \<Longrightarrow> sent st' = sent st"
proof (induction fd p st arbitrary: r p' st' rule: drain_packet.induct)
  case (1 fd p st)
  obtain k e st1 where w: "adb_write fd (pbytes p) st = (k, e, st1)" by (metis prod_cases3)
  show ?case
    using "1.prems" "1.IH" [OF _ w [symmetric] refl] adb_write_sent [OF w]
    by (subst (asm) drain_packet.simps) (auto simp: w split: if_splits)
qed

lemma drain_queue_sent: "drain_queue fd ps st = (r, ps', st') \<Longrightarrow> sent st' = sent st"
proof (induction fd ps st arbitrary: r ps' st' rule: drain_queue.induct)
  case (2 fd p ps st)
  obtain k p1 st1 where w: "drain_packet fd p st = (k, p1, st1)" by (metis prod_cases3)
  show ?case using "2.prems" "2.IH" [OF w [symmetric] refl] drain_packet_sent [OF w] by (auto simp: w split: if_splits)
qed simp

lemma read_avail_sent: "sent (snd (snd (snd (read_avail fd n acc r0 st)))) = sent st"
proof (induction fd n acc r0 st rule: read_avail.induct)
  case (1 fd n acc r0 st)
  obtain r e bs st1 where w: "adb_read fd n st = (r, e, bs, st1)" by (metis prod_cases4)
  have m: "sent st1 = sent st" using w by (auto simp: adb_read_def split: list.splits rd_ev.splits)
  show ?case
    using "1.IH" [OF _ w [symmetric] refl refl] m by (subst read_avail.simps) (auto simp: w)
qed

lemma sends_writable: "sends st0 st \<Longrightarrow> ensures_pair (sends st0) (socket_writable a fd st)"
  unfolding socket_writable_def
  apply (rule ensures_read, simp only: split_beta, rule ensures_bind, rule sends_upd_sock)
   apply (metis sends_same drain_queue_sent prod.collapse)
  by (auto split: drained.split simp: ensures_pair_def bindE_eq_Inr intro: ensuresD(1) [OF _ sends_close] ensuresD(1) [OF _ sends_ready]
      ensuresD(1) [OF _ sends_fd(3)])

lemma sends_readable:
  fixes st0 :: "'z adbst_scheme"
  assumes "sends st0 st" and smart: "\<And>a p st. sends st0 st \<Longrightarrow> ensures_pair (sends st0) (smart a p st)"
  shows "ensures (sends st0) (socket_readable smart a fd st)"
proof -
  obtain bs r eof st1 where st1: "read_avail fd MAX_PAYLOAD [] 0 st = (bs, r, eof, st1)" by (metis prod_cases4)
  have c: "sends st0 st1" using sends_same [OF read_avail_sent assms(1), of fd MAX_PAYLOAD "[]" 0] by (simp add: st1)
  have tri: "ensures (sends st0) (bindE q f)"
    if "ensures (\<lambda>(_, _, st2). sends st0 st2) q" "\<And>k b st2. sends st0 st2 \<Longrightarrow> ensures (sends st0) (f (k, b, st2))"
    for q and f :: "int \<times> bool \<times> 'z adbst_scheme \<Rightarrow> 'z adbst_scheme outcome"
    using that unfolding ensures_def bindE_eq_Inr by (metis (no_types, lifting) case_prod_conv prod_cases3)
  have enq: "ensures (\<lambda>(_, _, st2). sends st0 st2) (bindE (socket_enqueue smart b p st1) (\<lambda>(r, st). if r < 0 then Inr (r, True, st)
      else if 0 < r then bindE (fdevent_del a FDE_READ st) (\<lambda>st. Inr (r, False, st)) else Inr (r, False, st)))" for b p
    unfolding ensures_def bindE_eq_Inr
    using ensuresD(2) [OF _ sends_enqueue [OF c smart]] ensuresD(1) [OF _ sends_fd(3)]
    by (fastforce split: if_splits simp: bindE_eq_Inr)
  show ?thesis
    unfolding socket_readable_def st1 split_conv Let_def
    by (rule ensures_read, rule tri) (auto intro!: ens ensures_read simp: c enq)
qed

lemma event_sends:
  assumes smart: "\<forall>a p st. ensures_pair (sends st) (smart a p st)" and step: "dev_step env jdwp smart st ev st'"
    and ev: "\<forall>p t ok. ev \<noteq> Got_packet p t ok"
  shows "sends st st'"
  using step
proof cases
  case (reply rep evs)
  have "ensures (sends st) (adb_auth_event env rep evs st)"
    unfolding adb_auth_event_def by (auto intro!: ens ensures_bind(1) [OF ensures_read(1)] split: option.split)
  then show ?thesis using ensuresD(1) [OF reply(2)] by blast
next
  case (connects s)
  have "ensures (sends st) (adb_auth_listener env s st)"
    unfolding adb_auth_listener_def Let_def by (intro ensures_rules sends_auth) simp_all
  then show ?thesis using ensuresD(1) [OF connects(2)] by blast
next
  case (event fd evs a)
  have s: "\<And>a p st1. sends st st1 \<Longrightarrow> ensures_pair (sends st) (smart a p st1)"
    using smart unfolding ensures_pair_def by (metis sends_trans)
  have "ensures (sends st) (local_socket_event_func smart fd evs a st)"
    unfolding local_socket_event_func_def
    by (rule ensures_from_pair) (auto intro!: ens sends_writable sends_readable s)
  then show ?thesis using ensuresD(1) [OF event(2)] by blast
qed (use ev in blast)

end
