(* ===== verification/Data_Pump.thy ===== *)
theory Data_Pump
  imports Sent_Packets
begin

text \<open>
  The two threads of a transport (\<open>output_thread\<close> and \<open>input_thread\<close> of \<open>transport.cpp\<close>) and the socket pair between them and the event loop. The output thread reads
  packets from the other machine and hands them to the event loop, the input thread takes packets from the event loop and writes them to the other machine;
  \<open>SYNC\<close> packets, which the event loop sends back, tell the input thread when the transport is on line.

  The packets on their way are two queues: \<open>up\<close> from the output thread to the event loop, \<open>down\<close> from there to the input thread. What \<open>read_from_remote\<close> returns is a
  script. The steps of the threads and of the event loop follow one another in any order. How a thread ends is \<open>thread_exit\<close> of the transports.

  There are two systems of steps. In \<open>link_step\<close> the event loop is that of the program: a packet is handled by \<open>handle_packet\<close>, other events by their functions. In
  \<open>pump_step\<close> it is only known by what it sends; \<open>link_run_refines\<close> shows that every run of the first is one of the second.
\<close>

section \<open>The threads\<close>

datatype out_pc = O_Start | O_Pump | O_End
datatype in_pc = I_Run bool | I_End

record pump =
  sync_token :: u32
  up :: "apacket list"
  down :: "apacket list"
  from_remote :: "apacket option list"
  to_remote :: "apacket list"
  out_at :: out_pc
  in_at :: in_pc

definition sync_packet :: "u32 \<Rightarrow> u32 \<Rightarrow> apacket" where
  "sync_packet on tok =
     (let p = get_apacket [] in p\<lparr>pmsg := (pmsg p)\<lparr>command := A_SYNC, arg0 := on, arg1 := tok, magic := A_SYNC XOR 0xffffffff\<rparr>\<rparr>)"

text \<open>\<open>ok\<close> says whether \<open>write_packet\<close> succeeds.\<close>

definition output_start :: "bool \<Rightarrow> pump \<Rightarrow> pump" where
  "output_start ok s =
     (let s = s\<lparr>sync_token := sync_token s + 1\<rparr> in
      if ok then s\<lparr>up := up s @ [sync_packet 1 (sync_token s)], out_at := O_Pump\<rparr> else s\<lparr>out_at := O_End\<rparr>)"

definition output_turn :: "bool \<Rightarrow> pump \<Rightarrow> pump" where
  "output_turn ok s =
     (case from_remote s of
        [] \<Rightarrow> s
      | Some p # ps \<Rightarrow>
          let s = s\<lparr>from_remote := ps\<rparr> in if ok then s\<lparr>up := up s @ [p]\<rparr> else s\<lparr>out_at := O_End\<rparr>
      | None # ps \<Rightarrow>
          let s = s\<lparr>from_remote := ps, out_at := O_End\<rparr> in if ok then s\<lparr>up := up s @ [sync_packet 0 0]\<rparr> else s)"

definition input_packet :: "apacket \<Rightarrow> bool \<Rightarrow> pump \<Rightarrow> pump" where
  "input_packet p act s =
     (if command (pmsg p) = A_SYNC then
        if arg0 (pmsg p) = 0 then s\<lparr>in_at := I_End\<rparr>
        else if arg1 (pmsg p) = sync_token s then s\<lparr>in_at := I_Run True\<rparr>
        else s
      else if act then s\<lparr>to_remote := to_remote s @ [p]\<rparr>
      else s)"

definition input_turn :: "pump \<Rightarrow> pump" where
  "input_turn s =
     (case (in_at s, down s) of
        (I_Run act, p # ps) \<Rightarrow> input_packet p act (s\<lparr>down := ps\<rparr>)
      | _ \<Rightarrow> s)"

section \<open>All together\<close>

definition offline :: "apacket \<Rightarrow> bool" where "offline p \<longleftrightarrow> is_sync p \<and> arg0 (pmsg p) = 0"
definition switches_on :: "u32 \<Rightarrow> apacket \<Rightarrow> bool" where "switches_on tok p \<longleftrightarrow> is_sync p \<and> arg0 (pmsg p) \<noteq> 0 \<and> arg1 (pmsg p) = tok"

text \<open>
  What the event loop sends while it handles a packet: a \<open>SYNC\<close> is sent back, other packets that it sends are no \<open>SYNC\<close>. That \<open>handle_packet\<close> does so is \<open>handle_answers\<close> below.
\<close>

definition answers :: "apacket \<Rightarrow> apacket list \<Rightarrow> bool" where
  "answers p qs \<longleftrightarrow>
     (if is_sync p then \<exists>as q bs. qs = as @ q # bs \<and> same_call p q \<and> (\<forall>r\<in>set (as @ bs). \<not> is_sync r) else \<forall>r\<in>set qs. \<not> is_sync r)"

text \<open>A step of one of the threads; \<open>broken\<close> steps are those in which the socket pair fails.\<close>

inductive thread_step :: "bool \<Rightarrow> pump \<Rightarrow> pump \<Rightarrow> bool" for broken where
  start: "out_at s = O_Start \<Longrightarrow> ok \<or> broken \<Longrightarrow> thread_step broken s (output_start ok s)"
| pump: "out_at s = O_Pump \<Longrightarrow> ok \<or> broken \<Longrightarrow> thread_step broken s (output_turn ok s)"
| input: "thread_step broken s (input_turn s)"
| input_fails: "broken \<Longrightarrow> thread_step broken s (s\<lparr>in_at := I_End\<rparr>)"

text \<open>One step, with the packets that the event loop sends in it.\<close>

inductive pump_step :: "bool \<Rightarrow> pump \<Rightarrow> apacket list \<Rightarrow> pump \<Rightarrow> bool" for broken where
  thread: "thread_step broken s s' \<Longrightarrow> pump_step broken s [] s'"
| handle: "up s = p # ps \<Longrightarrow> answers p qs \<Longrightarrow> pump_step broken s qs (s\<lparr>up := ps, down := down s @ qs\<rparr>)"
| send: "\<forall>q\<in>set qs. \<not> is_sync q \<Longrightarrow> pump_step broken s qs (s\<lparr>down := down s @ qs\<rparr>)"

inductive pump_run :: "bool \<Rightarrow> pump \<Rightarrow> apacket list \<Rightarrow> pump \<Rightarrow> bool" for broken where
  none: "pump_run broken s [] s"
| more: "pump_run broken s ps s' \<Longrightarrow> pump_step broken s' qs s'' \<Longrightarrow> pump_run broken s (ps @ qs) s''"

definition fresh_pump :: "u32 \<Rightarrow> apacket option list \<Rightarrow> pump" where
  "fresh_pump tok script = \<lparr>sync_token = tok, up = [], down = [], from_remote = script, to_remote = [], out_at = O_Start, in_at = I_Run False\<rparr>"

lemma sync_packet_sel [simp]:
  "is_sync (sync_packet on tok)" "arg0 (pmsg (sync_packet on tok)) = on" "arg1 (pmsg (sync_packet on tok)) = tok"
  by (simp_all add: is_sync_def sync_packet_def Let_def)

section \<open>What reaches the other machine\<close>

text \<open>The packets between the first \<open>SYNC\<close> for on line and the first one for off line.\<close>

definition window :: "u32 \<Rightarrow> apacket list \<Rightarrow> apacket list" where
  "window tok ps = filter (\<lambda>p. \<not> is_sync p) (dropWhile (\<lambda>p. \<not> switches_on tok p) (takeWhile (\<lambda>p. \<not> offline p) ps))"

text \<open>\<open>ps\<close>: what the event loop has sent so far; \<open>ds\<close>: the part that the input thread has read.\<close>

definition pump_inv :: "apacket list \<Rightarrow> pump \<Rightarrow> bool" where
  "pump_inv ps s \<longleftrightarrow>
     (\<exists>ds. ps = ds @ down s \<and> to_remote s = window (sync_token s) ds \<and>
       (\<forall>b. in_at s = I_Run b \<longrightarrow> (\<forall>p\<in>set ds. \<not> offline p) \<and> (b \<longleftrightarrow> (\<exists>p\<in>set ds. switches_on (sync_token s) p))) \<and>
       (out_at s = O_Start \<longrightarrow> (\<forall>p\<in>set (ps @ up s). \<not> is_sync p)))"

lemma window_no_sync: "\<forall>p\<in>set ds. \<not> is_sync p \<Longrightarrow> window tok ds = []"
proof -
  assume "\<forall>p\<in>set ds. \<not> is_sync p"
  then have "dropWhile (\<lambda>p. \<not> switches_on tok p) (takeWhile (\<lambda>p. \<not> offline p) ds) = []"
    by (auto simp: dropWhile_eq_Nil_conv switches_on_def dest: set_takeWhileD)
  then show ?thesis unfolding window_def by (simp only: filter.simps)
qed

lemma window_snoc:
  assumes "\<forall>p\<in>set ds. \<not> offline p"
  shows "window tok (ds @ [p]) = window tok ds @ (if \<not> is_sync p \<and> (\<exists>q\<in>set ds. switches_on tok q) then [p] else [])"
proof -
  have t: "takeWhile (\<lambda>p. \<not> offline p) (ds @ [p]) = ds @ (if offline p then [] else [p])" "takeWhile (\<lambda>p. \<not> offline p) ds = ds"
    using assms by (auto simp: takeWhile_append2 takeWhile_eq_all_conv)
  show ?thesis
  proof (cases "\<exists>q\<in>set ds. switches_on tok q")
    case True
    then show ?thesis unfolding window_def t using dropWhile_append1 [of _ ds "\<lambda>p. \<not> switches_on tok p"] by (auto simp: offline_def)
  next
    case False
    then have d: "dropWhile (\<lambda>p. \<not> switches_on tok p) (ds @ ys) = dropWhile (\<lambda>p. \<not> switches_on tok p) ys" for ys
      by (intro dropWhile_append2) blast
    have "window tok ds = []" unfolding window_def t using d [of "[]"] by (simp only: append_Nil2 dropWhile.simps filter.simps)
    moreover have "window tok (ds @ [p]) = []" unfolding window_def t(1) d by (auto simp: switches_on_def)
    ultimately show ?thesis using False by simp
  qed
qed

lemma pump_inv_thread:
  assumes "pump_inv ps s" and "thread_step broken s s'"
  shows "pump_inv ps s'"
proof -
  obtain ds where i: "ps = ds @ down s" "to_remote s = window (sync_token s) ds"
    "\<forall>b. in_at s = I_Run b \<longrightarrow> (\<forall>p\<in>set ds. \<not> offline p) \<and> (b \<longleftrightarrow> (\<exists>p\<in>set ds. switches_on (sync_token s) p))"
    "out_at s = O_Start \<longrightarrow> (\<forall>p\<in>set (ps @ up s). \<not> is_sync p)"
    using assms(1) unfolding pump_inv_def by blast
  from assms(2) show ?thesis
  proof (cases rule: thread_step.cases)
    case (start ok)
    then have n: "\<forall>p\<in>set ds. \<not> is_sync p" using i(1,4) by simp
    then have "window tok ds = []" "\<not> (\<exists>p\<in>set ds. switches_on tok p)" for tok using window_no_sync by (auto simp: switches_on_def)
    then show ?thesis using start i by (auto simp: pump_inv_def output_start_def Let_def)
  next
    case (pump ok)
    have "pump_inv ps (output_turn ok s)" using i pump(2)
      unfolding pump_inv_def output_turn_def by (intro exI [of _ ds]) (auto simp: Let_def split: list.splits option.splits)
    then show ?thesis using pump by simp
  next
    case input
    show ?thesis
    proof (cases "in_at s")
      case (I_Run b)
      show ?thesis
      proof (cases "down s")
        case Nil
        then show ?thesis using input assms(1) by (simp add: input_turn_def I_Run)
      next
        case (Cons p ps')
        have w: "window (sync_token s) (ds @ [p]) = window (sync_token s) ds @ (if \<not> is_sync p \<and> b then [p] else [])"
          using window_snoc [of ds "sync_token s" p] i(3) I_Run by auto
        show ?thesis using input Cons i w I_Run unfolding pump_inv_def
          by (intro exI [of _ "ds @ [p]"]) (auto simp: input_turn_def input_packet_def is_sync_def offline_def switches_on_def)
      qed
    qed (use input assms(1) in \<open>simp add: input_turn_def\<close>)
  next
    case input_fails
    then show ?thesis using i by (auto simp: pump_inv_def)
  qed
qed

lemma pump_inv_step:
  assumes "pump_inv ps s" and "pump_step broken s qs s'"
  shows "pump_inv (ps @ qs) s'"
  using assms(2)
proof (cases rule: pump_step.cases)
  case thread
  then show ?thesis using pump_inv_thread [OF assms(1)] by simp
next
  case (handle p ps')
  obtain ds where i: "ps = ds @ down s" "to_remote s = window (sync_token s) ds"
    "\<forall>b. in_at s = I_Run b \<longrightarrow> (\<forall>p\<in>set ds. \<not> offline p) \<and> (b \<longleftrightarrow> (\<exists>p\<in>set ds. switches_on (sync_token s) p))"
    "out_at s = O_Start \<longrightarrow> (\<forall>p\<in>set (ps @ up s). \<not> is_sync p)"
    using assms(1) unfolding pump_inv_def by blast
  have "out_at s = O_Start \<longrightarrow> (\<forall>q\<in>set qs. \<not> is_sync q)" using handle i(4) by (auto simp: answers_def)
  then show ?thesis using handle i by (auto simp: pump_inv_def intro!: exI [of _ ds])
next
  case send
  then show ?thesis using assms(1) unfolding pump_inv_def by fastforce
qed

text \<open>
  C4: What reaches the other machine. However the two threads and the event loop run, the packets that the input thread has written to the other machine are those
  that the event loop sent, in order and each once, from the \<open>SYNC\<close> that put the transport on line to the first one that takes it off line, \<open>SYNC\<close> packets left out, as
  far as the input thread has come; the rest is still in the queue. Nothing is written before that or after.
\<close>

theorem pump_order:
  assumes "pump_run broken (fresh_pump tok script) ps s"
  shows "\<exists>ds. ps = ds @ down s \<and> to_remote s = window (sync_token s) ds"
proof -
  have "pump_inv ps s" using assms
  proof (induction s0 \<equiv> "fresh_pump tok script" ps s rule: pump_run.induct)
    case none
    then show ?case by (simp add: pump_inv_def fresh_pump_def window_def)
  next
    case more
    then show ?case using pump_inv_step by blast
  qed
  then show ?thesis unfolding pump_inv_def by blast
qed

section \<open>With the event loop of the program\<close>

text \<open>The packets for transport \<open>t\<close> that are sent between two states.\<close>

definition sent_to :: "addr \<Rightarrow> 'z sockst_scheme \<Rightarrow> 'z sockst_scheme \<Rightarrow> apacket list" where
  "sent_to t st st' = map snd (filter (\<lambda>(u, q). u = t) (drop (length (sent st)) (sent st')))"

text \<open>The threads of transport \<open>t\<close> and the event loop: it takes a packet of the output thread and handles it, or it handles another event.\<close>

inductive link_step ::
  "adbenv \<Rightarrow> (bool \<Rightarrow> 'z adbst_scheme \<Rightarrow> (addr \<times> 'z adbst_scheme) outcome)
     \<Rightarrow> (addr \<Rightarrow> apacket \<Rightarrow> 'z adbst_scheme \<Rightarrow> (int \<times> 'z adbst_scheme) outcome) \<Rightarrow> addr \<Rightarrow> bool
     \<Rightarrow> pump \<times> 'z adbst_scheme \<Rightarrow> apacket list \<Rightarrow> pump \<times> 'z adbst_scheme \<Rightarrow> bool" for env jdwp smart t broken where
  thread: "thread_step broken s s' \<Longrightarrow> link_step env jdwp smart t broken (s, st) [] (s', st)"
| packet: "up s = p # ps \<Longrightarrow> handle_packet env jdwp smart ok p t st = Some (Inr st') \<Longrightarrow>
    link_step env jdwp smart t broken (s, st) (sent_to t st st') (s\<lparr>up := ps, down := down s @ sent_to t st st'\<rparr>, st')"
| event: "dev_step env jdwp smart st ev st' \<Longrightarrow> \<forall>p ok. ev \<noteq> Got_packet p t ok \<Longrightarrow>
    link_step env jdwp smart t broken (s, st) (sent_to t st st') (s\<lparr>down := down s @ sent_to t st st'\<rparr>, st')"

inductive link_run ::
  "adbenv \<Rightarrow> (bool \<Rightarrow> 'z adbst_scheme \<Rightarrow> (addr \<times> 'z adbst_scheme) outcome)
     \<Rightarrow> (addr \<Rightarrow> apacket \<Rightarrow> 'z adbst_scheme \<Rightarrow> (int \<times> 'z adbst_scheme) outcome) \<Rightarrow> addr \<Rightarrow> bool
     \<Rightarrow> pump \<times> 'z adbst_scheme \<Rightarrow> apacket list \<Rightarrow> pump \<times> 'z adbst_scheme \<Rightarrow> bool" for env jdwp smart t broken where
  none: "link_run env jdwp smart t broken c [] c"
| more: "link_run env jdwp smart t broken c ps c' \<Longrightarrow> link_step env jdwp smart t broken c' qs c'' \<Longrightarrow> link_run env jdwp smart t broken c (ps @ qs) c''"

lemma sent_to_new: "sent st' = sent st @ new \<Longrightarrow> sent_to t st st' = map snd (filter (\<lambda>(u, q). u = t) new)"
  by (simp add: sent_to_def)

lemma sends_to: "sends st st' \<Longrightarrow> \<forall>q\<in>set (sent_to t st st'). \<not> is_sync q"
  by (fastforce simp: sends_def sent_to_new)

text \<open>\<open>handle_packet\<close> sends a \<open>SYNC\<close> of transport \<open>u\<close> back to \<open>u\<close>, and no other \<open>SYNC\<close>, as long as the functions of the smart sockets and the JDWP services send none.\<close>

lemma sync_answers:
  assumes "handle_packet env jdwp smart ok p u st = Some (Inr st')" and "is_sync p"
  shows "if u = t then answers p (sent_to t st st') else \<forall>q\<in>set (sent_to t st st'). \<not> is_sync q"
proof -
  obtain as q bs where new: "sent st' = sent st @ as @ (u, q) # bs" "same_call p q" "\<forall>(v, r)\<in>set (as @ bs). \<not> is_sync r"
    using sync_sent_back [OF assms] by blast
  let ?f = "\<lambda>xs. map snd (filter (\<lambda>(v, r). v = t) xs)"
  have "sent_to t st st' = ?f as @ (if u = t then [q] else []) @ ?f bs" using sent_to_new [OF new(1), of t] by simp
  moreover have "\<forall>r\<in>set (?f as @ ?f bs). \<not> is_sync r" using new(3) by auto
  ultimately have "if u = t then sent_to t st st' = ?f as @ q # ?f bs \<and> (\<forall>r\<in>set (?f as @ ?f bs). \<not> is_sync r)
      else \<forall>q\<in>set (sent_to t st st'). \<not> is_sync q" by simp
  then show ?thesis using assms(2) new(2) unfolding answers_def by (metis (no_types, lifting))
qed

lemma handle_answers:
  assumes "\<forall>a p st. ensures_pair (sends st) (smart a p st)" and "\<forall>b st. ensures_pair (sends st) (jdwp b st)"
    and "handle_packet env jdwp smart ok p t st = Some (Inr st')"
  shows "answers p (sent_to t st st')"
proof (cases "is_sync p")
  case True
  then show ?thesis using sync_answers [OF assms(3), of t] by simp
next
  case False
  then show ?thesis using sends_to [OF other_packet_sends [OF assms False]] by (simp add: answers_def)
qed

lemma link_step_refines:
  assumes smart: "\<forall>a p st. ensures_pair (sends st) (smart a p st)" and jdwp: "\<forall>b st. ensures_pair (sends st) (jdwp b st)"
    and step: "link_step env jdwp smart t broken (s, st) qs (s', st')"
  shows "pump_step broken s qs s'"
  using step
proof (cases rule: link_step.cases)
  case thread
  then show ?thesis by (simp add: pump_step.thread)
next
  case (packet p ps ok)
  then show ?thesis using pump_step.handle [OF packet(3) handle_answers [OF smart jdwp packet(4)]] by simp
next
  case (event ev)
  have "\<forall>q\<in>set (sent_to t st st'). \<not> is_sync q"
  proof (cases "\<exists>p u ok. ev = Got_packet p u ok")
    case True
    then obtain p u ok where ev: "ev = Got_packet p u ok" "u \<noteq> t" using event(4) by blast
    then have h: "handle_packet env jdwp smart ok p u st = Some (Inr st')" using event(3) by (auto elim: dev_step.cases)
    show ?thesis
    proof (cases "is_sync p")
      case True
      then show ?thesis using sync_answers [OF h True, of t] ev(2) by simp
    next
      case False
      then show ?thesis using sends_to [OF other_packet_sends [OF smart jdwp h False]] by blast
    qed
  next
    case False
    then show ?thesis using sends_to [OF event_sends [OF smart event(3)]] by blast
  qed
  then show ?thesis using event pump_step.send by blast
qed

lemma link_run_refines:
  assumes "\<forall>a p st. ensures_pair (sends st) (smart a p st)" and "\<forall>b st. ensures_pair (sends st) (jdwp b st)"
  shows "link_run env jdwp smart t broken c ps c' \<Longrightarrow> pump_run broken (fst c) ps (fst c')"
proof (induction rule: link_run.induct)
  case (more c ps c' qs c'')
  then show ?case using link_step_refines [OF assms, of env t broken "fst c'" "snd c'" qs "fst c''" "snd c''"] by (simp add: pump_run.more)
qed (rule pump_run.none)

section \<open>Shutting down\<close>

lemma same_offline: "same_call p q \<Longrightarrow> offline q = offline p"
  by (simp add: same_call_def offline_def is_sync_def)

text \<open>After the output thread has ended, the input thread has ended or a \<open>SYNC\<close> for off line is on its way to it.\<close>

definition ending :: "pump \<Rightarrow> bool" where
  "ending s \<longleftrightarrow> (out_at s = O_End \<longrightarrow> in_at s = I_End \<or> (\<exists>p\<in>set (up s @ down s). offline p))"

lemma ending_thread:
  assumes "thread_step False s s'" and "ending s"
  shows "ending s'"
  using assms(1)
proof (cases rule: thread_step.cases)
  case (pump ok)
  have "offline (sync_packet 0 0)" by (simp add: offline_def)
  then show ?thesis using pump by (auto simp: ending_def output_turn_def Let_def split: list.splits option.splits)
next
  case input
  then show ?thesis using assms(2)
    by (auto simp: ending_def input_turn_def input_packet_def offline_def is_sync_def split: in_pc.splits list.splits)
qed (use assms(2) in \<open>auto simp: ending_def output_start_def Let_def\<close>)

lemma ending_step:
  assumes "link_step env jdwp smart t False (s, st) qs (s', st')" and "ending s"
  shows "ending s'"
  using assms(1)
proof (cases rule: link_step.cases)
  case thread
  then show ?thesis using ending_thread [OF _ assms(2)] by simp
next
  case (packet p ps ok)
  have "\<exists>q\<in>set (sent_to t st st'). offline q" if "offline p"
  proof -
    have "is_sync p" using that by (simp add: offline_def)
    then have "answers p (sent_to t st st')" using sync_answers [OF packet(4), of t] by simp
    then obtain as q bs where "sent_to t st st' = as @ q # bs" "same_call p q" using \<open>is_sync p\<close> by (auto simp: answers_def)
    then show ?thesis using that same_offline by auto
  qed
  then show ?thesis using packet assms(2) by (auto simp: ending_def)
next
  case event
  then show ?thesis using assms(2) by (auto simp: ending_def)
qed

text \<open>
  C17: No thread is left behind. However the threads and the event loop of the program run, with \<open>handle_packet\<close> handling what the output thread hands on: when the output
  thread has ended and nothing is left in the queues, the input thread has ended too. The \<open>SYNC\<close> for off line that the output thread leaves is sent back
  by the event loop and always reaches the input thread, as long as the socket pair works.
\<close>

theorem pump_shuts_down:
  assumes "link_run env jdwp smart t False (fresh_pump tok script, st0) ps (s, st)" and "out_at s = O_End" and "up s = []" and "down s = []"
  shows "in_at s = I_End"
proof -
  have "ending (fst c')" if "link_run env jdwp smart t False c ps c'" "ending (fst c)" for c ps c'
    using that
  proof (induction rule: link_run.induct)
    case (more c ps c' qs c'')
    then show ?case using ending_step [of env jdwp smart t "fst c'" "snd c'" qs "fst c''" "snd c''"] by simp
  qed
  from this [OF assms(1)] show ?thesis using assms(2-4) by (simp add: ending_def fresh_pump_def)
qed

text \<open>A run in which one packet is sent and then the connection is lost.\<close>

definition data_packet :: apacket where
  "data_packet = (get_apacket [])\<lparr>pmsg := zero_msg\<lparr>command := A_WRTE\<rparr>\<rparr>"

lemma data_not_sync: "\<not> is_sync data_packet"
  by (simp add: data_packet_def is_sync_def a_commands)

lemma answers_sync: "is_sync p \<Longrightarrow> answers p [p]"
  by (auto simp: answers_def same_call_def intro!: exI [of _ "[]"])

lemmas thread_rules = pump_step.thread [OF thread_step.start] pump_step.thread [OF thread_step.pump] pump_step.thread [OF thread_step.input]

lemma sample_run:
  "pump_run False (fresh_pump 1 [None]) [sync_packet 1 2, data_packet, sync_packet 0 0]
     \<lparr>sync_token = 2, up = [], down = [], from_remote = [], to_remote = [data_packet], out_at = O_End, in_at = I_End\<rparr>"
proof -
  let ?s = "\<lambda>u d r m oa ia. \<lparr>sync_token = 2, up = u, down = d, from_remote = r, to_remote = m, out_at = oa, in_at = ia\<rparr>"
  let ?on = "sync_packet 1 2" and ?off = "sync_packet 0 0"
  have 1: "pump_step False (fresh_pump 1 [None]) [] (?s [?on] [] [None] [] O_Pump (I_Run False))"
    using thread_rules(1) [of "fresh_pump 1 [None]" True False] by (simp add: output_start_def fresh_pump_def Let_def)
  have 2: "pump_step False (?s [?on] [] [None] [] O_Pump (I_Run False)) [?on] (?s [] [?on] [None] [] O_Pump (I_Run False))"
    using pump_step.handle [of "?s [?on] [] [None] [] O_Pump (I_Run False)" ?on "[]" "[?on]" False] answers_sync [of ?on] by simp
  have 3: "pump_step False (?s [] [?on] [None] [] O_Pump (I_Run False)) [data_packet] (?s [] [?on, data_packet] [None] [] O_Pump (I_Run False))"
    using pump_step.send [of "[data_packet]" False "?s [] [?on] [None] [] O_Pump (I_Run False)"] data_not_sync by simp
  have 4: "pump_step False (?s [] [?on, data_packet] [None] [] O_Pump (I_Run False)) [] (?s [] [data_packet] [None] [] O_Pump (I_Run True))"
    using thread_rules(3) [of False "?s [] [?on, data_packet] [None] [] O_Pump (I_Run False)"] by (simp add: input_turn_def input_packet_def flip: is_sync_def)
  have 5: "pump_step False (?s [] [data_packet] [None] [] O_Pump (I_Run True)) [] (?s [] [] [None] [data_packet] O_Pump (I_Run True))"
    using thread_rules(3) [of False "?s [] [data_packet] [None] [] O_Pump (I_Run True)"] data_not_sync by (simp add: input_turn_def input_packet_def flip: is_sync_def)
  have 6: "pump_step False (?s [] [] [None] [data_packet] O_Pump (I_Run True)) [] (?s [?off] [] [] [data_packet] O_End (I_Run True))"
    using thread_rules(2) [of "?s [] [] [None] [data_packet] O_Pump (I_Run True)" True False] by (simp add: output_turn_def Let_def)
  have 7: "pump_step False (?s [?off] [] [] [data_packet] O_End (I_Run True)) [?off] (?s [] [?off] [] [data_packet] O_End (I_Run True))"
    using pump_step.handle [of "?s [?off] [] [] [data_packet] O_End (I_Run True)" ?off "[]" "[?off]" False] answers_sync [of ?off] by simp
  have 8: "pump_step False (?s [] [?off] [] [data_packet] O_End (I_Run True)) [] (?s [] [] [] [data_packet] O_End I_End)"
    using thread_rules(3) [of False "?s [] [?off] [] [data_packet] O_End (I_Run True)"] by (simp add: input_turn_def input_packet_def flip: is_sync_def)
  show ?thesis
    using pump_run.more [OF pump_run.more [OF pump_run.more [OF pump_run.more [OF pump_run.more [OF pump_run.more [OF pump_run.more [OF
      pump_run.more [OF pump_run.none 1] 2] 3] 4] 5] 6] 7] 8] by simp
qed

theorem pump_order_witness:
  "\<exists>s ps ds. pump_run False (fresh_pump 1 [None]) ps s \<and> ps = ds @ down s \<and> to_remote s = window (sync_token s) ds \<and> to_remote s = [data_packet]"
proof -
  obtain ds where "[sync_packet 1 2, data_packet, sync_packet 0 0] = ds @ [] \<and> [data_packet] = window 2 ds"
    using pump_order [OF sample_run] by auto
  then show ?thesis using sample_run by force
qed

section \<open>The event loop on \<open>SYNC\<close> packets\<close>


lemma sends_one:
  assumes "t \<noteq> NULL" and "unat (data_length (pmsg p)) \<le> length (pdata p)"
  shows "\<exists>q. send_packet p t st = Inr (st\<lparr>sent := sent st @ [(t, q)]\<rparr>) \<and> same_call p q"
  using assms by (auto simp: send_packet_def seal_packet_def payload_sum_def same_call_def)

lemma online_handled:
  assumes "t \<noteq> NULL" and "unat (data_length (pmsg p)) \<le> length (pdata p)" and "is_sync p" and "arg0 (pmsg p) \<noteq> 0" and "\<not> HOST env"
  shows "\<exists>q. handle_packet env jdwp smart ok p t st = Some (Inr (st\<lparr>sent := sent st @ [(t, q)]\<rparr>)) \<and> same_call p q"
  using sends_one [OF assms(1,2), of st] assms(3-5) by (auto simp: handle_packet_def is_sync_def)

lemma offline_handled:
  assumes "t \<noteq> NULL" and "unat (data_length (pmsg p)) \<le> length (pdata p)" and "offline p"
    and "sock_inv T {} st" and "t \<in> T" and "trans st t = Some x" and "plain_peers t st"
  shows "\<exists>st' q. handle_packet env jdwp smart ok p t st = Some (Inr st') \<and> same_call p q \<and> sent_to t st st' = [q] \<and>
    trans st' t = Some (x\<lparr>connection_state := CS_OFFLINE, online := False\<rparr>) \<and> (\<forall>a s. \<not> remote_on t st' a s)"
proof -
  define st1 where "st1 = st\<lparr>trans := (trans st)(t \<mapsto> x\<lparr>connection_state := CS_OFFLINE\<rparr>)\<rparr>"
  have u: "upd_trans t (\<lambda>x. x\<lparr>connection_state := CS_OFFLINE\<rparr>) st = Inr st1" using assms(6) by (simp add: upd_trans_def st1_def)
  have "sock_inv T {} st1" "trans st1 t = Some (x\<lparr>connection_state := CS_OFFLINE\<rparr>)" "plain_peers t st1"
    using assms(4,7) by (simp_all add: st1_def plain_peers_def remote_on_def)
  then obtain st2 where st2: "handle_offline t st1 = Some (Inr st2)" "sent st2 = sent st1" "\<forall>a s. \<not> remote_on t st2 a s"
    "trans st2 = (trans st1)(t \<mapsto> x\<lparr>connection_state := CS_OFFLINE, online := False\<rparr>)"
    using handle_offline_result [OF _ assms(5)] by (metis (no_types, lifting))
  obtain q where q: "send_packet p t st2 = Inr (st2\<lparr>sent := sent st2 @ [(t, q)]\<rparr>)" "same_call p q" using sends_one [OF assms(1,2)] by blast
  have "handle_packet env jdwp smart ok p t st = Some (Inr (st2\<lparr>sent := sent st2 @ [(t, q)]\<rparr>))"
    using assms(3) u st2(1) q(1) by (simp add: handle_packet_def offline_def is_sync_def)
  then show ?thesis using q(2) st2
    by (intro exI [of _ "st2\<lparr>sent := sent st2 @ [(t, q)]\<rparr>"] exI [of _ q]) (simp add: sent_to_def st1_def remote_on_def)
qed

lemma input_stops: "in_at s = I_Run b \<Longrightarrow> down s = [q] \<Longrightarrow> offline q \<Longrightarrow> input_turn s = s\<lparr>down := [], in_at := I_End\<rparr>"
  by (simp add: input_turn_def input_packet_def offline_def is_sync_def)

lemma input_switches: "in_at s = I_Run b \<Longrightarrow> down s = q # qs \<Longrightarrow> switches_on (sync_token s) q \<Longrightarrow> input_turn s = s\<lparr>down := qs, in_at := I_Run True\<rparr>"
  by (simp add: input_turn_def input_packet_def switches_on_def is_sync_def)

text \<open>A \<open>SYNC\<close> for off line on its way to the event loop ends the input thread.\<close>

lemma offline_ends_input:
  assumes "t \<noteq> NULL" and "unat (data_length (pmsg p)) \<le> length (pdata p)" and "offline p"
    and "sock_inv T {} st" and "t \<in> T" and "trans st t = Some x" and "plain_peers t st"
    and "up s = [p]" and "down s = []" and "in_at s = I_Run b"
  shows "\<exists>st' qs. link_run env jdwp smart t broken (s, st) qs (s\<lparr>up := [], in_at := I_End\<rparr>, st') \<and>
    trans st' t = Some (x\<lparr>connection_state := CS_OFFLINE, online := False\<rparr>) \<and> (\<forall>a s. \<not> remote_on t st' a s)"
proof -
  obtain st' q where h: "handle_packet env jdwp smart True p t st = Some (Inr st')" "same_call p q" "sent_to t st st' = [q]"
    and st': "trans st' t = Some (x\<lparr>connection_state := CS_OFFLINE, online := False\<rparr>)" "\<forall>a s. \<not> remote_on t st' a s"
    using offline_handled [OF assms(1-7)] by blast
  let ?s1 = "s\<lparr>up := [], down := [q]\<rparr>"
  have 1: "link_step env jdwp smart t broken (s, st) [q] (?s1, st')"
    using link_step.packet [OF assms(8) h(1), of broken] h(3) assms(9) by simp
  have "input_turn ?s1 = s\<lparr>up := [], in_at := I_End\<rparr>"
    using input_stops [of ?s1 b q] assms(3,9,10) same_offline [OF h(2)] by simp
  then have 2: "link_step env jdwp smart t broken (?s1, st') [] (s\<lparr>up := [], in_at := I_End\<rparr>, st')"
    using link_step.thread [OF thread_step.input [of broken ?s1]] by simp
  show ?thesis using link_run.more [OF link_run.more [OF link_run.none 1] 2] st' by auto
qed

lemma link_run_append:
  "link_run env jdwp smart t broken c' qs c'' \<Longrightarrow> link_run env jdwp smart t broken c ps c' \<Longrightarrow> link_run env jdwp smart t broken c (ps @ qs) c''"
proof (induction rule: link_run.induct)
  case (more c' qs c1 rs c2)
  then show ?case using link_run.more [of env jdwp smart t broken c "ps @ qs" c1 rs c2] by simp
qed simp

text \<open>The same run with the event loop of a device, whose transport 7 has one connection.\<close>

abbreviation "no_jdwp \<equiv> \<lambda>b st. Inr (0, st)"
abbreviation "no_smart \<equiv> \<lambda>a p st. Inr (0, st)"

lemma sample_link:
  "\<exists>s st ps. link_run sample_env no_jdwp no_smart 7 False (fresh_pump 1 [None], remote_sample) ps (s, st) \<and> out_at s = O_End \<and> up s = [] \<and> down s = []"
proof -
  let ?s = "\<lambda>u d r oa ia. \<lparr>sync_token = 2, up = u, down = d, from_remote = r, to_remote = [], out_at = oa, in_at = ia\<rparr>"
  let ?on = "sync_packet 1 2" and ?off = "sync_packet 0 0"
  let ?step = "link_step sample_env no_jdwp no_smart 7 False"
  have len: "unat (data_length (pmsg (sync_packet on tok))) \<le> length (pdata (sync_packet on tok))" for on tok
    by (simp add: sync_packet_def get_apacket_def zero_msg_def Let_def)
  obtain q where q: "handle_packet sample_env no_jdwp no_smart True ?on 7 remote_sample = Some (Inr (remote_sample\<lparr>sent := sent remote_sample @ [(7, q)]\<rparr>))"
    "same_call ?on q" using online_handled [of 7 ?on sample_env] len by (fastforce simp: sample_env_def)
  define st1 where "st1 = remote_sample\<lparr>sent := sent remote_sample @ [(7, q)]\<rparr>"
  have st1: "sock_inv {7} {} st1" "plain_peers 7 st1" "\<exists>x. trans st1 7 = Some x"
    using remote_inv remote_plain by (simp_all add: st1_def plain_peers_def remote_on_def)
  have sw: "switches_on 2 q" using q(2) by (simp add: switches_on_def same_call_def is_sync_def sync_packet_def Let_def)
  have 1: "?step (fresh_pump 1 [None], remote_sample) [] (?s [?on] [] [None] O_Pump (I_Run False), remote_sample)"
    using link_step.thread [OF thread_step.start [of "fresh_pump 1 [None]" True False]] by (simp add: output_start_def fresh_pump_def Let_def)
  have 2: "?step (?s [?on] [] [None] O_Pump (I_Run False), remote_sample) [q] (?s [] [q] [None] O_Pump (I_Run False), st1)"
    using link_step.packet [of "?s [?on] [] [None] O_Pump (I_Run False)", OF _ q(1), of "[]" False] by (simp add: sent_to_def st1_def)
  have 3: "?step (?s [] [q] [None] O_Pump (I_Run False), st1) [] (?s [] [] [None] O_Pump (I_Run True), st1)"
    using link_step.thread [OF thread_step.input [of False "?s [] [q] [None] O_Pump (I_Run False)"]]
      input_switches [of "?s [] [q] [None] O_Pump (I_Run False)" False q "[]"] sw by simp
  have 4: "?step (?s [] [] [None] O_Pump (I_Run True), st1) [] (?s [?off] [] [] O_End (I_Run True), st1)"
    using link_step.thread [OF thread_step.pump [of "?s [] [] [None] O_Pump (I_Run True)" True False]] by (simp add: output_turn_def Let_def)
  have r: "link_run sample_env no_jdwp no_smart 7 False (fresh_pump 1 [None], remote_sample) [q] (?s [?off] [] [] O_End (I_Run True), st1)"
    using link_run.more [OF link_run.more [OF link_run.more [OF link_run.more [OF link_run.none 1] 2] 3] 4] by simp
  from st1(3) obtain x where "trans st1 7 = Some x" by blast
  then obtain st' qs where "link_run sample_env no_jdwp no_smart 7 False (?s [?off] [] [] O_End (I_Run True), st1) qs (?s [] [] [] O_End I_End, st')"
    using offline_ends_input [of 7 ?off "{7}" st1 x "?s [?off] [] [] O_End (I_Run True)" True] st1 len by (fastforce simp: offline_def)
  from link_run_append [OF this r] show ?thesis by force
qed

theorem pump_shuts_down_witness:
  "\<exists>s st ps. link_run sample_env no_jdwp no_smart 7 False (fresh_pump 1 [None], remote_sample) ps (s, st) \<and> out_at s = O_End \<and> up s = [] \<and> down s = [] \<and> in_at s = I_End"
  using sample_link pump_shuts_down [of sample_env no_jdwp no_smart 7 1 "[None]" remote_sample] by blast





end
