(* ===== verification/Start_Up.thy ===== *)
theory Start_Up
  imports Jdwp_Props Command_Line_Props Usb_Windows_Props
begin

text \<open>
  Starting: \<open>adb_main\<close> of \<open>adb.cpp\<close> up to the event loop, on the host and on the device, with \<open>launch_server\<close> for Windows and \<open>init_transport_registration\<close>. On the host
  the vendors, the keys and the socket for clients are set up; on the device the daemon gives up its privileges, unless the properties of the system say otherwise.

  The results of system calls are arguments; the threads that \<open>usb_init\<close> and \<open>local_init\<close> start are recorded in the state of the process.
\<close>

section \<open>Starting the server\<close>

definition init_transport_registration :: "fdenv \<Rightarrow> addr \<Rightarrow> (int \<times> int) option \<Rightarrow> 'z fdstate_scheme \<Rightarrow> 'z fdstate_scheme outcome" where
  "init_transport_registration env fde pair st =
     (case pair of
        None \<Rightarrow> Inl (Fatal ''cannot open transport registration socketpair'')
      | Some (snd_fd, recv_fd) \<Rightarrow>
          bindE (fdevent_install env fde recv_fd Transport_registration_func NULL st) (fdevent_set fde FDE_READ))"

definition build_local_name :: "nat \<Rightarrow> int \<Rightarrow> string outcome" where
  "build_local_name n sport = sntext n (''tcp:'' @ fmt_d sport)"

text \<open>
  \<open>launch_server\<close> on Windows: its result, the command line of the new process, and the handles that are open in the end. \<open>reply\<close> is what \<open>ReadFile\<close> returns.
\<close>

datatype win_handle = Pipe_read | Pipe_write | H_process | H_thread

definition launch_server_win :: "bool \<Rightarrow> bool \<Rightarrow> string option \<Rightarrow> int \<Rightarrow> int \<times> string option \<times> win_handle list" where
  "launch_server_win pipe_ok process_ok reply sport =
     (if \<not> pipe_ok then (- 1, None, [])
      else
        let open_hs = [Pipe_read, Pipe_write];
            cmd = ''adb fork-server server'';
            open_hs = (if process_ok then open_hs @ [H_process, H_thread] else open_hs);
            open_hs = remove1 Pipe_write open_hs in
        if \<not> process_ok then (- 1, None, remove1 Pipe_read open_hs)
        else
          let open_hs = remove1 H_process open_hs;
              open_hs = remove1 H_thread open_hs;
              open_hs = remove1 Pipe_read open_hs
          in (case reply of
                None \<Rightarrow> (- 1, Some cmd, open_hs)
              | Some r \<Rightarrow> (if r \<noteq> [CHR ''O'', CHR ''K'', CHR 0x0A] then - 1 else 0, Some cmd, open_hs)))"

text \<open>The server: the vendors, the keys, the socket for clients. \<open>file\<close> is the content of a file, \<open>bad\<close> an error number left over.\<close>

definition adb_main_host ::
  "fdenv \<Rightarrow> (string \<Rightarrow> int) \<Rightarrow> addr \<Rightarrow> (int \<times> int) option \<Rightarrow> addr \<Rightarrow> keyenv \<Rightarrow> (string \<Rightarrow> string option) \<Rightarrow> bool \<Rightarrow> int
     \<Rightarrow> keyst \<Rightarrow> 'z lsnst_scheme \<Rightarrow> (int list \<times> keyst \<times> 'z lsnst_scheme) outcome option" where
  "adb_main_host env sfds fde pair new kenv file bad sport kst st =
     bindO (Some (init_transport_registration env fde pair st)) (\<lambda>st.
     bindO (Some (usb_vendors_init (kgetenv kenv ''ANDROID_SDK_HOME'') (profile_dir kenv) file bad)) (\<lambda>vendors.
     bindO (Some (adb_auth_init_host kenv kst)) (\<lambda>kst.
     bindO (Some (build_local_name 30 sport)) (\<lambda>name.
     bindO (install_listener env sfds new name ''*smartsocket*'' NULL False st) (\<lambda>(c, st).
       Some (if c \<noteq> INSTALL_STATUS_OK then Inl (Fatal ''exit'') else Inr (vendors, kst, st)))))))"

section \<open>Privileges of the daemon\<close>

text \<open>What the daemon gets from the system: properties, the numbers of users and groups (Android's \<open>AID_\<close> constants), the results of the calls.\<close>

datatype drop_result = Dropped | Drop_einval | Drop_failed

record adbd_env =
  allow_adbd_root :: bool
  sysprop :: "string \<Rightarrow> string \<Rightarrow> string"
  cap_last :: nat
  CAP_SETUID :: nat
  CAP_SETGID :: nat
  capbset_drop :: "nat \<Rightarrow> drop_result"
  AID_SHELL :: nat
  AID_ADB :: nat
  AID_LOG :: nat
  AID_INPUT :: nat
  AID_INET :: nat
  AID_GRAPHICS :: nat
  AID_NET_BT :: nat
  AID_NET_BT_ADMIN :: nat
  AID_SDCARD_R :: nat
  AID_SDCARD_RW :: nat
  AID_MOUNT :: nat
  AID_NET_BW_STATS :: nat
  setgroups_ok :: bool
  setgid_ok :: bool
  setuid_ok :: bool
  root_seclabel :: "string option"
  selinux_enabled :: bool
  setcon_ok :: bool
  usb_present :: bool

record proc =
  p_uid :: nat
  p_gid :: nat
  p_groups :: "nat list"
  p_caps :: "nat set"
  p_label :: "string option"
  p_usb :: bool
  p_tcp :: "int option"

text \<open>The loop over the capabilities that the kernel knows.\<close>

function drop_caps :: "adbd_env \<Rightarrow> nat \<Rightarrow> proc \<Rightarrow> proc outcome" where
  "drop_caps env i pr =
     (if i > cap_last env then Inr pr
      else if i = CAP_SETUID env \<or> i = CAP_SETGID env then drop_caps env (i + 1) pr
      else
        (case capbset_drop env i of
           Dropped \<Rightarrow> drop_caps env (i + 1) (pr\<lparr>p_caps := p_caps pr - {i}\<rparr>)
         | Drop_einval \<Rightarrow> drop_caps env (i + 1) pr
         | Drop_failed \<Rightarrow> Inl (Fatal ''exit'')))"
  by pat_completeness auto

termination drop_caps
  by (relation "measure (\<lambda>(env, i, pr). Suc (cap_last env) - i)") auto

declare drop_caps.simps [simp del]

definition drop_capabilities_bounding_set_if_needed :: "adbd_env \<Rightarrow> proc \<Rightarrow> proc outcome" where
  "drop_capabilities_bounding_set_if_needed env pr =
     (if allow_adbd_root env \<and> sysprop env ''ro.debuggable'' [] = ''1'' then Inr pr else drop_caps env 0 pr)"

definition should_drop_privileges :: "adbd_env \<Rightarrow> bool" where
  "should_drop_privileges env =
     (if \<not> allow_adbd_root env then True
      else
        let secure = False in
        if sysprop env ''ro.kernel.qemu'' [] \<noteq> ''1'' then
          if sysprop env ''ro.secure'' ''1'' = ''1'' then
            let secure = True in
            if sysprop env ''ro.debuggable'' [] = ''1'' then
              if sysprop env ''service.adb.root'' [] = ''1'' then False else secure
            else secure
          else secure
        else secure)"

text \<open>The array \<open>groups\<close>.\<close>

definition adb_groups :: "adbd_env \<Rightarrow> nat list" where
  "adb_groups env =
     [AID_ADB env, AID_LOG env, AID_INPUT env, AID_INET env, AID_GRAPHICS env, AID_NET_BT env, AID_NET_BT_ADMIN env,
      AID_SDCARD_R env, AID_SDCARD_RW env, AID_MOUNT env, AID_NET_BW_STATS env]"

definition drop_privileges :: "adbd_env \<Rightarrow> proc \<Rightarrow> proc outcome" where
  "drop_privileges env pr =
     bindE (drop_capabilities_bounding_set_if_needed env pr) (\<lambda>pr.
       if \<not> setgroups_ok env then Inl (Fatal ''exit'')
       else
         let pr = pr\<lparr>p_groups := adb_groups env\<rparr> in
         if \<not> setgid_ok env then Inl (Fatal ''exit'')
         else
           let pr = pr\<lparr>p_gid := AID_SHELL env\<rparr> in
           if \<not> setuid_ok env then Inl (Fatal ''exit'') else Inr (pr\<lparr>p_uid := AID_SHELL env\<rparr>))"

text \<open>The TCP port to listen on, if any.\<close>

definition adbd_port :: "adbd_env \<Rightarrow> int option" where
  "adbd_port env =
     (let v = sysprop env ''service.adb.tcp.port'' [];
          v = (if v = [] then sysprop env ''persist.adb.tcp.port'' [] else v)
      in case sscanf_d v of
           (n, Some port) \<Rightarrow> if n = 1 \<and> port > 0 then Some port else if usb_present env then None else Some DEFAULT_ADB_LOCAL_TRANSPORT_PORT
         | (n, None) \<Rightarrow> if usb_present env then None else Some DEFAULT_ADB_LOCAL_TRANSPORT_PORT)"

text \<open>
  The daemon. \<open>auth_fd\<close>, \<open>auth_listen\<close>, \<open>auth_fde\<close> and \<open>jfde\<close>, \<open>jfd\<close>, \<open>jbound\<close>, \<open>jlisten\<close> are what \<open>adb_auth_init\<close> and \<open>init_jdwp\<close> get from the system.
\<close>

definition adb_main_device ::
  "adbenv \<Rightarrow> (string \<Rightarrow> int) \<Rightarrow> addr \<Rightarrow> (int \<times> int) option \<Rightarrow> addr \<Rightarrow> int \<times> int \<times> addr \<Rightarrow> addr option \<times> int \<times> bool \<times> bool \<Rightarrow> adbd_env \<Rightarrow> int
     \<Rightarrow> proc \<Rightarrow> 'z jdwpst_scheme \<Rightarrow> (proc \<times> 'z jdwpst_scheme) outcome option" where
  "adb_main_device aenv sfds fde pair new auth jd env sport pr st =
     bindO (Some (init_transport_registration (cenv aenv) fde pair st)) (\<lambda>st.
     bindO (Some (if sysprop env ''ro.adb.secure'' ''0'' = ''1''
                  then (case auth of (auth_fd, auth_listen, a_fde) \<Rightarrow> adb_auth_init aenv auth_fd auth_listen a_fde st) else Inr st)) (\<lambda>st.
     bindO (if should_drop_privileges env then Some (bindE (drop_privileges env pr) (\<lambda>pr. Inr (pr, st)))
            else if root_seclabel env \<noteq> None \<and> selinux_enabled env \<and> \<not> setcon_ok env then Some (Inl (Fatal ''exit''))
            else
              let pr = (if root_seclabel env \<noteq> None \<and> selinux_enabled env then pr\<lparr>p_label := root_seclabel env\<rparr> else pr) in
              bindO (Some (build_local_name 30 sport)) (\<lambda>name.
              bindO (install_listener (cenv aenv) sfds new name ''*smartsocket*'' NULL False st) (\<lambda>(c, st).
                Some (if c \<noteq> INSTALL_STATUS_OK then Inl (Fatal ''exit'') else Inr (pr, st))))) (\<lambda>(pr, st).
     bindO (Some (case jd of (jfde, jfd, jbound, jlisten) \<Rightarrow> init_jdwp (cenv aenv) jfde jfd jbound jlisten st)) (\<lambda>(_, st).
       Some (Inr (pr\<lparr>p_usb := usb_present env, p_tcp := adbd_port env\<rparr>, st))))))"

end
