(* ===== verification/Start_Up_Props.thy ===== *)
theory Start_Up_Props
  imports Start_Up
begin

text \<open>
  What holds after starting: the daemon keeps the privileges of root only where the system says so, and the start of the server leaves no handle open.
\<close>

section \<open>Privileges\<close>

lemma drop_caps_spec:
  assumes "drop_caps env i pr = Inr pr'"
  shows "p_uid pr' = p_uid pr \<and> (\<forall>c\<in>p_caps pr'. c \<in> p_caps pr \<and> (i \<le> c \<and> c \<le> cap_last env \<longrightarrow> c = CAP_SETUID env \<or> c = CAP_SETGID env \<or> capbset_drop env c = Drop_einval))"
  using assms
proof (induction env i pr rule: drop_caps.induct)
  case (1 env i pr)
  show ?case
  proof (cases "i > cap_last env")
    case True
    then show ?thesis using "1.prems" by (simp add: drop_caps.simps [of env i])
  next
    case False
    have keep: "i = CAP_SETUID env \<or> i = CAP_SETGID env \<Longrightarrow> ?thesis"
      using "1.IH"(1) "1.prems" False by (auto simp: drop_caps.simps [of env i] Suc_le_eq le_eq_less_or_eq)
    show ?thesis
    proof (cases "i = CAP_SETUID env \<or> i = CAP_SETGID env")
      case other: False
      show ?thesis
      proof (cases "capbset_drop env i")
        case Dropped
        then show ?thesis using "1.IH"(2) [OF False other Dropped] "1.prems" False other
          by (auto simp: drop_caps.simps [of env i] Suc_le_eq le_eq_less_or_eq)
      next
        case Drop_einval
        then show ?thesis using "1.IH"(3) [OF False other Drop_einval] "1.prems" False other
          by (auto simp: drop_caps.simps [of env i] Suc_le_eq le_eq_less_or_eq)
      qed (use "1.prems" False other in \<open>simp add: drop_caps.simps [of env i]\<close>)
    qed (rule keep)
  qed
qed

lemma should_drop_iff:
  "should_drop_privileges env \<longleftrightarrow>
     (allow_adbd_root env \<longrightarrow> sysprop env ''ro.kernel.qemu'' [] \<noteq> ''1'' \<and> sysprop env ''ro.secure'' ''1'' = ''1'' \<and>
       \<not> (sysprop env ''ro.debuggable'' [] = ''1'' \<and> sysprop env ''service.adb.root'' [] = ''1''))"
  by (simp add: should_drop_privileges_def Let_def)

lemma drop_privileges_spec:
  assumes "drop_privileges env pr = Inr pr'"
  shows "p_uid pr' = AID_SHELL env \<and> p_gid pr' = AID_SHELL env \<and> p_groups pr' = adb_groups env \<and>
    (allow_adbd_root env \<and> sysprop env ''ro.debuggable'' [] = ''1'' \<or>
     (\<forall>c\<in>p_caps pr'. c \<le> cap_last env \<longrightarrow> c = CAP_SETUID env \<or> c = CAP_SETGID env \<or> capbset_drop env c = Drop_einval))"
proof -
  obtain pr1 where "drop_capabilities_bounding_set_if_needed env pr = Inr pr1"
    "pr' = pr1\<lparr>p_groups := adb_groups env, p_gid := AID_SHELL env, p_uid := AID_SHELL env\<rparr>"
    using assms by (auto simp: drop_privileges_def bindE_eq_Inr Let_def split: if_splits)
  then show ?thesis using drop_caps_spec [of env 0 pr pr1]
    by (auto simp: drop_capabilities_bounding_set_if_needed_def split: if_splits)
qed

text \<open>What the other parts of the start leave alone: the sockets that listen.\<close>

lemma forwards_frame: "fdstate.more st' = fdstate.more (st :: 'z lsnst_scheme) \<Longrightarrow> forwards_of st' = forwards_of st"
  by (cases st; cases st') (simp add: forwards_of_def)

lemma registration_forwards: "init_transport_registration env fde pair (st :: 'z lsnst_scheme) = Inr st' \<Longrightarrow> forwards_of st' = forwards_of st"
  by (auto simp: init_transport_registration_def bindE_eq_Inr dest!: fdevent_install_more fdevent_more(2) intro!: forwards_frame split: option.splits)

lemma auth_init_forwards: "adb_auth_init env fd l fde st = Inr st' \<Longrightarrow> forwards_of st' = forwards_of st"
  by (auto simp: adb_auth_init_def bindE_eq_Inr dest!: fdevent_install_more fdevent_more(3) intro!: forwards_frame split: if_splits)

lemma init_jdwp_forwards:
  assumes "init_jdwp env fde s b l st = Inr (r, st')"
  shows "forwards_of st' = forwards_of st"
proof -
  have c: "forwards_of (close_fd s x) = forwards_of (x :: 'z jdwpst_scheme)" for s x by (simp add: close_fd_def forwards_of_def)
  have f: "fdevent_create env fde s fn a x = Inr (q, y) \<Longrightarrow> forwards_of y = forwards_of (x :: 'z jdwpst_scheme)" for fn a x q y
    by (intro forwards_frame) (rule fdevent_create_more)
  have g: "fdevent_add q ev x = Inr y \<Longrightarrow> forwards_of y = forwards_of (x :: 'z jdwpst_scheme)" for q ev x y
    by (intro forwards_frame) (rule fdevent_more)
  have e: "forwards_of (x\<lparr>listen_socket := n\<rparr>) = forwards_of x" "forwards_of (x\<lparr>control_fde := k\<rparr>) = forwards_of x"
    "forwards_of (x\<lparr>jlinks := h, trlinks := h'\<rparr>) = forwards_of x" for x :: "'z jdwpst_scheme" and n k h h'
    by (simp_all add: forwards_of_def)
  show ?thesis using assms
    by (auto simp: init_jdwp_def jdwp_control_init_def bindE_eq_Inr Let_def c e dest!: f g split: if_splits)
qed

text \<open>
  C13: The daemon keeps the privileges of root only where the system says so. When it starts at all, it runs as the user and group \<open>shell\<close> with exactly the eleven
  extra groups of the source, accepts no clients on a port, and has in its bounding set, of the capabilities that the kernel knows, only the two for changing user
  and group and those that the kernel refused to drop with \<open>EINVAL\<close>, which the code tolerates; or all of them, when the build allows root and the system is for debugging.
  The exception is a build that allows root, on an emulator, on a system that is not secure, or on one for debugging after \<open>adb root\<close>.
\<close>

theorem adbd_root_only_if:
  assumes "adb_main_device aenv sfds fde pair new auth jd env port pr st = Some (Inr (pr', st'))"
  shows "p_uid pr' = AID_SHELL env \<and> p_gid pr' = AID_SHELL env \<and>
    p_groups pr' = [AID_ADB env, AID_LOG env, AID_INPUT env, AID_INET env, AID_GRAPHICS env, AID_NET_BT env, AID_NET_BT_ADMIN env,
      AID_SDCARD_R env, AID_SDCARD_RW env, AID_MOUNT env, AID_NET_BW_STATS env] \<and>
    forwards_of st' = forwards_of st \<and>
      (allow_adbd_root env \<and> sysprop env ''ro.debuggable'' [] = ''1'' \<or>
       (\<forall>c\<in>p_caps pr'. c \<le> cap_last env \<longrightarrow> c = CAP_SETUID env \<or> c = CAP_SETGID env \<or> capbset_drop env c = Drop_einval)) \<or>
    allow_adbd_root env \<and> (sysprop env ''ro.kernel.qemu'' [] = ''1'' \<or> sysprop env ''ro.secure'' ''1'' \<noteq> ''1'' \<or>
      sysprop env ''ro.debuggable'' [] = ''1'' \<and> sysprop env ''service.adb.root'' [] = ''1'')"
proof (cases "should_drop_privileges env")
  case False
  then show ?thesis by (auto simp: should_drop_iff)
next
  case True
  obtain st1 where st1: "init_transport_registration (cenv aenv) fde pair st = Inr st1"
    using assms(1) by (cases "init_transport_registration (cenv aenv) fde pair st") (auto simp: adb_main_device_def bindO_def)
  let ?auth = "if sysprop env ''ro.adb.secure'' ''0'' = ''1'' then (case auth of (a, b, c) \<Rightarrow> adb_auth_init aenv a b c st1) else Inr st1"
  obtain st2 where st2: "?auth = Inr st2" using assms(1) st1 by (cases ?auth) (auto simp: adb_main_device_def bindO_def)
  obtain pr1 where pr1: "drop_privileges env pr = Inr pr1"
    using assms(1) st1 st2 True by (cases "drop_privileges env pr") (auto simp: adb_main_device_def bindO_def)
  let ?jd = "case jd of (a, b, c, d) \<Rightarrow> init_jdwp (cenv aenv) a b c d st2"
  obtain r where jd: "?jd = Inr (r, st')" "pr' = pr1\<lparr>p_usb := usb_present env, p_tcp := adbd_port env\<rparr>"
    using assms(1) st1 st2 True pr1 by (cases ?jd) (auto simp: adb_main_device_def bindO_def)
  have "forwards_of st' = forwards_of st2" using jd(1) init_jdwp_forwards by (cases jd) auto
  moreover have "forwards_of st2 = forwards_of st1" using st2 auth_init_forwards by (cases auth) (auto split: if_splits)
  ultimately show ?thesis using drop_privileges_spec [OF pr1] registration_forwards [OF st1] jd(2) by (simp add: adb_groups_def)
qed

text \<open>A daemon that starts as root.\<close>

definition sample_adbd :: adbd_env where
  "sample_adbd = \<lparr>allow_adbd_root = False, sysprop = (\<lambda>_ d. d), cap_last = 1, CAP_SETUID = 7, CAP_SETGID = 1, capbset_drop = (\<lambda>_. Dropped), AID_SHELL = 2000,
     AID_ADB = 1011, AID_LOG = 1007, AID_INPUT = 1004, AID_INET = 3003, AID_GRAPHICS = 1003, AID_NET_BT = 3002, AID_NET_BT_ADMIN = 3001, AID_SDCARD_R = 1028,
     AID_SDCARD_RW = 1015, AID_MOUNT = 1009, AID_NET_BW_STATS = 3006, setgroups_ok = True, setgid_ok = True, setuid_ok = True, root_seclabel = None, selinux_enabled = False, setcon_ok = True, usb_present = True\<rparr>"

definition root_proc :: proc where
  "root_proc = \<lparr>p_uid = 0, p_gid = 0, p_groups = [], p_caps = {0, 1}, p_label = None, p_usb = False, p_tcp = None\<rparr>"

lemma install_returns:
  assumes "0 \<le> fd" and "fd \<le> 32000" and "\<forall>n. realloc_ok env n"
  shows "\<exists>st1. fdevent_install env a fd f arg st = Inr st1 \<and> fdes st1 a \<noteq> None"
  using assms by (auto simp: fdevent_install_def Let_def fdevent_register_def upd_fde_def)

lemma set_returns: "fdes st a \<noteq> None \<Longrightarrow> \<exists>st1. fdevent_set a ev st = Inr st1"
  by (auto simp: fdevent_set_def Let_def)

lemma sample_adbd_runs:
  "\<exists>pr' st'. adb_main_device sample_env (\<lambda>_. 9) 80 (Some (5, 6)) 81 (0, 0, 0) (None, - 1, True, True) sample_adbd 5037 root_proc jdwp_start = Some (Inr (pr', st')) \<and>
     p_caps pr' = {1}"
proof -
  have "\<forall>n. realloc_ok (cenv sample_env) n" by (simp add: sample_env_def)
  then obtain st0 where "fdevent_install (cenv sample_env) 80 6 Transport_registration_func NULL jdwp_start = Inr st0" "fdes st0 80 \<noteq> None"
    using install_returns [of 6 "cenv sample_env"] by fastforce
  then obtain st1 where r: "init_transport_registration (cenv sample_env) 80 (Some (5, 6)) jdwp_start = Inr st1"
    using set_returns [of st0 80 FDE_READ] by (auto simp: init_transport_registration_def)
  have d: "drop_privileges sample_adbd root_proc = Inr (root_proc\<lparr>p_caps := {1}, p_groups := adb_groups sample_adbd, p_gid := 2000, p_uid := 2000\<rparr>)"
    by (simp add: drop_privileges_def drop_capabilities_bounding_set_if_needed_def sample_adbd_def root_proc_def drop_caps.simps Let_def)
  have "should_drop_privileges sample_adbd" by (simp add: should_drop_privileges_def sample_adbd_def)
  then show ?thesis using r d by (simp add: adb_main_device_def bindO_def sample_adbd_def init_jdwp_def jdwp_control_init_def JDWP_CONTROL_NAME_def)
qed

theorem adbd_root_only_if_witness:
  "\<exists>pr' st'. adb_main_device sample_env (\<lambda>_. 9) 80 (Some (5, 6)) 81 (0, 0, 0) (None, - 1, True, True) sample_adbd 5037 root_proc jdwp_start = Some (Inr (pr', st')) \<and>
     p_uid pr' = 2000 \<and> p_caps pr' = {1} \<and> length (p_groups pr') = 11 \<and> forwards_of st' = forwards_of jdwp_start"
proof -
  obtain pr' st' where r: "adb_main_device sample_env (\<lambda>_. 9) 80 (Some (5, 6)) 81 (0, 0, 0) (None, - 1, True, True) sample_adbd 5037 root_proc jdwp_start = Some (Inr (pr', st'))"
    "p_caps pr' = {1}" using sample_adbd_runs by blast
  with adbd_root_only_if [OF r(1)] show ?thesis by (auto simp: sample_adbd_def)
qed

section \<open>Starting the server\<close>

text \<open>Whatever fails, no handle is left open, and the result is 0 exactly when the new process answers \<open>OK\<close>.\<close>

lemma launch_server_handles:
  "case launch_server_win pipe_ok process_ok reply port of (r, cmd, open_hs) \<Rightarrow>
     open_hs = [] \<and> (r = 0 \<longleftrightarrow> pipe_ok \<and> process_ok \<and> reply = Some [CHR ''O'', CHR ''K'', CHR 0x0A])"
  by (auto simp: launch_server_win_def Let_def split: option.splits)

end
