(* ===== verification/Spec2Isabelle.thy ===== *)
theory Spec2Isabelle
  imports Jdwp_Props Command_Line_Props Host_Services_Props Win_Handles_Props Sync_Client_Props Zipfile_Props Host_Keys_Props
    Usb_Windows_Props Bounded_Buffer Data_Pump Start_Up_Props
begin

text \<open>
  \<^bold>\<open>A verification library for adb\<close>

  The program (\<open>src/adb\<close>) is the Android debug bridge: one source tree for the client, for the server on the host and for the
  daemon \<open>adbd\<close> on the device. Server and daemon run one event loop. Clients talk to the server over local sockets; server and
  daemon exchange packets over a transport (USB or TCP) on which many streams are multiplexed; a stream connects a socket on one side with
  a service on the other.

  \<^bold>\<open>Parts and theories\<close>, in the order of the imports:

  \<^item> \<open>Adb_Prelude\<close>: faults as values (\<open>outcome\<close>), addresses, the number formats of the C library, little-endian words. \<open>Link_Ring\<close>:
    \<open>list.cpp\<close>, and the locale \<open>ring_list\<close>, the contract of a doubly linked list, which the lists of pending events, sockets, disconnect
    callbacks, listeners, transports, USB devices, keys, debuggable processes and their trackers are interpreted to satisfy.
  \<^item> \<open>Fdevent\<close>, \<open>Fdevent_Inv\<close>: \<open>fdevent.c\<close>, the event loop over \<open>select\<close>. State: the heap of event objects, the table of descriptors,
    the descriptor sets, the list of pending events. The invariant \<open>fd_inv\<close> ties them together; every operation keeps it, no ready descriptor is
    missed, and a turn of the loop drains the pending events (locale \<open>fd_handler\<close>: what a callback has to guarantee).
  \<^item> \<open>Rwx\<close>: \<open>readx\<close> and \<open>writex\<close> of \<open>transport.cpp\<close>. \<open>Packet\<close>: \<open>amessage\<close>, \<open>apacket\<close>, the checks of a packet, reading and writing one on a local or a
    USB transport.
  \<^item> \<open>File_Sync\<close>, \<open>File_Sync_Props\<close>: \<open>file_sync_service.c\<close> with the kernel's file calls as a parameter: push, pull, stat, list.
  \<^item> \<open>Zipfile\<close>, \<open>Zipfile_Props\<close>: \<open>zipfile.cpp\<close> and \<open>centraldir.cpp\<close>, the reader of archives, on a buffer with 32-bit pointers. \<open>Sync_Client\<close>,
    \<open>Sync_Client_Props\<close>: \<open>file_sync_client.cpp\<close>, the other end of the service; the two are composed, so that a file pushed or pulled is the file read.
  \<^item> \<open>Sockets\<close>, \<open>Sockets_Inv\<close>, \<open>Sockets_Props\<close>: \<open>sockets.cpp\<close>: local, remote and smart sockets on a heap, the two lists, the peers, closing and
    the event handler. Calls through the function pointers of a socket are calls through constructors.
  \<^item> \<open>Listeners\<close>, \<open>Listeners_Props\<close>: the listeners of \<open>adb.cpp\<close>; they refine a table from local names to targets.
  \<^item> \<open>Auth\<close>, \<open>Protocol\<close>, \<open>Protocol_Props\<close>: \<open>adb_auth_client.c\<close> and \<open>handle_packet\<close> of \<open>adb.cpp\<close> with everything it calls: connecting, authentication,
    opening, writing and closing streams, going on and off line.
  \<^item> \<open>Text_Buffer\<close>: texts printed into a C array one after another. \<open>Transports\<close>, \<open>Transports_Props\<close>: the registry of transports of \<open>transport.cpp\<close>, \<open>transport_local.cpp\<close> and \<open>transport_usb.cpp\<close>: registering,
    choosing, listing and removing devices.
  \<^item> \<open>Data_Pump\<close>: the output and the input thread of \<open>transport.cpp\<close> between a connection and the event loop, as step relations over every
    interleaving of the two threads with the loop. In \<open>link_step\<close> the loop is that of \<open>Protocol\<close> (\<open>handle_packet\<close> and the other events of a device);
    \<open>pump_step\<close> keeps only what the loop sends, and \<open>link_run_refines\<close> shows that it allows every run of the first. \<open>Sent_Packets\<close>: what the event loop sends
    for each event; the only SYNC packet it ever sends is the one that it sends back. Order is shown of \<open>pump_step\<close>, shutting down and
    the forged SYNC packet of \<open>link_step\<close>.
  \<^item> \<open>Usb_Windows\<close>, \<open>Usb_Windows_Props\<close>: \<open>usb_windows.cpp\<close> over the interface of \<open>AdbWinApi\<close> (a parameter), \<open>usb_vendors.cpp\<close> and \<open>is_adb_interface\<close>: the
    vendors, the list of open devices, searching, opening, transferring, kicking and closing.
  \<^item> \<open>Host_Keys\<close>, \<open>Host_Keys_Props\<close>: \<open>adb_auth_host.cpp\<close>: the keys of the host, their files and their list, the numbers of a public key, and the answers
    to the tokens of a device. Composed with \<open>Auth\<close> (the device reads the key the host sends) and with \<open>Protocol\<close> (the packets the host sends).
  \<^item> \<open>Smart\<close>, \<open>Smart_Props\<close>: the requests of clients: \<open>smart_socket_enqueue\<close> of \<open>sockets.cpp\<close> and \<open>handle_host_request\<close> of \<open>adb.cpp\<close>.
  \<^item> \<open>Adb_Client\<close>, \<open>Adb_Client_Props\<close>: \<open>adb_client.cpp\<close>, the side of the client: requests, status, answers, the version of the server. Both sides satisfy
    the locale \<open>hex_length\<close> (a length printed in four digits is read back), and a query is composed with the server that answers it.
  \<^item> \<open>Command_Line\<close>, \<open>Command_Line_Props\<close>: \<open>commandline.cpp\<close> and \<open>console.cpp\<close> of the Windows build: the flags, every command, the interactive shell. A command
    that runs adb again calls the same function. Its requests are composed with the parsing of the server in \<open>Smart\<close> and \<open>Listeners\<close>. \<open>Host_Services\<close>,
    \<open>Host_Services_Props\<close>: the services of the server in \<open>services.cpp\<close>: \<open>connect:\<close> on the registry of transports, and \<open>wait-for-\<close>.
  \<^item> \<open>Jdwp\<close>, \<open>Jdwp_Inv\<close>, \<open>Jdwp_Props\<close>: \<open>jdwp_service.c\<close>, on the device: the processes that can be debugged, the services that list them, the descriptors
    handed over to them. The invariant ties processes, event objects, trackers and the messages on their streams together.
  \<^item> \<open>Bip_Buffer\<close>, \<open>Win_Handles\<close>, \<open>Win_Handles_Props\<close>: the descriptors of \<open>sysdeps_win32.cpp\<close>, with the circular buffers of its socket pairs (locale
    \<open>byte_queue\<close>: a bounded queue between two threads).

  \<^item> \<open>Start_Up\<close>, \<open>Start_Up_Props\<close>: \<open>adb_main\<close> of \<open>adb.cpp\<close> on the host and on the device up to the event loop, the privileges of the daemon, \<open>launch_server\<close> on
    Windows. \<open>Bounded_Buffer\<close>: \<open>utils.cpp\<close>, which refines appending to a text.

  The records of the states extend each other: \<open>fdstate\<close>, \<open>sockst\<close>, \<open>lsnst\<close>, \<open>adbst\<close>, and from there \<open>tregst\<close> and \<open>usbst\<close> (host) and \<open>jdwpst\<close> (device); on the side of the client, \<open>clientst\<close> and \<open>cmdst\<close>; so that an operation of a lower part applies to the
  states of every higher part, and its lemmas with it.

  \<^bold>\<open>What the properties show.\<close> Structure is kept: event objects, sockets with their peers, listeners, transports, handle records, USB devices. Data
  arrive unchanged and in order: packets, the streams of local sockets, pushed and pulled files, archives, requests in pieces, socket pairs, the arguments of commands, public keys. Security: a transport that needs
  authentication goes on line only after a signature or a key that the user allowed; the daemon keeps its privileges only where the build and the system allow it. Buffers: what fits and what overruns. Waiting: what returns
  and when. Some theorems state faults of the code, which are also listed as findings: a socket used after it was freed, a device lost from
  the list, a listing that overruns its buffer, a leaked handle, a descriptor closed twice, a process that never leaves the list, output printed
  twice, a request that the server cannot read.

  \<^bold>\<open>Bounds and fuel.\<close> Closing a socket recurses through \<open>socket_close\<close> with a depth of four: the invariant shows that it suffices (a socket, its peer,
  and no further). Loops over a linked list are \<open>partial_function (option)\<close>: \<open>None\<close> means that the list does not come back to its head, and the
  invariants exclude it. The command line calls itself through \<open>do_cmd\<close> with a depth of two: \<open>commandline_depth\<close> shows that it suffices. \<open>None\<close> of a command is a loop that does
  not end, for example waiting for a device. \<open>None\<close> of \<open>acquire_one_transport\<close> is waiting for ever, and of the calls on a socket pair waiting for the other end. What a descriptor
  delivers or accepts is a finite script in the state. \<open>size_t\<close> has 32 bits, as in the build files; \<open>MAX_PAYLOAD\<close>, table sizes and buffer sizes are the code's.

  \<^bold>\<open>Not modelled.\<close> Locks and memory orders: threads are interleavings of whole calls (\<open>Data_Pump\<close>, the circular buffers) or sequences of operations. The services of
  the device (\<open>services.cpp\<close> outside \<open>ADB_HOST\<close>, frame buffer, log, remount, backup), which are \<open>fork\<close>, ptys and ioctls and which the sockets see as a descriptor.
  RSA, big numbers, PEM and base64 of OpenSSL, parameters of the keys and of the authentication. The USB back ends of the other platforms and the other wrappers of
  system calls. Logging, \<open>main\<close>, the \<open>fork\<close> of \<open>launch_server\<close> on Unix, and the text
  of \<open>help\<close>. Conversions of character sets (\<open>stringcov.cpp\<close>, \<open>common.cpp\<close>), a parameter of the command line. The Windows event loop, whose state is that of Win32 event
  objects; the loop over \<open>select\<close> is modelled in its place. The device trackers of \<open>transport.cpp\<close>: their peers are local sockets, so that closing one calls back from
  \<open>sockets.cpp\<close> into \<open>transport.cpp\<close> through a function pointer, for which the sockets of the model have no constructor; a tracker is a parameter of
  \<open>host_service_to_socket\<close>.
\<close>

end
